(* ===== verification/Ruwa_Prelude.thy ===== *)
theory Ruwa_Prelude
  imports Main "HOL-Library.Word" "HOL-Library.Char_ord" "HOL-Library.List_Lexorder"
begin

text \<open>
  What every component shares: bytes and machine words, Rust strings as sequences of
  UTF-8 code units, the string functions of the Rust standard library that the sources
  call, big-endian integers, and the reader type of the byte decoders together with the
  calculus in which the codec proofs are done.
\<close>

unbundle bit_operations_syntax

section \<open>Bytes and strings\<close>

type_synonym u8 = "8 word"
type_synonym u16 = "16 word"
type_synonym u32 = "32 word"
type_synonym u64 = "64 word"
type_synonym bytes = "8 word list"

text \<open>A Rust \<open>String\<close> is its UTF-8 code units: one \<^typ>\<open>char\<close> per byte.\<close>

definition byte_of :: "char \<Rightarrow> u8" where
  "byte_of c = word_of_nat (of_char c)"

definition char_of_byte :: "u8 \<Rightarrow> char" where
  "char_of_byte b = char_of (unat b)"

definition as_bytes :: "string \<Rightarrow> bytes" where
  "as_bytes s = map byte_of s"

definition str_of :: "bytes \<Rightarrow> string" where
  "str_of bs = map char_of_byte bs"

lemma unat_byte_of: "unat (byte_of c) = of_char c"
proof -
  have "of_char c < (256 :: nat)" by (metis nat_of_char_less_256)
  then show ?thesis by (simp add: byte_of_def unsigned_of_nat take_bit_nat_eq_self_iff)
qed

lemma char_of_byte_of [simp]: "char_of_byte (byte_of c) = c"
  by (simp add: char_of_byte_def unat_byte_of)

lemma byte_of_char_of_byte [simp]: "byte_of (char_of_byte b) = b"
proof -
  have "unat b < 2 ^ LENGTH(8)" by (rule unsigned_less)
  then have "unat b < 256" by simp
  then have "of_char (char_of (unat b)) = unat b" by simp
  then show ?thesis by (simp add: byte_of_def char_of_byte_def)
qed

lemma str_of_as_bytes [simp]: "str_of (as_bytes s) = s"
  by (simp add: str_of_def as_bytes_def comp_def)

lemma as_bytes_str_of [simp]: "as_bytes (str_of bs) = bs"
  by (simp add: str_of_def as_bytes_def comp_def)

lemma length_as_bytes [simp]: "length (as_bytes s) = length s"
  by (simp add: as_bytes_def)

lemma length_str_of [simp]: "length (str_of bs) = length bs"
  by (simp add: str_of_def)

lemma as_bytes_Nil [simp]: "as_bytes [] = []"
  by (simp add: as_bytes_def)

lemma as_bytes_Cons [simp]: "as_bytes (c # s) = byte_of c # as_bytes s"
  by (simp add: as_bytes_def)

lemma as_bytes_append [simp]: "as_bytes (s @ t) = as_bytes s @ as_bytes t"
  by (simp add: as_bytes_def)

lemma str_of_append [simp]: "str_of (xs @ ys) = str_of xs @ str_of ys"
  by (simp add: str_of_def)

lemma byte_of_inject [simp]: "byte_of c = byte_of d \<longleftrightarrow> c = d"
  by (metis char_of_byte_of)

section \<open>UTF-8 validity\<close>

text \<open>\<open>String::from_utf8\<close> accepts exactly the well-formed sequences of the Unicode
  standard (no overlong forms, no surrogates, nothing above U+10FFFF).\<close>

text \<open>The ranges that the bytes following a lead byte must lie in.\<close>

definition utf8_lead :: "u8 \<Rightarrow> (u8 \<times> u8) list option" where
  "utf8_lead b =
    (if b < 0x80 then Some []
     else if 0xC2 \<le> b \<and> b \<le> 0xDF then Some [(0x80, 0xBF)]
     else if b = 0xE0 then Some [(0xA0, 0xBF), (0x80, 0xBF)]
     else if b = 0xED then Some [(0x80, 0x9F), (0x80, 0xBF)]
     else if 0xE1 \<le> b \<and> b \<le> 0xEF then Some [(0x80, 0xBF), (0x80, 0xBF)]
     else if b = 0xF0 then Some [(0x90, 0xBF), (0x80, 0xBF), (0x80, 0xBF)]
     else if b = 0xF4 then Some [(0x80, 0x8F), (0x80, 0xBF), (0x80, 0xBF)]
     else if 0xF1 \<le> b \<and> b \<le> 0xF3 then Some [(0x80, 0xBF), (0x80, 0xBF), (0x80, 0xBF)]
     else None)"

fun utf8_from :: "(u8 \<times> u8) list \<Rightarrow> bytes \<Rightarrow> bool" where
  "utf8_from [] [] = True"
| "utf8_from (r # rs) [] = False"
| "utf8_from (r # rs) (b # bs) = (fst r \<le> b \<and> b \<le> snd r \<and> utf8_from rs bs)"
| "utf8_from [] (b # bs) =
    (case utf8_lead b of None \<Rightarrow> False | Some rs \<Rightarrow> utf8_from rs bs)"

definition utf8_valid :: "bytes \<Rightarrow> bool" where
  "utf8_valid bs = utf8_from [] bs"

definition from_utf8 :: "bytes \<Rightarrow> string option" where
  "from_utf8 bs = (if utf8_valid bs then Some (str_of bs) else None)"

text \<open>The invariant of the Rust type \<open>String\<close>.\<close>

definition rust_string :: "string \<Rightarrow> bool" where
  "rust_string s \<longleftrightarrow> utf8_valid (as_bytes s)"

lemma from_utf8_as_bytes: "rust_string s \<Longrightarrow> from_utf8 (as_bytes s) = Some s"
  by (simp add: from_utf8_def rust_string_def)

lemma utf8_lead_ascii [simp]: "b < 0x80 \<Longrightarrow> utf8_lead b = Some []"
  by (simp add: utf8_lead_def)

lemma utf8_valid_Nil [simp]: "utf8_valid []"
  by (simp add: utf8_valid_def)

lemma utf8_valid_Cons_ascii [simp]: "b < 0x80 \<Longrightarrow> utf8_valid (b # bs) = utf8_valid bs"
  by (simp add: utf8_valid_def)

lemma utf8_valid_ascii: "list_all (\<lambda>b. b < 0x80) bs \<Longrightarrow> utf8_valid bs"
  by (induction bs) auto

text \<open>An ASCII byte is never inside a multi-byte sequence, so a valid string that is cut
  at one (as \<open>split_once\<close> and its kin do) is cut into valid strings.\<close>

lemma utf8_lead_ranges: "utf8_lead b = Some rs \<Longrightarrow> list_all (\<lambda>r. 0x80 \<le> fst r) rs"
  by (auto simp: utf8_lead_def split: if_splits)

lemma utf8_from_cut:
  "utf8_from rs (xs @ b # ys) \<Longrightarrow> b < 0x80 \<Longrightarrow> list_all (\<lambda>r. 0x80 \<le> fst r) rs \<Longrightarrow>
    utf8_from rs xs \<and> utf8_from [] ys"
proof (induction rs xs rule: utf8_from.induct)
  case (2 r rs)
  then have "fst r \<le> b" "0x80 \<le> fst r" by auto
  then have "0x80 \<le> b" by (rule order.trans [rotated])
  with "2.prems" show ?case by (simp add: not_less)
next
  case (4 b bs)
  then show ?case by (auto split: option.splits dest: utf8_lead_ranges)
qed auto

lemma utf8_valid_cut:
  "utf8_valid (xs @ b # ys) \<Longrightarrow> b < 0x80 \<Longrightarrow> utf8_valid xs \<and> utf8_valid ys"
  unfolding utf8_valid_def by (rule utf8_from_cut) auto

lemma utf8_from_append: "utf8_from rs xs \<Longrightarrow> utf8_from [] ys \<Longrightarrow> utf8_from rs (xs @ ys)"
  by (induction rs xs rule: utf8_from.induct) (auto split: option.splits)

lemma utf8_valid_append: "utf8_valid xs \<Longrightarrow> utf8_valid ys \<Longrightarrow> utf8_valid (xs @ ys)"
  unfolding utf8_valid_def by (rule utf8_from_append)

lemma byte_of_ascii: "byte_of c < 0x80 \<longleftrightarrow> of_char c < (128 :: nat)"
  by (simp add: word_less_nat_alt unat_byte_of)

definition ascii_char :: "char \<Rightarrow> bool" where
  "ascii_char c \<longleftrightarrow> of_char c < (128 :: nat)"

lemma rust_string_cut:
  "rust_string (s @ c # t) \<Longrightarrow> ascii_char c \<Longrightarrow> rust_string s \<and> rust_string t"
  by (auto simp: rust_string_def ascii_char_def byte_of_ascii dest: utf8_valid_cut)

lemma rust_string_append: "rust_string s \<Longrightarrow> rust_string t \<Longrightarrow> rust_string (s @ t)"
  by (simp add: rust_string_def utf8_valid_append)

lemma rust_string_ascii: "list_all ascii_char s \<Longrightarrow> rust_string s"
  unfolding rust_string_def
  by (rule utf8_valid_ascii) (auto simp: list_all_iff as_bytes_def ascii_char_def byte_of_ascii)

section \<open>Standard-library string functions\<close>

text \<open>\<open>str::split_once(c)\<close> and \<open>str::rsplit_once(c)\<close> for an ASCII \<open>c\<close>.\<close>

fun split_once :: "char \<Rightarrow> string \<Rightarrow> (string \<times> string) option" where
  "split_once c [] = None"
| "split_once c (x # xs) =
    (if x = c then Some ([], xs)
     else map_option (\<lambda>(a, b). (x # a, b)) (split_once c xs))"

definition rsplit_once :: "char \<Rightarrow> string \<Rightarrow> (string \<times> string) option" where
  "rsplit_once c s = map_option (\<lambda>(a, b). (rev b, rev a)) (split_once c (rev s))"

lemma split_once_None [simp]: "split_once c s = None \<longleftrightarrow> c \<notin> set s"
  by (induction s) auto

lemma split_once_sound: "split_once c s = Some (a, b) \<Longrightarrow> s = a @ c # b \<and> c \<notin> set a"
  by (induction s arbitrary: a b) (auto split: if_splits)

lemma split_once_complete: "c \<notin> set a \<Longrightarrow> split_once c (a @ c # b) = Some (a, b)"
  by (induction a) auto

lemma split_once_Some: "split_once c s = Some (a, b) \<longleftrightarrow> s = a @ c # b \<and> c \<notin> set a"
  using split_once_sound split_once_complete by blast

lemma rsplit_once_None [simp]: "rsplit_once c s = None \<longleftrightarrow> c \<notin> set s"
  by (simp add: rsplit_once_def)

lemma rsplit_once_Some: "rsplit_once c s = Some (a, b) \<longleftrightarrow> s = a @ c # b \<and> c \<notin> set b"
proof -
  have "rsplit_once c s = Some (a, b) \<longleftrightarrow> split_once c (rev s) = Some (rev b, rev a)"
    by (force simp: rsplit_once_def)
  also have "\<dots> \<longleftrightarrow> rev s = rev (a @ c # b) \<and> c \<notin> set b"
    by (simp add: split_once_Some)
  finally show ?thesis by (simp only: rev_is_rev_conv)
qed

text \<open>\<open>char::is_ascii_digit\<close>, decimal formatting and \<open>str::parse\<close> for an unsigned type with
  greatest value \<open>mx\<close>: an optional leading plus sign, then at least one digit, any number
  of leading zeros, and an error on overflow.\<close>

definition is_ascii_digit :: "char \<Rightarrow> bool" where
  "is_ascii_digit c \<longleftrightarrow> 48 \<le> (of_char c :: nat) \<and> of_char c \<le> (57 :: nat)"

definition digit_val :: "char \<Rightarrow> nat" where
  "digit_val c = of_char c - 48"

definition digit_char :: "nat \<Rightarrow> char" where
  "digit_char d = char_of (48 + d)"

fun show_nat :: "nat \<Rightarrow> string" where
  "show_nat n = (if n < 10 then [digit_char n] else show_nat (n div 10) @ [digit_char (n mod 10)])"

declare show_nat.simps [simp del]

definition show_int :: "int \<Rightarrow> string" where
  "show_int i = (if i < 0 then CHR ''-'' # show_nat (nat (- i)) else show_nat (nat i))"

definition digits_value :: "string \<Rightarrow> nat" where
  "digits_value s = foldl (\<lambda>a c. 10 * a + digit_val c) 0 s"

definition parse_uint :: "nat \<Rightarrow> string \<Rightarrow> nat option" where
  "parse_uint mx s =
    (let ds = (case s of c # r \<Rightarrow> if c = CHR ''+'' \<and> r \<noteq> [] then r else s | [] \<Rightarrow> [])
     in if ds = [] \<or> \<not> list_all is_ascii_digit ds then None
        else if digits_value ds \<le> mx then Some (digits_value ds) else None)"

lemma digit_char_props:
  assumes "d < 10"
  shows "is_ascii_digit (digit_char d)" "digit_val (digit_char d) = d"
proof -
  have "of_char (digit_char d) = 48 + d" using assms by (simp add: digit_char_def)
  then show "is_ascii_digit (digit_char d)" "digit_val (digit_char d) = d"
    using assms by (simp_all add: is_ascii_digit_def digit_val_def)
qed

lemma show_nat_not_Nil [simp]: "show_nat n \<noteq> []"
  by (subst show_nat.simps) simp

lemma show_nat_digits: "list_all is_ascii_digit (show_nat n)"
proof (induction n rule: show_nat.induct)
  case (1 n)
  then show ?case by (subst show_nat.simps) (simp add: digit_char_props)
qed

lemma digits_value_show_nat [simp]: "digits_value (show_nat n) = n"
proof (induction n rule: show_nat.induct)
  case (1 n)
  show ?case
  proof (cases "n < 10")
    case True
    then show ?thesis by (subst show_nat.simps) (simp add: digits_value_def digit_char_props)
  next
    case False
    with 1 have "digits_value (show_nat (n div 10)) = n div 10" by simp
    with False show ?thesis
      by (subst show_nat.simps) (simp add: digits_value_def digit_char_props)
  qed
qed

lemma is_ascii_digit_not_plus: "is_ascii_digit c \<Longrightarrow> c \<noteq> CHR ''+''"
  by (auto simp: is_ascii_digit_def)

lemma parse_uint_digits:
  assumes "list_all is_ascii_digit s" "s \<noteq> []" "digits_value s \<le> mx"
  shows "parse_uint mx s = Some (digits_value s)"
proof -
  from assms obtain c r where s: "s = c # r" "c \<noteq> CHR ''+''"
    by (cases s) (auto dest: is_ascii_digit_not_plus)
  with assms show ?thesis by (simp add: parse_uint_def)
qed

lemma parse_uint_show_nat: "n \<le> mx \<Longrightarrow> parse_uint mx (show_nat n) = Some n"
  using parse_uint_digits [of "show_nat n" mx] by (simp add: show_nat_digits)

lemma parse_uint_le: "parse_uint mx s = Some n \<Longrightarrow> n \<le> mx"
  by (auto simp: parse_uint_def Let_def split: if_splits)

section \<open>Big-endian integers\<close>

text \<open>\<open>be_bytes k n\<close>: the low \<open>k\<close> bytes of \<open>n\<close>, most significant first (each \<open>as u8\<close>
  truncates); \<open>be_nat\<close>: the value the shift-and-or loops accumulate.\<close>

primrec be_bytes :: "nat \<Rightarrow> nat \<Rightarrow> bytes" where
  "be_bytes 0 n = []"
| "be_bytes (Suc k) n = word_of_nat (n div 256 ^ k) # be_bytes k n"

definition be_nat :: "bytes \<Rightarrow> nat" where
  "be_nat bs = foldl (\<lambda>v b. push_bit 8 v OR unat b) 0 bs"

lemma push_bit_or_nat: "b < 2 ^ k \<Longrightarrow> push_bit k a OR b = a * 2 ^ k + (b :: nat)"
proof -
  assume "b < 2 ^ k"
  then have b: "take_bit k b = b" by (simp add: take_bit_nat_eq_self_iff)
  have "push_bit k a + take_bit k b = push_bit k a OR take_bit k b"
    by (rule disjunctive_add) (auto simp: bit_simps)
  with b show ?thesis by (simp add: push_bit_eq_mult)
qed

lemma unat_u8_less [simp]: "unat (b :: u8) < 256"
proof -
  have "unat b < 2 ^ LENGTH(8)" by (rule unsigned_less)
  then show ?thesis by simp
qed

lemma push_bit_8_or_byte: "push_bit 8 v OR unat (b :: u8) = v * 256 + unat b"
  using push_bit_or_nat [of "unat b" 8 v] by simp

lemma be_nat_foldl: "be_nat bs = foldl (\<lambda>v b. v * 256 + unat b) 0 bs"
  by (simp add: be_nat_def push_bit_8_or_byte)

lemma length_be_bytes [simp]: "length (be_bytes k n) = k"
  by (induction k) auto

lemma unat_u8_of_nat [simp]: "unat (word_of_nat n :: u8) = n mod 256"
  by (simp add: unsigned_of_nat take_bit_eq_mod)

lemma foldl_be: "foldl (\<lambda>v b. v * 256 + unat b) a (bs :: bytes) = a * 256 ^ length bs + be_nat bs"
proof (induction bs arbitrary: a)
  case Nil
  then show ?case by (simp add: be_nat_foldl)
next
  case (Cons b bs)
  have "be_nat (b # bs) = unat b * 256 ^ length bs + be_nat bs"
    using Cons [of "unat b"] by (simp add: be_nat_foldl)
  with Cons [of "a * 256 + unat b"] show ?case by (simp add: algebra_simps)
qed

lemma be_nat_Nil [simp]: "be_nat [] = 0"
  by (simp add: be_nat_def)

lemma be_nat_Cons: "be_nat (b # bs) = unat b * 256 ^ length bs + be_nat bs"
  using foldl_be [of "unat b" bs] by (simp add: be_nat_foldl)

lemma be_nat_be_bytes [simp]: "be_nat (be_bytes k n) = n mod 256 ^ k"
proof (induction k)
  case (Suc k)
  have "n mod 256 ^ Suc k = 256 ^ k * (n div 256 ^ k mod 256) + n mod 256 ^ k"
    by (metis mod_mult2_eq mult.commute power_Suc)
  with Suc show ?case by (simp add: be_nat_Cons)
qed simp

lemma be_nat_less: "be_nat bs < 256 ^ length bs"
proof (induction bs)
  case (Cons b bs)
  have "unat b \<le> 255" by (rule less_Suc_eq_le [THEN iffD1]) simp
  then have "unat b * 256 ^ length bs \<le> 255 * 256 ^ length bs" by (rule mult_right_mono) simp
  with Cons show ?case unfolding be_nat_Cons length_Cons power_Suc by linarith
qed simp

section \<open>Results\<close>

text \<open>
  What a Rust function returning \<open>Result<T, E>\<close> can do: return a value, return an error, or
  panic (an index out of range, an \<open>unreachable!\<close>, an \<open>expect\<close> that fails). The bind is the
  question-mark operator.
\<close>

datatype ('e, 'a) outcome = Ok (the_ok: 'a) | Err 'e | Panic

definition obind :: "('e, 'a) outcome \<Rightarrow> ('a \<Rightarrow> ('e, 'b) outcome) \<Rightarrow> ('e, 'b) outcome" where
  "obind r k = (case r of Ok x \<Rightarrow> k x | Err e \<Rightarrow> Err e | Panic \<Rightarrow> Panic)"

lemma obind_simps [simp]: "obind (Ok x) k = k x" "obind (Err e) k = Err e" "obind Panic k = Panic"
  by (simp_all add: obind_def)

lemma obind_eq_Ok: "obind r k = Ok y \<longleftrightarrow> (\<exists>x. r = Ok x \<and> k x = Ok y)"
  by (cases r) auto

lemma obind_eq_Panic: "obind r k = Panic \<longleftrightarrow> r = Panic \<or> (\<exists>x. r = Ok x \<and> k x = Panic)"
  by (cases r) auto

lemma obind_eq_Err: "obind r k = Err e \<longleftrightarrow> r = Err e \<or> (\<exists>x. r = Ok x \<and> k x = Err e)"
  by (cases r) auto

text \<open>\<open>Option::ok_or\<close>, and the panic of an \<open>expect\<close> or an unreachable arm.\<close>

definition ok_or :: "'a option \<Rightarrow> 'e \<Rightarrow> ('e, 'a) outcome" where
  "ok_or x e = (case x of None \<Rightarrow> Err e | Some y \<Rightarrow> Ok y)"

definition or_panic :: "'a option \<Rightarrow> ('e, 'a) outcome" where
  "or_panic x = (case x of None \<Rightarrow> Panic | Some y \<Rightarrow> Ok y)"

lemma ok_or_simps [simp]: "ok_or None e = Err e" "ok_or (Some y) e = Ok y"
  by (simp_all add: ok_or_def)

lemma or_panic_simps [simp]: "or_panic None = Panic" "or_panic (Some y) = Ok y"
  by (simp_all add: or_panic_def)

lemma ok_or_eq_Ok [simp]: "ok_or x e = Ok y \<longleftrightarrow> x = Some y"
  by (cases x) auto

lemma or_panic_eq_Ok [simp]: "or_panic x = Ok y \<longleftrightarrow> x = Some y"
  by (cases x) auto

text \<open>\<open>map_err\<close>, an early \<open>return Err\<close>, \<open>unwrap_or\<close>.\<close>

definition map_err :: "('e \<Rightarrow> 'f) \<Rightarrow> ('e, 'a) outcome \<Rightarrow> ('f, 'a) outcome" where
  "map_err f r = (case r of Ok x \<Rightarrow> Ok x | Err e \<Rightarrow> Err (f e) | Panic \<Rightarrow> Panic)"

definition guard_err :: "bool \<Rightarrow> 'e \<Rightarrow> ('e, unit) outcome" where
  "guard_err b e = (if b then Err e else Ok ())"

definition or_default :: "'a \<Rightarrow> 'a option \<Rightarrow> 'a" where
  "or_default d x = (case x of Some y \<Rightarrow> y | None \<Rightarrow> d)"

lemma map_err_simps [simp]:
  "map_err f (Ok x) = Ok x" "map_err f (Err e) = Err (f e)" "map_err f Panic = Panic"
  by (simp_all add: map_err_def)

lemma map_err_eq_Ok [simp]: "map_err f r = Ok x \<longleftrightarrow> r = Ok x"
  by (cases r) auto

lemma guard_err_eq_Ok [simp]: "guard_err b e = Ok u \<longleftrightarrow> \<not> b"
  by (simp add: guard_err_def)

section \<open>Operations on a state\<close>

text \<open>A method on \<open>&mut self\<close> returns its result and leaves a state, on errors too.\<close>

definition sbind ::
  "('s \<Rightarrow> ('e, 'a) outcome \<times> 's) \<Rightarrow> ('a \<Rightarrow> 's \<Rightarrow> ('e, 'b) outcome \<times> 's) \<Rightarrow> 's \<Rightarrow> ('e, 'b) outcome \<times> 's"
  where
  "sbind m k s = (case m s of
     (Ok x, s) \<Rightarrow> k x s | (Err e, s) \<Rightarrow> (Err e, s) | (Panic, s) \<Rightarrow> (Panic, s))"

definition slift :: "('e, 'a) outcome \<Rightarrow> 's \<Rightarrow> ('e, 'a) outcome \<times> 's" where
  "slift r s = (r, s)"

lemma sbind_eq_Ok:
  "sbind m k s = (Ok y, s'') \<longleftrightarrow> (\<exists>x s'. m s = (Ok x, s') \<and> k x s' = (Ok y, s''))"
  by (auto simp: sbind_def split: prod.splits outcome.splits)

lemma sbind_Ok: "m s = (Ok x, s') \<Longrightarrow> sbind m k s = k x s'"
  by (simp add: sbind_def)

lemma sbind_slift [simp]: "sbind (slift (Ok x)) k s = k x s"
  "sbind (slift (Err e)) k s = (Err e, s)" "sbind (slift Panic) k s = (Panic, s)"
  by (simp_all add: sbind_def slift_def)

lemma slift_eq_Ok [simp]: "slift r s = (Ok x, s') \<longleftrightarrow> r = Ok x \<and> s' = s"
  by (auto simp: slift_def)

text \<open>Invariants of stateful operations, whatever their result.\<close>

definition keeps :: "('s \<Rightarrow> bool) \<Rightarrow> ('s \<Rightarrow> 'a \<times> 's) \<Rightarrow> bool" where
  "keeps I m \<longleftrightarrow> (\<forall>s x s'. I s \<longrightarrow> m s = (x, s') \<longrightarrow> I s')"

lemma keepsI: "(\<And>s x s'. I s \<Longrightarrow> m s = (x, s') \<Longrightarrow> I s') \<Longrightarrow> keeps I m"
  by (simp add: keeps_def)

lemma keepsD: "keeps I m \<Longrightarrow> I s \<Longrightarrow> m s = (x, s') \<Longrightarrow> I s'"
  by (auto simp: keeps_def)

lemma keeps_sbind:
  assumes "keeps I m" "\<And>x. keeps I (k x)"
  shows "keeps I (sbind m k)"
proof (rule keepsI)
  fix s x s'
  assume "I s" "sbind m k s = (x, s')"
  moreover obtain y t where "m s = (y, t)" by fastforce
  moreover from this \<open>I s\<close> have "I t" by (rule keepsD [OF assms(1), rotated])
  ultimately show "I s'" using assms(2) by (cases y) (auto simp: sbind_def dest: keepsD)
qed

lemma keeps_state: "(\<And>s. keeps I (m s)) \<Longrightarrow> keeps I (\<lambda>s. m s s)"
  by (simp add: keeps_def)

lemma keeps_slift: "keeps I (slift r)"
  by (simp add: keeps_def slift_def)


section \<open>Indexing and slicing\<close>

text \<open>\<open>p[i]\<close> and \<open>p[a..b]\<close>, which panic out of range.\<close>

definition index_at :: "'a list \<Rightarrow> nat \<Rightarrow> ('e, 'a) outcome" where
  "index_at p i = (if i < length p then Ok (p ! i) else Panic)"

definition slice :: "'a list \<Rightarrow> nat \<Rightarrow> nat \<Rightarrow> ('e, 'a list) outcome" where
  "slice p a b = (if a \<le> b \<and> b \<le> length p then Ok (take (b - a) (drop a p)) else Panic)"

lemma index_at_Ok [simp]: "i < length p \<Longrightarrow> index_at p i = Ok (p ! i)"
  by (simp add: index_at_def)

lemma index_at_append_length [simp]: "index_at (p @ x # q) (length p) = Ok x"
  by (simp add: index_at_def)

lemma slice_append [simp]: "slice (p @ q @ r) (length p) (length p + length q) = Ok q"
  by (simp add: slice_def)

lemma slice_Ok: "a \<le> b \<Longrightarrow> b \<le> length p \<Longrightarrow> slice p a b = Ok (take (b - a) (drop a p))"
  by (simp add: slice_def)


section \<open>Statements about every byte, and words as bytes\<close>

lemma u8_cases: "(\<And>n. n < 256 \<Longrightarrow> P (word_of_nat n)) \<Longrightarrow> P (b :: u8)"
proof -
  assume "\<And>n. n < 256 \<Longrightarrow> P (word_of_nat n)"
  from this [of "unat b"] show ?thesis by simp
qed

lemma all_u8: "(\<forall>b :: u8. P b) \<longleftrightarrow> list_all P (map word_of_nat [0..<256])"
  by (auto simp: list_all_iff intro: u8_cases)

lemma list_of_2: "length xs = 2 \<Longrightarrow> \<exists>a b. xs = [a, b]"
  by (auto simp: numeral_eq_Suc length_Suc_conv)

lemma list_of_4: "length xs = 4 \<Longrightarrow> \<exists>a b c d. xs = [a, b, c, d]"
  by (auto simp: numeral_eq_Suc length_Suc_conv)

lemma unat_u16_less: "unat (w :: u16) < 65536"
  using unsigned_less [of w] by simp

lemma unat_u32_less: "unat (w :: u32) < 4294967296"
  using unsigned_less [of w] by simp

lemma u16_be_bytes [simp]: "word_of_nat (be_nat (be_bytes 2 (unat w))) = (w :: u16)"
  using unat_u16_less [of w] by simp

lemma u32_be_bytes [simp]: "word_of_nat (be_nat (be_bytes 4 (unat w))) = (w :: u32)"
  using unat_u32_less [of w] by simp

section \<open>Trimming, signed numbers and lossy text\<close>

text \<open>\<open>str::trim\<close> removes the code points with the property \<open>White_Space\<close>, here in UTF-8.\<close>

definition white_space :: "bytes list" where
  "white_space =
    map (\<lambda>b. [b]) [0x09, 0x0A, 0x0B, 0x0C, 0x0D, 0x20] @ [[0xC2, 0x85], [0xC2, 0xA0], [0xE1, 0x9A, 0x80]] @
    map (\<lambda>b. [0xE2, 0x80, b]) [0x80, 0x81, 0x82, 0x83, 0x84, 0x85, 0x86, 0x87, 0x88, 0x89, 0x8A, 0xA8, 0xA9, 0xAF] @
    [[0xE2, 0x81, 0x9F], [0xE3, 0x80, 0x80]]"

definition strip_one :: "bytes list \<Rightarrow> bytes \<Rightarrow> bytes option" where
  "strip_one ws s =
    (case filter (\<lambda>w. take (length w) s = w) ws of [] \<Rightarrow> None | w # _ \<Rightarrow> Some (drop (length w) s))"

fun strip_all_from :: "nat \<Rightarrow> bytes list \<Rightarrow> bytes \<Rightarrow> bytes" where
  "strip_all_from 0 ws s = s"
| "strip_all_from (Suc n) ws s = (case strip_one ws s of None \<Rightarrow> s | Some t \<Rightarrow> strip_all_from n ws t)"

definition trim :: "string \<Rightarrow> string" where
  "trim s =
    (let b = as_bytes s;
         b = strip_all_from (length b) white_space b;
         b = rev (strip_all_from (length b) (map rev white_space) (rev b))
     in str_of b)"

definition plain_char :: "char \<Rightarrow> bool" where
  "plain_char c \<longleftrightarrow> 0x20 < byte_of c \<and> byte_of c < 0x7f"

lemma strip_one_plain:
  assumes "b \<notin> set (map hd ws)" "list_all (\<lambda>w. w \<noteq> []) ws"
  shows "strip_one ws (b # bs) = None"
proof -
  have "take (length w) (b # bs) \<noteq> w" if w: "w \<in> set ws" for w
  proof
    assume t: "take (length w) (b # bs) = w"
    obtain x xs where "w = x # xs" using assms(2) w by (cases w) (auto simp: list_all_iff)
    then have "hd w = b" using t by simp
    then show False using assms(1) w by auto
  qed
  then have "filter (\<lambda>w. take (length w) (b # bs) = w) ws = []" by (simp add: filter_empty_conv)
  then show ?thesis by (simp add: strip_one_def)
qed

lemma strip_one_Nil: "list_all (\<lambda>w. w \<noteq> []) ws \<Longrightarrow> strip_one ws [] = None"
proof -
  assume "list_all (\<lambda>w. w \<noteq> []) ws"
  then have "filter (\<lambda>w. take (length w) [] = w) ws = []" by (auto simp: filter_empty_conv list_all_iff)
  then show ?thesis by (simp add: strip_one_def)
qed

lemma white_space_hd:
  "0x20 < b \<Longrightarrow> b < 0x7f \<Longrightarrow> b \<notin> set (map hd white_space) \<and> b \<notin> set (map hd (map rev white_space))"
  by (auto simp: white_space_def)

lemma strip_all_plain:
  assumes "ws = white_space \<or> ws = map rev white_space" "list_all plain_char s"
  shows "strip_all_from n ws (as_bytes s) = as_bytes s"
proof (cases n)
  case (Suc m)
  have ne: "list_all (\<lambda>w. w \<noteq> []) ws" using assms(1) by (auto simp: white_space_def)
  show ?thesis
  proof (cases s)
    case (Cons c cs)
    then have "byte_of c \<notin> set (map hd ws)" using assms white_space_hd [of "byte_of c"] by (auto simp: plain_char_def)
    from strip_one_plain [OF this ne] show ?thesis by (simp add: Suc Cons)
  qed (simp add: Suc strip_one_Nil [OF ne])
qed simp

lemma rev_as_bytes: "rev (as_bytes s) = as_bytes (rev s)"
  by (simp add: as_bytes_def rev_map)

lemma trim_plain: "list_all plain_char s \<Longrightarrow> trim s = s"
  using strip_all_plain [of white_space s] strip_all_plain [of "map rev white_space" "rev s"]
  by (simp add: trim_def rev_as_bytes list_all_rev)

text \<open>\<open>parse::<i64>\<close>: a sign, then digits, in range.\<close>

definition parse_i64 :: "string \<Rightarrow> int option" where
  "parse_i64 s =
    (case s of c # r \<Rightarrow>
       if c = CHR ''-'' then
         (if r = [] \<or> \<not> list_all is_ascii_digit r then None
          else if digits_value r \<le> 9223372036854775808 then Some (- int (digits_value r)) else None)
       else map_option int (parse_uint 9223372036854775807 s)
     | [] \<Rightarrow> None)"

text \<open>\<open>String::from_utf8_lossy\<close>: each maximal prefix of a sequence that turns out wrong becomes
  U+FFFD. The arguments are the bytes of the sequence that is being read and the ranges that its
  next bytes must lie in.\<close>

definition replacement :: bytes where
  "replacement = [0xEF, 0xBF, 0xBD]"

function lossy :: "bytes \<Rightarrow> (u8 \<times> u8) list \<Rightarrow> bytes \<Rightarrow> bytes" where
  "lossy acc [] [] = []"
| "lossy acc (r # rs) [] = replacement"
| "lossy acc [] (b # bs) =
    (case utf8_lead b of None \<Rightarrow> replacement @ lossy [] [] bs
     | Some [] \<Rightarrow> b # lossy [] [] bs
     | Some (r # rs) \<Rightarrow> lossy [b] (r # rs) bs)"
| "lossy acc (r # rs) (b # bs) =
    (if fst r \<le> b \<and> b \<le> snd r
     then (if rs = [] then (acc @ [b]) @ lossy [] [] bs else lossy (acc @ [b]) rs bs)
     else replacement @ lossy [] [] (b # bs))"
  by pat_completeness auto
termination
  by (relation "measures [\<lambda>(acc, rs, bs). length bs, \<lambda>(acc, rs, bs). length rs]") auto

definition from_utf8_lossy :: "bytes \<Rightarrow> string" where
  "from_utf8_lossy bs = str_of (lossy [] [] bs)"

lemma lossy_valid: "utf8_from rs bs \<Longrightarrow> lossy acc rs bs = (if rs = [] then [] else acc) @ bs"
proof (induction acc rs bs rule: lossy.induct)
  case (3 acc b bs)
  then show ?case by (auto split: option.splits list.splits)
next
  case (4 acc r rs b bs)
  then show ?case by (cases rs) auto
qed auto

lemma from_utf8_lossy_as_bytes: "rust_string s \<Longrightarrow> from_utf8_lossy (as_bytes s) = s"
  using lossy_valid [of "[]" "as_bytes s" "[]"]
  by (simp add: from_utf8_lossy_def rust_string_def utf8_valid_def)

lemma unat_drop_bit: "unat (drop_bit n (w :: 'a::len word)) = unat w div 2 ^ n"
  unfolding unsigned_drop_bit_eq
  by (metis drop_bit_eq_div take_bit_nat_eq_self unsigned_less)

end
