(* ===== verification/Secure_Channel.thy ===== *)
theory Secure_Channel
  imports Ruwa_Prelude
begin

text \<open>
  What the layers above an encrypted transport rely on: two ends that are in step, where
  everything the sender manages to send is received as sent, and leaves the ends in step.
  \<open>view\<close> is what the receiver sees of a message (the message itself for the ciphers, its
  canonical form for the node layer).
\<close>

text \<open>Sending, or receiving, one after the other, up to the first failure.\<close>

primrec run_all :: "('m \<Rightarrow> 's \<Rightarrow> ('e, 'c) outcome \<times> 's) \<Rightarrow> 'm list \<Rightarrow> 's \<Rightarrow> 'c list option \<times> 's" where
  "run_all f [] s = (Some [], s)"
| "run_all f (m # ms) s =
    (case f m s of
       (Ok c, s') \<Rightarrow> (let (r, s'') = run_all f ms s' in (map_option (Cons c) r, s''))
     | (_, s') \<Rightarrow> (None, s'))"

lemma run_all_Cons_Some:
  "run_all f (m # ms) s = (Some cs, t) \<longleftrightarrow>
    (\<exists>c s' ds. f m s = (Ok c, s') \<and> run_all f ms s' = (Some ds, t) \<and> cs = c # ds)"
  by (auto split: prod.splits outcome.splits)

locale channel =
  fixes send :: "'m \<Rightarrow> 's \<Rightarrow> ('e, 'c) outcome \<times> 's"
    and recv :: "'c \<Rightarrow> 'r \<Rightarrow> ('f, 'n) outcome \<times> 'r"
    and in_step :: "'s \<Rightarrow> 'r \<Rightarrow> bool"
    and view :: "'m \<Rightarrow> 'n"
    and ok :: "'m \<Rightarrow> bool"
  assumes delivers: "in_step s r \<Longrightarrow> ok m \<Longrightarrow> send m s = (Ok c, s') \<Longrightarrow>
    \<exists>r'. recv c r = (Ok (view m), r') \<and> in_step s' r'"
begin

text \<open>A whole conversation in one direction arrives in order and complete.\<close>

lemma conversation:
  "in_step s r \<Longrightarrow> list_all ok ms \<Longrightarrow> run_all send ms s = (Some cs, s') \<Longrightarrow>
    \<exists>r'. run_all recv cs r = (Some (map view ms), r') \<and> in_step s' r'"
proof (induction ms arbitrary: s r cs)
  case Nil
  then show ?case by auto
next
  case (Cons m ms)
  from Cons.prems(3) obtain c t ds where sent: "send m s = (Ok c, t)" "run_all send ms t = (Some ds, s')"
    and cs: "cs = c # ds" by (auto simp only: run_all_Cons_Some)
  from delivers [OF Cons.prems(1) _ sent(1)] Cons.prems(2) obtain u where
    u: "recv c r = (Ok (view m), u)" "in_step t u" by auto
  from Cons.IH [OF u(2) _ sent(2)] Cons.prems(2) u(1) cs show ?case by auto
qed

end

end
