(* ===== verification/Noise.thy ===== *)
theory Noise
  imports Secure_Channel
begin

text \<open>
  The Noise handshake state and the post-handshake ciphers, module \<open>noise\<close> of
  \<open>src/src/protocol.rs\<close>. SHA-256, HKDF, AES-256-GCM and X25519 are the crates' and are the
  fields of a record the operations take; an \<open>Aes256Gcm\<close> value is the key it was made from.
  A Rust array of bytes is the list of them. An operation returns its result with the state
  it leaves, which an error leaves changed too.
\<close>

record crypto =
  sha256 :: "bytes \<Rightarrow> bytes"
  hkdf64 :: "bytes \<Rightarrow> bytes \<Rightarrow> bytes"
  gcm_enc :: "bytes \<Rightarrow> bytes \<Rightarrow> bytes \<Rightarrow> bytes \<Rightarrow> bytes option"
  gcm_dec :: "bytes \<Rightarrow> bytes \<Rightarrow> bytes \<Rightarrow> bytes \<Rightarrow> bytes option"
  x25519 :: "bytes \<Rightarrow> bytes \<Rightarrow> bytes"

text \<open>Documented behaviour of the crates: decryption accepts exactly what encryption produces
  for the same key, nonce and associated data; the two halves of a key exchange agree.\<close>

definition aead_sound :: "crypto \<Rightarrow> bool" where
  "aead_sound c \<longleftrightarrow>
    (\<forall>k iv aad m ct. gcm_enc c k iv aad m = Some ct \<longleftrightarrow> gcm_dec c k iv aad ct = Some m)"

definition dh_agrees :: "crypto \<Rightarrow> (bytes \<times> bytes) \<Rightarrow> (bytes \<times> bytes) \<Rightarrow> bool" where
  "dh_agrees c a b \<longleftrightarrow> x25519 c (fst a) (snd b) = x25519 c (fst b) (snd a)"

definition NOISE_START_PATTERN :: bytes where
  "NOISE_START_PATTERN = as_bytes ''Noise_XX_25519_AESGCM_SHA256'' @ [0, 0, 0, 0]"

datatype noise_error = Aead

record noise_handshake =
  hash :: bytes
  salt :: bytes
  key :: bytes
  counter :: u32

record noise_cipher =
  ckey :: bytes
  ccounter :: u32

definition extract_and_expand :: "crypto \<Rightarrow> bytes \<Rightarrow> bytes \<Rightarrow> bytes \<times> bytes" where
  "extract_and_expand c slt ikm = (let out = hkdf64 c slt ikm in (take 32 out, drop 32 out))"

definition counter_iv :: "u32 \<Rightarrow> bytes" where
  "counter_iv n = replicate 8 0 @ be_bytes 4 (unat n)"

text \<open>\<open>checked_add(1)\<close>.\<close>

definition next_counter :: "u32 \<Rightarrow> u32 option" where
  "next_counter n = (if n = - 1 then None else Some (n + 1))"

section \<open>The handshake state\<close>

definition authenticate :: "crypto \<Rightarrow> bytes \<Rightarrow> noise_handshake \<Rightarrow> noise_handshake" where
  "authenticate c data nh = nh\<lparr>hash := sha256 c (hash nh @ data)\<rparr>"

definition start :: "crypto \<Rightarrow> bytes \<Rightarrow> bytes \<Rightarrow> noise_handshake" where
  "start c pattern header =
    (let h = (if length pattern = 32 then pattern else sha256 c pattern)
     in authenticate c header \<lparr>hash = h, salt = h, key = h, counter = 0\<rparr>)"

definition hs_encrypt ::
  "crypto \<Rightarrow> bytes \<Rightarrow> noise_handshake \<Rightarrow> (noise_error, bytes) outcome \<times> noise_handshake" where
  "hs_encrypt c plaintext nh =
    (let iv = counter_iv (counter nh)
     in case next_counter (counter nh) of
          None \<Rightarrow> (Panic, nh)
        | Some n \<Rightarrow>
          (let nh = nh\<lparr>counter := n\<rparr>
           in case gcm_enc c (key nh) iv (hash nh) plaintext of
                None \<Rightarrow> (Err Aead, nh)
              | Some ct \<Rightarrow> (Ok ct, authenticate c ct nh)))"

definition hs_decrypt ::
  "crypto \<Rightarrow> bytes \<Rightarrow> noise_handshake \<Rightarrow> (noise_error, bytes) outcome \<times> noise_handshake" where
  "hs_decrypt c ciphertext nh =
    (let iv = counter_iv (counter nh)
     in case next_counter (counter nh) of
          None \<Rightarrow> (Panic, nh)
        | Some n \<Rightarrow>
          (let nh = nh\<lparr>counter := n\<rparr>
           in case gcm_dec c (key nh) iv (hash nh) ciphertext of
                None \<Rightarrow> (Err Aead, nh)
              | Some pt \<Rightarrow> (Ok pt, authenticate c ciphertext nh)))"

definition mix_into_key :: "crypto \<Rightarrow> bytes \<Rightarrow> noise_handshake \<Rightarrow> noise_handshake" where
  "mix_into_key c data nh =
    (let (w, r) = extract_and_expand c (salt nh) data
     in nh\<lparr>salt := w, key := r, counter := 0\<rparr>)"

definition mix_shared_secret_into_key ::
  "crypto \<Rightarrow> bytes \<Rightarrow> bytes \<Rightarrow> noise_handshake \<Rightarrow> noise_handshake" where
  "mix_shared_secret_into_key c priv pub nh = mix_into_key c (x25519 c priv pub) nh"

section \<open>The post-handshake ciphers\<close>

definition new_cipher :: "bytes \<Rightarrow> noise_cipher" where
  "new_cipher k = \<lparr>ckey = k, ccounter = 0\<rparr>"

definition finish :: "crypto \<Rightarrow> noise_handshake \<Rightarrow> noise_cipher \<times> noise_cipher" where
  "finish c nh =
    (let (w, r) = extract_and_expand c (salt nh) [] in (new_cipher w, new_cipher r))"

definition cipher_encrypt ::
  "crypto \<Rightarrow> bytes \<Rightarrow> noise_cipher \<Rightarrow> (noise_error, bytes) outcome \<times> noise_cipher" where
  "cipher_encrypt c plaintext nc =
    (let iv = counter_iv (ccounter nc)
     in case next_counter (ccounter nc) of
          None \<Rightarrow> (Panic, nc)
        | Some n \<Rightarrow>
          ((case gcm_enc c (ckey nc) iv [] plaintext of None \<Rightarrow> Err Aead | Some ct \<Rightarrow> Ok ct),
           nc\<lparr>ccounter := n\<rparr>))"

definition cipher_decrypt ::
  "crypto \<Rightarrow> bytes \<Rightarrow> noise_cipher \<Rightarrow> (noise_error, bytes) outcome \<times> noise_cipher" where
  "cipher_decrypt c ciphertext nc =
    (let iv = counter_iv (ccounter nc)
     in case next_counter (ccounter nc) of
          None \<Rightarrow> (Panic, nc)
        | Some n \<Rightarrow>
          ((case gcm_dec c (ckey nc) iv [] ciphertext of None \<Rightarrow> Err Aead | Some pt \<Rightarrow> Ok pt),
           nc\<lparr>ccounter := n\<rparr>))"

section \<open>Two ends in step\<close>

text \<open>Ends that hold the same state, over a sound cipher.\<close>

definition hs_in_step :: "crypto \<Rightarrow> noise_handshake \<Rightarrow> noise_handshake \<Rightarrow> bool" where
  "hs_in_step c a b \<longleftrightarrow> aead_sound c \<and> a = b"

definition cipher_in_step :: "crypto \<Rightarrow> noise_cipher \<Rightarrow> noise_cipher \<Rightarrow> bool" where
  "cipher_in_step c a b \<longleftrightarrow> aead_sound c \<and> a = b"

interpretation hs: channel "hs_encrypt c" "hs_decrypt c" "hs_in_step c" "\<lambda>m. m" "\<lambda>_. True" for c
  by unfold_locales
     (auto simp: hs_in_step_def hs_encrypt_def hs_decrypt_def aead_sound_def Let_def
       split: option.splits)

interpretation nc: channel "cipher_encrypt c" "cipher_decrypt c" "cipher_in_step c" "\<lambda>m. m" "\<lambda>_. True" for c
  by unfold_locales
     (auto simp: cipher_in_step_def cipher_encrypt_def cipher_decrypt_def aead_sound_def Let_def
       split: option.splits)

lemma aead_soundD:
  "aead_sound c \<Longrightarrow> gcm_dec c k iv aad ct = Some m \<Longrightarrow> gcm_enc c k iv aad m = Some ct"
  by (simp add: aead_sound_def)

text \<open>A receiver in step accepts nothing but what the sender's next encryption yields.\<close>

lemma cipher_decrypt_only_sent:
  assumes "aead_sound c" "cipher_decrypt c ct nc = (Ok m, nc')"
  shows "cipher_encrypt c m nc = (Ok ct, nc')"
  using assms(2) aead_soundD [OF assms(1)]
  by (auto simp: cipher_encrypt_def cipher_decrypt_def Let_def split: option.splits)

lemma hs_decrypt_only_sent:
  assumes "aead_sound c" "hs_decrypt c ct nh = (Ok m, nh')"
  shows "hs_encrypt c m nh = (Ok ct, nh')"
  using assms(2) aead_soundD [OF assms(1)]
  by (auto simp: hs_encrypt_def hs_decrypt_def Let_def split: option.splits)

section \<open>Nonces\<close>

lemma next_counter_Some:
  assumes "next_counter n = Some m"
  shows "unat m = unat n + 1"
proof -
  from assms have "n \<noteq> - 1" "m = 1 + n" by (auto simp: next_counter_def split: if_splits)
  moreover from this(1) have "1 + n \<noteq> 0" by (metis add.commute add_eq_0_iff2 minus_equation_iff)
  ultimately show ?thesis by (simp add: unatSuc)
qed

lemma counter_iv_inj: "counter_iv a = counter_iv b \<Longrightarrow> a = b"
proof -
  assume "counter_iv a = counter_iv b"
  then have "be_nat (be_bytes 4 (unat a)) = be_nat (be_bytes 4 (unat b))"
    by (simp add: counter_iv_def)
  moreover have "unat n < 256 ^ 4" for n :: u32 using unsigned_less [of n] by simp
  ultimately show "a = b" by (simp add: word_unat_eq_iff)
qed

lemma length_counter_iv: "length (counter_iv n) = 12"
  by (simp add: counter_iv_def)

text \<open>What one cipher sends in a row: message by message the encryption under the next nonce.\<close>

lemma cipher_run_nonces:
  "run_all (cipher_encrypt c) ms nc = (Some cts, nc') \<Longrightarrow>
    unat (ccounter nc') = unat (ccounter nc) + length ms \<and> ckey nc' = ckey nc \<and> length cts = length ms \<and>
    (\<forall>i < length ms. \<exists>n. unat n = unat (ccounter nc) + i \<and>
       gcm_enc c (ckey nc) (counter_iv n) [] (ms ! i) = Some (cts ! i))"
proof (induction ms arbitrary: nc cts)
  case Nil
  then show ?case by simp
next
  case (Cons m ms)
  from Cons.prems obtain ct s ds where s: "cipher_encrypt c m nc = (Ok ct, s)"
    "run_all (cipher_encrypt c) ms s = (Some ds, nc')" "cts = ct # ds"
    by (auto simp only: run_all_Cons_Some)
  from s(1) have n: "next_counter (ccounter nc) = Some (ccounter s)" "ckey s = ckey nc"
    "gcm_enc c (ckey nc) (counter_iv (ccounter nc)) [] m = Some ct"
    by (auto simp: cipher_encrypt_def Let_def split: option.splits)
  note u = next_counter_Some [OF n(1)]
  have "\<exists>n. unat n = unat (ccounter nc) + i \<and>
      gcm_enc c (ckey nc) (counter_iv n) [] ((m # ms) ! i) = Some (cts ! i)" if "i < length (m # ms)" for i
  proof (cases i)
    case 0
    with n(3) s(3) show ?thesis by auto
  next
    case (Suc j)
    with that Cons.IH [OF s(2)] obtain k where "unat k = unat (ccounter s) + j"
      "gcm_enc c (ckey s) (counter_iv k) [] (ms ! j) = Some (ds ! j)" by auto
    with Suc u n(2) s(3) show ?thesis by (intro exI [of _ k]) simp
  qed
  with Cons.IH [OF s(2)] u n(2) s(3) show ?case by simp
qed

section \<open>Properties\<close>

text \<open>Messages encrypted one after the other by one end's post-handshake cipher are decrypted
  in order, unchanged and complete, by the end that holds the same key and counter, and both
  ends are in the same state afterwards.\<close>

theorem cipher_conversation:
  assumes "aead_sound c" "run_all (cipher_encrypt c) ms nc = (Some cts, nc')"
  shows "run_all (cipher_decrypt c) cts nc = (Some ms, nc')"
  using nc.conversation [of c nc nc ms cts nc'] assms
  by (auto simp: cipher_in_step_def list_all_iff)

text \<open>A toy cipher that satisfies the hypotheses: the tag is the key, nonce and data.\<close>

definition toy_crypto :: crypto where
  "toy_crypto =
    \<lparr>sha256 = (\<lambda>d. take 32 (d @ replicate 32 0)),
     hkdf64 = (\<lambda>s i. take 64 (rev i @ s @ replicate 64 0)),
     gcm_enc = (\<lambda>k iv a m. Some (k @ iv @ a @ m)),
     gcm_dec = (\<lambda>k iv a c. if take (length (k @ iv @ a)) c = k @ iv @ a
                            then Some (drop (length (k @ iv @ a)) c) else None),
     x25519 = (\<lambda>a b. map2 (XOR) a b)\<rparr>"

lemma toy_sound: "aead_sound toy_crypto"
proof -
  have "(p @ m = ct) = (take (length p) ct = p \<and> drop (length p) ct = m)" for p m ct :: bytes
    by (metis append_eq_conv_conj append_take_drop_id)
  from this [of "k @ iv @ aad" for k iv aad] show ?thesis
    unfolding aead_sound_def toy_crypto_def by (auto simp del: append_assoc simp add: append_assoc [symmetric])
qed

theorem cipher_conversation_witness:
  "\<exists>cts nc'. run_all (cipher_decrypt toy_crypto) cts (new_cipher [1]) = (Some [[2, 3], [4]], nc')"
proof -
  obtain cts nc' where "run_all (cipher_encrypt toy_crypto) [[2, 3], [4]] (new_cipher [1]) = (Some cts, nc')"
    by (simp add: cipher_encrypt_def toy_crypto_def new_cipher_def next_counter_def)
  from cipher_conversation [OF toy_sound this] show ?thesis by blast
qed

text \<open>C21: a cipher never uses a nonce twice. Whatever it encrypts in a row is encrypted under
  pairwise different 12-byte nonces; the counter does not wrap around (the code panics first).\<close>

theorem cipher_nonces_distinct:
  assumes "run_all (cipher_encrypt c) ms nc = (Some cts, nc')"
  shows "\<exists>ivs. length ivs = length ms \<and> distinct ivs \<and> list_all (\<lambda>iv. length iv = 12) ivs \<and>
    list_all2 (\<lambda>(iv, m) ct. gcm_enc c (ckey nc) iv [] m = Some ct) (zip ivs ms) cts"
proof -
  from cipher_run_nonces [OF assms] obtain f where
    f: "\<And>i. i < length ms \<Longrightarrow> unat (f i) = unat (ccounter nc) + i \<and>
      gcm_enc c (ckey nc) (counter_iv (f i)) [] (ms ! i) = Some (cts ! i)"
    and len: "length cts = length ms"
    by metis
  let ?ivs = "map (\<lambda>i. counter_iv (f i)) [0..<length ms]"
  have "i = j" if "i < length ms" "j < length ms" "counter_iv (f i) = counter_iv (f j)" for i j
  proof -
    from counter_iv_inj [OF that(3)] have "unat (f i) = unat (f j)" by simp
    moreover from f [OF that(1)] have "unat (f i) = unat (ccounter nc) + i" by blast
    moreover from f [OF that(2)] have "unat (f j) = unat (ccounter nc) + j" by blast
    ultimately show ?thesis by simp
  qed
  then have "inj_on (\<lambda>i. counter_iv (f i)) (set [0..<length ms])" by (auto simp: inj_on_def)
  then have "distinct ?ivs" by (simp add: distinct_map)
  moreover have "list_all2 (\<lambda>(iv, m) ct. gcm_enc c (ckey nc) iv [] m = Some ct) (zip ?ivs ms) cts"
    using f len by (auto simp: list_all2_conv_all_nth)
  ultimately show ?thesis
    by (intro exI [of _ ?ivs]) (auto simp: list_all_iff length_counter_iv)
qed

theorem cipher_nonces_distinct_witness:
  "\<exists>ivs :: bytes list. length ivs = 2 \<and> distinct ivs \<and> list_all (\<lambda>iv. length iv = 12) ivs"
proof -
  obtain cts nc' where "run_all (cipher_encrypt toy_crypto) [[2, 3], [4]] (new_cipher [1]) = (Some cts, nc')"
    by (simp add: cipher_encrypt_def toy_crypto_def new_cipher_def next_counter_def)
  from cipher_nonces_distinct [OF this] obtain ivs :: "bytes list" where
    "length ivs = length [[2, 3], [4 :: u8]]" "distinct ivs" "list_all (\<lambda>iv. length iv = 12) ivs"
    by blast
  then show ?thesis by (intro exI [of _ ivs]) simp
qed

section \<open>Handshake steps\<close>

definition gcm_total :: "crypto \<Rightarrow> bool" where
  "gcm_total c \<longleftrightarrow> (\<forall>k iv aad m. gcm_enc c k iv aad m \<noteq> None)"

lemma counter_mix [simp]: "counter (mix_shared_secret_into_key c a b nh) = 0"
  by (simp add: mix_shared_secret_into_key_def mix_into_key_def split_beta)

lemma hs_encrypt_total:
  assumes "gcm_total c" "counter nh \<noteq> - 1"
  shows "\<exists>ct nh'. hs_encrypt c m nh = (Ok ct, nh') \<and> counter nh' = counter nh + 1"
  using assms
  by (auto simp: hs_encrypt_def gcm_total_def next_counter_def authenticate_def Let_def split: option.split)

lemma hs_encrypt_counter: "hs_encrypt c m nh = (Ok ct, nh') \<Longrightarrow> counter nh' = counter nh + 1"
  by (auto simp: hs_encrypt_def next_counter_def authenticate_def Let_def split: option.splits if_splits)

lemma hs_decrypt_sent:
  assumes "aead_sound c" "hs_encrypt c m nh = (Ok ct, nh')"
  shows "hs_decrypt c ct nh = (Ok m, nh')"
  using hs.delivers [of c nh nh m ct nh'] assms by (auto simp: hs_in_step_def)

text \<open>An end accepts only what the end in step with it sends next: if a ciphertext decrypts at
  all, it is the encryption of that plaintext under the same key, nonce and transcript hash, so
  nothing reordered, replayed or altered passes for it, and both ends agree on the new state.\<close>

theorem handshake_accepts_only_sent:
  assumes "aead_sound c" "hs_decrypt c ct nh = (Ok m, nh')"
  shows "hs_encrypt c m nh = (Ok ct, nh') \<and> hash nh' = sha256 c (hash nh @ ct)"
proof -
  have "hash nh' = sha256 c (hash nh @ ct)"
    using assms(2) by (auto simp: hs_decrypt_def authenticate_def Let_def split: option.splits)
  with hs_decrypt_only_sent [OF assms] show ?thesis by simp
qed

theorem handshake_accepts_only_sent_witness:
  "\<exists>ct nh'. hs_encrypt toy_crypto [5] (start toy_crypto NOISE_START_PATTERN []) = (Ok ct, nh')"
proof -
  let ?s = "start toy_crypto NOISE_START_PATTERN []"
  have "counter ?s = 0" by (simp add: start_def authenticate_def Let_def)
  moreover have "gcm_total toy_crypto" by (simp add: gcm_total_def toy_crypto_def)
  ultimately obtain ct nh' where "hs_encrypt toy_crypto [5] ?s = (Ok ct, nh')"
    using hs_encrypt_total [of toy_crypto ?s "[5]"] by auto
  from handshake_accepts_only_sent [OF toy_sound hs_decrypt_sent [OF toy_sound this]]
  show ?thesis by blast
qed

end
