(* ===== verification/Chunked_Stream.thy ===== *)
theory Chunked_Stream
  imports Ruwa_Prelude
begin

text \<open>
  Decoders that are fed a byte stream in pieces: the interface between a transport, which
  delivers chunks of its own choosing, and the code that wants whole messages. The code's
  decoder takes one message off the front of its buffer, or leaves it until more has come.
  The locale states what such a decoder promises, and shows once for all of them that the
  messages seen do not depend on how the stream was cut.
\<close>

text \<open>\<open>drain\<close>: the \<open>while let Some(x) = step(&mut buf)\<close> loop; every round takes at least a byte,
  so the buffer's length is fuel enough.\<close>

primrec drain_fuel :: "nat \<Rightarrow> (bytes \<Rightarrow> ('a \<times> bytes) option) \<Rightarrow> bytes \<Rightarrow> 'a list \<times> bytes" where
  "drain_fuel 0 step b = ([], b)"
| "drain_fuel (Suc n) step b =
    (case step b of
       None \<Rightarrow> ([], b)
     | Some (x, r) \<Rightarrow> (let (xs, r') = drain_fuel n step r in (x # xs, r')))"

definition drain :: "(bytes \<Rightarrow> ('a \<times> bytes) option) \<Rightarrow> bytes \<Rightarrow> 'a list \<times> bytes" where
  "drain step b = drain_fuel (length b) step b"

text \<open>Feed a chunk, drain, and so on: what the receive loops do.\<close>

primrec feed_all :: "(bytes \<Rightarrow> ('a \<times> bytes) option) \<Rightarrow> bytes \<Rightarrow> bytes list \<Rightarrow> 'a list \<times> bytes" where
  "feed_all step b [] = ([], b)"
| "feed_all step b (c # cs) =
    (let (xs, b') = drain step (b @ c); (ys, b'') = feed_all step b' cs in (xs @ ys, b''))"

locale chunked =
  fixes step :: "bytes \<Rightarrow> ('a \<times> bytes) option"
  assumes takes: "step b = Some (x, r) \<Longrightarrow> \<exists>p. b = p @ r \<and> p \<noteq> []"
    and extends: "step b = Some (x, r) \<Longrightarrow> step (b @ c) = Some (x, r @ c)"
begin

lemma shorter: "step b = Some (x, r) \<Longrightarrow> length r < length b"
  using takes by fastforce

lemma empty: "step [] = None"
  using takes [of "[]"] by (cases "step []") fastforce+

lemma drain_fuel_enough: "length b \<le> n \<Longrightarrow> drain_fuel n step b = drain step b"
proof (induction "length b" arbitrary: b n rule: less_induct)
  case less
  show ?case
  proof (cases "step b")
    case None
    then show ?thesis by (cases n; cases "length b") (simp_all add: drain_def)
  next
    case (Some xr)
    then obtain x r where xr: "step b = Some (x, r)" by (cases xr) auto
    with shorter have lt: "length r < length b" by blast
    with less.prems obtain m l where "n = Suc m" "length b = Suc l"
      by (metis Suc_le_D not_less_zero nat.exhaust)
    moreover from this lt less.prems less.hyps [of r] have
      "drain_fuel m step r = drain step r" "drain_fuel l step r = drain step r" by auto
    ultimately show ?thesis using xr by (simp add: drain_def)
  qed
qed

lemma drain_step:
  "drain step b = (case step b of None \<Rightarrow> ([], b)
     | Some (x, r) \<Rightarrow> (let (xs, r') = drain step r in (x # xs, r')))"
proof (cases b)
  case Nil
  then show ?thesis by (simp add: drain_def empty)
next
  case (Cons a l)
  have "drain_fuel (length l) step r = drain step r" if "step b = Some (x, r)" for x r
    using that shorter [OF that] Cons by (intro drain_fuel_enough) simp
  with Cons show ?thesis by (auto simp: drain_def split: option.split)
qed

lemma drained: "drain step b = (xs, r) \<Longrightarrow> step r = None"
proof (induction "length b" arbitrary: b xs rule: less_induct)
  case less
  show ?case
  proof (cases "step b")
    case None
    with less.prems show ?thesis by (simp add: drain_step [of b])
  next
    case (Some p)
    then obtain x s where s: "step b = Some (x, s)" by (cases p) auto
    obtain zs t where t: "drain step s = (zs, t)" by fastforce
    with less.prems s have "t = r" by (simp add: drain_step [of b])
    with less.hyps [OF shorter [OF s]] t show ?thesis by blast
  qed
qed

lemma drain_append:
  assumes "drain step b = (xs, r)" "drain step (r @ c) = (ys, r')"
  shows "drain step (b @ c) = (xs @ ys, r')"
  using assms
proof (induction "length b" arbitrary: b xs rule: less_induct)
  case less
  show ?case
  proof (cases "step b")
    case None
    with less.prems show ?thesis by (simp add: drain_step [of b])
  next
    case (Some p)
    then obtain x s where s: "step b = Some (x, s)" by (cases p) auto
    obtain zs t where t: "drain step s = (zs, t)" by fastforce
    with less.prems(1) s have xs: "xs = x # zs" "t = r" by (simp_all add: drain_step [of b])
    with less.hyps [OF shorter [OF s]] t less.prems(2) have "drain step (s @ c) = (zs @ ys, r')" by simp
    with xs extends [OF s, of c] show ?thesis by (simp add: drain_step [of "b @ c"])
  qed
qed

text \<open>However the stream is cut, the same messages come out and the same bytes stay behind.\<close>

lemma chunk_invariant:
  "step b = None \<Longrightarrow> feed_all step b cs = drain step (b @ concat cs)"
proof (induction cs arbitrary: b)
  case Nil
  then show ?case by (simp add: drain_step [of b])
next
  case (Cons c cs)
  obtain xs r where d: "drain step (b @ c) = (xs, r)" by fastforce
  then have "feed_all step r cs = drain step (r @ concat cs)"
    by (intro Cons.IH) (rule drained)
  moreover obtain ys r' where d': "drain step (r @ concat cs) = (ys, r')" by fastforce
  ultimately show ?case
    using drain_append [OF d d'] by (simp add: d)
qed

end

text \<open>A decoder together with the encoder it undoes, for the messages \<open>ok\<close> that encode.\<close>

locale framed = chunked step
  for step :: "bytes \<Rightarrow> ('a \<times> bytes) option" +
  fixes enc :: "'a \<Rightarrow> bytes" and ok :: "'a \<Rightarrow> bool"
  assumes decodes: "ok x \<Longrightarrow> step (enc x @ r) = Some (x, r)"
begin

lemma drain_encoded:
  assumes "list_all ok xs" "step r = None"
  shows "drain step (concat (map enc xs) @ r) = (xs, r)"
  using assms(1)
proof (induction xs)
  case Nil
  then show ?case using assms(2) by (simp add: drain_step [of r])
next
  case (Cons x xs)
  then show ?case using drain_step [of "enc x @ concat (map enc xs) @ r"] by (simp add: decodes)
qed

text \<open>A sender's messages, delivered in any pieces, with a truncated message at the end.\<close>

lemma delivery:
  assumes "list_all ok xs" "concat cs = concat (map enc xs) @ r" "step r = None"
  shows "feed_all step [] cs = (xs, r)"
  using chunk_invariant [OF empty, of cs] drain_encoded [OF assms(1,3)] assms(2) by simp

text \<open>No message is a proper prefix of another's bytes.\<close>

lemma enc_prefix_free: "ok x \<Longrightarrow> ok y \<Longrightarrow> enc x @ r = enc y @ s \<Longrightarrow> x = y \<and> r = s"
  by (metis decodes option.inject prod.inject)

end

end
