(* ===== verification/Frame.thy ===== *)
theory Frame
  imports Chunked_Stream
begin

text \<open>
  The length-prefixed framing of the web socket, module \<open>frame\<close> of \<open>src/src/protocol.rs\<close>:
  three bytes of big-endian length before each payload, a header before the first one, and
  the decoder that reassembles frames from web-socket messages of any size.
\<close>

definition FRAME_LENGTH_SIZE :: nat where "FRAME_LENGTH_SIZE = 3"
definition FRAME_MAX_SIZE :: nat where "FRAME_MAX_SIZE = 2 ^ 24"
definition WA_CONN_HEADER :: bytes where
  "WA_CONN_HEADER = [byte_of CHR ''W'', byte_of CHR ''A'', 0x06, 0x03]"

datatype frame_error = FrameTooLarge nat

definition encode_frame :: "bytes \<Rightarrow> bytes option \<Rightarrow> (frame_error, bytes) outcome" where
  "encode_frame payload header =
    (if length payload \<ge> FRAME_MAX_SIZE then Err (FrameTooLarge (length payload))
     else
       let len = length payload
       in Ok ((case header of Some h \<Rightarrow> h | None \<Rightarrow> []) @
            [word_of_nat (drop_bit 16 len), word_of_nat (drop_bit 8 len), word_of_nat len] @
            payload))"

record frame_decoder =
  fbuf :: bytes

definition new_decoder :: frame_decoder where
  "new_decoder = \<lparr>fbuf = []\<rparr>"

definition feed :: "bytes \<Rightarrow> frame_decoder \<Rightarrow> frame_decoder" where
  "feed chunk d = d\<lparr>fbuf := fbuf d @ chunk\<rparr>"

definition next_frame :: "frame_decoder \<Rightarrow> bytes option \<times> frame_decoder" where
  "next_frame d =
    (if length (fbuf d) < FRAME_LENGTH_SIZE then (None, d)
     else
       let len = push_bit 16 (unat (fbuf d ! 0)) OR push_bit 8 (unat (fbuf d ! 1)) OR unat (fbuf d ! 2)
       in if length (fbuf d) < FRAME_LENGTH_SIZE + len then (None, d)
          else (Some (take len (drop FRAME_LENGTH_SIZE (fbuf d))),
                d\<lparr>fbuf := drop (FRAME_LENGTH_SIZE + len) (fbuf d)\<rparr>))"

definition pending :: "frame_decoder \<Rightarrow> nat" where
  "pending d = length (fbuf d)"

section \<open>The decoder as a stream decoder\<close>

definition frame_step :: "bytes \<Rightarrow> (bytes \<times> bytes) option" where
  "frame_step b = (case next_frame \<lparr>fbuf = b\<rparr> of (None, d) \<Rightarrow> None | (Some f, d) \<Rightarrow> Some (f, fbuf d))"

definition frame_bytes :: "bytes \<Rightarrow> bytes" where
  "frame_bytes p = the_ok (encode_frame p None)"

lemma frame_len_be:
  "push_bit 16 (unat a) OR push_bit 8 (unat b) OR unat (c :: u8) = be_nat [a, b, c]"
  for a b :: u8
  by (simp add: be_nat_def push_bit_or or.assoc)

lemma three_bytes: "3 \<le> length b \<Longrightarrow> \<exists>x y z t. b = x # y # z # (t :: bytes)"
  by (cases b; cases "tl b"; cases "tl (tl b)") auto

lemma frame_step_eq:
  "frame_step (x # y # z # t) =
    (if length t < be_nat [x, y, z] then None
     else Some (take (be_nat [x, y, z]) t, drop (be_nat [x, y, z]) t))"
proof -
  have "drop (3 + n) (x # y # z # t) = drop n t" for n by (simp add: eval_nat_numeral)
  then show ?thesis
    by (simp add: frame_step_def next_frame_def FRAME_LENGTH_SIZE_def frame_len_be Let_def)
qed

lemma frame_step_short: "length b < 3 \<Longrightarrow> frame_step b = None"
  by (simp add: frame_step_def next_frame_def FRAME_LENGTH_SIZE_def)

lemma frame_step_Some:
  assumes "frame_step b = Some (f, r)"
  obtains x y z t where "b = x # y # z # t" "be_nat [x, y, z] \<le> length t"
    "f = take (be_nat [x, y, z]) t" "r = drop (be_nat [x, y, z]) t"
proof -
  have "3 \<le> length b"
    using assms frame_step_short [of b] by (cases "length b < 3") auto
  then obtain x y z t where b: "b = x # y # z # t" using three_bytes by blast
  with assms show ?thesis
    by (intro that [of x y z t]) (auto simp: frame_step_eq split: if_splits)
qed

lemma be_nat_inject: "length as = length bs \<Longrightarrow> be_nat as = be_nat bs \<Longrightarrow> as = bs"
proof (induction as bs rule: list_induct2)
  case (Cons a as b bs)
  let ?m = "256 ^ length as :: nat"
  have less: "be_nat as < ?m" "be_nat bs < ?m" using be_nat_less [of as] be_nat_less [of bs] Cons.hyps by simp_all
  have eq: "unat a * ?m + be_nat as = unat b * ?m + be_nat bs" using Cons.prems Cons.hyps by (simp add: be_nat_Cons)
  have "unat a = (unat a * ?m + be_nat as) div ?m" "be_nat as = (unat a * ?m + be_nat as) mod ?m" using less by simp_all
  moreover have "unat b = (unat b * ?m + be_nat bs) div ?m" "be_nat bs = (unat b * ?m + be_nat bs) mod ?m" using less by simp_all
  ultimately have "unat a = unat b" "be_nat as = be_nat bs" using eq by metis+
  then show ?case using Cons.IH by (simp add: word_unat_eq_iff)
qed simp

text \<open>Where the decoder finds a frame, its encoding stands.\<close>

lemma encode_frame_Ok:
  "length p < FRAME_MAX_SIZE \<Longrightarrow> encode_frame p header =
    Ok ((case header of Some h \<Rightarrow> h | None \<Rightarrow> []) @ be_bytes 3 (length p) @ p)"
  using drop_bit_eq_div [of 16 "length p"] drop_bit_eq_div [of 8 "length p"]
  by (simp add: encode_frame_def Let_def numeral_3_eq_3)

lemma frame_step_sound:
  assumes "frame_step b = Some (f, r)"
  shows "b = frame_bytes f @ r" "length f < FRAME_MAX_SIZE"
proof -
  obtain x y z t where b: "b = x # y # z # t" "be_nat [x, y, z] \<le> length t"
    "f = take (be_nat [x, y, z]) t" "r = drop (be_nat [x, y, z]) t"
    using assms by (rule frame_step_Some)
  have "be_nat [x, y, z] < 256 ^ 3" using be_nat_less [of "[x, y, z]"] by simp
  then show len: "length f < FRAME_MAX_SIZE" using b(2,3) by (simp add: FRAME_MAX_SIZE_def)
  have l: "length f = be_nat [x, y, z]" using b(2,3) by simp
  have "be_bytes 3 (length f) = [x, y, z]"
    by (rule be_nat_inject) (use len in \<open>simp_all add: l FRAME_MAX_SIZE_def\<close>)
  then show "b = frame_bytes f @ r" using b(1,3,4) encode_frame_Ok [OF len, of None] by (simp add: frame_bytes_def)
qed

interpretation frames: framed frame_step frame_bytes "\<lambda>p. length p < FRAME_MAX_SIZE"
proof
  fix b f r c
  assume "frame_step b = Some (f, r)"
  then obtain x y z t where b: "b = x # y # z # t" "be_nat [x, y, z] \<le> length t"
    "f = take (be_nat [x, y, z]) t" "r = drop (be_nat [x, y, z]) t"
    by (rule frame_step_Some)
  then show "\<exists>p. b = p @ r \<and> p \<noteq> []"
    by (intro exI [of _ "x # y # z # f"]) simp
  from b show "frame_step (b @ c) = Some (f, r @ c)"
    by (simp add: frame_step_eq)
next
  fix p r :: bytes
  assume p: "length p < FRAME_MAX_SIZE"
  then have "be_nat (be_bytes 3 (length p)) = length p" by (simp add: FRAME_MAX_SIZE_def)
  moreover obtain x y z where "be_bytes 3 (length p) = [x, y, z]" by (simp add: numeral_3_eq_3)
  ultimately show "frame_step (frame_bytes p @ r) = Some (p, r)"
    using p by (simp add: frame_bytes_def encode_frame_Ok frame_step_eq)
qed
end
