(* ===== verification/Wire_Reader.thy ===== *)
theory Wire_Reader
  imports Ruwa_Prelude
begin

text \<open>
  The cursor of the binary decoder (\<open>struct Decoder\<close> in \<open>src/src/protocol.rs\<close>) and its
  primitive reads, with the errors the decoder reports. The recursive readers spend one
  unit of fuel per level of nesting; \<open>Diverge\<close> is a reader that ran out of it.

  Two judgements carry the proofs about readers. \<open>reads p bs x\<close>: wherever \<open>bs\<close> occurs in
  the input, \<open>p\<close> started at it consumes exactly \<open>bs\<close> and returns \<open>x\<close>. \<open>steady m k p\<close>: with
  less than \<open>m\<close> bytes left \<open>p\<close> never diverges, and when it succeeds it has consumed at
  least \<open>k\<close> bytes of the unchanged input.
\<close>

named_theorems reads_intros \<open>reading back what a writer produced\<close>
named_theorems steady_intros \<open>totality and progress of readers\<close>

datatype decode_error =
    Eof (err_at: nat) (err_need: nat)
  | InvalidToken nat u8
  | InvalidListSize nat u8
  | NonStringKey nat
  | InvalidNode
  | InvalidNibble u8
  | InvalidHex u8
  | PackedTooLong nat
  | LengthTooLarge nat
  | Unsupported string

record decoder =
  buf :: bytes
  pos :: nat

datatype 'a read = Got 'a decoder | Fail decode_error | Diverge

definition rbind :: "'a read \<Rightarrow> ('a \<Rightarrow> decoder \<Rightarrow> 'b read) \<Rightarrow> 'b read" where
  "rbind r k = (case r of Got x d \<Rightarrow> k x d | Fail e \<Rightarrow> Fail e | Diverge \<Rightarrow> Diverge)"

lemma rbind_simps [simp]:
  "rbind (Got x d) k = k x d" "rbind (Fail e) k = Fail e" "rbind Diverge k = Diverge"
  by (simp_all add: rbind_def)

lemma rbind_eq_Got: "rbind r k = Got y d' \<longleftrightarrow> (\<exists>x d. r = Got x d \<and> k x d = Got y d')"
  by (cases r) auto

lemma rbind_eq_Diverge: "rbind r k = Diverge \<longleftrightarrow> r = Diverge \<or> (\<exists>x d. r = Got x d \<and> k x d = Diverge)"
  by (cases r) auto

section \<open>Primitive reads\<close>

definition need :: "nat \<Rightarrow> decoder \<Rightarrow> unit read" where
  "need n d = (if pos d + n > length (buf d) then Fail (Eof (pos d) n) else Got () d)"

definition read_byte :: "decoder \<Rightarrow> u8 read" where
  "read_byte d =
    rbind (need 1 d) (\<lambda>_ d. Got (buf d ! pos d) (d\<lparr>pos := pos d + 1\<rparr>))"

definition read_int_be :: "nat \<Rightarrow> decoder \<Rightarrow> nat read" where
  "read_int_be n d =
    rbind (need n d) (\<lambda>_ d. Got (be_nat (take n (drop (pos d) (buf d)))) (d\<lparr>pos := pos d + n\<rparr>))"

definition read_int20 :: "decoder \<Rightarrow> nat read" where
  "read_int20 d =
    rbind (need 3 d) (\<lambda>_ d.
      Got (push_bit 16 (unat (buf d ! pos d) AND 0x0F) OR push_bit 8 (unat (buf d ! (pos d + 1)))
             OR unat (buf d ! (pos d + 2)))
          (d\<lparr>pos := pos d + 3\<rparr>))"

definition read_raw :: "nat \<Rightarrow> decoder \<Rightarrow> bytes read" where
  "read_raw n d =
    rbind (need n d) (\<lambda>_ d. Got (take n (drop (pos d) (buf d))) (d\<lparr>pos := pos d + n\<rparr>))"

text \<open>A \<open>for _ in 0..n\<close> loop that collects what its body reads.\<close>

primrec read_times :: "nat \<Rightarrow> (decoder \<Rightarrow> 'a read) \<Rightarrow> decoder \<Rightarrow> 'a list read" where
  "read_times 0 p d = Got [] d"
| "read_times (Suc n) p d =
    rbind (p d) (\<lambda>x d. rbind (read_times n p d) (\<lambda>xs d. Got (x # xs) d))"

section \<open>Reading back\<close>

definition reads :: "(decoder \<Rightarrow> 'a read) \<Rightarrow> bytes \<Rightarrow> 'a \<Rightarrow> bool" where
  "reads p bs x \<longleftrightarrow>
    (\<forall>pre post. p \<lparr>buf = pre @ bs @ post, pos = length pre\<rparr>
       = Got x \<lparr>buf = pre @ bs @ post, pos = length pre + length bs\<rparr>)"

lemma readsI:
  "(\<And>pre post. p \<lparr>buf = pre @ bs @ post, pos = length pre\<rparr>
       = Got x \<lparr>buf = pre @ bs @ post, pos = length pre + length bs\<rparr>) \<Longrightarrow> reads p bs x"
  by (simp add: reads_def)

lemma readsD:
  "reads p bs x \<Longrightarrow> p \<lparr>buf = pre @ bs @ post, pos = length pre\<rparr>
       = Got x \<lparr>buf = pre @ bs @ post, pos = length pre + length bs\<rparr>"
  by (simp add: reads_def)

lemma reads_bind [reads_intros]:
  assumes "reads p bs x" "reads (k x) cs y"
  shows "reads (\<lambda>d. rbind (p d) k) (bs @ cs) y"
proof (rule readsI)
  fix pre post
  have "p \<lparr>buf = pre @ bs @ cs @ post, pos = length pre\<rparr>
      = Got x \<lparr>buf = pre @ bs @ cs @ post, pos = length pre + length bs\<rparr>"
    using readsD [OF assms(1), of pre "cs @ post"] by simp
  moreover have "k x \<lparr>buf = pre @ bs @ cs @ post, pos = length pre + length bs\<rparr>
      = Got y \<lparr>buf = pre @ bs @ cs @ post, pos = length pre + length bs + length cs\<rparr>"
    using readsD [OF assms(2), of "pre @ bs" post] by simp
  ultimately show "rbind (p \<lparr>buf = pre @ (bs @ cs) @ post, pos = length pre\<rparr>) k
      = Got y \<lparr>buf = pre @ (bs @ cs) @ post, pos = length pre + length (bs @ cs)\<rparr>"
    by simp
qed

lemma reads_bind_Cons: "reads p [b] x \<Longrightarrow> reads (k x) cs y \<Longrightarrow> reads (\<lambda>d. rbind (p d) k) (b # cs) y"
  using reads_bind [of p "[b]" x k cs y] by simp

lemma reads_Got [reads_intros]: "reads (Got x) [] x"
  by (simp add: reads_def)

lemma reads_bind_Nil: "reads p bs x \<Longrightarrow> reads (k x) [] y \<Longrightarrow> reads (\<lambda>d. rbind (p d) k) bs y"
  using reads_bind [of p bs x k "[]" y] by simp

lemma reads_byte [reads_intros]: "reads read_byte [b] b"
  by (simp add: reads_def read_byte_def need_def nth_append)

lemma reads_int_be: "length bs = n \<Longrightarrow> reads (read_int_be n) bs (be_nat bs)"
  by (auto simp: reads_def read_int_be_def need_def)

lemma reads_raw: "length bs = n \<Longrightarrow> reads (read_raw n) bs bs"
  by (auto simp: reads_def read_raw_def need_def)

lemma reads_int20:
  "reads read_int20 [a, b, c]
    (push_bit 16 (unat a AND 0x0F) OR push_bit 8 (unat b) OR unat c)"
  by (simp add: reads_def read_int20_def need_def nth_append)

lemma reads_times:
  "list_all2 (reads p) bss xs \<Longrightarrow> reads (read_times (length xs) p) (concat bss) xs"
proof (induction bss xs rule: list_all2_induct)
  case Nil
  then show ?case by (simp add: reads_def)
next
  case (Cons bs bss x xs)
  have "reads (\<lambda>d. rbind (p d) (\<lambda>x d. rbind (read_times (length xs) p d) (\<lambda>xs d. Got (x # xs) d)))
      (bs @ concat bss) (x # xs)"
    by (intro reads_bind [OF Cons(1)] reads_bind_Nil [OF Cons.IH] reads_Got)
  then show ?case by simp
qed

section \<open>Progress and totality\<close>

definition steady :: "nat \<Rightarrow> nat \<Rightarrow> (decoder \<Rightarrow> 'a read) \<Rightarrow> bool" where
  "steady m k p \<longleftrightarrow>
    (\<forall>d. (pos d \<le> length (buf d) \<and> length (buf d) < pos d + m \<longrightarrow> p d \<noteq> Diverge) \<and>
      (\<forall>x d'. p d = Got x d' \<longrightarrow>
         buf d' = buf d \<and> pos d + k \<le> pos d' \<and> (pos d \<le> length (buf d) \<longrightarrow> pos d' \<le> length (buf d))))"

lemma steadyD:
  assumes "steady m k p"
  shows "pos d \<le> length (buf d) \<Longrightarrow> length (buf d) < pos d + m \<Longrightarrow> p d \<noteq> Diverge"
    and "p d = Got x d' \<Longrightarrow> buf d' = buf d \<and> pos d + k \<le> pos d'"
    and "p d = Got x d' \<Longrightarrow> pos d \<le> length (buf d) \<Longrightarrow> pos d' \<le> length (buf d)"
  using assms unfolding steady_def by blast+

lemma steady_weaken: "steady m k p \<Longrightarrow> m' \<le> m \<Longrightarrow> k' \<le> k \<Longrightarrow> steady m' k' p"
  unfolding steady_def by (meson add_le_mono le_refl le_trans less_le_trans)

lemma steady_bind:
  assumes p: "steady m k p" and q: "\<And>x. steady m' k' (q x)" and m: "m \<le> m' + k"
  shows "steady m (k + k') (\<lambda>d. rbind (p d) q)"
  unfolding steady_def
proof (intro allI conjI)
  fix d :: decoder
  show "pos d \<le> length (buf d) \<and> length (buf d) < pos d + m \<longrightarrow> rbind (p d) q \<noteq> Diverge"
  proof (cases "p d")
    case (Got x d')
    with p have d': "buf d' = buf d" "pos d + k \<le> pos d'"
      "pos d \<le> length (buf d) \<Longrightarrow> pos d' \<le> length (buf d)" by (blast dest: steadyD)+
    with m have "length (buf d) < pos d + m \<Longrightarrow> length (buf d') < pos d' + m'" by simp
    with d' have "pos d \<le> length (buf d) \<Longrightarrow> length (buf d) < pos d + m \<Longrightarrow> q x d' \<noteq> Diverge"
      by (intro steadyD(1) [OF q]) auto
    with Got show ?thesis by simp
  qed (use p in \<open>auto dest: steadyD\<close>)
next
  fix d :: decoder and y d''
  show "rbind (p d) q = Got y d'' \<longrightarrow> buf d'' = buf d \<and> pos d + (k + k') \<le> pos d'' \<and>
      (pos d \<le> length (buf d) \<longrightarrow> pos d'' \<le> length (buf d))"
  proof
    assume "rbind (p d) q = Got y d''"
    then obtain x d' where "p d = Got x d'" "q x d' = Got y d''" by (auto simp: rbind_eq_Got)
    with p q [of x] have 1: "buf d' = buf d" "pos d + k \<le> pos d'"
      "pos d \<le> length (buf d) \<Longrightarrow> pos d' \<le> length (buf d)"
      and 2: "buf d'' = buf d'" "pos d' + k' \<le> pos d''"
      "pos d' \<le> length (buf d') \<Longrightarrow> pos d'' \<le> length (buf d')"
      by (blast dest: steadyD)+
    then show "buf d'' = buf d \<and> pos d + (k + k') \<le> pos d'' \<and>
        (pos d \<le> length (buf d) \<longrightarrow> pos d'' \<le> length (buf d))"
      by auto
  qed
qed

lemma steady_bind0 [steady_intros]:
  "steady m k p \<Longrightarrow> (\<And>x. steady m 0 (q x)) \<Longrightarrow> steady m k (\<lambda>d. rbind (p d) q)"
  using steady_bind [of m k p m 0 q] by simp

lemma steady_Got [steady_intros]: "steady m 0 (Got x)"
  by (simp add: steady_def)

lemma steady_Fail [steady_intros]: "steady m k (\<lambda>d. Fail (e d))"
  by (simp add: steady_def)

lemma steady_need [steady_intros]: "steady m 0 (need n)"
  by (simp add: steady_def need_def)

lemma steady_byte [steady_intros]: "steady m 1 read_byte"
  by (auto simp: steady_def read_byte_def need_def)

lemma steady_int_be [steady_intros]: "steady m n (read_int_be n)"
  by (auto simp: steady_def read_int_be_def need_def)

lemma steady_int20 [steady_intros]: "steady m 3 read_int20"
  by (auto simp: steady_def read_int20_def need_def)

lemma steady_raw [steady_intros]: "steady m n (read_raw n)"
  by (auto simp: steady_def read_raw_def need_def)

lemma steady_0: "steady m k p \<Longrightarrow> steady m 0 p"
  by (erule steady_weaken) auto

lemma steady_times [steady_intros]: "steady m 0 p \<Longrightarrow> steady m 0 (read_times n p)"
proof (induction n)
  case 0
  then show ?case by (simp add: steady_def)
next
  case (Suc n)
  then have "steady m 0 (\<lambda>d. rbind (p d) (\<lambda>x d. rbind (read_times n p d) (\<lambda>xs d. Got (x # xs) d)))"
    by (intro steady_intros)
  then show ?case by simp
qed

end
