(* ===== verification/Node_Codec.thy ===== *)
theory Node_Codec
  imports Wire_Reader Token_Tables
begin

text \<open>
  The binary node codec, module \<open>binary\<close> of \<open>src/src/protocol.rs\<close>: the node type, the
  encoder (token compression, nibble and hex packing, the JID forms of attribute values)
  and the decoder, function by function. A writer is the bytes it appends to the buffer,
  or its error, or a panic. A reader of the recursive group takes the reader of values as
  its argument, and \<open>read_value\<close> ties the knot on fuel.
\<close>

section \<open>Nodes\<close>

text \<open>\<open>BTreeMap<String, String>\<close>: the entries in key order.\<close>

type_synonym attrs = "(string \<times> string) list"

datatype node = Node (tag: string) (node_attrs: attrs) (node_content: content)
  and content = CNone | CBytes bytes | CNodes "node list"

fun attrs_insert :: "string \<Rightarrow> string \<Rightarrow> attrs \<Rightarrow> attrs" where
  "attrs_insert k v [] = [(k, v)]"
| "attrs_insert k v ((k', v') # r) =
    (if k < k' then (k, v) # (k', v') # r
     else if k = k' then (k, v) # r
     else (k', v') # attrs_insert k v r)"

definition new_node :: "string \<Rightarrow> node" where
  "new_node t = Node t [] CNone"

fun to_xml :: "node \<Rightarrow> string" where
  "to_xml (Node t as c) =
    ''<'' @ t @ concat (map (\<lambda>(k, v). '' '' @ k @ ''=\"'' @ v @ ''\"'') as) @
    (case c of
       CNone \<Rightarrow> ''/>''
     | CBytes b \<Rightarrow> ''>#'' @ show_nat (length b) @ ''b</'' @ t @ ''>''
     | CNodes ns \<Rightarrow> ''>'' @ concat (map to_xml ns) @ ''</'' @ t @ ''>'')"

section \<open>Wire constants\<close>

definition LIST_EMPTY :: u8 where "LIST_EMPTY = 0"
definition DICT_0 :: u8 where "DICT_0 = 236"
definition DICT_3 :: u8 where "DICT_3 = 239"
definition INTEROP_JID :: u8 where "INTEROP_JID = 245"
definition FB_JID :: u8 where "FB_JID = 246"
definition AD_JID :: u8 where "AD_JID = 247"
definition LIST_8 :: u8 where "LIST_8 = 248"
definition LIST_16 :: u8 where "LIST_16 = 249"
definition JID_PAIR :: u8 where "JID_PAIR = 250"
definition HEX_8 :: u8 where "HEX_8 = 251"
definition BINARY_8 :: u8 where "BINARY_8 = 252"
definition BINARY_20 :: u8 where "BINARY_20 = 253"
definition BINARY_32 :: u8 where "BINARY_32 = 254"
definition NIBBLE_8 :: u8 where "NIBBLE_8 = 255"
definition PACKED_MAX :: nat where "PACKED_MAX = 127"

lemmas wire_consts = LIST_EMPTY_def DICT_0_def DICT_3_def INTEROP_JID_def FB_JID_def AD_JID_def
  LIST_8_def LIST_16_def JID_PAIR_def HEX_8_def BINARY_8_def BINARY_20_def BINARY_32_def
  NIBBLE_8_def

datatype encode_error = TooLarge nat | EncPackedTooLong nat

section \<open>Token lookup\<close>

text \<open>The hash maps are filled in table order, so the last of equal tokens would win.\<close>

definition single_byte_index :: "string \<Rightarrow> u8 option" where
  "single_byte_index tok =
    map_option word_of_nat
      (map_of (rev (filter (\<lambda>(t, i). t \<noteq> []) (zip SINGLE_BYTE_TOKENS [0..<length SINGLE_BYTE_TOKENS])))
        tok)"

definition double_byte_entries :: "(string \<times> (nat \<times> nat)) list" where
  "double_byte_entries =
    concat (map (\<lambda>(di, dict). map (\<lambda>(i, t). (t, (di, i))) (List.enumerate 0 dict))
      (List.enumerate 0 DOUBLE_BYTE_TOKENS))"

definition double_byte_index :: "string \<Rightarrow> (u8 \<times> u8) option" where
  "double_byte_index tok =
    map_option (\<lambda>(di, i). (word_of_nat di, word_of_nat i))
      (map_of (rev double_byte_entries) tok)"

section \<open>Encoder\<close>

definition write_list_start :: "nat \<Rightarrow> (encode_error, bytes) outcome" where
  "write_list_start sz =
    (if sz = 0 then Ok [LIST_EMPTY]
     else if sz < 256 then Ok [LIST_8, word_of_nat sz]
     else if sz < 2 ^ 16 then
       Ok [LIST_16, word_of_nat (drop_bit 8 sz), word_of_nat sz]
     else Err (TooLarge sz))"

definition write_byte_length :: "nat \<Rightarrow> (encode_error, bytes) outcome" where
  "write_byte_length len =
    (if len < 256 then Ok [BINARY_8, word_of_nat len]
     else if len < 2 ^ 20 then
       Ok [BINARY_20, word_of_nat (drop_bit 16 len AND 0x0F), word_of_nat (drop_bit 8 len),
           word_of_nat len]
     else if len < 2147483647 then Ok (BINARY_32 # be_bytes 4 len)
     else Err (TooLarge len))"

definition write_bytes :: "bytes \<Rightarrow> (encode_error, bytes) outcome" where
  "write_bytes value = obind (write_byte_length (length value)) (\<lambda>h. Ok (h @ value))"

definition validate_nibble :: "string \<Rightarrow> bool" where
  "validate_nibble s \<longleftrightarrow>
    \<not> (length s > PACKED_MAX \<or> s = []) \<and>
    list_all (\<lambda>c. is_ascii_digit c \<or> c = CHR ''-'' \<or> c = CHR ''.'') s"

definition validate_hex :: "string \<Rightarrow> bool" where
  "validate_hex s \<longleftrightarrow>
    \<not> (length s > PACKED_MAX \<or> s = []) \<and>
    list_all (\<lambda>c. is_ascii_digit c \<or>
      (of_char CHR ''A'' \<le> (of_char c :: nat) \<and> of_char c \<le> (of_char CHR ''F'' :: nat))) s"

text \<open>\<open>None\<close> is the unreachable arm.\<close>

definition pack_nibble :: "u8 \<Rightarrow> u8 option" where
  "pack_nibble c =
    (if c = byte_of CHR ''-'' then Some 10
     else if c = byte_of CHR ''.'' then Some 11
     else if c = 0 then Some 15
     else if 48 \<le> c \<and> c \<le> 57 then Some (c - 48)
     else None)"

definition pack_hex :: "u8 \<Rightarrow> u8 option" where
  "pack_hex c =
    (if 48 \<le> c \<and> c \<le> 57 then Some (c - 48)
     else if 65 \<le> c \<and> c \<le> 70 then Some (10 + c - 65)
     else if c = 0 then Some 15
     else None)"

fun pack_pairs :: "(u8 \<Rightarrow> u8 option) \<Rightarrow> bytes \<Rightarrow> bytes option" where
  "pack_pairs pack [] = Some []"
| "pack_pairs pack [a] =
    (case (pack a, pack 0) of (Some x, Some y) \<Rightarrow> Some [push_bit 4 x OR y] | _ \<Rightarrow> None)"
| "pack_pairs pack (a # b # r) =
    (case (pack a, pack b, pack_pairs pack r) of
       (Some x, Some y, Some ps) \<Rightarrow> Some ((push_bit 4 x OR y) # ps)
     | _ \<Rightarrow> None)"

definition write_packed :: "string \<Rightarrow> u8 \<Rightarrow> (encode_error, bytes) outcome" where
  "write_packed s ty =
    (if length s > PACKED_MAX then Err (EncPackedTooLong (length s))
     else
       let bs = as_bytes s;
           half_len = (length bs + 1) div 2;
           header = (word_of_nat half_len :: u8) OR (if odd (length bs) then 0x80 else 0);
           pack = (if ty = NIBBLE_8 then pack_nibble else pack_hex)
       in obind (or_panic (pack_pairs pack bs)) (\<lambda>ps. Ok (ty # header # ps)))"

definition write_string :: "string \<Rightarrow> (encode_error, bytes) outcome" where
  "write_string s =
    (case single_byte_index s of
       Some idx \<Rightarrow> Ok [idx]
     | None \<Rightarrow>
       (case double_byte_index s of
          Some (di, idx) \<Rightarrow> Ok [DICT_0 + di, idx]
        | None \<Rightarrow>
          if validate_nibble s then write_packed s NIBBLE_8
          else if validate_hex s then write_packed s HEX_8
          else obind (write_byte_length (length s)) (\<lambda>h. Ok (h @ as_bytes s))))"

definition KNOWN_JID_SERVERS :: "string list" where
  "KNOWN_JID_SERVERS =
    [''s.whatsapp.net'', ''c.us'', ''g.us'', ''lid'', ''broadcast'', ''newsletter'', ''call'']"

text \<open>The agent and device of \<open>user[.agent][:device]\<close>, as the JID branch of
  \<open>write_attr_value\<close> reads them off; \<open>None\<close> where the branch is not taken.\<close>

definition ad_jid_parts :: "string \<Rightarrow> string \<Rightarrow> (string \<times> nat \<times> nat) option" where
  "ad_jid_parts left server =
    (let (head, device) =
           (case rsplit_once CHR '':'' left of
              Some (h, d) \<Rightarrow> (h, parse_uint 255 d)
            | None \<Rightarrow> (left, Some 0));
         (user, dot_agent) =
           (case split_once CHR ''.'' head of
              Some (u, a) \<Rightarrow> (u, parse_uint 255 a)
            | None \<Rightarrow> (head, None));
         server_agent =
           (if server = ''s.whatsapp.net'' then Some 0
            else if server = ''lid'' then Some 1
            else if server = ''hosted'' \<or> server = ''hosted.lid'' then dot_agent
            else None)
     in case server_agent of
          None \<Rightarrow> None
        | Some server_agent \<Rightarrow>
          (case device of
             None \<Rightarrow> None
           | Some device \<Rightarrow>
             (let agent = (case dot_agent of Some a \<Rightarrow> a | None \<Rightarrow> server_agent)
              in if user \<noteq> [] \<and> (device > 0 \<or> agent > 0) then Some (user, agent, device)
                 else None)))"

definition write_attr_value :: "string \<Rightarrow> (encode_error, bytes) outcome" where
  "write_attr_value v =
    (case rsplit_once CHR ''@'' v of
       None \<Rightarrow> write_string v
     | Some (left, server) \<Rightarrow>
       if left = [] \<and> server \<in> set KNOWN_JID_SERVERS then
         obind (write_string server) (\<lambda>sv. Ok (JID_PAIR # LIST_EMPTY # sv))
       else if left \<noteq> [] \<and> CHR ''@'' \<notin> set left then
         (if server \<in> set KNOWN_JID_SERVERS \<and> CHR '':'' \<notin> set left \<and> CHR ''.'' \<notin> set left then
            obind (write_string left) (\<lambda>l.
            obind (write_string server) (\<lambda>sv. Ok (JID_PAIR # l @ sv)))
          else
            (case ad_jid_parts left server of
               Some (user, agent, device) \<Rightarrow>
                 obind (write_string user) (\<lambda>u.
                   Ok (AD_JID # word_of_nat agent # word_of_nat device # u))
             | None \<Rightarrow> write_string v))
       else write_string v)"

primrec write_attrs :: "attrs \<Rightarrow> (encode_error, bytes) outcome" where
  "write_attrs [] = Ok []"
| "write_attrs (kv # r) =
    (if snd kv = [] then write_attrs r
     else obind (write_string (fst kv)) (\<lambda>k.
          obind (write_attr_value (snd kv)) (\<lambda>v.
          obind (write_attrs r) (\<lambda>rest. Ok (k @ v @ rest)))))"

definition node_list_size :: "attrs \<Rightarrow> content \<Rightarrow> nat" where
  "node_list_size as c =
    2 * length (filter (\<lambda>kv. snd kv \<noteq> []) as) + 1 + (if c = CNone then 0 else 1)"

fun write_node :: "node \<Rightarrow> (encode_error, bytes) outcome"
  and write_content :: "content \<Rightarrow> (encode_error, bytes) outcome"
  and write_nodes :: "node list \<Rightarrow> (encode_error, bytes) outcome" where
  "write_node (Node t as c) =
    (if t = ''0'' then Ok [LIST_8, LIST_EMPTY]
     else
       obind (write_list_start (node_list_size as c)) (\<lambda>h.
       obind (write_string t) (\<lambda>tg.
       obind (write_attrs as) (\<lambda>at.
       obind (write_content c) (\<lambda>ct. Ok (h @ tg @ at @ ct))))))"
| "write_content CNone = Ok []"
| "write_content (CBytes b) = write_bytes b"
| "write_content (CNodes ns) =
    obind (write_list_start (length ns)) (\<lambda>h.
    obind (write_nodes ns) (\<lambda>cs. Ok (h @ cs)))"
| "write_nodes [] = Ok []"
| "write_nodes (n # ns) =
    obind (write_node n) (\<lambda>b. obind (write_nodes ns) (\<lambda>bs. Ok (b @ bs)))"

definition encode :: "node \<Rightarrow> (encode_error, bytes) outcome" where
  "encode n = write_node n"

definition pack :: "node \<Rightarrow> (encode_error, bytes) outcome" where
  "pack n = obind (write_node n) (\<lambda>b. Ok (0 # b))"

section \<open>Decoder\<close>

datatype dvalue = VNone | VStr string | VBytes bytes | VNodes "node list"

definition read_list_size :: "u8 \<Rightarrow> decoder \<Rightarrow> nat read" where
  "read_list_size t d =
    (if t = LIST_EMPTY then Got 0 d
     else if t = LIST_8 then read_int_be 1 d
     else if t = LIST_16 then read_int_be 2 d
     else Fail (InvalidListSize (pos d) t))"

definition unpack_byte :: "u8 \<Rightarrow> u8 \<Rightarrow> decoder \<Rightarrow> u8 read" where
  "unpack_byte ty v d =
    (if ty = NIBBLE_8 then
       (if v \<le> 9 then Got (48 + v) d
        else if v = 10 then Got (byte_of CHR ''-'') d
        else if v = 11 then Got (byte_of CHR ''.'') d
        else if v = 15 then Got 0 d
        else Fail (InvalidNibble v))
     else if ty = HEX_8 then
       (if v \<le> 9 then Got (48 + v) d
        else if v \<le> 15 then Got (65 + v - 10) d
        else Fail (InvalidHex v))
     else Fail (Unsupported ''unpack with non-packed tag''))"

definition read_packed_byte :: "u8 \<Rightarrow> decoder \<Rightarrow> bytes read" where
  "read_packed_byte ty d =
    rbind (read_byte d) (\<lambda>b d.
    rbind (unpack_byte ty (drop_bit 4 b) d) (\<lambda>upper d.
    rbind (unpack_byte ty (b AND 0x0F) d) (\<lambda>lower d. Got [upper, lower] d)))"

definition read_packed :: "u8 \<Rightarrow> decoder \<Rightarrow> string read" where
  "read_packed ty d =
    rbind (read_byte d) (\<lambda>header d.
    rbind (read_times (unat (header AND 0x7F)) (read_packed_byte ty) d) (\<lambda>ps d.
      let out = concat ps;
          out = (if header AND 0x80 \<noteq> 0 \<and> out \<noteq> [] then butlast out else out)
      in case from_utf8 out of
           Some s \<Rightarrow> Got s d
         | None \<Rightarrow> Fail (Unsupported ''packed bytes were not valid UTF-8'')))"

definition read_bytes_or_string :: "nat \<Rightarrow> bool \<Rightarrow> decoder \<Rightarrow> dvalue read" where
  "read_bytes_or_string n as_string d =
    rbind (read_raw n d) (\<lambda>raw d.
      if as_string then
        (case from_utf8 raw of
           Some s \<Rightarrow> Got (VStr s) d
         | None \<Rightarrow> Fail (Unsupported ''attribute value was not valid UTF-8''))
      else Got (VBytes raw) d)"

definition read_dict_token :: "u8 \<Rightarrow> decoder \<Rightarrow> dvalue read" where
  "read_dict_token t d =
    rbind (read_byte d) (\<lambda>b d.
      let i = unat b; dict = unat (t - DICT_0)
      in if dict < length DOUBLE_BYTE_TOKENS \<and> i < length (DOUBLE_BYTE_TOKENS ! dict)
         then Got (VStr (DOUBLE_BYTE_TOKENS ! dict ! i)) d
         else Fail (InvalidToken (pos d) t))"

text \<open>\<open>expect_str\<close>: the match that turns a value into a string or an error.\<close>

definition expect_str :: "string \<Rightarrow> dvalue \<Rightarrow> decoder \<Rightarrow> string read" where
  "expect_str err v d = (case v of VStr s \<Rightarrow> Got s d | _ \<Rightarrow> Fail (Unsupported err))"

definition format_ad_jid :: "string \<Rightarrow> nat \<Rightarrow> nat \<Rightarrow> string" where
  "format_ad_jid user agent device =
    (let server = (if agent = 0 then ''s.whatsapp.net'' else if agent = 1 then ''lid'' else ''hosted'')
     in if agent = 0 \<and> device = 0 then user @ ''@'' @ server
        else if agent = 0 then user @ '':'' @ show_nat device @ ''@'' @ server
        else if device = 0 then user @ ''.'' @ show_nat agent @ ''@'' @ server
        else user @ ''.'' @ show_nat agent @ '':'' @ show_nat device @ ''@'' @ server)"

definition read_jid_pair :: "(bool \<Rightarrow> decoder \<Rightarrow> dvalue read) \<Rightarrow> decoder \<Rightarrow> string read" where
  "read_jid_pair rv d =
    rbind (rv True d) (\<lambda>user d.
    rbind (rv True d) (\<lambda>server d.
    rbind (expect_str ''JID server must be a string'' server d) (\<lambda>server d.
      case user of
        VNone \<Rightarrow> Got (''@'' @ server) d
      | VStr u \<Rightarrow> Got (u @ ''@'' @ server) d
      | _ \<Rightarrow> Fail (Unsupported ''JID user must be string|none''))))"

definition read_ad_jid :: "(bool \<Rightarrow> decoder \<Rightarrow> dvalue read) \<Rightarrow> decoder \<Rightarrow> string read" where
  "read_ad_jid rv d =
    rbind (read_byte d) (\<lambda>agent d.
    rbind (read_byte d) (\<lambda>device d.
    rbind (rv True d) (\<lambda>v d.
    rbind (expect_str ''AD JID user must be string'' v d) (\<lambda>user d.
      Got (format_ad_jid user (unat agent) (unat device)) d))))"

definition read_fb_jid :: "(bool \<Rightarrow> decoder \<Rightarrow> dvalue read) \<Rightarrow> decoder \<Rightarrow> string read" where
  "read_fb_jid rv d =
    rbind (rv True d) (\<lambda>v d.
    rbind (expect_str ''FB JID user must be string'' v d) (\<lambda>user d.
    rbind (read_int_be 2 d) (\<lambda>device d.
    rbind (rv True d) (\<lambda>v d.
    rbind (expect_str ''FB JID server must be string'' v d) (\<lambda>server d.
      Got (if device > 0 then user @ '':'' @ show_nat device @ ''@'' @ server
           else user @ ''@'' @ server) d)))))"

definition read_interop_jid :: "(bool \<Rightarrow> decoder \<Rightarrow> dvalue read) \<Rightarrow> decoder \<Rightarrow> string read" where
  "read_interop_jid rv d =
    rbind (rv True d) (\<lambda>v d.
    rbind (expect_str ''Interop JID user must be string'' v d) (\<lambda>user d.
    rbind (read_int_be 2 d) (\<lambda>device d.
    rbind (read_int_be 2 d) (\<lambda>integrator d.
    rbind (rv True d) (\<lambda>v d.
    rbind (expect_str ''Interop JID server must be string'' v d) (\<lambda>server d.
      Got (user @ '':'' @ show_nat device @ ''_'' @ show_nat integrator @ ''@'' @ server) d))))))"

definition attr_string :: "dvalue \<Rightarrow> decoder \<Rightarrow> string read" where
  "attr_string v d =
    (case v of
       VStr s \<Rightarrow> Got s d
     | VNone \<Rightarrow> Got [] d
     | VBytes b \<Rightarrow> (case from_utf8 b of
           Some s \<Rightarrow> Got s d | None \<Rightarrow> Fail (Unsupported ''attr was non-UTF8 bytes''))
     | VNodes _ \<Rightarrow> Fail (Unsupported ''attr value cannot be a node list''))"

primrec read_attrs ::
  "(bool \<Rightarrow> decoder \<Rightarrow> dvalue read) \<Rightarrow> nat \<Rightarrow> attrs \<Rightarrow> decoder \<Rightarrow> attrs read" where
  "read_attrs rv 0 as d = Got as d"
| "read_attrs rv (Suc n) as d =
    rbind (rv True d) (\<lambda>k d.
    rbind (case k of VStr s \<Rightarrow> Got s d | _ \<Rightarrow> Fail (NonStringKey (pos d))) (\<lambda>key d.
    rbind (rv True d) (\<lambda>v d.
    rbind (attr_string v d) (\<lambda>val d.
      read_attrs rv n (attrs_insert key val as) d))))"

definition content_of :: "dvalue \<Rightarrow> content" where
  "content_of v =
    (case v of VNone \<Rightarrow> CNone | VBytes b \<Rightarrow> CBytes b | VNodes ns \<Rightarrow> CNodes ns
     | VStr s \<Rightarrow> CBytes (as_bytes s))"

definition read_node_inner :: "(bool \<Rightarrow> decoder \<Rightarrow> dvalue read) \<Rightarrow> decoder \<Rightarrow> node read" where
  "read_node_inner rv d =
    rbind (read_byte d) (\<lambda>size_tag d.
    rbind (read_list_size size_tag d) (\<lambda>list_size d.
    rbind (rv True d) (\<lambda>raw_tag d.
    rbind (expect_str ''node tag must be a string'' raw_tag d) (\<lambda>tg d.
      if list_size = 0 \<or> tg = [] then Fail InvalidNode
      else
        rbind (read_attrs rv ((list_size - 1) div 2) [] d) (\<lambda>as d.
          if list_size mod 2 = 1 then Got (Node tg as CNone) d
          else rbind (rv False d) (\<lambda>v d. Got (Node tg as (content_of v)) d))))))"

definition read_tagged ::
  "(bool \<Rightarrow> decoder \<Rightarrow> dvalue read) \<Rightarrow> bool \<Rightarrow> u8 \<Rightarrow> decoder \<Rightarrow> dvalue read" where
  "read_tagged rv as_string t d =
    (if t = LIST_EMPTY then Got VNone d
     else if t = LIST_8 \<or> t = LIST_16 then
       rbind (read_list_size t d) (\<lambda>sz d.
       rbind (read_times sz (read_node_inner rv) d) (\<lambda>ns d. Got (VNodes ns) d))
     else if t = BINARY_8 then rbind (read_int_be 1 d) (\<lambda>n. read_bytes_or_string n as_string)
     else if t = BINARY_20 then rbind (read_int20 d) (\<lambda>n. read_bytes_or_string n as_string)
     else if t = BINARY_32 then rbind (read_int_be 4 d) (\<lambda>n. read_bytes_or_string n as_string)
     else if DICT_0 \<le> t \<and> t \<le> DICT_3 then read_dict_token t d
     else if t = FB_JID then rbind (read_fb_jid rv d) (\<lambda>s. Got (VStr s))
     else if t = INTEROP_JID then rbind (read_interop_jid rv d) (\<lambda>s. Got (VStr s))
     else if t = JID_PAIR then rbind (read_jid_pair rv d) (\<lambda>s. Got (VStr s))
     else if t = AD_JID then rbind (read_ad_jid rv d) (\<lambda>s. Got (VStr s))
     else if t = NIBBLE_8 \<or> t = HEX_8 then rbind (read_packed t d) (\<lambda>s. Got (VStr s))
     else if 1 \<le> unat t \<and> unat t < length SINGLE_BYTE_TOKENS then
       Got (VStr (SINGLE_BYTE_TOKENS ! unat t)) d
     else Fail (InvalidToken (pos d) t))"

primrec read_value :: "nat \<Rightarrow> bool \<Rightarrow> decoder \<Rightarrow> dvalue read" where
  "read_value 0 as_string d = Diverge"
| "read_value (Suc fuel) as_string d =
    rbind (read_byte d) (\<lambda>t. read_tagged (read_value fuel) as_string t)"

declare read_value.simps [simp del]

text \<open>The input's length bounds the nesting, as every level consumes a byte.\<close>

definition decode :: "bytes \<Rightarrow> node read" where
  "decode data = read_node_inner (read_value (length data + 1)) \<lparr>buf = data, pos = 0\<rparr>"

text \<open>\<open>inflate\<close> is the zlib decompressor of \<open>flate2\<close>: the inflated bytes, or none.\<close>

definition unmarshal :: "(bytes \<Rightarrow> bytes option) \<Rightarrow> bytes \<Rightarrow> node read" where
  "unmarshal inflate data =
    (case data of
       [] \<Rightarrow> Fail (Eof 0 1)
     | flag # body \<Rightarrow>
       if flag AND 2 \<noteq> 0 then
         (case inflate body of
            None \<Rightarrow> Fail (Unsupported ''zlib decompression failed'')
          | Some out \<Rightarrow> decode out)
       else decode body)"

end
