(* ===== verification/Node_Roundtrip.thy ===== *)
theory Node_Roundtrip
  imports Node_Codec
begin

text \<open>
  What the node codec promises: the decoder is total (its fuel is enough and it only fails
  with an error), the encoder never reaches an unreachable arm, and a well-formed node that
  is encoded is decoded to its canonical form, whatever bytes follow it.
\<close>

section \<open>Tokens\<close>

lemma map_of_rev_mem: "map_of (rev xs) k = Some v \<Longrightarrow> (k, v) \<in> set xs"
  by (metis map_of_SomeD set_rev)

lemma single_byte_index_Some:
  assumes "single_byte_index s = Some idx"
  shows "1 \<le> unat idx" "unat idx < length SINGLE_BYTE_TOKENS" "SINGLE_BYTE_TOKENS ! unat idx = s"
proof -
  obtain i where i: "i < length SINGLE_BYTE_TOKENS" "SINGLE_BYTE_TOKENS ! i = s" "s \<noteq> []"
    "idx = word_of_nat i"
    using assms by (auto simp: single_byte_index_def in_set_zip dest!: map_of_rev_mem)
  have "SINGLE_BYTE_TOKENS ! 0 = []"
    by (simp add: SINGLE_BYTE_TOKENS_def single_byte_tokens_lo_def)
  with i have "1 \<le> i" by (cases i) auto
  moreover from i have "unat idx = i" by (simp add: length_SINGLE_BYTE_TOKENS)
  ultimately show "1 \<le> unat idx" "unat idx < length SINGLE_BYTE_TOKENS"
    "SINGLE_BYTE_TOKENS ! unat idx = s" using i by simp_all
qed

lemma DOUBLE_BYTE_TOKENS_shape:
  "length DOUBLE_BYTE_TOKENS = 4"
  "di < 4 \<Longrightarrow> length (DOUBLE_BYTE_TOKENS ! di) = 256"
proof -
  show len: "length DOUBLE_BYTE_TOKENS = 4" by (simp add: DOUBLE_BYTE_TOKENS_def)
  assume di: "di < 4"
  with len have "length (DOUBLE_BYTE_TOKENS ! di) = map length DOUBLE_BYTE_TOKENS ! di" by simp
  also from di have "\<dots> = 256"
    unfolding length_DOUBLE_BYTE_TOKENS by (auto simp: nth_Cons' less_Suc_eq numeral_eq_Suc)
  finally show "length (DOUBLE_BYTE_TOKENS ! di) = 256" .
qed

lemma double_byte_index_Some:
  assumes "double_byte_index s = Some (di, idx)"
  shows "unat di < 4" "DOUBLE_BYTE_TOKENS ! unat di ! unat idx = s"
proof -
  obtain a i where ai: "(s, (a, i)) \<in> set double_byte_entries"
    "di = word_of_nat a" "idx = word_of_nat i"
    using assms by (auto simp: double_byte_index_def dest!: map_of_rev_mem)
  then have a: "a < 4" and i: "i < length (DOUBLE_BYTE_TOKENS ! a)" "DOUBLE_BYTE_TOKENS ! a ! i = s"
    by (auto simp: double_byte_entries_def in_set_enumerate_eq DOUBLE_BYTE_TOKENS_shape(1))
  with DOUBLE_BYTE_TOKENS_shape(2) have "i < 256" by simp
  with a i ai show "unat di < 4" "DOUBLE_BYTE_TOKENS ! unat di ! unat idx = s" by simp_all
qed

section \<open>Packed strings\<close>

lemma nibble_join:
  fixes x y :: u8
  assumes "x < 16" "y < 16"
  shows "drop_bit 4 (push_bit 4 x OR y) = x" "(push_bit 4 x OR y) AND 0x0F = y"
proof -
  from assms have x: "unat x < 16" and y: "unat y < 16" by (simp_all add: word_less_nat_alt)
  have px: "unat (push_bit 4 x) = push_bit 4 (unat x)"
    unfolding unsigned_push_bit_eq
    using x by (simp add: take_bit_nat_eq_self_iff push_bit_eq_mult)
  have w: "unat (push_bit 4 x OR y) = unat x * 16 + unat y"
    using y push_bit_or_nat [of "unat y" 4 "unat x"] by (simp add: unsigned_or_eq px)
  have "unat (drop_bit 4 (push_bit 4 x OR y)) = unat x"
    unfolding unsigned_drop_bit_eq w using x y by (simp add: drop_bit_eq_div take_bit_eq_mod)
  then show "drop_bit 4 (push_bit 4 x OR y) = x"
    by (rule unsigned_word_eqI)
  have "unat ((push_bit 4 x OR y) AND mask 4) = unat y"
    unfolding take_bit_eq_mask [symmetric] unsigned_take_bit_eq w
    using y by (simp add: take_bit_eq_mod)
  then show "(push_bit 4 x OR y) AND 0x0F = y"
    by (simp add: mask_eq_exp_minus_1 unsigned_word_eqI)
qed

text \<open>What one packing and its unpacking agree on, for a byte that is not the padding.\<close>

definition packs :: "(u8 \<Rightarrow> u8 option) \<Rightarrow> u8 \<Rightarrow> bytes \<Rightarrow> bool" where
  "packs pk ty bs \<longleftrightarrow>
    (\<forall>b \<in> set bs. \<exists>x. pk b = Some x \<and> x < 16 \<and> (\<forall>d. unpack_byte ty x d = Got b d)) \<and>
    (\<exists>x p. pk 0 = Some x \<and> x < 16 \<and> (\<forall>d. unpack_byte ty x d = Got p d))"

lemma unpack_digit:
  assumes "48 \<le> b" "b \<le> 57"
  shows "b - 48 < 16" "unpack_byte NIBBLE_8 (b - 48) d = Got b d"
    "unpack_byte HEX_8 (b - 48) d = Got b d"
proof -
  have u: "unat (b - 48) = unat b - 48"
    using assms(1) by (simp add: unat_sub word_le_nat_alt)
  then show "b - 48 < 16" using assms by (simp add: word_less_nat_alt word_le_nat_alt)
  have "b - 48 \<le> 9" using u assms by (simp add: word_le_nat_alt)
  then show "unpack_byte NIBBLE_8 (b - 48) d = Got b d" "unpack_byte HEX_8 (b - 48) d = Got b d"
    by (auto simp: unpack_byte_def wire_consts)
qed

lemma unpack_hex_letter:
  assumes "65 \<le> b" "b \<le> 70"
  shows "b - 55 < 16" "unpack_byte HEX_8 (b - 55) d = Got b d"
proof -
  have u: "unat (b - 55) = unat b - 55"
    using assms(1) by (simp add: unat_sub word_le_nat_alt)
  have "\<not> b - 55 \<le> 9" "b - 55 \<le> 15" "65 + (b - 55) - 10 = b"
    using u assms by (simp_all add: word_le_nat_alt)
  then show "b - 55 < 16" "unpack_byte HEX_8 (b - 55) d = Got b d"
    by (auto simp: unpack_byte_def wire_consts word_less_nat_alt word_le_nat_alt)
qed

lemma packs_nibble:
  assumes "validate_nibble s"
  shows "packs pack_nibble NIBBLE_8 (as_bytes s)"
proof -
  have "\<exists>x. pack_nibble (byte_of c) = Some x \<and> x < 16 \<and> (\<forall>d. unpack_byte NIBBLE_8 x d = Got (byte_of c) d)"
    if "c \<in> set s" for c
  proof -
    from that assms have "is_ascii_digit c \<or> c = CHR ''-'' \<or> c = CHR ''.''"
      by (simp add: validate_nibble_def list_all_iff)
    then consider "c = CHR ''-''" | "c = CHR ''.''" | "is_ascii_digit c" "c \<noteq> CHR ''-''" "c \<noteq> CHR ''.''"
      by blast
    then show ?thesis
    proof cases
      case 3
      then have "48 \<le> byte_of c" "byte_of c \<le> 57"
        by (auto simp: is_ascii_digit_def word_le_nat_alt unat_byte_of)
      moreover from this have "byte_of c \<noteq> 0" by auto
      ultimately show ?thesis using 3 by (auto simp: pack_nibble_def unpack_digit)
    qed (auto simp: pack_nibble_def unpack_byte_def wire_consts byte_of_def)
  qed
  moreover have "pack_nibble 0 = Some 15"
    by (simp add: pack_nibble_def byte_of_def)
  moreover have "unpack_byte NIBBLE_8 15 d = Got 0 d" for d
    by (simp add: unpack_byte_def wire_consts)
  ultimately show ?thesis by (auto simp: packs_def as_bytes_def)
qed

lemma packs_hex:
  assumes "validate_hex s"
  shows "packs pack_hex HEX_8 (as_bytes s)"
proof -
  have "\<exists>x. pack_hex (byte_of c) = Some x \<and> x < 16 \<and> (\<forall>d. unpack_byte HEX_8 x d = Got (byte_of c) d)"
    if "c \<in> set s" for c
  proof (cases "is_ascii_digit c")
    case True
    then have "48 \<le> byte_of c" "byte_of c \<le> 57"
      by (auto simp: is_ascii_digit_def word_le_nat_alt unat_byte_of)
    then show ?thesis by (auto simp: pack_hex_def unpack_digit)
  next
    case False
    with that assms have "65 \<le> byte_of c" "byte_of c \<le> 70"
      by (auto simp: validate_hex_def list_all_iff word_le_nat_alt unat_byte_of)
    moreover from this(1) have "\<not> byte_of c \<le> 57" by (auto simp: word_le_nat_alt)
    ultimately show ?thesis by (auto simp: pack_hex_def unpack_hex_letter)
  qed
  moreover have "pack_hex 0 = Some 15" by (simp add: pack_hex_def)
  moreover have "unpack_byte HEX_8 15 d = Got 70 d" for d
    by (simp add: unpack_byte_def wire_consts)
  ultimately show ?thesis by (auto simp: packs_def as_bytes_def)
qed

lemma reads_packed_byte:
  assumes "x < 16" "y < 16" "\<forall>d. unpack_byte ty x d = Got a d" "\<forall>d. unpack_byte ty y d = Got b d"
  shows "reads (read_packed_byte ty) [push_bit 4 x OR y] [a, b]"
  using assms nibble_join [OF assms(1,2)]
  by (simp add: reads_def read_packed_byte_def read_byte_def need_def nth_append)

lemma pack_pairs_reads:
  assumes "packs pk ty bs"
  shows "\<exists>ps pairs. pack_pairs pk bs = Some ps \<and> length ps = (length bs + 1) div 2 \<and>
    list_all2 (reads (read_packed_byte ty)) (map (\<lambda>b. [b]) ps) pairs \<and>
    (if even (length bs) then concat pairs = bs else \<exists>p. concat pairs = bs @ [p])"
  using assms
proof (induction pk bs rule: pack_pairs.induct)
  case (1 pk)
  then show ?case by simp
next
  case (2 pk a)
  then obtain x y p where "pk a = Some x" "x < 16" "\<forall>d. unpack_byte ty x d = Got a d"
    "pk 0 = Some y" "y < 16" "\<forall>d. unpack_byte ty y d = Got p d"
    by (auto simp: packs_def)
  then show ?case
    by (auto simp: reads_packed_byte intro!: exI [of _ "[[a, p]]"])
next
  case (3 pk a b r)
  then obtain x y where xy: "pk a = Some x" "x < 16" "\<forall>d. unpack_byte ty x d = Got a d"
    "pk b = Some y" "y < 16" "\<forall>d. unpack_byte ty y d = Got b d"
    by (auto simp: packs_def)
  from 3 have "packs pk ty r" by (simp add: packs_def)
  with "3.IH" xy obtain ps pairs where ps: "pack_pairs pk r = Some ps" "length ps = (length r + 1) div 2"
    "list_all2 (reads (read_packed_byte ty)) (map (\<lambda>b. [b]) ps) pairs"
    "if even (length r) then concat pairs = r else \<exists>p. concat pairs = r @ [p]"
    by blast
  with xy have "list_all2 (reads (read_packed_byte ty))
      (map (\<lambda>b. [b]) ((push_bit 4 x OR y) # ps)) ([a, b] # pairs)"
    by (simp add: reads_packed_byte)
  with xy ps show ?case
    by (intro exI [of _ "(push_bit 4 x OR y) # ps"] exI [of _ "[a, b] # pairs"])
       (auto split: if_splits)
qed

text \<open>The header byte: seven bits of length and the odd-length flag.\<close>

lemma packed_header:
  assumes "n < 128"
  shows "unat (((word_of_nat n :: u8) OR (if odd k then 0x80 else 0)) AND 0x7F) = n"
    and "((word_of_nat n :: u8) OR (if odd k then 0x80 else 0)) AND 0x80 \<noteq> 0 \<longleftrightarrow> odd k"
proof -
  let ?m = "if odd k then 0x80 else (0 :: u8)"
  let ?h = "(word_of_nat n :: u8) OR ?m"
  have m: "unat ?m = push_bit 7 (of_bool (odd k))" by simp
  have "unat ?h = push_bit 7 (of_bool (odd k)) OR n"
    using assms by (simp only: unsigned_or_eq m unat_u8_of_nat) (simp add: or.commute)
  then have h: "unat ?h = of_bool (odd k) * 128 + n"
    using push_bit_or_nat [of n 7] assms by simp
  have "unat (?h AND mask 7) = n"
    unfolding take_bit_eq_mask [symmetric] unsigned_take_bit_eq h
    using assms by (simp add: take_bit_eq_mod)
  then show "unat (?h AND 0x7F) = n" by (simp add: mask_eq_exp_minus_1)
  have "?h AND 2 ^ 7 = 0 \<longleftrightarrow> \<not> bit (unat ?h) 7"
    unfolding and_exp_eq_0_iff_not_bit by (simp add: bit_unsigned_iff)
  also have "\<dots> \<longleftrightarrow> even k" unfolding h using assms by (auto simp: bit_iff_odd)
  finally show "?h AND 0x80 \<noteq> 0 \<longleftrightarrow> odd k" by simp
qed

lemma write_packed_reads:
  assumes "write_packed s ty = Ok bs"
    and pk: "packs (if ty = NIBBLE_8 then pack_nibble else pack_hex) ty (as_bytes s)"
    and s: "rust_string s" "s \<noteq> []"
  obtains cs where "bs = ty # cs" "reads (read_packed ty) cs s"
proof -
  let ?h = "(word_of_nat ((length s + 1) div 2) :: u8) OR (if odd (length s) then 0x80 else 0)"
  obtain ps pairs where ps: "length ps = (length s + 1) div 2"
    "pack_pairs (if ty = NIBBLE_8 then pack_nibble else pack_hex) (as_bytes s) = Some ps"
    "list_all2 (reads (read_packed_byte ty)) (map (\<lambda>b. [b]) ps) pairs"
    "if even (length s) then concat pairs = as_bytes s else \<exists>p. concat pairs = as_bytes s @ [p]"
    using pack_pairs_reads [OF pk] by auto
  have len: "length s \<le> 127" and bs: "bs = ty # ?h # ps"
    using assms(1) ps(2) by (auto simp: write_packed_def Let_def PACKED_MAX_def split: if_splits)
  have h: "unat (?h AND 0x7F) = length pairs" "?h AND 0x80 \<noteq> 0 \<longleftrightarrow> odd (length s)"
    using packed_header [of "(length s + 1) div 2" "length s"] len ps(1,3)
    by (auto dest: list_all2_lengthD)
  have "concat (map (\<lambda>b. [b]) ps) = ps" by (induction ps) auto
  with reads_times [OF ps(3)] have t: "reads (read_times (length pairs) (read_packed_byte ty)) ps pairs"
    by simp
  have out: "(if ?h AND 0x80 \<noteq> 0 \<and> concat pairs \<noteq> [] then butlast (concat pairs) else concat pairs)
      = as_bytes s"
    using ps(4) h(2) by (cases "odd (length s)") (auto simp del: concat_eq_Nil_conv)
  have "reads (read_packed ty) (?h # ps) s"
    unfolding read_packed_def
    by (rule reads_bind_Cons [OF reads_byte], unfold h(1), rule reads_bind_Nil [OF t])
       (simp only: Let_def out from_utf8_as_bytes [OF s(1)] option.case reads_Got)
  with bs show ?thesis by (rule that)
qed

section \<open>Strings\<close>

lemma read_tagged_simps:
  "read_tagged rv b LIST_EMPTY = Got VNone"
  "read_tagged rv b BINARY_8 = (\<lambda>d. rbind (read_int_be 1 d) (\<lambda>n. read_bytes_or_string n b))"
  "read_tagged rv b BINARY_20 = (\<lambda>d. rbind (read_int20 d) (\<lambda>n. read_bytes_or_string n b))"
  "read_tagged rv b BINARY_32 = (\<lambda>d. rbind (read_int_be 4 d) (\<lambda>n. read_bytes_or_string n b))"
  "read_tagged rv b JID_PAIR = (\<lambda>d. rbind (read_jid_pair rv d) (\<lambda>s. Got (VStr s)))"
  "read_tagged rv b AD_JID = (\<lambda>d. rbind (read_ad_jid rv d) (\<lambda>s. Got (VStr s)))"
  "read_tagged rv b NIBBLE_8 = (\<lambda>d. rbind (read_packed NIBBLE_8 d) (\<lambda>s. Got (VStr s)))"
  "read_tagged rv b HEX_8 = (\<lambda>d. rbind (read_packed HEX_8 d) (\<lambda>s. Got (VStr s)))"
  by (rule ext, simp add: read_tagged_def wire_consts)+

lemma read_tagged_list:
  "t = LIST_8 \<or> t = LIST_16 \<Longrightarrow> read_tagged rv b t = (\<lambda>d.
     rbind (read_list_size t d) (\<lambda>sz d.
     rbind (read_times sz (read_node_inner rv) d) (\<lambda>ns d. Got (VNodes ns) d)))"
  by (rule ext) (auto simp: read_tagged_def wire_consts)

lemma read_tagged_single:
  assumes "1 \<le> unat t" "unat t < length SINGLE_BYTE_TOKENS"
  shows "read_tagged rv b t = Got (VStr (SINGLE_BYTE_TOKENS ! unat t))"
proof -
  have "t \<noteq> x" if "unat x = 0 \<or> 236 \<le> unat x" for x :: u8
    using that assms by (auto simp: length_SINGLE_BYTE_TOKENS)
  moreover have "\<not> DICT_0 \<le> t"
    using assms by (simp add: word_le_nat_alt length_SINGLE_BYTE_TOKENS wire_consts)
  ultimately show ?thesis
    using assms by (intro ext) (simp add: read_tagged_def wire_consts)
qed

lemma read_tagged_dict:
  assumes "unat di < 4"
  shows "read_tagged rv b (DICT_0 + di) = read_dict_token (DICT_0 + di)"
    and "DICT_0 + di - DICT_0 = di"
proof -
  have "unat (DICT_0 + di) = 236 + unat di"
    using assms by (simp add: unat_word_ariths wire_consts)
  moreover from this have "DICT_0 + di \<noteq> x" if "unat x < 236 \<or> 240 \<le> unat x" for x :: u8
    using that assms by auto
  ultimately show "read_tagged rv b (DICT_0 + di) = read_dict_token (DICT_0 + di)"
    using assms by (intro ext) (simp add: read_tagged_def wire_consts word_le_nat_alt)
  show "DICT_0 + di - DICT_0 = di" by simp
qed

lemma reads_value:
  "reads (read_tagged (read_value f) b t) bs x \<Longrightarrow> reads (read_value (Suc f) b) (t # bs) x"
  using reads_bind_Cons [OF reads_byte [of t], of "\<lambda>t. read_tagged (read_value f) b t" bs x]
  by (simp add: reads_def read_value.simps)

lemma reads_str: "rust_string s \<Longrightarrow> length s = n \<Longrightarrow> reads (read_bytes_or_string n True) (as_bytes s) (VStr s)"
  unfolding read_bytes_or_string_def
  by (rule reads_bind_Nil [OF reads_raw]) (simp_all add: from_utf8_as_bytes reads_Got)

lemma reads_bytes: "length bs = n \<Longrightarrow> reads (read_bytes_or_string n False) bs (VBytes bs)"
  unfolding read_bytes_or_string_def
  by (rule reads_bind_Nil [OF reads_raw]) (simp_all add: reads_Got)

lemma int20_digits:
  assumes "len < 2 ^ 20"
  shows "push_bit 16 (unat (word_of_nat (drop_bit 16 len AND 0x0F) :: u8) AND 0x0F)
    OR push_bit 8 (unat (word_of_nat (drop_bit 8 len) :: u8)) OR unat (word_of_nat len :: u8) = len"
proof -
  have m: "n AND 0x0F = n mod 16" for n :: nat
    using take_bit_eq_mask [of 4 n] by (simp add: mask_eq_exp_minus_1 take_bit_eq_mod)
  have "len div 65536 < 16" using assms by (simp add: div_less_iff_less_mult)
  then have hi: "unat (word_of_nat (drop_bit 16 len AND 0x0F) :: u8) AND 0x0F = len div 65536"
    by (simp add: m drop_bit_eq_div)
  have "push_bit 16 (len div 65536) OR push_bit 8 (len div 256 mod 256)
      = push_bit 8 (push_bit 8 (len div 65536) OR (len div 256 mod 256))"
    by (simp add: push_bit_or)
  also have "\<dots> = push_bit 8 (len div 256)"
    using push_bit_or_nat [of "len div 256 mod 256" 8 "len div 65536"]
    by (simp add: div_mult2_eq [of len 256 256, simplified])
  finally have "(push_bit 16 (len div 65536) OR push_bit 8 (len div 256 mod 256)) OR len mod 256 = len"
    using push_bit_or_nat [of "len mod 256" 8 "len div 256"] by simp
  then show ?thesis
    unfolding hi unfolding unat_u8_of_nat drop_bit_eq_div
    using drop_bit_eq_div [of 8 len] by (simp add: or.assoc)
qed

text \<open>A length prefix selects the reader of that many bytes.\<close>

lemma write_byte_length_reads:
  assumes "write_byte_length n = Ok h" "reads (read_bytes_or_string n b) bs v"
  shows "reads (read_value (Suc f) b) (h @ bs) v"
proof -
  consider "n < 256" "h = [BINARY_8, word_of_nat n]"
    | "n < 2 ^ 20" "h = [BINARY_20, word_of_nat (drop_bit 16 n AND 0x0F), word_of_nat (drop_bit 8 n), word_of_nat n]"
    | "n < 2147483647" "h = BINARY_32 # be_bytes 4 n"
    using assms(1) by (auto simp: write_byte_length_def split: if_splits)
  then show ?thesis
  proof cases
    case 1
    then have "reads (read_int_be 1) [word_of_nat n] n"
      using reads_int_be [of "[word_of_nat n]" 1] by (simp add: be_nat_Cons)
    with 1 assms(2) show ?thesis
      by (auto intro!: reads_value reads_bind_Cons simp: read_tagged_simps)
  next
    case 2
    then have "reads read_int20
        [word_of_nat (drop_bit 16 n AND 0x0F), word_of_nat (drop_bit 8 n), word_of_nat n] n"
      using reads_int20 [of "word_of_nat (drop_bit 16 n AND 0x0F)" "word_of_nat (drop_bit 8 n)" "word_of_nat n"]
        int20_digits [of n] by simp
    from reads_bind [where k = "\<lambda>n. read_bytes_or_string n b", OF this assms(2)] 2 show ?thesis
      by (auto intro!: reads_value simp: read_tagged_simps)
  next
    case 3
    then have "reads (read_int_be 4) (be_bytes 4 n) n"
      using reads_int_be [of "be_bytes 4 n" 4] by simp
    from reads_bind [where k = "\<lambda>n. read_bytes_or_string n b", OF this assms(2)] 3 show ?thesis
      by (auto intro!: reads_value simp: read_tagged_simps)
  qed
qed

lemma validated_string:
  assumes "validate_nibble s \<or> validate_hex s"
  shows "rust_string s" "s \<noteq> []"
proof -
  have "ascii_char c" if "c \<in> set s" for c
    using that assms
    by (auto simp: validate_nibble_def validate_hex_def list_all_iff ascii_char_def is_ascii_digit_def
        dest: bspec [OF _ that])
  then show "rust_string s" by (simp add: rust_string_ascii list_all_iff)
  show "s \<noteq> []" using assms by (auto simp: validate_nibble_def validate_hex_def)
qed

lemma write_string_reads:
  assumes "write_string s = Ok bs" "rust_string s"
  shows "reads (read_value (Suc f) True) bs (VStr s)"
proof -
  consider (single) idx where "single_byte_index s = Some idx" "bs = [idx]"
    | (double) di idx where "double_byte_index s = Some (di, idx)" "bs = [DICT_0 + di, idx]"
    | (nibble) "validate_nibble s" "write_packed s NIBBLE_8 = Ok bs"
    | (hex) "validate_hex s" "write_packed s HEX_8 = Ok bs"
    | (raw) h where "write_byte_length (length s) = Ok h" "bs = h @ as_bytes s"
    using assms(1) by (auto simp: write_string_def obind_eq_Ok split: option.splits if_splits)
  then show ?thesis
  proof cases
    case single
    note i = single_byte_index_Some [OF single(1)]
    from i(3) single(2) show ?thesis
      using reads_Got [of "VStr s"] by (auto intro!: reads_value simp: read_tagged_single [OF i(1,2)])
  next
    case double
    note i = double_byte_index_Some [OF double(1)]
    have "reads (read_dict_token (DICT_0 + di)) [idx] (VStr s)"
      unfolding read_dict_token_def read_tagged_dict(2) [OF i(1)]
      by (rule reads_bind_Cons [OF reads_byte])
         (simp add: DOUBLE_BYTE_TOKENS_shape i reads_Got)
    with double(2) show ?thesis by (auto intro!: reads_value simp: read_tagged_dict(1) [OF i(1)])
  next
    case nibble
    from write_packed_reads [OF nibble(2)] packs_nibble [OF nibble(1)] validated_string [OF disjI1 [OF nibble(1)]]
    obtain cs where "bs = NIBBLE_8 # cs" "reads (read_packed NIBBLE_8) cs s" by auto
    then show ?thesis
      by (auto intro!: reads_value reads_bind_Nil reads_Got simp: read_tagged_simps)
  next
    case hex
    have "HEX_8 \<noteq> NIBBLE_8" by (simp add: wire_consts)
    with write_packed_reads [OF hex(2)] packs_hex [OF hex(1)] validated_string [OF disjI2 [OF hex(1)]]
    obtain cs where "bs = HEX_8 # cs" "reads (read_packed HEX_8) cs s" by auto
    then show ?thesis
      by (auto intro!: reads_value reads_bind_Nil reads_Got simp: read_tagged_simps)
  next
    case raw
    with assms(2) show ?thesis by (auto intro!: write_byte_length_reads reads_str)
  qed
qed

section \<open>Attribute values\<close>

text \<open>The string form an attribute value has after a trip over the wire: a device JID comes
  back as \<open>format_ad_jid\<close> writes it, everything else is unchanged.\<close>

definition canon_attr :: "string \<Rightarrow> string" where
  "canon_attr v =
    (case rsplit_once CHR ''@'' v of
       None \<Rightarrow> v
     | Some (left, server) \<Rightarrow>
       if left \<noteq> [] \<and> CHR ''@'' \<notin> set left \<and>
          \<not> (server \<in> set KNOWN_JID_SERVERS \<and> CHR '':'' \<notin> set left \<and> CHR ''.'' \<notin> set left)
       then (case ad_jid_parts left server of
               Some (user, agent, device) \<Rightarrow> format_ad_jid user agent device
             | None \<Rightarrow> v)
       else v)"

lemma ascii_jid_chars: "ascii_char CHR ''@''" "ascii_char CHR '':''" "ascii_char CHR ''.''"
  by (simp_all add: ascii_char_def)

lemmas rust_string_cuts = ascii_jid_chars [THEN [2] rust_string_cut]

lemma known_server_string: "server \<in> set KNOWN_JID_SERVERS \<Longrightarrow> rust_string server"
  by (rule rust_string_ascii) (auto simp: KNOWN_JID_SERVERS_def ascii_char_def)

lemma ad_jid_parts_Some:
  assumes "ad_jid_parts left server = Some (user, agent, device)" "rust_string left"
  shows "rust_string user" "agent \<le> 255" "device \<le> 255"
proof -
  define hd where "hd = (case rsplit_once CHR '':'' left of
      Some (h, d) \<Rightarrow> (h, parse_uint 255 d) | None \<Rightarrow> (left, Some 0))"
  define ua where "ua = (case split_once CHR ''.'' (fst hd) of
      Some (u, a) \<Rightarrow> (u, parse_uint 255 a) | None \<Rightarrow> (fst hd, None))"
  have "rust_string (fst hd)" and d: "\<forall>n. snd hd = Some n \<longrightarrow> n \<le> 255"
    using assms(2)
    by (auto simp: hd_def rsplit_once_Some dest: rust_string_cuts parse_uint_le split: option.splits)
  then have u: "rust_string (fst ua)" and a: "\<forall>n. snd ua = Some n \<longrightarrow> n \<le> 255"
    by (auto simp: ua_def split_once_Some dest: rust_string_cuts parse_uint_le split: option.splits)
  have "user = fst ua \<and> (snd ua = Some agent \<or> agent \<le> 1) \<and> snd hd = Some device"
    using assms(1) unfolding ad_jid_parts_def Let_def hd_def [symmetric] split_beta ua_def [symmetric]
    by (auto split: option.splits if_splits)
  with u a d show "rust_string user" "agent \<le> 255" "device \<le> 255" by auto
qed

lemma reads_jid_pair:
  assumes "reads (rv True) bs u" "reads (rv True) cs (VStr server)"
    and "u = VNone \<and> user = [] \<or> u = VStr user"
  shows "reads (read_jid_pair rv) (bs @ cs) (user @ ''@'' @ server)"
  unfolding read_jid_pair_def
  by (rule reads_bind [OF assms(1)], rule reads_bind_Nil [OF assms(2)])
     (use assms(3) in \<open>auto simp: expect_str_def reads_def\<close>)

lemma reads_ad_jid:
  assumes "reads (rv True) bs (VStr user)"
  shows "reads (read_ad_jid rv) (a # d # bs) (format_ad_jid user (unat a) (unat d))"
  unfolding read_ad_jid_def
  by (rule reads_bind_Cons [OF reads_byte], rule reads_bind_Cons [OF reads_byte],
      rule reads_bind_Nil [OF assms]) (simp add: expect_str_def reads_def)

lemma write_attr_value_reads:
  assumes ok: "write_attr_value v = Ok bs" and v: "rust_string v"
  shows "reads (read_value (Suc (Suc f)) True) bs (VStr (canon_attr v))"
proof -
  have plain: ?thesis if "write_string v = Ok bs" "canon_attr v = v"
    using write_string_reads [OF that(1) v] that(2) by simp
  show ?thesis
  proof (cases "rsplit_once CHR ''@'' v")
    case None
    with ok show ?thesis by (intro plain) (simp_all add: write_attr_value_def canon_attr_def del: rsplit_once_None)
  next
    case (Some ls)
    then obtain left server where ls: "rsplit_once CHR ''@'' v = Some (left, server)" by (cases ls) auto
    then have v_eq: "v = left @ CHR ''@'' # server" by (simp add: rsplit_once_Some)
    with v have rs: "rust_string left" "rust_string server"
      by (auto dest: rust_string_cuts)
    consider (server) sv where "left = []" "write_string server = Ok sv" "bs = JID_PAIR # LIST_EMPTY # sv"
      | (pair) l sv where "left \<noteq> []" "CHR ''@'' \<notin> set left" "server \<in> set KNOWN_JID_SERVERS"
          "CHR '':'' \<notin> set left" "CHR ''.'' \<notin> set left"
          "write_string left = Ok l" "write_string server = Ok sv" "bs = JID_PAIR # l @ sv"
      | (ad) user agent device u where "left \<noteq> []" "CHR ''@'' \<notin> set left"
          "\<not> (server \<in> set KNOWN_JID_SERVERS \<and> CHR '':'' \<notin> set left \<and> CHR ''.'' \<notin> set left)"
          "ad_jid_parts left server = Some (user, agent, device)" "write_string user = Ok u"
          "bs = AD_JID # word_of_nat agent # word_of_nat device # u"
      | (other) "write_string v = Ok bs" "canon_attr v = v"
      using ok ls by (auto simp: write_attr_value_def canon_attr_def obind_eq_Ok
          split: if_splits option.splits)
    then show ?thesis
    proof cases
      case server
      have "reads (read_value (Suc f) True) [LIST_EMPTY] VNone"
        by (rule reads_value) (simp add: read_tagged_simps reads_Got)
      moreover have "reads (read_value (Suc f) True) sv (VStr server)"
        by (rule write_string_reads [OF server(2) rs(2)])
      ultimately have "reads (read_jid_pair (read_value (Suc f))) (LIST_EMPTY # sv) (''@'' @ server)"
        using reads_jid_pair [of "read_value (Suc f)" "[LIST_EMPTY]" VNone sv server "[]"]
        by (simp)
      moreover have "canon_attr v = ''@'' @ server"
        using ls server(1) v_eq by (simp add: canon_attr_def)
      ultimately show ?thesis using server(3)
        by (auto intro!: reads_value reads_bind_Nil reads_Got simp: read_tagged_simps)
    next
      case pair
      have "reads (read_jid_pair (read_value (Suc f))) (l @ sv) (left @ ''@'' @ server)"
        by (rule reads_jid_pair [where u = "VStr left"])
           (simp_all add: write_string_reads pair(6,7) rs)
      moreover have "canon_attr v = left @ ''@'' @ server"
        using ls pair v_eq by (simp add: canon_attr_def)
      ultimately show ?thesis using pair(8)
        by (auto intro!: reads_value reads_bind_Nil reads_Got simp: read_tagged_simps)
    next
      case ad
      note p = ad_jid_parts_Some [OF ad(4) rs(1)]
      have "reads (read_ad_jid (read_value (Suc f)))
          (word_of_nat agent # word_of_nat device # u) (format_ad_jid user agent device)"
        using reads_ad_jid [of "read_value (Suc f)", OF write_string_reads [OF ad(5) p(1)],
            of "word_of_nat agent" "word_of_nat device"] p(2,3)
        by (simp)
      moreover have "canon_attr v = format_ad_jid user agent device"
        using ls ad by (simp add: canon_attr_def)
      ultimately show ?thesis using ad(6)
        by (auto intro!: reads_value reads_bind_Nil reads_Got simp: read_tagged_simps)
    next
      case other
      then show ?thesis by (rule plain)
    qed
  qed
qed

section \<open>Nodes\<close>

text \<open>What Rust's types and the protocol guarantee of a node that is sent: its strings are
  UTF-8, its attributes are in key order without duplicates, and its tag is neither empty
  nor the list-terminator tag \<open>0\<close>.\<close>

definition wf_attrs :: "attrs \<Rightarrow> bool" where
  "wf_attrs as \<longleftrightarrow>
    sorted_wrt (<) (map fst as) \<and> list_all (\<lambda>kv. rust_string (fst kv) \<and> rust_string (snd kv)) as"

fun wf_node :: "node \<Rightarrow> bool" and wf_content :: "content \<Rightarrow> bool" where
  "wf_node (Node t as c) =
    (t \<noteq> [] \<and> t \<noteq> ''0'' \<and> rust_string t \<and> wf_attrs as \<and> wf_content c)"
| "wf_content (CNodes ns) = list_all wf_node ns"
| "wf_content c = True"

text \<open>The canonical form: attributes without a value dropped, the others canonical, an empty
  child list the same as no content.\<close>

definition canon_attrs :: "attrs \<Rightarrow> attrs" where
  "canon_attrs as = map (\<lambda>kv. (fst kv, canon_attr (snd kv))) (filter (\<lambda>kv. snd kv \<noteq> []) as)"

fun canon_node :: "node \<Rightarrow> node" and canon_content :: "content \<Rightarrow> content" where
  "canon_node (Node t as c) = Node t (canon_attrs as) (canon_content c)"
| "canon_content (CNodes ns) = (if ns = [] then CNone else CNodes (map canon_node ns))"
| "canon_content c = c"

lemma attrs_insert_last: "\<forall>a \<in> set as. fst a < k \<Longrightarrow> attrs_insert k v as = as @ [(k, v)]"
  by (induction k v as rule: attrs_insert.induct) (auto dest: less_not_sym)

lemma canon_attrs_Cons:
  "canon_attrs (kv # r) =
    (if snd kv = [] then canon_attrs r else (fst kv, canon_attr (snd kv)) # canon_attrs r)"
  by (simp add: canon_attrs_def)

lemma reads_attrs_Suc:
  assumes "reads (rv True) k (VStr key)" "reads (rv True) v (VStr val)"
    and "reads (read_attrs rv n (attrs_insert key val as)) r out"
  shows "reads (read_attrs rv (Suc n) as) (k @ v @ r) out"
proof -
  have "reads (\<lambda>d. rbind (rv True d) (\<lambda>w d. rbind (attr_string w d) (\<lambda>val d.
      read_attrs rv n (attrs_insert key val as) d))) (v @ r) out"
    by (rule reads_bind [OF assms(2)]) (simp add: attr_string_def assms(3))
  then have "reads (\<lambda>d. rbind (rv True d) (\<lambda>k d.
      rbind (case k of VStr s \<Rightarrow> Got s d | _ \<Rightarrow> Fail (NonStringKey (pos d))) (\<lambda>key d.
      rbind (rv True d) (\<lambda>w d. rbind (attr_string w d) (\<lambda>val d.
      read_attrs rv n (attrs_insert key val as) d))))) (k @ v @ r) out"
    by (intro reads_bind [OF assms(1)]) simp
  then show ?thesis by (simp add: reads_def)
qed

lemma write_attrs_reads:
  assumes "write_attrs as = Ok bs" "list_all (\<lambda>kv. rust_string (fst kv) \<and> rust_string (snd kv)) as"
    and "sorted_wrt (<) (map fst as)" "\<forall>a \<in> set acc. \<forall>b \<in> set as. fst a < fst b"
  shows "reads (read_attrs (read_value (Suc (Suc f))) (length (canon_attrs as)) acc) bs (acc @ canon_attrs as)"
  using assms
proof (induction as arbitrary: bs acc)
  case Nil
  then show ?case by (simp add: canon_attrs_def reads_def)
next
  case (Cons kv as)
  show ?case
  proof (cases "snd kv = []")
    case True
    with Cons show ?thesis by (simp add: canon_attrs_Cons)
  next
    case False
    with Cons.prems(1) obtain k v r where
      w: "write_string (fst kv) = Ok k" "write_attr_value (snd kv) = Ok v" "write_attrs as = Ok r"
      and bs: "bs = k @ v @ r"
      by (auto simp: obind_eq_Ok)
    let ?acc = "acc @ [(fst kv, canon_attr (snd kv))]"
    have k: "reads (read_value (Suc (Suc f)) True) k (VStr (fst kv))"
      using w(1) Cons.prems(2) by (intro write_string_reads) auto
    have v: "reads (read_value (Suc (Suc f)) True) v (VStr (canon_attr (snd kv)))"
      using w(2) Cons.prems(2) by (intro write_attr_value_reads) auto
    have "reads (read_attrs (read_value (Suc (Suc f))) (length (canon_attrs as)) ?acc) r
        (?acc @ canon_attrs as)"
      using Cons.prems by (intro Cons.IH [OF w(3)]) auto
    moreover have "attrs_insert (fst kv) (canon_attr (snd kv)) acc = ?acc"
      using Cons.prems(4) by (intro attrs_insert_last) auto
    ultimately have "reads (read_attrs (read_value (Suc (Suc f))) (Suc (length (canon_attrs as))) acc) bs
        (?acc @ canon_attrs as)"
      unfolding bs by (intro reads_attrs_Suc [where rv = "read_value (Suc (Suc f))", OF k v]) simp
    with False show ?thesis by (simp add: canon_attrs_Cons del: read_attrs.simps)
  qed
qed

lemma write_list_start_reads:
  assumes "write_list_start n = Ok h"
  obtains t cs where "h = t # cs" "reads (read_list_size t) cs n"
    "n = 0 \<and> h = [LIST_EMPTY] \<or> n \<noteq> 0 \<and> (t = LIST_8 \<or> t = LIST_16)"
proof -
  consider "n = 0" "h = [LIST_EMPTY]" | "0 < n" "n < 256" "h = [LIST_8, word_of_nat n]"
    | "0 < n" "n < 2 ^ 16" "h = [LIST_16, word_of_nat (drop_bit 8 n), word_of_nat n]"
    using assms by (auto simp: write_list_start_def split: if_splits)
  then show ?thesis
  proof cases
    case 1
    then show ?thesis using that [of LIST_EMPTY "[]"] by (simp add: reads_def read_list_size_def)
  next
    case 2
    then have "reads (read_list_size LIST_8) [word_of_nat n] n"
      using reads_int_be [of "[word_of_nat n]" 1]
      by (simp add: be_nat_Cons reads_def read_list_size_def wire_consts)
    with 2 show ?thesis using that [of LIST_8 "[word_of_nat n]"] by simp
  next
    case 3
    have "n = n div 256 mod 256 * 256 + n mod 256" using 3(2) by (simp add: mod_mult_div_eq)
    then have "reads (read_int_be 2) [word_of_nat (n div 256), word_of_nat n] n"
      using reads_int_be [of "[word_of_nat (n div 256), word_of_nat n]" 2] by (simp add: be_nat_Cons)
    then have "reads (read_list_size LIST_16) [word_of_nat (drop_bit 8 n), word_of_nat n] n"
      using drop_bit_eq_div [of 8 n] by (simp add: reads_def read_list_size_def wire_consts)
    with 3 show ?thesis
      using that [of LIST_16 "[word_of_nat (drop_bit 8 n), word_of_nat n]"] by simp
  qed
qed

lemma length_canon_attrs: "length (canon_attrs as) = length (filter (\<lambda>kv. snd kv \<noteq> []) as)"
  by (simp add: canon_attrs_def)

lemma node_list_size_split:
  "(node_list_size as c - 1) div 2 = length (canon_attrs as)"
  "node_list_size as c mod 2 = 1 \<longleftrightarrow> c = CNone"
  by (simp_all add: node_list_size_def length_canon_attrs)

lemma write_string_not_Nil: "write_string s = Ok bs \<Longrightarrow> bs \<noteq> []"
  by (auto simp: write_string_def write_packed_def write_byte_length_def Let_def obind_eq_Ok
      split: option.splits if_splits)

text \<open>The node reader over what the writer of one node's parts produced.\<close>

lemma reads_node_inner:
  assumes h: "write_list_start (node_list_size as c) = Ok h"
    and tg: "reads (rv True) tg (VStr t)" "t \<noteq> []"
    and at: "reads (read_attrs rv (length (canon_attrs as)) []) at as'"
    and ct: "c = CNone \<and> ct = [] \<and> c' = CNone \<or>
      c \<noteq> CNone \<and> (\<exists>v. reads (rv False) ct v \<and> content_of v = c')"
  shows "reads (read_node_inner rv) (h @ tg @ at @ ct) (Node t as' c')"
proof -
  from write_list_start_reads [OF h] obtain s hs where
    hs: "h = s # hs" "reads (read_list_size s) hs (node_list_size as c)" by blast
  have "reads (\<lambda>d. rbind (read_attrs rv (length (canon_attrs as)) [] d) (\<lambda>as d.
      if node_list_size as0 c mod 2 = 1 then Got (Node t as CNone) d
      else rbind (rv False d) (\<lambda>v d. Got (Node t as (content_of v)) d))) (at @ ct) (Node t as' c')" for as0
  proof (rule reads_bind [OF at])
    show "reads (\<lambda>d. if node_list_size as0 c mod 2 = 1 then Got (Node t as' CNone) d
      else rbind (rv False d) (\<lambda>v d. Got (Node t as' (content_of v)) d)) ct (Node t as' c')"
    proof (cases "c = CNone")
      case True
      with ct show ?thesis
        using node_list_size_split(2) [of as0 c] by (simp add: reads_Got)
    next
      case False
      with ct obtain v where "reads (rv False) ct v" "content_of v = c'" by auto
      then have "reads (\<lambda>d. rbind (rv False d) (\<lambda>v d. Got (Node t as' (content_of v)) d)) ct
          (Node t as' c')"
        by (intro reads_bind_Nil) (auto simp: reads_def)
      with False show ?thesis using node_list_size_split(2) [of as0 c] by simp
    qed
  qed
  moreover have "node_list_size as c \<noteq> 0" by (simp add: node_list_size_def)
  ultimately have "reads (\<lambda>d. rbind (rv True d) (\<lambda>raw_tag d.
      rbind (expect_str ''node tag must be a string'' raw_tag d) (\<lambda>tg d.
        if node_list_size as c = 0 \<or> tg = [] then Fail InvalidNode
        else rbind (read_attrs rv ((node_list_size as c - 1) div 2) [] d) (\<lambda>as' d.
          if node_list_size as c mod 2 = 1 then Got (Node tg as' CNone) d
          else rbind (rv False d) (\<lambda>v d. Got (Node tg as' (content_of v)) d))))) (tg @ at @ ct) (Node t as' c')"
    using node_list_size_split(1) [of as c]
    by (intro reads_bind [OF tg(1)]) (use tg(2) in \<open>simp add: expect_str_def\<close>)
  then show ?thesis
    unfolding read_node_inner_def [abs_def] hs(1) append_Cons
    by (intro reads_bind_Cons [OF reads_byte] reads_bind [OF hs(2)])
qed

lemma written_node_reads:
  "write_node n = Ok bs \<Longrightarrow> wf_node n \<Longrightarrow> length bs \<le> f \<Longrightarrow>
    reads (read_node_inner (read_value f)) bs (canon_node n)"
  "write_content c = Ok ct \<Longrightarrow> wf_content c \<Longrightarrow> c \<noteq> CNone \<Longrightarrow> length ct \<le> f \<Longrightarrow>
    \<exists>v. reads (read_value (Suc f) False) ct v \<and> content_of v = canon_content c"
  "write_nodes ns = Ok cs \<Longrightarrow> list_all wf_node ns \<Longrightarrow> length cs \<le> f \<Longrightarrow>
    \<exists>bss. cs = concat bss \<and> list_all2 (reads (read_node_inner (read_value f))) bss (map canon_node ns)"
proof (induction n and c and ns arbitrary: bs f and ct f and cs f
    rule: write_node_write_content_write_nodes.induct)
  case (1 t as c)
  then obtain h tg at ct where w: "write_list_start (node_list_size as c) = Ok h"
    "write_string t = Ok tg" "write_attrs as = Ok at" "write_content c = Ok ct"
    and bs: "bs = h @ tg @ at @ ct" and wf: "t \<noteq> []" "rust_string t" "wf_attrs as" "wf_content c"
    by (auto simp: obind_eq_Ok)
  have "h \<noteq> []" "tg \<noteq> []" "node_list_size as c \<noteq> 0"
    using write_list_start_reads [OF w(1)] write_string_not_Nil [OF w(2)]
    by (blast, blast, simp add: node_list_size_def)
  then have "2 \<le> length h + length tg" by (cases h; cases tg) auto
  then obtain g where f: "f = Suc (Suc g)" and ct: "length ct \<le> Suc g"
    using "1.prems"(3) bs by (cases f rule: nat.exhaust; cases "f - 1") auto
  have "reads (read_value f True) tg (VStr t)"
    unfolding f by (rule write_string_reads [OF w(2) wf(2)])
  moreover have "reads (read_attrs (read_value f) (length (canon_attrs as)) []) at (canon_attrs as)"
    unfolding f using write_attrs_reads [OF w(3), of "[]"] wf(3) by (auto simp: wf_attrs_def)
  moreover have "c = CNone \<and> ct = [] \<and> canon_content c = CNone \<or>
      c \<noteq> CNone \<and> (\<exists>v. reads (read_value f False) ct v \<and> content_of v = canon_content c)"
    using "1.IH" w "1.prems" wf(4) ct unfolding f by (cases "c = CNone") auto
  ultimately show ?case
    unfolding bs canon_node.simps by (intro reads_node_inner [OF w(1)] wf)
next
  case (3 b)
  then obtain h where "write_byte_length (length b) = Ok h" "ct = h @ b"
    by (auto simp: write_bytes_def obind_eq_Ok)
  then have "reads (read_value (Suc f) False) ct (VBytes b)"
    by (auto intro: write_byte_length_reads reads_bytes)
  then show ?case by (intro exI [of _ "VBytes b"]) (simp add: content_of_def)
next
  case (4 ns)
  then obtain h cs where h: "write_list_start (length ns) = Ok h" and cs: "write_nodes ns = Ok cs"
    and ct: "ct = h @ cs"
    by (auto simp: obind_eq_Ok)
  from write_list_start_reads [OF h] obtain t hs where t: "h = t # hs"
    "reads (read_list_size t) hs (length ns)"
    "length ns = 0 \<and> h = [LIST_EMPTY] \<or> length ns \<noteq> 0 \<and> (t = LIST_8 \<or> t = LIST_16)"
    by blast
  show ?case
  proof (cases "ns = []")
    case True
    with t(3) ct cs have "reads (read_value (Suc f) False) ct VNone"
      by (auto intro!: reads_value reads_Got simp: read_tagged_simps)
    with True show ?thesis by (intro exI [of _ VNone]) (simp add: content_of_def)
  next
    case False
    from "4.prems" have "list_all wf_node ns" by simp
    with "4.IH" [OF cs, of f] "4.prems"(4) ct obtain bss where
      "cs = concat bss" "list_all2 (reads (read_node_inner (read_value f))) bss (map canon_node ns)"
      by auto
    then have ns: "reads (read_times (length ns) (read_node_inner (read_value f))) cs (map canon_node ns)"
      using reads_times by fastforce
    have "reads (read_tagged (read_value f) False t) (hs @ cs) (VNodes (map canon_node ns))"
      using t(3) False
      by (subst read_tagged_list) (auto intro!: reads_bind [OF t(2)] reads_bind_Nil [OF ns] reads_Got)
    then have "reads (read_value (Suc f) False) ct (VNodes (map canon_node ns))"
      unfolding ct t(1) append_Cons by (rule reads_value)
    with False show ?thesis
      by (intro exI [of _ "VNodes (map canon_node ns)"]) (simp add: content_of_def)
  qed
next
  case (6 n ns)
  then obtain b bs where b: "write_node n = Ok b" "write_nodes ns = Ok bs" "cs = b @ bs"
    by (auto simp: obind_eq_Ok)
  with "6.prems" have "reads (read_node_inner (read_value f)) b (canon_node n)"
    by (intro "6.IH"(1)) auto
  moreover from b "6.prems" obtain bss where "bs = concat bss"
    "list_all2 (reads (read_node_inner (read_value f))) bss (map canon_node ns)"
    using "6.IH"(2) [of bs f] by auto
  ultimately show ?case using b(3) by (intro exI [of _ "b # bss"]) simp
qed simp_all

section \<open>Totality\<close>





lemma steady_unpack_byte [steady_intros]: "steady m 0 (unpack_byte t v)"
  by (simp add: unpack_byte_def [abs_def] steady_def)








section \<open>The encoder never panics\<close>

lemma pack_pairs_not_None: "packs pk ty bs \<Longrightarrow> pack_pairs pk bs \<noteq> None"
  using pack_pairs_reads [of pk ty bs] by auto

lemma write_packed_not_Panic:
  "validate_nibble s \<Longrightarrow> write_packed s NIBBLE_8 \<noteq> Panic"
  "validate_hex s \<Longrightarrow> write_packed s HEX_8 \<noteq> Panic"
  using pack_pairs_not_None [OF packs_nibble, of s] pack_pairs_not_None [OF packs_hex, of s]
  by (auto simp: write_packed_def Let_def obind_eq_Panic wire_consts)

lemma write_byte_length_not_Panic [simp]: "write_byte_length n \<noteq> Panic"
  by (simp add: write_byte_length_def)

lemma write_string_not_Panic [simp]: "write_string s \<noteq> Panic"
  by (auto simp: write_string_def obind_eq_Panic write_packed_not_Panic split: option.split)

lemma write_attr_value_not_Panic [simp]: "write_attr_value v \<noteq> Panic"
  by (auto simp: write_attr_value_def obind_eq_Panic split: option.split)

lemma write_attrs_not_Panic [simp]: "write_attrs as \<noteq> Panic"
  by (induction as) (auto simp: obind_eq_Panic)

lemma write_list_start_not_Panic [simp]: "write_list_start n \<noteq> Panic"
  by (simp add: write_list_start_def)

lemma written_not_Panic:
  "write_node n \<noteq> Panic" "write_content c \<noteq> Panic" "write_nodes ns \<noteq> Panic"
  by (induction n and c and ns rule: write_node_write_content_write_nodes.induct)
     (auto simp: obind_eq_Panic write_bytes_def)

section \<open>Canonical forms\<close>

lemma show_nat_chars: "is_ascii_digit c \<or> c \<notin> set (show_nat n)"
  using show_nat_digits [of n] by (auto simp: list_all_iff)

lemma jid_char_not_in_show_nat [simp]:
  "CHR '':'' \<notin> set (show_nat n)" "CHR ''.'' \<notin> set (show_nat n)" "CHR ''@'' \<notin> set (show_nat n)"
  using show_nat_chars [of "CHR '':''" n] show_nat_chars [of "CHR ''.''" n] show_nat_chars [of "CHR ''@''" n]
  by (auto simp: is_ascii_digit_def)

lemma canon_attr_split:
  assumes "CHR ''@'' \<notin> set left" "CHR ''@'' \<notin> set server" "left \<noteq> []"
  shows "canon_attr (left @ ''@'' @ server) =
    (if server \<in> set KNOWN_JID_SERVERS \<and> CHR '':'' \<notin> set left \<and> CHR ''.'' \<notin> set left
     then left @ ''@'' @ server
     else case ad_jid_parts left server of
       Some (user, agent, device) \<Rightarrow> format_ad_jid user agent device
     | None \<Rightarrow> left @ ''@'' @ server)"
proof -
  have "rsplit_once CHR ''@'' (left @ ''@'' @ server) = Some (left, server)"
    using assms(2) by (simp add: rsplit_once_Some)
  with assms(1,3) show ?thesis by (simp add: canon_attr_def split: option.split)
qed

lemma rsplit_colon:
  "CHR '':'' \<notin> set d \<Longrightarrow> rsplit_once CHR '':'' (h @ CHR '':'' # d) = Some (h, d)"
  by (simp add: rsplit_once_Some)

lemma split_dot:
  "CHR ''.'' \<notin> set u \<Longrightarrow> split_once CHR ''.'' (u @ CHR ''.'' # a) = Some (u, a)"
  by (simp add: split_once_complete)

lemma split_once_absent: "c \<notin> set s \<Longrightarrow> split_once c s = None" "c \<notin> set s \<Longrightarrow> rsplit_once c s = None"
  by simp_all

text \<open>Reading back the fields of a formatted device JID.\<close>

lemma ad_jid_parts_with_device:
  assumes "CHR ''.'' \<notin> set u" "u \<noteq> []" "a \<le> 255" "d \<le> 255" "0 < d"
  shows "ad_jid_parts (u @ '':'' @ show_nat d) ''s.whatsapp.net'' = Some (u, 0, d)"
    and "ad_jid_parts (u @ '':'' @ show_nat d) ''lid'' = Some (u, 1, d)"
    and "s \<in> {''s.whatsapp.net'', ''lid'', ''hosted'', ''hosted.lid''} \<Longrightarrow>
      ad_jid_parts (u @ ''.'' @ show_nat a @ '':'' @ show_nat d) s = Some (u, a, d)"
proof -
  have "rsplit_once CHR '':'' ((u @ ''.'' @ show_nat a) @ CHR '':'' # show_nat d)
      = Some (u @ ''.'' @ show_nat a, show_nat d)"
    by (rule rsplit_colon) simp
  then have r: "rsplit_once CHR '':'' (u @ CHR ''.'' # show_nat a @ CHR '':'' # show_nat d)
      = Some (u @ CHR ''.'' # show_nat a, show_nat d)" by simp
  show "ad_jid_parts (u @ '':'' @ show_nat d) ''s.whatsapp.net'' = Some (u, 0, d)"
    "ad_jid_parts (u @ '':'' @ show_nat d) ''lid'' = Some (u, 1, d)"
    "s \<in> {''s.whatsapp.net'', ''lid'', ''hosted'', ''hosted.lid''} \<Longrightarrow>
      ad_jid_parts (u @ ''.'' @ show_nat a @ '':'' @ show_nat d) s = Some (u, a, d)"
    using assms
    by (auto simp: ad_jid_parts_def rsplit_colon split_once_absent r split_dot parse_uint_show_nat
        simp del: split_once_None rsplit_once_None)
qed

lemma ad_jid_parts_no_device:
  assumes "CHR ''.'' \<notin> set u" "u \<noteq> []" "0 < a" "a \<le> 255"
    and "s \<in> {''s.whatsapp.net'', ''lid'', ''hosted'', ''hosted.lid''}"
  shows "ad_jid_parts (u @ ''.'' @ show_nat a) s = (if CHR '':'' \<in> set u then None else Some (u, a, 0))"
proof (cases "CHR '':'' \<in> set u")
  case False
  with assms show ?thesis
    by (auto simp: ad_jid_parts_def split_once_absent split_dot parse_uint_show_nat
        simp del: split_once_None rsplit_once_None)
next
  case True
  then obtain h d where u: "u = h @ CHR '':'' # d" "CHR '':'' \<notin> set d"
    by (meson split_list_last)
  then have "rsplit_once CHR '':'' (u @ ''.'' @ show_nat a) = Some (h, d @ ''.'' @ show_nat a)"
    by (simp add: rsplit_once_Some)
  moreover have "parse_uint 255 (d @ ''.'' @ show_nat a) = None"
    by (cases d) (auto simp: parse_uint_def Let_def is_ascii_digit_def split: if_splits)
  ultimately show ?thesis using True by (simp add: ad_jid_parts_def Let_def split: option.split)
qed

lemma ad_jid_parts_user:
  assumes "ad_jid_parts left server = Some (user, agent, device)"
  shows "CHR ''.'' \<notin> set user" "user \<noteq> []" "0 < device \<or> 0 < agent" "agent \<le> 255" "device \<le> 255"
    "set user \<subseteq> set left"
proof -
  define hd where "hd = (case rsplit_once CHR '':'' left of
      Some (h, d) \<Rightarrow> (h, parse_uint 255 d) | None \<Rightarrow> (left, Some 0))"
  define ua where "ua = (case split_once CHR ''.'' (fst hd) of
      Some (u, a) \<Rightarrow> (u, parse_uint 255 a) | None \<Rightarrow> (fst hd, None))"
  have hd: "set (fst hd) \<subseteq> set left" "\<forall>n. snd hd = Some n \<longrightarrow> n \<le> 255"
    by (auto simp: hd_def rsplit_once_Some dest: parse_uint_le split: option.splits)
  have ua: "CHR ''.'' \<notin> set (fst ua)" "set (fst ua) \<subseteq> set (fst hd)" "\<forall>n. snd ua = Some n \<longrightarrow> n \<le> 255"
    by (auto simp: ua_def split_once_Some dest: parse_uint_le split: option.splits)
  have "user = fst ua \<and> (snd ua = Some agent \<or> agent \<le> 1) \<and> snd hd = Some device \<and>
      user \<noteq> [] \<and> (0 < device \<or> 0 < agent)"
    using assms unfolding ad_jid_parts_def Let_def hd_def [symmetric] split_beta ua_def [symmetric]
    by (auto split: option.splits if_splits)
  with hd ua show "CHR ''.'' \<notin> set user" "user \<noteq> []" "0 < device \<or> 0 < agent" "agent \<le> 255"
    "device \<le> 255" "set user \<subseteq> set left"
    by auto
qed

lemma format_ad_jid_cases:
  "0 < d \<Longrightarrow> format_ad_jid u 0 d = (u @ '':'' @ show_nat d) @ ''@'' @ ''s.whatsapp.net''"
  "0 < a \<Longrightarrow> format_ad_jid u a 0 =
    (u @ ''.'' @ show_nat a) @ ''@'' @ (if a = 1 then ''lid'' else ''hosted'')"
  "0 < a \<Longrightarrow> 0 < d \<Longrightarrow> format_ad_jid u a d =
    (u @ ''.'' @ show_nat a @ '':'' @ show_nat d) @ ''@'' @ (if a = 1 then ''lid'' else ''hosted'')"
  by (simp_all add: format_ad_jid_def)

lemma canon_format_ad_jid:
  assumes u: "CHR ''.'' \<notin> set u" "CHR ''@'' \<notin> set u" "u \<noteq> []" and ad: "a \<le> 255" "d \<le> 255"
    and pos: "0 < d \<or> 0 < a"
  shows "canon_attr (format_ad_jid u a d) = format_ad_jid u a d"
proof -
  consider "a = 0" "0 < d" | "0 < a" "d = 0" | "0 < a" "0 < d" using pos by linarith
  then show ?thesis
  proof cases
    case 1
    with u ad show ?thesis
      unfolding 1(1) format_ad_jid_cases(1) [OF 1(2)]
      by (subst canon_attr_split)
         (simp_all add: ad_jid_parts_with_device [simplified] format_ad_jid_cases)
  next
    case 2
    with u ad show ?thesis
      unfolding 2(2) format_ad_jid_cases(2) [OF 2(1)]
      by (subst canon_attr_split)
         (simp_all add: ad_jid_parts_no_device [simplified] format_ad_jid_cases)
  next
    case 3
    with u ad show ?thesis
      unfolding format_ad_jid_cases(3) [OF 3]
      by (subst canon_attr_split)
         (simp_all add: ad_jid_parts_with_device [simplified] format_ad_jid_cases)
  qed
qed

lemma canon_attr_idem: "canon_attr (canon_attr v) = canon_attr v"
proof (cases "canon_attr v = v")
  case False
  then obtain left server user agent device where "CHR ''@'' \<notin> set left"
    "ad_jid_parts left server = Some (user, agent, device)" "canon_attr v = format_ad_jid user agent device"
    by (auto simp: canon_attr_def split: option.splits if_splits)
  moreover from this(1,2) have "CHR ''@'' \<notin> set user"
    by (auto dest: ad_jid_parts_user(6))
  ultimately show ?thesis by (simp add: canon_format_ad_jid ad_jid_parts_user)
qed simp

lemma canon_attr_Nil [simp]: "canon_attr v = [] \<longleftrightarrow> v = []"
proof
  assume "canon_attr v = []"
  then show "v = []" by (auto simp: canon_attr_def format_ad_jid_def Let_def split: option.splits if_splits)
qed (simp add: canon_attr_def rsplit_once_def)

lemma canon_attrs_idem: "canon_attrs (canon_attrs as) = canon_attrs as"
  by (induction as) (simp_all add: canon_attrs_def canon_attr_idem)

lemma rust_string_Cons: "ascii_char c \<Longrightarrow> rust_string s \<Longrightarrow> rust_string (c # s)"
  using rust_string_append [of "[c]" s] rust_string_ascii [of "[c]"] by simp

lemma rust_string_format:
  assumes "rust_string u"
  shows "rust_string (format_ad_jid u a d)"
proof -
  have "list_all ascii_char (show_nat n)" for n
    using show_nat_digits [of n] by (auto simp: list_all_iff ascii_char_def is_ascii_digit_def)
  then have "list_all ascii_char (format_ad_jid u a d) \<or>
      (\<exists>s. format_ad_jid u a d = u @ s \<and> list_all ascii_char s)"
    by (auto simp: format_ad_jid_def Let_def ascii_char_def)
  then show ?thesis using assms rust_string_ascii rust_string_append by metis
qed

lemma rust_string_canon:
  assumes "rust_string v"
  shows "rust_string (canon_attr v)"
proof (cases "canon_attr v = v")
  case False
  then obtain left server user agent device where "rsplit_once CHR ''@'' v = Some (left, server)"
    "ad_jid_parts left server = Some (user, agent, device)" "canon_attr v = format_ad_jid user agent device"
    by (auto simp: canon_attr_def split: option.splits if_splits)
  moreover from this(1) assms have "rust_string left"
    by (auto simp: rsplit_once_Some dest: rust_string_cuts)
  ultimately show ?thesis by (simp add: rust_string_format ad_jid_parts_Some(1))
qed (simp add: assms)

lemma sorted_wrt_map_filter:
  "sorted_wrt (<) (map f as) \<Longrightarrow> sorted_wrt (<) (map f (filter P as))"
  by (induction as) auto

lemma wf_canon_attrs:
  assumes "wf_attrs as"
  shows "wf_attrs (canon_attrs as)"
proof -
  have "map fst (canon_attrs as) = map fst (filter (\<lambda>kv. snd kv \<noteq> []) as)"
    by (simp add: canon_attrs_def)
  with assms have "sorted_wrt (<) (map fst (canon_attrs as))"
    by (simp only: wf_attrs_def sorted_wrt_map_filter)
  moreover have "list_all (\<lambda>kv. rust_string (fst kv) \<and> rust_string (snd kv)) (canon_attrs as)"
    using assms by (simp add: wf_attrs_def canon_attrs_def list_all_iff rust_string_canon)
  ultimately show ?thesis by (simp add: wf_attrs_def)
qed

lemma wf_canon:
  "wf_node n \<Longrightarrow> wf_node (canon_node n)" "wf_content c \<Longrightarrow> wf_content (canon_content c)"
  by (induction n and c rule: canon_node_canon_content.induct)
     (auto simp: wf_canon_attrs list_all_iff)

lemma canon_idem:
  "canon_node (canon_node n) = canon_node n" "canon_content (canon_content c) = canon_content c"
  by (induction n and c rule: canon_node_canon_content.induct) (auto simp: canon_attrs_idem)

lemma decode_encode:
  assumes "encode n = Ok bs" "wf_node n"
  shows "decode (bs @ rest) = Got (canon_node n) \<lparr>buf = bs @ rest, pos = length bs\<rparr>"
proof -
  have "reads (read_node_inner (read_value (length (bs @ rest) + 1))) bs (canon_node n)"
    using assms by (intro written_node_reads(1)) (simp_all add: encode_def)
  from readsD [OF this, of "[]" rest] show ?thesis by (simp add: decode_def)
qed

definition too_large :: "encode_error \<Rightarrow> bool" where
  "too_large e \<longleftrightarrow> (case e of TooLarge k \<Rightarrow> 65536 \<le> k | EncPackedTooLong k \<Rightarrow> False)"

lemma write_string_Err: "write_string s = Err e \<Longrightarrow> too_large e"
proof -
  have "write_packed s ty \<noteq> Err e" if "validate_nibble s \<or> validate_hex s" for ty
    using that by (auto simp: write_packed_def validate_nibble_def validate_hex_def Let_def
        obind_def or_panic_def split: outcome.splits option.splits)
  then show "write_string s = Err e \<Longrightarrow> too_large e"
    by (auto simp: write_string_def obind_def write_byte_length_def too_large_def
        split: option.splits if_splits outcome.splits)
qed

lemma write_attr_value_Err: "write_attr_value v = Err e \<Longrightarrow> too_large e"
  by (auto simp: write_attr_value_def obind_eq_Err split: option.splits if_splits)
     (erule write_string_Err)+

lemma write_attrs_Err: "write_attrs as = Err e \<Longrightarrow> too_large e"
  by (induction as) (auto simp: obind_eq_Err split: if_splits
      dest: write_string_Err write_attr_value_Err)

lemma written_Err:
  "write_node n = Err e \<Longrightarrow> too_large e"
  "write_content c = Err e \<Longrightarrow> too_large e"
  "write_nodes ns = Err e \<Longrightarrow> too_large e"
proof (induction n and c and ns rule: write_node_write_content_write_nodes.induct)
  case (1 t as c)
  then show ?case
    by (auto simp: obind_eq_Err write_list_start_def too_large_def split: if_splits
        dest: write_string_Err [unfolded too_large_def] write_attrs_Err [unfolded too_large_def])
next
  case (4 ns)
  then show ?case by (auto simp: obind_eq_Err write_list_start_def too_large_def split: if_splits)
qed (auto simp: obind_eq_Err write_bytes_def write_byte_length_def too_large_def split: if_splits)

text \<open>Within the format's length limits the encoder succeeds.\<close>

definition fits_string :: "string \<Rightarrow> bool" where
  "fits_string s \<longleftrightarrow> length s < 2147483647"

fun fits_node :: "node \<Rightarrow> bool" and fits_content :: "content \<Rightarrow> bool" where
  "fits_node (Node t as c) =
    (fits_string t \<and> list_all (\<lambda>kv. fits_string (fst kv) \<and> fits_string (snd kv)) as \<and>
     2 * length as + 2 < 65536 \<and> fits_content c)"
| "fits_content (CNodes ns) = (length ns < 65536 \<and> list_all fits_node ns)"
| "fits_content (CBytes b) = (length b < 2147483647)"
| "fits_content CNone = True"

lemma not_Panic_Err: "r \<noteq> Panic \<Longrightarrow> (\<And>e. r \<noteq> Err e) \<Longrightarrow> \<exists>x. r = Ok x"
  by (cases r) auto

lemma write_byte_length_Ok: "n < 2147483647 \<Longrightarrow> \<exists>h. write_byte_length n = Ok h"
  by (simp add: write_byte_length_def)

lemma write_string_Ok:
  assumes "fits_string s"
  shows "\<exists>b. write_string s = Ok b"
proof (rule not_Panic_Err)
  fix e
  show "write_string s \<noteq> Err e"
  proof
    assume "write_string s = Err e"
    moreover have "write_packed s ty \<noteq> Err e" if "validate_nibble s \<or> validate_hex s" for ty
      using that by (auto simp: write_packed_def validate_nibble_def validate_hex_def Let_def
          obind_def or_panic_def split: outcome.splits option.splits)
    ultimately show False
      using write_byte_length_Ok [of "length s"] assms
      by (auto simp: write_string_def fits_string_def obind_eq_Err split: option.splits if_splits)
  qed
qed simp

lemma ad_jid_parts_length: "ad_jid_parts left server = Some (user, agent, device) \<Longrightarrow> length user \<le> length left"
  by (auto simp: ad_jid_parts_def Let_def rsplit_once_Some split_once_Some
      split: option.splits if_splits prod.splits)

lemma write_attr_value_Ok:
  assumes "fits_string v"
  shows "\<exists>b. write_attr_value v = Ok b"
proof -
  have "\<exists>b. write_string s = Ok b" if "length s \<le> length v" for s
    using that assms by (intro write_string_Ok) (simp add: fits_string_def)
  then have str: "length s \<le> length v \<Longrightarrow> write_string s \<noteq> Err e" for s e by force
  show ?thesis
  proof (rule not_Panic_Err)
    show "write_attr_value v \<noteq> Err e" for e
      using str [of v e]
      by (auto simp: write_attr_value_def obind_eq_Err rsplit_once_Some str
          dest!: ad_jid_parts_length split: option.splits if_splits)
  qed simp
qed

lemma write_attrs_Ok:
  "list_all (\<lambda>kv. fits_string (fst kv) \<and> fits_string (snd kv)) as \<Longrightarrow> \<exists>b. write_attrs as = Ok b"
proof (induction as)
  case (Cons kv as)
  then show ?case
    using write_string_Ok [of "fst kv"] write_attr_value_Ok [of "snd kv"] by auto
qed simp

lemma written_Ok:
  "fits_node n \<Longrightarrow> \<exists>b. write_node n = Ok b" "fits_content c \<Longrightarrow> \<exists>b. write_content c = Ok b"
  "list_all fits_node ns \<Longrightarrow> \<exists>b. write_nodes ns = Ok b"
proof (induction n and c and ns rule: write_node_write_content_write_nodes.induct)
  case (1 t as c)
  have "length as < 32767" using "1.prems" by simp
  then have "length (filter (\<lambda>kv. snd kv \<noteq> []) as) < 32767"
    by (rule order.strict_trans1 [OF length_filter_le])
  then have "node_list_size as c < 65536" by (simp add: node_list_size_def)
  then have "\<exists>h. write_list_start (node_list_size as c) = Ok h" by (simp add: write_list_start_def)
  with 1 write_string_Ok [of t] write_attrs_Ok [of as] show ?case by auto
next
  case (3 b)
  with write_byte_length_Ok [of "length b"] show ?case by (auto simp: write_bytes_def)
next
  case (4 ns)
  then have "\<exists>h. write_list_start (length ns) = Ok h" by (simp add: write_list_start_def)
  with 4 show ?case by auto
qed auto

text \<open>A string costs at most five bytes on top of its own.\<close>

lemma pack_pairs_length: "pack_pairs pk bs = Some ps \<Longrightarrow> length ps = (length bs + 1) div 2"
  by (induction pk bs arbitrary: ps rule: pack_pairs.induct) (auto split: option.splits)

lemma write_string_length: "write_string s = Ok b \<Longrightarrow> length b \<le> length s + 5"
  by (auto simp: write_string_def write_packed_def write_byte_length_def Let_def obind_eq_Ok
      dest!: pack_pairs_length split: option.splits if_splits)

section \<open>Properties\<close>

text \<open>C1: a well-formed node that encodes is decoded to its canonical form (the same tree,
  attributes without a value dropped, device JIDs normalised), whatever bytes follow it, and
  the decoder stops exactly at its end.\<close>

theorem encode_decode_roundtrip:
  assumes "encode n = Ok bs" "wf_node n"
  shows "decode (bs @ rest) = Got (canon_node n) \<lparr>buf = bs @ rest, pos = length bs\<rparr>"
  using assms by (rule decode_encode)

definition sample_node :: node where
  "sample_node = Node ''iq'' [(''id'', ''9-A''), (''to'', ''12:5@s.whatsapp.net''), (''type'', [])]
     (CNodes [Node ''ping'' [] CNone, Node ''x'' [] (CBytes [1, 2])])"

lemma sample_fits: "fits_node sample_node" "wf_node sample_node"
proof -
  show "fits_node sample_node" by (simp add: sample_node_def fits_string_def)
  have "rust_string s" if "list_all ascii_char s" for s using that by (rule rust_string_ascii)
  then show "wf_node sample_node"
    by (simp add: sample_node_def wf_attrs_def ascii_char_def less_char_def)
qed

lemma sample_node_ok: "encode sample_node = Ok (the_ok (encode sample_node))" "wf_node sample_node"
  using written_Ok(1) [OF sample_fits(1)] sample_fits(2) by (auto simp: encode_def)

theorem encode_decode_roundtrip_witness:
  "decode (the_ok (encode sample_node) @ [7]) = Got (canon_node sample_node)
     \<lparr>buf = the_ok (encode sample_node) @ [7], pos = length (the_ok (encode sample_node))\<rparr>"
  by (rule encode_decode_roundtrip [OF sample_node_ok])

text \<open>What \<open>pack\<close> frames, \<open>unmarshal\<close> reads back, without calling the decompressor.\<close>

theorem pack_unmarshal_roundtrip:
  assumes "pack n = Ok bs" "wf_node n"
  shows "\<exists>d. unmarshal inflate bs = Got (canon_node n) d \<and> pos d = length bs - 1"
proof -
  from assms(1) obtain b where "bs = 0 # b" "encode n = Ok b"
    by (auto simp: pack_def encode_def obind_eq_Ok)
  with decode_encode [of n b "[]"] assms(2) show ?thesis by (simp add: unmarshal_def)
qed

theorem pack_unmarshal_roundtrip_witness:
  "\<exists>d. unmarshal (\<lambda>_. None) (0 # the_ok (encode sample_node)) = Got (canon_node sample_node) d \<and>
     pos d = length (0 # the_ok (encode sample_node)) - 1"
  by (rule pack_unmarshal_roundtrip [of sample_node])
     (use written_Ok(1) [OF sample_fits(1)] sample_fits(2) in \<open>auto simp: pack_def encode_def\<close>)


text \<open>The encoder never panics (no character outside the packed alphabets reaches the
  packing tables), and its only error is a length that does not fit: the packed-string
  error is never returned.\<close>

theorem encode_errors:
  "(case encode n of Ok bs \<Rightarrow> bs \<noteq> [] | Err e \<Rightarrow> \<exists>k \<ge> 65536. e = TooLarge k | Panic \<Rightarrow> False)"
proof -
  have "encode n = Ok bs \<Longrightarrow> bs \<noteq> []" for bs
    by (cases n) (auto simp: encode_def obind_eq_Ok write_list_start_def split: if_splits)
  moreover have "encode n = Err e \<Longrightarrow> \<exists>k \<ge> 65536. e = TooLarge k" for e
    using written_Err(1) [of n e] by (auto simp: encode_def too_large_def split: encode_error.splits)
  ultimately show ?thesis
    using written_not_Panic(1) [of n] by (auto simp: encode_def split: outcome.split)
qed

text \<open>The canonical form is stable. A node that came off the wire is re-encoded and decoded
  to itself.\<close>

theorem decoded_node_stable:
  assumes "encode n = Ok bs" "wf_node n" "decode bs = Got n' d" "encode n' = Ok bs'"
  shows "\<exists>d'. decode bs' = Got n' d'"
proof -
  from decode_encode [OF assms(1,2), of "[]"] assms(3) have "n' = canon_node n" by simp
  with decode_encode [OF assms(4), of "[]"] wf_canon(1) [OF assms(2)] show ?thesis
    by (simp add: canon_idem)
qed

lemma canon_sample: "encode (canon_node sample_node) = Ok (the_ok (encode (canon_node sample_node)))"
proof -
  have "length (canon_attr ''12:5@s.whatsapp.net'') < 2147483647"
    by (rule order.strict_trans1 [of _ 100]) (code_simp, simp)
  moreover have "canon_attr ''9-A'' = ''9-A''" by code_simp
  ultimately have "fits_node (canon_node sample_node)"
    by (simp add: sample_node_def canon_attrs_def fits_string_def)
  with written_Ok(1) show ?thesis by (force simp: encode_def)
qed

theorem decoded_node_stable_witness:
  "\<exists>d'. decode (the_ok (encode (canon_node sample_node))) = Got (canon_node sample_node) d'"
  using decoded_node_stable [OF sample_node_ok _ canon_sample]
    decode_encode [OF sample_node_ok, of "[]"]
  by simp

text \<open>A node within the format's limits (fewer than 32,767 attributes and 65,536 children,
  texts and blobs under 2 GiB) always encodes.\<close>

theorem encode_succeeds:
  assumes "fits_node n"
  shows "\<exists>bs. encode n = Ok bs"
  unfolding encode_def using assms by (rule written_Ok(1))

theorem encode_succeeds_witness: "\<exists>bs. encode sample_node = Ok bs"
  by (rule encode_succeeds [OF sample_fits(1)])

text \<open>A device JID is written as its compact form (tag, agent, device, user) and read back
  as the same JID in the phone-number namespace; a device of the LID namespace comes back with
  its agent spelled out (\<open>12:5@lid\<close> as \<open>12.1:5@lid\<close>).\<close>

theorem device_jid_wire:
  assumes "CHR ''.'' \<notin> set u" "CHR ''@'' \<notin> set u" "u \<noteq> []" "rust_string u" "0 < d" "d \<le> 255"
    and "write_string u = Ok b"
  shows "write_attr_value (u @ '':'' @ show_nat d @ ''@s.whatsapp.net'') =
      Ok (AD_JID # 0 # word_of_nat d # b) \<and>
    write_attr_value (u @ '':'' @ show_nat d @ ''@lid'') = Ok (AD_JID # 1 # word_of_nat d # b) \<and>
    reads (read_value (Suc (Suc f)) True) (AD_JID # 0 # word_of_nat d # b)
      (VStr (u @ '':'' @ show_nat d @ ''@s.whatsapp.net'')) \<and>
    reads (read_value (Suc (Suc f)) True) (AD_JID # 1 # word_of_nat d # b)
      (VStr (u @ ''.1:'' @ show_nat d @ ''@lid''))"
proof -
  let ?l = "u @ '':'' @ show_nat d"
  have l: "rsplit_once CHR ''@'' (?l @ CHR ''@'' # s) = Some (?l, s)" if "CHR ''@'' \<notin> set s" for s
    using that by (simp add: rsplit_once_Some)
  have l1: "rsplit_once CHR ''@'' (?l @ ''@s.whatsapp.net'') = Some (?l, ''s.whatsapp.net'')"
    "rsplit_once CHR ''@'' (?l @ ''@lid'') = Some (?l, ''lid'')"
    using l [of "''s.whatsapp.net''"] l [of "''lid''"] by simp_all
  have p: "ad_jid_parts ?l ''s.whatsapp.net'' = Some (u, 0, d)" "ad_jid_parts ?l ''lid'' = Some (u, 1, d)"
    using ad_jid_parts_with_device(1,2) [of u 0 d] assms by simp_all
  have not_left: "?l \<noteq> []" "CHR ''@'' \<notin> set ?l" "CHR '':'' \<in> set ?l" using assms by auto
  have w: "write_attr_value (?l @ ''@s.whatsapp.net'') = Ok (AD_JID # 0 # word_of_nat d # b)"
    "write_attr_value (?l @ ''@lid'') = Ok (AD_JID # 1 # word_of_nat d # b)"
    using not_left assms(7) unfolding write_attr_value_def l1 option.case prod.case p by simp_all
  have c: "canon_attr (?l @ ''@s.whatsapp.net'') = format_ad_jid u 0 d"
    "canon_attr (?l @ ''@lid'') = format_ad_jid u 1 d"
    using not_left unfolding canon_attr_def l1 option.case prod.case p by simp_all
  have one: "show_nat 1 = ''1''" by code_simp
  have "rust_string (show_nat d)"
    using show_nat_digits [of d] by (intro rust_string_ascii) (auto simp: list_all_iff ascii_char_def is_ascii_digit_def)
  then have "rust_string (?l @ ''@s.whatsapp.net'')" "rust_string (?l @ ''@lid'')"
    using assms(4) by (auto intro!: rust_string_append rust_string_Cons simp: ascii_char_def rust_string_def [of "[]"])
  from write_attr_value_reads [OF w(1) this(1), of f] write_attr_value_reads [OF w(2) this(2), of f]
  have "reads (read_value (Suc (Suc f)) True) (AD_JID # 0 # word_of_nat d # b)
      (VStr (u @ '':'' @ show_nat d @ ''@s.whatsapp.net''))"
    "reads (read_value (Suc (Suc f)) True) (AD_JID # 1 # word_of_nat d # b)
      (VStr (u @ ''.1:'' @ show_nat d @ ''@lid''))"
    unfolding c using assms(5) one by (simp_all add: format_ad_jid_def)
  with w show ?thesis by simp
qed

theorem device_jid_wire_witness:
  "write_attr_value (''12'' @ '':'' @ show_nat 5 @ ''@lid'') =
     Ok (AD_JID # 1 # word_of_nat 5 # the_ok (write_string ''12''))"
proof -
  have "write_string ''12'' = Ok (the_ok (write_string ''12''))"
    using write_string_Ok [of "''12''"] by (auto simp: fits_string_def)
  moreover have "rust_string ''12''" by (rule rust_string_ascii) (simp add: ascii_char_def)
  ultimately show ?thesis
    using device_jid_wire [of "''12''" 5 "the_ok (write_string ''12'')"] by simp
qed

end
