(* ===== verification/Connection.thy ===== *)
theory Connection
  imports Noise Frame Node_Roundtrip
begin

text \<open>
  The transport driver, module \<open>connection\<close> of \<open>src/src/protocol.rs\<close>: binary nodes over the
  noise ciphers over frames over web-socket messages, the client's side of the Noise XX
  handshake, the check of the server's certificate chain, the proxy URL and the HTTP CONNECT
  tunnel. The web socket is the list of the messages it will deliver and the list of those
  sent. The protobuf codec (\<open>prost\<close>), the decompressor and XEdDSA verification are
  arguments; so is the clock.
\<close>

section \<open>Nodes over the ciphers\<close>

datatype node_error = NoiseFailed noise_error | EncodeFailed encode_error | DecodeFailed decode_error

definition encrypt_node ::
  "crypto \<Rightarrow> node \<Rightarrow> noise_cipher \<Rightarrow> (node_error, bytes) outcome \<times> noise_cipher" where
  "encrypt_node c n nc =
    (case pack n of
       Err e \<Rightarrow> (Err (EncodeFailed e), nc)
     | Panic \<Rightarrow> (Panic, nc)
     | Ok payload \<Rightarrow>
       (case cipher_encrypt c payload nc of
          (Err e, nc) \<Rightarrow> (Err (NoiseFailed e), nc)
        | (Panic, nc) \<Rightarrow> (Panic, nc)
        | (Ok ct, nc) \<Rightarrow> (Ok ct, nc)))"

text \<open>A reader that ran out of fuel is read as a panic; it does not happen.\<close>

definition decrypt_node ::
  "crypto \<Rightarrow> (bytes \<Rightarrow> bytes option) \<Rightarrow> bytes \<Rightarrow> noise_cipher \<Rightarrow>
    (node_error, node) outcome \<times> noise_cipher" where
  "decrypt_node c inflate ciphertext nc =
    (case cipher_decrypt c ciphertext nc of
       (Err e, nc) \<Rightarrow> (Err (NoiseFailed e), nc)
     | (Panic, nc) \<Rightarrow> (Panic, nc)
     | (Ok pt, nc) \<Rightarrow>
       (case unmarshal inflate pt of
          Got n d \<Rightarrow> (Ok n, nc)
        | Fail e \<Rightarrow> (Err (DecodeFailed e), nc)
        | Diverge \<Rightarrow> (Panic, nc)))"

section \<open>The socket\<close>

datatype ws_msg = WsBinary bytes | WsClose | WsOther

text \<open>What \<open>ws.next()\<close> yields, in turn: a message or a transport error, and \<open>None\<close> at the
  end. \<open>accepts\<close> is how many more sends the transport takes before it fails.\<close>

datatype ws_item = WsMsg ws_msg | WsError

record ws_io =
  incoming :: "ws_item list"
  accepts :: nat
  sent :: "bytes list"

definition ws_send :: "bytes \<Rightarrow> ws_io \<Rightarrow> bool \<times> ws_io" where
  "ws_send frame w =
    (if accepts w = 0 then (False, w)
     else (True, w\<lparr>accepts := accepts w - 1, sent := sent w @ [frame]\<rparr>))"

datatype socket_error = SockWs | SockClosed | SockFrame frame_error | SockNode node_error

record noise_socket =
  ws :: ws_io
  write_cipher :: noise_cipher
  read_cipher :: noise_cipher
  sdecoder :: frame_decoder

definition new_socket :: "ws_io \<Rightarrow> noise_cipher \<Rightarrow> noise_cipher \<Rightarrow> noise_socket" where
  "new_socket w wc rc = \<lparr>ws = w, write_cipher = wc, read_cipher = rc, sdecoder = new_decoder\<rparr>"

definition send_node ::
  "crypto \<Rightarrow> node \<Rightarrow> noise_socket \<Rightarrow> (socket_error, unit) outcome \<times> noise_socket" where
  "send_node c n s =
    (case encrypt_node c n (write_cipher s) of
       (Err e, nc) \<Rightarrow> (Err (SockNode e), s\<lparr>write_cipher := nc\<rparr>)
     | (Panic, nc) \<Rightarrow> (Panic, s\<lparr>write_cipher := nc\<rparr>)
     | (Ok ct, nc) \<Rightarrow>
       (let s = s\<lparr>write_cipher := nc\<rparr>
        in case encode_frame ct None of
             Err e \<Rightarrow> (Err (SockFrame e), s)
           | Panic \<Rightarrow> (Panic, s)
           | Ok frame \<Rightarrow>
             (case ws_send frame (ws s) of
                (up, w) \<Rightarrow> (if up then Ok () else Err SockWs, s\<lparr>ws := w\<rparr>))))"

text \<open>The loop of \<open>recv_node\<close> up to the next whole frame.\<close>

fun recv_frame ::
  "ws_item list \<Rightarrow> frame_decoder \<Rightarrow> (socket_error, bytes) outcome \<times> ws_item list \<times> frame_decoder" where
  "recv_frame items d =
    (case next_frame d of
       (Some f, d) \<Rightarrow> (Ok f, items, d)
     | (None, d) \<Rightarrow>
       (case items of
          [] \<Rightarrow> (Err SockClosed, [], d)
        | WsError # items \<Rightarrow> (Err SockWs, items, d)
        | WsMsg (WsBinary b) # items \<Rightarrow> recv_frame items (feed b d)
        | WsMsg WsClose # items \<Rightarrow> (Err SockClosed, items, d)
        | WsMsg WsOther # items \<Rightarrow> recv_frame items d))"

declare recv_frame.simps [simp del]

definition recv_node ::
  "crypto \<Rightarrow> (bytes \<Rightarrow> bytes option) \<Rightarrow> noise_socket \<Rightarrow>
    (socket_error, node) outcome \<times> noise_socket" where
  "recv_node c inflate s =
    (case recv_frame (incoming (ws s)) (sdecoder s) of
       (r, items, d) \<Rightarrow>
       (let s = s\<lparr>ws := (ws s)\<lparr>incoming := items\<rparr>, sdecoder := d\<rparr>
        in case r of
             Err e \<Rightarrow> (Err e, s)
           | Panic \<Rightarrow> (Panic, s)
           | Ok frame \<Rightarrow>
             (case decrypt_node c inflate frame (read_cipher s) of
                (r, nc) \<Rightarrow> (map_err SockNode r, s\<lparr>read_cipher := nc\<rparr>))))"

section \<open>The server's certificate\<close>

record cert_details =
  serial :: "u32 option"
  issuer_serial :: "u32 option"
  cert_key :: "bytes option"
  not_before :: "u64 option"
  not_after :: "u64 option"

record noise_cert =
  details :: "bytes option"
  signature :: "bytes option"

record cert_chain =
  intermediate :: "noise_cert option"
  leaf :: "noise_cert option"

record cert_codec =
  decode_chain :: "bytes \<Rightarrow> cert_chain option"
  decode_details :: "bytes \<Rightarrow> cert_details option"

definition WA_CERT_ROOT_PUB_KEY :: bytes where
  "WA_CERT_ROOT_PUB_KEY =
    [0x14, 0x23, 0x75, 0x57, 0x4D, 0x0A, 0x58, 0x71, 0x66, 0xAA, 0xE7, 0x1E, 0xBE, 0x51, 0x64,
     0x37, 0xC4, 0xA2, 0x8B, 0x73, 0xE3, 0x69, 0x5C, 0x6C, 0xE1, 0xF7, 0xF9, 0x54, 0x5D, 0xA8,
     0xEE, 0x6B]"

definition WA_CERT_ROOT_ISSUER_SERIAL :: u32 where "WA_CERT_ROOT_ISSUER_SERIAL = 0"

definition check_cert_window :: "u64 \<Rightarrow> cert_details \<Rightarrow> (string, unit) outcome" where
  "check_cert_window now d =
    (if (case not_before d of Some nb \<Rightarrow> now < nb | None \<Rightarrow> False) then Err ''not yet valid''
     else if (case not_after d of Some na \<Rightarrow> now > na | None \<Rightarrow> False) then Err ''expired''
     else Ok ())"

definition key32 :: "bytes option \<Rightarrow> bytes option" where
  "key32 k = (case k of Some k \<Rightarrow> if length k = 32 then Some k else None | None \<Rightarrow> None)"

definition verify_server_cert ::
  "cert_codec \<Rightarrow> (bytes \<Rightarrow> bytes \<Rightarrow> bytes \<Rightarrow> bool) \<Rightarrow> u64 \<Rightarrow> bytes \<Rightarrow> bytes \<Rightarrow> (string, unit) outcome" where
  "verify_server_cert pb xeddsa_verify now cert_decrypted server_static_pub =
    obind (ok_or (decode_chain pb cert_decrypted) ''decode CertChain failed'') (\<lambda>chain.
    obind (ok_or (intermediate chain) ''CertChain missing intermediate'') (\<lambda>inter.
    obind (ok_or (leaf chain) ''CertChain missing leaf'') (\<lambda>lf.
    obind (ok_or (details inter) ''intermediate missing details'') (\<lambda>inter_raw.
    obind (ok_or (signature inter) ''intermediate missing signature'') (\<lambda>inter_sig.
    obind (ok_or (details lf) ''leaf missing details'') (\<lambda>leaf_raw.
    obind (ok_or (signature lf) ''leaf missing signature'') (\<lambda>leaf_sig.
    obind (guard_err (length inter_sig \<noteq> 64) ''intermediate signature wrong length'') (\<lambda>_.
    obind (guard_err (length leaf_sig \<noteq> 64) ''leaf signature wrong length'') (\<lambda>_.
    obind (guard_err (\<not> xeddsa_verify WA_CERT_ROOT_PUB_KEY inter_raw inter_sig)
      ''intermediate signature did not verify under WACertPubKey'') (\<lambda>_.
    obind (ok_or (decode_details pb inter_raw) ''decode intermediate.details failed'') (\<lambda>inter_d.
    obind (guard_err (or_default (- 1) (issuer_serial inter_d) \<noteq> WA_CERT_ROOT_ISSUER_SERIAL)
      ''unexpected intermediate.issuerSerial'') (\<lambda>_.
    obind (ok_or (key32 (cert_key inter_d)) ''intermediate key not 32 bytes'') (\<lambda>inter_key.
    obind (guard_err (\<not> xeddsa_verify inter_key leaf_raw leaf_sig)
      ''leaf signature did not verify under intermediate.key'') (\<lambda>_.
    obind (map_err (\<lambda>_. ''intermediate cert outside time window'') (check_cert_window now inter_d)) (\<lambda>_.
    obind (ok_or (decode_details pb leaf_raw) ''decode leaf.details failed'') (\<lambda>leaf_d.
    obind (guard_err (or_default (- 1) (issuer_serial leaf_d) \<noteq> or_default 0 (serial inter_d))
      ''leaf.issuerSerial does not match intermediate.serial'') (\<lambda>_.
    obind (ok_or (key32 (cert_key leaf_d)) ''leaf key not 32 bytes'') (\<lambda>leaf_key.
    obind (guard_err (leaf_key \<noteq> server_static_pub)
      ''leaf.key does not match decrypted server static pubkey'') (\<lambda>_.
    map_err (\<lambda>_. ''leaf cert outside time window'') (check_cert_window now leaf_d))))))))))))))))))))"

section \<open>The handshake\<close>

record server_hello =
  sh_ephemeral :: "bytes option"
  sh_static :: "bytes option"
  sh_payload :: "bytes option"

text \<open>\<open>HandshakeMessage\<close> on the wire: the bytes of a client hello with an ephemeral key and of a
  client finish with a static key and payload; the server hello, if any, of a message.\<close>

record handshake_codec =
  enc_client_hello :: "bytes \<Rightarrow> bytes"
  enc_client_finish :: "bytes \<Rightarrow> bytes \<Rightarrow> bytes"
  dec_server_hello :: "bytes \<Rightarrow> server_hello option option"

datatype handshake_error =
    HsWs | HsClosed | HsFrame frame_error | HsNoise noise_error | HsProto
  | MissingField string | BadPubKeyLen nat | Timeout string | CertVerify string

definition send_handshake_frame ::
  "bytes \<Rightarrow> bytes option \<Rightarrow> ws_io \<Rightarrow> (handshake_error, unit) outcome \<times> ws_io" where
  "send_handshake_frame payload header =
    sbind (slift (map_err HsFrame (encode_frame payload header))) (\<lambda>frame w.
      case ws_send frame w of (up, w) \<Rightarrow> (if up then Ok () else Err HsWs, w))"

text \<open>\<open>deadline\<close>: how many messages come in before the twenty seconds are over.\<close>

fun handshake_loop ::
  "nat \<Rightarrow> ws_item list \<Rightarrow> frame_decoder \<Rightarrow>
    (handshake_error, bytes) outcome \<times> ws_item list \<times> frame_decoder" where
  "handshake_loop deadline items d =
    (case items of
       [] \<Rightarrow> (Err HsClosed, [], d)
     | item # rest \<Rightarrow>
       (case deadline of
          0 \<Rightarrow> (Err (Timeout ''handshake response''), items, d)
        | Suc deadline \<Rightarrow>
          (case item of
             WsError \<Rightarrow> (Err HsWs, rest, d)
           | WsMsg (WsBinary b) \<Rightarrow>
             (case next_frame (feed b d) of
                (Some f, d) \<Rightarrow> (Ok f, rest, d)
              | (None, d) \<Rightarrow> handshake_loop deadline rest d)
           | WsMsg WsClose \<Rightarrow> (Err HsClosed, rest, d)
           | WsMsg WsOther \<Rightarrow> handshake_loop deadline rest d)))"

declare handshake_loop.simps [simp del]

definition recv_handshake_frame ::
  "nat \<Rightarrow> frame_decoder \<Rightarrow> ws_io \<Rightarrow> (handshake_error, bytes) outcome \<times> ws_io" where
  "recv_handshake_frame deadline d w =
    (case next_frame d of
       (Some f, d) \<Rightarrow> (Ok f, w)
     | (None, d) \<Rightarrow>
       (case handshake_loop deadline (incoming w) d of
          (r, items, d) \<Rightarrow> (r, w\<lparr>incoming := items\<rparr>)))"

definition hs_step ::
  "((noise_error, bytes) outcome \<times> noise_handshake) \<Rightarrow> ws_io \<Rightarrow>
    (handshake_error, bytes \<times> noise_handshake) outcome \<times> ws_io" where
  "hs_step r = (case r of (r, nh) \<Rightarrow>
    slift (case r of Ok x \<Rightarrow> Ok (x, nh) | Err e \<Rightarrow> Err (HsNoise e) | Panic \<Rightarrow> Panic))"

definition do_handshake ::
  "crypto \<Rightarrow> handshake_codec \<Rightarrow> (bytes \<Rightarrow> bytes \<Rightarrow> (string, unit) outcome) \<Rightarrow> nat \<Rightarrow>
    bytes \<Rightarrow> bytes \<Rightarrow> bytes \<Rightarrow> bytes \<Rightarrow> bytes \<Rightarrow> ws_io \<Rightarrow>
    (handshake_error, noise_cipher \<times> noise_cipher) outcome \<times> ws_io" where
  "do_handshake c pb verify deadline eph_priv eph_pub static_priv static_pub client_payload =
    (let nh = authenticate c eph_pub (start c NOISE_START_PATTERN WA_CONN_HEADER)
     in
     sbind (send_handshake_frame (enc_client_hello pb eph_pub) (Some WA_CONN_HEADER)) (\<lambda>_.
     sbind (recv_handshake_frame deadline new_decoder) (\<lambda>resp.
     sbind (slift (ok_or (dec_server_hello pb resp) HsProto)) (\<lambda>msg.
     sbind (slift (ok_or msg (MissingField ''ServerHello''))) (\<lambda>sh.
     sbind (slift (ok_or (sh_ephemeral sh) (MissingField ''ServerHello.ephemeral''))) (\<lambda>server_eph.
     sbind (slift (ok_or (sh_static sh) (MissingField ''ServerHello.static''))) (\<lambda>server_static_ct.
     sbind (slift (ok_or (sh_payload sh) (MissingField ''ServerHello.payload''))) (\<lambda>cert_ct.
     sbind (slift (guard_err (length server_eph \<noteq> 32) (BadPubKeyLen (length server_eph)))) (\<lambda>_.
     let nh = mix_shared_secret_into_key c eph_priv server_eph (authenticate c server_eph nh)
     in
     sbind (hs_step (hs_decrypt c server_static_ct nh)) (\<lambda>(server_static, nh).
     sbind (slift (guard_err (length server_static \<noteq> 32) (BadPubKeyLen (length server_static)))) (\<lambda>_.
     let nh = mix_shared_secret_into_key c eph_priv server_static nh
     in
     sbind (hs_step (hs_decrypt c cert_ct nh)) (\<lambda>(cert_bytes, nh).
     sbind (slift (map_err CertVerify (verify cert_bytes server_static))) (\<lambda>_.
     sbind (hs_step (hs_encrypt c static_pub nh)) (\<lambda>(encrypted_static, nh).
     let nh = mix_shared_secret_into_key c static_priv server_eph nh
     in
     sbind (hs_step (hs_encrypt c client_payload nh)) (\<lambda>(encrypted_payload, nh).
     sbind (send_handshake_frame (enc_client_finish pb encrypted_static encrypted_payload) None) (\<lambda>_.
     slift (Ok (finish c nh))))))))))))))))))"

section \<open>Frames out of web-socket messages\<close>

text \<open>A transport that is up: nothing but data and control messages to ignore. \<open>arriving\<close> is
  the byte stream still to be read, buffered or to come.\<close>

definition plain :: "ws_item list \<Rightarrow> bool" where
  "plain items \<longleftrightarrow> list_all (\<lambda>i. case i of WsMsg (WsBinary b) \<Rightarrow> True | WsMsg WsOther \<Rightarrow> True | _ \<Rightarrow> False) items"

definition binaries :: "ws_item list \<Rightarrow> bytes" where
  "binaries items = concat (map (\<lambda>i. case i of WsMsg (WsBinary b) \<Rightarrow> b | _ \<Rightarrow> []) items)"

definition arriving :: "frame_decoder \<Rightarrow> ws_item list \<Rightarrow> bytes" where
  "arriving d items = fbuf d @ binaries items"

lemma binaries_simps [simp]:
  "binaries [] = []" "binaries (WsMsg (WsBinary b) # r) = b @ binaries r"
  "binaries (WsMsg WsOther # r) = binaries r"
  by (simp_all add: binaries_def)

lemma plain_simps [simp]:
  "plain []" "plain (WsMsg (WsBinary b) # r) = plain r" "plain (WsMsg WsOther # r) = plain r"
  "\<not> plain (WsMsg WsClose # r)" "\<not> plain (WsError # r)"
  by (simp_all add: plain_def)

lemma next_frame_step:
  "next_frame d = (None, d') \<longleftrightarrow> frame_step (fbuf d) = None \<and> d' = d"
  "next_frame d = (Some f, d') \<longleftrightarrow> frame_step (fbuf d) = Some (f, fbuf d')"
  by (cases d; cases d'; auto simp: frame_step_def next_frame_def Let_def split: if_splits)+

lemma fbuf_feed [simp]: "fbuf (feed b d) = fbuf d @ b"
  by (simp add: feed_def)

lemma frame_step_first:
  assumes "frame_step b = Some (f, r)" "b @ c = frame_bytes p @ rest" "length p < FRAME_MAX_SIZE"
  shows "f = p \<and> r @ c = rest"
  using frames.extends [OF assms(1), of c] frames.decodes [OF assms(3), of rest] assms(2) by simp

lemma recv_frame_step:
  "next_frame d = (Some f, d') \<Longrightarrow> recv_frame items d = (Ok f, items, d')"
  "next_frame d = (None, d) \<Longrightarrow> recv_frame (WsMsg (WsBinary b) # r) d = recv_frame r (feed b d)"
  "next_frame d = (None, d) \<Longrightarrow> recv_frame (WsMsg WsOther # r) d = recv_frame r d"
  by (simp_all add: recv_frame.simps [of items] recv_frame.simps [of "WsMsg m # r" for m])

lemma handshake_loop_step:
  "next_frame (feed b d) = (Some f, d') \<Longrightarrow>
    handshake_loop (Suc k) (WsMsg (WsBinary b) # r) d = (Ok f, r, d')"
  "next_frame (feed b d) = (None, feed b d) \<Longrightarrow>
    handshake_loop (Suc k) (WsMsg (WsBinary b) # r) d = handshake_loop k r (feed b d)"
  "handshake_loop (Suc k) (WsMsg WsOther # r) d = handshake_loop k r d"
  by (simp_all add: handshake_loop.simps [of "Suc k"])

lemma plain_cases:
  assumes "plain items" "items \<noteq> []"
  obtains b r where "items = WsMsg (WsBinary b) # r" "plain r" | r where "items = WsMsg WsOther # r" "plain r"
  using assms by (cases items) (auto simp: plain_def split: ws_item.splits ws_msg.splits)

lemma pending_frame:
  assumes "length p < FRAME_MAX_SIZE" "arriving d items = frame_bytes p @ rest" "frame_step (fbuf d) = None"
  shows "items \<noteq> []"
proof
  assume "items = []"
  with assms(2) have "fbuf d = frame_bytes p @ rest" by (simp add: arriving_def)
  with assms(3) frames.decodes [OF assms(1), of rest] show False by simp
qed

text \<open>However the stream is cut into messages, the next frame is received.\<close>

lemma recv_frame_delivers:
  assumes "length p < FRAME_MAX_SIZE"
  shows "plain items \<Longrightarrow> arriving d items = frame_bytes p @ rest \<Longrightarrow>
    \<exists>items' d'. recv_frame items d = (Ok p, items', d') \<and> plain items' \<and> arriving d' items' = rest"
proof (induction "length items" arbitrary: items d rule: less_induct)
  case less
  show ?case
  proof (cases "frame_step (fbuf d)")
    case (Some fr)
    then obtain f t where s: "frame_step (fbuf d) = Some (f, t)" by (cases fr) auto
    then have "next_frame d = (Some f, \<lparr>fbuf = t\<rparr>)" by (simp add: next_frame_step)
    moreover have "f = p \<and> t @ binaries items = rest"
      using less.prems(2) by (intro frame_step_first [OF s _ assms]) (simp add: arriving_def)
    ultimately show ?thesis using less.prems(1) by (simp add: recv_frame_step arriving_def)
  next
    case None
    then have nf: "next_frame d = (None, d)" by (simp add: next_frame_step)
    from plain_cases [OF less.prems(1) pending_frame [OF assms less.prems(2) None]] show ?thesis
    proof cases
      case (1 b r)
      with less.hyps [of r "feed b d"] less.prems nf show ?thesis
        by (simp add: recv_frame_step arriving_def)
    next
      case (2 r)
      with less.hyps [of r d] less.prems nf show ?thesis
        by (simp add: recv_frame_step arriving_def)
    qed
  qed
qed

lemma handshake_loop_delivers:
  assumes "length p < FRAME_MAX_SIZE"
  shows "plain items \<Longrightarrow> arriving d items = frame_bytes p @ rest \<Longrightarrow> frame_step (fbuf d) = None \<Longrightarrow>
    length items \<le> n \<Longrightarrow>
    \<exists>items' d'. handshake_loop n items d = (Ok p, items', d') \<and> plain items' \<and> arriving d' items' = rest"
proof (induction n arbitrary: items d)
  case 0
  with pending_frame [OF assms 0(2,3)] show ?case by simp
next
  case (Suc n)
  from plain_cases [OF Suc.prems(1) pending_frame [OF assms Suc.prems(2,3)]] show ?case
  proof cases
    case (1 b r)
    show ?thesis
    proof (cases "frame_step (fbuf d @ b)")
      case None
      then have "next_frame (feed b d) = (None, feed b d)" by (simp add: next_frame_step)
      with Suc.IH [of r "feed b d"] 1 Suc.prems None show ?thesis
        by (simp add: handshake_loop_step arriving_def)
    next
      case (Some fr)
      then obtain f t where s: "frame_step (fbuf d @ b) = Some (f, t)" by (cases fr) auto
      then have nf: "next_frame (feed b d) = (Some f, \<lparr>fbuf = t\<rparr>)" by (simp add: next_frame_step)
      have "f = p \<and> t @ binaries r = rest"
        using Suc.prems(2) 1 by (intro frame_step_first [OF s _ assms]) (simp add: arriving_def)
      with nf 1 show ?thesis by (simp add: handshake_loop_step arriving_def)
    qed
  next
    case (2 r)
    with Suc.IH [of r d] Suc.prems show ?thesis by (simp add: handshake_loop_step arriving_def)
  qed
qed

section \<open>Nodes end to end\<close>

interpretation nodes: channel "encrypt_node c" "decrypt_node c inflate" "cipher_in_step c" canon_node wf_node
  for c inflate
proof
  fix s r n ct s'
  assume step: "cipher_in_step c s r" and wf: "wf_node n" and sent: "encrypt_node c n s = (Ok ct, s')"
  then obtain payload where payload: "pack n = Ok payload" "cipher_encrypt c payload s = (Ok ct, s')"
    by (auto simp: encrypt_node_def split: outcome.splits prod.splits)
  from nc.delivers [OF step TrueI payload(2)] obtain r' where
    r': "cipher_decrypt c ct r = (Ok payload, r')" "cipher_in_step c s' r'" by blast
  obtain b where "payload = 0 # b" "encode n = Ok b"
    using payload(1) by (auto simp: pack_def encode_def obind_eq_Ok)
  with decode_encode [of n b "[]"] wf have "\<exists>d. unmarshal inflate payload = Got (canon_node n) d"
    by (simp add: unmarshal_def)
  with r' show "\<exists>r'. decrypt_node c inflate ct r = (Ok (canon_node n), r') \<and> cipher_in_step c s' r'"
    by (auto simp: decrypt_node_def)
qed

text \<open>Sending and receiving in a row.\<close>

definition send_nodes :: "crypto \<Rightarrow> node list \<Rightarrow> noise_socket \<Rightarrow> unit list option \<times> noise_socket" where
  "send_nodes c = run_all (send_node c)"

primrec recv_nodes ::
  "crypto \<Rightarrow> (bytes \<Rightarrow> bytes option) \<Rightarrow> nat \<Rightarrow> noise_socket \<Rightarrow> node list option \<times> noise_socket" where
  "recv_nodes c inflate 0 s = (Some [], s)"
| "recv_nodes c inflate (Suc k) s =
    (case recv_node c inflate s of
       (Ok n, s) \<Rightarrow> (case recv_nodes c inflate k s of (r, s) \<Rightarrow> (map_option (Cons n) r, s))
     | (_, s) \<Rightarrow> (None, s))"

lemma send_node_Ok:
  assumes "send_node c n s = (Ok u, s')"
  obtains ct where "encrypt_node c n (write_cipher s) = (Ok ct, write_cipher s')"
    "length ct < FRAME_MAX_SIZE" "sent (ws s') = sent (ws s) @ [frame_bytes ct]"
proof -
  from assms obtain ct frame where ct: "encrypt_node c n (write_cipher s) = (Ok ct, write_cipher s')"
    "encode_frame ct None = Ok frame" "sent (ws s') = sent (ws s) @ [frame]"
    by (auto simp: send_node_def Let_def ws_send_def split: outcome.splits prod.splits if_splits)
  moreover from ct(2) have "length ct < FRAME_MAX_SIZE" by (auto simp: encode_frame_def split: if_splits)
  ultimately show ?thesis by (intro that [of ct]) (simp_all add: frame_bytes_def)
qed

lemma send_nodes_sent:
  "send_nodes c ns s = (Some us, s') \<Longrightarrow> \<exists>fs. sent (ws s') = sent (ws s) @ fs"
proof (induction ns arbitrary: s us)
  case (Cons n ns)
  from Cons.prems obtain u t vs where t: "send_node c n s = (Ok u, t)" "send_nodes c ns t = (Some vs, s')"
    by (auto simp only: send_nodes_def run_all_Cons_Some)
  from send_node_Ok [OF t(1)] obtain f where "sent (ws t) = sent (ws s) @ [f]" by blast
  with Cons.IH [OF t(2)] show ?case by auto
qed (simp add: send_nodes_def)

lemma recv_node_delivers:
  assumes "decrypt_node c inflate ct (read_cipher r) = (Ok n, nc)" "length ct < FRAME_MAX_SIZE"
    and "plain (incoming (ws r))" "arriving (sdecoder r) (incoming (ws r)) = frame_bytes ct @ rest"
  shows "\<exists>r'. recv_node c inflate r = (Ok n, r') \<and> read_cipher r' = nc \<and> plain (incoming (ws r')) \<and>
    arriving (sdecoder r') (incoming (ws r')) = rest"
proof -
  from recv_frame_delivers [OF assms(2-4)] obtain items d where
    "recv_frame (incoming (ws r)) (sdecoder r) = (Ok ct, items, d)" "plain items" "arriving d items = rest"
    by blast
  with assms(1) show ?thesis by (simp add: recv_node_def)
qed

lemma socket_delivers:
  "send_nodes c ns s = (Some us, s') \<Longrightarrow> list_all wf_node ns \<Longrightarrow>
    cipher_in_step c (write_cipher s) (read_cipher r) \<Longrightarrow> plain (incoming (ws r)) \<Longrightarrow>
    sent (ws s') = sent (ws s) @ frames \<Longrightarrow>
    arriving (sdecoder r) (incoming (ws r)) = concat frames @ rest \<Longrightarrow>
    \<exists>r'. recv_nodes c inflate (length ns) r = (Some (map canon_node ns), r') \<and>
      cipher_in_step c (write_cipher s') (read_cipher r') \<and> plain (incoming (ws r')) \<and>
      arriving (sdecoder r') (incoming (ws r')) = rest"
proof (induction ns arbitrary: s r us frames)
  case Nil
  then show ?case by (auto simp: send_nodes_def)
next
  case (Cons n ns)
  from Cons.prems(1) obtain u t vs where t: "send_node c n s = (Ok u, t)" "send_nodes c ns t = (Some vs, s')"
    by (auto simp only: send_nodes_def run_all_Cons_Some)
  obtain ct where ct: "encrypt_node c n (write_cipher s) = (Ok ct, write_cipher t)"
    "length ct < FRAME_MAX_SIZE" "sent (ws t) = sent (ws s) @ [frame_bytes ct]"
    by (rule send_node_Ok [OF t(1)])
  obtain fs where fs: "sent (ws s') = sent (ws t) @ fs"
    using send_nodes_sent [OF t(2)] by blast
  with ct(3) Cons.prems(5) have frames: "frames = frame_bytes ct # fs" by simp
  from nodes.delivers [OF Cons.prems(3) _ ct(1)] Cons.prems(2) obtain nc where
    nc: "decrypt_node c inflate ct (read_cipher r) = (Ok (canon_node n), nc)"
    "cipher_in_step c (write_cipher t) nc" by auto
  from recv_node_delivers [OF nc(1) ct(2) Cons.prems(4), of "concat fs @ rest"] Cons.prems(6) frames
  obtain q where q: "recv_node c inflate r = (Ok (canon_node n), q)" "read_cipher q = nc"
    "plain (incoming (ws q))" "arriving (sdecoder q) (incoming (ws q)) = concat fs @ rest" by auto
  from Cons.IH [OF t(2) _ _ q(3) fs q(4)] nc(2) q(1,2) Cons.prems(2) show ?case by auto
qed

section \<open>The other side of the handshake\<close>

text \<open>The responder of Noise XX, the peer the client expects: the same operations, mirrored.\<close>

definition respond_hello ::
  "crypto \<Rightarrow> bytes \<times> bytes \<Rightarrow> bytes \<times> bytes \<Rightarrow> bytes \<Rightarrow> bytes \<Rightarrow> (server_hello \<times> noise_handshake) option" where
  "respond_hello c eph static cert client_eph =
    (let nh = authenticate c client_eph (start c NOISE_START_PATTERN WA_CONN_HEADER);
         nh = mix_shared_secret_into_key c (fst eph) client_eph (authenticate c (snd eph) nh)
     in case hs_encrypt c (snd static) nh of
          (Ok st, nh) \<Rightarrow>
            (case hs_encrypt c cert (mix_shared_secret_into_key c (fst static) client_eph nh) of
               (Ok ct, nh) \<Rightarrow>
                 Some (\<lparr>sh_ephemeral = Some (snd eph), sh_static = Some st, sh_payload = Some ct\<rparr>, nh)
             | _ \<Rightarrow> None)
        | _ \<Rightarrow> None)"

definition respond_finish ::
  "crypto \<Rightarrow> bytes \<times> bytes \<Rightarrow> bytes \<Rightarrow> bytes \<Rightarrow> noise_handshake \<Rightarrow>
    (bytes \<times> bytes \<times> noise_cipher \<times> noise_cipher) option" where
  "respond_finish c eph st pl nh =
    (case hs_decrypt c st nh of
       (Ok client_static, nh) \<Rightarrow>
         (case hs_decrypt c pl (mix_shared_secret_into_key c (fst eph) client_static nh) of
            (Ok payload, nh) \<Rightarrow> Some (client_static, payload, finish c nh)
          | _ \<Rightarrow> None)
     | _ \<Rightarrow> None)"

lemma send_handshake_frame_Ok:
  assumes "length p < FRAME_MAX_SIZE" "0 < accepts w"
  shows "send_handshake_frame p h w =
    (Ok (), w\<lparr>accepts := accepts w - 1,
      sent := sent w @ [(case h of Some x \<Rightarrow> x | None \<Rightarrow> []) @ frame_bytes p]\<rparr>)"
  using assms by (simp add: send_handshake_frame_def encode_frame_Ok frame_bytes_def ws_send_def)

lemma hs_step_Ok: "r = (Ok x, nh) \<Longrightarrow> hs_step r w = (Ok (x, nh), w)"
  by (simp add: hs_step_def slift_def)

text \<open>The run with an honest responder, whose finish may be too large.\<close>

lemma handshake_run:
  assumes c: "aead_sound c" "gcm_total c"
    and dh: "dh_agrees c ceph seph" "dh_agrees c ceph sstatic" "dh_agrees c cstatic seph"
    and keys: "length (snd seph) = 32" "length (snd sstatic) = 32"
    and hello: "respond_hello c seph sstatic cert (snd ceph) = Some (sh, snh)"
      "dec_server_hello pb msg = Some (Some sh)" "length msg < FRAME_MAX_SIZE"
    and net: "plain (incoming w)" "binaries (incoming w) = frame_bytes msg @ rest"
      "length (incoming w) \<le> deadline" "accepts w = 2"
    and cert: "verify cert (snd sstatic) = Ok ()"
    and fits: "length (enc_client_hello pb (snd ceph)) < FRAME_MAX_SIZE"
  shows "case do_handshake c pb verify deadline (fst ceph) (snd ceph) (fst cstatic) (snd cstatic) payload w of
      (Ok ciphers, w') \<Rightarrow> \<exists>st pl.
        sent w' = sent w @ [WA_CONN_HEADER @ frame_bytes (enc_client_hello pb (snd ceph)),
                            frame_bytes (enc_client_finish pb st pl)] \<and>
        respond_finish c seph st pl snh = Some (snd cstatic, payload, ciphers)
    | (Err e, w') \<Rightarrow> \<exists>st pl. FRAME_MAX_SIZE \<le> length (enc_client_finish pb st pl) \<and>
        e = HsFrame (FrameTooLarge (length (enc_client_finish pb st pl)))
    | (Panic, w') \<Rightarrow> False"
proof -
  let ?nh0 = "authenticate c (snd ceph) (start c NOISE_START_PATTERN WA_CONN_HEADER)"
  let ?nh1 = "mix_shared_secret_into_key c (fst seph) (snd ceph) (authenticate c (snd seph) ?nh0)"
  from hello(1) obtain st nh2 ct where e1: "hs_encrypt c (snd sstatic) ?nh1 = (Ok st, nh2)"
    and e2: "hs_encrypt c cert (mix_shared_secret_into_key c (fst sstatic) (snd ceph) nh2) = (Ok ct, snh)"
    and sh: "sh = \<lparr>sh_ephemeral = Some (snd seph), sh_static = Some st, sh_payload = Some ct\<rparr>"
    by (auto simp: respond_hello_def Let_def split: prod.splits outcome.splits)
  have mix: "mix_shared_secret_into_key c (fst ceph) (snd seph) (authenticate c (snd seph) ?nh0) = ?nh1"
    "mix_shared_secret_into_key c (fst ceph) (snd sstatic) nh2
       = mix_shared_secret_into_key c (fst sstatic) (snd ceph) nh2"
    "mix_shared_secret_into_key c (fst cstatic) (snd seph) nh
       = mix_shared_secret_into_key c (fst seph) (snd cstatic) nh" for nh
    using dh by (simp_all add: mix_shared_secret_into_key_def dh_agrees_def)
  have snh: "counter snh = 1" using hs_encrypt_counter [OF e2] by simp
  then have "counter snh \<noteq> - 1" by simp
  from hs_encrypt_total [OF c(2) this] obtain est nh5 where
    e3: "hs_encrypt c (snd cstatic) snh = (Ok est, nh5)" by blast
  let ?nh6 = "mix_shared_secret_into_key c (fst seph) (snd cstatic) nh5"
  from hs_encrypt_total [OF c(2), of ?nh6] obtain epl nh7 where
    e4: "hs_encrypt c payload ?nh6 = (Ok epl, nh7)" by fastforce
  let ?w1 = "w\<lparr>accepts := 1, sent := sent w @ [WA_CONN_HEADER @ frame_bytes (enc_client_hello pb (snd ceph))]\<rparr>"
  have s1: "send_handshake_frame (enc_client_hello pb (snd ceph)) (Some WA_CONN_HEADER) w = (Ok (), ?w1)"
    using send_handshake_frame_Ok [OF fits, of w "Some WA_CONN_HEADER"] net(4) by simp
  have nf: "frame_step (fbuf new_decoder) = None" by (simp add: new_decoder_def frame_step_short)
  then have nf': "next_frame new_decoder = (None, new_decoder)" by (simp add: next_frame_step)
  from handshake_loop_delivers [OF hello(3) net(1) _ nf net(3), of rest] net(2)
  obtain items d where "handshake_loop deadline (incoming w) new_decoder = (Ok msg, items, d)"
    by (auto simp: arriving_def new_decoder_def)
  then have s2: "recv_handshake_frame deadline new_decoder ?w1 = (Ok msg, ?w1\<lparr>incoming := items\<rparr>)"
    by (simp add: recv_handshake_frame_def nf')
  let ?w2 = "?w1\<lparr>incoming := items\<rparr>"
  have b1: "sbind (send_handshake_frame (enc_client_hello pb (snd ceph)) (Some WA_CONN_HEADER)) k w = k () ?w1" for k
    using s1 by (rule sbind_Ok)
  have b2: "sbind (recv_handshake_frame deadline new_decoder) k ?w1 = k msg ?w2" for k
    using s2 by (rule sbind_Ok)
  have b3: "sbind (hs_step r) k v = k (x, nh) v" if "r = (Ok x, nh)" for r k x nh v
    using hs_step_Ok [OF that] by (rule sbind_Ok)
  have run: "do_handshake c pb verify deadline (fst ceph) (snd ceph) (fst cstatic) (snd cstatic) payload w
      = sbind (send_handshake_frame (enc_client_finish pb est epl) None) (\<lambda>_. slift (Ok (finish c nh7))) ?w2"
    unfolding do_handshake_def Let_def b1 b2
    by (simp add: hello(2) sh keys guard_err_def mix cert
        b3 [OF hs_decrypt_sent [OF c(1) e1]] b3 [OF hs_decrypt_sent [OF c(1) e2]] b3 [OF e3] b3 [OF e4])
  show ?thesis
  proof (cases "length (enc_client_finish pb est epl) < FRAME_MAX_SIZE")
    case True
    have "respond_finish c seph est epl snh = Some (snd cstatic, payload, finish c nh7)"
      using hs_decrypt_sent [OF c(1) e3] hs_decrypt_sent [OF c(1) e4] by (simp add: respond_finish_def)
    moreover have "send_handshake_frame (enc_client_finish pb est epl) None ?w2
        = (Ok (), ?w2\<lparr>accepts := 0, sent := sent ?w2 @ [frame_bytes (enc_client_finish pb est epl)]\<rparr>)"
      using send_handshake_frame_Ok [OF True, of ?w2 None] by simp
    ultimately show ?thesis unfolding run by (simp add: sbind_Ok slift_def) blast
  next
    case False
    then show ?thesis unfolding run
      by (simp add: send_handshake_frame_def sbind_def slift_def encode_frame_def)
        (rule exI [of _ est], rule exI [of _ epl], simp)
  qed
qed

text \<open>C2: with an honest responder, the client's handshake succeeds (unless its payload does not
  fit a frame), having sent the hello behind the connection header and the finish; from them
  the responder recovers the client's static key and payload, and both derive the same pair of
  ciphers, the client's write cipher being the responder's read cipher.\<close>

theorem handshake_agreement:
  assumes c: "aead_sound c" "gcm_total c"
    and dh: "dh_agrees c ceph seph" "dh_agrees c ceph sstatic" "dh_agrees c cstatic seph"
    and keys: "length (snd seph) = 32" "length (snd sstatic) = 32"
    and hello: "respond_hello c seph sstatic cert (snd ceph) = Some (sh, snh)"
      "dec_server_hello pb msg = Some (Some sh)" "length msg < FRAME_MAX_SIZE"
    and net: "plain (incoming w)" "binaries (incoming w) = frame_bytes msg @ rest"
      "length (incoming w) \<le> deadline" "accepts w = 2"
    and cert: "verify cert (snd sstatic) = Ok ()"
    and fits: "length (enc_client_hello pb (snd ceph)) < FRAME_MAX_SIZE"
  shows "case do_handshake c pb verify deadline (fst ceph) (snd ceph) (fst cstatic) (snd cstatic) payload w of
      (Ok ciphers, w') \<Rightarrow> \<exists>st pl.
        sent w' = sent w @ [WA_CONN_HEADER @ frame_bytes (enc_client_hello pb (snd ceph)),
                            frame_bytes (enc_client_finish pb st pl)] \<and>
        respond_finish c seph st pl snh = Some (snd cstatic, payload, ciphers)
    | (Err e, w') \<Rightarrow> \<exists>k \<ge> FRAME_MAX_SIZE. e = HsFrame (FrameTooLarge k)
    | (Panic, w') \<Rightarrow> False"
proof -
  note handshake_run [where verify = verify and payload = payload, OF c dh keys hello net cert fits]
  then show ?thesis by (auto split: prod.splits outcome.splits)
qed

text \<open>A concrete handshake and a concrete node for the hypotheses.\<close>

definition toy_keys :: "bytes \<times> bytes" where
  "toy_keys = (replicate 32 1, replicate 32 1)"

lemma toy_total: "gcm_total toy_crypto"
  by (simp add: gcm_total_def toy_crypto_def)

definition toy_codec :: "server_hello \<Rightarrow> handshake_codec" where
  "toy_codec sh =
    \<lparr>enc_client_hello = (\<lambda>e. e), enc_client_finish = (@), dec_server_hello = (\<lambda>m. Some (Some sh))\<rparr>"

definition toy_net :: ws_io where
  "toy_net = \<lparr>incoming = [WsMsg WsOther, WsMsg (WsBinary (frame_bytes [8]))], accepts = 2, sent = []\<rparr>"

lemma toy_hello:
  "\<exists>sh snh. respond_hello toy_crypto toy_keys toy_keys [3] (snd toy_keys) = Some (sh, snh)"
proof -
  have enc: "\<exists>ct nh'. hs_encrypt toy_crypto m (mix_shared_secret_into_key toy_crypto a b nh) = (Ok ct, nh')"
    for m a b nh
    using hs_encrypt_total [OF toy_total, of "mix_shared_secret_into_key toy_crypto a b nh" m] by auto
  define nh where "nh = authenticate toy_crypto (snd toy_keys)
    (authenticate toy_crypto (snd toy_keys) (start toy_crypto NOISE_START_PATTERN WA_CONN_HEADER))"
  obtain st nh1 where 1: "hs_encrypt toy_crypto (snd toy_keys)
      (mix_shared_secret_into_key toy_crypto (fst toy_keys) (snd toy_keys) nh) = (Ok st, nh1)"
    using enc by blast
  obtain ct nh2 where 2: "hs_encrypt toy_crypto [3]
      (mix_shared_secret_into_key toy_crypto (fst toy_keys) (snd toy_keys) nh1) = (Ok ct, nh2)"
    using enc by blast
  show ?thesis
    unfolding respond_hello_def Let_def nh_def [symmetric] 1 prod.case outcome.case 2 by blast
qed

theorem handshake_agreement_witness:
  "\<exists>sh snh. respond_hello toy_crypto toy_keys toy_keys [3] (snd toy_keys) = Some (sh, snh) \<and>
    (case do_handshake toy_crypto (toy_codec sh) (\<lambda>_ _. Ok ()) 2
        (fst toy_keys) (snd toy_keys) (fst toy_keys) (snd toy_keys) [9] toy_net of
      (Ok ciphers, w') \<Rightarrow> \<exists>st pl.
        sent w' = sent toy_net @ [WA_CONN_HEADER @ frame_bytes (enc_client_hello (toy_codec sh) (snd toy_keys)),
                            frame_bytes (enc_client_finish (toy_codec sh) st pl)] \<and>
        respond_finish toy_crypto toy_keys st pl snh = Some (snd toy_keys, [9], ciphers)
    | (Err e, w') \<Rightarrow> \<exists>k \<ge> FRAME_MAX_SIZE. e = HsFrame (FrameTooLarge k)
    | (Panic, w') \<Rightarrow> False)"
proof -
  obtain sh snh where hello: "respond_hello toy_crypto toy_keys toy_keys [3] (snd toy_keys) = Some (sh, snh)"
    using toy_hello by blast
  have dh: "dh_agrees toy_crypto toy_keys toy_keys" by (simp add: dh_agrees_def)
  have k: "length (snd toy_keys) = 32" by (simp add: toy_keys_def)
  then have e: "length (enc_client_hello (toy_codec sh) (snd toy_keys)) < FRAME_MAX_SIZE"
    by (simp add: toy_codec_def FRAME_MAX_SIZE_def)
  have m: "dec_server_hello (toy_codec sh) [8] = Some (Some sh)" "length [8 :: u8] < FRAME_MAX_SIZE"
    by (simp_all add: toy_codec_def FRAME_MAX_SIZE_def)
  have n: "plain (incoming toy_net)" "binaries (incoming toy_net) = frame_bytes [8] @ []"
    "length (incoming toy_net) \<le> 2" "accepts toy_net = 2"
    by (simp_all add: toy_net_def)
  show ?thesis
    by (intro exI conjI, rule hello,
        rule handshake_agreement [OF toy_sound toy_total dh dh dh k k hello m n _ e]) simp
qed

lemma ping_bytes:
  obtains b where "pack (Node ''ping'' [] CNone) = Ok b" "length b \<le> 20"
proof -
  obtain t where t: "write_string ''ping'' = Ok t"
    using write_string_Ok [of "''ping''"] by (auto simp: fits_string_def)
  have "pack (Node ''ping'' [] CNone) = Ok (0 # [LIST_8, 1] @ t)"
    by (simp add: pack_def node_list_size_def write_list_start_def t)
  moreover have "length (0 # [LIST_8, 1] @ t) \<le> 20" using write_string_length [OF t] by simp
  ultimately show ?thesis by (rule that)
qed

section \<open>Properties\<close>

text \<open>C9: end to end, the nodes one socket sends arrive at the socket that holds the matching
  cipher, in order, complete and in canonical form, whatever web-socket messages the frames
  are cut into or glued together by, and the two ciphers stay in step.\<close>

theorem nodes_delivered:
  assumes "aead_sound c" "list_all wf_node ns"
    and "send_nodes c ns (new_socket w wc rc) = (Some us, s')" "sent w = []"
    and "plain (incoming v)" "binaries (incoming v) = concat (sent (ws s'))"
  shows "\<exists>r'. recv_nodes c inflate (length ns) (new_socket v rc wc) = (Some (map canon_node ns), r') \<and>
    read_cipher r' = write_cipher s'"
proof -
  have "cipher_in_step c (write_cipher (new_socket w wc rc)) (read_cipher (new_socket v rc wc))"
    using assms(1) by (simp add: cipher_in_step_def new_socket_def)
  moreover have "plain (incoming (ws (new_socket v rc wc)))" using assms(5) by (simp add: new_socket_def)
  moreover have "sent (ws s') = sent (ws (new_socket w wc rc)) @ sent (ws s')"
    using assms(4) by (simp add: new_socket_def)
  moreover have "arriving (sdecoder (new_socket v rc wc)) (incoming (ws (new_socket v rc wc)))
      = concat (sent (ws s')) @ []"
    using assms(6) by (simp add: new_socket_def arriving_def new_decoder_def)
  ultimately show ?thesis
    using socket_delivers [OF assms(3,2)] by (fastforce simp: cipher_in_step_def)
qed

theorem nodes_delivered_witness:
  "\<exists>s' v r'. recv_nodes toy_crypto (\<lambda>_. None) 1 (new_socket v (new_cipher [2]) (new_cipher [1])) =
      (Some [Node ''ping'' [] CNone], r') \<and> read_cipher r' = write_cipher (s' :: noise_socket)"
proof -
  let ?w = "\<lparr>incoming = [], accepts = 1, sent = []\<rparr>"
  let ?s = "new_socket ?w (new_cipher [1]) (new_cipher [2])"
  obtain b where b: "pack (Node ''ping'' [] CNone) = Ok b" "length b \<le> 20" by (rule ping_bytes)
  let ?ct = "1 # counter_iv 0 @ b"
  have f: "encode_frame ?ct None = Ok (frame_bytes ?ct)"
    using b(2) by (simp add: encode_frame_Ok frame_bytes_def FRAME_MAX_SIZE_def length_counter_iv)
  have "encrypt_node toy_crypto (Node ''ping'' [] CNone) (new_cipher [1])
      = (Ok ?ct, \<lparr>ckey = [1], ccounter = 1\<rparr>)"
    by (simp add: encrypt_node_def b cipher_encrypt_def new_cipher_def next_counter_def toy_crypto_def)
  then obtain s' where s': "send_node toy_crypto (Node ''ping'' [] CNone) ?s = (Ok (), s')"
    "sent (ws s') = [frame_bytes ?ct]"
    by (simp add: send_node_def new_socket_def f ws_send_def)
  then have run: "send_nodes toy_crypto [Node ''ping'' [] CNone] ?s = (Some [()], s')"
    by (simp add: send_nodes_def)
  let ?v = "\<lparr>incoming = [WsMsg (WsBinary (frame_bytes ?ct))], accepts = 0, sent = []\<rparr>"
  have "wf_node (Node ''ping'' [] CNone)"
    by (simp add: wf_attrs_def rust_string_ascii ascii_char_def)
  with nodes_delivered [OF toy_sound _ run, of ?v "\<lambda>_. None"] s'(2) show ?thesis
    by (fastforce simp: canon_attrs_def)
qed

text \<open>A failed send puts nothing on the wire, but unless encoding failed it has used up a
  nonce: after an oversized node (or a failed write) the write cipher is one ahead of the peer.\<close>

theorem send_node_failure:
  assumes "send_node c n s = (Err e, s')"
  shows "sent (ws s') = sent (ws s) \<and>
    (if \<exists>x. e = SockNode (EncodeFailed x) then s' = s
     else next_counter (ccounter (write_cipher s)) = Some (ccounter (write_cipher s')))"
proof -
  have enc: "next_counter (ccounter nc) = Some (ccounter nc')"
    if "cipher_encrypt c p nc = (r, nc')" "r \<noteq> Panic" for p nc r nc'
    using that by (auto simp: cipher_encrypt_def Let_def split: option.splits)
  from assms show ?thesis
    by (auto simp: send_node_def encrypt_node_def ws_send_def Let_def dest!: enc
        split: outcome.splits prod.splits if_splits)
qed

theorem send_node_failure_witness:
  "\<exists>s'. send_node toy_crypto (Node ''0'' [] CNone)
      (new_socket \<lparr>incoming = [], accepts = 0, sent = []\<rparr> (new_cipher [1]) (new_cipher [2])) = (Err SockWs, s') \<and>
    sent (ws s') = [] \<and> next_counter 0 = Some (ccounter (write_cipher s'))"
proof -
  let ?s = "new_socket \<lparr>incoming = [], accepts = 0, sent = []\<rparr> (new_cipher [1]) (new_cipher [2])"
  have "\<exists>s'. send_node toy_crypto (Node ''0'' [] CNone) ?s = (Err SockWs, s')"
    by (simp add: send_node_def encrypt_node_def pack_def cipher_encrypt_def new_cipher_def new_socket_def
        next_counter_def toy_crypto_def encode_frame_def FRAME_MAX_SIZE_def length_counter_iv Let_def ws_send_def)
  then obtain s' where s': "send_node toy_crypto (Node ''0'' [] CNone) ?s = (Err SockWs, s')" by blast
  from send_node_failure [OF s'] s' show ?thesis by (simp add: new_socket_def new_cipher_def)
qed

definition in_window :: "u64 \<Rightarrow> cert_details \<Rightarrow> bool" where
  "in_window now d \<longleftrightarrow>
    (\<forall>nb. not_before d = Some nb \<longrightarrow> nb \<le> now) \<and> (\<forall>na. not_after d = Some na \<longrightarrow> now \<le> na)"

lemma check_cert_window_Ok: "check_cert_window now d = Ok u \<longleftrightarrow> in_window now d"
  by (auto simp: check_cert_window_def in_window_def not_less split: option.splits)

lemma key32_Some: "key32 k = Some x \<longleftrightarrow> k = Some x \<and> length x = 32"
  by (auto simp: key32_def split: option.splits)

text \<open>A chain of certificates that vouches for a static key: WhatsApp's root key signed the intermediate, whose issuer
  serial is the root's, the intermediate's key signed the leaf, whose issuer serial is the intermediate's,
  the leaf's key is the static key, and the clock is inside both validity windows.\<close>

definition root_certifies ::
  "cert_codec \<Rightarrow> (bytes \<Rightarrow> bytes \<Rightarrow> bytes \<Rightarrow> bool) \<Rightarrow> u64 \<Rightarrow> bytes \<Rightarrow> bytes \<Rightarrow> bool" where
  "root_certifies pb xv now cert static_pub \<longleftrightarrow>
    (\<exists>chain i l i_raw i_sig l_raw l_sig i_d l_d k.
      decode_chain pb cert = Some chain \<and> intermediate chain = Some i \<and> leaf chain = Some l \<and>
      details i = Some i_raw \<and> signature i = Some i_sig \<and> length i_sig = 64 \<and>
      details l = Some l_raw \<and> signature l = Some l_sig \<and> length l_sig = 64 \<and>
      xv WA_CERT_ROOT_PUB_KEY i_raw i_sig \<and> decode_details pb i_raw = Some i_d \<and>
      or_default (- 1) (issuer_serial i_d) = WA_CERT_ROOT_ISSUER_SERIAL \<and>
      cert_key i_d = Some k \<and> length k = 32 \<and> xv k l_raw l_sig \<and>
      decode_details pb l_raw = Some l_d \<and>
      or_default (- 1) (issuer_serial l_d) = or_default 0 (serial i_d) \<and>
      cert_key l_d = Some static_pub \<and> length static_pub = 32 \<and>
      in_window now i_d \<and> in_window now l_d)"

text \<open>The certificate check accepts exactly those.\<close>

theorem verify_server_cert_exact:
  "verify_server_cert pb xv now cert static_pub = Ok () \<longleftrightarrow> root_certifies pb xv now cert static_pub"
  unfolding verify_server_cert_def root_certifies_def
  by (simp add: obind_eq_Ok check_cert_window_Ok key32_Some) blast

text \<open>\<open>guarded G m\<close>: unless \<open>G\<close>, \<open>m\<close> fails and sends nothing.\<close>

definition guarded :: "bool \<Rightarrow> (ws_io \<Rightarrow> (handshake_error, 'a) outcome \<times> ws_io) \<Rightarrow> bool" where
  "guarded G m \<longleftrightarrow> (\<forall>w r w'. m w = (r, w') \<longrightarrow> G \<or> (\<nexists>x. r = Ok x) \<and> sent w' = sent w)"

lemma guarded_holds: "G \<Longrightarrow> guarded G m"
  by (simp add: guarded_def)

lemma guarded_sbind:
  assumes "\<And>w r w'. m w = (r, w') \<Longrightarrow> sent w' = sent w"
    and "\<And>x w w'. m w = (Ok x, w') \<Longrightarrow> guarded G (k x)"
  shows "guarded G (sbind m k)"
  unfolding guarded_def
proof (intro allI impI)
  fix w r w'
  assume *: "sbind m k w = (r, w')"
  obtain r1 w1 where m: "m w = (r1, w1)" by fastforce
  note sent = assms(1) [OF m]
  show "G \<or> (\<nexists>x. r = Ok x) \<and> sent w' = sent w"
  proof (cases r1)
    case (Ok x)
    with m * assms(2) sent show ?thesis by (fastforce simp: guarded_def sbind_def)
  qed (use m * sent in \<open>auto simp: sbind_def\<close>)
qed

lemma guarded_slift: "(\<And>x. q = Ok x \<Longrightarrow> guarded G (k x)) \<Longrightarrow> guarded G (sbind (slift q) k)"
  by (rule guarded_sbind) (auto simp: slift_def)

lemma guarded_hs:
  "(\<And>x nh. q = (Ok x, nh) \<Longrightarrow> guarded G (k (x, nh))) \<Longrightarrow> guarded G (sbind (hs_step q) k)"
  by (rule guarded_sbind) (auto simp: slift_def hs_step_def split: prod.splits outcome.splits)

text \<open>The first frame of what comes in, within the messages of the deadline and before the stream breaks.\<close>

definition received_frame :: "nat \<Rightarrow> ws_item list \<Rightarrow> bytes \<Rightarrow> bool" where
  "received_frame deadline items f \<longleftrightarrow>
    (\<exists>read unread rest. items = read @ unread \<and> plain read \<and> length read \<le> deadline \<and>
      binaries read = frame_bytes f @ rest \<and> length f < FRAME_MAX_SIZE)"

lemma handshake_loop_receives:
  "handshake_loop k items d = (Ok f, items', d') \<Longrightarrow>
    \<exists>read unread rest. items = read @ unread \<and> plain read \<and> length read \<le> k \<and>
      fbuf d @ binaries read = frame_bytes f @ rest \<and> length f < FRAME_MAX_SIZE"
proof (induction items arbitrary: k d)
  case Nil
  then show ?case by (simp add: handshake_loop.simps)
next
  case (Cons item items)
  then obtain j where k: "k = Suc j" by (cases k) (simp_all add: handshake_loop.simps [of 0])
  have more: ?case if "handshake_loop j items d1 = (Ok f, items', d')" "fbuf d1 = fbuf d @ binaries [item]" "plain [item]" for d1
  proof -
    from Cons.IH [OF that(1)] obtain read unread rest where r: "items = read @ unread" "plain read" "length read \<le> j"
      "fbuf d1 @ binaries read = frame_bytes f @ rest" "length f < FRAME_MAX_SIZE" by blast
    then show ?thesis using that(2,3)
      by (intro exI [of _ "item # read"] exI [of _ unread] exI [of _ rest]) (simp add: k plain_def binaries_def)
  qed
  show ?case
  proof (cases item)
    case (WsMsg m)
    show ?thesis
    proof (cases m)
      case (WsBinary b)
      show ?thesis
      proof (cases "next_frame (feed b d)")
        case (Pair o1 d1)
        show ?thesis
        proof (cases o1)
          case None
          with Pair have "handshake_loop j items d1 = (Ok f, items', d')"
            using Cons.prems by (simp add: k WsMsg WsBinary handshake_loop.simps [of "Suc j"])
          moreover have "d1 = feed b d" using Pair None next_frame_step(1) [of "feed b d" d1] by simp
          ultimately show ?thesis by (intro more [of d1]) (simp_all add: WsMsg WsBinary)
        next
          case (Some g)
          then have "g = f" using Pair Cons.prems by (simp add: k WsMsg WsBinary handshake_loop.simps [of "Suc j"])
          then have "frame_step (fbuf d @ b) = Some (f, fbuf d1)" using Pair Some next_frame_step(2) [of "feed b d"] by simp
          from frame_step_sound [OF this] show ?thesis
            by (intro exI [of _ "[item]"] exI [of _ items] exI [of _ "fbuf d1"]) (simp add: k WsMsg WsBinary)
        qed
      qed
    next
      case WsOther
      then have "handshake_loop j items d = (Ok f, items', d')"
        using Cons.prems by (simp add: k WsMsg handshake_loop.simps [of "Suc j"])
      then show ?thesis by (intro more [of d]) (simp_all add: WsMsg WsOther)
    qed (use Cons.prems in \<open>simp add: k WsMsg handshake_loop.simps [of "Suc j"]\<close>)
  qed (use Cons.prems in \<open>simp add: k handshake_loop.simps [of "Suc j"]\<close>)
qed

lemma recv_handshake_frame_receives:
  assumes "recv_handshake_frame deadline new_decoder w = (Ok f, w')"
  shows "received_frame deadline (incoming w) f"
proof -
  have "next_frame new_decoder = (None, new_decoder)" by (simp add: next_frame_step new_decoder_def frame_step_short)
  with assms obtain items d where "handshake_loop deadline (incoming w) new_decoder = (Ok f, items, d)"
    by (auto simp: recv_handshake_frame_def split: prod.splits)
  from handshake_loop_receives [OF this] show ?thesis by (simp add: received_frame_def new_decoder_def)
qed

lemma recv_handshake_frame_sent: "recv_handshake_frame deadline d w = (r, w') \<Longrightarrow> sent w' = sent w"
  by (auto simp: recv_handshake_frame_def split: prod.splits option.splits)

lemma send_handshake_frame_sent:
  assumes "send_handshake_frame p (Some h) w = (r, w')"
  shows "sent w' = sent w \<or> sent w' = sent w @ [h @ frame_bytes p]" "incoming w' = incoming w"
  using assms by (auto simp: send_handshake_frame_def sbind_def slift_def encode_frame_def frame_bytes_def
      ws_send_def Let_def split: if_splits)

text \<open>What a server hello proves: sent in the clear its ephemeral key, it decrypts, under the keys agreed with that, to a static
  key, and under the keys agreed with both, to a certificate that was accepted for the static key.\<close>

definition server_verified ::
  "crypto \<Rightarrow> handshake_codec \<Rightarrow> bytes \<Rightarrow> bytes \<Rightarrow> (bytes \<Rightarrow> bytes \<Rightarrow> bool) \<Rightarrow> bytes \<Rightarrow> bool" where
  "server_verified c pb eph_priv eph_pub trusted resp \<longleftrightarrow>
    (\<exists>se st ct ss nh2 cert nh3.
      dec_server_hello pb resp = Some (Some \<lparr>sh_ephemeral = Some se, sh_static = Some st, sh_payload = Some ct\<rparr>) \<and>
      length se = 32 \<and>
      hs_decrypt c st (mix_shared_secret_into_key c eph_priv se (authenticate c se
        (authenticate c eph_pub (start c NOISE_START_PATTERN WA_CONN_HEADER)))) = (Ok ss, nh2) \<and>
      length ss = 32 \<and>
      hs_decrypt c ct (mix_shared_secret_into_key c eph_priv ss nh2) = (Ok cert, nh3) \<and>
      trusted cert ss)"

lemma ok_or_Ok: "ok_or x e = Ok y \<Longrightarrow> x = Some y"
  by (cases x) simp_all

lemma sbind_run: "sbind m k w = (r, w') \<Longrightarrow> m w = (Ok x, w1) \<Longrightarrow> k x w1 = (r, w')"
  by (simp add: sbind_def)

lemma guarded_run: "sbind m k w = (r, w') \<Longrightarrow> guarded G (sbind m k) \<Longrightarrow> G \<or> (\<nexists>x. r = Ok x) \<and> sent w' = sent w"
  by (simp add: guarded_def)

lemma server_verifiedI:
  assumes "dec_server_hello pb resp = Some (Some sh)"
    and "sh_ephemeral sh = Some se" "sh_static sh = Some st" "sh_payload sh = Some ct" "length se = 32"
    and "hs_decrypt c st (mix_shared_secret_into_key c eph_priv se (authenticate c se
        (authenticate c eph_pub (start c NOISE_START_PATTERN WA_CONN_HEADER)))) = (Ok ss, nh2)" "length ss = 32"
    and "hs_decrypt c ct (mix_shared_secret_into_key c eph_priv ss nh2) = (Ok cert, nh3)" "trusted cert ss"
  shows "server_verified c pb eph_priv eph_pub trusted resp"
  using assms unfolding server_verified_def by (cases sh) auto

text \<open>C10: The client says who it is only to a server whose certificate checked out. If the handshake succeeds, or anything
  but the anonymous hello is sent, then the first frame that came in is a server hello whose static key and
  certificate decrypt under the keys of this very handshake, and WhatsApp's root key certifies that static key.\<close>

theorem identity_only_to_verified_server:
  assumes "do_handshake c pb (verify_server_cert cpb xv now) deadline eph_priv eph_pub static_priv static_pub payload w = (r, w')"
    and "(\<exists>ciphers. r = Ok ciphers) \<or>
      sent w' \<notin> {sent w, sent w @ [WA_CONN_HEADER @ frame_bytes (enc_client_hello pb eph_pub)]}"
  shows "\<exists>resp. received_frame deadline (incoming w) resp \<and>
    server_verified c pb eph_priv eph_pub (root_certifies cpb xv now) resp"
proof -
  let ?V = "server_verified c pb eph_priv eph_pub (\<lambda>cert ss. verify_server_cert cpb xv now cert ss = Ok ())"
  note run = assms(1) [unfolded do_handshake_def Let_def]
  obtain r1 w1 where hello: "send_handshake_frame (enc_client_hello pb eph_pub) (Some WA_CONN_HEADER) w = (r1, w1)" by fastforce
  note s1 = send_handshake_frame_sent [OF hello]
  obtain u where "r1 = Ok u" using run hello s1(1) assms(2) by (cases r1) (auto simp: sbind_def)
  note run = sbind_run [OF run, OF hello [unfolded this]]
  obtain r2 w2 where recv: "recv_handshake_frame deadline new_decoder w1 = (r2, w2)" by fastforce
  note s2 = recv_handshake_frame_sent [OF recv]
  obtain resp where ok: "r2 = Ok resp" using run recv s1(1) s2 assms(2) by (cases r2) (auto simp: sbind_def)
  have "received_frame deadline (incoming w) resp"
    using recv_handshake_frame_receives [OF recv [unfolded ok]] s1(2) by simp
  note run = sbind_run [OF run, OF recv [unfolded ok]]
  have "?V resp \<or> (\<nexists>x. r = Ok x) \<and> sent w' = sent w2"
  proof (rule guarded_run [OF run], (rule guarded_slift)+, rule guarded_hs, unfold prod.case, rule guarded_slift,
      rule guarded_hs, unfold prod.case, rule guarded_slift, rule guarded_holds)
  qed (auto simp: guard_err_eq_Ok map_err_eq_Ok dest!: ok_or_Ok intro: server_verifiedI)
  with assms(2) s1(1) s2 have "?V resp" by auto
  then show ?thesis using \<open>received_frame deadline (incoming w) resp\<close> by (auto simp: verify_server_cert_exact)
qed

definition toy_certs :: cert_codec where
  "toy_certs =
    \<lparr>decode_chain = (\<lambda>b. if b = [3] then
        Some \<lparr>intermediate = Some \<lparr>details = Some [1], signature = Some (replicate 64 1)\<rparr>,
              leaf = Some \<lparr>details = Some [2], signature = Some (replicate 64 2)\<rparr>\<rparr> else None),
     decode_details = (\<lambda>b. if b = [1]
        then Some \<lparr>serial = Some 5, issuer_serial = Some 0, cert_key = Some (replicate 32 7), not_before = Some 10, not_after = Some 20\<rparr>
        else Some \<lparr>serial = Some 6, issuer_serial = Some 5, cert_key = Some (replicate 32 1), not_before = None, not_after = Some 30\<rparr>)\<rparr>"

definition toy_xv :: "bytes \<Rightarrow> bytes \<Rightarrow> bytes \<Rightarrow> bool" where
  "toy_xv k m sig \<longleftrightarrow>
    (k = WA_CERT_ROOT_PUB_KEY \<and> m = [1] \<and> sig = replicate 64 1) \<or> (k = replicate 32 7 \<and> m = [2] \<and> sig = replicate 64 2)"

lemma toy_certified: "verify_server_cert toy_certs toy_xv 15 [3] (replicate 32 1) = Ok ()"
  by (simp add: verify_server_cert_def toy_certs_def toy_xv_def check_cert_window_def or_default_def key32_def
      guard_err_def WA_CERT_ROOT_ISSUER_SERIAL_def)

theorem identity_only_to_verified_server_witness:
  "\<exists>pb ciphers w'. do_handshake toy_crypto pb (verify_server_cert toy_certs toy_xv 15) 2
      (fst toy_keys) (snd toy_keys) (fst toy_keys) (snd toy_keys) [9] toy_net = (Ok ciphers, w') \<and>
    (\<exists>resp. received_frame 2 (incoming toy_net) resp \<and>
      server_verified toy_crypto pb (fst toy_keys) (snd toy_keys) (root_certifies toy_certs toy_xv 15) resp)"
proof -
  obtain sh snh where hello: "respond_hello toy_crypto toy_keys toy_keys [3] (snd toy_keys) = Some (sh, snh)"
    using toy_hello by blast
  let ?pb = "toy_codec sh\<lparr>enc_client_finish := (\<lambda>_ _. [])\<rparr>"
  let ?run = "do_handshake toy_crypto ?pb (verify_server_cert toy_certs toy_xv 15) 2
      (fst toy_keys) (snd toy_keys) (fst toy_keys) (snd toy_keys) [9] toy_net"
  have dh: "dh_agrees toy_crypto toy_keys toy_keys" by (simp add: dh_agrees_def)
  have k: "length (snd toy_keys) = 32" by (simp add: toy_keys_def)
  then have e: "length (enc_client_hello ?pb (snd toy_keys)) < FRAME_MAX_SIZE"
    by (simp add: toy_codec_def FRAME_MAX_SIZE_def)
  have m: "dec_server_hello ?pb [8] = Some (Some sh)" "length [8 :: u8] < FRAME_MAX_SIZE"
    by (simp_all add: toy_codec_def FRAME_MAX_SIZE_def)
  have n: "plain (incoming toy_net)" "binaries (incoming toy_net) = frame_bytes [8] @ []"
    "length (incoming toy_net) \<le> 2" "accepts toy_net = 2"
    by (simp_all add: toy_net_def)
  have v: "verify_server_cert toy_certs toy_xv 15 [3] (snd toy_keys) = Ok ()"
    using toy_certified by (simp add: toy_keys_def)
  have "\<exists>ciphers w'. ?run = (Ok ciphers, w')"
    using handshake_run [where payload = "[9]" and verify = "verify_server_cert toy_certs toy_xv 15" and pb = ?pb, OF toy_sound toy_total dh dh dh k k hello m n v e]
    by (auto simp: FRAME_MAX_SIZE_def split: prod.splits outcome.splits)
  then obtain ciphers w' where run: "?run = (Ok ciphers, w')" by blast
  from identity_only_to_verified_server [OF run] run show ?thesis by blast
qed

end
