(* ===== verification/Proxy.thy ===== *)
theory Proxy
  imports Ruwa_Prelude
begin

text \<open>
  The proxy URL of a session, \<open>Proxy::parse\<close> in module \<open>connection\<close> of \<open>src/src/protocol.rs\<close>:
  \<open>scheme://[user:pass@]host:port\<close>, with the credentials up to the last at-sign and the port
  after the last colon.
\<close>

datatype pscheme = Socks5 | Http

record proxy =
  scheme :: pscheme
  host :: string
  port :: nat
  auth :: "(string \<times> string) option"

text \<open>\<open>str::split_once("://")\<close>.\<close>

fun split_scheme :: "string \<Rightarrow> (string \<times> string) option" where
  "split_scheme [] = None"
| "split_scheme (x # xs) =
    (if take 3 (x # xs) = ''://'' then Some ([], drop 2 xs)
     else map_option (\<lambda>(a, b). (x # a, b)) (split_scheme xs))"

definition to_ascii_lowercase :: "string \<Rightarrow> string" where
  "to_ascii_lowercase s =
    map (\<lambda>c. if 65 \<le> (of_char c :: nat) \<and> of_char c \<le> (90 :: nat) then char_of (of_char c + 32 :: nat) else c) s"

definition trim_end_slashes :: "string \<Rightarrow> string" where
  "trim_end_slashes s = rev (dropWhile (\<lambda>c. c = CHR ''/'') (rev s))"

definition parse_scheme :: "string \<Rightarrow> (string, pscheme) outcome" where
  "parse_scheme s =
    (let l = to_ascii_lowercase s
     in if l = ''socks5'' \<or> l = ''socks5h'' then Ok Socks5
        else if l = ''http'' \<or> l = ''https'' then Ok Http
        else Err (''unsupported proxy scheme: '' @ l))"

definition parse_proxy :: "string \<Rightarrow> (string, proxy) outcome" where
  "parse_proxy url =
    obind (ok_or (split_scheme url) (''proxy url missing scheme: '' @ url)) (\<lambda>(scheme_str, rest).
    obind (parse_scheme scheme_str) (\<lambda>sch.
    obind (case rsplit_once CHR ''@'' rest of
        Some (creds, hp) \<Rightarrow>
          obind (ok_or (split_once CHR '':'' creds) ''proxy auth must be user:pass'') (\<lambda>up. Ok (Some up, hp))
      | None \<Rightarrow> Ok (None, rest)) (\<lambda>(au, hostport).
    let hostport = trim_end_slashes hostport
    in
    obind (ok_or (rsplit_once CHR '':'' hostport) (''proxy url missing port: '' @ url)) (\<lambda>(hst, port_str).
    obind (ok_or (parse_uint 65535 port_str) (''invalid proxy port: '' @ port_str)) (\<lambda>prt.
    obind (guard_err (hst = []) ''proxy host is empty'') (\<lambda>_.
    Ok \<lparr>scheme = sch, host = hst, port = prt, auth = au\<rparr>))))))"

text \<open>The URL a configuration is written as.\<close>

definition show_proxy :: "string \<Rightarrow> proxy \<Rightarrow> string" where
  "show_proxy sch p =
    sch @ ''://'' @ (case auth p of Some (u, w) \<Rightarrow> u @ '':'' @ w @ ''@'' | None \<Rightarrow> []) @
    host p @ '':'' @ show_nat (port p)"

lemma split_scheme_once:
  "CHR '':'' \<notin> set a \<Longrightarrow> split_scheme (a @ ''://'' @ b) = Some (a, b)"
  by (induction a) auto

lemma trim_end_slashes_id: "s = [] \<or> last s \<noteq> CHR ''/'' \<Longrightarrow> trim_end_slashes s = s"
  by (cases s rule: rev_cases) (auto simp: trim_end_slashes_def)

lemma show_nat_last: "last (show_nat n) \<noteq> CHR ''/'' \<and> CHR '':'' \<notin> set (show_nat n) \<and> CHR ''@'' \<notin> set (show_nat n)"
proof -
  have "\<forall>c \<in> set (show_nat n). is_ascii_digit c" using show_nat_digits [of n] by (simp add: list_all_iff)
  moreover from this have "is_ascii_digit (last (show_nat n))" by simp
  moreover have "\<not> is_ascii_digit CHR ''/''" "\<not> is_ascii_digit CHR '':''" "\<not> is_ascii_digit CHR ''@''"
    by (simp_all add: is_ascii_digit_def)
  ultimately show ?thesis by metis
qed

text \<open>A proxy configuration survives being written as a URL and parsed: whatever the password
  (colons and at-signs included), an IPv6-style host with colons, and any 16-bit port.\<close>

theorem parse_show_proxy:
  assumes "parse_scheme sch = Ok (scheme p)" "CHR '':'' \<notin> set sch"
    and "host p \<noteq> []" "CHR ''@'' \<notin> set (host p)" "port p \<le> 65535"
    and "\<forall>u w. auth p = Some (u, w) \<longrightarrow> CHR '':'' \<notin> set u"
  shows "parse_proxy (show_proxy sch p) = Ok p"
proof -
  let ?hp = "host p @ '':'' @ show_nat (port p)"
  note n = show_nat_last [of "port p"]
  have "split_scheme (show_proxy sch p) = Some (sch, (case auth p of Some (u, w) \<Rightarrow> u @ '':'' @ w @ ''@'' | None \<Rightarrow> []) @ ?hp)"
    unfolding show_proxy_def by (rule split_scheme_once) (rule assms(2))
  moreover have "rsplit_once CHR ''@'' (u @ '':'' @ w @ ''@'' @ ?hp) = Some (u @ '':'' @ w, ?hp)" for u w
    using assms(4) n by (auto simp: rsplit_once_Some)
  moreover have "rsplit_once CHR ''@'' ?hp = None" using assms(4) n by simp
  moreover have "split_once CHR '':'' (u @ '':'' @ w) = Some (u, w)" if "auth p = Some (u, w)" for u w
    using assms(6) that by (simp add: split_once_complete)
  moreover have "trim_end_slashes ?hp = ?hp" using n by (intro trim_end_slashes_id) simp
  moreover have "rsplit_once CHR '':'' ?hp = Some (host p, show_nat (port p))"
    using n by (simp add: rsplit_once_Some)
  ultimately show ?thesis
    unfolding parse_proxy_def
    using assms(1,3,5)
    by (cases "auth p") (auto simp: parse_uint_show_nat guard_err_def simp del: rsplit_once_None)
qed

theorem parse_show_proxy_witness:
  "parse_proxy (show_proxy ''socks5h'' \<lparr>scheme = Socks5, host = ''h'', port = 80, auth = Some (''u'', ''p@:'')\<rparr>) =
    Ok \<lparr>scheme = Socks5, host = ''h'', port = 80, auth = Some (''u'', ''p@:'')\<rparr>"
proof (rule parse_show_proxy)
  show "parse_scheme ''socks5h'' = Ok (scheme \<lparr>scheme = Socks5, host = ''h'', port = 80, auth = Some (''u'', ''p@:'')\<rparr>)"
    by (simp add: parse_scheme_def to_ascii_lowercase_def)
qed simp_all

end
