(* ===== verification/Rows.thy ===== *)
theory Rows
  imports Ruwa_Prelude
begin

text \<open>
  Tables of \<open>src/src/store.rs\<close>: the statements on a primary key that both backends run, on the list of
  a table's rows, and the contract that the components above rely on.
\<close>

section \<open>Tables\<close>

type_synonym ('k, 'v) rows = "('k \<times> 'v) list"

text \<open>\<open>SELECT\<close>, \<open>INSERT OR REPLACE\<close> and \<open>DELETE\<close> on a primary key.\<close>

definition row_load :: "('k, 'v) rows \<Rightarrow> 'k \<Rightarrow> 'v option" where
  "row_load t k = map_of t k"

definition row_delete :: "('k, 'v) rows \<Rightarrow> 'k \<Rightarrow> ('k, 'v) rows" where
  "row_delete t k = filter (\<lambda>r. fst r \<noteq> k) t"

definition row_save :: "('k, 'v) rows \<Rightarrow> 'k \<Rightarrow> 'v \<Rightarrow> ('k, 'v) rows" where
  "row_save t k v = (k, v) # row_delete t k"

text \<open>What the callers rely on.\<close>

locale keyed_table =
  fixes load :: "'t \<Rightarrow> 'k \<Rightarrow> 'v option"
    and save :: "'t \<Rightarrow> 'k \<Rightarrow> 'v \<Rightarrow> 't"
    and delete :: "'t \<Rightarrow> 'k \<Rightarrow> 't"
  assumes load_save: "load (save t k v) = (load t)(k \<mapsto> v)"
    and load_delete: "load (delete t k) = (load t)(k := None)"
begin

lemma load_delete_all: "load (fold (\<lambda>k t. delete t k) ks t) = (\<lambda>k. if k \<in> set ks then None else load t k)"
  by (induction ks arbitrary: t) (auto simp: load_delete)

lemma load_move:
  "k \<noteq> k' \<Longrightarrow> load t k = Some v \<Longrightarrow> load (delete (save t k' v) k) = (load t)(k' \<mapsto> v, k := None)"
  by (simp add: load_save load_delete)

end

lemma row_load_delete: "row_load (row_delete t k) = (row_load t)(k := None)"
  by (induction t) (auto simp: row_load_def row_delete_def fun_eq_iff)

lemma row_load_save: "row_load (row_save t k v) = (row_load t)(k \<mapsto> v)"
  using row_load_delete [of t k] by (auto simp: row_save_def row_load_def fun_eq_iff)

interpretation rows: keyed_table row_load row_save row_delete
  by unfold_locales (rule row_load_save row_load_delete)+

lemma row_load_set: "row_load t k = Some v \<Longrightarrow> (k, v) \<in> set t"
  by (simp add: row_load_def map_of_SomeD)

lemma row_save_distinct: "distinct (map fst t) \<Longrightarrow> distinct (map fst (row_save t k v))"
  by (auto simp: row_save_def row_delete_def distinct_map_filter)

end
