(* ===== verification/Key_Chain.thy ===== *)
theory Key_Chain
  imports Ruwa_Prelude
begin

text \<open>
  Chain keys and the cache of skipped message keys, which the pairwise sessions and the
  sender keys of groups share (\<open>ChainKey\<close> in module \<open>signal\<close> of \<open>src/src/crypto.rs\<close>), and the
  interface both receivers offer: messages of one chain accepted in any order, once each.
\<close>

text \<open>The crates' primitives: HMAC-SHA256, HKDF-SHA256 (salt, input, info, length), AES-256-CBC
  with padding, X25519, and the module \<open>identity\<close>'s XEdDSA.\<close>

record signal_crypto =
  hmac :: "bytes \<Rightarrow> bytes \<Rightarrow> bytes"
  hkdf :: "bytes option \<Rightarrow> bytes \<Rightarrow> string \<Rightarrow> nat \<Rightarrow> bytes"
  cbc_enc :: "bytes \<Rightarrow> bytes \<Rightarrow> bytes \<Rightarrow> bytes"
  cbc_dec :: "bytes \<Rightarrow> bytes \<Rightarrow> bytes \<Rightarrow> bytes option"
  dh :: "bytes \<Rightarrow> bytes \<Rightarrow> bytes"
  xeddsa_sign :: "bytes \<Rightarrow> bytes \<Rightarrow> bytes"
  xeddsa_verify :: "bytes \<Rightarrow> bytes \<Rightarrow> bytes \<Rightarrow> bool"

record chain_key =
  ck_key :: bytes
  ck_index :: u32

definition new_chain :: "bytes \<Rightarrow> u32 \<Rightarrow> chain_key" where
  "new_chain k i = \<lparr>ck_key = k, ck_index = i\<rparr>"

definition hmac_seed :: "signal_crypto \<Rightarrow> bytes \<Rightarrow> bytes \<Rightarrow> bytes" where
  "hmac_seed c k seed = hmac c k seed"

text \<open>\<open>index + 1\<close> wraps in a release build.\<close>

definition next_chain :: "signal_crypto \<Rightarrow> chain_key \<Rightarrow> chain_key" where
  "next_chain c ck = \<lparr>ck_key = hmac_seed c (ck_key ck) [0x02], ck_index = ck_index ck + 1\<rparr>"

text \<open>The loop \<open>while walking.index < target\<close> that derives and keeps the keys it passes.\<close>

lemma word_less_Suc: "(a :: u32) < b \<Longrightarrow> unat (a + 1) = Suc (unat a)"
proof -
  assume "a < b"
  moreover have "unat b < 2 ^ 32" using unsigned_less [of b, where 'a = nat] by simp
  ultimately have "unat a + 1 < 2 ^ 32" by (simp add: word_less_nat_alt)
  then show ?thesis by (simp add: unat_word_ariths)
qed

function walk :: "signal_crypto \<Rightarrow> (chain_key \<Rightarrow> 'k) \<Rightarrow> u32 \<Rightarrow> chain_key \<Rightarrow> 'k list \<times> chain_key" where
  "walk c derive target ck =
    (if ck_index ck < target then
       (case walk c derive target (next_chain c ck) of (ks, ck') \<Rightarrow> (derive ck # ks, ck'))
     else ([], ck))"
  by pat_completeness auto
termination
  by (relation "measure (\<lambda>(c, derive, target, ck). unat target - unat (ck_index ck))")
     (auto simp: next_chain_def word_less_Suc word_less_nat_alt)

declare walk.simps [simp del]

definition chain_at :: "signal_crypto \<Rightarrow> chain_key \<Rightarrow> nat \<Rightarrow> chain_key" where
  "chain_at c ck n = (next_chain c ^^ n) ck"

lemma chain_at_0 [simp]: "chain_at c ck 0 = ck"
  by (simp add: chain_at_def)

lemma chain_at_Suc: "chain_at c ck (Suc n) = next_chain c (chain_at c ck n)"
  by (simp add: chain_at_def)

lemma chain_at_add: "chain_at c (chain_at c ck m) n = chain_at c ck (m + n)"
  by (induction n) (simp_all add: chain_at_Suc)

lemma chain_at_index:
  "unat (ck_index ck) + n < 2 ^ 32 \<Longrightarrow> unat (ck_index (chain_at c ck n)) = unat (ck_index ck) + n"
proof (induction n)
  case (Suc n)
  then have "unat (ck_index (chain_at c ck n)) = unat (ck_index ck) + n" by simp
  with Suc.prems have "unat (ck_index (chain_at c ck n) + 1) = unat (ck_index ck) + Suc n"
    by (simp add: unat_word_ariths)
  then show ?case by (simp add: chain_at_Suc next_chain_def)
qed simp

lemma upt_0_Suc: "[0..<Suc n] = 0 # map Suc [0..<n]"
  by (simp add: upt_conv_Cons map_Suc_upt del: upt_Suc)

lemma walk_chain_at:
  "unat (ck_index ck) + n = unat target \<Longrightarrow>
    walk c derive target ck = (map (\<lambda>i. derive (chain_at c ck i)) [0..<n], chain_at c ck n)"
proof (induction n arbitrary: ck)
  case 0
  then have "\<not> ck_index ck < target" by (simp add: word_less_nat_alt)
  then show ?case by (simp add: walk.simps [of c derive target ck])
next
  case (Suc n)
  then have less: "ck_index ck < target" by (simp add: word_less_nat_alt)
  then have "unat (ck_index (next_chain c ck)) + n = unat target"
    using Suc.prems by (simp add: next_chain_def word_less_Suc)
  from Suc.IH [OF this] less have
    "walk c derive target ck = (derive ck # map (\<lambda>i. derive (chain_at c (next_chain c ck) i)) [0..<n],
      chain_at c (next_chain c ck) n)"
    by (simp add: walk.simps [of c derive target ck])
  moreover have "chain_at c (next_chain c ck) i = chain_at c ck (Suc i)" for i
    using chain_at_add [of c ck 1 i] by (simp add: chain_at_Suc)
  ultimately show ?case by (simp add: upt_0_Suc comp_def del: upt_Suc)
qed

section \<open>The cache of skipped keys\<close>

text \<open>\<open>iter().position\<close>.\<close>

fun position :: "('a \<Rightarrow> bool) \<Rightarrow> 'a list \<Rightarrow> nat option" where
  "position P [] = None"
| "position P (x # xs) = (if P x then Some 0 else map_option Suc (position P xs))"

definition remove_at :: "nat \<Rightarrow> 'a list \<Rightarrow> 'a list" where
  "remove_at i xs = take i xs @ drop (Suc i) xs"

lemma position_Some:
  "position P xs = Some i \<longleftrightarrow> i < length xs \<and> P (xs ! i) \<and> (\<forall>j < i. \<not> P (xs ! j))"
proof (induction xs arbitrary: i)
  case (Cons x xs)
  show ?case
    by (cases i) (auto simp: Cons.IH All_less_Suc2)
qed simp

lemma position_None: "position P xs = None \<longleftrightarrow> (\<forall>x \<in> set xs. \<not> P x)"
  by (induction xs) auto

lemma set_remove_at:
  "distinct xs \<Longrightarrow> i < length xs \<Longrightarrow> set (remove_at i xs) = set xs - {xs ! i} \<and> distinct (remove_at i xs)"
proof (induction xs arbitrary: i)
  case (Cons x xs)
  then show ?case by (cases i) (auto simp: remove_at_def)
qed simp

lemma map_remove_at: "map f (remove_at i xs) = remove_at i (map f xs)"
  by (simp add: remove_at_def take_map drop_map)

lemma length_walk: "length (fst (walk c derive target ck)) = unat target - unat (ck_index ck)"
proof (cases "ck_index ck \<le> target")
  case True
  then have "unat (ck_index ck) + (unat target - unat (ck_index ck)) = unat target"
    by (simp add: word_le_nat_alt)
  from walk_chain_at [OF this, of c derive] show ?thesis by simp
next
  case False
  then show ?thesis by (simp add: walk.simps [of c derive target ck] word_le_nat_alt word_less_nat_alt)
qed

text \<open>A cache for a chain that started at \<open>oc\<close> and was walked to position \<open>n\<close>, from which the
  messages at \<open>used\<close> have been taken: it holds the derived keys of the other positions below \<open>n\<close>.\<close>

definition cache_of ::
  "signal_crypto \<Rightarrow> (chain_key \<Rightarrow> 'k) \<Rightarrow> chain_key \<Rightarrow> nat set \<Rightarrow> nat \<Rightarrow> 'k list \<Rightarrow> bool" where
  "cache_of c derive oc used n ks \<longleftrightarrow>
    (\<exists>ps. used \<subseteq> {..<n} \<and> distinct ps \<and> set ps = {..<n} - used \<and> ks = map (\<lambda>j. derive (chain_at c oc j)) ps)"

lemma cache_of_Nil [simp]: "cache_of c derive oc {} 0 []"
  by (simp add: cache_of_def)

lemma cache_of_used: "cache_of c derive oc used n ks \<Longrightarrow> j \<in> used \<Longrightarrow> j < n"
  by (auto simp: cache_of_def)

lemma cache_of_length: "cache_of c derive oc used n ks \<Longrightarrow> length ks \<le> n"
  unfolding cache_of_def by (metis Diff_subset card_lessThan card_mono distinct_card finite_lessThan length_map)

text \<open>Looking a position up by its index: it is found exactly when its message was not taken.\<close>

lemma cache_of_lookup:
  fixes c oc j and derive :: "chain_key \<Rightarrow> 'k"
  assumes cache: "cache_of c derive oc used n ks" and "unat (ck_index oc) + n < 2 ^ 32" "j < n"
    and index: "\<And>ck. index (derive ck) = ck_index ck"
  defines "P \<equiv> \<lambda>k. index k = ck_index (chain_at c oc j)"
  shows "j \<in> used \<Longrightarrow> position P ks = None"
    and "j \<notin> used \<Longrightarrow> \<exists>p. position P ks = Some p \<and> ks ! p = derive (chain_at c oc j) \<and>
      cache_of c derive oc (insert j used) n (remove_at p ks)"
proof -
  from cache obtain ps where used: "used \<subseteq> {..<n}" and ps: "distinct ps" "set ps = {..<n} - used"
    and ks: "ks = map (\<lambda>j. derive (chain_at c oc j)) ps" unfolding cache_of_def by blast
  have P: "P (derive (chain_at c oc k)) \<longleftrightarrow> k = j" if "k \<in> set ps" for k
  proof -
    have "k < n" using that ps(2) by auto
    then have "unat (ck_index (chain_at c oc k)) = unat (ck_index oc) + k"
        "unat (ck_index (chain_at c oc j)) = unat (ck_index oc) + j"
      using assms(2,3) by (simp_all add: chain_at_index)
    then show ?thesis unfolding P_def index by (metis add_left_cancel)
  qed
  show "j \<in> used \<Longrightarrow> position P ks = None"
    using P ps(2) by (auto simp: position_None ks)
  assume "j \<notin> used"
  with \<open>j < n\<close> ps(2) have "j \<in> set ps" by simp
  then have "position P ks \<noteq> None" using P by (auto simp: position_None ks)
  then obtain p where pos: "position P ks = Some p" by blast
  then have p: "p < length ps" "P (ks ! p)" by (auto simp: position_Some ks)
  then have pj: "ps ! p = j" using P [of "ps ! p"] by (auto simp: ks)
  have "set (remove_at p ps) = {..<n} - insert j used" "distinct (remove_at p ps)"
    using set_remove_at [OF ps(1) p(1)] pj ps(2) by auto
  with used \<open>j < n\<close> have "cache_of c derive oc (insert j used) n (remove_at p ks)"
    unfolding cache_of_def ks by (intro exI [of _ "remove_at p ps"]) (simp add: map_remove_at)
  moreover have "ks ! p = derive (chain_at c oc j)" using pj p(1) by (simp add: ks)
  ultimately show "\<exists>p. position P ks = Some p \<and> ks ! p = derive (chain_at c oc j) \<and>
      cache_of c derive oc (insert j used) n (remove_at p ks)"
    using pos by blast
qed

lemma cache_of_before:
  assumes "cache_of c derive oc used n ks" "unat (ck_index oc) + n < 2 ^ 32" "unat i < unat (ck_index oc)"
    and "\<And>ck. index (derive ck) = ck_index ck"
  shows "position (\<lambda>k. index k = i) ks = None"
  using assms chain_at_index [of oc _ c] by (auto simp: cache_of_def position_None)

text \<open>Walking the chain to a later position caches the keys it passes.\<close>

lemma cache_of_walk:
  fixes c oc j and derive :: "chain_key \<Rightarrow> 'k"
  assumes cache: "cache_of c derive oc used n ks" and "n \<le> j" "unat (ck_index oc) + j < 2 ^ 32"
  obtains new where
    "walk c derive (ck_index (chain_at c oc j)) (chain_at c oc n) = (new, chain_at c oc j)"
    "cache_of c derive oc (insert j used) (Suc j) (ks @ new)" "j \<notin> used" "length new = j - n"
proof (rule that)
  let ?new = "map (\<lambda>k. derive (chain_at c oc k)) [n..<j]"
  from cache obtain ps where used: "used \<subseteq> {..<n}" and ps: "distinct ps" "set ps = {..<n} - used"
    and ks: "ks = map (\<lambda>j. derive (chain_at c oc j)) ps" unfolding cache_of_def by blast
  have "unat (ck_index (chain_at c oc n)) + (j - n) = unat (ck_index (chain_at c oc j))"
    using assms(2,3) by (simp add: chain_at_index)
  then have "walk c derive (ck_index (chain_at c oc j)) (chain_at c oc n)
      = (map (\<lambda>k. derive (chain_at c (chain_at c oc n) k)) [0..<j - n], chain_at c (chain_at c oc n) (j - n))"
    by (rule walk_chain_at)
  also have "map (\<lambda>k. derive (chain_at c (chain_at c oc n) k)) [0..<j - n] = ?new"
    using assms(2) by (auto simp: chain_at_add intro!: nth_equalityI)
  finally show "walk c derive (ck_index (chain_at c oc j)) (chain_at c oc n) = (?new, chain_at c oc j)"
    using assms(2) by (simp add: chain_at_add)
  have "set (ps @ [n..<j]) = {..<Suc j} - insert j used" "distinct (ps @ [n..<j])" "insert j used \<subseteq> {..<Suc j}"
    using ps used assms(2) by auto
  then show "cache_of c derive oc (insert j used) (Suc j) (ks @ ?new)"
    unfolding cache_of_def by (intro exI [of _ "ps @ [n..<j]"]) (simp add: ks)
  show "j \<notin> used" "length ?new = j - n" using used assms(2) by auto
qed

section \<open>Unordered delivery\<close>

text \<open>A stream of messages, each processed whatever became of the one before.\<close>

primrec deliver :: "('c \<Rightarrow> 'r \<Rightarrow> 'o \<times> 'r) \<Rightarrow> 'c list \<Rightarrow> 'r \<Rightarrow> 'o list \<times> 'r" where
  "deliver recv [] r = ([], r)"
| "deliver recv (x # xs) r =
    (case recv x r of (y, r) \<Rightarrow> (case deliver recv xs r of (ys, r) \<Rightarrow> (y # ys, r)))"

lemma deliver_append:
  "deliver recv (xs @ ys) r =
    (case deliver recv xs r of (us, r) \<Rightarrow> (case deliver recv ys r of (vs, r) \<Rightarrow> (us @ vs, r)))"
  by (induction xs arbitrary: r) (simp_all split: prod.split)

lemma keeps_deliver:
  assumes "\<And>x. keeps I (recv x)"
  shows "keeps I (deliver recv xs)"
proof (induction xs)
  case Nil
  then show ?case by (simp add: keeps_def)
next
  case (Cons x xs)
  show ?case
  proof (rule keepsI)
    fix s ys s'
    assume s: "I s" "deliver recv (x # xs) s = (ys, s')"
    obtain y t where y: "recv x s = (y, t)" by fastforce
    obtain zs u where "deliver recv xs t = (zs, u)" by fastforce
    with s(2) y have "deliver recv xs t = (zs, s')" by simp
    with keepsD [OF Cons.IH keepsD [OF assms s(1) y]] show "I s'" .
  qed
qed

definition ok_value :: "('e, 'a) outcome \<Rightarrow> 'a option" where
  "ok_value r = (case r of Ok x \<Rightarrow> Some x | _ \<Rightarrow> None)"

lemma ok_value_simps [simp]: "ok_value (Ok x) = Some x" "ok_value (Err e) = None" "ok_value Panic = None"
  by (simp_all add: ok_value_def)

text \<open>Which deliveries are the first of their position.\<close>

primrec first_seen :: "nat set \<Rightarrow> nat list \<Rightarrow> nat option list" where
  "first_seen used [] = []"
| "first_seen used (j # js) = (if j \<in> used then None else Some j) # first_seen (insert j used) js"

lemma first_seen_distinct:
  "distinct js \<Longrightarrow> set js \<inter> used = {} \<Longrightarrow> first_seen used js = map Some js"
  by (induction js arbitrary: used) auto

text \<open>
  A receiver for the messages of one chain. \<open>holds used r\<close>: it has taken the messages at the
  positions \<open>used\<close> and no others; \<open>msg j m\<close> is the sender's \<open>j\<close>-th message; it looks ahead at
  most to \<open>limit\<close>.
\<close>

locale mailbox =
  fixes recv :: "'c \<Rightarrow> 'r \<Rightarrow> ('e, 'm) outcome \<times> 'r"
    and holds :: "nat set \<Rightarrow> 'r \<Rightarrow> bool"
    and msg :: "nat \<Rightarrow> 'm \<Rightarrow> 'c"
    and limit :: nat
  assumes accepts: "holds used r \<Longrightarrow> j \<notin> used \<Longrightarrow> j < limit \<Longrightarrow>
      \<exists>r'. recv (msg j m) r = (Ok m, r') \<and> holds (insert j used) r'"
    and refuses: "holds used r \<Longrightarrow> j \<in> used \<Longrightarrow> j < limit \<Longrightarrow> \<exists>e. recv (msg j m) r = (Err e, r)"
begin

text \<open>In whatever order and however often the messages arrive, each is accepted exactly the
  first time.\<close>

lemma any_order:
  "holds used r \<Longrightarrow> \<forall>j \<in> set js. j < limit \<Longrightarrow>
    \<exists>outs r'. deliver recv (map (\<lambda>j. msg j (m j)) js) r = (outs, r') \<and> holds (used \<union> set js) r' \<and>
      map ok_value outs = map (map_option m) (first_seen used js)"
proof (induction js arbitrary: used r)
  case (Cons j js)
  from Cons.prems have j: "j < limit" by simp
  have "\<exists>r'. (\<exists>x. recv (msg j (m j)) r = (x, r') \<and> ok_value x = map_option m (if j \<in> used then None else Some j)) \<and>
      holds (insert j used) r'"
  proof (cases "j \<in> used")
    case True
    with refuses [OF Cons.prems(1) True j, of "m j"] Cons.prems(1) show ?thesis
      by (auto simp: insert_absorb)
  next
    case False
    with accepts [OF Cons.prems(1) False j, of "m j"] show ?thesis by fastforce
  qed
  then obtain x r' where x: "recv (msg j (m j)) r = (x, r')"
    "ok_value x = map_option m (if j \<in> used then None else Some j)" "holds (insert j used) r'" by blast
  from Cons.IH [OF x(3)] Cons.prems(2) x(1,2) show ?case by auto
qed simp

end

end
