(* ===== verification/Signal_Session.thy ===== *)
theory Signal_Session
  imports Key_Chain
begin

text \<open>
  The pairwise Signal sessions, module \<open>signal\<close> of \<open>src/src/crypto.rs\<close>: the X3DH set-up of both
  sides, the ratchet step, \<open>SessionCipher::encrypt\<close> and \<open>decrypt\<close> with the cache of skipped
  message keys, and the pre-key envelope. The primitives and the protobuf codec are arguments;
  so is the fresh key pair that a step may draw. A method that fails leaves the state as far
  as it had been changed.
\<close>

datatype signal_error = NoSenderChain | AesDecrypt | BadMac | Malformed string

record message_keys =
  mk_cipher :: bytes
  mk_mac :: bytes
  mk_iv :: bytes
  mk_counter :: u32

record receiver_chain =
  remote_ratchet_pub :: bytes
  rc_chain :: chain_key
  skipped_keys :: "message_keys list"

record pending_pre_key =
  pending_pre_key_id :: "u32 option"
  pending_signed_pre_key_id :: u32
  pending_base_key_pub :: bytes

record session_state =
  session_version :: u32
  local_identity_pub :: bytes
  remote_identity_pub :: bytes
  root_key :: bytes
  sender_chain :: "chain_key option"
  sender_ratchet_priv :: "bytes option"
  sender_ratchet_pub :: "bytes option"
  previous_counter :: u32
  receiver_chains :: "receiver_chain list"
  pending_pre_key_of :: "pending_pre_key option"
  local_registration_id :: u32
  remote_registration_id :: u32

definition MAX_RECEIVER_CHAINS :: nat where "MAX_RECEIVER_CHAINS = 5"
definition MAX_SKIPPED_MESSAGE_KEYS :: nat where "MAX_SKIPPED_MESSAGE_KEYS = 2000"
definition WHISPER_VERSION :: u8 where "WHISPER_VERSION = 0x33"
definition MAC_TRUNCATION_BYTES :: nat where "MAC_TRUNCATION_BYTES = 8"

definition derive_message_keys :: "signal_crypto \<Rightarrow> chain_key \<Rightarrow> message_keys" where
  "derive_message_keys c ck =
    (let mac_seed = hmac_seed c (ck_key ck) [0x01];
         out = hkdf c None mac_seed ''WhisperMessageKeys'' 80
     in \<lparr>mk_cipher = take 32 out, mk_mac = take 32 (drop 32 out), mk_iv = drop 64 out,
         mk_counter = ck_index ck\<rparr>)"

section \<open>Ratchet steps\<close>

definition initial_kdf :: "signal_crypto \<Rightarrow> bytes list \<Rightarrow> bytes \<times> bytes" where
  "initial_kdf c dhs =
    (let out = hkdf c (Some (replicate 32 0)) (replicate 32 0xFF @ concat dhs) ''WhisperText'' 64
     in (take 32 out, drop 32 out))"

definition ratchet_root_step :: "signal_crypto \<Rightarrow> bytes \<Rightarrow> bytes \<Rightarrow> bytes \<times> bytes" where
  "ratchet_root_step c root secret =
    (let out = hkdf c (Some root) secret ''WhisperRatchet'' 64 in (take 32 out, drop 32 out))"

definition dh_ratchet_step ::
  "signal_crypto \<Rightarrow> bytes \<times> bytes \<Rightarrow> bytes \<Rightarrow> session_state \<Rightarrow>
    (signal_error, unit) outcome \<times> session_state" where
  "dh_ratchet_step c fresh their_new_pub st =
    (case sender_ratchet_priv st of
       None \<Rightarrow> (Err (Malformed ''no sender ratchet to step from''), st)
     | Some send_priv \<Rightarrow>
       (let (root_after_recv, recv_chain) = ratchet_root_step c (root_key st) (dh c send_priv their_new_pub);
            (root_after_send, send_chain) = ratchet_root_step c root_after_recv (dh c (fst fresh) their_new_pub)
        in (Ok (),
            st\<lparr>previous_counter := (case sender_chain st of Some ch \<Rightarrow> ck_index ch | None \<Rightarrow> 0),
               root_key := root_after_send,
               sender_ratchet_priv := Some (fst fresh),
               sender_ratchet_pub := Some (snd fresh),
               sender_chain := Some (new_chain send_chain 0),
               receiver_chains := take MAX_RECEIVER_CHAINS
                 (\<lparr>remote_ratchet_pub = their_new_pub, rc_chain = new_chain recv_chain 0,
                   skipped_keys = []\<rparr> # receiver_chains st)\<rparr>)))"

definition bob_first_send_step ::
  "signal_crypto \<Rightarrow> bytes \<times> bytes \<Rightarrow> session_state \<Rightarrow> (signal_error, unit) outcome \<times> session_state" where
  "bob_first_send_step c fresh st =
    (case receiver_chains st of
       [] \<Rightarrow> (Err (Malformed ''no receiver chain to step from''), st)
     | rc # _ \<Rightarrow>
       (let (new_root, send_chain) =
              ratchet_root_step c (root_key st) (dh c (fst fresh) (remote_ratchet_pub rc))
        in (Ok (),
            st\<lparr>root_key := new_root,
               sender_ratchet_priv := Some (fst fresh),
               sender_ratchet_pub := Some (snd fresh),
               sender_chain := Some (new_chain send_chain 0)\<rparr>)))"

section \<open>X3DH\<close>

record alice_parameters =
  a_identity_priv :: bytes
  a_identity_pub :: bytes
  a_base_priv :: bytes
  a_base_pub :: bytes
  a_ratchet_priv :: bytes
  a_ratchet_pub :: bytes
  a_remote_identity_pub :: bytes
  a_remote_signed_prekey_pub :: bytes
  a_remote_one_time_prekey_pub :: "bytes option"

record bob_parameters =
  b_identity_priv :: bytes
  b_identity_pub :: bytes
  b_signed_prekey_priv :: bytes
  b_one_time_prekey_priv :: "bytes option"
  b_remote_identity_pub :: bytes
  b_remote_base_pub :: bytes
  b_remote_ratchet_pub :: bytes

definition initiate_alice :: "signal_crypto \<Rightarrow> alice_parameters \<Rightarrow> session_state" where
  "initiate_alice c p =
    (let dh1 = dh c (a_identity_priv p) (a_remote_signed_prekey_pub p);
         dh2 = dh c (a_base_priv p) (a_remote_identity_pub p);
         dh3 = dh c (a_base_priv p) (a_remote_signed_prekey_pub p);
         dhs = [dh1, dh2, dh3] @
           (case a_remote_one_time_prekey_pub p of Some opk \<Rightarrow> [dh c (a_base_priv p) opk] | None \<Rightarrow> []);
         root = fst (initial_kdf c dhs);
         sending_dh = dh c (a_ratchet_priv p) (a_remote_signed_prekey_pub p);
         (new_root, send_chain) = ratchet_root_step c root sending_dh
     in \<lparr>session_version = 3, local_identity_pub = a_identity_pub p,
         remote_identity_pub = a_remote_identity_pub p, root_key = new_root,
         sender_chain = Some (new_chain send_chain 0),
         sender_ratchet_priv = Some (a_ratchet_priv p), sender_ratchet_pub = Some (a_ratchet_pub p),
         previous_counter = 0, receiver_chains = [], pending_pre_key_of = None,
         local_registration_id = 0, remote_registration_id = 0\<rparr>)"

definition process_bob :: "signal_crypto \<Rightarrow> bob_parameters \<Rightarrow> session_state" where
  "process_bob c p =
    (let dh1 = dh c (b_signed_prekey_priv p) (b_remote_identity_pub p);
         dh2 = dh c (b_identity_priv p) (b_remote_base_pub p);
         dh3 = dh c (b_signed_prekey_priv p) (b_remote_base_pub p);
         dhs = [dh1, dh2, dh3] @
           (case b_one_time_prekey_priv p of Some opk \<Rightarrow> [dh c opk (b_remote_base_pub p)] | None \<Rightarrow> []);
         root = fst (initial_kdf c dhs);
         recv_dh = dh c (b_signed_prekey_priv p) (b_remote_ratchet_pub p);
         (new_root, recv_chain) = ratchet_root_step c root recv_dh
     in \<lparr>session_version = 3, local_identity_pub = b_identity_pub p,
         remote_identity_pub = b_remote_identity_pub p, root_key = new_root,
         sender_chain = None, sender_ratchet_priv = None, sender_ratchet_pub = None,
         previous_counter = 0,
         receiver_chains =
           [\<lparr>remote_ratchet_pub = b_remote_ratchet_pub p, rc_chain = new_chain recv_chain 0,
             skipped_keys = []\<rparr>],
         pending_pre_key_of = None, local_registration_id = 0, remote_registration_id = 0\<rparr>)"

section \<open>Wire messages\<close>

record signal_message_proto =
  sm_ratchet_key :: "bytes option"
  sm_counter :: "u32 option"
  sm_previous_counter :: "u32 option"
  sm_ciphertext :: "bytes option"

record pre_key_signal_message_proto =
  pk_registration_id :: "u32 option"
  pk_pre_key_id :: "u32 option"
  pk_signed_pre_key_id :: "u32 option"
  pk_base_key :: "bytes option"
  pk_identity_key :: "bytes option"
  pk_message :: "bytes option"

record signal_codec =
  enc_signal :: "signal_message_proto \<Rightarrow> bytes"
  dec_signal :: "bytes \<Rightarrow> signal_message_proto option"
  enc_pre_key :: "pre_key_signal_message_proto \<Rightarrow> bytes"
  dec_pre_key :: "bytes \<Rightarrow> pre_key_signal_message_proto option"

datatype message_type = Whisper | PreKey

record ciphertext_message =
  serialized :: bytes
  message_type_of :: message_type

definition compute_message_mac :: "signal_crypto \<Rightarrow> bytes \<Rightarrow> bytes \<Rightarrow> bytes \<Rightarrow> bytes \<Rightarrow> bytes" where
  "compute_message_mac c mac_key sender_id receiver_id version_and_body =
    hmac c mac_key (0x05 # sender_id @ 0x05 # receiver_id @ version_and_body)"

text \<open>The two accepted forms of a public key.\<close>

definition unwrap_djb_pub :: "string \<Rightarrow> bytes \<Rightarrow> (signal_error, bytes) outcome" where
  "unwrap_djb_pub field b =
    (if length b = 33 \<and> b ! 0 = 0x05 then Ok (tl b)
     else if length b = 32 then Ok b
     else Err (Malformed field))"

section \<open>The session cipher\<close>

definition session_encrypt ::
  "signal_crypto \<Rightarrow> signal_codec \<Rightarrow> bytes \<times> bytes \<Rightarrow> bytes \<Rightarrow> session_state \<Rightarrow>
    (signal_error, ciphertext_message) outcome \<times> session_state" where
  "session_encrypt c pb fresh plaintext =
    sbind (\<lambda>st. if sender_chain st = None then bob_first_send_step c fresh st else (Ok (), st)) (\<lambda>_ st.
    sbind (slift (ok_or (sender_chain st) NoSenderChain)) (\<lambda>chain.
    sbind (slift (ok_or (sender_ratchet_pub st) NoSenderChain)) (\<lambda>ratchet_pub st.
      let mks = derive_message_keys c chain;
          ciphertext = cbc_enc c (mk_cipher mks) (mk_iv mks) plaintext;
          body = WHISPER_VERSION # enc_signal pb
            \<lparr>sm_ratchet_key = Some (0x05 # ratchet_pub), sm_counter = Some (mk_counter mks),
             sm_previous_counter = Some (previous_counter st), sm_ciphertext = Some ciphertext\<rparr>;
          mac = compute_message_mac c (mk_mac mks) (local_identity_pub st) (remote_identity_pub st) body
      in (Ok \<lparr>serialized = body @ take MAC_TRUNCATION_BYTES mac, message_type_of = Whisper\<rparr>,
          st\<lparr>sender_chain := Some (next_chain c chain)\<rparr>))) st)"

text \<open>The checks on the wire bytes: body, tag, ratchet key, counter and ciphertext.\<close>

definition parse_whisper ::
  "signal_codec \<Rightarrow> bytes \<Rightarrow> (signal_error, bytes \<times> bytes \<times> bytes \<times> u32 \<times> bytes) outcome" where
  "parse_whisper pb wire =
    obind (guard_err (length wire < 1 + MAC_TRUNCATION_BYTES + 1) (Malformed ''wire too short'')) (\<lambda>_.
    obind (guard_err (wire ! 0 \<noteq> WHISPER_VERSION) (Malformed ''unexpected version byte'')) (\<lambda>_.
    let mac_offset = length wire - MAC_TRUNCATION_BYTES;
        body = take mac_offset wire;
        received_mac = drop mac_offset wire
    in
    obind (ok_or (dec_signal pb (tl body)) (Malformed ''proto'')) (\<lambda>proto.
    obind (ok_or (sm_ratchet_key proto) (Malformed ''missing ratchet_key'')) (\<lambda>ratchet_key.
    obind (unwrap_djb_pub ''ratchet_key wrong length'' ratchet_key) (\<lambda>ratchet.
    obind (ok_or (sm_ciphertext proto) (Malformed ''missing ciphertext'')) (\<lambda>ciphertext.
      Ok (body, received_mac, ratchet, or_default 0 (sm_counter proto), ciphertext)))))))"

definition find_receiver_chain ::
  "signal_crypto \<Rightarrow> bytes \<times> bytes \<Rightarrow> bytes \<Rightarrow> session_state \<Rightarrow> (signal_error, nat) outcome \<times> session_state" where
  "find_receiver_chain c fresh ratchet st =
    (case position (\<lambda>rc. remote_ratchet_pub rc = ratchet) (receiver_chains st) of
       Some i \<Rightarrow> (Ok i, st)
     | None \<Rightarrow> sbind (dh_ratchet_step c fresh ratchet) (\<lambda>_. slift (Ok 0)) st)"

definition set_chain :: "nat \<Rightarrow> (receiver_chain \<Rightarrow> receiver_chain) \<Rightarrow> session_state \<Rightarrow> session_state" where
  "set_chain i f st = st\<lparr>receiver_chains := (receiver_chains st)[i := f (receiver_chains st ! i)]\<rparr>"

text \<open>The keys for a counter, from the cache or by walking the chain (which caches the keys it
  passes at once), with what is to be committed when the message proves genuine.\<close>

definition select_message_keys ::
  "signal_crypto \<Rightarrow> nat \<Rightarrow> u32 \<Rightarrow> session_state \<Rightarrow>
    (signal_error, message_keys \<times> chain_key option \<times> nat option) outcome \<times> session_state" where
  "select_message_keys c i counter st =
    (let rc = receiver_chains st ! i; chain = rc_chain rc
     in if counter < ck_index chain then
          (case position (\<lambda>k. mk_counter k = counter) (skipped_keys rc) of
             None \<Rightarrow> (Err (Malformed ''counter out of range''), st)
           | Some p \<Rightarrow> (Ok (skipped_keys rc ! p, None, Some p), st))
        else
          let gap = unat (counter - ck_index chain)
          in if length (skipped_keys rc) + gap > MAX_SKIPPED_MESSAGE_KEYS then
               (Err (Malformed ''skipped key cache would exceed limit''), st)
             else
               (case walk c (derive_message_keys c) counter chain of
                  (ks, walking) \<Rightarrow>
                    (Ok (derive_message_keys c walking, Some (next_chain c walking), None),
                     set_chain i (\<lambda>rc. rc\<lparr>skipped_keys := skipped_keys rc @ ks\<rparr>) st)))"

definition commit_keys :: "nat \<Rightarrow> chain_key option \<Rightarrow> nat option \<Rightarrow> session_state \<Rightarrow> session_state" where
  "commit_keys i advanced evict st =
    (let st = (case advanced of Some ck \<Rightarrow> set_chain i (\<lambda>rc. rc\<lparr>rc_chain := ck\<rparr>) st | None \<Rightarrow> st)
     in case evict of
          Some p \<Rightarrow> set_chain i (\<lambda>rc. rc\<lparr>skipped_keys := remove_at p (skipped_keys rc)\<rparr>) st
        | None \<Rightarrow> st)"

definition session_decrypt ::
  "signal_crypto \<Rightarrow> signal_codec \<Rightarrow> bytes \<times> bytes \<Rightarrow> bytes \<Rightarrow> session_state \<Rightarrow>
    (signal_error, bytes) outcome \<times> session_state" where
  "session_decrypt c pb fresh wire =
    sbind (slift (parse_whisper pb wire)) (\<lambda>(body, received_mac, ratchet, counter, ciphertext).
    sbind (find_receiver_chain c fresh ratchet) (\<lambda>i.
    sbind (select_message_keys c i counter) (\<lambda>(mks, advanced, evict) st.
      let expected_mac = compute_message_mac c (mk_mac mks) (remote_identity_pub st) (local_identity_pub st) body
      in if take MAC_TRUNCATION_BYTES expected_mac \<noteq> received_mac then (Err BadMac, st)
         else
           (case cbc_dec c (mk_cipher mks) (mk_iv mks) ciphertext of
              None \<Rightarrow> (Err AesDecrypt, st)
            | Some plaintext \<Rightarrow> (Ok plaintext, commit_keys i advanced evict st)))))"

section \<open>The pre-key envelope\<close>

definition encrypt_pre_key ::
  "signal_crypto \<Rightarrow> signal_codec \<Rightarrow> bytes \<times> bytes \<Rightarrow> bytes \<Rightarrow> u32 \<Rightarrow> bytes \<Rightarrow> bytes \<Rightarrow> u32 \<Rightarrow> u32 option \<Rightarrow>
    session_state \<Rightarrow> (signal_error, ciphertext_message) outcome \<times> session_state" where
  "encrypt_pre_key c pb fresh plaintext registration_id base_key_pub identity_key_pub signed_pre_key_id
      one_time_pre_key_id =
    sbind (session_encrypt c pb fresh plaintext) (\<lambda>inner. slift (Ok
      \<lparr>serialized = WHISPER_VERSION # enc_pre_key pb
         \<lparr>pk_registration_id = Some registration_id, pk_pre_key_id = one_time_pre_key_id,
          pk_signed_pre_key_id = Some signed_pre_key_id, pk_base_key = Some (0x05 # base_key_pub),
          pk_identity_key = Some (0x05 # identity_key_pub), pk_message = Some (serialized inner)\<rparr>,
       message_type_of = PreKey\<rparr>))"

record pre_key_message_info =
  i_registration_id :: u32
  i_pre_key_id :: "u32 option"
  i_signed_pre_key_id :: u32
  i_base_key_pub :: bytes
  i_identity_key_pub :: bytes
  inner_ratchet_pub :: bytes
  inner_whisper_wire :: bytes

definition parse_pre_key_message :: "signal_codec \<Rightarrow> bytes \<Rightarrow> (signal_error, pre_key_message_info) outcome" where
  "parse_pre_key_message pb wire =
    obind (guard_err (wire = []) (Malformed ''empty wire'')) (\<lambda>_.
    obind (guard_err (wire ! 0 \<noteq> WHISPER_VERSION) (Malformed ''unexpected version byte'')) (\<lambda>_.
    obind (ok_or (dec_pre_key pb (tl wire)) (Malformed ''PreKey proto'')) (\<lambda>proto.
    obind (ok_or (pk_signed_pre_key_id proto) (Malformed ''PreKey missing signed_pre_key_id'')) (\<lambda>spk.
    obind (ok_or (pk_base_key proto) (Malformed ''PreKey missing base_key'')) (\<lambda>base_bytes.
    obind (ok_or (pk_identity_key proto) (Malformed ''PreKey missing identity_key'')) (\<lambda>id_bytes.
    obind (ok_or (pk_message proto) (Malformed ''PreKey missing inner message'')) (\<lambda>inner.
    obind (unwrap_djb_pub ''PreKey base_key wrong length'' base_bytes) (\<lambda>base_key.
    obind (unwrap_djb_pub ''PreKey identity_key wrong length'' id_bytes) (\<lambda>identity_key.
    obind (guard_err (length inner < 1 + MAC_TRUNCATION_BYTES + 1) (Malformed ''inner whisper too short'')) (\<lambda>_.
    obind (guard_err (inner ! 0 \<noteq> WHISPER_VERSION) (Malformed ''inner whisper bad version'')) (\<lambda>_.
    obind (ok_or (dec_signal pb (tl (take (length inner - MAC_TRUNCATION_BYTES) inner)))
      (Malformed ''inner whisper proto'')) (\<lambda>inner_proto.
    obind (ok_or (sm_ratchet_key inner_proto) (Malformed ''inner whisper missing ratchet_key'')) (\<lambda>rk.
    obind (unwrap_djb_pub ''inner ratchet_key wrong length'' rk) (\<lambda>inner_ratchet.
    Ok \<lparr>i_registration_id = or_default 0 (pk_registration_id proto), i_pre_key_id = pk_pre_key_id proto,
        i_signed_pre_key_id = spk, i_base_key_pub = base_key, i_identity_key_pub = identity_key,
        inner_ratchet_pub = inner_ratchet, inner_whisper_wire = inner\<rparr>))))))))))))))"

end
