(* ===== verification/Signal_Delivery.thy ===== *)
theory Signal_Delivery
  imports Signal_Session
begin

text \<open>
  What the pairwise sessions promise: both sides of X3DH start from the same chain; messages
  of a chain are decrypted in whatever order they arrive, each exactly once; the caches stay
  within their bounds; a message that does not verify changes no chain position.
\<close>

section \<open>Assumptions on the primitives\<close>

text \<open>Documented behaviour of the crates: unpadding undoes padding, a SHA-256 HMAC has 32 bytes,
  protobuf decoding undoes encoding and only the message without fields encodes to nothing.\<close>

definition no_fields :: signal_message_proto where
  "no_fields = \<lparr>sm_ratchet_key = None, sm_counter = None, sm_previous_counter = None, sm_ciphertext = None\<rparr>"

definition signal_sound :: "signal_crypto \<Rightarrow> signal_codec \<Rightarrow> bool" where
  "signal_sound c pb \<longleftrightarrow>
    (\<forall>k iv m. cbc_dec c k iv (cbc_enc c k iv m) = Some m) \<and>
    (\<forall>k m. length (hmac c k m) = 32) \<and>
    (\<forall>p. dec_signal pb (enc_signal pb p) = Some p) \<and> enc_signal pb no_fields = []"

lemma signal_soundD:
  assumes "signal_sound c pb"
  shows "cbc_dec c k iv (cbc_enc c k iv m) = Some m" "length (hmac c k m) = 32"
    "dec_signal pb (enc_signal pb p) = Some p" "enc_signal pb no_fields = []"
  using assms by (simp_all add: signal_sound_def)

lemma enc_signal_not_Nil: "signal_sound c pb \<Longrightarrow> sm_ratchet_key p \<noteq> None \<Longrightarrow> enc_signal pb p \<noteq> []"
  by (metis no_fields_def option.inject signal_message_proto.select_convs(1) signal_soundD(3,4))

section \<open>The wire form\<close>

text \<open>What identifies the sender's chain on the wire: ratchet key, previous counter, identities.\<close>

record sender_view =
  v_ratchet_pub :: bytes
  v_previous :: u32
  v_local :: bytes
  v_remote :: bytes

definition view_of :: "session_state \<Rightarrow> sender_view" where
  "view_of st =
    \<lparr>v_ratchet_pub = (case sender_ratchet_pub st of Some p \<Rightarrow> p | None \<Rightarrow> []), v_previous = previous_counter st,
     v_local = local_identity_pub st, v_remote = remote_identity_pub st\<rparr>"

definition whisper_body :: "signal_crypto \<Rightarrow> signal_codec \<Rightarrow> sender_view \<Rightarrow> chain_key \<Rightarrow> bytes \<Rightarrow> bytes" where
  "whisper_body c pb v chain m =
    WHISPER_VERSION # enc_signal pb
      \<lparr>sm_ratchet_key = Some (0x05 # v_ratchet_pub v), sm_counter = Some (ck_index chain),
       sm_previous_counter = Some (v_previous v),
       sm_ciphertext = Some (cbc_enc c (mk_cipher (derive_message_keys c chain))
         (mk_iv (derive_message_keys c chain)) m)\<rparr>"

definition whisper_mac :: "signal_crypto \<Rightarrow> signal_codec \<Rightarrow> sender_view \<Rightarrow> chain_key \<Rightarrow> bytes \<Rightarrow> bytes" where
  "whisper_mac c pb v chain m =
    take MAC_TRUNCATION_BYTES (compute_message_mac c (mk_mac (derive_message_keys c chain))
      (v_local v) (v_remote v) (whisper_body c pb v chain m))"

definition whisper_wire :: "signal_crypto \<Rightarrow> signal_codec \<Rightarrow> sender_view \<Rightarrow> chain_key \<Rightarrow> bytes \<Rightarrow> bytes" where
  "whisper_wire c pb v chain m = whisper_body c pb v chain m @ whisper_mac c pb v chain m"

lemma mk_counter_derive [simp]: "mk_counter (derive_message_keys c ck) = ck_index ck"
  by (simp add: derive_message_keys_def Let_def)

lemma session_encrypt_Ok:
  assumes "sender_chain st = Some chain" "sender_ratchet_pub st = Some pub"
  shows "session_encrypt c pb fresh m st =
    (Ok \<lparr>serialized = whisper_wire c pb (view_of st) chain m, message_type_of = Whisper\<rparr>,
     st\<lparr>sender_chain := Some (next_chain c chain)\<rparr>)"
  using assms
  by (simp add: session_encrypt_def sbind_def slift_def whisper_wire_def whisper_body_def whisper_mac_def
      view_of_def Let_def)

text \<open>A sender's messages in a row.\<close>

lemma session_encrypt_run:
  "sender_chain st = Some chain \<Longrightarrow> sender_ratchet_pub st = Some pub \<Longrightarrow>
    \<exists>st'. deliver (session_encrypt c pb fresh) ms st =
      (map (\<lambda>j. Ok \<lparr>serialized = whisper_wire c pb (view_of st) (chain_at c chain j) (ms ! j),
                     message_type_of = Whisper\<rparr>) [0..<length ms], st')"
proof (induction ms arbitrary: st chain)
  case (Cons m ms)
  let ?st = "st\<lparr>sender_chain := Some (next_chain c chain)\<rparr>"
  have v: "view_of ?st = view_of st" by (simp add: view_of_def)
  from Cons.IH [of ?st "next_chain c chain"] Cons.prems obtain st' where st':
    "deliver (session_encrypt c pb fresh) ms ?st =
      (map (\<lambda>j. Ok \<lparr>serialized = whisper_wire c pb (view_of st) (chain_at c (next_chain c chain) j) (ms ! j),
                     message_type_of = Whisper\<rparr>) [0..<length ms], st')"
    unfolding v by auto
  have "chain_at c (next_chain c chain) j = chain_at c chain (Suc j)" for j
    using chain_at_add [of c chain 1 j] by (simp add: chain_at_Suc)
  then show ?case
    using st' session_encrypt_Ok [OF Cons.prems, of c pb fresh m]
    by (simp add: upt_0_Suc comp_def del: upt_Suc)
qed simp

lemma whisper_mac_length: "signal_sound c pb \<Longrightarrow> length (whisper_mac c pb v chain m) = 8"
  by (simp add: whisper_mac_def MAC_TRUNCATION_BYTES_def compute_message_mac_def signal_soundD)

lemma parse_whisper_wire:
  assumes "signal_sound c pb" "length (v_ratchet_pub v) = 32"
  shows "parse_whisper pb (whisper_wire c pb v chain m) =
    Ok (whisper_body c pb v chain m, whisper_mac c pb v chain m, v_ratchet_pub v, ck_index chain,
        cbc_enc c (mk_cipher (derive_message_keys c chain)) (mk_iv (derive_message_keys c chain)) m)"
proof -
  let ?p = "\<lparr>sm_ratchet_key = Some (0x05 # v_ratchet_pub v), sm_counter = Some (ck_index chain),
       sm_previous_counter = Some (v_previous v),
       sm_ciphertext = Some (cbc_enc c (mk_cipher (derive_message_keys c chain))
         (mk_iv (derive_message_keys c chain)) m)\<rparr>"
  have "enc_signal pb ?p \<noteq> []" using enc_signal_not_Nil [OF assms(1), of ?p] by simp
  then have len: "\<not> length (whisper_wire c pb v chain m) < 1 + MAC_TRUNCATION_BYTES + 1"
    using whisper_mac_length [OF assms(1), of v chain m]
    by (cases "enc_signal pb ?p") (auto simp: whisper_wire_def whisper_body_def MAC_TRUNCATION_BYTES_def)
  have cut: "length (whisper_wire c pb v chain m) - MAC_TRUNCATION_BYTES = length (whisper_body c pb v chain m)"
    using whisper_mac_length [OF assms(1), of v chain m] by (simp add: whisper_wire_def MAC_TRUNCATION_BYTES_def)
  have "whisper_wire c pb v chain m ! 0 = WHISPER_VERSION"
    by (simp add: whisper_wire_def whisper_body_def)
  with len show ?thesis
    unfolding parse_whisper_def Let_def cut
    by (simp add: guard_err_def whisper_wire_def)
       (simp add: whisper_body_def signal_soundD [OF assms(1)] unwrap_djb_pub_def assms(2) or_default_def)
qed

section \<open>The receiver of one chain\<close>

text \<open>A receiver chain that started at \<open>oc\<close> and has taken exactly the messages at \<open>used\<close>: it has
  walked to some position past them and holds the keys of the others.\<close>

definition tracks :: "signal_crypto \<Rightarrow> chain_key \<Rightarrow> nat set \<Rightarrow> receiver_chain \<Rightarrow> bool" where
  "tracks c oc used rc \<longleftrightarrow>
    (\<exists>n \<le> Suc MAX_SKIPPED_MESSAGE_KEYS. rc_chain rc = chain_at c oc n \<and>
       cache_of c (derive_message_keys c) oc used n (skipped_keys rc))"

definition expects ::
  "signal_crypto \<Rightarrow> signal_codec \<Rightarrow> sender_view \<Rightarrow> chain_key \<Rightarrow> nat set \<Rightarrow> session_state \<Rightarrow> bool" where
  "expects c pb v oc used st \<longleftrightarrow>
    signal_sound c pb \<and> length (v_ratchet_pub v) = 32 \<and> ck_index oc = 0 \<and>
    remote_identity_pub st = v_local v \<and> local_identity_pub st = v_remote v \<and>
    (\<exists>i. position (\<lambda>rc. remote_ratchet_pub rc = v_ratchet_pub v) (receiver_chains st) = Some i \<and>
       tracks c oc used (receiver_chains st ! i))"

lemma chain_at_index0:
  "ck_index oc = 0 \<Longrightarrow> n \<le> Suc MAX_SKIPPED_MESSAGE_KEYS \<Longrightarrow> unat (ck_index (chain_at c oc n)) = n"
  by (simp add: chain_at_index MAX_SKIPPED_MESSAGE_KEYS_def)

lemma select_keys_cached:
  assumes "tracks c oc used (receiver_chains st ! i)" "ck_index oc = 0"
    and "ck_index (chain_at c oc j) < ck_index (rc_chain (receiver_chains st ! i))" "j \<le> MAX_SKIPPED_MESSAGE_KEYS"
  shows "j \<in> used \<Longrightarrow> select_message_keys c i (ck_index (chain_at c oc j)) st
      = (Err (Malformed ''counter out of range''), st)"
    and "j \<notin> used \<Longrightarrow> \<exists>p. select_message_keys c i (ck_index (chain_at c oc j)) st
      = (Ok (derive_message_keys c (chain_at c oc j), None, Some p), st) \<and>
        tracks c oc (insert j used)
          ((receiver_chains st ! i)\<lparr>skipped_keys := remove_at p (skipped_keys (receiver_chains st ! i))\<rparr>)"
proof -
  let ?rc = "receiver_chains st ! i"
  from assms(1) obtain n where n: "n \<le> Suc MAX_SKIPPED_MESSAGE_KEYS" "rc_chain ?rc = chain_at c oc n"
    and cache: "cache_of c (derive_message_keys c) oc used n (skipped_keys ?rc)"
    unfolding tracks_def by blast
  have j: "j < n" and n32: "unat (ck_index oc) + n < 2 ^ 32"
    using assms(2-4) n(1) by (simp_all add: n(2) word_less_nat_alt chain_at_index0 MAX_SKIPPED_MESSAGE_KEYS_def)
  note look = cache_of_lookup [OF cache n32 j mk_counter_derive]
  show "j \<in> used \<Longrightarrow> select_message_keys c i (ck_index (chain_at c oc j)) st
      = (Err (Malformed ''counter out of range''), st)"
    using assms(3) look(1) by (simp add: select_message_keys_def Let_def)
  assume "j \<notin> used"
  from look(2) [OF this] assms(3) n show "\<exists>p. select_message_keys c i (ck_index (chain_at c oc j)) st
      = (Ok (derive_message_keys c (chain_at c oc j), None, Some p), st) \<and>
        tracks c oc (insert j used) (?rc\<lparr>skipped_keys := remove_at p (skipped_keys ?rc)\<rparr>)"
    by (auto simp: select_message_keys_def Let_def tracks_def)
qed

lemma select_keys_ahead:
  assumes "tracks c oc used (receiver_chains st ! i)" "ck_index oc = 0"
    and "\<not> ck_index (chain_at c oc j) < ck_index (rc_chain (receiver_chains st ! i))"
    and "j \<le> MAX_SKIPPED_MESSAGE_KEYS"
  shows "j \<notin> used \<and> (\<exists>ks. select_message_keys c i (ck_index (chain_at c oc j)) st
      = (Ok (derive_message_keys c (chain_at c oc j), Some (chain_at c oc (Suc j)), None),
         set_chain i (\<lambda>rc. rc\<lparr>skipped_keys := skipped_keys rc @ ks\<rparr>) st) \<and>
        tracks c oc (insert j used)
          ((receiver_chains st ! i)\<lparr>skipped_keys := skipped_keys (receiver_chains st ! i) @ ks,
             rc_chain := chain_at c oc (Suc j)\<rparr>))"
proof -
  let ?rc = "receiver_chains st ! i"
  from assms(1) obtain n where n: "n \<le> Suc MAX_SKIPPED_MESSAGE_KEYS" "rc_chain ?rc = chain_at c oc n"
    and cache: "cache_of c (derive_message_keys c) oc used n (skipped_keys ?rc)"
    unfolding tracks_def by blast
  have jn: "n \<le> j" and j32: "unat (ck_index oc) + j < 2 ^ 32" and idx: "unat (ck_index (chain_at c oc n)) = n"
      "unat (ck_index (chain_at c oc j)) = j"
    using assms(2-4) n(1) by (simp_all add: n(2) word_less_nat_alt chain_at_index0 MAX_SKIPPED_MESSAGE_KEYS_def)
  obtain new where
    w: "walk c (derive_message_keys c) (ck_index (chain_at c oc j)) (chain_at c oc n) = (new, chain_at c oc j)"
    and cache': "cache_of c (derive_message_keys c) oc (insert j used) (Suc j) (skipped_keys ?rc @ new)"
    and j: "j \<notin> used" by (rule cache_of_walk [OF cache jn j32])
  have "unat (ck_index (chain_at c oc j) - ck_index (chain_at c oc n)) = j - n"
    using idx jn by (simp add: unat_sub word_le_nat_alt)
  then have "\<not> length (skipped_keys ?rc) + unat (ck_index (chain_at c oc j) - ck_index (rc_chain ?rc))
      > MAX_SKIPPED_MESSAGE_KEYS"
    using jn assms(4) cache_of_length [OF cache] by (simp add: n(2))
  with assms(3) w have "select_message_keys c i (ck_index (chain_at c oc j)) st
      = (Ok (derive_message_keys c (chain_at c oc j), Some (chain_at c oc (Suc j)), None),
         set_chain i (\<lambda>rc. rc\<lparr>skipped_keys := skipped_keys rc @ new\<rparr>) st)"
    by (simp add: select_message_keys_def Let_def n(2) chain_at_Suc)
  moreover have "tracks c oc (insert j used)
      (?rc\<lparr>skipped_keys := skipped_keys ?rc @ new, rc_chain := chain_at c oc (Suc j)\<rparr>)"
    unfolding tracks_def using assms(4) cache' by (intro exI [of _ "Suc j"]) simp
  ultimately show ?thesis using j by blast
qed

lemma position_update:
  "position P xs = Some i \<Longrightarrow> P y \<Longrightarrow> position P (xs[i := y]) = Some i"
  by (auto simp: position_Some)

lemma set_chain_nth: "i < length (receiver_chains st) \<Longrightarrow>
    receiver_chains (set_chain i f st) ! i = f (receiver_chains st ! i)"
  by (simp add: set_chain_def)

lemma set_chain_fields [simp]:
  "remote_identity_pub (set_chain i f st) = remote_identity_pub st"
  "local_identity_pub (set_chain i f st) = local_identity_pub st"
  "length (receiver_chains (set_chain i f st)) = length (receiver_chains st)"
  by (simp_all add: set_chain_def)

lemma set_chain_set_chain:
  "i < length (receiver_chains st) \<Longrightarrow> set_chain i f (set_chain i g st) = set_chain i (f \<circ> g) st"
  by (simp add: set_chain_def)

lemma expects_set_chain:
  assumes "expects c pb v oc used st"
    and "position (\<lambda>rc. remote_ratchet_pub rc = v_ratchet_pub v) (receiver_chains st) = Some i"
    and "remote_ratchet_pub (f (receiver_chains st ! i)) = remote_ratchet_pub (receiver_chains st ! i)"
    and "tracks c oc used' (f (receiver_chains st ! i))"
  shows "expects c pb v oc used' (set_chain i f st)"
proof -
  from assms(2) have i: "i < length (receiver_chains st)"
    "remote_ratchet_pub (receiver_chains st ! i) = v_ratchet_pub v" by (auto simp: position_Some)
  have "position (\<lambda>rc. remote_ratchet_pub rc = v_ratchet_pub v) (receiver_chains (set_chain i f st)) = Some i"
    unfolding set_chain_def using position_update [OF assms(2)] assms(3) i(2) by simp
  with assms(1,4) set_chain_nth [OF i(1), of f] show ?thesis by (simp add: expects_def)
qed

lemma session_decrypt_wire:
  assumes "expects c pb v oc used st" "j \<le> MAX_SKIPPED_MESSAGE_KEYS"
  shows "j \<notin> used \<Longrightarrow> \<exists>st'. session_decrypt c pb fresh (whisper_wire c pb v (chain_at c oc j) m) st = (Ok m, st') \<and>
      expects c pb v oc (insert j used) st'"
    and "j \<in> used \<Longrightarrow> session_decrypt c pb fresh (whisper_wire c pb v (chain_at c oc j) m) st
      = (Err (Malformed ''counter out of range''), st)"
proof -
  from assms(1) obtain i where
    i: "position (\<lambda>rc. remote_ratchet_pub rc = v_ratchet_pub v) (receiver_chains st) = Some i"
    and t: "tracks c oc used (receiver_chains st ! i)" and ok: "signal_sound c pb" "length (v_ratchet_pub v) = 32"
    and oc: "ck_index oc = 0"
    and ids: "remote_identity_pub st = v_local v" "local_identity_pub st = v_remote v"
    by (auto simp: expects_def)
  from i have il: "i < length (receiver_chains st)" by (simp add: position_Some)
  have find: "find_receiver_chain c fresh (v_ratchet_pub v) st = (Ok i, st)"
    by (simp add: find_receiver_chain_def i)
  let ?sel = "select_message_keys c i (ck_index (chain_at c oc j)) st"
  let ?w = "whisper_wire c pb v (chain_at c oc j) m"
  have step: "session_decrypt c pb fresh ?w st = (Ok m, commit_keys i adv ev st')"
    if "?sel = (Ok (derive_message_keys c (chain_at c oc j), adv, ev), st')"
      "remote_identity_pub st' = v_local v" "local_identity_pub st' = v_remote v" for adv ev st'
    unfolding session_decrypt_def parse_whisper_wire [OF ok] sbind_slift prod.case
    by (simp add: sbind_def find that whisper_mac_def [symmetric] signal_soundD [OF ok(1)] Let_def)
  show "session_decrypt c pb fresh ?w st = (Err (Malformed ''counter out of range''), st)" if "j \<in> used"
  proof -
    from select_keys_ahead [OF t oc _ assms(2)] that
    have "ck_index (chain_at c oc j) < ck_index (rc_chain (receiver_chains st ! i))" by blast
    from select_keys_cached(1) [OF t oc this assms(2) that] show ?thesis
      unfolding session_decrypt_def parse_whisper_wire [OF ok] sbind_slift prod.case
      by (simp add: sbind_def find)
  qed
  assume new: "j \<notin> used"
  show "\<exists>st'. session_decrypt c pb fresh ?w st = (Ok m, st') \<and> expects c pb v oc (insert j used) st'"
  proof (cases "ck_index (chain_at c oc j) < ck_index (rc_chain (receiver_chains st ! i))")
    case True
    from select_keys_cached(2) [OF t oc True assms(2) new] obtain p where
      p: "?sel = (Ok (derive_message_keys c (chain_at c oc j), None, Some p), st)"
      "tracks c oc (insert j used)
          ((receiver_chains st ! i)\<lparr>skipped_keys := remove_at p (skipped_keys (receiver_chains st ! i))\<rparr>)"
      by blast
    have "expects c pb v oc (insert j used) (commit_keys i None (Some p) st)"
      using expects_set_chain [OF assms(1) i, of "\<lambda>rc. rc\<lparr>skipped_keys := remove_at p (skipped_keys rc)\<rparr>"] p(2)
      by (simp add: commit_keys_def)
    with step [OF p(1) ids] show ?thesis by blast
  next
    case False
    from select_keys_ahead [OF t oc False assms(2)] obtain ks where
      ks: "?sel = (Ok (derive_message_keys c (chain_at c oc j), Some (chain_at c oc (Suc j)), None),
         set_chain i (\<lambda>rc. rc\<lparr>skipped_keys := skipped_keys rc @ ks\<rparr>) st)"
      "tracks c oc (insert j used)
          ((receiver_chains st ! i)\<lparr>skipped_keys := skipped_keys (receiver_chains st ! i) @ ks,
             rc_chain := chain_at c oc (Suc j)\<rparr>)" by blast
    have "expects c pb v oc (insert j used) (commit_keys i (Some (chain_at c oc (Suc j))) None
        (set_chain i (\<lambda>rc. rc\<lparr>skipped_keys := skipped_keys rc @ ks\<rparr>) st))"
      using expects_set_chain [OF assms(1) i, of "(\<lambda>rc. rc\<lparr>rc_chain := chain_at c oc (Suc j)\<rparr>) \<circ>
          (\<lambda>rc. rc\<lparr>skipped_keys := skipped_keys rc @ ks\<rparr>)"] ks(2)
      by (simp add: commit_keys_def set_chain_set_chain [OF il])
    with step [OF ks(1)] ids show ?thesis by simp
  qed
qed

interpretation session: mailbox "session_decrypt c pb fresh" "expects c pb v oc"
    "\<lambda>j m. whisper_wire c pb v (chain_at c oc j) m" "Suc MAX_SKIPPED_MESSAGE_KEYS"
  for c pb fresh v oc
  by unfold_locales (use session_decrypt_wire in \<open>auto simp: less_Suc_eq_le\<close>)

section \<open>X3DH\<close>

text \<open>Two parties' parameters that belong together: each knows the other's public keys, and every
  shared secret is the same from both sides.\<close>

definition x3dh_matches :: "signal_crypto \<Rightarrow> alice_parameters \<Rightarrow> bob_parameters \<Rightarrow> bool" where
  "x3dh_matches c a b \<longleftrightarrow>
    b_remote_identity_pub b = a_identity_pub a \<and> a_remote_identity_pub a = b_identity_pub b \<and>
    b_remote_ratchet_pub b = a_ratchet_pub a \<and>
    dh c (a_identity_priv a) (a_remote_signed_prekey_pub a) = dh c (b_signed_prekey_priv b) (b_remote_identity_pub b) \<and>
    dh c (a_base_priv a) (a_remote_identity_pub a) = dh c (b_identity_priv b) (b_remote_base_pub b) \<and>
    dh c (a_base_priv a) (a_remote_signed_prekey_pub a) = dh c (b_signed_prekey_priv b) (b_remote_base_pub b) \<and>
    dh c (a_ratchet_priv a) (a_remote_signed_prekey_pub a) = dh c (b_signed_prekey_priv b) (b_remote_ratchet_pub b) \<and>
    map_option (dh c (a_base_priv a)) (a_remote_one_time_prekey_pub a)
      = map_option (\<lambda>opk. dh c opk (b_remote_base_pub b)) (b_one_time_prekey_priv b)"

lemma x3dh_agreement:
  assumes "x3dh_matches c a b"
  shows "\<exists>k. sender_chain (initiate_alice c a) = Some (new_chain k 0) \<and>
    root_key (process_bob c b) = root_key (initiate_alice c a) \<and>
    receiver_chains (process_bob c b) =
      [\<lparr>remote_ratchet_pub = a_ratchet_pub a, rc_chain = new_chain k 0, skipped_keys = []\<rparr>]"
proof -
  let ?opk = "case a_remote_one_time_prekey_pub a of Some opk \<Rightarrow> [dh c (a_base_priv a) opk] | None \<Rightarrow> []"
  have "?opk = (case b_one_time_prekey_priv b of Some opk \<Rightarrow> [dh c opk (b_remote_base_pub b)] | None \<Rightarrow> [])"
    using assms by (cases "a_remote_one_time_prekey_pub a"; cases "b_one_time_prekey_priv b")
      (auto simp: x3dh_matches_def)
  with assms show ?thesis
    by (auto simp: x3dh_matches_def initiate_alice_def process_bob_def Let_def split_beta)
qed

text \<open>Bob's new session expects the first message of Alice's chain.\<close>

lemma x3dh_start:
  assumes "signal_sound c pb" "x3dh_matches c a b" "length (a_ratchet_pub a) = 32"
  obtains oc where "sender_chain (initiate_alice c a) = Some oc"
    "sender_ratchet_pub (initiate_alice c a) = Some (a_ratchet_pub a)"
    "expects c pb (view_of (initiate_alice c a)) oc {} (process_bob c b)"
proof -
  obtain k where k: "sender_chain (initiate_alice c a) = Some (new_chain k 0)"
    "receiver_chains (process_bob c b) =
      [\<lparr>remote_ratchet_pub = a_ratchet_pub a, rc_chain = new_chain k 0, skipped_keys = []\<rparr>]"
    using x3dh_agreement [OF assms(2)] by blast
  have pub: "sender_ratchet_pub (initiate_alice c a) = Some (a_ratchet_pub a)"
    and ids: "local_identity_pub (initiate_alice c a) = a_identity_pub a"
      "remote_identity_pub (initiate_alice c a) = a_remote_identity_pub a"
      "local_identity_pub (process_bob c b) = b_identity_pub b"
      "remote_identity_pub (process_bob c b) = b_remote_identity_pub b"
    by (simp_all add: initiate_alice_def process_bob_def Let_def split_beta)
  have "tracks c (new_chain k 0) {} (receiver_chains (process_bob c b) ! 0)"
    unfolding tracks_def k(2) by (intro exI [of _ 0]) simp
  then have "expects c pb (view_of (initiate_alice c a)) (new_chain k 0) {} (process_bob c b)"
    using assms pub ids by (simp add: expects_def k(2) view_of_def new_chain_def x3dh_matches_def)
  with k(1) pub show ?thesis by (rule that)
qed

section \<open>Bounds and invariants\<close>

text \<open>What memory a session may take, whatever its peer sends.\<close>

definition bounded_session :: "session_state \<Rightarrow> bool" where
  "bounded_session st \<longleftrightarrow> length (receiver_chains st) \<le> MAX_RECEIVER_CHAINS \<and>
    list_all (\<lambda>rc. length (skipped_keys rc) \<le> MAX_SKIPPED_MESSAGE_KEYS) (receiver_chains st)"

lemma bounded_set_chain:
  assumes "bounded_session st" "i < length (receiver_chains st) \<Longrightarrow>
    length (skipped_keys (f (receiver_chains st ! i))) \<le> MAX_SKIPPED_MESSAGE_KEYS"
  shows "bounded_session (set_chain i f st)"
proof (cases "i < length (receiver_chains st)")
  case True
  with assms show ?thesis
    by (auto simp: bounded_session_def set_chain_def list_all_iff dest: subsetD [OF set_update_subset_insert])
next
  case False
  then have "set_chain i f st = st" by (cases st) (simp add: set_chain_def list_update_beyond)
  with assms(1) show ?thesis by simp
qed

lemma bounded_select:
  assumes "bounded_session st" "select_message_keys c i n st = (r, st')"
  shows "bounded_session st'"
proof -
  let ?rc = "receiver_chains st ! i"
  have "bounded_session (set_chain i (\<lambda>rc. rc\<lparr>skipped_keys := skipped_keys rc @ ks\<rparr>) st)"
    if "walk c (derive_message_keys c) n (rc_chain ?rc) = (ks, w)" "\<not> n < ck_index (rc_chain ?rc)"
      "\<not> MAX_SKIPPED_MESSAGE_KEYS < length (skipped_keys ?rc) + unat (n - ck_index (rc_chain ?rc))" for ks w
    using that(2,3) length_walk [of c "derive_message_keys c" n "rc_chain ?rc"]
    by (intro bounded_set_chain [OF assms(1)]) (simp add: that(1) unat_sub not_less)
  with assms show ?thesis
    by (auto simp: select_message_keys_def Let_def split: if_splits option.splits prod.splits)
qed

lemma bounded_commit:
  assumes "bounded_session st"
  shows "bounded_session (commit_keys i adv ev st)"
proof -
  have skipped: "length (skipped_keys (receiver_chains st ! i)) \<le> MAX_SKIPPED_MESSAGE_KEYS"
    if "bounded_session st" "i < length (receiver_chains st)" for st
    using that by (auto simp: bounded_session_def list_all_length)
  have "bounded_session (case adv of Some ck \<Rightarrow> set_chain i (\<lambda>rc. rc\<lparr>rc_chain := ck\<rparr>) st | None \<Rightarrow> st)"
    using assms skipped by (auto intro: bounded_set_chain split: option.split)
  moreover have "bounded_session (set_chain i (\<lambda>rc. rc\<lparr>skipped_keys := remove_at p (skipped_keys rc)\<rparr>) st)"
    if "bounded_session st" for p st
    using that skipped [OF that] by (intro bounded_set_chain) (auto simp: remove_at_def)
  ultimately show ?thesis by (simp add: commit_keys_def Let_def split: option.split)
qed

lemma bounded_find: "keeps bounded_session (find_receiver_chain c fresh r)"
proof -
  have "keeps bounded_session (dh_ratchet_step c fresh r)"
    by (rule keepsI)
       (auto simp: dh_ratchet_step_def bounded_session_def Let_def list_all_iff MAX_RECEIVER_CHAINS_def
         take_Cons' split: option.splits prod.splits dest: in_set_takeD)
  then have "keeps bounded_session (sbind (dh_ratchet_step c fresh r) (\<lambda>_. slift (Ok 0)))"
    by (intro keeps_sbind keeps_slift)
  then show ?thesis
    by (auto simp: find_receiver_chain_def keeps_def split: option.splits)
qed

lemma bounded_decrypt: "keeps bounded_session (session_decrypt c pb fresh wire)"
  unfolding session_decrypt_def
proof (intro keeps_sbind keeps_slift, unfold split_beta, intro keeps_sbind bounded_find)
  show "keeps bounded_session (select_message_keys c i n)" for i n
    by (rule keepsI) (rule bounded_select)
qed (auto simp: keeps_def Let_def bounded_commit split: if_splits option.splits)

section \<open>A concrete instance\<close>

text \<open>A codec and primitives that satisfy the assumptions.\<close>

primrec put_bytes :: "bytes \<Rightarrow> bytes" where
  "put_bytes [] = [0]"
| "put_bytes (x # xs) = 1 # x # put_bytes xs"

fun get_bytes :: "bytes \<Rightarrow> bytes \<times> bytes" where
  "get_bytes (f # x # r) = (if f = 0 then ([], x # r) else (case get_bytes r of (xs, r') \<Rightarrow> (x # xs, r')))"
| "get_bytes r = ([], [])"

lemma get_put_bytes: "get_bytes (put_bytes xs @ r) = (xs, r)"
  by (induction xs) (cases r; simp)+

definition put_opt :: "bytes option \<Rightarrow> bytes" where
  "put_opt x = (case x of None \<Rightarrow> [0] | Some b \<Rightarrow> 1 # put_bytes b)"

definition get_opt :: "bytes \<Rightarrow> bytes option \<times> bytes" where
  "get_opt b = (if hd b = 0 then (None, tl b) else (case get_bytes (tl b) of (x, r) \<Rightarrow> (Some x, r)))"

lemma get_put_opt: "get_opt (put_opt x @ r) = (x, r)"
  by (cases x) (simp_all add: get_opt_def put_opt_def get_put_bytes)

definition put_u32 :: "u32 option \<Rightarrow> bytes" where
  "put_u32 n = put_opt (map_option (\<lambda>n. be_bytes 4 (unat n)) n)"

definition get_u32 :: "bytes \<Rightarrow> u32 option \<times> bytes" where
  "get_u32 b = (case get_opt b of (x, r) \<Rightarrow> (map_option (\<lambda>b. word_of_nat (be_nat b)) x, r))"

lemma get_put_u32: "get_u32 (put_u32 n @ r) = (n, r)"
proof -
  have "(word_of_nat (unat n mod 256 ^ 4) :: u32) = n" for n :: u32
    using unsigned_less [of n, where 'a = nat] by simp
  then show ?thesis by (cases n) (simp_all add: get_u32_def put_u32_def get_put_opt)
qed

definition toy_codec_signal :: signal_codec where
  "toy_codec_signal =
    \<lparr>enc_signal = (\<lambda>p. if p = no_fields then [] else put_opt (sm_ratchet_key p) @ put_u32 (sm_counter p) @
       put_u32 (sm_previous_counter p) @ put_opt (sm_ciphertext p)),
     dec_signal = (\<lambda>b. if b = [] then Some no_fields else
       (case get_opt b of (k, b) \<Rightarrow> case get_u32 b of (n, b) \<Rightarrow> case get_u32 b of (p, b) \<Rightarrow>
        case get_opt b of (ct, b) \<Rightarrow>
          Some \<lparr>sm_ratchet_key = k, sm_counter = n, sm_previous_counter = p, sm_ciphertext = ct\<rparr>)),
     enc_pre_key = (\<lambda>p. put_u32 (pk_registration_id p) @ put_u32 (pk_pre_key_id p) @
       put_u32 (pk_signed_pre_key_id p) @ put_opt (pk_base_key p) @ put_opt (pk_identity_key p) @
       put_opt (pk_message p)),
     dec_pre_key = (\<lambda>b. case get_u32 b of (a, b) \<Rightarrow> case get_u32 b of (d, b) \<Rightarrow> case get_u32 b of (e, b) \<Rightarrow>
       case get_opt b of (k, b) \<Rightarrow> case get_opt b of (i, b) \<Rightarrow> case get_opt b of (m, b) \<Rightarrow>
          Some \<lparr>pk_registration_id = a, pk_pre_key_id = d, pk_signed_pre_key_id = e, pk_base_key = k,
                pk_identity_key = i, pk_message = m\<rparr>)\<rparr>"

definition toy_signal :: signal_crypto where
  "toy_signal =
    \<lparr>hmac = (\<lambda>k m. take 32 (k @ m @ replicate 32 0)),
     hkdf = (\<lambda>s i info n. take n (i @ replicate n 0)),
     cbc_enc = (\<lambda>k iv m. m), cbc_dec = (\<lambda>k iv m. Some m),
     dh = (\<lambda>a b. map2 (XOR) a b), xeddsa_sign = (\<lambda>k m. replicate 64 1),
     xeddsa_verify = (\<lambda>k m s. s = replicate 64 1)\<rparr>"

lemma put_opt_not_Nil [simp]: "put_opt x \<noteq> []"
  by (cases x) (simp_all add: put_opt_def)

lemma get_put_u32_end: "get_u32 (put_u32 n) = (n, [])" and get_put_opt_end: "get_opt (put_opt x) = (x, [])"
  using get_put_u32 [of n "[]"] get_put_opt [of x "[]"] by simp_all

lemma toy_codec_rt:
  "dec_signal toy_codec_signal (enc_signal toy_codec_signal p) = Some p"
  "dec_pre_key toy_codec_signal (enc_pre_key toy_codec_signal q) = Some q"
  by (simp_all add: toy_codec_signal_def get_put_u32 get_put_opt get_put_opt_end)

lemma toy_signal_sound: "signal_sound toy_signal toy_codec_signal"
  unfolding signal_sound_def
  by (intro conjI allI toy_codec_rt) (simp_all add: toy_signal_def toy_codec_signal_def)

definition toy_key32 :: bytes where "toy_key32 = replicate 32 3"

definition toy_alice :: alice_parameters where
  "toy_alice = \<lparr>a_identity_priv = toy_key32, a_identity_pub = toy_key32, a_base_priv = toy_key32,
     a_base_pub = toy_key32, a_ratchet_priv = toy_key32, a_ratchet_pub = toy_key32,
     a_remote_identity_pub = toy_key32, a_remote_signed_prekey_pub = toy_key32,
     a_remote_one_time_prekey_pub = Some toy_key32\<rparr>"

definition toy_bob :: bob_parameters where
  "toy_bob = \<lparr>b_identity_priv = toy_key32, b_identity_pub = toy_key32, b_signed_prekey_priv = toy_key32,
     b_one_time_prekey_priv = Some toy_key32, b_remote_identity_pub = toy_key32,
     b_remote_base_pub = toy_key32, b_remote_ratchet_pub = toy_key32\<rparr>"

lemma toy_matches: "x3dh_matches toy_signal toy_alice toy_bob" "length (a_ratchet_pub toy_alice) = 32"
  by (simp_all add: x3dh_matches_def toy_alice_def toy_bob_def toy_key32_def)

section \<open>Properties\<close>

text \<open>After X3DH, whatever Alice encrypts in a row is decrypted by Bob in whatever order and
  however often the messages arrive: each is accepted exactly once, the first time, and yields
  its plaintext; a replay is refused. (Up to 2,001 messages, the reach of the key cache.)\<close>

theorem x3dh_any_order:
  assumes "signal_sound c pb" "x3dh_matches c a b" "length (a_ratchet_pub a) = 32"
    and "length ms \<le> 2001" "deliver (session_encrypt c pb fresh) ms (initiate_alice c a) = (sent, st)"
    and "\<forall>j \<in> set js. j < length ms"
  shows "\<exists>outs st'. deliver (session_decrypt c pb fresh')
        (map (\<lambda>j. serialized (the_ok (sent ! j))) js) (process_bob c b) = (outs, st') \<and>
      map ok_value outs = map (map_option ((!) ms)) (first_seen {} js)"
proof -
  obtain oc where oc: "sender_chain (initiate_alice c a) = Some oc"
    "sender_ratchet_pub (initiate_alice c a) = Some (a_ratchet_pub a)"
    and start: "expects c pb (view_of (initiate_alice c a)) oc {} (process_bob c b)"
    by (rule x3dh_start [OF assms(1-3)])
  let ?wire = "\<lambda>j. whisper_wire c pb (view_of (initiate_alice c a)) (chain_at c oc j) (ms ! j)"
  have "sent = map (\<lambda>j. Ok \<lparr>serialized = ?wire j, message_type_of = Whisper\<rparr>) [0..<length ms]"
    using session_encrypt_run [OF oc, of c pb fresh ms] assms(5) by auto
  then have wires: "map (\<lambda>j. serialized (the_ok (sent ! j))) js = map ?wire js"
    using assms(6) by simp
  have "\<forall>j \<in> set js. j < Suc MAX_SKIPPED_MESSAGE_KEYS"
    using assms(4,6) by (auto simp: MAX_SKIPPED_MESSAGE_KEYS_def)
  with start show ?thesis
    unfolding wires using session.any_order [where js = js and m = "(!) ms" and fresh = fresh'] by blast
qed

theorem x3dh_any_order_witness:
  "\<exists>(sent :: (signal_error, ciphertext_message) outcome list) outs st'. deliver (session_decrypt toy_signal toy_codec_signal ([], []))
      (map (\<lambda>j. serialized (the_ok (sent ! j))) [1, 0, 1]) (process_bob toy_signal toy_bob) = (outs, st') \<and>
    map ok_value outs = [Some [8], Some [7], None]"
proof -
  obtain sent st where s: "deliver (session_encrypt toy_signal toy_codec_signal ([], [])) [[7], [8]]
      (initiate_alice toy_signal toy_alice) = (sent, st)" by fastforce
  obtain outs st' where "deliver (session_decrypt toy_signal toy_codec_signal ([], []))
      (map (\<lambda>j. serialized (the_ok (sent ! j))) [1, 0, 1]) (process_bob toy_signal toy_bob) = (outs, st')"
    "map ok_value outs = map (map_option ((!) [[7], [8]])) (first_seen {} [1, 0, 1])"
    using x3dh_any_order [OF toy_signal_sound toy_matches _ s, of "[1, 0, 1]" "([], [])"] by auto
  then show ?thesis by (intro exI [of _ sent] exI [of _ outs] exI [of _ st']) simp
qed

text \<open>A session's memory is bounded whatever its peer sends: any sequence of wire messages,
  genuine or forged, leaves at most five receiver chains with at most two thousand cached
  message keys each.\<close>

theorem session_memory_bounded:
  assumes "bounded_session st" "deliver (session_decrypt c pb fresh) wires st = (outs, st')"
  shows "bounded_session st'"
  using keepsD [OF keeps_deliver [OF bounded_decrypt] assms] .

theorem session_memory_bounded_witness:
  "bounded_session (snd (deliver (session_decrypt toy_signal toy_codec_signal ([], [])) [[1], []]
      (process_bob toy_signal toy_bob)))"
proof -
  have "bounded_session (process_bob toy_signal toy_bob)"
    by (simp add: bounded_session_def process_bob_def Let_def split_beta MAX_RECEIVER_CHAINS_def)
  then show ?thesis by (rule session_memory_bounded) (rule prod.collapse [symmetric])
qed

text \<open>An unknown ratchet key steps the Diffie-Hellman ratchet before the message is
  authenticated: whatever the outcome (a bad MAC included), the state that is left has the fresh
  sender key and a new first receiver chain, so a caller must discard it on an error.\<close>

theorem ratchet_steps_before_authentication:
  assumes "parse_whisper pb wire = Ok (body, mac, r, n, ct)"
    and "r \<notin> remote_ratchet_pub ` set (receiver_chains st)" "sender_ratchet_priv st = Some priv"
    and "session_decrypt c pb fresh wire st = (res, st')"
  shows "sender_ratchet_pub st' = Some (snd fresh) \<and> receiver_chains st' \<noteq> [] \<and>
    remote_ratchet_pub (hd (receiver_chains st')) = r"
proof -
  define I where "I = (\<lambda>s :: session_state. sender_ratchet_pub s = Some (snd fresh) \<and> receiver_chains s \<noteq> [] \<and>
    remote_ratchet_pub (hd (receiver_chains s)) = r)"
  have set: "I (set_chain i f s)" if "I s" "\<And>rc. remote_ratchet_pub (f rc) = remote_ratchet_pub rc" for i f s
    using that by (cases "receiver_chains s"; cases i) (auto simp: I_def set_chain_def)
  have "position (\<lambda>rc. remote_ratchet_pub rc = r) (receiver_chains st) = None"
    using assms(2) by (auto simp: position_None)
  moreover obtain s1 where "dh_ratchet_step c fresh r st = (Ok (), s1)" "I s1"
    using assms(3) by (simp add: dh_ratchet_step_def I_def Let_def split_beta MAX_RECEIVER_CHAINS_def)
  ultimately have s1: "find_receiver_chain c fresh r st = (Ok 0, s1)" "I s1"
    by (simp_all add: find_receiver_chain_def sbind_Ok slift_def)
  have sel: "keeps I (select_message_keys c 0 n)"
    by (rule keepsI) (auto simp: select_message_keys_def Let_def set split: if_splits option.splits prod.splits)
  have commit: "I (commit_keys i adv ev s)" if "I s" for i adv ev s
    using that by (auto simp: commit_keys_def Let_def set split: option.split)
  define rest where "rest = (\<lambda>(mks :: message_keys, advanced, evict) st.
      let expected_mac = compute_message_mac c (mk_mac mks) (remote_identity_pub st) (local_identity_pub st) body
      in if take MAC_TRUNCATION_BYTES expected_mac \<noteq> mac then (Err BadMac, st)
         else (case cbc_dec c (mk_cipher mks) (mk_iv mks) ct of
              None \<Rightarrow> (Err AesDecrypt, st) | Some plaintext \<Rightarrow> (Ok plaintext, commit_keys 0 advanced evict st)))"
  have "keeps I (rest x)" for x
    by (cases x) (auto simp: rest_def keeps_def Let_def commit split: if_splits option.splits)
  then have "keeps I (sbind (select_message_keys c 0 n) rest)" by (intro keeps_sbind sel)
  moreover have "sbind (select_message_keys c 0 n) rest s1 = (res, st')"
    using assms(4) s1(1) by (simp add: session_decrypt_def assms(1) sbind_Ok rest_def)
  ultimately have "I st'" using s1(2) by (auto dest: keepsD)
  then show ?thesis by (simp add: I_def)
qed

theorem ratchet_steps_before_authentication_witness:
  "\<exists>wire st res st'. session_decrypt toy_signal toy_codec_signal ([1], [2]) wire st = (res, st') \<and>
    sender_ratchet_pub st' = Some [2] \<and> receiver_chains st' \<noteq> [] \<and>
    remote_ratchet_pub (hd (receiver_chains st')) = replicate 32 9"
proof -
  let ?v = "\<lparr>v_ratchet_pub = replicate 32 9, v_previous = 0, v_local = [], v_remote = []\<rparr>"
  let ?wire = "whisper_wire toy_signal toy_codec_signal ?v (new_chain [] 0) [5]"
  let ?st = "(process_bob toy_signal toy_bob)\<lparr>sender_ratchet_priv := Some toy_key32\<rparr>"
  have "length (v_ratchet_pub ?v) = 32" by simp
  note p = parse_whisper_wire [OF toy_signal_sound this, of "new_chain [] 0" "[5]"]
  have k: "v_ratchet_pub ?v \<notin> remote_ratchet_pub ` set (receiver_chains ?st)"
    by (simp add: process_bob_def Let_def split_beta toy_bob_def toy_key32_def)
  have s: "sender_ratchet_priv ?st = Some toy_key32" by simp
  obtain res st' where "session_decrypt toy_signal toy_codec_signal ([1], [2]) ?wire ?st = (res, st')"
    by fastforce
  from ratchet_steps_before_authentication [OF p k s this] this show ?thesis
    by (intro exI [of _ ?wire] exI [of _ ?st] exI [of _ res] exI [of _ st']) simp
qed

lemma parse_pre_key_wire:
  assumes "signal_sound c pb" "\<forall>p. dec_pre_key pb (enc_pre_key pb p) = Some p"
    and "length (v_ratchet_pub v) = 32" "length bk = 32" "length ik = 32"
  shows "parse_pre_key_message pb (WHISPER_VERSION # enc_pre_key pb
      \<lparr>pk_registration_id = Some reg, pk_pre_key_id = opk, pk_signed_pre_key_id = Some spk,
       pk_base_key = Some (0x05 # bk), pk_identity_key = Some (0x05 # ik),
       pk_message = Some (whisper_wire c pb v oc m)\<rparr>) =
    Ok \<lparr>i_registration_id = reg, i_pre_key_id = opk, i_signed_pre_key_id = spk, i_base_key_pub = bk,
        i_identity_key_pub = ik, inner_ratchet_pub = v_ratchet_pub v, inner_whisper_wire = whisper_wire c pb v oc m\<rparr>"
proof -
  let ?w = "whisper_wire c pb v oc m"
  have "length ?w - MAC_TRUNCATION_BYTES = length (whisper_body c pb v oc m)"
    using whisper_mac_length [OF assms(1), of v oc m] by (simp add: whisper_wire_def MAC_TRUNCATION_BYTES_def)
  then have "tl (take (length ?w - MAC_TRUNCATION_BYTES) ?w) = tl (whisper_body c pb v oc m)"
    by (simp add: whisper_wire_def)
  then have inner: "\<exists>p. dec_signal pb (tl (take (length ?w - MAC_TRUNCATION_BYTES) ?w)) = Some p \<and>
      sm_ratchet_key p = Some (0x05 # v_ratchet_pub v)"
    by (simp add: whisper_body_def signal_soundD [OF assms(1)])
  from parse_whisper_wire [OF assms(1,3), of oc m]
  have "\<not> length ?w < 1 + MAC_TRUNCATION_BYTES + 1" "?w ! 0 = WHISPER_VERSION"
    by (auto simp: parse_whisper_def obind_eq_Ok)
  with inner assms(2-5) show ?thesis
    unfolding parse_pre_key_message_def
    by (auto simp: guard_err_def unwrap_djb_pub_def or_default_def)
qed

lemma encrypt_pre_key_Ok:
  assumes "sender_chain st = Some oc" "sender_ratchet_pub st = Some pub"
  shows "encrypt_pre_key c pb fresh m reg bk ik spk opk st =
    (Ok \<lparr>serialized = WHISPER_VERSION # enc_pre_key pb
      \<lparr>pk_registration_id = Some reg, pk_pre_key_id = opk, pk_signed_pre_key_id = Some spk,
       pk_base_key = Some (0x05 # bk), pk_identity_key = Some (0x05 # ik),
       pk_message = Some (whisper_wire c pb (view_of st) oc m)\<rparr>, message_type_of = PreKey\<rparr>,
     st\<lparr>sender_chain := Some (next_chain c oc)\<rparr>)"
  unfolding encrypt_pre_key_def by (simp add: sbind_def session_encrypt_Ok [OF assms] slift_def)

text \<open>The first message to a new peer. What Alice wraps in a pre-key envelope is unwrapped by
  Bob to the ids and keys she put in and to her first ratchet key; with the session he builds
  from them, the enclosed message decrypts.\<close>

theorem pre_key_first_message:
  assumes "signal_sound c pb" "\<forall>p. dec_pre_key pb (enc_pre_key pb p) = Some p" "x3dh_matches c a b"
    and "length (a_ratchet_pub a) = 32" "length bk = 32" "length ik = 32"
    and "encrypt_pre_key c pb fresh m reg bk ik spk opk (initiate_alice c a) = (Ok env, st)"
  shows "\<exists>inner st'. parse_pre_key_message pb (serialized env) =
      Ok \<lparr>i_registration_id = reg, i_pre_key_id = opk, i_signed_pre_key_id = spk, i_base_key_pub = bk,
          i_identity_key_pub = ik, inner_ratchet_pub = a_ratchet_pub a, inner_whisper_wire = inner\<rparr> \<and>
    session_decrypt c pb fresh' inner (process_bob c b) = (Ok m, st')"
proof -
  obtain oc where oc: "sender_chain (initiate_alice c a) = Some oc"
    and pub: "sender_ratchet_pub (initiate_alice c a) = Some (a_ratchet_pub a)"
    and start: "expects c pb (view_of (initiate_alice c a)) oc {} (process_bob c b)"
    by (rule x3dh_start [OF assms(1,3,4)])
  let ?v = "view_of (initiate_alice c a)"
  have vp: "length (v_ratchet_pub ?v) = 32" "v_ratchet_pub ?v = a_ratchet_pub a"
    using pub assms(4) by (simp_all add: view_of_def)
  note parse = parse_pre_key_wire [OF assms(1,2) vp(1) assms(5,6)]
  from assms(7) have "serialized env = WHISPER_VERSION # enc_pre_key pb
      \<lparr>pk_registration_id = Some reg, pk_pre_key_id = opk, pk_signed_pre_key_id = Some spk,
       pk_base_key = Some (0x05 # bk), pk_identity_key = Some (0x05 # ik),
       pk_message = Some (whisper_wire c pb ?v oc m)\<rparr>"
    by (auto simp: encrypt_pre_key_Ok [OF oc pub])
  moreover obtain st' where "session_decrypt c pb fresh' (whisper_wire c pb ?v oc m) (process_bob c b) = (Ok m, st')"
    using session.accepts [OF start, where j = 0 and m = m and fresh = fresh'] by auto
  ultimately show ?thesis by (auto simp: parse vp)
qed

theorem pre_key_first_message_witness:
  "\<exists>inner st'. session_decrypt toy_signal toy_codec_signal ([], []) inner (process_bob toy_signal toy_bob) = (Ok [5], st')"
proof -
  have "\<exists>env st. encrypt_pre_key toy_signal toy_codec_signal ([], []) [5] 1 toy_key32 toy_key32 2 (Some 3)
      (initiate_alice toy_signal toy_alice) = (Ok env, st)"
    by (simp add: encrypt_pre_key_def session_encrypt_def sbind_def slift_def initiate_alice_def Let_def split_beta)
  then obtain env st where e: "encrypt_pre_key toy_signal toy_codec_signal ([], []) [5] 1 toy_key32 toy_key32 2 (Some 3)
      (initiate_alice toy_signal toy_alice) = (Ok env, st)" by blast
  have "length toy_key32 = 32" by (simp add: toy_key32_def)
  from pre_key_first_message [OF toy_signal_sound _ toy_matches this this e] show ?thesis
    using toy_codec_rt(2) by blast
qed

end
