(* ===== verification/Sender_Key.thy ===== *)
theory Sender_Key
  imports Signal_Delivery
begin

text \<open>
  Sender keys for groups, module \<open>senderkey\<close> of \<open>src/src/crypto.rs\<close>: the sender's state and its
  distribution message, the signed group messages, and the receiver with its cache of
  skipped keys. Its receiver offers the same interface as the pairwise sessions' one.
\<close>

record sender_key_state =
  sk_key_id :: u32
  sk_chain :: chain_key
  signing_priv :: bytes
  signing_keypair_pub :: bytes

record sender_key_distribution =
  d_key_id :: u32
  d_iteration :: u32
  d_chain_key :: bytes
  d_signing_key :: bytes

record skipped_sender_key =
  ss_iteration :: u32
  ss_iv :: bytes
  ss_cipher_key :: bytes

record sender_key_receiver =
  r_key_id :: u32
  r_chain :: chain_key
  signing_pub :: bytes
  skipped :: "skipped_sender_key list"

record distribution_proto =
  dp_id :: "u32 option"
  dp_iteration :: "u32 option"
  dp_chain_key :: "bytes option"
  dp_signing_key :: "bytes option"

record sender_key_message_proto =
  gm_key_id :: "u32 option"
  gm_iteration :: "u32 option"
  gm_ciphertext :: "bytes option"

record sender_key_codec =
  enc_dist :: "distribution_proto \<Rightarrow> bytes"
  dec_dist :: "bytes \<Rightarrow> distribution_proto option"
  enc_skmsg :: "sender_key_message_proto \<Rightarrow> bytes"
  dec_skmsg :: "bytes \<Rightarrow> sender_key_message_proto option"

datatype skmsg_error = SkAes | SkMalformed string | BadSignature

definition MAX_SKIPPED_SENDER_KEYS :: nat where "MAX_SKIPPED_SENDER_KEYS = 2000"
definition SKMSG_SIGNATURE_LEN :: nat where "SKMSG_SIGNATURE_LEN = 64"

text \<open>\<open>generate\<close>, with what the random generator delivers: a chain seed, a key id, a key pair.\<close>

definition generate_sender_key :: "bytes \<Rightarrow> u32 \<Rightarrow> bytes \<times> bytes \<Rightarrow> sender_key_state" where
  "generate_sender_key chain r kp =
    \<lparr>sk_key_id = r AND 0x7fffffff, sk_chain = new_chain chain 0, signing_priv = fst kp,
     signing_keypair_pub = snd kp\<rparr>"

definition distribution :: "sender_key_state \<Rightarrow> sender_key_distribution" where
  "distribution st =
    \<lparr>d_key_id = sk_key_id st, d_iteration = ck_index (sk_chain st), d_chain_key = ck_key (sk_chain st),
     d_signing_key = signing_keypair_pub st\<rparr>"

definition serialize_distribution_wire :: "sender_key_codec \<Rightarrow> sender_key_distribution \<Rightarrow> bytes" where
  "serialize_distribution_wire pb d =
    WHISPER_VERSION # enc_dist pb
      \<lparr>dp_id = Some (d_key_id d), dp_iteration = Some (d_iteration d), dp_chain_key = Some (d_chain_key d),
       dp_signing_key = Some (0x05 # d_signing_key d)\<rparr>"

definition install_distribution :: "sender_key_distribution \<Rightarrow> sender_key_receiver" where
  "install_distribution d =
    \<lparr>r_key_id = d_key_id d, r_chain = new_chain (d_chain_key d) (d_iteration d),
     signing_pub = d_signing_key d, skipped = []\<rparr>"

definition parse_distribution_wire ::
  "sender_key_codec \<Rightarrow> bytes \<Rightarrow> (skmsg_error, sender_key_distribution) outcome" where
  "parse_distribution_wire pb wire =
    obind (guard_err (wire = []) (SkMalformed ''empty SKDM wire'')) (\<lambda>_.
    obind (ok_or (dec_dist pb (tl wire)) (SkMalformed ''SKDM proto'')) (\<lambda>proto.
    obind (ok_or (dp_chain_key proto) (SkMalformed ''SKDM chainKey'')) (\<lambda>chain.
    obind (guard_err (length chain \<noteq> 32) (SkMalformed ''SKDM chainKey length'')) (\<lambda>_.
    obind (ok_or (dp_signing_key proto) (SkMalformed ''SKDM signingKey'')) (\<lambda>sk.
    obind (if length sk = 33 \<and> sk ! 0 = 0x05 then Ok (tl sk)
           else if length sk = 32 then Ok sk
           else Err (SkMalformed ''SKDM signingKey length'')) (\<lambda>signing_key.
    Ok \<lparr>d_key_id = or_default 0 (dp_id proto), d_iteration = or_default 0 (dp_iteration proto),
        d_chain_key = chain, d_signing_key = signing_key\<rparr>))))))"

text \<open>The pair of initialisation vector and cipher key.\<close>

definition derive_sender_message_keys :: "signal_crypto \<Rightarrow> chain_key \<Rightarrow> bytes \<times> bytes" where
  "derive_sender_message_keys c ck =
    (let seed = hmac c (ck_key ck) [0x01]; out = hkdf c None seed ''WhisperGroup'' 48
     in (take 16 out, drop 16 out))"

definition encrypt_sender_key_message ::
  "signal_crypto \<Rightarrow> sender_key_codec \<Rightarrow> bytes \<Rightarrow> sender_key_state \<Rightarrow>
    (skmsg_error, bytes) outcome \<times> sender_key_state" where
  "encrypt_sender_key_message c pb padded st =
    (let (iv, cipher_key) = derive_sender_message_keys c (sk_chain st);
         ciphertext = cbc_enc c cipher_key iv padded;
         body = WHISPER_VERSION # enc_skmsg pb
           \<lparr>gm_key_id = Some (sk_key_id st), gm_iteration = Some (ck_index (sk_chain st)),
            gm_ciphertext = Some ciphertext\<rparr>
     in (Ok (body @ xeddsa_sign c (signing_priv st) body), st\<lparr>sk_chain := next_chain c (sk_chain st)\<rparr>))"

definition skipped_key :: "signal_crypto \<Rightarrow> chain_key \<Rightarrow> skipped_sender_key" where
  "skipped_key c ck =
    (case derive_sender_message_keys c ck of
       (iv, k) \<Rightarrow> \<lparr>ss_iteration = ck_index ck, ss_iv = iv, ss_cipher_key = k\<rparr>)"

text \<open>The checks before any key is used.\<close>

definition parse_skmsg ::
  "signal_crypto \<Rightarrow> sender_key_codec \<Rightarrow> bytes \<Rightarrow> bytes \<Rightarrow> (skmsg_error, u32 \<times> bytes) outcome" where
  "parse_skmsg c pb pub wire =
    obind (guard_err (length wire < 1 + SKMSG_SIGNATURE_LEN + 1) (SkMalformed ''wire too short'')) (\<lambda>_.
    obind (guard_err (wire ! 0 \<noteq> WHISPER_VERSION) (SkMalformed ''unexpected version byte'')) (\<lambda>_.
    let sig_offset = length wire - SKMSG_SIGNATURE_LEN;
        signed_body = take sig_offset wire
    in
    obind (guard_err (\<not> xeddsa_verify c pub signed_body (drop sig_offset wire)) BadSignature) (\<lambda>_.
    obind (ok_or (dec_skmsg pb (tl signed_body)) (SkMalformed ''proto'')) (\<lambda>proto.
    obind (ok_or (gm_ciphertext proto) (SkMalformed ''missing ciphertext'')) (\<lambda>ciphertext.
    Ok (or_default 0 (gm_iteration proto), ciphertext))))))"

definition decrypt_sender_key_message ::
  "signal_crypto \<Rightarrow> sender_key_codec \<Rightarrow> bytes \<Rightarrow> sender_key_receiver \<Rightarrow>
    (skmsg_error, bytes) outcome \<times> sender_key_receiver" where
  "decrypt_sender_key_message c pb wire st =
    (case parse_skmsg c pb (signing_pub st) wire of
       Err e \<Rightarrow> (Err e, st)
     | Panic \<Rightarrow> (Panic, st)
     | Ok (iteration, ciphertext) \<Rightarrow>
       if iteration < ck_index (r_chain st) then
         (case position (\<lambda>s. ss_iteration s = iteration) (skipped st) of
            None \<Rightarrow> (Err (SkMalformed ''iteration went backwards (no cached key)''), st)
          | Some p \<Rightarrow>
            (let sk = skipped st ! p
             in case cbc_dec c (ss_cipher_key sk) (ss_iv sk) ciphertext of
                  None \<Rightarrow> (Err SkAes, st)
                | Some plaintext \<Rightarrow> (Ok plaintext, st\<lparr>skipped := remove_at p (skipped st)\<rparr>)))
       else if unat iteration - unat (ck_index (r_chain st)) > MAX_SKIPPED_SENDER_KEYS then
         (Err (SkMalformed ''iteration jump too large''), st)
       else
         (case walk c (skipped_key c) iteration (r_chain st) of
            (ks, walking) \<Rightarrow>
              (let st = st\<lparr>skipped := skipped st @ ks\<rparr>;
                   (iv, cipher_key) = derive_sender_message_keys c walking
               in case cbc_dec c cipher_key iv ciphertext of
                    None \<Rightarrow> (Err SkAes, st)
                  | Some plaintext \<Rightarrow>
                    (let st = st\<lparr>r_chain := next_chain c walking\<rparr>;
                         excess = length (skipped st) - MAX_SKIPPED_SENDER_KEYS
                     in (Ok plaintext, st\<lparr>skipped := drop excess (skipped st)\<rparr>)))))"

section \<open>Assumptions on the primitives\<close>

definition group_sound :: "signal_crypto \<Rightarrow> sender_key_codec \<Rightarrow> bool" where
  "group_sound c pb \<longleftrightarrow>
    (\<forall>k iv m. cbc_dec c k iv (cbc_enc c k iv m) = Some m) \<and>
    (\<forall>k m. length (xeddsa_sign c k m) = 64) \<and>
    (\<forall>p. dec_skmsg pb (enc_skmsg pb p) = Some p) \<and> (\<forall>p. dec_dist pb (enc_dist pb p) = Some p) \<and>
    enc_skmsg pb \<lparr>gm_key_id = None, gm_iteration = None, gm_ciphertext = None\<rparr> = []"

definition signs_for :: "signal_crypto \<Rightarrow> bytes \<Rightarrow> bytes \<Rightarrow> bool" where
  "signs_for c priv pub \<longleftrightarrow> (\<forall>m. xeddsa_verify c pub m (xeddsa_sign c priv m))"

lemma group_soundD:
  assumes "group_sound c pb"
  shows "cbc_dec c k iv (cbc_enc c k iv m) = Some m" "length (xeddsa_sign c k' m) = 64"
    "dec_skmsg pb (enc_skmsg pb p) = Some p" "dec_dist pb (enc_dist pb q) = Some q"
    "enc_skmsg pb \<lparr>gm_key_id = None, gm_iteration = None, gm_ciphertext = None\<rparr> = []"
  using assms by (simp_all add: group_sound_def)

lemma enc_skmsg_not_Nil: "group_sound c pb \<Longrightarrow> gm_key_id p \<noteq> None \<Longrightarrow> enc_skmsg pb p \<noteq> []"
  by (metis group_soundD(3,5) option.inject sender_key_message_proto.select_convs(1))

section \<open>The wire form\<close>

definition skmsg_wire ::
  "signal_crypto \<Rightarrow> sender_key_codec \<Rightarrow> u32 \<Rightarrow> bytes \<Rightarrow> chain_key \<Rightarrow> bytes \<Rightarrow> bytes" where
  "skmsg_wire c pb kid priv chain m =
    (let (iv, k) = derive_sender_message_keys c chain;
         body = WHISPER_VERSION # enc_skmsg pb
           \<lparr>gm_key_id = Some kid, gm_iteration = Some (ck_index chain), gm_ciphertext = Some (cbc_enc c k iv m)\<rparr>
     in body @ xeddsa_sign c priv body)"

lemma encrypt_sender_key_Ok:
  "encrypt_sender_key_message c pb m st =
    (Ok (skmsg_wire c pb (sk_key_id st) (signing_priv st) (sk_chain st) m),
     st\<lparr>sk_chain := next_chain c (sk_chain st)\<rparr>)"
  by (simp add: encrypt_sender_key_message_def skmsg_wire_def Let_def split_beta)

lemma encrypt_sender_key_run:
  "deliver (encrypt_sender_key_message c pb) ms st =
    (map (\<lambda>j. Ok (skmsg_wire c pb (sk_key_id st) (signing_priv st) (chain_at c (sk_chain st) j) (ms ! j)))
      [0..<length ms], st\<lparr>sk_chain := chain_at c (sk_chain st) (length ms)\<rparr>)"
proof (induction ms arbitrary: st)
  case (Cons m ms)
  have "chain_at c (next_chain c (sk_chain st)) j = chain_at c (sk_chain st) (Suc j)" for j
    using chain_at_add [of c "sk_chain st" 1 j] by (simp add: chain_at_Suc)
  with Cons.IH [of "st\<lparr>sk_chain := next_chain c (sk_chain st)\<rparr>"] show ?case
    by (simp add: encrypt_sender_key_Ok upt_0_Suc comp_def del: upt_Suc)
qed simp

lemma parse_skmsg_wire:
  assumes "group_sound c pb" "signs_for c priv pub"
  shows "parse_skmsg c pb pub (skmsg_wire c pb kid priv chain m) =
    (let (iv, k) = derive_sender_message_keys c chain in Ok (ck_index chain, cbc_enc c k iv m))"
proof -
  obtain iv k where ivk: "derive_sender_message_keys c chain = (iv, k)" by fastforce
  let ?p = "\<lparr>gm_key_id = Some kid, gm_iteration = Some (ck_index chain), gm_ciphertext = Some (cbc_enc c k iv m)\<rparr>"
  let ?body = "WHISPER_VERSION # enc_skmsg pb ?p"
  have w: "skmsg_wire c pb kid priv chain m = ?body @ xeddsa_sign c priv ?body"
    by (simp add: skmsg_wire_def ivk)
  have "enc_skmsg pb ?p \<noteq> []" using enc_skmsg_not_Nil [OF assms(1), of ?p] by simp
  then have "enc_skmsg pb ?p \<noteq> []" "Suc 0 \<le> length (enc_skmsg pb ?p)" by (cases "enc_skmsg pb ?p"; simp)+
  then show ?thesis
    unfolding parse_skmsg_def w
    using assms(2)
    by (simp add: guard_err_def SKMSG_SIGNATURE_LEN_def group_soundD [OF assms(1)] signs_for_def ivk or_default_def)
qed

section \<open>The receiver of one chain\<close>

definition hears ::
  "signal_crypto \<Rightarrow> sender_key_codec \<Rightarrow> bytes \<Rightarrow> chain_key \<Rightarrow> nat set \<Rightarrow> sender_key_receiver \<Rightarrow> bool" where
  "hears c pb priv oc used st \<longleftrightarrow>
    group_sound c pb \<and> signs_for c priv (signing_pub st) \<and> unat (ck_index oc) + MAX_SKIPPED_SENDER_KEYS < 2 ^ 32 - 1 \<and>
    (\<exists>n \<le> Suc MAX_SKIPPED_SENDER_KEYS. r_chain st = chain_at c oc n \<and>
       cache_of c (skipped_key c) oc used n (skipped st))"

lemma ss_iteration_skipped_key [simp]: "ss_iteration (skipped_key c ck) = ck_index ck"
  by (simp add: skipped_key_def split_beta)

lemma skipped_key_fields [simp]:
  "ss_iv (skipped_key c ck) = fst (derive_sender_message_keys c ck)"
  "ss_cipher_key (skipped_key c ck) = snd (derive_sender_message_keys c ck)"
  by (simp_all add: skipped_key_def split_beta)

lemma decrypt_sender_key_wire:
  assumes h: "hears c pb priv oc used st" and j: "j \<le> MAX_SKIPPED_SENDER_KEYS"
  shows "j \<notin> used \<Longrightarrow> \<exists>st'. decrypt_sender_key_message c pb (skmsg_wire c pb kid priv (chain_at c oc j) m) st = (Ok m, st') \<and>
      hears c pb priv oc (insert j used) st'"
    and "j \<in> used \<Longrightarrow> decrypt_sender_key_message c pb (skmsg_wire c pb kid priv (chain_at c oc j) m) st
      = (Err (SkMalformed ''iteration went backwards (no cached key)''), st)"
proof -
  from h obtain n where gs: "group_sound c pb" "signs_for c priv (signing_pub st)" and oc: "unat (ck_index oc) + MAX_SKIPPED_SENDER_KEYS < 2 ^ 32 - 1"
    and n: "n \<le> Suc MAX_SKIPPED_SENDER_KEYS" "r_chain st = chain_at c oc n"
    and cache: "cache_of c (skipped_key c) oc used n (skipped st)"
    unfolding hears_def by blast
  let ?w = "skmsg_wire c pb kid priv (chain_at c oc j) m"
  have j32: "unat (ck_index oc) + j < 2 ^ 32" and n32: "unat (ck_index oc) + n < 2 ^ 32"
    using oc j n(1) by simp_all
  have idx: "unat (ck_index (chain_at c oc n)) = unat (ck_index oc) + n"
      "unat (ck_index (chain_at c oc j)) = unat (ck_index oc) + j"
    using n32 j32 by (simp_all add: chain_at_index)
  have less: "ck_index (chain_at c oc j) < ck_index (chain_at c oc n) \<longleftrightarrow> j < n"
    by (simp add: word_less_nat_alt idx)
  obtain iv k where ivk: "derive_sender_message_keys c (chain_at c oc j) = (iv, k)" by fastforce
  have parse: "parse_skmsg c pb (signing_pub st) ?w = Ok (ck_index (chain_at c oc j), cbc_enc c k iv m)"
    using parse_skmsg_wire [OF gs] ivk by simp
  note dec = decrypt_sender_key_message_def [of c pb ?w st, unfolded parse]
  show "decrypt_sender_key_message c pb ?w st
      = (Err (SkMalformed ''iteration went backwards (no cached key)''), st)" if "j \<in> used"
  proof -
    have "j < n" using cache_of_used [OF cache that] .
    with cache_of_lookup(1) [OF cache n32 this ss_iteration_skipped_key that] show ?thesis
      by (simp add: dec n(2) less)
  qed
  assume new: "j \<notin> used"
  show "\<exists>st'. decrypt_sender_key_message c pb ?w st = (Ok m, st') \<and> hears c pb priv oc (insert j used) st'"
  proof (cases "j < n")
    case True
    from cache_of_lookup(2) [OF cache n32 True ss_iteration_skipped_key new] obtain p where
      p: "position (\<lambda>s. ss_iteration s = ck_index (chain_at c oc j)) (skipped st) = Some p"
        "skipped st ! p = skipped_key c (chain_at c oc j)"
        "cache_of c (skipped_key c) oc (insert j used) n (remove_at p (skipped st))" by blast
    then have "hears c pb priv oc (insert j used) (st\<lparr>skipped := remove_at p (skipped st)\<rparr>)"
      using gs oc n by (auto simp: hears_def)
    with True p(1,2) show ?thesis
      by (simp add: dec n(2) less ivk group_soundD [OF gs(1)])
  next
    case False
    obtain ks where walk: "walk c (skipped_key c) (ck_index (chain_at c oc j)) (chain_at c oc n) = (ks, chain_at c oc j)"
      and cache': "cache_of c (skipped_key c) oc (insert j used) (Suc j) (skipped st @ ks)"
      and len: "length ks = j - n"
      by (rule cache_of_walk [OF cache _ j32]) (use False in simp)
    have "length (skipped st) + length ks \<le> MAX_SKIPPED_SENDER_KEYS" "\<not> MAX_SKIPPED_SENDER_KEYS < j - n"
      using cache_of_length [OF cache] len False j by simp_all
    moreover have "hears c pb priv oc (insert j used)
        (st\<lparr>r_chain := next_chain c (chain_at c oc j), skipped := skipped st @ ks\<rparr>)"
      using gs oc j cache' unfolding hears_def by (auto intro!: exI [of _ "Suc j"] simp: chain_at_Suc)
    ultimately show ?thesis
      using False j by (simp add: dec n(2) less idx walk ivk group_soundD [OF gs(1)])
  qed
qed

interpretation group: mailbox "decrypt_sender_key_message c pb" "hears c pb priv oc"
    "\<lambda>j m. skmsg_wire c pb kid priv (chain_at c oc j) m" "Suc MAX_SKIPPED_SENDER_KEYS"
  for c pb priv oc kid
  by unfold_locales (use decrypt_sender_key_wire in \<open>auto simp: less_Suc_eq_le\<close>)

section \<open>A concrete instance\<close>

definition toy_codec_sender :: sender_key_codec where
  "toy_codec_sender =
    \<lparr>enc_dist = (\<lambda>p. put_u32 (dp_id p) @ put_u32 (dp_iteration p) @ put_opt (dp_chain_key p) @
       put_opt (dp_signing_key p)),
     dec_dist = (\<lambda>b. case get_u32 b of (i, b) \<Rightarrow> case get_u32 b of (n, b) \<Rightarrow> case get_opt b of (k, b) \<Rightarrow>
       case get_opt b of (s, b) \<Rightarrow>
         Some \<lparr>dp_id = i, dp_iteration = n, dp_chain_key = k, dp_signing_key = s\<rparr>),
     enc_skmsg = (\<lambda>p. if p = \<lparr>gm_key_id = None, gm_iteration = None, gm_ciphertext = None\<rparr> then [] else
       put_u32 (gm_key_id p) @ put_u32 (gm_iteration p) @ put_opt (gm_ciphertext p)),
     dec_skmsg = (\<lambda>b. if b = [] then Some \<lparr>gm_key_id = None, gm_iteration = None, gm_ciphertext = None\<rparr> else
       (case get_u32 b of (i, b) \<Rightarrow> case get_u32 b of (n, b) \<Rightarrow> case get_opt b of (ct, b) \<Rightarrow>
         Some \<lparr>gm_key_id = i, gm_iteration = n, gm_ciphertext = ct\<rparr>))\<rparr>"

lemma toy_group_sound: "group_sound toy_signal toy_codec_sender"
  unfolding group_sound_def
  by (intro conjI allI)
     (simp_all add: toy_signal_def toy_codec_sender_def get_put_u32 get_put_u32_end get_put_opt get_put_opt_end)

lemma toy_signs_for: "signs_for toy_signal priv pub"
  by (simp add: signs_for_def toy_signal_def)

definition toy_sender :: sender_key_state where
  "toy_sender = generate_sender_key (replicate 32 4) 7 (replicate 32 5, replicate 32 6)"

section \<open>Properties\<close>

lemma distribution_roundtrip_aux:
  "\<forall>p. dec_dist pb (enc_dist pb p) = Some p \<Longrightarrow> length (d_chain_key d) = 32 \<Longrightarrow>
    length (d_signing_key d) = 32 \<Longrightarrow> parse_distribution_wire pb (serialize_distribution_wire pb d) = Ok d"
  by (simp add: parse_distribution_wire_def serialize_distribution_wire_def guard_err_def or_default_def)

text \<open>The chain a member learns from a distribution message.\<close>

lemma install_hears:
  assumes "group_sound c pb" "signs_for c (signing_priv st) (signing_keypair_pub st)"
    and "unat (ck_index (sk_chain st)) + MAX_SKIPPED_SENDER_KEYS < 2 ^ 32 - 1"
  shows "hears c pb (signing_priv st) (sk_chain st) {} (install_distribution (distribution st))"
proof -
  have "new_chain (ck_key (sk_chain st)) (ck_index (sk_chain st)) = sk_chain st"
    by (simp add: new_chain_def)
  with assms show ?thesis
    by (auto simp: hears_def install_distribution_def distribution_def intro!: exI [of _ 0])
qed

text \<open>Distribution messages survive the wire: what a sender serializes, a member parses back.\<close>

theorem distribution_roundtrip:
  assumes "\<forall>p. dec_dist pb (enc_dist pb p) = Some p" "length (d_chain_key d) = 32" "length (d_signing_key d) = 32"
  shows "parse_distribution_wire pb (serialize_distribution_wire pb d) = Ok d"
  using distribution_roundtrip_aux [OF assms] .

theorem distribution_roundtrip_witness:
  "parse_distribution_wire toy_codec_sender (serialize_distribution_wire toy_codec_sender (distribution toy_sender))
    = Ok (distribution toy_sender)"
  by (rule distribution_roundtrip)
     (use toy_group_sound in \<open>auto simp: group_sound_def toy_sender_def generate_sender_key_def distribution_def new_chain_def\<close>)

text \<open>C11: a group member that installs a sender's distribution message reads everything the sender
  posts from then on: in whatever order and however often the messages arrive, each is accepted
  exactly once, the first time, and yields its plaintext. (Up to 2,001 messages, the reach of the
  key cache.)\<close>

theorem group_any_order:
  assumes "group_sound c pb" "signs_for c (signing_priv st) (signing_keypair_pub st)"
    and "length (ck_key (sk_chain st)) = 32" "length (signing_keypair_pub st) = 32"
    and "unat (ck_index (sk_chain st)) + MAX_SKIPPED_SENDER_KEYS < 2 ^ 32 - 1" "length ms \<le> 2001"
    and "deliver (encrypt_sender_key_message c pb) ms st = (sent, st')" "\<forall>j \<in> set js. j < length ms"
  shows "\<exists>d outs r. parse_distribution_wire pb (serialize_distribution_wire pb (distribution st)) = Ok d \<and>
      deliver (decrypt_sender_key_message c pb) (map (\<lambda>j. the_ok (sent ! j)) js) (install_distribution d) = (outs, r) \<and>
      map ok_value outs = map (map_option ((!) ms)) (first_seen {} js)"
proof -
  have d: "parse_distribution_wire pb (serialize_distribution_wire pb (distribution st)) = Ok (distribution st)"
    by (rule distribution_roundtrip_aux) (use assms(1,3,4) in \<open>simp_all add: group_sound_def distribution_def\<close>)
  let ?wire = "\<lambda>j. skmsg_wire c pb (sk_key_id st) (signing_priv st) (chain_at c (sk_chain st) j) (ms ! j)"
  have "sent = map (\<lambda>j. Ok (?wire j)) [0..<length ms]"
    using encrypt_sender_key_run [of c pb ms st] assms(7) by auto
  then have wires: "map (\<lambda>j. the_ok (sent ! j)) js = map ?wire js" using assms(8) by simp
  have "\<forall>j \<in> set js. j < Suc MAX_SKIPPED_SENDER_KEYS"
    using assms(6,8) by (auto simp: MAX_SKIPPED_SENDER_KEYS_def)
  with install_hears [OF assms(1,2,5)] show ?thesis
    unfolding d wires using group.any_order [where js = js and m = "(!) ms"] by blast
qed

theorem group_any_order_witness:
  "\<exists>(sent :: (skmsg_error, bytes) outcome list) outs r.
    deliver (decrypt_sender_key_message toy_signal toy_codec_sender) (map (\<lambda>j. the_ok (sent ! j)) [1, 0, 1])
      (install_distribution (distribution toy_sender)) = (outs, r) \<and>
    map ok_value outs = [Some [8], Some [7], None]"
proof -
  obtain sent st' where s:
    "deliver (encrypt_sender_key_message toy_signal toy_codec_sender) [[7], [8]] toy_sender = (sent, st')" by fastforce
  have l: "length (ck_key (sk_chain toy_sender)) = 32" "length (signing_keypair_pub toy_sender) = 32"
    "unat (ck_index (sk_chain toy_sender)) + MAX_SKIPPED_SENDER_KEYS < 2 ^ 32 - 1"
    by (simp_all add: toy_sender_def generate_sender_key_def new_chain_def MAX_SKIPPED_SENDER_KEYS_def)
  obtain d outs r where
    "parse_distribution_wire toy_codec_sender (serialize_distribution_wire toy_codec_sender (distribution toy_sender)) = Ok d"
    "deliver (decrypt_sender_key_message toy_signal toy_codec_sender) (map (\<lambda>j. the_ok (sent ! j)) [1, 0, 1])
      (install_distribution d) = (outs, r)"
    "map ok_value outs = map (map_option ((!) [[7], [8]])) (first_seen {} [1, 0, 1])"
    using group_any_order [OF toy_group_sound toy_signs_for l _ s, of "[1, 0, 1]"] by auto
  moreover from this(1) have "d = distribution toy_sender"
    using distribution_roundtrip_aux [of toy_codec_sender "distribution toy_sender"] l toy_group_sound
    by (simp add: group_sound_def distribution_def)
  ultimately show ?thesis by (intro exI [of _ sent] exI [of _ outs] exI [of _ r]) simp
qed

lemma hears_earlier:
  assumes "hears c pb priv oc used st" "unat (ck_index ck) < unat (ck_index oc)"
  shows "decrypt_sender_key_message c pb (skmsg_wire c pb kid priv ck m) st
      = (Err (SkMalformed ''iteration went backwards (no cached key)''), st)"
proof -
  from assms(1) obtain n where gs: "group_sound c pb" "signs_for c priv (signing_pub st)"
    and oc: "unat (ck_index oc) + MAX_SKIPPED_SENDER_KEYS < 2 ^ 32 - 1"
    and n: "n \<le> Suc MAX_SKIPPED_SENDER_KEYS" "r_chain st = chain_at c oc n"
    and cache: "cache_of c (skipped_key c) oc used n (skipped st)"
    unfolding hears_def by blast
  then have n32: "unat (ck_index oc) + n < 2 ^ 32" by simp
  have none: "position (\<lambda>s. ss_iteration s = ck_index ck) (skipped st) = None"
    by (rule cache_of_before [OF cache n32 assms(2)]) simp
  have "ck_index ck < ck_index (r_chain st)"
    using assms(2) n(2) n32 by (simp add: word_less_nat_alt chain_at_index)
  then show ?thesis
    by (simp add: decrypt_sender_key_message_def parse_skmsg_wire [OF gs] split_beta none)
qed

text \<open>Who joins late reads nothing earlier: a member that got the sender's distribution
  message after some posts refuses every one of those, before and after reading later ones, and
  no refused post changes its state.\<close>

theorem late_member_reads_nothing_earlier:
  assumes "group_sound c pb" "signs_for c (signing_priv st) (signing_keypair_pub st)"
    and "unat (ck_index (sk_chain st)) + length early + MAX_SKIPPED_SENDER_KEYS < 2 ^ 32 - 1"
    and "deliver (encrypt_sender_key_message c pb) early st = (sent_early, st1)"
    and "deliver (encrypt_sender_key_message c pb) later st1 = (sent, st2)" "length later \<le> 2001"
    and "i < length early" "\<forall>j \<in> set js. j < length later"
    and "deliver (decrypt_sender_key_message c pb) (map (\<lambda>j. the_ok (sent ! j)) js)
      (install_distribution (distribution st1)) = (outs, r)"
  shows "\<exists>e. decrypt_sender_key_message c pb (the_ok (sent_early ! i)) r = (Err e, r)"
proof -
  have run: "deliver (encrypt_sender_key_message c pb) ms st =
      (map (\<lambda>j. Ok (skmsg_wire c pb (sk_key_id st) (signing_priv st) (chain_at c (sk_chain st) j) (ms ! j)))
        [0..<length ms], st\<lparr>sk_chain := chain_at c (sk_chain st) (length ms)\<rparr>)" for ms st
    by (rule encrypt_sender_key_run)
  have st1: "st1 = st\<lparr>sk_chain := chain_at c (sk_chain st) (length early)\<rparr>" using run [of early st] assms(4) by simp
  have idx: "unat (ck_index (sk_chain st1)) = unat (ck_index (sk_chain st)) + length early"
    "unat (ck_index (chain_at c (sk_chain st) i)) = unat (ck_index (sk_chain st)) + i"
    using assms(3,7) by (simp_all add: st1 chain_at_index)
  have h: "hears c pb (signing_priv st) (sk_chain st1) {} (install_distribution (distribution st1))"
    using install_hears [OF assms(1), of st1] assms(2,3) idx by (simp add: st1)
  let ?wire = "\<lambda>j. skmsg_wire c pb (sk_key_id st1) (signing_priv st1) (chain_at c (sk_chain st1) j) (later ! j)"
  have "sent = map (\<lambda>j. Ok (?wire j)) [0..<length later]" using run [of later st1] assms(5) by simp
  then have wires: "map (\<lambda>j. the_ok (sent ! j)) js = map ?wire js" using assms(8) by simp
  have "\<forall>j \<in> set js. j < Suc MAX_SKIPPED_SENDER_KEYS"
    using assms(6,8) by (auto simp: MAX_SKIPPED_SENDER_KEYS_def)
  from group.any_order [OF h this, where m = "(!) later" and kid = "sk_key_id st1"] assms(9)
  have "hears c pb (signing_priv st) (sk_chain st1) (set js) r"
    unfolding wires by (auto simp: st1)
  from hears_earlier [OF this, of "chain_at c (sk_chain st) i"] idx assms(7) run [of early st] assms(4)
  show ?thesis by auto
qed

theorem late_member_reads_nothing_earlier_witness:
  "\<exists>(sent_early :: (skmsg_error, bytes) outcome list) st1 outs r e.
    deliver (encrypt_sender_key_message toy_signal toy_codec_sender) [[7]] toy_sender = (sent_early, st1) \<and>
    deliver (decrypt_sender_key_message toy_signal toy_codec_sender)
      [the_ok (fst (encrypt_sender_key_message toy_signal toy_codec_sender [8] st1))]
      (install_distribution (distribution st1)) = (outs, r) \<and>
    decrypt_sender_key_message toy_signal toy_codec_sender (the_ok (sent_early ! 0)) r = (Err e, r)"
proof -
  obtain sent_early st1 where s1:
    "deliver (encrypt_sender_key_message toy_signal toy_codec_sender) [[7]] toy_sender = (sent_early, st1)" by fastforce
  obtain sent st2 where s2:
    "deliver (encrypt_sender_key_message toy_signal toy_codec_sender) [[8]] st1 = (sent, st2)" by fastforce
  obtain outs r where r: "deliver (decrypt_sender_key_message toy_signal toy_codec_sender)
      (map (\<lambda>j. the_ok (sent ! j)) [0]) (install_distribution (distribution st1)) = (outs, r)" by fastforce
  have "unat (ck_index (sk_chain toy_sender)) + length [[7 :: 8 word]] + MAX_SKIPPED_SENDER_KEYS < 2 ^ 32 - 1"
    by (simp add: toy_sender_def generate_sender_key_def new_chain_def MAX_SKIPPED_SENDER_KEYS_def)
  from late_member_reads_nothing_earlier [OF toy_group_sound toy_signs_for this s1 s2 _ _ _ r, of 0]
  obtain e where e: "decrypt_sender_key_message toy_signal toy_codec_sender (the_ok (sent_early ! 0)) r = (Err e, r)"
    by auto
  have "the_ok (sent ! 0) = the_ok (fst (encrypt_sender_key_message toy_signal toy_codec_sender [8] st1))"
    using s2 by (auto split: prod.splits)
  with s1 r e show ?thesis by auto
qed

end
