(* ===== verification/Whisper_Store.thy ===== *)
theory Whisper_Store
  imports Rows Sender_Key Node_Codec "HOL-Library.Sublist"
begin

text \<open>
  The rows that the message layer keeps per account: Signal session records, one-time prekeys,
  group sender keys and the map between LID and phone-number users (\<open>src/src/store.rs\<close>, the
  methods \<open>signal_session_*\<close>, \<open>prekey_*\<close>, \<open>sender_key_*\<close>, \<open>lid_pn_put\<close>, \<open>lid_to_pn\<close>,
  \<open>pn_to_lid\<close>, alike for both backends). A database that answers is modelled: a table is its rows,
  written whole; the sealing of rows at rest and their JSON form are transparent.
\<close>

section \<open>The store\<close>

record session_record =
  current :: "session_state option"
  previous :: "session_state list"

definition new_record :: session_record where
  "new_record = \<lparr>current = None, previous = []\<rparr>"

text \<open>One table holds our own sending state and the receiving state for each member.\<close>

datatype sender_key_row = OwnKey sender_key_state | MemberKey sender_key_receiver

record whisper_store =
  sessions :: "(string, session_record) rows"
  prekeys :: "(u32, bytes) rows"
  sender_keys :: "(string \<times> string, sender_key_row) rows"
  lid_pn_map :: "(string, string \<times> int) rows"

definition store_load_record :: "whisper_store \<Rightarrow> string \<Rightarrow> session_record option" where
  "store_load_record st a = row_load (sessions st) a"

definition store_save_record :: "string \<Rightarrow> session_record \<Rightarrow> whisper_store \<Rightarrow> whisper_store" where
  "store_save_record a r st = st\<lparr>sessions := row_save (sessions st) a r\<rparr>"

definition store_delete_record :: "string \<Rightarrow> whisper_store \<Rightarrow> whisper_store" where
  "store_delete_record a st = st\<lparr>sessions := row_delete (sessions st) a\<rparr>"

text \<open>A row of the wrong length is an error, which the callers treat like a missing row.\<close>

definition load_prekey_priv :: "whisper_store \<Rightarrow> u32 \<Rightarrow> bytes option" where
  "load_prekey_priv st i =
    (case row_load (prekeys st) i of Some b \<Rightarrow> if length b = 32 then Some b else None | None \<Rightarrow> None)"

definition consume_prekey :: "u32 \<Rightarrow> whisper_store \<Rightarrow> whisper_store" where
  "consume_prekey i st = st\<lparr>prekeys := row_delete (prekeys st) i\<rparr>"

definition sender_key_load :: "whisper_store \<Rightarrow> string \<Rightarrow> string \<Rightarrow> sender_key_row option" where
  "sender_key_load st g s = row_load (sender_keys st) (g, s)"

definition sender_key_save :: "string \<Rightarrow> string \<Rightarrow> sender_key_row \<Rightarrow> whisper_store \<Rightarrow> whisper_store" where
  "sender_key_save g s k st = st\<lparr>sender_keys := row_save (sender_keys st) (g, s) k\<rparr>"

definition lid_pn_put :: "string \<Rightarrow> string \<Rightarrow> int \<Rightarrow> whisper_store \<Rightarrow> whisper_store" where
  "lid_pn_put l p now st = st\<lparr>lid_pn_map := row_save (lid_pn_map st) l (p, now)\<rparr>"

definition lid_to_pn :: "whisper_store \<Rightarrow> string \<Rightarrow> string option" where
  "lid_to_pn st l = map_option fst (row_load (lid_pn_map st) l)"

text \<open>\<open>ORDER BY updated_at DESC LIMIT 1\<close>; among rows of one second the one written last.\<close>

primrec newest :: "(string, string \<times> int) rows \<Rightarrow> (string \<times> string \<times> int) option" where
  "newest [] = None"
| "newest (r # t) =
    (case newest t of None \<Rightarrow> Some r | Some s \<Rightarrow> Some (if snd (snd s) \<le> snd (snd r) then r else s))"

definition pn_to_lid :: "whisper_store \<Rightarrow> string \<Rightarrow> string option" where
  "pn_to_lid st p = map_option fst (newest (filter (\<lambda>r. fst (snd r) = p) (lid_pn_map st)))"

lemmas store_defs = store_load_record_def store_save_record_def store_delete_record_def

lemma store_load_save [simp]:
  "store_load_record (store_save_record a r st) b = (if b = a then Some r else store_load_record st b)"
  by (simp add: store_defs rows.load_save)

lemma store_load_delete [simp]:
  "store_load_record (store_delete_record a st) b = (if b = a then None else store_load_record st b)"
  by (simp add: store_defs rows.load_delete)

lemma store_load_delete_all:
  "store_load_record (fold store_delete_record as st) b = (if b \<in> set as then None else store_load_record st b)"
  by (induction as arbitrary: st) auto

lemma store_save_fields [simp]:
  "prekeys (store_save_record a r st) = prekeys st" "sender_keys (store_save_record a r st) = sender_keys st"
  "lid_pn_map (store_save_record a r st) = lid_pn_map st"
  "prekeys (store_delete_record a st) = prekeys st" "sender_keys (store_delete_record a st) = sender_keys st"
  "lid_pn_map (store_delete_record a st) = lid_pn_map st"
  by (simp_all add: store_defs)

lemma lid_pn_cong:
  "lid_pn_map st' = lid_pn_map st \<Longrightarrow> lid_to_pn st' = lid_to_pn st \<and> pn_to_lid st' = pn_to_lid st"
  by (auto simp: lid_to_pn_def pn_to_lid_def fun_eq_iff)

text \<open>Rows are keyed by the LID user, so looking a phone number's LID up and back returns it.\<close>

lemma newest_set: "newest t = Some r \<Longrightarrow> r \<in> set t"
  by (induction t arbitrary: r) (auto split: option.splits if_splits)

lemma pn_to_lid_back:
  assumes "distinct (map fst (lid_pn_map st))" "pn_to_lid st p = Some l"
  shows "lid_to_pn st l = Some p"
proof -
  from assms(2) obtain q t where n: "newest (filter (\<lambda>r. fst (snd r) = p) (lid_pn_map st)) = Some (l, q, t)"
    by (auto simp: pn_to_lid_def)
  from newest_set [OF n] have "(l, q, t) \<in> set (lid_pn_map st)" "q = p" by auto
  with assms(1) show ?thesis by (simp add: lid_to_pn_def row_load_def)
qed

lemma newest_None [simp]: "newest t = None \<longleftrightarrow> t = []"
  by (cases t) (auto split: option.splits)

text \<open>A mapping just learned is what both lookups give.\<close>

lemma lid_pn_put_lookup:
  assumes "\<forall>r \<in> set (lid_pn_map st). snd (snd r) \<le> now"
  shows "lid_to_pn (lid_pn_put l p now st) l = Some p" "pn_to_lid (lid_pn_put l p now st) p = Some l"
proof -
  show "lid_to_pn (lid_pn_put l p now st) l = Some p"
    by (simp add: lid_to_pn_def lid_pn_put_def rows.load_save)
  let ?old = "filter (\<lambda>r. fst (snd r) = p) (row_delete (lid_pn_map st) l)"
  have "snd (snd s) \<le> now" if "newest ?old = Some s" for s
    using newest_set [OF that] assms by (auto simp: row_delete_def)
  then show "pn_to_lid (lid_pn_put l p now st) p = Some l"
    by (auto simp: pn_to_lid_def lid_pn_put_def row_save_def split: option.split)
qed

end
