(* ===== verification/Device_Address.thy ===== *)
theory Device_Address
  imports Whisper_Store
begin

text \<open>
  Which Signal session a device's messages belong to (\<open>src/src/session.rs\<close>: \<open>lid_user_part\<close>,
  \<open>jid_device_token\<close>, \<open>lid_pn_alternates\<close>, \<open>canonical_session_address\<close>,
  \<open>resolve_session_address\<close>, \<open>encryption_address\<close>, \<open>capture_lid_pn_mappings\<close> and their kin). A
  contact is addressed by phone number (\<open>pn:device@s.whatsapp.net\<close>) or by LID
  (\<open>lid.agent:device@lid\<close>); a device must have one session whichever form is used.
\<close>

section \<open>Parts of a JID\<close>

definition jid_user :: "string \<Rightarrow> string" where
  "jid_user jid = takeWhile (\<lambda>c. c \<notin> {CHR '':'', CHR ''@''}) jid"

definition lid_user_part :: "string \<Rightarrow> string" where
  "lid_user_part jid = takeWhile (\<lambda>c. c \<notin> {CHR ''.'', CHR '':'', CHR ''@''}) jid"

definition to_non_ad_jid :: "string \<Rightarrow> string" where
  "to_non_ad_jid jid =
    (case rsplit_once (CHR ''@'') jid of
       Some (_, server) \<Rightarrow> lid_user_part jid @ ''@'' @ server
     | None \<Rightarrow> lid_user_part jid)"

definition device_user_is_own :: "string \<Rightarrow> string option \<Rightarrow> string option \<Rightarrow> bool" where
  "device_user_is_own dev_user own_pn_user own_lid_user \<longleftrightarrow>
    own_pn_user = Some dev_user \<or> own_lid_user = Some dev_user"

definition jid_device_token :: "string \<Rightarrow> string option" where
  "jid_device_token jid =
    (let head = takeWhile (\<lambda>c. c \<noteq> CHR ''@'') jid
     in map_option snd (split_once (CHR '':'') head))"

text \<open>\<open>parse().unwrap_or(0)\<close> on a \<open>u32\<close>.\<close>

definition parse_u32_or_0 :: "string \<Rightarrow> nat" where
  "parse_u32_or_0 s = (case parse_uint 4294967295 s of Some n \<Rightarrow> n | None \<Rightarrow> 0)"

definition jid_ad_string :: "string \<Rightarrow> string" where
  "jid_ad_string jid =
    (let (head, server) = (case rsplit_once (CHR ''@'') jid of Some hs \<Rightarrow> hs | None \<Rightarrow> (jid, []));
         user = takeWhile (\<lambda>c. c \<notin> {CHR ''.'', CHR '':''}) head;
         agent = (case split_once (CHR ''.'') head of
             Some (_, rest) \<Rightarrow> parse_u32_or_0 (takeWhile (\<lambda>c. c \<noteq> CHR '':'') rest)
           | None \<Rightarrow> 0);
         device = (case split_once (CHR '':'') head of Some (_, rest) \<Rightarrow> parse_u32_or_0 rest | None \<Rightarrow> 0)
     in user @ ''.'' @ show_nat agent @ '':'' @ show_nat device @ ''@'' @ server)"

definition PN_SERVER :: string where "PN_SERVER = ''@s.whatsapp.net''"
definition LID_SERVER :: string where "LID_SERVER = ''@lid''"

definition ends_with :: "string \<Rightarrow> string \<Rightarrow> bool" where
  "ends_with s suf = suffix suf s"

section \<open>The identity of a user\<close>

definition canonical_user_jid :: "whisper_store \<Rightarrow> string \<Rightarrow> string" where
  "canonical_user_jid st jid =
    (if jid = [] \<or> ends_with jid ''@g.us'' \<or> ends_with jid ''@broadcast'' \<or> ends_with jid ''@newsletter'' then jid
     else
       let user = lid_user_part jid
       in if ends_with jid LID_SERVER then
            (case lid_to_pn st user of Some pn \<Rightarrow> pn @ PN_SERVER | None \<Rightarrow> user @ LID_SERVER)
          else if ends_with jid PN_SERVER then user @ PN_SERVER
          else jid)"

definition sender_is_self :: "whisper_store \<Rightarrow> string option \<Rightarrow> string \<Rightarrow> bool" where
  "sender_is_self st own_pn_user sender =
    (case own_pn_user of
       None \<Rightarrow> False
     | Some own \<Rightarrow>
       if own = [] then False
       else
         let sender_user = lid_user_part sender
         in sender_user = own \<or> pn_to_lid st own = Some sender_user \<or> lid_to_pn st sender_user = Some own)"

section \<open>The address of a session\<close>

definition lid_pn_alternates :: "whisper_store \<Rightarrow> string \<Rightarrow> string list" where
  "lid_pn_alternates st addr =
    (let user = lid_user_part addr;
         device = (case jid_device_token addr of Some d \<Rightarrow> if d = ''0'' then None else Some d | None \<Rightarrow> None)
     in if ends_with addr LID_SERVER then
          (case lid_to_pn st user of
             None \<Rightarrow> []
           | Some pn \<Rightarrow> (case device of None \<Rightarrow> [pn @ PN_SERVER] | Some d \<Rightarrow> [pn @ '':'' @ d @ PN_SERVER]))
        else if ends_with addr PN_SERVER then
          (case pn_to_lid st user of
             None \<Rightarrow> []
           | Some lid \<Rightarrow>
             (case device of
                None \<Rightarrow> [lid @ ''.1'' @ LID_SERVER, lid @ LID_SERVER, lid @ ''.0'' @ LID_SERVER]
              | Some d \<Rightarrow> [lid @ ''.1:'' @ d @ LID_SERVER, lid @ '':'' @ d @ LID_SERVER]))
        else [])"

definition canonical_session_address :: "whisper_store \<Rightarrow> string \<Rightarrow> string" where
  "canonical_session_address st addr =
    (if ends_with addr PN_SERVER then (case lid_pn_alternates st addr of lid # _ \<Rightarrow> lid | [] \<Rightarrow> addr)
     else addr)"

text \<open>Every form the device's session could be filed under, sorted and without duplicates.\<close>

definition address_forms :: "whisper_store \<Rightarrow> string \<Rightarrow> string list" where
  "address_forms st addr =
    (let canonical = canonical_session_address st addr
     in sorted_list_of_set (set ([addr, canonical] @ lid_pn_alternates st addr @ lid_pn_alternates st canonical)))"

definition has_record :: "whisper_store \<Rightarrow> string \<Rightarrow> bool" where
  "has_record st a \<longleftrightarrow> store_load_record st a \<noteq> None"

definition has_current :: "whisper_store \<Rightarrow> string \<Rightarrow> bool" where
  "has_current st a = (case store_load_record st a of None \<Rightarrow> False | Some r \<Rightarrow> current r \<noteq> None)"

definition has_signal_session :: "whisper_store \<Rightarrow> string \<Rightarrow> bool" where
  "has_signal_session st device = list_ex (has_current st) (address_forms st device)"

text \<open>Receiving: what is filed under other forms is dropped, or moved to the canonical one.\<close>

definition resolve_session_address :: "whisper_store \<Rightarrow> string \<Rightarrow> string \<times> whisper_store" where
  "resolve_session_address st addr =
    (let canonical = canonical_session_address st addr;
         aliases = address_forms st addr
     in if has_record st canonical then
          (canonical, fold (\<lambda>a s. if a \<noteq> canonical \<and> has_record s a then store_delete_record a s else s) aliases st)
        else
          (case find (\<lambda>a. a \<noteq> canonical \<and> has_record st a) aliases of
             None \<Rightarrow> (canonical, st)
           | Some a \<Rightarrow>
             (canonical, store_delete_record a (store_save_record canonical (the (store_load_record st a)) st))))"

text \<open>Sending: two or more established copies have diverged and all are dropped.\<close>

definition encryption_address :: "whisper_store \<Rightarrow> string \<Rightarrow> string \<times> whisper_store" where
  "encryption_address st d =
    (let canonical = canonical_session_address st d;
         with_session = filter (has_current st) (address_forms st d)
     in if length with_session > 1 then (canonical, fold store_delete_record with_session st)
        else if canonical \<in> set with_session then (canonical, st)
        else
          (case with_session of
             [] \<Rightarrow> (canonical, st)
           | src # _ \<Rightarrow>
             (canonical, store_delete_record src (store_save_record canonical (the (store_load_record st src)) st))))"

section \<open>Learning the map\<close>

definition capture_pair :: "int \<Rightarrow> attrs \<Rightarrow> string \<times> string \<times> string \<Rightarrow> whisper_store \<Rightarrow> whisper_store" where
  "capture_pair now as pair st =
    (let (base, pn_alt, lid_alt) = pair;
         put = (\<lambda>lid_jid pn_jid st.
           let lu = lid_user_part lid_jid; pu = lid_user_part pn_jid
           in if lu \<noteq> [] \<and> pu \<noteq> [] then lid_pn_put lu pu now st else st)
     in case map_of as base of
          None \<Rightarrow> st
        | Some base_jid \<Rightarrow>
          if ends_with base_jid LID_SERVER then
            (case map_of as pn_alt of Some pn \<Rightarrow> put base_jid pn st | None \<Rightarrow> st)
          else if ends_with base_jid PN_SERVER then
            (case map_of as lid_alt of Some lid \<Rightarrow> put lid base_jid st | None \<Rightarrow> st)
          else st)"

definition capture_lid_pn_mappings :: "int \<Rightarrow> attrs \<Rightarrow> whisper_store \<Rightarrow> whisper_store" where
  "capture_lid_pn_mappings now as st =
    fold (capture_pair now as)
      [(''from'', ''sender_pn'', ''sender_lid''),
       (''recipient'', ''peer_recipient_pn'', ''peer_recipient_lid''),
       (''participant'', ''participant_pn'', ''participant_lid'')] st"

section \<open>The forms of a device\<close>

text \<open>A user part is what precedes the agent, the device and the server.\<close>

definition plain_user :: "string \<Rightarrow> bool" where
  "plain_user u \<longleftrightarrow> u \<noteq> [] \<and> set u \<inter> {CHR ''.'', CHR '':'', CHR ''@''} = {}"

text \<open>The device is absent for the primary one.\<close>

definition device_token :: "string option \<Rightarrow> bool" where
  "device_token d = (case d of None \<Rightarrow> True | Some d \<Rightarrow> d \<noteq> ''0'' \<and> CHR ''@'' \<notin> set d)"

definition pn_form :: "string \<Rightarrow> string option \<Rightarrow> string" where
  "pn_form p d = p @ (case d of None \<Rightarrow> [] | Some d \<Rightarrow> '':'' @ d) @ PN_SERVER"

definition lid_form :: "string \<Rightarrow> string option \<Rightarrow> string" where
  "lid_form l d = l @ ''.1'' @ (case d of None \<Rightarrow> [] | Some d \<Rightarrow> '':'' @ d) @ LID_SERVER"

lemma servers [simp]:
  "ends_with (s @ PN_SERVER) PN_SERVER" "ends_with (s @ LID_SERVER) LID_SERVER"
  "\<not> ends_with (s @ PN_SERVER) LID_SERVER" "\<not> ends_with (s @ LID_SERVER) PN_SERVER"
  by (simp_all add: ends_with_def suffix_to_prefix PN_SERVER_def LID_SERVER_def)

lemma takeWhile_stop: "\<forall>x \<in> set xs. P x \<Longrightarrow> \<not> P y \<Longrightarrow> takeWhile P (xs @ y # ys) = xs"
  by (induction xs) auto

lemma pn_form_parts:
  assumes "plain_user p" "device_token d"
  shows "lid_user_part (pn_form p d) = p" "jid_device_token (pn_form p d) = d"
    "ends_with (pn_form p d) PN_SERVER" "\<not> ends_with (pn_form p d) LID_SERVER"
proof -
  let ?s = "case d of None \<Rightarrow> [] | Some d \<Rightarrow> '':'' @ d"
  have u: "\<forall>c \<in> set p. c \<notin> {CHR ''.'', CHR '':'', CHR ''@''}" using assms(1) by (auto simp: plain_user_def)
  show "lid_user_part (pn_form p d) = p"
    using takeWhile_stop [OF u, of "CHR ''@''" "''s.whatsapp.net''"]
      takeWhile_stop [OF u, of "CHR '':''" "the d @ PN_SERVER"]
    by (cases d) (simp_all add: lid_user_part_def pn_form_def PN_SERVER_def)
  have "\<forall>c \<in> set (p @ ?s). c \<noteq> CHR ''@''" using u assms(2) by (cases d) (auto simp: device_token_def)
  then have head: "takeWhile (\<lambda>c. c \<noteq> CHR ''@'') (pn_form p d) = p @ ?s"
    using takeWhile_stop [of "p @ ?s" "\<lambda>c. c \<noteq> CHR ''@''" "CHR ''@''" "''s.whatsapp.net''"]
    by (simp add: pn_form_def PN_SERVER_def)
  have "CHR '':'' \<notin> set p" using u by auto
  then show "jid_device_token (pn_form p d) = d"
    unfolding jid_device_token_def head using split_once_complete [of "CHR '':''" p]
    by (cases d) simp_all
  show "ends_with (pn_form p d) PN_SERVER" "\<not> ends_with (pn_form p d) LID_SERVER"
    using servers(1,3) [of "p @ ?s"] by (simp_all add: pn_form_def)
qed

lemma lid_form_parts:
  assumes "plain_user l" "device_token d"
  shows "lid_user_part (lid_form l d) = l" "jid_device_token (lid_form l d) = d"
    "ends_with (lid_form l d) LID_SERVER" "\<not> ends_with (lid_form l d) PN_SERVER"
proof -
  let ?s = "''.1'' @ (case d of None \<Rightarrow> [] | Some d \<Rightarrow> '':'' @ d)"
  have u: "\<forall>c \<in> set l. c \<notin> {CHR ''.'', CHR '':'', CHR ''@''}" using assms(1) by (auto simp: plain_user_def)
  show "lid_user_part (lid_form l d) = l"
    unfolding lid_user_part_def lid_form_def using takeWhile_stop [OF u] by simp
  have "\<forall>c \<in> set (l @ ?s). c \<noteq> CHR ''@''" using u assms(2) by (cases d) (auto simp: device_token_def)
  then have head: "takeWhile (\<lambda>c. c \<noteq> CHR ''@'') (lid_form l d) = l @ ?s"
    using takeWhile_stop [of "l @ ?s" "\<lambda>c. c \<noteq> CHR ''@''" "CHR ''@''" "''lid''"]
    by (simp add: lid_form_def LID_SERVER_def)
  have "CHR '':'' \<notin> set (l @ ''.1'')" using u by auto
  then show "jid_device_token (lid_form l d) = d"
    unfolding jid_device_token_def head using split_once_complete [of "CHR '':''" "l @ ''.1''"]
    by (cases d) simp_all
  show "ends_with (lid_form l d) LID_SERVER" "\<not> ends_with (lid_form l d) PN_SERVER"
    using servers(2,4) [of "l @ ?s"] by (simp_all add: lid_form_def)
qed

lemma device_token_0: "device_token d \<Longrightarrow> (case d of None \<Rightarrow> None | Some x \<Rightarrow> if x = ''0'' then None else Some x) = d"
  by (auto simp: device_token_def split: option.splits)

lemma alternates_pn:
  assumes "plain_user p" "device_token d"
  shows "lid_pn_alternates st (pn_form p d) =
    (case pn_to_lid st p of
       None \<Rightarrow> []
     | Some l \<Rightarrow> [lid_form l d, l @ (case d of None \<Rightarrow> [] | Some x \<Rightarrow> '':'' @ x) @ LID_SERVER] @
         (case d of None \<Rightarrow> [l @ ''.0'' @ LID_SERVER] | Some _ \<Rightarrow> []))"
  using pn_form_parts [OF assms] device_token_0 [OF assms(2)]
  by (auto simp: lid_pn_alternates_def lid_form_def split: option.split)

lemma alternates_lid:
  assumes "plain_user l" "device_token d"
  shows "lid_pn_alternates st (lid_form l d) = (case lid_to_pn st l of None \<Rightarrow> [] | Some p \<Rightarrow> [pn_form p d])"
  using lid_form_parts [OF assms] device_token_0 [OF assms(2)]
  by (auto simp: lid_pn_alternates_def pn_form_def split: option.split)

lemma canonical_pn:
  "plain_user p \<Longrightarrow> device_token d \<Longrightarrow>
    canonical_session_address st (pn_form p d) = (case pn_to_lid st p of None \<Rightarrow> pn_form p d | Some l \<Rightarrow> lid_form l d)"
  by (simp add: canonical_session_address_def alternates_pn pn_form_parts split: option.split)

lemma canonical_lid:
  "plain_user l \<Longrightarrow> device_token d \<Longrightarrow> canonical_session_address st (lid_form l d) = lid_form l d"
  by (simp add: canonical_session_address_def lid_form_parts)

lemma address_forms_set:
  "set (address_forms st a) = {a, canonical_session_address st a} \<union> set (lid_pn_alternates st a)
    \<union> set (lid_pn_alternates st (canonical_session_address st a))"
  "distinct (address_forms st a)"
  unfolding address_forms_def Let_def by (subst set_sorted_list_of_set; auto simp del: sorted_list_of_set_insert_remove)
     (rule distinct_sorted_list_of_set)

lemma canonical_in_forms [simp]: "canonical_session_address st a \<in> set (address_forms st a)"
  by (simp add: address_forms_set)

text \<open>The forms depend on the map of users only, which moving sessions leaves alone.\<close>

lemma forms_cong:
  assumes "lid_pn_map st' = lid_pn_map st"
  shows "canonical_session_address st' a = canonical_session_address st a" "address_forms st' a = address_forms st a"
proof -
  have "lid_pn_alternates st' = lid_pn_alternates st"
    using lid_pn_cong [OF assms] unfolding lid_pn_alternates_def [abs_def] by presburger
  then show "canonical_session_address st' a = canonical_session_address st a"
    "address_forms st' a = address_forms st a"
    by (simp_all add: canonical_session_address_def address_forms_def)
qed

section \<open>What moving sessions does\<close>

lemma drop_others_load:
  "store_load_record (fold (\<lambda>a s. if a \<noteq> c \<and> has_record s a then store_delete_record a s else s) as st) b =
    (if b \<in> set as \<and> b \<noteq> c then None else store_load_record st b)"
  by (induction as arbitrary: st) (auto simp: has_record_def)

lemma drop_others_fields:
  "lid_pn_map (fold (\<lambda>a s. if a \<noteq> c \<and> has_record s a then store_delete_record a s else s) as st) = lid_pn_map st"
  by (induction as arbitrary: st) auto

lemma delete_all_fields: "lid_pn_map (fold store_delete_record as st) = lid_pn_map st"
  by (induction as arbitrary: st) auto

lemma find_None: "find P xs = None \<longleftrightarrow> (\<forall>x \<in> set xs. \<not> P x)"
  by (induction xs) auto

lemma find_Some: "find P xs = Some x \<Longrightarrow> x \<in> set xs \<and> P x"
  by (induction xs) (auto split: if_splits)

lemma resolve_present:
  assumes "has_record st (canonical_session_address st addr)" "resolve_session_address st addr = (a, st')"
  shows "store_load_record st' b =
      (if b \<in> set (address_forms st addr) \<and> b \<noteq> a then None else store_load_record st b)"
    "a = canonical_session_address st addr" "lid_pn_map st' = lid_pn_map st"
  using assms by (auto simp: resolve_session_address_def Let_def drop_others_load drop_others_fields)

lemma resolve_absent:
  assumes "\<not> has_record st (canonical_session_address st addr)" "resolve_session_address st addr = (a, st')"
  obtains "st' = st" "\<forall>b \<in> set (address_forms st addr). \<not> has_record st b"
      "a = canonical_session_address st addr"
  | src where "src \<in> set (address_forms st addr)" "src \<noteq> a" "has_record st src" "lid_pn_map st' = lid_pn_map st"
      "a = canonical_session_address st addr"
      "\<And>b. store_load_record st' b =
        (if b = src then None else if b = a then store_load_record st src else store_load_record st b)"
proof (cases "find (\<lambda>b. b \<noteq> canonical_session_address st addr \<and> has_record st b) (address_forms st addr)")
  case None
  then have "\<forall>b \<in> set (address_forms st addr). \<not> has_record st b"
    using assms(1) by (auto simp: find_None)
  moreover have "st' = st" "a = canonical_session_address st addr"
    using assms None by (auto simp: resolve_session_address_def Let_def)
  ultimately show ?thesis by (intro that(1))
next
  case (Some src)
  from find_Some [OF Some] have src: "has_record st src" by simp
  then obtain r where "store_load_record st src = Some r" by (auto simp: has_record_def)
  with assms Some find_Some [OF Some] src show ?thesis
    by (intro that(2) [of src]) (auto simp: resolve_session_address_def Let_def)
qed

lemma resolve_fst:
  assumes "resolve_session_address st addr = (a, st')"
  shows "a = canonical_session_address st addr" "lid_pn_map st' = lid_pn_map st"
  by (cases "has_record st (canonical_session_address st addr)";
      use resolve_present(2,3) [OF _ assms] resolve_absent [OF _ assms] in metis)+

text \<open>The same for sending.\<close>

lemma encryption_cases:
  assumes "encryption_address st d = (a, st')"
  obtains "st' = st" "\<forall>b \<in> set (address_forms st d). has_current st b \<longrightarrow> b = a"
      "a = canonical_session_address st d"
  | src where "src \<in> set (address_forms st d)" "src \<noteq> a" "a = canonical_session_address st d"
      "lid_pn_map st' = lid_pn_map st"
      "\<forall>b \<in> set (address_forms st d). has_current st b \<longleftrightarrow> b = src"
      "\<And>b. store_load_record st' b =
        (if b = src then None else if b = a then store_load_record st src else store_load_record st b)"
  | "length (filter (has_current st) (address_forms st d)) > 1" "a = canonical_session_address st d"
      "lid_pn_map st' = lid_pn_map st"
      "\<And>b. store_load_record st' b =
        (if b \<in> set (address_forms st d) \<and> has_current st b then None else store_load_record st b)"
proof (cases "length (filter (has_current st) (address_forms st d)) > 1")
  case True
  with assms that(3) show ?thesis
    by (auto simp: encryption_address_def store_load_delete_all delete_all_fields)
next
  case False
  let ?c = "canonical_session_address st d"
  show ?thesis
  proof (cases "filter (has_current st) (address_forms st d)")
    case Nil
    with assms that(1) show ?thesis by (auto simp: encryption_address_def filter_empty_conv)
  next
    case (Cons src rest)
    with False have w: "filter (has_current st) (address_forms st d) = [src]" by simp
    then have "{b \<in> set (address_forms st d). has_current st b} = {src}" by (metis list.set(1,2) set_filter)
    then have only: "\<forall>b \<in> set (address_forms st d). has_current st b \<longleftrightarrow> b = src"
      and src: "src \<in> set (address_forms st d)" by blast+
    show ?thesis
    proof (cases "src = ?c")
      case True
      with assms w that(1) only show ?thesis by (auto simp: encryption_address_def)
    next
      case False
      from only src have "has_current st src" by blast
      then obtain r where "store_load_record st src = Some r" by (auto simp: has_current_def split: option.splits)
      moreover from this assms w False have "a = ?c" "st' = store_delete_record src (store_save_record ?c r st)"
        by (auto simp: encryption_address_def Let_def)
      ultimately show ?thesis by (intro that(2) [OF src _ _ _ only]) (use False in simp_all)
    qed
  qed
qed

section \<open>Properties\<close>

text \<open>The two addressings of a device lead to one session: with the contact's LID known, its
  phone-number address and its LID address have the same canonical address, and with the same
  user key in the chats.\<close>

theorem same_device_same_address:
  assumes "plain_user p" "plain_user l" "device_token d" "pn_to_lid st p = Some l"
    and "distinct (map fst (lid_pn_map st))"
  shows "canonical_session_address st (pn_form p d) = lid_form l d \<and>
    canonical_session_address st (lid_form l d) = lid_form l d \<and>
    canonical_user_jid st (pn_form p d) = p @ PN_SERVER \<and> canonical_user_jid st (lid_form l d) = p @ PN_SERVER"
proof -
  have other: "\<not> ends_with (s @ PN_SERVER) ''@g.us''" "\<not> ends_with (s @ PN_SERVER) ''@broadcast''"
    "\<not> ends_with (s @ PN_SERVER) ''@newsletter''" "\<not> ends_with (s @ LID_SERVER) ''@g.us''"
    "\<not> ends_with (s @ LID_SERVER) ''@broadcast''" "\<not> ends_with (s @ LID_SERVER) ''@newsletter''" for s
    by (simp_all add: ends_with_def suffix_to_prefix PN_SERVER_def LID_SERVER_def)
  have pn: "canonical_user_jid st (pn_form p d) = p @ PN_SERVER"
    using other(1-3) [of "p @ (case d of None \<Rightarrow> [] | Some d \<Rightarrow> '':'' @ d)"] pn_form_parts [OF assms(1,3)]
    by (simp add: canonical_user_jid_def Let_def) (simp add: pn_form_def)
  have "lid_to_pn st l = Some p" by (rule pn_to_lid_back [OF assms(5,4)])
  then have "canonical_user_jid st (lid_form l d) = p @ PN_SERVER"
    using other(4-6) [of "l @ ''.1'' @ (case d of None \<Rightarrow> [] | Some d \<Rightarrow> '':'' @ d)"] lid_form_parts [OF assms(2,3)]
    by (simp add: canonical_user_jid_def Let_def) (simp add: lid_form_def)
  with pn assms show ?thesis by (simp add: canonical_pn canonical_lid)
qed

text \<open>A store in which the phone number 55 has the LID 64.\<close>

definition toy_store :: "(string, session_record) rows \<Rightarrow> whisper_store" where
  "toy_store s = \<lparr>sessions = s, prekeys = [], sender_keys = [], lid_pn_map = [(''64'', ''55'', 0)]\<rparr>"

lemma toy_pn_to_lid: "pn_to_lid (toy_store s) ''55'' = Some ''64''" "lid_to_pn (toy_store s) ''64'' = Some ''55''"
  by (simp_all add: pn_to_lid_def lid_to_pn_def toy_store_def row_load_def)

theorem same_device_same_address_witness:
  "canonical_session_address (toy_store []) ''55:3@s.whatsapp.net'' = ''64.1:3@lid'' \<and>
    canonical_user_jid (toy_store []) ''64.1:3@lid'' = ''55@s.whatsapp.net''"
proof -
  have "plain_user ''55''" "plain_user ''64''" "device_token (Some ''3'')"
    by (simp_all add: plain_user_def device_token_def)
  from same_device_same_address [OF this toy_pn_to_lid(1) [of "[]"]] show ?thesis
    by (simp add: pn_form_def lid_form_def PN_SERVER_def LID_SERVER_def toy_store_def)
qed

text \<open>Before sending, the forms that the code knows of a device hold at most one established session, filed under
  the canonical address: a single copy is moved there unchanged, two or more (which have diverged)
  are all dropped, and other devices' sessions are not touched.\<close>

theorem encryption_address_leaves_one:
  assumes "encryption_address st d = (a, st')"
  defines "copies \<equiv> {b \<in> set (address_forms st d). has_current st b}"
  shows "a = canonical_session_address st d \<and>
    (\<forall>b \<in> set (address_forms st d). has_current st' b \<longrightarrow> b = a) \<and>
    (\<forall>b. b \<notin> set (address_forms st d) \<longrightarrow> store_load_record st' b = store_load_record st b) \<and>
    (\<forall>b. copies = {b} \<longrightarrow> store_load_record st' a = store_load_record st b) \<and>
    (card copies > 1 \<longrightarrow> \<not> has_current st' a)"
  using assms(1)
proof (cases rule: encryption_cases)
  case 1
  then have "copies \<subseteq> {a}" by (auto simp: copies_def)
  moreover from this have "card copies \<le> 1" using card_mono [of "{a}" copies] by simp
  ultimately show ?thesis using 1 by auto
next
  case (2 src)
  then have "copies = {src}" by (auto simp: copies_def)
  with 2 canonical_in_forms [of st d] show ?thesis
    by (auto simp: has_current_def split: if_splits)
next
  case 3
  have "card copies = length (filter (has_current st) (address_forms st d))"
    using distinct_card [of "filter (has_current st) (address_forms st d)"] address_forms_set(2) [of st d]
    by (simp add: copies_def)
  with 3(1) have "card copies \<noteq> 1" by simp
  with 3 show ?thesis by (auto simp: has_current_def split: if_splits)
qed

definition toy_record :: session_record where
  "toy_record = new_record\<lparr>current := Some (process_bob toy_signal toy_bob)\<rparr>"

theorem encryption_address_leaves_one_witness:
  "\<not> has_current (snd (encryption_address (toy_store [(''64.1@lid'', toy_record), (''55@s.whatsapp.net'', toy_record)])
      ''55@s.whatsapp.net'')) ''55@s.whatsapp.net''"
proof -
  let ?st = "toy_store [(''64.1@lid'', toy_record), (''55@s.whatsapp.net'', toy_record)]"
  obtain a st' where e: "encryption_address ?st ''55@s.whatsapp.net'' = (a, st')" by fastforce
  have u: "plain_user ''55''" "device_token None" by (simp_all add: plain_user_def device_token_def)
  have c: "canonical_session_address ?st ''55@s.whatsapp.net'' = ''64.1@lid''"
    using canonical_pn [OF u, of ?st] by (simp add: toy_pn_to_lid pn_form_def lid_form_def PN_SERVER_def LID_SERVER_def)
  have "''55@s.whatsapp.net'' \<in> set (address_forms ?st ''55@s.whatsapp.net'')"
    unfolding address_forms_set by blast
  note mem = this
  note t = encryption_address_leaves_one [OF e]
  from t [THEN conjunct2, THEN conjunct1, THEN bspec, OF mem] t [THEN conjunct1] c
  have "\<not> has_current st' ''55@s.whatsapp.net''" by auto
  then show ?thesis unfolding e snd_conv .
qed

text \<open>The spellings of one device, independent of the code: by phone number, and by LID with the agent 1, without
  an agent, and (the primary device only) with the agent 0.\<close>

definition agentless_lid :: "string \<Rightarrow> string option \<Rightarrow> string" where
  "agentless_lid l d = l @ (case d of None \<Rightarrow> [] | Some d \<Rightarrow> '':'' @ d) @ LID_SERVER"

definition device_names :: "string \<Rightarrow> string \<Rightarrow> string option \<Rightarrow> string set" where
  "device_names p l d =
    {pn_form p d, lid_form l d, agentless_lid l d} \<union> (if d = None then {l @ ''.0'' @ LID_SERVER} else {})"

text \<open>From \<open>st\<close> to \<open>st'\<close>, the sessions under some names have become one under \<open>a\<close>: it is the only one there was, or,
  where there were several, none is left.\<close>

definition one_session :: "string set \<Rightarrow> string \<Rightarrow> whisper_store \<Rightarrow> whisper_store \<Rightarrow> bool" where
  "one_session names a st st' \<longleftrightarrow>
    (\<forall>n \<in> names. has_current st' n \<longrightarrow> n = a) \<and>
    (\<forall>n. n \<notin> names \<longrightarrow> store_load_record st' n = store_load_record st n) \<and>
    (\<forall>n. {m \<in> names. has_current st m} = {n} \<longrightarrow> store_load_record st' a = store_load_record st n) \<and>
    (card {m \<in> names. has_current st m} > 1 \<longrightarrow> \<not> has_current st' a)"

lemma one_session_of_forms:
  assumes "encryption_address st x = (a, st')" "set (address_forms st x) = names"
  shows "one_session names a st st'"
  using encryption_address_leaves_one [OF assms(1)] unfolding one_session_def assms(2) by blast

lemma device_forms:
  assumes "plain_user p" "plain_user l" "device_token d" "pn_to_lid st p = Some l" "lid_to_pn st l = Some p"
  shows "set (address_forms st (pn_form p d)) = device_names p l d"
    "set (address_forms st (lid_form l d)) = {pn_form p d, lid_form l d}"
  unfolding address_forms_set
  using assms by (auto simp: canonical_pn canonical_lid alternates_pn alternates_lid device_names_def agentless_lid_def
      split: option.splits)

text \<open>C12: A send to a device by phone number leaves at most one established session among all spellings of the device,
  under the LID with agent 1: the only one there was, moved and unchanged, or none where several had
  diverged; no other record changes. A send by LID does the same for the phone number and that LID only: a
  session under a spelling with no agent or with agent 0 stays beside the one in use.\<close>

theorem one_session_after_send:
  assumes "plain_user p" "plain_user l" "device_token d" "pn_to_lid st p = Some l" "distinct (map fst (lid_pn_map st))"
    and "encryption_address st (pn_form p d) = (a, st')" "encryption_address st (lid_form l d) = (b, st'')"
  shows "a = lid_form l d \<and> one_session (device_names p l d) a st st' \<and>
    b = lid_form l d \<and> one_session {pn_form p d, lid_form l d} b st st'' \<and>
    (\<forall>n \<in> device_names p l d - {pn_form p d, lid_form l d}. has_current st'' n \<longleftrightarrow> has_current st n)"
proof -
  have "lid_to_pn st l = Some p" by (rule pn_to_lid_back [OF assms(5,4)])
  note forms = device_forms [OF assms(1-4) this]
  have "a = lid_form l d" "b = lid_form l d"
    using encryption_address_leaves_one [OF assms(6)] encryption_address_leaves_one [OF assms(7)] assms(1-4)
    by (simp_all add: canonical_pn canonical_lid)
  moreover have "one_session (device_names p l d) a st st'" by (rule one_session_of_forms [OF assms(6) forms(1)])
  moreover have b: "one_session {pn_form p d, lid_form l d} b st st''" by (rule one_session_of_forms [OF assms(7) forms(2)])
  moreover have "has_current st'' n \<longleftrightarrow> has_current st n" if "n \<in> device_names p l d - {pn_form p d, lid_form l d}" for n
    using b that by (simp add: one_session_def has_current_def)
  ultimately show ?thesis by blast
qed

theorem one_session_after_send_witness:
  "let st = toy_store [(''64@lid'', toy_record)] in
    store_load_record (snd (encryption_address st ''55@s.whatsapp.net'')) ''64.1@lid'' = Some toy_record \<and>
    \<not> has_current (snd (encryption_address st ''55@s.whatsapp.net'')) ''64@lid'' \<and>
    has_current (snd (encryption_address st ''64.1@lid'')) ''64@lid''"
proof -
  let ?st = "toy_store [(''64@lid'', toy_record)]"
  have u: "plain_user ''55''" "plain_user ''64''" "device_token None" by (simp_all add: plain_user_def device_token_def)
  have f: "pn_form ''55'' None = ''55@s.whatsapp.net''" "lid_form ''64'' None = ''64.1@lid''" "agentless_lid ''64'' None = ''64@lid''"
    by (simp_all add: pn_form_def lid_form_def agentless_lid_def PN_SERVER_def LID_SERVER_def)
  obtain a st' where a: "encryption_address ?st (pn_form ''55'' None) = (a, st')" by fastforce
  obtain b st'' where b: "encryption_address ?st (lid_form ''64'' None) = (b, st'')" by fastforce
  have n: "device_names ''55'' ''64'' None = {''55@s.whatsapp.net'', ''64.1@lid'', ''64@lid'', ''64.0@lid''}"
    unfolding device_names_def f by (auto simp: LID_SERVER_def)
  have cur: "has_current ?st m \<longleftrightarrow> m = ''64@lid''" for m
    by (simp add: has_current_def store_load_record_def row_load_def toy_store_def toy_record_def)
  have d: "distinct (map fst (lid_pn_map ?st))" by (simp add: toy_store_def)
  note t = one_session_after_send [OF u toy_pn_to_lid(1) d a b, unfolded f n]
  have "{m \<in> {''55@s.whatsapp.net'', ''64.1@lid'', ''64@lid'', ''64.0@lid''}. has_current ?st m} = {''64@lid''}"
    unfolding cur by blast
  then have "store_load_record st' ''64.1@lid'' = store_load_record ?st ''64@lid''" "\<not> has_current st' ''64@lid''"
    using t unfolding one_session_def by auto
  moreover have "has_current st'' ''64@lid''" using t cur by simp
  moreover have "store_load_record ?st ''64@lid'' = Some toy_record"
    by (simp add: store_load_record_def row_load_def toy_store_def)
  ultimately show ?thesis using a b unfolding f Let_def by simp
qed

text \<open>A received message finds its device's session whichever form it was filed under: the
  canonical address holds a record afterwards if any form did before, resolving again leaves it
  the only one, an established canonical session is never lost, and the next send uses it as it
  is.\<close>

theorem resolve_session_address_keeps:
  assumes "resolve_session_address st addr = (a, st')" "resolve_session_address st' addr = (a', st'')"
    and "encryption_address st'' addr = (e, sent)"
  shows "(has_record st' a \<longleftrightarrow> (\<exists>b \<in> set (address_forms st addr). has_record st b)) \<and>
    (\<forall>b \<in> set (address_forms st addr). has_record st'' b \<longrightarrow> b = a) \<and>
    store_load_record st'' a = store_load_record st' a \<and>
    (has_record st a \<longrightarrow> store_load_record st' a = store_load_record st a) \<and>
    e = a \<and> sent = st''"
proof -
  let ?forms = "address_forms st addr" and ?c = "canonical_session_address st addr"
  have first: "a = ?c" "lid_pn_map st' = lid_pn_map st" "has_record st' a \<longleftrightarrow> (\<exists>b \<in> set ?forms. has_record st b)"
    "has_record st a \<longrightarrow> store_load_record st' a = store_load_record st a"
  proof -
    have "a = ?c \<and> lid_pn_map st' = lid_pn_map st \<and> (has_record st' a \<longleftrightarrow> (\<exists>b \<in> set ?forms. has_record st b)) \<and>
      (has_record st a \<longrightarrow> store_load_record st' a = store_load_record st a)"
    proof (cases "has_record st ?c")
      case True
      with resolve_present [OF True assms(1)] canonical_in_forms [of st addr] show ?thesis
        by (auto simp: has_record_def)
    next
      case False
      from resolve_absent [OF False assms(1)] False canonical_in_forms [of st addr] show ?thesis
        by (cases; simp add: has_record_def) (metis option.distinct(1))
    qed
    then show "a = ?c" "lid_pn_map st' = lid_pn_map st"
      "has_record st' a \<longleftrightarrow> (\<exists>b \<in> set ?forms. has_record st b)"
      "has_record st a \<longrightarrow> store_load_record st' a = store_load_record st a" by blast+
  qed
  have same: "canonical_session_address st' addr = ?c" "address_forms st' addr = ?forms"
    by (rule forms_cong [OF first(2)])+
  have second: "lid_pn_map st'' = lid_pn_map st'" "store_load_record st'' a = store_load_record st' a"
    "\<forall>b \<in> set ?forms. has_record st'' b \<longrightarrow> b = a"
  proof -
    have "lid_pn_map st'' = lid_pn_map st' \<and> store_load_record st'' a = store_load_record st' a \<and>
      (\<forall>b \<in> set ?forms. has_record st'' b \<longrightarrow> b = a)"
    proof (cases "has_record st' ?c")
      case True
      with resolve_present [of st' addr, OF _ assms(2)] same first(1) show ?thesis
        by (auto simp: has_record_def)
    next
      case False
      with first(1,3) have none: "\<forall>b \<in> set ?forms. \<not> has_record st b" by simp
      with False first(1) resolve_absent [OF _ assms(1)] have "st' = st" by (metis canonical_in_forms)
      with False none resolve_absent [OF _ assms(2)] show ?thesis by (metis same)
    qed
    then show "lid_pn_map st'' = lid_pn_map st'" "store_load_record st'' a = store_load_record st' a"
      "\<forall>b \<in> set ?forms. has_record st'' b \<longrightarrow> b = a" by blast+
  qed
  have forms: "canonical_session_address st'' addr = ?c" "address_forms st'' addr = ?forms"
    using forms_cong [OF second(1), of addr] same by simp_all
  have only: "has_current st'' b \<Longrightarrow> b \<in> set ?forms \<Longrightarrow> b = a" for b
    using second(3) by (auto simp: has_current_def has_record_def split: option.splits)
  from assms(3) have "e = a \<and> sent = st''"
  proof (cases rule: encryption_cases)
    case 1
    then show ?thesis using forms first(1) by simp
  next
    case (2 src)
    then show ?thesis using only forms first(1) by metis
  next
    case 3
    have "card (set (filter (has_current st'') ?forms)) \<le> card {a}"
      using only by (intro card_mono) auto
    moreover have "card (set (filter (has_current st'') ?forms)) = length (filter (has_current st'') ?forms)"
      using address_forms_set(2) [of st addr] by (intro distinct_card distinct_filter)
    ultimately show ?thesis using 3(1) unfolding forms by simp
  qed
  with first second show ?thesis by blast
qed


theorem resolve_session_address_keeps_witness:
  "\<exists>a st' st''. resolve_session_address (toy_store [(''55@s.whatsapp.net'', toy_record)]) ''64.1@lid'' = (a, st') \<and>
    resolve_session_address st' ''64.1@lid'' = (a, st'') \<and> encryption_address st'' ''64.1@lid'' = (a, st'')"
proof -
  let ?st = "toy_store [(''55@s.whatsapp.net'', toy_record)]"
  obtain a st' where r1: "resolve_session_address ?st ''64.1@lid'' = (a, st')" by fastforce
  obtain a' st'' where r2: "resolve_session_address st' ''64.1@lid'' = (a', st'')" by fastforce
  obtain e sent where e: "encryption_address st'' ''64.1@lid'' = (e, sent)" by fastforce
  from resolve_session_address_keeps [OF r1 r2 e] have "e = a" "sent = st''" by blast+
  moreover have "a' = a"
    using resolve_fst [OF r1] resolve_fst(1) [OF r2] forms_cong(1) [of st' ?st] by simp
  ultimately show ?thesis using r1 r2 e by blast
qed

lemma digits_no_sep: "list_all is_ascii_digit s \<Longrightarrow> set s \<inter> {CHR ''.'', CHR '':'', CHR ''@''} = {}"
  by (induction s) (auto simp: is_ascii_digit_def)

lemma parse_u32_show: "parse_u32_or_0 (show_nat (parse_u32_or_0 s)) = parse_u32_or_0 s"
proof -
  have "parse_u32_or_0 s \<le> 4294967295"
    using parse_uint_le [of 4294967295 s] by (simp add: parse_u32_or_0_def split: option.split)
  then show ?thesis by (simp add: parse_u32_or_0_def [of "show_nat _"] parse_uint_show_nat)
qed

lemma jid_ad_string_parts:
  fixes agent device :: nat
  defines "head \<equiv> \<lambda>user. user @ CHR ''.'' # show_nat agent @ CHR '':'' # show_nat device"
  assumes "set user \<inter> {CHR ''.'', CHR '':''} = {}" "CHR ''@'' \<notin> set server"
  shows "jid_ad_string (head user @ CHR ''@'' # server) =
    user @ ''.'' @ show_nat (parse_u32_or_0 (show_nat agent)) @ '':'' @ show_nat (parse_u32_or_0 (show_nat device)) @ ''@'' @ server"
proof -
  have sep: "CHR '':'' \<notin> set (show_nat agent)" "\<forall>c \<in> set (show_nat agent). c \<noteq> CHR '':''"
    using digits_no_sep [OF show_nat_digits] by auto
  have "rsplit_once (CHR ''@'') (head user @ CHR ''@'' # server) = Some (head user, server)"
    using assms(3) by (simp add: rsplit_once_Some)
  moreover have "takeWhile (\<lambda>c. c \<notin> {CHR ''.'', CHR '':''}) (head user) = user"
    unfolding head_def by (rule takeWhile_stop) (use assms(2) in auto)
  moreover have "split_once (CHR ''.'') (head user) = Some (user, show_nat agent @ CHR '':'' # show_nat device)"
    using assms(2) by (simp add: head_def split_once_Some)
  moreover have "takeWhile (\<lambda>c. c \<noteq> CHR '':'') (show_nat agent @ CHR '':'' # show_nat device) = show_nat agent"
    by (rule takeWhile_stop) (use sep in auto)
  moreover have "split_once (CHR '':'') (head user) = Some (user @ CHR ''.'' # show_nat agent, show_nat device)"
    using assms(2) sep by (simp add: head_def split_once_Some)
  ultimately show ?thesis by (simp add: jid_ad_string_def)
qed

text \<open>The address string that the participant hash is computed from is a normal form: it always
  spells out agent and device, and normalising it again changes nothing.\<close>

theorem jid_ad_string_normal:
  "jid_ad_string (jid_ad_string jid) = jid_ad_string jid"
proof -
  obtain head server where hs: "(case rsplit_once (CHR ''@'') jid of Some hs \<Rightarrow> hs | None \<Rightarrow> (jid, [])) = (head, server)"
    by fastforce
  then have server: "CHR ''@'' \<notin> set server"
    by (auto simp: rsplit_once_Some split: option.splits)
  let ?user = "takeWhile (\<lambda>c. c \<notin> {CHR ''.'', CHR '':''}) head"
  obtain agent device where
    j: "jid_ad_string jid = (?user @ CHR ''.'' # show_nat (parse_u32_or_0 agent) @ CHR '':'' # show_nat (parse_u32_or_0 device))
      @ CHR ''@'' # server"
  proof -
    have zero: "parse_u32_or_0 [] = 0" by (simp add: parse_u32_or_0_def parse_uint_def)
    show ?thesis
      by (rule that [of
          "case split_once (CHR ''.'') head of Some (_, rest) \<Rightarrow> takeWhile (\<lambda>c. c \<noteq> CHR '':'') rest | None \<Rightarrow> []"
          "case split_once (CHR '':'') head of Some (_, rest) \<Rightarrow> rest | None \<Rightarrow> []"])
         (auto simp: jid_ad_string_def hs zero simp del: split_once_None split: option.split)
  qed
  have "set ?user \<inter> {CHR ''.'', CHR '':''} = {}" by (auto dest: set_takeWhileD)
  from jid_ad_string_parts [OF this server] show ?thesis
    unfolding j by (simp add: parse_u32_show)
qed

text \<open>A mapping learned from a message unifies the contact's devices at once: when a message
  from a LID names its sender's phone number, every device of either form has one session
  address from then on.\<close>

theorem learned_mapping_unifies:
  assumes "plain_user p" "plain_user l" "device_token d" "device_token d'" "device_token d''"
    and "map_of as ''from'' = Some (lid_form l d)" "map_of as ''sender_pn'' = Some (pn_form p d')"
    and "map_of as ''recipient'' = None" "map_of as ''participant'' = None"
    and "\<forall>r \<in> set (lid_pn_map st). snd (snd r) \<le> now"
  shows "canonical_session_address (capture_lid_pn_mappings now as st) (pn_form p d'') = lid_form l d'' \<and>
    canonical_session_address (capture_lid_pn_mappings now as st) (lid_form l d'') = lid_form l d'' \<and>
    sessions (capture_lid_pn_mappings now as st) = sessions st"
proof -
  have "p \<noteq> []" "l \<noteq> []" using assms(1,2) by (auto simp: plain_user_def)
  with assms(6-9) have "capture_lid_pn_mappings now as st = lid_pn_put l p now st"
    by (simp add: capture_lid_pn_mappings_def capture_pair_def pn_form_parts [OF assms(1,4)]
        lid_form_parts [OF assms(2,3)])
  with lid_pn_put_lookup(2) [OF assms(10)] assms(1,2,5) show ?thesis
    by (simp add: canonical_pn canonical_lid) (simp add: lid_pn_put_def)
qed

theorem learned_mapping_unifies_witness:
  "canonical_session_address (capture_lid_pn_mappings 7 [(''from'', ''64.1:3@lid''), (''sender_pn'', ''55@s.whatsapp.net'')]
      \<lparr>sessions = [], prekeys = [], sender_keys = [], lid_pn_map = []\<rparr>) ''55:9@s.whatsapp.net'' = ''64.1:9@lid''"
proof -
  have t: "plain_user ''55''" "plain_user ''64''" "device_token (Some ''3'')" "device_token None" "device_token (Some ''9'')"
    by (simp_all add: plain_user_def device_token_def)
  show ?thesis
    using learned_mapping_unifies [OF t, of "[(''from'', ''64.1:3@lid''), (''sender_pn'', ''55@s.whatsapp.net'')]"
        "\<lparr>sessions = [], prekeys = [], sender_keys = [], lid_pn_map = []\<rparr>" 7]
    by (simp add: pn_form_def lid_form_def PN_SERVER_def LID_SERVER_def)
qed

text \<open>The LID form without an agent escapes the unification: it is its own canonical address, so a
  send to it leaves both its session and the one filed under the agent form established.\<close>

theorem bare_lid_keeps_two_sessions:
  assumes "plain_user p" "plain_user l" "pn_to_lid st p = Some l" "lid_to_pn st l = Some p"
    and "has_current st (l @ LID_SERVER)" "has_current st (lid_form l None)" "\<not> has_current st (pn_form p None)"
  shows "encryption_address st (l @ LID_SERVER) = (l @ LID_SERVER, st) \<and>
    canonical_session_address st (pn_form p None) = lid_form l None \<and> lid_form l None \<noteq> l @ LID_SERVER"
proof -
  have u: "\<forall>c \<in> set l. c \<notin> {CHR ''.'', CHR '':'', CHR ''@''}" using assms(2) by (auto simp: plain_user_def)
  have "lid_user_part (l @ LID_SERVER) = l"
    using takeWhile_stop [OF u, of "CHR ''@''" "''lid''"] by (simp add: lid_user_part_def LID_SERVER_def)
  moreover have "jid_device_token (l @ LID_SERVER) = None"
  proof -
    have "takeWhile (\<lambda>c. c \<noteq> CHR ''@'') (l @ LID_SERVER) = l"
      using u takeWhile_stop [of l "\<lambda>c. c \<noteq> CHR ''@''" "CHR ''@''" "''lid''"] by (auto simp: LID_SERVER_def)
    then show ?thesis using u by (auto simp: jid_device_token_def)
  qed
  ultimately have alts: "lid_pn_alternates st (l @ LID_SERVER) = [pn_form p None]"
    using assms(4) by (simp add: lid_pn_alternates_def pn_form_def)
  have c: "canonical_session_address st (l @ LID_SERVER) = l @ LID_SERVER"
    by (simp add: canonical_session_address_def)
  have forms: "set (address_forms st (l @ LID_SERVER)) = {l @ LID_SERVER, pn_form p None}"
    unfolding address_forms_set c alts by auto
  obtain a st' where e: "encryption_address st (l @ LID_SERVER) = (a, st')" by fastforce
  then have "a = l @ LID_SERVER \<and> st' = st"
  proof (cases rule: encryption_cases)
    case (2 src)
    then show ?thesis using c forms assms(5) by auto
  next
    case 3
    have "set (filter (has_current st) (address_forms st (l @ LID_SERVER))) = {l @ LID_SERVER}"
      using forms assms(5,7) by auto
    moreover have "distinct (filter (has_current st) (address_forms st (l @ LID_SERVER)))"
      using address_forms_set(2) by simp
    ultimately have "length (filter (has_current st) (address_forms st (l @ LID_SERVER))) = 1"
      using distinct_card by fastforce
    with 3(1) show ?thesis by simp
  qed (use c in simp)
  with e have "encryption_address st (l @ LID_SERVER) = (l @ LID_SERVER, st)" by simp
  with assms show ?thesis
    by (simp add: canonical_pn device_token_def) (simp add: lid_form_def)
qed

theorem bare_lid_keeps_two_sessions_witness:
  "encryption_address (toy_store [(''64@lid'', toy_record), (''64.1@lid'', toy_record)]) ''64@lid''
    = (''64@lid'', toy_store [(''64@lid'', toy_record), (''64.1@lid'', toy_record)])"
proof -
  let ?st = "toy_store [(''64@lid'', toy_record), (''64.1@lid'', toy_record)]"
  have u: "plain_user ''55''" "plain_user ''64''" by (simp_all add: plain_user_def)
  have "has_current ?st ''64@lid''" "has_current ?st ''64.1@lid''" "\<not> has_current ?st ''55@s.whatsapp.net''"
    by (simp_all add: has_current_def store_load_record_def row_load_def toy_store_def toy_record_def)
  with bare_lid_keeps_two_sessions [OF u toy_pn_to_lid, of "[(''64@lid'', toy_record), (''64.1@lid'', toy_record)]"]
  show ?thesis by (simp add: pn_form_def lid_form_def PN_SERVER_def LID_SERVER_def)
qed

end
