(* ===== verification/Device_Keys.thy ===== *)
theory Device_Keys
  imports Key_Chain
begin

text \<open>
  The long-term keys of a device, \<open>DeviceKeys\<close> of \<open>src/src/crypto.rs\<close>: those of the Noise handshake, the
  identity, the signed prekey and the secret that pairing is authenticated with.
\<close>

record key_pair =
  kp_private :: bytes
  kp_public :: bytes

record signed_pre_key =
  spk_key_id :: u32
  spk_keypair :: key_pair
  spk_signature :: bytes

record device_keys =
  noise_key :: key_pair
  identity_key :: key_pair
  signed_prekey :: signed_pre_key
  adv_secret :: bytes
  registration_id :: u32

text \<open>\<open>DeviceKeys::generate\<close>, with what the random generator delivers.\<close>

definition generate_device_keys ::
  "signal_crypto \<Rightarrow> key_pair \<Rightarrow> key_pair \<Rightarrow> key_pair \<Rightarrow> bytes \<Rightarrow> u32 \<Rightarrow> device_keys" where
  "generate_device_keys c noise identity spk adv r =
    (let spk_signed = 0x05 # kp_public spk
     in \<lparr>noise_key = noise, identity_key = identity,
         signed_prekey = \<lparr>spk_key_id = 1, spk_keypair = spk,
           spk_signature = xeddsa_sign c (kp_private identity) spk_signed\<rparr>,
         adv_secret = adv, registration_id = r AND 0x7fffffff\<rparr>)"

end
