(* ===== verification/Message_Envelope.thy ===== *)
theory Message_Envelope
  imports Device_Address Device_Keys
begin

text \<open>
  Encrypted messages against the stored sessions (\<open>src/src/session.rs\<close>): padding, the per-device
  encryption of an outgoing message (\<open>encrypt_per_device\<close>), the decryption of an incoming pairwise
  envelope (\<open>decrypt_signal_envelope\<close>) and of a group stanza (\<open>decrypt_group_message\<close>). Logging is
  left out; the server's reply to the prekey request, the generated key pairs and the decoder of
  the application message are arguments.
\<close>

section \<open>Padding\<close>

definition pad_message :: "u8 \<Rightarrow> bytes \<Rightarrow> bytes" where
  "pad_message r plaintext =
    (let pad = r AND 0x0f; pad = (if pad = 0 then 0x0f else pad)
     in plaintext @ replicate (unat pad) pad)"

definition unpad_message :: "bytes \<Rightarrow> (string, bytes) outcome" where
  "unpad_message padded =
    obind (guard_err (padded = []) ''empty plaintext'') (\<lambda>_.
    let pad = unat (last padded)
    in if pad = 0 \<or> pad > length padded then Err ''invalid pad byte''
       else Ok (take (length padded - pad) padded))"

definition unpad_message_v :: "bytes \<Rightarrow> nat \<Rightarrow> (string, bytes) outcome" where
  "unpad_message_v padded enc_version = (if enc_version \<ge> 3 then Ok padded else unpad_message padded)"

section \<open>Prekey bundles\<close>

record device_prekey_bundle =
  bundle_jid :: string
  bundle_device_id :: u32
  bundle_registration_id :: u32
  bundle_identity_pub :: bytes
  bundle_signed_pre_key_id :: u32
  bundle_signed_pre_key_pub :: bytes
  bundle_signed_pre_key_sig :: bytes
  bundle_one_time_pre_key_id :: "u32 option"
  bundle_one_time_pre_key_pub :: "bytes option"

section \<open>Sending\<close>

record encrypted_recipient =
  er_jid :: string
  er_ciphertext :: bytes
  er_message_type :: message_type

text \<open>The type attribute of the \<open>enc\<close> node built for a recipient.\<close>

definition enc_type_of :: "message_type \<Rightarrow> string" where
  "enc_type_of t = (case t of PreKey \<Rightarrow> ''pkmsg'' | Whisper \<Rightarrow> ''msg'')"

datatype send_error = PrekeyFetch | NoCurrentState | EncryptFailed signal_error | NoDevices

definition alice_of :: "device_keys \<Rightarrow> key_pair \<times> key_pair \<Rightarrow> device_prekey_bundle \<Rightarrow> alice_parameters" where
  "alice_of keys gen bundle =
    \<lparr>a_identity_priv = kp_private (identity_key keys), a_identity_pub = kp_public (identity_key keys),
     a_base_priv = kp_private (fst gen), a_base_pub = kp_public (fst gen),
     a_ratchet_priv = kp_private (snd gen), a_ratchet_pub = kp_public (snd gen),
     a_remote_identity_pub = bundle_identity_pub bundle,
     a_remote_signed_prekey_pub = bundle_signed_pre_key_pub bundle,
     a_remote_one_time_prekey_pub = bundle_one_time_pre_key_pub bundle\<rparr>"

text \<open>A session for a device whose keys were fetched. (A bad signature on the signed prekey is only
  logged.)\<close>

definition bootstrap_record :: "signal_crypto \<Rightarrow> device_keys \<Rightarrow> key_pair \<times> key_pair \<Rightarrow> device_prekey_bundle \<Rightarrow> session_record" where
  "bootstrap_record c keys gen bundle =
    new_record\<lparr>current := Some ((initiate_alice c (alice_of keys gen bundle))
      \<lparr>local_registration_id := registration_id keys, remote_registration_id := bundle_registration_id bundle,
       pending_pre_key_of := Some
         \<lparr>pending_pre_key_id = bundle_one_time_pre_key_id bundle,
          pending_signed_pre_key_id = bundle_signed_pre_key_id bundle,
          pending_base_key_pub = kp_public (fst gen)\<rparr>\<rparr>)\<rparr>"

primrec resolve_targets :: "string list \<Rightarrow> whisper_store \<Rightarrow> (string \<times> string) list \<times> whisper_store" where
  "resolve_targets [] st = ([], st)"
| "resolve_targets (d # ds) st =
    (case encryption_address st d of (enc, st) \<Rightarrow>
      (case resolve_targets ds st of (ts, st) \<Rightarrow> ((d, enc) # ts, st)))"

text \<open>The sessions at hand by address, and the addresses without one.\<close>

definition partition_targets ::
  "whisper_store \<Rightarrow> (string \<times> string) list \<Rightarrow> (string, session_record) rows \<times> string list" where
  "partition_targets st ts =
    foldl (\<lambda>(existing, needs) (d, enc).
      case store_load_record st enc of
        Some r \<Rightarrow> if current r \<noteq> None then (row_save existing enc r, needs) else (existing, needs @ [enc])
      | None \<Rightarrow> (existing, needs @ [enc])) ([], []) ts"

definition bootstrap_all ::
  "signal_crypto \<Rightarrow> device_keys \<Rightarrow> (nat \<Rightarrow> key_pair \<times> key_pair) \<Rightarrow> device_prekey_bundle list \<Rightarrow>
    (string, session_record) rows" where
  "bootstrap_all c keys gen bundles =
    foldl (\<lambda>t (i, b). row_save t (bundle_jid b) (bootstrap_record c keys (gen i) b)) []
      (List.enumerate 0 bundles)"

text \<open>\<open>encrypt_pre_key\<close> for a first message, which clears the pending key, \<open>encrypt\<close> afterwards.\<close>

definition encrypt_state ::
  "signal_crypto \<Rightarrow> signal_codec \<Rightarrow> device_keys \<Rightarrow> bytes \<times> bytes \<Rightarrow> bytes \<Rightarrow> session_state \<Rightarrow>
    (signal_error, ciphertext_message) outcome \<times> session_state" where
  "encrypt_state c pb keys fresh pt state =
    (case pending_pre_key_of state of
       Some pp \<Rightarrow>
         sbind (encrypt_pre_key c pb fresh pt (registration_id keys) (pending_base_key_pub pp)
           (kp_public (identity_key keys)) (pending_signed_pre_key_id pp) (pending_pre_key_id pp))
           (\<lambda>m s. (Ok m, s\<lparr>pending_pre_key_of := None\<rparr>)) state
     | None \<Rightarrow> session_encrypt c pb fresh pt state)"

text \<open>The loop over the targets; a record is taken by the first that has its address.\<close>

fun encrypt_targets ::
  "signal_crypto \<Rightarrow> signal_codec \<Rightarrow> device_keys \<Rightarrow> (nat \<Rightarrow> bytes \<times> bytes) \<Rightarrow> (string \<Rightarrow> bytes) \<Rightarrow>
    (string \<times> string) list \<Rightarrow> (string, session_record) rows \<Rightarrow> (string, session_record) rows \<Rightarrow>
    whisper_store \<Rightarrow> (send_error, encrypted_recipient list) outcome \<times> whisper_store" where
  "encrypt_targets c pb keys fresh pt [] existing boot st = (Ok [], st)"
| "encrypt_targets c pb keys fresh pt ((d, enc) # ts) existing boot st =
    (let (rec, existing, boot) =
       (case row_load existing enc of
          Some r \<Rightarrow> (Some r, row_delete existing enc, boot)
        | None \<Rightarrow> (row_load boot enc, existing, row_delete boot enc))
     in case rec of
          None \<Rightarrow> encrypt_targets c pb keys fresh pt ts existing boot st
        | Some r \<Rightarrow>
          (case current r of
             None \<Rightarrow> (Err NoCurrentState, st)
           | Some state \<Rightarrow>
             (case encrypt_state c pb keys (fresh (length ts)) (pt d) state of
                (Ok cipher, state) \<Rightarrow>
                  (case encrypt_targets c pb keys fresh pt ts existing boot
                      (store_save_record enc (r\<lparr>current := Some state\<rparr>) st) of
                     (Ok out, st) \<Rightarrow>
                       (Ok (\<lparr>er_jid = d, er_ciphertext = serialized cipher,
                          er_message_type = message_type_of cipher\<rparr> # out), st)
                   | (e, st) \<Rightarrow> (e, st))
              | (Err e, _) \<Rightarrow> (Err (EncryptFailed e), st)
              | (Panic, _) \<Rightarrow> (Panic, st))))"

definition encrypt_per_device ::
  "signal_crypto \<Rightarrow> signal_codec \<Rightarrow> device_keys \<Rightarrow> (string list \<Rightarrow> device_prekey_bundle list option) \<Rightarrow>
    (nat \<Rightarrow> key_pair \<times> key_pair) \<Rightarrow> (nat \<Rightarrow> bytes \<times> bytes) \<Rightarrow>
    string list \<Rightarrow> bytes \<Rightarrow> bytes \<Rightarrow> string option \<Rightarrow> whisper_store \<Rightarrow>
    (send_error, encrypted_recipient list) outcome \<times> whisper_store" where
  "encrypt_per_device c pb keys fetch gen fresh device_jids padded padded_own own_user st =
    (let (targets, st) = resolve_targets device_jids st;
         (existing, needs) = partition_targets st targets
     in case (if needs = [] then Some [] else fetch needs) of
          None \<Rightarrow> (Err PrekeyFetch, st)
        | Some bundles \<Rightarrow>
          (let pt = (\<lambda>d. if own_user = Some (lid_user_part d) then padded_own else padded)
           in case encrypt_targets c pb keys fresh pt targets existing (bootstrap_all c keys gen bundles) st of
                (Ok out, st) \<Rightarrow> if out = [] \<and> targets \<noteq> [] then (Err NoDevices, st) else (Ok out, st)
              | (e, st) \<Rightarrow> (e, st)))"

section \<open>Receiving a pairwise envelope\<close>

text \<open>Decryption under a stored session, which is saved only when the message proves good.\<close>

definition decrypt_with_record ::
  "signal_crypto \<Rightarrow> signal_codec \<Rightarrow> bytes \<times> bytes \<Rightarrow> string \<Rightarrow> nat \<Rightarrow> bytes \<Rightarrow> session_record \<Rightarrow>
    whisper_store \<Rightarrow> bytes option \<times> whisper_store" where
  "decrypt_with_record c pb fresh addr v wire r st =
    (case current r of
       None \<Rightarrow> (None, st)
     | Some state \<Rightarrow>
       (case session_decrypt c pb fresh wire state of
          (Ok padded, state') \<Rightarrow>
            (case unpad_message_v padded v of
               Ok p \<Rightarrow> (Some p, store_save_record addr (r\<lparr>current := Some state'\<rparr>) st)
             | _ \<Rightarrow> (None, st))
        | _ \<Rightarrow> (None, st)))"

definition bob_of :: "device_keys \<Rightarrow> bytes option \<Rightarrow> pre_key_message_info \<Rightarrow> bob_parameters" where
  "bob_of keys opk info =
    \<lparr>b_identity_priv = kp_private (identity_key keys), b_identity_pub = kp_public (identity_key keys),
     b_signed_prekey_priv = kp_private (spk_keypair (signed_prekey keys)), b_one_time_prekey_priv = opk,
     b_remote_identity_pub = i_identity_key_pub info, b_remote_base_pub = i_base_key_pub info,
     b_remote_ratchet_pub = inner_ratchet_pub info\<rparr>"

definition decrypt_pre_key_envelope ::
  "signal_crypto \<Rightarrow> signal_codec \<Rightarrow> bytes \<times> bytes \<Rightarrow> device_keys \<Rightarrow> string \<Rightarrow> nat \<Rightarrow> pre_key_message_info \<Rightarrow>
    whisper_store \<Rightarrow> bytes option \<times> whisper_store" where
  "decrypt_pre_key_envelope c pb fresh keys addr v info st =
    (case (case store_load_record st addr of
             Some r \<Rightarrow>
               if map_option remote_identity_pub (current r) = Some (i_identity_key_pub info)
               then decrypt_with_record c pb fresh addr v (inner_whisper_wire info) r st
               else (None, st)
           | None \<Rightarrow> (None, st)) of
       (Some p, st) \<Rightarrow> (Some p, st)
     | (None, _) \<Rightarrow>
       (let opk = (case i_pre_key_id info of Some i \<Rightarrow> load_prekey_priv st i | None \<Rightarrow> None)
        in case session_decrypt c pb fresh (inner_whisper_wire info) (process_bob c (bob_of keys opk info)) of
             (Ok padded, state) \<Rightarrow>
               (case unpad_message_v padded v of
                  Ok p \<Rightarrow>
                    (let st = store_save_record addr (new_record\<lparr>current := Some state\<rparr>) st;
                         st = (case i_pre_key_id info of
                             Some i \<Rightarrow> if opk \<noteq> None then consume_prekey i st else st
                           | None \<Rightarrow> st)
                     in (Some p, st))
                | _ \<Rightarrow> (None, st))
           | _ \<Rightarrow> (None, st)))"

definition decrypt_signal_envelope ::
  "signal_crypto \<Rightarrow> signal_codec \<Rightarrow> bytes \<times> bytes \<Rightarrow> device_keys \<Rightarrow> string \<Rightarrow> string \<Rightarrow> nat \<Rightarrow> bytes \<Rightarrow>
    whisper_store \<Rightarrow> bytes option \<times> whisper_store" where
  "decrypt_signal_envelope c pb fresh keys addr enc_type v ciphertext st =
    (if enc_type = ''msg'' then
       (case store_load_record st addr of
          Some r \<Rightarrow> decrypt_with_record c pb fresh addr v ciphertext r st
        | None \<Rightarrow> (None, st))
     else if enc_type = ''pkmsg'' then
       (case parse_pre_key_message pb ciphertext of
          Ok info \<Rightarrow> decrypt_pre_key_envelope c pb fresh keys addr v info st
        | _ \<Rightarrow> (None, st))
     else (None, st))"

section \<open>Group messages\<close>

text \<open>What is read of a decoded application message: its sender-key distribution part, if any, and
  the distribution bytes in it, if any.\<close>

record e2e_message =
  skdm_part :: "bytes option option"

record enc_node =
  en_type :: string
  en_version :: nat
  en_ciphertext :: bytes

definition enc_attrs :: "node \<Rightarrow> enc_node" where
  "enc_attrs n =
    \<lparr>en_type = or_default [] (map_of (node_attrs n) ''type''),
     en_version = (case map_of (node_attrs n) ''v'' of
         Some s \<Rightarrow> or_default 2 (parse_uint 4294967295 s) | None \<Rightarrow> 2),
     en_ciphertext = (case node_content n of CBytes b \<Rightarrow> b | _ \<Rightarrow> [])\<rparr>"

text \<open>\<open>dm\<close> is the latest pairwise plaintext that decodes.\<close>

definition install_step ::
  "signal_crypto \<Rightarrow> signal_codec \<Rightarrow> sender_key_codec \<Rightarrow> (bytes \<Rightarrow> e2e_message option) \<Rightarrow> bytes \<times> bytes \<Rightarrow>
    device_keys \<Rightarrow> string \<Rightarrow> string \<Rightarrow> string \<Rightarrow> enc_node \<Rightarrow> bytes option \<times> whisper_store \<Rightarrow> bytes option \<times> whisper_store" where
  "install_step c pb spb dec_e2e fresh keys gid sender sender_addr e acc =
    (case acc of (dm, st) \<Rightarrow>
      if en_type e \<noteq> ''pkmsg'' \<and> en_type e \<noteq> ''msg'' then (dm, st)
      else
        (case decrypt_signal_envelope c pb fresh keys sender_addr (en_type e) (en_version e) (en_ciphertext e) st of
           (None, st) \<Rightarrow> (dm, st)
         | (Some plain, st) \<Rightarrow>
           (case dec_e2e plain of
              None \<Rightarrow> (dm, st)
            | Some m \<Rightarrow>
              (case skdm_part m of
                 Some (Some axolotl) \<Rightarrow>
                   (case parse_distribution_wire spb axolotl of
                      Ok dist \<Rightarrow> (Some plain, sender_key_save gid sender (MemberKey (install_distribution dist)) st)
                    | _ \<Rightarrow> (Some plain, st))
               | _ \<Rightarrow> (Some plain, st)))))"

definition decrypt_skmsg ::
  "signal_crypto \<Rightarrow> sender_key_codec \<Rightarrow> string \<Rightarrow> string \<Rightarrow> enc_node \<Rightarrow> whisper_store \<Rightarrow> bytes option \<times> whisper_store" where
  "decrypt_skmsg c spb gid sender e st =
    (case sender_key_load st gid sender of
       Some (MemberKey recv) \<Rightarrow>
         (case decrypt_sender_key_message c spb (en_ciphertext e) recv of
            (Ok padded, recv) \<Rightarrow>
              (ok_value (unpad_message_v padded (en_version e)), sender_key_save gid sender (MemberKey recv) st)
          | _ \<Rightarrow> (None, st))
     | _ \<Rightarrow> (None, st))"

text \<open>The first \<open>skmsg\<close> decides; without one the pairwise plaintext is the message.\<close>

definition decrypt_group_message ::
  "signal_crypto \<Rightarrow> signal_codec \<Rightarrow> sender_key_codec \<Rightarrow> (bytes \<Rightarrow> e2e_message option) \<Rightarrow> (nat \<Rightarrow> bytes \<times> bytes) \<Rightarrow>
    device_keys \<Rightarrow> string \<Rightarrow> string \<Rightarrow> string \<Rightarrow> node \<Rightarrow> whisper_store \<Rightarrow> bytes option \<times> whisper_store" where
  "decrypt_group_message c pb spb dec_e2e fresh keys gid sender sender_addr msg st =
    (case node_content msg of
       CNodes ns \<Rightarrow>
         (let encs = map enc_attrs (filter (\<lambda>n. tag n = ''enc'') ns);
              (dm, st) = fold (\<lambda>(i, e). install_step c pb spb dec_e2e (fresh i) keys gid sender sender_addr e)
                (List.enumerate 0 encs) (None, st)
          in case find (\<lambda>e. en_type e = ''skmsg'') encs of
               Some e \<Rightarrow> decrypt_skmsg c spb gid sender e st
             | None \<Rightarrow> (dm, st))
     | _ \<Rightarrow> (None, st))"

text \<open>The sender's part of \<open>send_group_message\<close>: its own row (a row that is not a sending state is
  replaced), the distribution message from the current position, then the encryption.\<close>

definition SK_OWNER :: string where "SK_OWNER = ''__self__''"

definition group_encrypt ::
  "signal_crypto \<Rightarrow> sender_key_codec \<Rightarrow> sender_key_state \<Rightarrow> string \<Rightarrow> bytes \<Rightarrow> whisper_store \<Rightarrow>
    (skmsg_error, bytes \<times> bytes) outcome \<times> whisper_store" where
  "group_encrypt c spb generated gid padded st =
    (let state = (case sender_key_load st gid SK_OWNER of Some (OwnKey s) \<Rightarrow> s | _ \<Rightarrow> generated);
         skdm_wire = serialize_distribution_wire spb (distribution state)
     in case encrypt_sender_key_message c spb padded state of
          (Ok wire, state) \<Rightarrow> (Ok (skdm_wire, wire), sender_key_save gid SK_OWNER (OwnKey state) st)
        | (Err e, _) \<Rightarrow> (Err e, st)
        | (Panic, _) \<Rightarrow> (Panic, st))"

section \<open>Padding, a failed envelope, an unknown type\<close>

lemma pad_byte: "let p = (if r AND 0x0f = 0 then 0x0f else r AND 0x0f) in 0 < unat (p :: u8) \<and> unat p \<le> 15"
proof -
  have "r AND 0x0f \<le> 0x0f" by (rule word_and_le1)
  then have "unat (r AND 0x0f) \<le> 15" by (simp add: word_le_nat_alt)
  then show ?thesis by (auto simp: Let_def word_gt_0_no unat_gt_0)
qed

lemma unpad_pad: "unpad_message (pad_message r m) = Ok m"
  using pad_byte [of r]
  by (auto simp: unpad_message_def pad_message_def Let_def guard_err_def last_append)

lemma decrypt_with_record_None:
  "decrypt_with_record c pb fresh addr v wire r st = (None, st') \<Longrightarrow> st' = st"
  by (auto simp: decrypt_with_record_def split: option.splits prod.splits outcome.splits)

text \<open>Padding is undone: whatever random byte chose the padding, one to fifteen bytes are
  added and stripped again; from version three on there is none.\<close>

theorem unpad_pad_roundtrip:
  "unpad_message_v (pad_message r m) v = Ok (if v \<ge> 3 then pad_message r m else m) \<and>
    length m < length (pad_message r m) \<and> length (pad_message r m) \<le> length m + 15"
  using unpad_pad [of r m] pad_byte [of r] by (auto simp: unpad_message_v_def pad_message_def Let_def)

text \<open>An envelope that does not decrypt leaves the store as it was, whatever the failure: the
  session is written back, and the one-time prekey used up, only with the plaintext.\<close>

theorem envelope_failure_keeps_store:
  assumes "decrypt_signal_envelope c pb fresh keys addr ty v ct st = (None, st')"
  shows "st' = st"
proof -
  have "decrypt_pre_key_envelope c pb fresh keys addr v info st = (None, st') \<Longrightarrow> st' = st" for info
    by (auto simp: decrypt_pre_key_envelope_def Let_def split: option.splits prod.splits outcome.splits if_splits)
  with assms show ?thesis
    by (auto simp: decrypt_signal_envelope_def decrypt_with_record_None split: option.splits outcome.splits if_splits)
qed

theorem envelope_failure_keeps_store_witness:
  "\<forall>keys. decrypt_signal_envelope toy_signal toy_codec_signal ([], []) keys ''55'' ''msg'' 2 [1] (toy_store []) = (None, toy_store [])"
proof
  fix keys
  obtain st' where "decrypt_signal_envelope toy_signal toy_codec_signal ([], []) keys ''55'' ''msg'' 2 [1] (toy_store []) = (None, st')"
    by (simp add: decrypt_signal_envelope_def store_load_record_def row_load_def toy_store_def)
  with envelope_failure_keeps_store [OF this] show "decrypt_signal_envelope toy_signal toy_codec_signal ([], []) keys ''55'' ''msg'' 2 [1] (toy_store []) = (None, toy_store [])" by simp
qed

section \<open>What the store may grow to\<close>

definition bounded_store :: "whisper_store \<Rightarrow> bool" where
  "bounded_store st \<longleftrightarrow>
    (\<forall>a r s. store_load_record st a = Some r \<and> current r = Some s \<longrightarrow> bounded_session s) \<and>
    (\<forall>g u k. sender_key_load st g u = Some (MemberKey k) \<longrightarrow> length (skipped k) \<le> MAX_SKIPPED_SENDER_KEYS)"

lemma sender_key_load_save [simp]:
  "sender_key_load (sender_key_save g u k st) g' u' = (if (g', u') = (g, u) then Some k else sender_key_load st g' u')"
  by (simp add: sender_key_load_def sender_key_save_def rows.load_save)

lemma store_fields [simp]:
  "sender_key_load (store_save_record a r st) = sender_key_load st"
  "sender_key_load (consume_prekey i st) = sender_key_load st"
  "store_load_record (sender_key_save g u k st) = store_load_record st"
  "store_load_record (consume_prekey i st) = store_load_record st"
  by (simp_all add: fun_eq_iff sender_key_load_def sender_key_save_def consume_prekey_def store_load_record_def)

lemma bounded_save: "bounded_store st \<Longrightarrow> bounded_session s \<Longrightarrow> bounded_store (store_save_record a (r\<lparr>current := Some s\<rparr>) st)"
  by (auto simp: bounded_store_def)

lemma bounded_consume: "bounded_store st \<Longrightarrow> bounded_store (consume_prekey i st)"
  by (simp add: bounded_store_def)

lemma bounded_member_save:
  "bounded_store st \<Longrightarrow> length (skipped k) \<le> MAX_SKIPPED_SENDER_KEYS \<Longrightarrow> bounded_store (sender_key_save g u (MemberKey k) st)"
  by (auto simp: bounded_store_def)

lemma bounded_process_bob: "bounded_session (process_bob c b)"
  by (simp add: bounded_session_def process_bob_def Let_def split_beta MAX_RECEIVER_CHAINS_def)

lemma bounded_decryptD:
  "bounded_session s \<Longrightarrow> session_decrypt c pb fresh wire s = (x, s') \<Longrightarrow> bounded_session s'"
  by (rule keepsD [OF bounded_decrypt])

lemma bounded_with_record:
  assumes "bounded_store st" "\<And>s. current r = Some s \<Longrightarrow> bounded_session s"
    and "decrypt_with_record c pb fresh addr v wire r st = (p, st')"
  shows "bounded_store st'"
  using assms
  by (auto simp: decrypt_with_record_def split: option.splits prod.splits outcome.splits
      intro!: bounded_save intro: bounded_decryptD)

lemma bounded_envelope: "keeps bounded_store (decrypt_signal_envelope c pb fresh keys addr ty v ct)"
proof -
  have rec: "bounded_store st'"
    if "bounded_store st" "store_load_record st addr = Some r" "decrypt_with_record c pb fresh addr v wire r st = (p, st')"
    for wire r p st st'
    using bounded_with_record [OF that(1) _ that(3)] that(1,2) by (auto simp: bounded_store_def)
  have pre: "bounded_store st'"
    if "bounded_store st" "decrypt_pre_key_envelope c pb fresh keys addr v info st = (p, st')" for info p st st'
  proof (cases p)
    case None
    with that show ?thesis
      by (auto simp: decrypt_pre_key_envelope_def Let_def split: option.splits prod.splits outcome.splits if_splits)
  next
    case (Some x)
    from that Some show ?thesis
      by (auto simp: decrypt_pre_key_envelope_def Let_def dest: rec
          intro!: bounded_save bounded_consume intro: bounded_decryptD bounded_process_bob split: option.splits prod.splits outcome.splits if_splits)
  qed
  show ?thesis
    by (rule keepsI)
       (auto simp: decrypt_signal_envelope_def dest: rec pre split: option.splits outcome.splits if_splits)
qed

lemma skipped_after_decrypt:
  assumes "length (skipped st) \<le> MAX_SKIPPED_SENDER_KEYS" "decrypt_sender_key_message c spb wire st = (Ok m, st')"
  shows "length (skipped st') \<le> MAX_SKIPPED_SENDER_KEYS"
  using assms
  by (auto simp: decrypt_sender_key_message_def Let_def remove_at_def
      split: outcome.splits prod.splits option.splits if_splits)

lemma bounded_group: "keeps bounded_store (decrypt_group_message c pb spb dec_e2e fresh keys gid sender addr msg)"
proof (rule keepsI)
  fix st p st'
  assume st: "bounded_store st" "decrypt_group_message c pb spb dec_e2e fresh keys gid sender addr msg st = (p, st')"
  let ?step = "\<lambda>(i, e). install_step c pb spb dec_e2e (fresh i) keys gid sender addr e"
  have step: "bounded_store (snd (install_step c pb spb dec_e2e f keys gid sender addr e acc))"
    if "bounded_store (snd acc)" for f e acc
  proof -
    obtain dm st where acc: "acc = (dm, st)" by fastforce
    obtain q st1 where d: "decrypt_signal_envelope c pb f keys addr (en_type e) (en_version e) (en_ciphertext e) st = (q, st1)"
      by fastforce
    have "bounded_store st1" by (rule keepsD [OF bounded_envelope _ d]) (use that acc in simp)
    then show ?thesis
      using that
      by (simp add: install_step_def acc d install_distribution_def bounded_member_save
          split: option.splits outcome.splits)
  qed
  have fold: "bounded_store (snd (fold ?step es acc))" if "bounded_store (snd acc)" for es acc
    using that by (induction es arbitrary: acc) (auto simp: step split: prod.splits)
  have skmsg: "bounded_store (snd (decrypt_skmsg c spb gid sender e st))" if "bounded_store st" for e st
    using that
    by (auto simp: decrypt_skmsg_def bounded_store_def dest: skipped_after_decrypt [rotated]
        split: option.splits sender_key_row.splits prod.splits outcome.splits)
  show "bounded_store st'"
    using st fold [of "(None, st)"] skmsg
    by (auto simp: decrypt_group_message_def Let_def split: content.splits option.splits prod.splits)
      (metis snd_conv)+
qed

lemma bounded_encrypt: "keeps bounded_session (session_encrypt c pb fresh pt)"
proof -
  have seal: "keeps bounded_session (\<lambda>st. (Ok (m st), st\<lparr>sender_chain := ch\<rparr>))"
    for m :: "session_state \<Rightarrow> ciphertext_message" and ch
    by (simp add: keeps_def bounded_session_def)
  have "keeps bounded_session (\<lambda>st. if sender_chain st = None then bob_first_send_step c fresh st else (Ok (), st))"
    by (auto simp: keeps_def bob_first_send_step_def bounded_session_def Let_def split: list.splits prod.splits if_splits)
  then show ?thesis
    unfolding session_encrypt_def Let_def
    by (intro keeps_sbind)
       (assumption, rule keeps_state, rule keeps_sbind, rule keeps_slift, rule keeps_state, rule keeps_sbind,
        rule keeps_slift, rule seal)
qed

lemma bounded_encrypt_state: "keeps bounded_session (encrypt_state c pb keys fresh pt)"
proof -
  have pre: "keeps bounded_session (encrypt_pre_key c pb fresh pt r bk ik spk opk)" for r bk ik spk opk
    unfolding encrypt_pre_key_def by (intro keeps_sbind keeps_slift bounded_encrypt)
  have "keeps bounded_session (sbind (encrypt_pre_key c pb fresh pt r bk ik spk opk)
      (\<lambda>m s. (Ok m, s\<lparr>pending_pre_key_of := None\<rparr>)))" for r bk ik spk opk
    by (rule keeps_sbind [OF pre]) (simp add: keeps_def bounded_session_def)
  then have "keeps bounded_session (case pp of
      Some pp \<Rightarrow> sbind (encrypt_pre_key c pb fresh pt (registration_id keys) (pending_base_key_pub pp)
        (kp_public (identity_key keys)) (pending_signed_pre_key_id pp) (pending_pre_key_id pp))
        (\<lambda>m s. (Ok m, s\<lparr>pending_pre_key_of := None\<rparr>))
    | None \<Rightarrow> session_encrypt c pb fresh pt)" for pp
    using bounded_encrypt by (simp split: option.split)
  then have "keeps bounded_session (\<lambda>s. (case pending_pre_key_of s of
      Some pp \<Rightarrow> sbind (encrypt_pre_key c pb fresh pt (registration_id keys) (pending_base_key_pub pp)
        (kp_public (identity_key keys)) (pending_signed_pre_key_id pp) (pending_pre_key_id pp))
        (\<lambda>m s. (Ok m, s\<lparr>pending_pre_key_of := None\<rparr>))
    | None \<Rightarrow> session_encrypt c pb fresh pt) s)"
    by (rule keeps_state)
  then show ?thesis
    by (rule back_subst [of "keeps bounded_session"])
       (simp add: fun_eq_iff encrypt_state_def split: option.split)
qed

lemma bounded_bootstrap: "current (bootstrap_record c keys gen b) = Some s \<Longrightarrow> bounded_session s"
  by (auto simp: bootstrap_record_def initiate_alice_def bounded_session_def Let_def split: prod.splits)

definition bounded_rows :: "(string, session_record) rows \<Rightarrow> bool" where
  "bounded_rows t \<longleftrightarrow> (\<forall>a r s. row_load t a = Some r \<and> current r = Some s \<longrightarrow> bounded_session s)"

lemma bounded_rows_simps:
  "bounded_rows []" "bounded_rows t \<Longrightarrow> bounded_rows (row_delete t a)"
  "bounded_rows t \<Longrightarrow> (\<And>s. current r = Some s \<Longrightarrow> bounded_session s) \<Longrightarrow> bounded_rows (row_save t a r)"
  by (auto simp: bounded_rows_def rows.load_save rows.load_delete) (simp add: row_load_def)

lemma bounded_bootstrap_all: "bounded_rows (bootstrap_all c keys gen bundles)"
proof -
  have "bounded_rows (foldl (\<lambda>t (i, b). row_save t (bundle_jid b) (bootstrap_record c keys (gen i) b)) t es)"
    if "bounded_rows t" for t es
    using that by (induction es arbitrary: t) (auto simp: bounded_rows_simps bounded_bootstrap)
  then show ?thesis by (simp add: bootstrap_all_def bounded_rows_simps)
qed

lemma bounded_partition:
  assumes "bounded_store st"
  shows "bounded_rows (fst (partition_targets st ts))"
proof -
  let ?step = "\<lambda>(existing, needs) (d, enc).
      case store_load_record st enc of
        Some r \<Rightarrow> if current r \<noteq> None then (row_save existing enc r, needs) else (existing, needs @ [enc])
      | None \<Rightarrow> (existing, needs @ [enc])"
  have step: "bounded_rows (fst (?step acc t))" if "bounded_rows (fst acc)" for acc t
    using that assms
    by (auto simp: bounded_store_def intro!: bounded_rows_simps(3) split: prod.splits option.splits)
  have "bounded_rows (fst (foldl ?step acc ts))" if "bounded_rows (fst acc)" for acc
    using that by (induction ts arbitrary: acc) (simp_all add: step)
  then show ?thesis by (simp add: partition_targets_def bounded_rows_simps)
qed

lemma bounded_encrypt_targets:
  "bounded_store st \<Longrightarrow> bounded_rows ex \<Longrightarrow> bounded_rows boot \<Longrightarrow>
    bounded_store (snd (encrypt_targets c pb keys fresh pt ts ex boot st))"
proof (induction ts arbitrary: ex boot st)
  case (Cons t ts)
  obtain d enc where t: "t = (d, enc)" by fastforce
  obtain rec ex' boot' where taken: "(case row_load ex enc of Some r \<Rightarrow> (Some r, row_delete ex enc, boot)
      | None \<Rightarrow> (row_load boot enc, ex, row_delete boot enc)) = (rec, ex', boot')" by (metis prod_cases3)
  with Cons.prems have rows: "bounded_rows ex'" "bounded_rows boot'" "rec = Some r \<Longrightarrow> current r = Some s \<Longrightarrow> bounded_session s" for r s
    by (auto simp: bounded_rows_def rows.load_delete split: option.splits if_splits)
  note IH = Cons.IH [OF _ rows(1,2)]
  show ?case
  proof (cases rec)
    case None
    with IH [OF Cons.prems(1)] show ?thesis by (simp add: t taken)
  next
    case (Some r)
    show ?thesis
    proof (cases "current r")
      case None
      with Some Cons.prems(1) show ?thesis by (simp add: t taken)
    next
      case cur: (Some state)
      obtain x s' where enc: "encrypt_state c pb keys (fresh (length ts)) (pt d) state = (x, s')" by fastforce
      have "bounded_session s'" by (rule keepsD [OF bounded_encrypt_state rows(3) [OF Some cur] enc])
      then have "bounded_store (store_save_record enc (r\<lparr>current := Some s'\<rparr>) st)"
        using Cons.prems(1) by (intro bounded_save)
      from IH [OF this] Some cur enc Cons.prems(1) show ?thesis
        by (cases x) (auto simp: t taken split: prod.splits outcome.splits)
    qed
  qed
qed simp

lemma bounded_same_sessions:
  "bounded_store st \<Longrightarrow> (\<And>b. store_load_record st' b = None \<or> (\<exists>b'. store_load_record st' b = store_load_record st b')) \<Longrightarrow>
    sender_keys st' = sender_keys st \<Longrightarrow> bounded_store st'"
  unfolding bounded_store_def sender_key_load_def by (metis option.distinct(1))

lemma drop_others_sender_keys:
  "sender_keys (fold (\<lambda>a s. if a \<noteq> c \<and> has_record s a then store_delete_record a s else s) as st) = sender_keys st"
  "sender_keys (fold store_delete_record as st) = sender_keys st"
  by (induction as arbitrary: st) auto

lemma resolve_sender_keys: "sender_keys (snd (resolve_session_address st a)) = sender_keys st"
  by (simp add: resolve_session_address_def Let_def drop_others_sender_keys split: option.split)

lemma encryption_sender_keys: "sender_keys (snd (encryption_address st a)) = sender_keys st"
  by (simp add: encryption_address_def Let_def drop_others_sender_keys split: list.split)

lemma bounded_resolve:
  assumes "bounded_store st" "resolve_session_address st addr = (a, st')"
  shows "bounded_store st'"
proof (rule bounded_same_sessions [OF assms(1)])
  show "sender_keys st' = sender_keys st" using resolve_sender_keys [of st addr] assms(2) by simp
  show "store_load_record st' b = None \<or> (\<exists>b'. store_load_record st' b = store_load_record st b')" for b
  proof (cases "has_record st (canonical_session_address st addr)")
    case True
    from resolve_present(1) [OF this assms(2), of b] show ?thesis by metis
  next
    case False
    from resolve_absent [OF False assms(2)] show ?thesis by metis
  qed
qed

lemma bounded_encryption_address:
  assumes "bounded_store st" "encryption_address st d = (a, st')"
  shows "bounded_store st'"
proof (rule bounded_same_sessions [OF assms(1)])
  show "sender_keys st' = sender_keys st" using encryption_sender_keys [of st d] assms(2) by simp
  show "store_load_record st' b = None \<or> (\<exists>b'. store_load_record st' b = store_load_record st b')" for b
    using assms(2) by (cases rule: encryption_cases) metis+
qed

lemma bounded_targets: "bounded_store st \<Longrightarrow> resolve_targets ds st = (ts, st') \<Longrightarrow> bounded_store st'"
  by (induction ds arbitrary: st ts) (auto split: prod.splits dest: bounded_encryption_address)

lemma bounded_send:
  assumes "bounded_store st"
    "encrypt_per_device c pb keys fetch gen fresh ds padded padded_own own_user st = (x, st')"
  shows "bounded_store st'"
proof -
  obtain targets st1 where t: "resolve_targets ds st = (targets, st1)" by fastforce
  with assms(1) have st1: "bounded_store st1" by (rule bounded_targets)
  obtain existing needs where p: "partition_targets st1 targets = (existing, needs)" by fastforce
  with bounded_partition [OF st1, of targets] have ex: "bounded_rows existing" by simp
  have "bounded_store (snd (encrypt_targets c pb keys fresh pt targets existing (bootstrap_all c keys gen bs) st1))" for pt bs
    by (rule bounded_encrypt_targets [OF st1 ex bounded_bootstrap_all])
  with assms(2) t p st1 show ?thesis
    by (auto simp: encrypt_per_device_def Let_def split: option.splits prod.splits outcome.splits if_splits) (metis snd_conv)+
qed

text \<open>What can happen to the store, one message at a time.\<close>

inductive store_step :: "signal_crypto \<Rightarrow> signal_codec \<Rightarrow> sender_key_codec \<Rightarrow> whisper_store \<Rightarrow> whisper_store \<Rightarrow> bool"
  for c pb spb where
  receive: "decrypt_signal_envelope c pb fresh keys addr ty v ct st = (p, st') \<Longrightarrow> store_step c pb spb st st'"
| receive_group: "decrypt_group_message c pb spb dec_e2e fr keys gid sender addr msg st = (p, st') \<Longrightarrow>
    store_step c pb spb st st'"
| resolve: "resolve_session_address st addr = (a, st') \<Longrightarrow> store_step c pb spb st st'"
| send: "encrypt_per_device c pb keys fetch gen fr ds padded own_copy own_user st = (x, st') \<Longrightarrow>
    store_step c pb spb st st'"
| send_group: "group_encrypt c spb generated gid padded st = (y, st') \<Longrightarrow> store_step c pb spb st st'"
| learn: "store_step c pb spb st (capture_lid_pn_mappings now as st)"

inductive_cases store_stepE: "store_step c pb spb st st'"

lemma bounded_learn:
  assumes "bounded_store st"
  shows "bounded_store (capture_lid_pn_mappings now as st)"
proof -
  have "sessions (capture_pair now as p st) = sessions st \<and> sender_keys (capture_pair now as p st) = sender_keys st" for p st
    by (auto simp: capture_pair_def lid_pn_put_def Let_def split: prod.split option.split)
  then have "sessions (capture_lid_pn_mappings now as st) = sessions st"
    "sender_keys (capture_lid_pn_mappings now as st) = sender_keys st"
    by (simp_all add: capture_lid_pn_mappings_def)
  with assms show ?thesis
    by (simp add: bounded_store_def store_load_record_def sender_key_load_def)
qed

lemma bounded_send_group:
  "bounded_store st \<Longrightarrow> group_encrypt c spb generated gid padded st = (y, st') \<Longrightarrow> bounded_store st'"
  by (auto simp: group_encrypt_def bounded_store_def encrypt_sender_key_Ok Let_def split: if_splits)

text \<open>C7: however many messages are received, sent or resent, and whatever they contain, every stored
  session stays within its bounds (five receiver chains of at most two thousand cached keys) and
  every group receiver within its two thousand.\<close>

theorem store_stays_bounded:
  assumes "(store_step c pb spb)\<^sup>*\<^sup>* st st'" "bounded_store st"
  shows "bounded_store st'"
  using assms
proof (induction rule: rtranclp_induct)
  case (step st' st'')
  then have "bounded_store st'" by simp
  with step.hyps(2) show ?case
    by (cases rule: store_stepE)
      (auto dest: keepsD [OF bounded_envelope] keepsD [OF bounded_group] bounded_resolve bounded_send bounded_send_group
        intro: bounded_learn)
qed

theorem store_stays_bounded_witness:
  "\<forall>keys. bounded_store (snd (decrypt_signal_envelope toy_signal toy_codec_signal ([], []) keys ''55'' ''msg'' 2 [1] (toy_store [])))"
proof
  fix keys
  have "bounded_store (toy_store [])"
    by (simp add: bounded_store_def store_load_record_def sender_key_load_def row_load_def toy_store_def)
  moreover obtain p st' where d:
    "decrypt_signal_envelope toy_signal toy_codec_signal ([], []) keys ''55'' ''msg'' 2 [1] (toy_store []) = (p, st')"
    by fastforce
  ultimately have "bounded_store st'"
    using store_stays_bounded [OF r_into_rtranclp, OF receive [OF d, where spb = toy_codec_sender]] by blast
  then show "bounded_store (snd (decrypt_signal_envelope toy_signal toy_codec_signal ([], []) keys ''55'' ''msg'' 2 [1] (toy_store [])))"
    by (simp add: d)
qed

end
