(* ===== verification/Message_Flow.thy ===== *)
theory Message_Flow
  imports Message_Envelope
begin

text \<open>
  Messages from one store to another: a first message that sets the session up, the ones that
  follow in whatever order they arrive, and what a repeated first message does.
\<close>

section \<open>The receiving store as a mailbox\<close>

definition receive_msg ::
  "signal_crypto \<Rightarrow> signal_codec \<Rightarrow> bytes \<times> bytes \<Rightarrow> device_keys \<Rightarrow> string \<Rightarrow> string \<times> bytes \<Rightarrow> whisper_store \<Rightarrow>
    (unit, bytes) outcome \<times> whisper_store" where
  "receive_msg c pb fresh keys addr tc st =
    (case decrypt_signal_envelope c pb fresh keys addr (fst tc) 2 (snd tc) st of
       (Some p, st) \<Rightarrow> (Ok p, st) | (None, st) \<Rightarrow> (Err (), st))"

text \<open>The store holds a session at \<open>addr\<close> that expects the chain of \<open>v\<close>.\<close>

definition store_expects ::
  "signal_crypto \<Rightarrow> signal_codec \<Rightarrow> sender_view \<Rightarrow> chain_key \<Rightarrow> string \<Rightarrow> nat set \<Rightarrow> whisper_store \<Rightarrow> bool" where
  "store_expects c pb v oc addr used st \<longleftrightarrow>
    (\<exists>r s. store_load_record st addr = Some r \<and> current r = Some s \<and> expects c pb v oc used s)"

lemma with_record_wire:
  assumes "current r = Some s" "expects c pb v oc used s" "j \<le> MAX_SKIPPED_MESSAGE_KEYS"
  shows "j \<notin> used \<Longrightarrow> \<exists>s'. decrypt_with_record c pb fresh addr 2
        (whisper_wire c pb v (chain_at c oc j) (pad_message (rnd j) m)) r st
      = (Some m, store_save_record addr (r\<lparr>current := Some s'\<rparr>) st) \<and> expects c pb v oc (insert j used) s'"
    and "j \<in> used \<Longrightarrow> decrypt_with_record c pb fresh addr 2
        (whisper_wire c pb v (chain_at c oc j) (pad_message (rnd j) m)) r st = (None, st)"
  using session_decrypt_wire [OF assms(2,3), of fresh "pad_message (rnd j) m"] assms(1)
  by (auto simp: decrypt_with_record_def unpad_message_v_def unpad_pad)

interpretation envelope: mailbox "receive_msg c pb fresh keys addr" "store_expects c pb v oc addr"
    "\<lambda>j m. (''msg'', whisper_wire c pb v (chain_at c oc j) (pad_message (rnd j) m))" "Suc MAX_SKIPPED_MESSAGE_KEYS"
  for c pb fresh keys addr v oc rnd
proof
  fix used st j m
  assume st: "store_expects c pb v oc addr used st" and j: "j < Suc MAX_SKIPPED_MESSAGE_KEYS"
  then obtain r s where r: "store_load_record st addr = Some r" "current r = Some s" "expects c pb v oc used s"
    by (auto simp: store_expects_def)
  from j have j': "j \<le> MAX_SKIPPED_MESSAGE_KEYS" by simp
  note w = with_record_wire [OF r(2,3) j', where fresh = fresh and addr = addr and rnd = rnd and m = m and st = st]
  show "\<exists>st'. receive_msg c pb fresh keys addr (''msg'', whisper_wire c pb v (chain_at c oc j) (pad_message (rnd j) m)) st
      = (Ok m, st') \<and> store_expects c pb v oc addr (insert j used) st'" if "j \<notin> used"
    using w(1) [OF that] r(1) by (auto simp: receive_msg_def decrypt_signal_envelope_def store_expects_def)
  show "\<exists>e. receive_msg c pb fresh keys addr (''msg'', whisper_wire c pb v (chain_at c oc j) (pad_message (rnd j) m)) st
      = (Err e, st)" if "j \<in> used"
    using w(2) [OF that] r(1) by (auto simp: receive_msg_def decrypt_signal_envelope_def)
qed

section \<open>The sending store\<close>

text \<open>One established session for the device, under its canonical address.\<close>

definition sends_from :: "signal_crypto \<Rightarrow> sender_view \<Rightarrow> string \<Rightarrow> chain_key \<Rightarrow> whisper_store \<Rightarrow> bool" where
  "sends_from c v d ck st \<longleftrightarrow>
    (\<forall>b \<in> set (address_forms st d). has_current st b \<longrightarrow> b = canonical_session_address st d) \<and>
    (\<exists>r s. store_load_record st (canonical_session_address st d) = Some r \<and> current r = Some s \<and>
       pending_pre_key_of s = None \<and> sender_chain s = Some ck \<and>
       sender_ratchet_pub s = Some (v_ratchet_pub v) \<and> view_of s = v)"

lemma encryption_address_stays:
  assumes "\<forall>b \<in> set (address_forms st d). has_current st b \<longrightarrow> b = canonical_session_address st d"
  shows "encryption_address st d = (canonical_session_address st d, st)"
proof -
  obtain a st' where e: "encryption_address st d = (a, st')" by fastforce
  then have "a = canonical_session_address st d \<and> st' = st"
  proof (cases rule: encryption_cases)
    case (2 src)
    then show ?thesis using assms by auto
  next
    case 3
    have "card (set (filter (has_current st) (address_forms st d))) \<le> card {canonical_session_address st d}"
      using assms by (intro card_mono) auto
    moreover have "card (set (filter (has_current st) (address_forms st d))) = length (filter (has_current st) (address_forms st d))"
      using address_forms_set(2) [of st d] by (intro distinct_card distinct_filter)
    ultimately show ?thesis using 3(1) by simp
  qed simp
  with e show ?thesis by simp
qed

lemma only_form_save:
  fixes r :: session_record
  assumes "\<forall>b \<in> set (address_forms st d). has_current st b \<longrightarrow> b = canonical_session_address st d"
  defines "st' \<equiv> store_save_record (canonical_session_address st d) r st"
  shows "\<forall>b \<in> set (address_forms st' d). has_current st' b \<longrightarrow> b = canonical_session_address st' d"
    "canonical_session_address st' d = canonical_session_address st d"
  using assms(1) forms_cong [of st' st d]
  by (auto simp: st'_def has_current_def split: if_splits)

lemma send_established:
  assumes "sends_from c v d ck st"
  shows "\<exists>st'. encrypt_per_device c pb keys fetch gen fr [d] m m own st =
      (Ok [\<lparr>er_jid = d, er_ciphertext = whisper_wire c pb v ck m, er_message_type = Whisper\<rparr>], st') \<and>
    sends_from c v d (next_chain c ck) st'"
proof -
  let ?enc = "canonical_session_address st d"
  from assms obtain r s where only: "\<forall>b \<in> set (address_forms st d). has_current st b \<longrightarrow> b = ?enc"
    and r: "store_load_record st ?enc = Some r" "current r = Some s" "pending_pre_key_of s = None"
      "sender_chain s = Some ck" "sender_ratchet_pub s = Some (v_ratchet_pub v)" "view_of s = v"
    by (auto simp: sends_from_def)
  let ?s = "s\<lparr>sender_chain := Some (next_chain c ck)\<rparr>"
  let ?st = "store_save_record ?enc (r\<lparr>current := Some ?s\<rparr>) st"
  have "encrypt_per_device c pb keys fetch gen fr [d] m m own st =
      (Ok [\<lparr>er_jid = d, er_ciphertext = whisper_wire c pb v ck m, er_message_type = Whisper\<rparr>], ?st)"
    using session_encrypt_Ok [OF r(4,5)] r
    by (simp add: encrypt_per_device_def encryption_address_stays [OF only] partition_targets_def encrypt_state_def
        rows.load_save)
  moreover have "sends_from c v d (next_chain c ck) ?st"
    using only_form_save [OF only, of "r\<lparr>current := Some ?s\<rparr>"] r
    by (simp add: sends_from_def view_of_def)
  ultimately show ?thesis by blast
qed

lemma send_run:
  "sends_from c v d ck st \<Longrightarrow>
    \<exists>st'. deliver (\<lambda>m. encrypt_per_device c pb keys fetch gen fr [d] m m own) ms st =
      (map (\<lambda>j. Ok [\<lparr>er_jid = d, er_ciphertext = whisper_wire c pb v (chain_at c ck j) (ms ! j),
          er_message_type = Whisper\<rparr>]) [0..<length ms], st')"
proof (induction ms arbitrary: st ck)
  case (Cons m ms)
  from send_established [OF Cons.prems] obtain st1 where
    e: "encrypt_per_device c pb keys fetch gen fr [d] m m own st =
      (Ok [\<lparr>er_jid = d, er_ciphertext = whisper_wire c pb v ck m, er_message_type = Whisper\<rparr>], st1)"
    and s: "sends_from c v d (next_chain c ck) st1" by blast
  from Cons.IH [OF s] obtain st' where
    "deliver (\<lambda>m. encrypt_per_device c pb keys fetch gen fr [d] m m own) ms st1 =
      (map (\<lambda>j. Ok [\<lparr>er_jid = d, er_ciphertext = whisper_wire c pb v (chain_at c (next_chain c ck) j) (ms ! j),
          er_message_type = Whisper\<rparr>]) [0..<length ms], st')" by blast
  moreover have "chain_at c (next_chain c ck) j = chain_at c ck (Suc j)" for j
    using chain_at_add [of c ck 1 j] by (simp add: chain_at_Suc)
  ultimately show ?case by (simp add: e upt_0_Suc comp_def del: upt_Suc)
qed simp

section \<open>First contact\<close>

text \<open>The keys a sender used belong to the receiver's: each shared secret is the same from both sides.\<close>

definition shared :: "signal_crypto \<Rightarrow> key_pair \<Rightarrow> key_pair \<Rightarrow> bool" where
  "shared c x y \<longleftrightarrow> dh c (kp_private x) (kp_public y) = dh c (kp_private y) (kp_public x)"

definition bundle_of_peer ::
  "signal_crypto \<Rightarrow> device_keys \<Rightarrow> key_pair \<times> key_pair \<Rightarrow> device_keys \<Rightarrow> key_pair option \<Rightarrow> device_prekey_bundle \<Rightarrow> bool" where
  "bundle_of_peer c akeys gen bkeys opk bundle \<longleftrightarrow>
    bundle_identity_pub bundle = kp_public (identity_key bkeys) \<and>
    bundle_signed_pre_key_pub bundle = kp_public (spk_keypair (signed_prekey bkeys)) \<and>
    bundle_one_time_pre_key_pub bundle = map_option kp_public opk \<and>
    shared c (identity_key akeys) (spk_keypair (signed_prekey bkeys)) \<and>
    shared c (fst gen) (identity_key bkeys) \<and> shared c (fst gen) (spk_keypair (signed_prekey bkeys)) \<and>
    shared c (snd gen) (spk_keypair (signed_prekey bkeys)) \<and>
    (case opk of None \<Rightarrow> True | Some k \<Rightarrow> shared c (fst gen) k) \<and>
    length (kp_public (identity_key akeys)) = 32 \<and> length (kp_public (fst gen)) = 32 \<and>
    length (kp_public (snd gen)) = 32"

text \<open>The one-time prekey that the bundle names is in the receiver's store.\<close>

definition holds_prekey :: "device_prekey_bundle \<Rightarrow> key_pair option \<Rightarrow> whisper_store \<Rightarrow> bool" where
  "holds_prekey bundle opk st =
    (case bundle_one_time_pre_key_id bundle of
       None \<Rightarrow> opk = None
     | Some i \<Rightarrow> opk \<noteq> None \<and> load_prekey_priv st i = map_option kp_private opk)"

definition pre_key_wire ::
  "signal_codec \<Rightarrow> device_keys \<Rightarrow> key_pair \<times> key_pair \<Rightarrow> device_prekey_bundle \<Rightarrow> bytes \<Rightarrow> bytes" where
  "pre_key_wire pb keys gen bundle w =
    WHISPER_VERSION # enc_pre_key pb
      \<lparr>pk_registration_id = Some (registration_id keys), pk_pre_key_id = bundle_one_time_pre_key_id bundle,
       pk_signed_pre_key_id = Some (bundle_signed_pre_key_id bundle),
       pk_base_key = Some (0x05 # kp_public (fst gen)), pk_identity_key = Some (0x05 # kp_public (identity_key keys)),
       pk_message = Some w\<rparr>"

lemma initiate_alice_pub [simp]:
  "sender_ratchet_pub (initiate_alice c a) = Some (a_ratchet_pub a)"
  "local_identity_pub (initiate_alice c a) = a_identity_pub a"
  by (simp_all add: initiate_alice_def Let_def split_beta)

lemma alice_of_pub [simp]:
  "a_ratchet_pub (alice_of keys gen bundle) = kp_public (snd gen)"
  "a_identity_pub (alice_of keys gen bundle) = kp_public (identity_key keys)"
  by (simp_all add: alice_of_def)

lemma send_first:
  assumes "\<forall>b \<in> set (address_forms st d). \<not> has_current st b"
    and "fetch [canonical_session_address st d] = Some [bundle]" "bundle_jid bundle = canonical_session_address st d"
    and "sender_chain (initiate_alice c (alice_of keys (gen 0) bundle)) = Some oc"
  defines "v \<equiv> view_of (initiate_alice c (alice_of keys (gen 0) bundle))"
  shows "\<exists>st'. encrypt_per_device c pb keys fetch gen fr [d] m m own st =
      (Ok [\<lparr>er_jid = d, er_ciphertext = pre_key_wire pb keys (gen 0) bundle (whisper_wire c pb v oc m),
          er_message_type = PreKey\<rparr>], st') \<and> sends_from c v d (next_chain c oc) st'"
proof -
  let ?enc = "canonical_session_address st d" and ?a = "alice_of keys (gen 0) bundle"
  let ?r = "bootstrap_record c keys (gen 0) bundle"
  obtain state where cur: "current ?r = Some state" by (simp add: bootstrap_record_def)
  let ?s = "(state\<lparr>sender_chain := Some (next_chain c oc)\<rparr>)\<lparr>pending_pre_key_of := None\<rparr>"
  let ?st = "store_save_record ?enc (?r\<lparr>current := Some ?s\<rparr>) st"
  have only: "\<forall>b \<in> set (address_forms st d). has_current st b \<longrightarrow> b = ?enc" using assms(1) by blast
  have none: "\<not> has_current st ?enc" using assms(1) canonical_in_forms by blast
  have part: "partition_targets st [(d, ?enc)] = ([], [?enc])"
    using none by (auto simp: partition_targets_def has_current_def split: option.splits)
  have boot: "row_load (bootstrap_all c keys gen [bundle]) ?enc = Some ?r"
    by (simp add: bootstrap_all_def assms(3) rows.load_save)
  have s0: "sender_chain state = Some oc" "sender_ratchet_pub state = Some (kp_public (snd (gen 0)))" "view_of state = v"
    using cur by (auto simp: bootstrap_record_def assms(4) v_def view_of_def)
  have pend: "pending_pre_key_of state = Some \<lparr>pending_pre_key_id = bundle_one_time_pre_key_id bundle,
      pending_signed_pre_key_id = bundle_signed_pre_key_id bundle, pending_base_key_pub = kp_public (fst (gen 0))\<rparr>"
    using cur by (auto simp: bootstrap_record_def)
  have enc: "encrypt_state c pb keys (fr 0) m state =
      (Ok \<lparr>serialized = pre_key_wire pb keys (gen 0) bundle (whisper_wire c pb v oc m), message_type_of = PreKey\<rparr>, ?s)"
    using pend by (simp add: encrypt_state_def sbind_def pre_key_wire_def encrypt_pre_key_Ok [OF s0(1,2)] s0(3))
  have "encrypt_per_device c pb keys fetch gen fr [d] m m own st =
      (Ok [\<lparr>er_jid = d, er_ciphertext = pre_key_wire pb keys (gen 0) bundle (whisper_wire c pb v oc m),
          er_message_type = PreKey\<rparr>], ?st)"
    by (simp add: cur enc encrypt_per_device_def encryption_address_stays [OF only] part assms(2) boot row_load_def [of "[]"])
  moreover have "sends_from c v d (next_chain c oc) ?st"
    using only_form_save [OF only, of "?r\<lparr>current := Some ?s\<rparr>"] s0
    by (simp add: sends_from_def view_of_def v_def) 
  ultimately show ?thesis by blast
qed

lemma peer_matches:
  assumes "bundle_of_peer c akeys gen bkeys opk bundle" "i_identity_key_pub info = kp_public (identity_key akeys)"
    "i_base_key_pub info = kp_public (fst gen)" "inner_ratchet_pub info = kp_public (snd gen)"
  shows "x3dh_matches c (alice_of akeys gen bundle) (bob_of bkeys (map_option kp_private opk) info)"
  using assms by (cases opk) (auto simp: bundle_of_peer_def x3dh_matches_def alice_of_def bob_of_def shared_def)

lemma fst_eqE: "fst p = a \<Longrightarrow> (\<And>b. p = (a, b) \<Longrightarrow> P) \<Longrightarrow> P"
  by (cases p) simp

text \<open>Whatever session the receiver keeps refuses the message inside.\<close>

lemma receive_fresh:
  assumes ok: "signal_sound c pb" "\<forall>p. dec_pre_key pb (enc_pre_key pb p) = Some p"
    and peer: "bundle_of_peer c akeys gen bkeys opk bundle" "holds_prekey bundle opk st"
    and oc: "sender_chain (initiate_alice c (alice_of akeys gen bundle)) = Some oc"
    and v: "v = view_of (initiate_alice c (alice_of akeys gen bundle))"
    and old: "\<forall>q. store_load_record st addr = Some q \<longrightarrow>
      fst (decrypt_with_record c pb fresh addr 2 (whisper_wire c pb v oc (pad_message r m)) q st) = None"
  shows "\<exists>st'. receive_msg c pb fresh bkeys addr
        (''pkmsg'', pre_key_wire pb akeys gen bundle (whisper_wire c pb v oc (pad_message r m))) st = (Ok m, st') \<and>
      store_expects c pb v oc addr {0} st' \<and>
      prekeys st' = (case bundle_one_time_pre_key_id bundle of Some i \<Rightarrow> row_delete (prekeys st) i | None \<Rightarrow> prekeys st)"
proof -
  let ?w = "whisper_wire c pb v oc (pad_message r m)"
  let ?info = "\<lparr>i_registration_id = registration_id akeys, i_pre_key_id = bundle_one_time_pre_key_id bundle,
      i_signed_pre_key_id = bundle_signed_pre_key_id bundle, i_base_key_pub = kp_public (fst gen),
      i_identity_key_pub = kp_public (identity_key akeys), inner_ratchet_pub = v_ratchet_pub v,
      inner_whisper_wire = ?w\<rparr>"
  have vp: "v_ratchet_pub v = kp_public (snd gen)" "v_local v = kp_public (identity_key akeys)"
    by (simp_all add: v view_of_def)
  have parse: "parse_pre_key_message pb (pre_key_wire pb akeys gen bundle ?w) = Ok ?info"
    unfolding pre_key_wire_def
    by (rule parse_pre_key_wire [OF ok]) (use peer(1) vp in \<open>simp_all add: bundle_of_peer_def\<close>)
  let ?b = "bob_of bkeys (map_option kp_private opk) ?info"
  have "x3dh_matches c (alice_of akeys gen bundle) ?b"
    by (rule peer_matches [OF peer(1)]) (simp_all add: vp)
  from x3dh_start [OF ok(1) this] peer(1) oc have start: "expects c pb v oc {} (process_bob c ?b)"
    unfolding v by (auto simp: bundle_of_peer_def)
  obtain s where s: "session_decrypt c pb fresh ?w (process_bob c ?b) = (Ok (pad_message r m), s)"
    "expects c pb v oc {0} s"
    using session.accepts [OF start, of 0 fresh "pad_message r m"] by auto
  have opk: "(case bundle_one_time_pre_key_id bundle of Some i \<Rightarrow> load_prekey_priv st i | None \<Rightarrow> None)
      = map_option kp_private opk"
    using peer(2) by (auto simp: holds_prekey_def split: option.splits)
  have "fst (case store_load_record st addr of
             Some r \<Rightarrow>
               if map_option remote_identity_pub (current r) = Some (i_identity_key_pub ?info)
               then decrypt_with_record c pb fresh addr 2 (inner_whisper_wire ?info) r st
               else (None, st)
           | None \<Rightarrow> (None, st)) = None"
    using old by (auto split: option.split)
  then obtain st1 where existing: "(case store_load_record st addr of
             Some r \<Rightarrow>
               if map_option remote_identity_pub (current r) = Some (i_identity_key_pub ?info)
               then decrypt_with_record c pb fresh addr 2 (inner_whisper_wire ?info) r st
               else (None, st)
           | None \<Rightarrow> (None, st)) = (None, st1)"
    by (rule fst_eqE)
  let ?st = "store_save_record addr (new_record\<lparr>current := Some s\<rparr>) st"
  let ?st' = "case bundle_one_time_pre_key_id bundle of Some i \<Rightarrow> consume_prekey i ?st | None \<Rightarrow> ?st"
  have "decrypt_pre_key_envelope c pb fresh bkeys addr 2 ?info st = (Some m, ?st')"
    using peer(2) unfolding decrypt_pre_key_envelope_def existing
    by (simp add: opk s(1) unpad_message_v_def unpad_pad holds_prekey_def split: option.splits)
  then have "receive_msg c pb fresh bkeys addr (''pkmsg'', pre_key_wire pb akeys gen bundle ?w) st = (Ok m, ?st')"
    by (simp add: receive_msg_def decrypt_signal_envelope_def parse)
  moreover have "store_expects c pb v oc addr {0} ?st'"
    using s(2) by (auto simp: store_expects_def split: option.split)
  moreover have "prekeys ?st' = (case bundle_one_time_pre_key_id bundle of Some i \<Rightarrow> row_delete (prekeys st) i | None \<Rightarrow> prekeys st)"
    by (auto simp: consume_prekey_def split: option.split)
  ultimately show ?thesis by blast
qed

lemma receive_first:
  assumes ok: "signal_sound c pb" "\<forall>p. dec_pre_key pb (enc_pre_key pb p) = Some p"
    and peer: "bundle_of_peer c akeys gen bkeys opk bundle" "holds_prekey bundle opk st"
    and oc: "sender_chain (initiate_alice c (alice_of akeys gen bundle)) = Some oc"
    and v: "v = view_of (initiate_alice c (alice_of akeys gen bundle))"
    and old: "store_load_record st addr = None \<or> (\<exists>used. 0 \<in> used \<and> store_expects c pb v oc addr used st)"
  shows "\<exists>st'. receive_msg c pb fresh bkeys addr
        (''pkmsg'', pre_key_wire pb akeys gen bundle (whisper_wire c pb v oc (pad_message r m))) st = (Ok m, st') \<and>
      store_expects c pb v oc addr {0} st' \<and>
      prekeys st' = (case bundle_one_time_pre_key_id bundle of Some i \<Rightarrow> row_delete (prekeys st) i | None \<Rightarrow> prekeys st)"
proof (rule receive_fresh [OF ok peer oc v])
  show "\<forall>q. store_load_record st addr = Some q \<longrightarrow>
      fst (decrypt_with_record c pb fresh addr 2 (whisper_wire c pb v oc (pad_message r m)) q st) = None"
  proof (intro allI impI)
    fix q assume q: "store_load_record st addr = Some q"
    with old obtain used t where "0 \<in> used" "current q = Some t" "expects c pb v oc used t"
      by (auto simp: store_expects_def)
    with with_record_wire(2) [of q t c pb v oc used 0 fresh addr "\<lambda>_. r" m st]
    show "fst (decrypt_with_record c pb fresh addr 2 (whisper_wire c pb v oc (pad_message r m)) q st) = None" by simp
  qed
qed

lemma deliver_msgs_prekeys:
  "deliver (receive_msg c pb fresh keys addr) (map (\<lambda>j. (''msg'', w j)) js) st = (outs, st') \<Longrightarrow> prekeys st' = prekeys st"
proof (induction js arbitrary: st outs)
  case (Cons j js)
  have "prekeys (snd (receive_msg c pb fresh keys addr (''msg'', w j) st)) = prekeys st"
    by (auto simp: receive_msg_def decrypt_signal_envelope_def decrypt_with_record_def
        split: option.split prod.split outcome.split)
  with Cons show ?case by (auto split: prod.splits)
qed simp

text \<open>The two ends before the first message.\<close>

definition contact ::
  "signal_crypto \<Rightarrow> signal_codec \<Rightarrow> device_keys \<Rightarrow> (string list \<Rightarrow> device_prekey_bundle list option) \<Rightarrow>
    (nat \<Rightarrow> key_pair \<times> key_pair) \<Rightarrow> string \<Rightarrow> whisper_store \<Rightarrow>
    device_keys \<Rightarrow> key_pair option \<Rightarrow> device_prekey_bundle \<Rightarrow> string \<Rightarrow> whisper_store \<Rightarrow> bool" where
  "contact c pb akeys fetch gen d sa bkeys opk bundle addr sb \<longleftrightarrow>
    signal_sound c pb \<and> (\<forall>p. dec_pre_key pb (enc_pre_key pb p) = Some p) \<and>
    (\<forall>b \<in> set (address_forms sa d). \<not> has_current sa b) \<and>
    fetch [canonical_session_address sa d] = Some [bundle] \<and> bundle_jid bundle = canonical_session_address sa d \<and>
    bundle_of_peer c akeys (gen 0) bkeys opk bundle \<and>
    holds_prekey bundle opk sb \<and> store_load_record sb addr = None"

definition received_from :: "(send_error, encrypted_recipient list) outcome list \<Rightarrow> nat \<Rightarrow> string \<times> bytes" where
  "received_from sent j =
    (let r = hd (the_ok (sent ! j)) in (enc_type_of (er_message_type r), er_ciphertext r))"

text \<open>What the sender ships, with the chain it starts.\<close>

lemma contact_sends:
  assumes "contact c pb akeys fetch gen d sa bkeys opk bundle addr sb" "ms \<noteq> []"
    and "deliver (\<lambda>m. encrypt_per_device c pb akeys fetch gen fr [d] m m own)
      (map (\<lambda>j. pad_message (rnd j) (ms ! j)) [0..<length ms]) sa = (sent, sa')"
  defines "v \<equiv> view_of (initiate_alice c (alice_of akeys (gen 0) bundle))"
  obtains oc where "sender_chain (initiate_alice c (alice_of akeys (gen 0) bundle)) = Some oc"
    "received_from sent 0 = (''pkmsg'', pre_key_wire pb akeys (gen 0) bundle (whisper_wire c pb v oc (pad_message (rnd 0) (ms ! 0))))"
    "\<And>j. 0 < j \<Longrightarrow> j < length ms \<Longrightarrow>
      received_from sent j = (''msg'', whisper_wire c pb v (chain_at c oc j) (pad_message (rnd j) (ms ! j)))"
proof -
  obtain oc where oc: "sender_chain (initiate_alice c (alice_of akeys (gen 0) bundle)) = Some oc"
    by (simp add: initiate_alice_def Let_def split_beta)
  let ?pad = "\<lambda>j. pad_message (rnd j) (ms ! j)"
  let ?later = "map (\<lambda>j. ?pad (Suc j)) [0..<length ms - 1]"
  from assms(2) obtain n where n: "length ms = Suc n" by (cases ms) auto
  have list: "map ?pad [0..<length ms] = ?pad 0 # ?later"
    by (simp add: n upt_0_Suc comp_def del: upt_Suc)
  from assms(1) obtain st1 where
    first: "encrypt_per_device c pb akeys fetch gen fr [d] (?pad 0) (?pad 0) own sa =
      (Ok [\<lparr>er_jid = d, er_ciphertext = pre_key_wire pb akeys (gen 0) bundle (whisper_wire c pb v oc (?pad 0)),
          er_message_type = PreKey\<rparr>], st1)"
    and sf: "sends_from c v d (next_chain c oc) st1"
    using send_first [of sa d fetch "bundle" c akeys gen oc pb fr "?pad 0" own] oc
    by (auto simp: contact_def v_def)
  from send_run [OF sf, of pb akeys fetch gen fr own ?later] assms(3) have sent:
    "sent = Ok [\<lparr>er_jid = d, er_ciphertext = pre_key_wire pb akeys (gen 0) bundle (whisper_wire c pb v oc (?pad 0)),
          er_message_type = PreKey\<rparr>] #
      map (\<lambda>j. Ok [\<lparr>er_jid = d, er_ciphertext = whisper_wire c pb v (chain_at c (next_chain c oc) j) (?later ! j),
          er_message_type = Whisper\<rparr>]) [0..<n]"
    unfolding list by (auto simp: first n)
  have "chain_at c (next_chain c oc) j = chain_at c oc (Suc j)" for j
    using chain_at_add [of c oc 1 j] by (simp add: chain_at_Suc)
  then have "received_from sent j = (''msg'', whisper_wire c pb v (chain_at c oc j) (?pad j))" if "0 < j" "j < length ms" for j
    using that by (cases j) (simp_all add: sent received_from_def enc_type_of_def n)
  moreover have "received_from sent 0 = (''pkmsg'', pre_key_wire pb akeys (gen 0) bundle (whisper_wire c pb v oc (?pad 0)))"
    by (simp add: sent received_from_def enc_type_of_def)
  ultimately show ?thesis using oc that by blast
qed

lemma contact_receives:
  assumes con: "contact c pb akeys fetch gen d sa bkeys opk bundle addr sb0"
    and oc: "sender_chain (initiate_alice c (alice_of akeys (gen 0) bundle)) = Some oc"
    and v: "v = view_of (initiate_alice c (alice_of akeys (gen 0) bundle))"
    and js: "\<forall>j \<in> set js. j < length ms" "length ms \<le> 2001"
    and sb: "holds_prekey bundle opk sb"
      "store_load_record sb addr = None \<or> (\<exists>used. 0 \<in> used \<and> store_expects c pb v oc addr used sb)"
  shows "\<exists>outs sb'. deliver (receive_msg c pb fresh bkeys addr)
      ((''pkmsg'', pre_key_wire pb akeys (gen 0) bundle (whisper_wire c pb v oc (pad_message (rnd 0) (ms ! 0)))) #
       map (\<lambda>j. (''msg'', whisper_wire c pb v (chain_at c oc j) (pad_message (rnd j) (ms ! j)))) js) sb = (outs, sb') \<and>
    map ok_value outs = Some (ms ! 0) # map (map_option ((!) ms)) (first_seen {0} js) \<and>
    store_expects c pb v oc addr ({0} \<union> set js) sb' \<and>
    prekeys sb' = (case bundle_one_time_pre_key_id bundle of Some i \<Rightarrow> row_delete (prekeys sb) i | None \<Rightarrow> prekeys sb)"
proof -
  have ok: "signal_sound c pb" "\<forall>p. dec_pre_key pb (enc_pre_key pb p) = Some p"
    "bundle_of_peer c akeys (gen 0) bkeys opk bundle"
    using con by (simp_all add: contact_def)
  obtain st1 where first: "receive_msg c pb fresh bkeys addr
        (''pkmsg'', pre_key_wire pb akeys (gen 0) bundle (whisper_wire c pb v oc (pad_message (rnd 0) (ms ! 0)))) sb
      = (Ok (ms ! 0), st1)" "store_expects c pb v oc addr {0} st1"
    "prekeys st1 = (case bundle_one_time_pre_key_id bundle of Some i \<Rightarrow> row_delete (prekeys sb) i | None \<Rightarrow> prekeys sb)"
    using receive_first [OF ok sb(1) oc v sb(2)] by blast
  have "\<forall>j \<in> set js. j < Suc MAX_SKIPPED_MESSAGE_KEYS" using js by (auto simp: MAX_SKIPPED_MESSAGE_KEYS_def)
  from envelope.any_order [OF first(2) this, of fresh bkeys rnd "(!) ms"] obtain outs sb' where
    rest: "deliver (receive_msg c pb fresh bkeys addr)
       (map (\<lambda>j. (''msg'', whisper_wire c pb v (chain_at c oc j) (pad_message (rnd j) (ms ! j)))) js) st1 = (outs, sb')"
    "store_expects c pb v oc addr ({0} \<union> set js) sb'"
    "map ok_value outs = map (map_option ((!) ms)) (first_seen {0} js)" by blast
  from deliver_msgs_prekeys [OF rest(1)] first(3) have
    "prekeys sb' = (case bundle_one_time_pre_key_id bundle of Some i \<Rightarrow> row_delete (prekeys sb) i | None \<Rightarrow> prekeys sb)"
    by simp
  with first(1) rest show ?thesis by (intro exI [of _ "Ok (ms ! 0) # outs"] exI [of _ sb']) simp
qed

section \<open>Properties\<close>

text \<open>C3: first contact, from store to store: a sender without a session fetches the peer's keys and
  sends any number of messages (up to 2,001); the peer, who never saw it before, reads the first,
  and then the others in whatever order and however often they arrive, each exactly once and
  unpadded; the one-time prekey is used up.\<close>

theorem first_contact_conversation:
  assumes "contact c pb akeys fetch gen d sa bkeys opk bundle addr sb" "ms \<noteq> []" "length ms \<le> 2001"
    and "deliver (\<lambda>m. encrypt_per_device c pb akeys fetch gen fr [d] m m own)
      (map (\<lambda>j. pad_message (rnd j) (ms ! j)) [0..<length ms]) sa = (sent, sa')"
    and "\<forall>j \<in> set js. 0 < j \<and> j < length ms"
  shows "\<exists>outs sb'. deliver (receive_msg c pb fresh bkeys addr) (map (received_from sent) (0 # js)) sb = (outs, sb') \<and>
    map ok_value outs = Some (ms ! 0) # map (map_option ((!) ms)) (first_seen {0} js) \<and>
    (\<forall>i. bundle_one_time_pre_key_id bundle = Some i \<longrightarrow> load_prekey_priv sb' i = None)"
proof -
  define v where "v = view_of (initiate_alice c (alice_of akeys (gen 0) bundle))"
  from contact_sends [OF assms(1,2,4)] obtain oc where
    oc: "sender_chain (initiate_alice c (alice_of akeys (gen 0) bundle)) = Some oc"
    and w: "received_from sent 0 = (''pkmsg'', pre_key_wire pb akeys (gen 0) bundle (whisper_wire c pb v oc (pad_message (rnd 0) (ms ! 0))))"
      "\<And>j. 0 < j \<Longrightarrow> j < length ms \<Longrightarrow>
        received_from sent j = (''msg'', whisper_wire c pb v (chain_at c oc j) (pad_message (rnd j) (ms ! j)))"
    unfolding v_def by metis
  have js: "\<forall>j \<in> set js. j < length ms" using assms(5) by blast
  have sb: "holds_prekey bundle opk sb" "store_load_record sb addr = None" using assms(1) by (simp_all add: contact_def)
  have wires: "map (received_from sent) (0 # js) =
      (''pkmsg'', pre_key_wire pb akeys (gen 0) bundle (whisper_wire c pb v oc (pad_message (rnd 0) (ms ! 0)))) #
       map (\<lambda>j. (''msg'', whisper_wire c pb v (chain_at c oc j) (pad_message (rnd j) (ms ! j)))) js"
    using assms(5) by (simp add: w)
  from contact_receives [OF assms(1) oc v_def js assms(3) sb(1) disjI1 [OF sb(2)], of fresh rnd] show ?thesis
    unfolding wires by (auto simp: load_prekey_priv_def row_load_delete split: option.splits)
qed

text \<open>A sender and a receiver for the toy primitives; the receiver has one prekey, 3.\<close>

definition toy_pair :: key_pair where
  "toy_pair = \<lparr>kp_private = toy_key32, kp_public = toy_key32\<rparr>"

definition toy_device :: device_keys where
  "toy_device = generate_device_keys toy_signal toy_pair toy_pair toy_pair [] 1"

definition toy_bundle :: "u32 option \<Rightarrow> device_prekey_bundle" where
  "toy_bundle i =
    \<lparr>bundle_jid = ''64.1@lid'', bundle_device_id = 0, bundle_registration_id = 1,
     bundle_identity_pub = toy_key32, bundle_signed_pre_key_id = 1, bundle_signed_pre_key_pub = toy_key32,
     bundle_signed_pre_key_sig = [], bundle_one_time_pre_key_id = i,
     bundle_one_time_pre_key_pub = map_option (\<lambda>_. toy_key32) i\<rparr>"

definition toy_receiver :: whisper_store where
  "toy_receiver = \<lparr>sessions = [], prekeys = [(3, toy_key32)], sender_keys = [], lid_pn_map = []\<rparr>"

lemma toy_contact:
  assumes "i = None \<or> i = Some 3"
  shows "contact toy_signal toy_codec_signal toy_device (\<lambda>_. Some [toy_bundle i]) (\<lambda>_. (toy_pair, toy_pair))
    ''55@s.whatsapp.net'' (toy_store []) toy_device (map_option (\<lambda>_. toy_pair) i) (toy_bundle i) ''9'' toy_receiver"
proof -
  have "plain_user ''55''" "device_token None" by (simp_all add: plain_user_def device_token_def)
  from canonical_pn [OF this, of "toy_store []"]
  have c: "canonical_session_address (toy_store []) ''55@s.whatsapp.net'' = ''64.1@lid''"
    by (simp add: toy_pn_to_lid pn_form_def lid_form_def PN_SERVER_def LID_SERVER_def)
  have "\<not> has_current (toy_store []) b" for b
    by (simp add: has_current_def store_load_record_def row_load_def toy_store_def)
  moreover have "bundle_of_peer toy_signal toy_device (toy_pair, toy_pair) toy_device (map_option (\<lambda>_. toy_pair) i) (toy_bundle i)"
    by (cases i) (simp_all add: bundle_of_peer_def toy_device_def generate_device_keys_def toy_bundle_def toy_pair_def
        shared_def toy_key32_def)
  moreover have "holds_prekey (toy_bundle i) (map_option (\<lambda>_. toy_pair) i) toy_receiver"
    using assms by (auto simp: holds_prekey_def toy_bundle_def toy_receiver_def load_prekey_priv_def row_load_def
        toy_pair_def toy_key32_def)
  ultimately show ?thesis
    by (simp add: contact_def toy_signal_sound toy_codec_rt c)
       (simp add: toy_bundle_def store_load_record_def toy_receiver_def row_load_def)
qed

theorem first_contact_conversation_witness:
  "\<exists>(sent :: (send_error, encrypted_recipient list) outcome list) outs sb'.
    deliver (receive_msg toy_signal toy_codec_signal ([], []) toy_device ''9'') (map (received_from sent) [0, 2, 1, 2])
      toy_receiver = (outs, sb') \<and>
    map ok_value outs = [Some [7], Some [9], Some [8], None] \<and> load_prekey_priv sb' 3 = None"
proof -
  let ?ms = "[[7], [8], [9]] :: bytes list"
  have con: "contact toy_signal toy_codec_signal toy_device (\<lambda>_. Some [toy_bundle (Some 3)]) (\<lambda>_. (toy_pair, toy_pair))
    ''55@s.whatsapp.net'' (toy_store []) toy_device (Some toy_pair) (toy_bundle (Some 3)) ''9'' toy_receiver"
    using toy_contact [of "Some 3"] by simp
  obtain sent sa' where s: "deliver (\<lambda>m. encrypt_per_device toy_signal toy_codec_signal toy_device
      (\<lambda>_. Some [toy_bundle (Some 3)]) (\<lambda>_. (toy_pair, toy_pair)) (\<lambda>_. ([], [])) [''55@s.whatsapp.net''] m m None)
      (map (\<lambda>j. pad_message 1 (?ms ! j)) [0..<length ?ms]) (toy_store []) = (sent, sa')" by fastforce
  have js: "\<forall>j \<in> set [2, 1, 2]. 0 < j \<and> j < length ?ms" by simp
  obtain outs sb' where o: "deliver (receive_msg toy_signal toy_codec_signal ([], []) toy_device ''9'')
      (map (received_from sent) [0, 2, 1, 2]) toy_receiver = (outs, sb')"
    "map ok_value outs = Some (?ms ! 0) # map (map_option ((!) ?ms)) (first_seen {0} [2, 1, 2])"
    "\<forall>i. bundle_one_time_pre_key_id (toy_bundle (Some 3)) = Some i \<longrightarrow> load_prekey_priv sb' i = None"
    using first_contact_conversation [OF con _ _ s js, of "([], [])"] by auto
  then show ?thesis by (intro exI conjI) (rule o(1), simp_all add: toy_bundle_def)
qed

text \<open>C19: a first message that used no one-time prekey can be repeated with all that followed: playing
  the whole exchange to the receiver again sets the session up anew and every message is accepted
  a second time.\<close>

theorem replay_without_one_time_prekey:
  assumes "contact c pb akeys fetch gen d sa bkeys opk bundle addr sb" "ms \<noteq> []" "length ms \<le> 2001"
    and "deliver (\<lambda>m. encrypt_per_device c pb akeys fetch gen fr [d] m m own)
      (map (\<lambda>j. pad_message (rnd j) (ms ! j)) [0..<length ms]) sa = (sent, sa')"
    and "\<forall>j \<in> set js. 0 < j \<and> j < length ms" "bundle_one_time_pre_key_id bundle = None"
  defines "all \<equiv> map (received_from sent) (0 # js)"
  shows "\<exists>outs again sb'. deliver (receive_msg c pb fresh bkeys addr) (all @ all) sb = (outs @ again, sb') \<and>
    map ok_value outs = Some (ms ! 0) # map (map_option ((!) ms)) (first_seen {0} js) \<and>
    map ok_value again = map ok_value outs"
proof -
  define v where "v = view_of (initiate_alice c (alice_of akeys (gen 0) bundle))"
  from contact_sends [OF assms(1,2,4)] obtain oc where
    oc: "sender_chain (initiate_alice c (alice_of akeys (gen 0) bundle)) = Some oc"
    and w: "received_from sent 0 = (''pkmsg'', pre_key_wire pb akeys (gen 0) bundle (whisper_wire c pb v oc (pad_message (rnd 0) (ms ! 0))))"
      "\<And>j. 0 < j \<Longrightarrow> j < length ms \<Longrightarrow>
        received_from sent j = (''msg'', whisper_wire c pb v (chain_at c oc j) (pad_message (rnd j) (ms ! j)))"
    unfolding v_def by metis
  have js: "\<forall>j \<in> set js. j < length ms" using assms(5) by blast
  have sb: "holds_prekey bundle opk sb" "store_load_record sb addr = None" using assms(1) by (simp_all add: contact_def)
  have wires: "all =
      (''pkmsg'', pre_key_wire pb akeys (gen 0) bundle (whisper_wire c pb v oc (pad_message (rnd 0) (ms ! 0)))) #
       map (\<lambda>j. (''msg'', whisper_wire c pb v (chain_at c oc j) (pad_message (rnd j) (ms ! j)))) js"
    using assms(5) by (simp add: w all_def)
  note once = contact_receives [OF assms(1) oc v_def js assms(3), where fresh = fresh and rnd = rnd, folded wires]
  from once [OF sb(1) disjI1 [OF sb(2)]] obtain outs sb1 where
    1: "deliver (receive_msg c pb fresh bkeys addr) all sb = (outs, sb1)"
      "map ok_value outs = Some (ms ! 0) # map (map_option ((!) ms)) (first_seen {0} js)"
      "store_expects c pb v oc addr ({0} \<union> set js) sb1" by (elim exE conjE) (rule that)
  have "holds_prekey bundle opk sb1" using sb(1) assms(6) by (simp add: holds_prekey_def)
  moreover have "0 \<in> {0} \<union> set js" by simp
  ultimately obtain again sb2 where
    2: "deliver (receive_msg c pb fresh bkeys addr) all sb1 = (again, sb2)"
      "map ok_value again = Some (ms ! 0) # map (map_option ((!) ms)) (first_seen {0} js)"
    using once [OF _ disjI2] 1(3) by (metis (no_types, lifting))
  show ?thesis
    using 1 2 by (intro exI [of _ outs] exI [of _ again] exI [of _ sb2]) (simp add: deliver_append)
qed

theorem replay_without_one_time_prekey_witness:
  "\<exists>(sent :: (send_error, encrypted_recipient list) outcome list) outs again sb'.
    deliver (receive_msg toy_signal toy_codec_signal ([], []) toy_device ''9'')
      (map (received_from sent) [0, 1, 0, 1]) toy_receiver = (outs @ again, sb') \<and>
    map ok_value outs = [Some [7], Some [8]] \<and> map ok_value again = [Some [7], Some [8]]"
proof -
  let ?ms = "[[7], [8]] :: bytes list"
  have con: "contact toy_signal toy_codec_signal toy_device (\<lambda>_. Some [toy_bundle None]) (\<lambda>_. (toy_pair, toy_pair))
    ''55@s.whatsapp.net'' (toy_store []) toy_device None (toy_bundle None) ''9'' toy_receiver"
    using toy_contact [of None] by simp
  obtain sent sa' where s: "deliver (\<lambda>m. encrypt_per_device toy_signal toy_codec_signal toy_device
      (\<lambda>_. Some [toy_bundle None]) (\<lambda>_. (toy_pair, toy_pair)) (\<lambda>_. ([], [])) [''55@s.whatsapp.net''] m m None)
      (map (\<lambda>j. pad_message 1 (?ms ! j)) [0..<length ?ms]) (toy_store []) = (sent, sa')" by fastforce
  have js: "\<forall>j \<in> set [1]. 0 < j \<and> j < length ?ms" and none: "bundle_one_time_pre_key_id (toy_bundle None) = None"
    by (simp_all add: toy_bundle_def)
  have ne: "?ms \<noteq> []" "length ?ms \<le> 2001" by simp_all
  from replay_without_one_time_prekey [OF con ne s js none, of "([], [])"]
  obtain outs again sb' where o: "deliver (receive_msg toy_signal toy_codec_signal ([], []) toy_device ''9'')
      (map (received_from sent) [0, 1] @ map (received_from sent) [0, 1]) toy_receiver = (outs @ again, sb')"
    "map ok_value outs = Some (?ms ! 0) # map (map_option ((!) ?ms)) (first_seen {0} [1])"
    "map ok_value again = map ok_value outs"
    by (elim exE conjE) (rule that)
  have "map (received_from sent) [0, 1, 0, 1] = map (received_from sent) [0, 1] @ map (received_from sent) [0, 1]"
    by simp
  from o(1) [folded this] o(2,3) show ?thesis
    by (intro exI conjI) (assumption, simp_all)
qed

definition enc_child :: "string \<Rightarrow> bytes \<Rightarrow> node" where
  "enc_child ty ct = Node ''enc'' [(''type'', ty), (''v'', ''2'')] (CBytes ct)"

definition sending_state :: "sender_key_state \<Rightarrow> whisper_store \<Rightarrow> string \<Rightarrow> sender_key_state" where
  "sending_state generated st gid = (case sender_key_load st gid SK_OWNER of Some (OwnKey s) \<Rightarrow> s | _ \<Rightarrow> generated)"

text \<open>A group post reaches a member whatever the member knew before: the stanza's pairwise part
  brings the sender's distribution message, the group part then decrypts to the unpadded content,
  and the same group part arriving again is refused.\<close>

theorem group_post_delivered:
  fixes generated gid ss
  defines "sk \<equiv> sending_state generated ss gid"
  assumes "group_sound c spb" "signs_for c (signing_priv sk) (signing_keypair_pub sk)"
    and "length (ck_key (sk_chain sk)) = 32" "length (signing_keypair_pub sk) = 32"
    and "unat (ck_index (sk_chain sk)) + MAX_SKIPPED_SENDER_KEYS < 2 ^ 32 - 1"
    and "group_encrypt c spb generated gid (pad_message r m) ss = (Ok (skdm, post), ss')"
    and "decrypt_signal_envelope c pb (fresh 0) keys addr ''pkmsg'' 2 ct st = (Some plain, st1)"
    and "dec_e2e plain = Some \<lparr>skdm_part = Some (Some skdm)\<rparr>"
    and "node_content stanza = CNodes [enc_child ''pkmsg'' ct, enc_child ''skmsg'' post]"
  shows "\<exists>st2. decrypt_group_message c pb spb dec_e2e fresh keys gid sender addr stanza st = (Some m, st2) \<and>
    decrypt_group_message c pb spb dec_e2e fresh' keys gid sender addr
      (Node ''message'' [] (CNodes [enc_child ''skmsg'' post])) st2 = (None, st2)"
proof -
  let ?oc = "sk_chain sk"
  have enc: "skdm = serialize_distribution_wire spb (distribution sk)"
    "post = skmsg_wire c spb (sk_key_id sk) (signing_priv sk) (chain_at c ?oc 0) (pad_message r m)"
    using assms(7) by (auto simp: group_encrypt_def encrypt_sender_key_Ok sk_def sending_state_def Let_def)
  have dist: "parse_distribution_wire spb skdm = Ok (distribution sk)"
    unfolding enc(1) by (rule distribution_roundtrip_aux) (use assms(2,4,5) in \<open>simp_all add: group_sound_def distribution_def\<close>)
  have h: "hears c spb (signing_priv sk) ?oc {} (install_distribution (distribution sk))"
    by (rule install_hears [OF assms(2,3,6)])
  obtain k where k: "decrypt_sender_key_message c spb post (install_distribution (distribution sk)) = (Ok (pad_message r m), k)"
    "hears c spb (signing_priv sk) ?oc {0} k"
    using group.accepts [OF h, of 0 "sk_key_id sk" "pad_message r m"] unfolding enc(2) by auto
  then obtain e where again: "decrypt_sender_key_message c spb post k = (Err e, k)"
    using group.refuses [OF k(2), of 0 "sk_key_id sk" "pad_message r m"] unfolding enc(2) by auto
  have two: "parse_uint 4294967295 ''2'' = Some 2"
    by (simp add: parse_uint_def digits_value_def is_ascii_digit_def digit_val_def)
  have attrs: "enc_attrs (enc_child ty w) = \<lparr>en_type = ty, en_version = 2, en_ciphertext = w\<rparr>" for ty w
    by (simp add: enc_attrs_def enc_child_def or_default_def two)
  have tags: "tag (enc_child ty w) = ''enc''" for ty w by (simp add: enc_child_def)
  let ?st2 = "sender_key_save gid sender (MemberKey k) (sender_key_save gid sender (MemberKey (install_distribution (distribution sk))) st1)"
  have "decrypt_group_message c pb spb dec_e2e fresh keys gid sender addr stanza st = (Some m, ?st2)"
    by (simp add: decrypt_group_message_def assms(10) attrs tags install_step_def assms(8,9) dist decrypt_skmsg_def k(1)
        unpad_message_v_def unpad_pad)
  moreover have "decrypt_group_message c pb spb dec_e2e fresh' keys gid sender addr
      (Node ''message'' [] (CNodes [enc_child ''skmsg'' post])) ?st2 = (None, ?st2)"
    by (simp add: decrypt_group_message_def attrs tags install_step_def decrypt_skmsg_def again)
  ultimately show ?thesis by blast
qed

theorem group_post_delivered_witness:
  "\<exists>skdm post ss' ct st1 st2.
    group_encrypt toy_signal toy_codec_sender toy_sender ''g'' (pad_message 1 [7]) (toy_store []) = (Ok (skdm, post), ss') \<and>
    decrypt_signal_envelope toy_signal toy_codec_signal ([], []) toy_device ''9'' ''pkmsg'' 2 ct toy_receiver = (Some [8], st1) \<and>
    decrypt_group_message toy_signal toy_codec_signal toy_codec_sender (\<lambda>_. Some \<lparr>skdm_part = Some (Some skdm)\<rparr>)
      (\<lambda>_. ([], [])) toy_device ''g'' ''64'' ''9'' (Node ''message'' [] (CNodes [enc_child ''pkmsg'' ct, enc_child ''skmsg'' post]))
      toy_receiver = (Some [7], st2)"
proof -
  let ?bd = "toy_bundle (Some 3)" and ?a = "initiate_alice toy_signal (alice_of toy_device (toy_pair, toy_pair) (toy_bundle (Some 3)))"
  have con: "contact toy_signal toy_codec_signal toy_device (\<lambda>_. Some [?bd]) (\<lambda>_. (toy_pair, toy_pair))
    ''55@s.whatsapp.net'' (toy_store []) toy_device (Some toy_pair) ?bd ''9'' toy_receiver"
    using toy_contact [of "Some 3"] by simp
  obtain oc where oc: "sender_chain ?a = Some oc" by (simp add: initiate_alice_def Let_def split_beta)
  have c: "signal_sound toy_signal toy_codec_signal" "\<forall>p. dec_pre_key toy_codec_signal (enc_pre_key toy_codec_signal p) = Some p"
    "bundle_of_peer toy_signal toy_device (toy_pair, toy_pair) toy_device (Some toy_pair) ?bd"
    "holds_prekey ?bd (Some toy_pair) toy_receiver" "store_load_record toy_receiver ''9'' = None"
    using con by (simp_all add: contact_def)
  obtain ct st1 where d:
    "decrypt_signal_envelope toy_signal toy_codec_signal ([], []) toy_device ''9'' ''pkmsg'' 2 ct toy_receiver = (Some [8], st1)"
    using receive_first [OF c(1-4) oc refl disjI1 [OF c(5)], of "([], [])" 1 "[8]"]
    by (auto simp: receive_msg_def split: prod.splits option.splits)
  obtain skdm post ss' where g:
    "group_encrypt toy_signal toy_codec_sender toy_sender ''g'' (pad_message 1 [7]) (toy_store []) = (Ok (skdm, post), ss')"
    by (simp add: group_encrypt_def encrypt_sender_key_Ok Let_def)
  have s: "sending_state toy_sender (toy_store []) ''g'' = toy_sender"
    by (simp add: sending_state_def sender_key_load_def row_load_def toy_store_def)
  have l: "length (ck_key (sk_chain toy_sender)) = 32" "length (signing_keypair_pub toy_sender) = 32"
    "unat (ck_index (sk_chain toy_sender)) + MAX_SKIPPED_SENDER_KEYS < 2 ^ 32 - 1"
    by (simp_all add: toy_sender_def generate_sender_key_def new_chain_def MAX_SKIPPED_SENDER_KEYS_def)
  let ?stanza = "Node ''message'' [] (CNodes [enc_child ''pkmsg'' ct, enc_child ''skmsg'' post])"
  have "\<exists>st2. decrypt_group_message toy_signal toy_codec_signal toy_codec_sender (\<lambda>_. Some \<lparr>skdm_part = Some (Some skdm)\<rparr>)
      (\<lambda>_. ([], [])) toy_device ''g'' ''64'' ''9'' ?stanza toy_receiver = (Some [7], st2)"
    using group_post_delivered [where generated = toy_sender and gid = "''g''" and ss = "toy_store []", unfolded s,
        OF toy_group_sound toy_signs_for l g, where fresh = "\<lambda>_. ([], [])" and stanza = ?stanza,
        OF d, where dec_e2e = "\<lambda>_. Some \<lparr>skdm_part = Some (Some skdm)\<rparr>" and sender = "''64''"] by auto
  with g d show ?thesis by blast
qed

end
