(* ===== verification/Range_Coder.thy ===== *)
theory Range_Coder
  imports Ruwa_Prelude "HOL-Library.Log_Nat"
begin

text \<open>
  The entropy coder of the MLow voice codec: \<open>RangeDecoder\<close> and \<open>RangeEncoder\<close> of
  \<open>call/mlow/rangecoder.rs\<close>, operation by operation. The \<open>u32\<close> fields are kept at their
  width, \<open>i32\<close> counters are integers. A result of \<^const>\<open>None\<close> means that the Rust function
  returns no value: an index out of range (a panic) or a normalisation that never ends.
  This theory holds the operations and what can be said of one of them on any input;
  \<open>Range_Roundtrip\<close> relates the two coders.
\<close>

section \<open>Constants\<close>

definition EC_SYM_BITS :: nat where "EC_SYM_BITS = 8"
definition EC_CODE_BITS :: nat where "EC_CODE_BITS = 32"
definition EC_SYM_MAX :: u32 where "EC_SYM_MAX = push_bit EC_SYM_BITS 1 - 1"
definition EC_CODE_TOP :: u32 where "EC_CODE_TOP = push_bit (EC_CODE_BITS - 1) 1"
definition EC_CODE_BOT :: u32 where "EC_CODE_BOT = drop_bit EC_SYM_BITS EC_CODE_TOP"
definition EC_CODE_EXTRA :: nat where "EC_CODE_EXTRA = (EC_CODE_BITS - 2) mod EC_SYM_BITS + 1"
definition EC_WINDOW_SIZE :: nat where "EC_WINDOW_SIZE = 32"
definition EC_UINT_BITS :: int where "EC_UINT_BITS = 8"
definition EC_CODE_SHIFT :: nat where "EC_CODE_SHIFT = EC_CODE_BITS - EC_SYM_BITS - 1"

lemmas ec_sizes = EC_SYM_BITS_def EC_CODE_BITS_def EC_WINDOW_SIZE_def EC_UINT_BITS_def EC_CODE_SHIFT_def
lemmas ec_raw = EC_SYM_MAX_def EC_CODE_TOP_def EC_CODE_BOT_def EC_CODE_EXTRA_def ec_sizes

lemma ec_values:
  "EC_SYM_MAX = 255" "EC_CODE_TOP = 0x80000000" "EC_CODE_BOT = 0x800000" "EC_CODE_EXTRA = 7"
  by (simp_all add: ec_raw)

lemmas ec = ec_values ec_sizes

text \<open>\<open>u32::leading_zeros\<close>, and \<open>ilog\<close>: the number of significant bits.\<close>

definition leading_zeros :: "u32 \<Rightarrow> nat" where
  "leading_zeros x = 32 - floorlog 2 (unat x)"

definition ilog :: "u32 \<Rightarrow> int" where
  "ilog x = int (EC_CODE_BITS - leading_zeros x)"

text \<open>\<open>u32::wrapping_shl\<close>: the shift amount is taken modulo the width.\<close>

definition wrapping_shl :: "u32 \<Rightarrow> nat \<Rightarrow> u32" where
  "wrapping_shl x k = push_bit (k mod 32) x"

section \<open>The decoder\<close>

record range_decoder =
  rd_buf :: bytes
  rd_storage :: u32
  rd_end_offs :: u32
  rd_end_window :: u32
  rd_nend_bits :: int
  rd_nbits_total :: int
  rd_offs :: u32
  rd_rng :: u32
  rd_val :: u32
  rd_ext :: u32
  rd_rem :: int
  rd_err :: int

definition rd_read_byte :: "range_decoder \<Rightarrow> u32 \<times> range_decoder" where
  "rd_read_byte d =
    (if rd_offs d < rd_storage d
     then (ucast (rd_buf d ! unat (rd_offs d)), d\<lparr>rd_offs := rd_offs d + 1\<rparr>)
     else (0, d))"

definition rd_read_byte_from_end :: "range_decoder \<Rightarrow> u32 \<times> range_decoder" where
  "rd_read_byte_from_end d =
    (if rd_end_offs d < rd_storage d
     then (let d = d\<lparr>rd_end_offs := rd_end_offs d + 1\<rparr>
           in (ucast (rd_buf d ! unat (rd_storage d - rd_end_offs d)), d))
     else (0, d))"

text \<open>One round of the loop of \<open>normalize\<close>.\<close>

definition rd_shift :: "range_decoder \<Rightarrow> range_decoder" where
  "rd_shift d =
    (let d = d\<lparr>rd_nbits_total := rd_nbits_total d + int EC_SYM_BITS,
               rd_rng := push_bit EC_SYM_BITS (rd_rng d)\<rparr>;
         sym0 = rd_rem d;
         (b, d) = rd_read_byte d;
         d = d\<lparr>rd_rem := uint b\<rparr>;
         sym = drop_bit (EC_SYM_BITS - EC_CODE_EXTRA) (push_bit EC_SYM_BITS sym0 OR rd_rem d)
     in d\<lparr>rd_val := (push_bit EC_SYM_BITS (rd_val d) + (EC_SYM_MAX AND NOT (word_of_int sym)))
                     AND (EC_CODE_TOP - 1)\<rparr>)"

partial_function (option) rd_normalize :: "range_decoder \<Rightarrow> range_decoder option" where
  "rd_normalize d = (if rd_rng d \<le> EC_CODE_BOT then rd_normalize (rd_shift d) else Some d)"

declare rd_normalize.simps [code]

definition new_range_decoder :: "bytes \<Rightarrow> range_decoder option" where
  "new_range_decoder buf =
    (let d = \<lparr>rd_buf = buf, rd_storage = word_of_nat (length buf), rd_end_offs = 0, rd_end_window = 0,
              rd_nend_bits = 0,
              rd_nbits_total = int EC_CODE_BITS + 1
                - int ((EC_CODE_BITS - EC_CODE_EXTRA) div EC_SYM_BITS * EC_SYM_BITS),
              rd_offs = 0, rd_rng = push_bit EC_CODE_EXTRA 1, rd_val = 0, rd_ext = 0, rd_rem = 0,
              rd_err = 0\<rparr>;
         (b, d) = rd_read_byte d;
         d = d\<lparr>rd_rem := uint b\<rparr>;
         d = d\<lparr>rd_val := rd_rng d - 1 - word_of_int (drop_bit (EC_SYM_BITS - EC_CODE_EXTRA) (rd_rem d))\<rparr>
     in rd_normalize d)"

definition rd_decode :: "u32 \<Rightarrow> range_decoder \<Rightarrow> u32 \<times> range_decoder" where
  "rd_decode ft d =
    (if ft = 0 then (0, d\<lparr>rd_err := 1, rd_ext := 1\<rparr>)
     else
       (let d = d\<lparr>rd_ext := rd_rng d div ft\<rparr>
        in if rd_ext d = 0 then (0, d\<lparr>rd_err := 1, rd_ext := 1\<rparr>)
           else (let s = rd_val d div rd_ext d in (ft - min (s + 1) ft, d))))"

definition rd_decode_bin :: "nat \<Rightarrow> range_decoder \<Rightarrow> u32 \<times> range_decoder" where
  "rd_decode_bin bits_n d =
    (let d = d\<lparr>rd_ext := drop_bit bits_n (rd_rng d)\<rparr>
     in if rd_ext d = 0 then (0, d\<lparr>rd_err := 1, rd_ext := 1\<rparr>)
        else (let s = rd_val d div rd_ext d; ft = push_bit bits_n 1
              in (ft - min (s + 1) ft, d)))"

definition rd_update :: "u32 \<Rightarrow> u32 \<Rightarrow> u32 \<Rightarrow> range_decoder \<Rightarrow> range_decoder option" where
  "rd_update fl fh ft d =
    (let s = rd_ext d * (ft - fh);
         d = d\<lparr>rd_val := rd_val d - s\<rparr>;
         d = (if 0 < fl then d\<lparr>rd_rng := rd_ext d * (fh - fl)\<rparr> else d\<lparr>rd_rng := rd_rng d - s\<rparr>)
     in rd_normalize d)"

text \<open>\<open>returning x\<close> completes an operation whose last step yields the new state.\<close>

definition returning :: "'a \<Rightarrow> 's option \<Rightarrow> ('a \<times> 's) option" where
  "returning x r = map_option (Pair x) r"

definition rd_decode_raw_symbol :: "nat \<Rightarrow> range_decoder \<Rightarrow> (u32 \<times> range_decoder) option" where
  "rd_decode_raw_symbol nbits d =
    (let (sym, d) = rd_decode_bin nbits d
     in returning sym (rd_update sym (sym + 1) (push_bit nbits 1) d))"

definition rd_bit_logp :: "nat \<Rightarrow> range_decoder \<Rightarrow> (int \<times> range_decoder) option" where
  "rd_bit_logp logp d =
    (let r = rd_rng d; dv = rd_val d; s = drop_bit logp r; ret = (if dv < s then 1 else 0);
         d = (if ret = 0 then d\<lparr>rd_val := dv - s, rd_rng := r - s\<rparr> else d\<lparr>rd_rng := s\<rparr>)
     in returning ret (rd_normalize d))"

text \<open>The loop of \<open>decode_icdf\<close>: \<open>i\<close> is the index that \<open>ret\<close> has after the increment; the
  result holds \<open>ret\<close>, \<open>t\<close> and \<open>s\<close>.\<close>

function icdf_scan :: "u32 \<Rightarrow> u32 \<Rightarrow> u8 list \<Rightarrow> u32 \<Rightarrow> nat \<Rightarrow> nat \<times> u32 \<times> u32" where
  "icdf_scan r dv icdf s i =
    (let t = s; s = r * ucast (icdf ! i)
     in if s \<le> dv \<or> length icdf - 1 \<le> i then (i, t, s) else icdf_scan r dv icdf s (Suc i))"
  by auto
termination by (relation "measure (\<lambda>(r, dv, icdf, s, i). length icdf - i)") auto

declare icdf_scan.simps [simp del]

definition rd_decode_icdf :: "u8 list \<Rightarrow> nat \<Rightarrow> range_decoder \<Rightarrow> (int \<times> range_decoder) option" where
  "rd_decode_icdf icdf ftb d =
    (if icdf = [] then Some (0, d\<lparr>rd_err := 1\<rparr>)
     else
       (let s0 = rd_rng d; dv = rd_val d; r = drop_bit ftb s0;
            (ret, t, s) = icdf_scan r dv icdf s0 0
        in returning (int ret) (rd_normalize (d\<lparr>rd_val := dv - s, rd_rng := t - s\<rparr>))))"

text \<open>The search of the three table readers: the first \<open>k\<close> from \<open>k\<close> on whose upper bound
  exceeds the target, or \<open>n - 1\<close>.\<close>

function cdf_scan :: "(nat \<Rightarrow> u32) \<Rightarrow> u32 \<Rightarrow> nat \<Rightarrow> nat \<Rightarrow> nat" where
  "cdf_scan tab target n k =
    (if k < n - 1 then (if target < tab (k + 1) then k else cdf_scan tab target n (k + 1)) else k)"
  by auto
termination by (relation "measure (\<lambda>(tab, target, n, k). n - k)") auto

declare cdf_scan.simps [simp del]

text \<open>\<open>cdf[k + 1]\<close> is out of range, and the function panics, when the search found nothing.\<close>

definition rd_decode_cdf :: "u16 list \<Rightarrow> range_decoder \<Rightarrow> (int \<times> range_decoder) option" where
  "rd_decode_cdf cdf d =
    (let n = length cdf; cdf_at = (\<lambda>i. ucast (cdf ! i)) in
     if n < 2 then Some (0, d\<lparr>rd_err := 1\<rparr>)
     else
       (let base = cdf_at 0 in
        if cdf_at (n - 1) \<le> base then Some (0, d\<lparr>rd_err := 1\<rparr>)
        else
          (let ft = cdf_at (n - 1) - base;
               (fs, d) = rd_decode ft d;
               target = base + fs;
               k = cdf_scan cdf_at target n 0
           in if n \<le> k + 1 then None
              else returning (int k) (rd_update (cdf_at k - base) (cdf_at (k + 1) - base) ft d))))"

text \<open>\<open>base.get(start + i).copied().unwrap_or(0)\<close>\<close>

definition window_at :: "u16 list \<Rightarrow> nat \<Rightarrow> nat \<Rightarrow> u32" where
  "window_at base start i = (if start + i < length base then ucast (base ! (start + i)) else 0)"

definition rd_decode_cdf_window :: "u16 list \<Rightarrow> nat \<Rightarrow> nat \<Rightarrow> range_decoder \<Rightarrow> (int \<times> range_decoder) option" where
  "rd_decode_cdf_window base start n d =
    (if n < 2 then Some (0, d\<lparr>rd_err := 1\<rparr>)
     else
       (let cbase = window_at base start 0; lst = window_at base start (n - 1) in
        if lst \<le> cbase then Some (0, d\<lparr>rd_err := 1\<rparr>)
        else
          (let ft = lst - cbase;
               (fs, d) = rd_decode ft d;
               target = cbase + fs;
               k = cdf_scan (window_at base start) target n 0
           in returning (int k)
                (rd_update (window_at base start k - cbase) (window_at base start (k + 1) - cbase) ft d))))"

text \<open>\<open>u16::from_le_bytes([bytes[2 * i], bytes[2 * i + 1]]) as u32\<close>\<close>

definition le16_at :: "bytes \<Rightarrow> nat \<Rightarrow> u32" where
  "le16_at bs i = ucast (ucast (bs ! (2 * i)) OR push_bit 8 (ucast (bs ! (2 * i + 1))) :: u16)"

definition rd_decode_cdf_le16 :: "bytes \<Rightarrow> range_decoder \<Rightarrow> (int \<times> range_decoder) option" where
  "rd_decode_cdf_le16 bs d =
    (let n = length bs div 2 in
     if n < 2 then Some (0, d\<lparr>rd_err := 1\<rparr>)
     else
       (let base = le16_at bs 0 in
        if le16_at bs (n - 1) \<le> base then Some (0, d\<lparr>rd_err := 1\<rparr>)
        else
          (let ft = le16_at bs (n - 1) - base;
               (fs, d) = rd_decode ft d;
               target = base + fs;
               k = cdf_scan (le16_at bs) target n 0
           in if length bs \<le> 2 * (k + 1) + 1 then None
              else returning (int k) (rd_update (le16_at bs k - base) (le16_at bs (k + 1) - base) ft d))))"

text \<open>The refill loop of \<open>bits_n\<close>: it reads at least one byte, and stops once more than 24 bits
  are available. \<open>available as u32\<close> is the word of the \<open>i32\<close>; a shift by it is a shift by less
  than 32.\<close>

function rd_refill :: "u32 \<Rightarrow> int \<Rightarrow> range_decoder \<Rightarrow> u32 \<times> int \<times> range_decoder" where
  "rd_refill window available d =
    (let (b, d) = rd_read_byte_from_end d;
         window = window OR push_bit (nat available) b;
         available = available + int EC_SYM_BITS
     in if int (EC_WINDOW_SIZE - EC_SYM_BITS) < available then (window, available, d)
        else rd_refill window available d)"
  by auto
termination by (relation "measure (\<lambda>(window, available, d). nat (64 - available))") (auto simp: ec)

declare rd_refill.simps [simp del]

definition rd_bits_n :: "nat \<Rightarrow> range_decoder \<Rightarrow> u32 \<times> range_decoder" where
  "rd_bits_n n d =
    (let window = rd_end_window d; available = rd_nend_bits d;
         (window, available, d) =
           (if unat (word_of_int available :: u32) < n then rd_refill window available d else (window, available, d));
         ret = window AND (push_bit n 1 - 1)
     in (ret, d\<lparr>rd_end_window := drop_bit n window, rd_nend_bits := available - int n,
               rd_nbits_total := rd_nbits_total d + int n\<rparr>))"

definition rd_decode_uint :: "u32 \<Rightarrow> range_decoder \<Rightarrow> (u32 \<times> range_decoder) option" where
  "rd_decode_uint ft0 d =
    (let ft = ft0 - 1; ftb = ilog ft in
     if EC_UINT_BITS < ftb
     then
       (let ftb = nat (ftb - EC_UINT_BITS);
            t = drop_bit ftb ft + 1;
            (s, d) = rd_decode t d
        in case rd_update s (s + 1) t d of
             None \<Rightarrow> None
           | Some d \<Rightarrow>
               (let (b, d) = rd_bits_n ftb d; v = push_bit ftb s OR b
                in if v \<le> ft then Some (v, d) else Some (ft, d\<lparr>rd_err := 1\<rparr>)))
     else
       (let ft = ft + 1; (s, d) = rd_decode ft d in returning s (rd_update s (s + 1) ft d)))"

text \<open>\<open>(63i64 - s as i64).clamp(0, 64)\<close>\<close>

definition rd_decode_64_fine_sym :: "range_decoder \<Rightarrow> (int \<times> range_decoder) option" where
  "rd_decode_64_fine_sym d =
    (let d = d\<lparr>rd_ext := drop_bit 6 (rd_rng d)\<rparr> in
     if rd_ext d = 0 then Some (0, d\<lparr>rd_err := 1, rd_ext := 1\<rparr>)
     else
       (let s = rd_val d div rd_ext d; sym = max 0 (min 64 (63 - uint s))
        in returning sym (rd_update (word_of_int sym) (word_of_int sym + 1) 64 d)))"

definition rd_tell :: "range_decoder \<Rightarrow> int" where
  "rd_tell d = rd_nbits_total d - ilog (rd_rng d)"

section \<open>The encoder\<close>

record range_encoder =
  re_buf :: bytes
  re_storage :: u32
  re_end_offs :: u32
  re_end_window :: u32
  re_nend_bits :: int
  re_nbits_total :: int
  re_offs :: u32
  re_rng :: u32
  re_val :: u32
  re_ext :: u32
  re_rem :: int
  re_err :: int

definition new_range_encoder :: "nat \<Rightarrow> range_encoder" where
  "new_range_encoder sz =
    \<lparr>re_buf = replicate sz 0, re_storage = word_of_nat sz, re_end_offs = 0, re_end_window = 0,
     re_nend_bits = 0, re_nbits_total = int EC_CODE_BITS + 1, re_offs = 0, re_rng = EC_CODE_TOP,
     re_val = 0, re_ext = 0, re_rem = - 1, re_err = 0\<rparr>"

definition re_reset :: "range_encoder \<Rightarrow> range_encoder" where
  "re_reset e =
    e\<lparr>re_end_offs := 0, re_end_window := 0, re_nend_bits := 0, re_nbits_total := int EC_CODE_BITS + 1,
      re_offs := 0, re_rng := EC_CODE_TOP, re_val := 0, re_ext := 0, re_rem := - 1, re_err := 0\<rparr>"

definition re_write_byte :: "u32 \<Rightarrow> range_encoder \<Rightarrow> range_encoder" where
  "re_write_byte b e =
    (if re_offs e + re_end_offs e < re_storage e
     then e\<lparr>re_buf := (re_buf e)[unat (re_offs e) := ucast b], re_offs := re_offs e + 1\<rparr>
     else e\<lparr>re_err := - 1\<rparr>)"

definition re_write_byte_at_end :: "u32 \<Rightarrow> range_encoder \<Rightarrow> range_encoder" where
  "re_write_byte_at_end b e =
    (if re_offs e + re_end_offs e < re_storage e
     then (let e = e\<lparr>re_end_offs := re_end_offs e + 1\<rparr>
           in e\<lparr>re_buf := (re_buf e)[unat (re_storage e - re_end_offs e) := ucast b]\<rparr>)
     else e\<lparr>re_err := - 1\<rparr>)"

text \<open>The loop of \<open>carry_out\<close> over the pending bytes.\<close>

function re_write_pending :: "u32 \<Rightarrow> range_encoder \<Rightarrow> range_encoder" where
  "re_write_pending y e =
    (let e1 = re_write_byte y e; e2 = e1\<lparr>re_ext := re_ext e1 - 1\<rparr>
     in if re_ext e2 = 0 then e2 else re_write_pending y e2)"
  by auto

lemma re_write_byte_ext [simp]:
  "re_ext (re_write_byte b e) = re_ext e" "re_rem (re_write_byte b e) = re_rem e"
  "re_rng (re_write_byte b e) = re_rng e" "re_val (re_write_byte b e) = re_val e"
  "re_storage (re_write_byte b e) = re_storage e" "re_end_offs (re_write_byte b e) = re_end_offs e"
  "length (re_buf (re_write_byte b e)) = length (re_buf e)"
  "re_nend_bits (re_write_byte b e) = re_nend_bits e" "re_end_window (re_write_byte b e) = re_end_window e"
  by (simp_all add: re_write_byte_def)

lemma unat_minus_one_less: "(w :: u32) \<noteq> 0 \<Longrightarrow> unat (w - 1) < unat w"
  by (metis diff_less less_numeral_extra(1) unat_gt_0 unat_minus_one)

termination re_write_pending
proof (relation "measure (\<lambda>(y, e). unat (re_ext e - 1))")
  fix b e e1 e2
  assume "e1 = re_write_byte b e" "e2 = e1\<lparr>re_ext := re_ext e1 - 1\<rparr>" "re_ext e2 \<noteq> 0"
  then show "((b, e2), (b, e)) \<in> measure (\<lambda>(y, e). unat (re_ext e - 1))"
    using unat_minus_one_less [of "re_ext e - 1"] by simp
qed simp

declare re_write_pending.simps [simp del]

definition re_carry_out :: "int \<Rightarrow> range_encoder \<Rightarrow> range_encoder" where
  "re_carry_out c e =
    (if word_of_int c \<noteq> EC_SYM_MAX
     then
       (let carry = drop_bit EC_SYM_BITS c;
            e = (if 0 \<le> re_rem e then re_write_byte (word_of_int (re_rem e + carry)) e else e);
            e = (if 0 < re_ext e
                 then re_write_pending (word_of_int ((uint EC_SYM_MAX + carry) AND uint EC_SYM_MAX)) e else e)
        in e\<lparr>re_rem := c AND uint EC_SYM_MAX\<rparr>)
     else e\<lparr>re_ext := re_ext e + 1\<rparr>)"

text \<open>One round of the loop of \<open>normalize\<close>.\<close>

definition re_shift :: "range_encoder \<Rightarrow> range_encoder" where
  "re_shift e =
    (let e = re_carry_out (uint (drop_bit EC_CODE_SHIFT (re_val e))) e
     in e\<lparr>re_val := push_bit EC_SYM_BITS (re_val e) AND (EC_CODE_TOP - 1),
          re_rng := push_bit EC_SYM_BITS (re_rng e),
          re_nbits_total := re_nbits_total e + int EC_SYM_BITS\<rparr>)"

partial_function (option) re_normalize :: "range_encoder \<Rightarrow> range_encoder option" where
  "re_normalize e = (if re_rng e \<le> EC_CODE_BOT then re_normalize (re_shift e) else Some e)"

declare re_normalize.simps [code]

definition re_encode :: "u32 \<Rightarrow> u32 \<Rightarrow> u32 \<Rightarrow> range_encoder \<Rightarrow> range_encoder option" where
  "re_encode fl fh ft e =
    (if ft = 0 then Some (e\<lparr>re_err := - 1\<rparr>)
     else
       (let r = re_rng e div ft;
            e = (if 0 < fl
                 then e\<lparr>re_val := re_val e + (re_rng e - r * (ft - fl)), re_rng := r * (fh - fl)\<rparr>
                 else e\<lparr>re_rng := re_rng e - r * (ft - fh)\<rparr>)
        in re_normalize e))"

definition re_bit_logp :: "int \<Rightarrow> nat \<Rightarrow> range_encoder \<Rightarrow> range_encoder option" where
  "re_bit_logp v logp e =
    (let r = re_rng e; l = re_val e; s = drop_bit logp r; r2 = r - s;
         e = (if v \<noteq> 0 then e\<lparr>re_val := l + r2, re_rng := s\<rparr> else e\<lparr>re_rng := r2\<rparr>)
     in re_normalize e)"

text \<open>An index outside of the table is a panic.\<close>

definition re_encode_icdf :: "int \<Rightarrow> u8 list \<Rightarrow> nat \<Rightarrow> range_encoder \<Rightarrow> range_encoder option" where
  "re_encode_icdf s icdf ftb e =
    (if s < 0 \<or> length icdf \<le> nat s then None
     else
       (let r = drop_bit ftb (re_rng e);
            e = (if 0 < s
                 then e\<lparr>re_val := re_val e + (re_rng e - r * ucast (icdf ! nat (s - 1))),
                        re_rng := r * ucast (icdf ! nat (s - 1) - icdf ! nat s)\<rparr>
                 else e\<lparr>re_rng := re_rng e - r * ucast (icdf ! nat s)\<rparr>)
        in re_normalize e))"

definition re_encode_cdf :: "int \<Rightarrow> u16 list \<Rightarrow> range_encoder \<Rightarrow> range_encoder option" where
  "re_encode_cdf s cdf e =
    (let n = length cdf; cdf_at = (\<lambda>i. ucast (cdf ! i)) in
     if n < 2 \<or> s < 0 \<or> n \<le> nat (s + 1) then Some (e\<lparr>re_err := - 1\<rparr>)
     else
       (let base = cdf_at 0 in
        if cdf_at (n - 1) \<le> base then Some (e\<lparr>re_err := - 1\<rparr>)
        else
          (let ft = cdf_at (n - 1) - base
           in re_encode (cdf_at (nat s) - base) (cdf_at (nat (s + 1)) - base) ft e)))"

definition re_encode_cdf_window :: "int \<Rightarrow> u16 list \<Rightarrow> nat \<Rightarrow> nat \<Rightarrow> range_encoder \<Rightarrow> range_encoder option" where
  "re_encode_cdf_window s base start n e =
    (if n < 2 \<or> s < 0 \<or> n \<le> nat (s + 1) then Some (e\<lparr>re_err := - 1\<rparr>)
     else
       (let cbase = window_at base start 0; lst = window_at base start (n - 1) in
        if lst \<le> cbase then Some (e\<lparr>re_err := - 1\<rparr>)
        else
          (let ft = lst - cbase
           in re_encode (window_at base start (nat s) - cbase) (window_at base start (nat (s + 1)) - cbase) ft e)))"

text \<open>The flush loop of \<open>bits_n\<close>.\<close>

function re_flush_window :: "u32 \<Rightarrow> int \<Rightarrow> range_encoder \<Rightarrow> u32 \<times> int \<times> range_encoder" where
  "re_flush_window window used e =
    (let e = re_write_byte_at_end (window AND EC_SYM_MAX) e;
         window = drop_bit EC_SYM_BITS window;
         used = used - int EC_SYM_BITS
     in if used < int EC_SYM_BITS then (window, used, e) else re_flush_window window used e)"
  by auto
termination by (relation "measure (\<lambda>(window, used, e). nat used)") (auto simp: ec)

declare re_flush_window.simps [simp del]

definition re_bits_n :: "u32 \<Rightarrow> nat \<Rightarrow> range_encoder \<Rightarrow> range_encoder" where
  "re_bits_n fl n e =
    (let window = re_end_window e; used = re_nend_bits e;
         (window, used, e) =
           (if int EC_WINDOW_SIZE < used + int n then re_flush_window window used e else (window, used, e));
         window = window OR wrapping_shl fl (nat used);
         used = used + int n
     in e\<lparr>re_end_window := window, re_nend_bits := used, re_nbits_total := re_nbits_total e + int n\<rparr>)"

definition re_encode_uint :: "u32 \<Rightarrow> u32 \<Rightarrow> range_encoder \<Rightarrow> range_encoder option" where
  "re_encode_uint fl ft0 e =
    (let ft = ft0 - 1; ftb = ilog ft in
     if EC_UINT_BITS < ftb
     then
       (let ftb = nat (ftb - EC_UINT_BITS); t = drop_bit ftb ft + 1
        in case re_encode (drop_bit ftb fl) (drop_bit ftb fl + 1) t e of
             None \<Rightarrow> None
           | Some e \<Rightarrow> Some (re_bits_n (fl AND (push_bit ftb 1 - 1)) ftb e))
     else re_encode fl (fl + 1) (ft + 1) e)"

definition re_encode_raw_symbol :: "u32 \<Rightarrow> nat \<Rightarrow> range_encoder \<Rightarrow> range_encoder option" where
  "re_encode_raw_symbol y nbits e = re_encode y (y + 1) (push_bit nbits 1) e"

definition re_encode_64_fine_sym :: "int \<Rightarrow> range_encoder \<Rightarrow> range_encoder option" where
  "re_encode_64_fine_sym y e = re_encode (word_of_int y) (word_of_int y + 1) 64 e"

section \<open>Finishing the stream\<close>

text \<open>The loops of \<open>done\<close>: the bits of \<open>end\<close> that decide the interval, then the whole bytes
  of the raw-bit window. What is left of the window goes into the last free byte.\<close>

function re_flush_end :: "u32 \<Rightarrow> int \<Rightarrow> range_encoder \<Rightarrow> range_encoder" where
  "re_flush_end en l e =
    (if 0 < l
     then re_flush_end (push_bit EC_SYM_BITS en AND (EC_CODE_TOP - 1)) (l - int EC_SYM_BITS)
            (re_carry_out (uint (drop_bit EC_CODE_SHIFT en)) e)
     else e)"
  by auto
termination by (relation "measure (\<lambda>(en, l, e). nat l)") (auto simp: ec)

function re_flush_raw :: "u32 \<Rightarrow> int \<Rightarrow> range_encoder \<Rightarrow> u32 \<times> int \<times> range_encoder" where
  "re_flush_raw window used e =
    (if int EC_SYM_BITS \<le> used
     then re_flush_raw (drop_bit EC_SYM_BITS window) (used - int EC_SYM_BITS)
            (re_write_byte_at_end (window AND EC_SYM_MAX) e)
     else (window, used, e))"
  by auto
termination by (relation "measure (\<lambda>(window, used, e). nat used)") (auto simp: ec)

declare re_flush_end.simps [simp del] re_flush_raw.simps [simp del]

text \<open>The bits that \<open>done\<close> sends to fix the interval: their count \<open>l\<close> and \<open>end\<close>.\<close>

definition re_final_bits :: "range_encoder \<Rightarrow> int \<times> u32" where
  "re_final_bits e =
    (let l = int EC_CODE_BITS - ilog (re_rng e);
         msk = drop_bit (nat l mod 32) (EC_CODE_TOP - 1);
         en = (re_val e + msk) AND NOT msk
     in if re_val e + re_rng e \<le> en OR msk
        then (let l = l + 1; msk = drop_bit 1 msk in (l, (re_val e + msk) AND NOT msk))
        else (l, en))"

definition re_zero_gap :: "range_encoder \<Rightarrow> range_encoder" where
  "re_zero_gap e =
    e\<lparr>re_buf := fold (\<lambda>i b. b[i := 0]) [unat (re_offs e)..<unat (re_storage e - re_end_offs e)] (re_buf e)\<rparr>"

definition re_done :: "range_encoder \<Rightarrow> range_encoder" where
  "re_done e =
    (let (l, en) = re_final_bits e;
         e = re_flush_end en l e;
         e = (if 0 \<le> re_rem e \<or> 0 < re_ext e then re_carry_out 0 e else e);
         (window, used, e) = re_flush_raw (re_end_window e) (re_nend_bits e) e
     in if re_err e = 0
        then
          (let e = re_zero_gap e
           in if 0 < used
              then if re_storage e - re_offs e \<le> re_end_offs e then e\<lparr>re_err := - 1\<rparr>
                   else (let i = unat (re_storage e - re_end_offs e - 1)
                         in e\<lparr>re_buf := (re_buf e)[i := re_buf e ! i OR ucast window]\<rparr>)
              else e)
        else e)"

definition re_consumed_len :: "range_encoder \<Rightarrow> nat" where
  "re_consumed_len e = unat (re_offs e + re_end_offs e)"

section \<open>The words of the coder as numbers\<close>

lemma unat_and_mask: "unat ((w :: u32) AND mask n) = unat w mod 2 ^ n"
  by (simp flip: take_bit_eq_mask take_bit_eq_mod add: unsigned_take_bit_eq)

lemma unat_and_255: "unat ((w :: u32) AND 255) = unat w mod 256"
  using unat_and_mask [of w 8] by (simp add: mask_numeral)

lemma unat_and_top: "unat ((w :: u32) AND (EC_CODE_TOP - 1)) = unat w mod 2 ^ 31"
  using unat_and_mask [of w 31] by (simp add: mask_numeral ec)

lemma unat_255_and_not: "unat (EC_SYM_MAX AND NOT (w :: u32)) = 255 - unat w mod 256"
proof -
  have "EC_SYM_MAX AND NOT w = EC_SYM_MAX AND NOT (w AND 255)"
    by (rule bit_word_eqI) (auto simp: ec bit_simps)
  also have "\<dots> = 255 - (w AND 255)"
    unfolding ec by (rule disjunctive_diff [symmetric]) (auto simp: bit_simps)
  also have "unat \<dots> = 255 - unat (w AND 255)"
    by (subst unat_sub) (auto simp: word_le_nat_alt unat_and_255)
  finally show ?thesis by (simp add: unat_and_255)
qed

lemma unat_push_8: "unat (x :: u32) < 2 ^ 24 \<Longrightarrow> unat (push_bit 8 x) = 256 * unat x"
  by (simp add: push_bit_eq_mult unat_word_ariths(2))

lemma or_256: "0 \<le> (a :: int) \<Longrightarrow> 0 \<le> b \<Longrightarrow> b < 256 \<Longrightarrow> push_bit 8 a OR b = 256 * a + b"
proof -
  assume "0 \<le> a" and b: "0 \<le> b" "b < 256"
  have "take_bit 8 b = b" using b by (intro take_bit_int_eq_self) simp_all
  then have "push_bit 8 a AND b = 0" by (auto intro!: bit_eqI simp: bit_simps) (metis bit_take_bit_iff linorder_not_less)
  then show ?thesis by (simp add: disjunctive_add_eq_or [symmetric] push_bit_eq_mult)
qed

section \<open>The decoder on any input\<close>

text \<open>Between two operations the range is wide and the value inside of it; inside of an
  operation it may be narrow, but it is not empty.\<close>

definition rd_pre :: "range_decoder \<Rightarrow> bool" where
  "rd_pre d \<longleftrightarrow> 0 < unat (rd_rng d) \<and> unat (rd_rng d) \<le> 2 ^ 31 \<and> rd_val d < rd_rng d \<and>
    0 \<le> rd_rem d \<and> rd_rem d < 256"

definition rd_ok :: "range_decoder \<Rightarrow> bool" where
  "rd_ok d \<longleftrightarrow> rd_pre d \<and> EC_CODE_BOT < rd_rng d"

lemma rd_read_byte_less: "unat (fst (rd_read_byte d)) < 256"
proof -
  have "unat (x :: u8) < 256" for x using unsigned_less [of x] by simp
  moreover have "unat (ucast x :: u32) = unat x" for x :: u8
    by (simp add: unsigned_ucast_eq take_bit_nat_eq_self_iff order.strict_trans [OF unsigned_less])
  ultimately show ?thesis by (simp add: rd_read_byte_def)
qed

lemma rd_read_byte_uint: "uint (fst (rd_read_byte d)) < 256"
  using rd_read_byte_less [of d] by (metis of_nat_less_iff of_nat_numeral uint_nat)

lemma rd_read_byte_fields [simp]:
  "rd_rng (snd (rd_read_byte d)) = rd_rng d" "rd_val (snd (rd_read_byte d)) = rd_val d"
  "rd_ext (snd (rd_read_byte d)) = rd_ext d" "rd_err (snd (rd_read_byte d)) = rd_err d"
  "rd_rem (snd (rd_read_byte d)) = rd_rem d" "rd_buf (snd (rd_read_byte d)) = rd_buf d"
  "rd_storage (snd (rd_read_byte d)) = rd_storage d"
  by (simp_all add: rd_read_byte_def)

lemma rd_shift_eq:
  "rd_shift d = (snd (rd_read_byte d))
    \<lparr>rd_nbits_total := rd_nbits_total d + 8, rd_rng := push_bit 8 (rd_rng d),
     rd_rem := uint (fst (rd_read_byte d)),
     rd_val := (push_bit 8 (rd_val d) + (EC_SYM_MAX AND
        NOT (word_of_int (drop_bit 1 (push_bit 8 (rd_rem d) OR uint (fst (rd_read_byte d)))))))
      AND (EC_CODE_TOP - 1)\<rparr>"
  by (simp add: rd_shift_def rd_read_byte_def Let_def case_prod_beta EC_SYM_BITS_def ec_values(4))

lemma rd_shift_fields [simp]:
  "rd_ext (rd_shift d) = rd_ext d" "rd_err (rd_shift d) = rd_err d"
  "rd_buf (rd_shift d) = rd_buf d" "rd_storage (rd_shift d) = rd_storage d"
  "rd_rem (rd_shift d) = uint (fst (rd_read_byte d))"
  "rd_offs (rd_shift d) = rd_offs (snd (rd_read_byte d))"
  by (simp_all add: rd_shift_eq)

lemma rd_shift_rng: "rd_rng d \<le> EC_CODE_BOT \<Longrightarrow> unat (rd_rng (rd_shift d)) = 256 * unat (rd_rng d)"
  using unat_push_8 [of "rd_rng d"]
  by (simp add: rd_shift_eq word_le_nat_alt ec)

lemma unat_shift_in:
  assumes "unat (v :: u32) < 2 ^ 23" "unat x \<le> 255"
  shows "unat ((push_bit 8 v + x) AND (EC_CODE_TOP - 1)) = 256 * unat v + unat x"
proof -
  have "256 * unat v + unat x < 2 ^ 31" "unat v < 2 ^ 24" using assms by simp_all
  then show ?thesis by (simp add: unat_and_top unat_word_ariths(1) unat_push_8)
qed

lemma rd_shift_val:
  assumes "rd_rng d \<le> EC_CODE_BOT" "rd_val d < rd_rng d" "0 \<le> rd_rem d" "rd_rem d < 256"
  shows "unat (rd_val (rd_shift d)) =
    256 * unat (rd_val d) + (255 - (256 * nat (rd_rem d) + unat (fst (rd_read_byte d))) div 2 mod 256)"
proof -
  let ?b = "fst (rd_read_byte d)"
  let ?n = "(256 * nat (rd_rem d) + unat ?b) div 2"
  have b: "unat ?b < 256" by (rule rd_read_byte_less)
  have v: "unat (rd_val d) < 2 ^ 23" "unat (rd_val d) < 2 ^ 24"
    using assms(1,2) by (simp_all add: word_le_nat_alt word_less_nat_alt ec)
  have ub: "uint ?b = int (unat ?b)" by simp
  have "push_bit 8 (rd_rem d) OR uint ?b = int (256 * nat (rd_rem d) + unat ?b)"
    using or_256 [OF assms(3), of "int (unat ?b)"] assms(3) b by (simp only: ub of_nat_add of_nat_mult)
  then have "drop_bit 1 (push_bit 8 (rd_rem d) OR uint ?b) = int ?n"
    by (simp only: drop_bit_eq_div zdiv_int power_one_right of_nat_numeral)
  moreover have "?n < 2 ^ 32" using assms(4) b by simp
  ultimately have "unat (word_of_int (drop_bit 1 (push_bit 8 (rd_rem d) OR uint ?b)) :: u32) = ?n"
    by (simp add: unat_of_nat)
  then have m: "unat (EC_SYM_MAX AND NOT (word_of_int (drop_bit 1 (push_bit 8 (rd_rem d) OR uint ?b)))) = 255 - ?n mod 256"
    by (simp add: unat_255_and_not)
  then show ?thesis by (simp add: rd_shift_eq unat_shift_in [OF v(1)])
qed

lemma rd_shift_pre:
  assumes "rd_pre d" "rd_rng d \<le> EC_CODE_BOT"
  shows "rd_pre (rd_shift d)" "unat (rd_rng d) < unat (rd_rng (rd_shift d))"
proof -
  have "unat (rd_rng (rd_shift d)) = 256 * unat (rd_rng d)" using assms(2) by (rule rd_shift_rng)
  moreover have "unat (rd_val (rd_shift d)) < 256 * unat (rd_val d) + 256"
    using rd_shift_val [of d] assms by (simp add: rd_pre_def)
  moreover have "unat (rd_rng d) \<le> 2 ^ 23" "unat (rd_val d) < unat (rd_rng d)" "0 < unat (rd_rng d)"
    using assms by (simp_all add: rd_pre_def word_le_nat_alt word_less_nat_alt ec)
  ultimately show "rd_pre (rd_shift d)" "unat (rd_rng d) < unat (rd_rng (rd_shift d))"
    using rd_read_byte_uint [of d] by (auto simp: rd_pre_def word_less_nat_alt)
qed

lemma rd_normalize_ok:
  "rd_pre d \<Longrightarrow> \<exists>d'. rd_normalize d = Some d' \<and> rd_ok d' \<and> rd_err d' = rd_err d \<and> rd_ext d' = rd_ext d"
proof (induction "2 ^ 31 - unat (rd_rng d)" arbitrary: d rule: less_induct)
  case less
  show ?case
  proof (cases "rd_rng d \<le> EC_CODE_BOT")
    case True
    from less.prems have "unat (rd_rng d) \<le> 2 ^ 31" "unat (rd_rng (rd_shift d)) \<le> 2 ^ 31"
      using rd_shift_pre [OF less.prems True] by (simp_all add: rd_pre_def)
    then have "\<exists>d'. rd_normalize (rd_shift d) = Some d' \<and> rd_ok d' \<and> rd_err d' = rd_err (rd_shift d) \<and>
        rd_ext d' = rd_ext (rd_shift d)"
      using rd_shift_pre [OF less.prems True] by (intro less.hyps) simp_all
    with True show ?thesis by (simp add: rd_normalize.simps [of d])
  next
    case False
    then have "rd_normalize d = Some d" by (subst rd_normalize.simps) simp
    with False less.prems show ?thesis by (simp add: rd_ok_def not_le)
  qed
qed

text \<open>The range of a state with an empty one stays empty: the loop never ends.\<close>

lemma rd_normalize_empty: "rd_rng d = 0 \<Longrightarrow> rd_normalize d = None"
proof -
  have "rd_rng d \<noteq> 0" if "rd_normalize d = Some d'" for d d'
  proof (rule rd_normalize.raw_induct [OF _ that])
    fix f and x y :: range_decoder
    assume ih: "\<And>x y. f x = Some y \<Longrightarrow> rd_rng x \<noteq> 0"
      and x: "(if rd_rng x \<le> EC_CODE_BOT then f (rd_shift x) else Some x) = Some y"
    show "rd_rng x \<noteq> 0"
    proof (cases "rd_rng x \<le> EC_CODE_BOT")
      case True
      with x ih have "rd_rng (rd_shift x) \<noteq> 0" by auto
      then show ?thesis by (auto simp: rd_shift_eq)
    next
      case False
      then show ?thesis by (auto simp: ec)
    qed
  qed
  then show "rd_rng d = 0 \<Longrightarrow> rd_normalize d = None" by (cases "rd_normalize d") auto
qed

section \<open>Cutting a range\<close>

text \<open>What both coders compute of a range of size \<open>R\<close> and a symbol that takes \<open>[L, H)\<close> of a total
  of \<open>F\<close>: where the part of the symbol starts, and its size.\<close>

definition cut_low :: "nat \<Rightarrow> nat \<Rightarrow> nat \<Rightarrow> nat" where
  "cut_low R F L = (if 0 < L then R - R div F * (F - L) else 0)"

definition cut_size :: "nat \<Rightarrow> nat \<Rightarrow> nat \<Rightarrow> nat \<Rightarrow> nat" where
  "cut_size R F L H = (if 0 < L then R div F * (H - L) else R - R div F * (F - H))"

lemma div_mult_le_nat: "(R :: nat) div F * k \<le> R" if "k \<le> F"
  using that by (metis div_times_less_eq_dividend mult_le_mono2 order_trans)

lemma cut_total:
  assumes "L < H" "H \<le> F"
  shows "cut_low R F L + cut_size R F L H = R - R div F * (F - H)"
proof (cases "0 < L")
  case True
  have "R div F * (F - L) = R div F * (F - H) + R div F * (H - L)"
    using assms by (simp flip: add_mult_distrib2)
  moreover have "R div F * (F - L) \<le> R" by (rule div_mult_le_nat) simp
  ultimately show ?thesis using True by (simp add: cut_low_def cut_size_def)
qed (simp add: cut_low_def cut_size_def)

lemma cut_size_pos: "0 < F \<Longrightarrow> F \<le> R \<Longrightarrow> L < H \<Longrightarrow> H \<le> F \<Longrightarrow> 0 < cut_size R F L H"
proof -
  assume a: "0 < F" "F \<le> R" "L < H" "H \<le> F"
  then have r: "0 < R div F" by (simp add: div_greater_zero_iff)
  have "R div F * (F - H) < R div F * F" using a r by (intro mult_strict_left_mono) simp_all
  also have "\<dots> \<le> R" by (rule div_mult_le_nat) simp
  finally show "0 < cut_size R F L H" using a r by (auto simp: cut_size_def)
qed

text \<open>The decoder sees the distance \<open>v\<close> to the top of the range: the symbol it finds is the one
  in whose part the distance lies.\<close>

definition found_symbol :: "nat \<Rightarrow> nat \<Rightarrow> nat \<Rightarrow> nat" where
  "found_symbol R F v = F - min (v div (R div F) + 1) F"

lemma found_symbol_less: "0 < F \<Longrightarrow> found_symbol R F v < F"
  by (simp add: found_symbol_def min_def)

lemma found_symbol_cut:
  assumes "0 < F" "F \<le> R" "v < R" "L < H" "H \<le> F" "L \<le> found_symbol R F v" "found_symbol R F v < H"
  shows "R div F * (F - H) \<le> v" "v - R div F * (F - H) < cut_size R F L H"
proof -
  let ?r = "R div F"
  have r: "0 < ?r" using assms by (simp add: div_greater_zero_iff)
  have "F - H < v div ?r + 1" using assms(4,5,7) by (auto simp: found_symbol_def min_def split: if_splits)
  then have "F - H \<le> v div ?r" by simp
  then show le: "?r * (F - H) \<le> v" using r by (metis div_mult_le_nat le_trans mult.commute mult_le_mono2 div_times_less_eq_dividend)
  show "v - ?r * (F - H) < cut_size R F L H"
  proof (cases "0 < L")
    case True
    have "v div ?r + 1 \<le> F - L" using True assms(4-6) by (auto simp: found_symbol_def min_def split: if_splits)
    then have "v div ?r < F - L" by simp
    then have "v < ?r * (F - L)" using r by (simp add: div_less_iff_less_mult mult.commute)
    moreover have "?r * (F - L) = ?r * (F - H) + ?r * (H - L)"
      using assms(4,5) by (simp flip: add_mult_distrib2)
    ultimately show ?thesis using True le by (simp add: cut_size_def)
  next
    case False
    then show ?thesis using assms(3) le by (simp add: cut_size_def)
  qed
qed

lemma found_symbol_in:
  assumes "0 < F" "F \<le> R" "L < H" "H \<le> F" "x < R" "cut_low R F L \<le> x" "x < cut_low R F L + cut_size R F L H"
  shows "L \<le> found_symbol R F (R - 1 - x) \<and> found_symbol R F (R - 1 - x) < H"
proof -
  let ?r = "R div F" and ?v = "R - 1 - x"
  have r: "0 < ?r" using assms by (simp add: div_greater_zero_iff)
  have le: "?r * (F - H) \<le> R" "?r * (F - L) \<le> R" by (auto intro: div_mult_le_nat)
  have "x < R - ?r * (F - H)" using assms(7) by (simp add: cut_total [OF assms(3,4)])
  then have "?r * (F - H) \<le> ?v" using le(1) by linarith
  then have "F - H \<le> ?v div ?r" using r by (simp add: less_eq_div_iff_mult_less_eq mult.commute)
  then have "found_symbol R F ?v < H" using assms(3,4) by (auto simp: found_symbol_def min_def)
  moreover have "L \<le> found_symbol R F ?v"
  proof (cases "0 < L")
    case True
    then have "?v < ?r * (F - L)" using assms(5,6) le(2) by (simp add: cut_low_def)
    then have "?v div ?r < F - L" using r by (simp add: div_less_iff_less_mult mult.commute)
    then show ?thesis by (auto simp: found_symbol_def min_def)
  qed simp
  ultimately show ?thesis by simp
qed

section \<open>Decoding a symbol\<close>

lemma rd_okD:
  assumes "rd_ok d"
  shows "2 ^ 23 < unat (rd_rng d)" "unat (rd_rng d) \<le> 2 ^ 31" "unat (rd_val d) < unat (rd_rng d)"
    "0 \<le> rd_rem d" "rd_rem d < 256"
  using assms by (simp_all add: rd_ok_def rd_pre_def word_less_nat_alt ec)

lemma unat_u32: "unat (w :: u32) < 2 ^ 32"
proof -
  have "unat w < 2 ^ LENGTH(32)" by (rule unsigned_less)
  then show ?thesis by simp
qed

lemma unat_succ: "unat (w :: u32) < 2 ^ 31 + 1 \<Longrightarrow> unat (w + 1) = unat w + 1"
  by (simp add: unat_word_ariths(1))

lemma unat_min: "unat (min (a :: u32) b) = min (unat a) (unat b)"
  by (simp add: min_def word_le_nat_alt)

lemma rd_decode_ok:
  assumes ok: "rd_ok d" and ft: "0 < unat ft" "unat ft \<le> 2 ^ 23"
  obtains fs where "rd_decode ft d = (fs, d\<lparr>rd_ext := rd_rng d div ft\<rparr>)"
    "unat fs = found_symbol (unat (rd_rng d)) (unat ft) (unat (rd_val d))"
proof -
  let ?s = "rd_val d div (rd_rng d div ft)"
  have ft0: "ft \<noteq> 0" using ft by auto
  have r: "0 < unat (rd_rng d) div unat ft" using rd_okD(1) [OF ok] ft by (simp add: div_greater_zero_iff)
  then have e0: "rd_rng d div ft \<noteq> 0" by (metis unat_0 unat_div less_irrefl)
  have "unat ?s \<le> unat (rd_val d)" by (simp add: unat_div)
  then have s: "unat (?s + 1) = unat ?s + 1" using rd_okD(2,3) [OF ok] by (intro unat_succ) simp
  have le: "min (?s + 1) ft \<le> ft" by simp
  show ?thesis
  proof (rule that)
    show "rd_decode ft d = (ft - min (?s + 1) ft, d\<lparr>rd_ext := rd_rng d div ft\<rparr>)"
      using ft0 e0 by (simp add: rd_decode_def)
    show "unat (ft - min (?s + 1) ft) = found_symbol (unat (rd_rng d)) (unat ft) (unat (rd_val d))"
      by (simp only: unat_sub [OF le] unat_min s unat_div found_symbol_def)
  qed
qed

text \<open>\<open>update\<close> cuts the range of the symbol out.\<close>

lemma rd_update_cut:
  fixes d :: range_decoder and fl fh ft :: u32
  defines "R \<equiv> unat (rd_rng d)" and "F \<equiv> unat ft" and "L \<equiv> unat fl" and "H \<equiv> unat fh"
  assumes lh: "L < H" "H \<le> F"
    and low: "R div F * (F - H) \<le> unat (rd_val d)" "unat (rd_val d) < R"
  obtains v r where "rd_update fl fh ft (d\<lparr>rd_ext := rd_rng d div ft\<rparr>) =
      rd_normalize (d\<lparr>rd_ext := rd_rng d div ft, rd_val := v, rd_rng := r\<rparr>)"
    "unat v = unat (rd_val d) - R div F * (F - H)" "unat r = cut_size R F L H"
proof -
  let ?e = "rd_rng d div ft"
  have le: "fh \<le> ft" "fl \<le> fh" using lh by (simp_all add: word_le_nat_alt F_def L_def H_def)
  have mult: "unat (?e * (a - b)) = R div F * (unat a - unat b)" if "b \<le> a" "a \<le> ft" for a b
  proof -
    have "R div F * (unat a - unat b) \<le> R" using that(2)
      by (intro div_mult_le_nat) (simp add: F_def word_le_nat_alt)
    then have "R div F * (unat a - unat b) < 2 ^ 32" using unat_u32 [of "rd_rng d"] by (simp add: R_def)
    then show ?thesis using that(1) by (simp add: unat_word_ariths(2) unat_sub unat_div R_def F_def)
  qed
  let ?s = "?e * (ft - fh)"
  have s: "unat ?s = R div F * (F - H)" using mult [of fh ft] le by (simp add: F_def H_def)
  have sR: "?s \<le> rd_rng d" "?s \<le> rd_val d" using low s by (simp_all add: word_le_nat_alt R_def)
  show ?thesis
  proof (rule that)
    show "rd_update fl fh ft (d\<lparr>rd_ext := ?e\<rparr>) =
        rd_normalize (d\<lparr>rd_ext := ?e, rd_val := rd_val d - ?s, rd_rng := (if 0 < fl then ?e * (fh - fl) else rd_rng d - ?s)\<rparr>)"
      by (simp add: rd_update_def Let_def)
    show "unat (rd_val d - ?s) = unat (rd_val d) - R div F * (F - H)" using sR(2) s by (simp add: unat_sub)
    show "unat (if 0 < fl then ?e * (fh - fl) else rd_rng d - ?s) = cut_size R F L H"
      using mult [OF le(2,1)] sR(1) s
      by (auto simp: cut_size_def L_def H_def R_def unat_sub unat_gt_0 word_neq_0_conv)
  qed
qed

lemma cdf_scan_spec:
  "k < n \<Longrightarrow> k \<le> cdf_scan tab target n k \<and> cdf_scan tab target n k \<le> n - 1 \<and>
    (cdf_scan tab target n k < n - 1 \<longrightarrow> target < tab (cdf_scan tab target n k + 1)) \<and>
    (\<forall>i. k < i \<and> i \<le> cdf_scan tab target n k \<longrightarrow> tab i \<le> target)"
proof (induction tab target n k rule: cdf_scan.induct)
  case (1 tab target n k)
  show ?case
  proof (cases "k < n - 1 \<and> \<not> target < tab (k + 1)")
    case True
    have "k + 1 < n" using True by linarith
    with "1.IH" True have ih: "k + 1 \<le> cdf_scan tab target n (k + 1) \<and> cdf_scan tab target n (k + 1) \<le> n - 1 \<and>
      (cdf_scan tab target n (k + 1) < n - 1 \<longrightarrow> target < tab (cdf_scan tab target n (k + 1) + 1)) \<and>
      (\<forall>i. k + 1 < i \<and> i \<le> cdf_scan tab target n (k + 1) \<longrightarrow> tab i \<le> target)"
      by blast
    have eq: "cdf_scan tab target n k = cdf_scan tab target n (k + 1)"
      using True by (subst cdf_scan.simps) simp
    have "tab i \<le> target" if "k < i" "i \<le> cdf_scan tab target n (k + 1)" for i
      using that ih True by (cases "i = k + 1") auto
    then show ?thesis using ih unfolding eq by simp
  next
    case False
    then show ?thesis using "1.prems" by (subst (1 2 3 4 5) cdf_scan.simps) auto
  qed
qed

text \<open>A cumulative table: ascending, and not all of it the same.\<close>

definition cdf_table :: "u16 list \<Rightarrow> bool" where
  "cdf_table cdf \<longleftrightarrow> 2 \<le> length cdf \<and> sorted cdf \<and> cdf ! 0 < cdf ! (length cdf - 1)"

definition cdf_total :: "u16 list \<Rightarrow> nat" where
  "cdf_total cdf = unat (cdf ! (length cdf - 1)) - unat (cdf ! 0)"

definition cdf_bound :: "u16 list \<Rightarrow> nat \<Rightarrow> nat" where
  "cdf_bound cdf k = unat (cdf ! k) - unat (cdf ! 0)"

lemma unat_u16: "unat (w :: u16) < 2 ^ 16"
proof -
  have "unat w < 2 ^ LENGTH(16)" by (rule unsigned_less)
  then show ?thesis by simp
qed

lemma unat_ucast_16: "unat (ucast (w :: u16) :: u32) = unat w"
  using unat_u16 [of w] by (simp add: unsigned_ucast_eq take_bit_nat_eq_self_iff)

lemma cdf_mono: "cdf_table cdf \<Longrightarrow> i \<le> j \<Longrightarrow> j < length cdf \<Longrightarrow> unat (cdf ! i) \<le> unat (cdf ! j)"
  unfolding cdf_table_def using sorted_nth_mono [of cdf i j] by (simp add: word_le_nat_alt)

lemma cdf_total_pos: "cdf_table cdf \<Longrightarrow> 0 < cdf_total cdf"
  by (simp add: cdf_table_def cdf_total_def word_less_nat_alt)

lemma cdf_bound_unat:
  "cdf_table cdf \<Longrightarrow> k < length cdf \<Longrightarrow> unat (ucast (cdf ! k) - ucast (cdf ! 0) :: u32) = cdf_bound cdf k"
  using cdf_mono [of cdf 0 k] by (simp add: unat_sub word_le_nat_alt unat_ucast_16 cdf_bound_def)

lemma cdf_bound_le: "cdf_table cdf \<Longrightarrow> i \<le> j \<Longrightarrow> j < length cdf \<Longrightarrow> cdf_bound cdf i \<le> cdf_bound cdf j"
  using cdf_mono [of cdf i j] by (simp add: cdf_bound_def)

lemma cdf_bound_total: "cdf_table cdf \<Longrightarrow> k < length cdf \<Longrightarrow> cdf_bound cdf k \<le> cdf_total cdf"
  using cdf_mono [of cdf k "length cdf - 1"]
  by (auto simp: cdf_bound_def cdf_total_def cdf_table_def intro!: diff_le_mono)

lemma rd_decode_cdf_cut:
  assumes ok: "rd_ok d" and t: "cdf_table cdf"
  defines "R \<equiv> unat (rd_rng d)" and "F \<equiv> cdf_total cdf"
  obtains k fs where "k + 1 < length cdf"
    "rd_decode_cdf cdf d = returning (int k) (rd_update (ucast (cdf ! k) - ucast (cdf ! 0))
       (ucast (cdf ! (k + 1)) - ucast (cdf ! 0)) (ucast (cdf ! (length cdf - 1)) - ucast (cdf ! 0))
       (d\<lparr>rd_ext := rd_rng d div (ucast (cdf ! (length cdf - 1)) - ucast (cdf ! 0))\<rparr>))"
    "cdf_bound cdf k \<le> found_symbol R F (unat (rd_val d))"
    "found_symbol R F (unat (rd_val d)) < cdf_bound cdf (k + 1)"
proof -
  let ?n = "length cdf" and ?tab = "\<lambda>i. ucast (cdf ! i) :: u32"
  let ?ft = "?tab (?n - 1) - ?tab 0"
  have n: "2 \<le> ?n" and asc: "?tab 0 < ?tab (?n - 1)"
    using t by (simp_all add: cdf_table_def word_less_nat_alt unat_ucast_16)
  have ft: "unat ?ft = F" unfolding F_def cdf_total_def
    using cdf_bound_unat [OF t, of "?n - 1"] n by (simp add: cdf_bound_def)
  have F: "0 < F" "F \<le> 2 ^ 16" using cdf_total_pos [OF t] unat_u16 [of "cdf ! (?n - 1)"] 
    by (simp_all add: F_def cdf_total_def)
  obtain fs where dec: "rd_decode ?ft d = (fs, d\<lparr>rd_ext := rd_rng d div ?ft\<rparr>)"
    and fs0: "unat fs = found_symbol (unat (rd_rng d)) (unat ?ft) (unat (rd_val d))"
    by (rule rd_decode_ok [OF ok, of ?ft]) (use F in \<open>simp_all only: ft\<close>, simp)
  have fs: "unat fs = found_symbol R F (unat (rd_val d))" using fs0 by (simp only: ft R_def)
  have fsF: "unat fs < F" unfolding fs by (rule found_symbol_less [OF F(1)])
  let ?target = "?tab 0 + fs"
  have target: "unat ?target = unat (cdf ! 0) + unat fs"
    using fsF F unat_u16 [of "cdf ! 0"] by (simp add: unat_word_ariths(1) unat_ucast_16)
  define k where "k = cdf_scan ?tab ?target ?n 0"
  have n0: "0 < ?n" using n by linarith
  have sc: "k \<le> ?n - 1" "k < ?n - 1 \<longrightarrow> ?target < ?tab (k + 1)" "\<forall>i. 0 < i \<and> i \<le> k \<longrightarrow> ?tab i \<le> ?target"
    using cdf_scan_spec [OF n0, of ?tab ?target, folded k_def] by blast+
  have "?target < ?tab (?n - 1)"
    using fsF asc by (simp add: word_less_nat_alt target unat_ucast_16 F_def cdf_total_def)
  then have k: "k + 1 < ?n" using sc(1,3) n by (cases "k = ?n - 1") (auto simp: not_less [symmetric])
  have lo: "cdf_bound cdf k \<le> unat fs"
    using sc(3) [rule_format, of k] by (cases "k = 0") (simp_all add: cdf_bound_def word_le_nat_alt target unat_ucast_16)
  have hi: "unat fs < cdf_bound cdf (k + 1)"
  proof -
    have "k < ?n - 1" using k by linarith
    with sc(2) have "?target < ?tab (k + 1)" by blast
    then show ?thesis by (simp add: cdf_bound_def word_less_nat_alt target unat_ucast_16)
  qed
  show ?thesis
  proof (rule that [OF k])
    show "rd_decode_cdf cdf d = returning (int k) (rd_update (?tab k - ?tab 0) (?tab (k + 1) - ?tab 0) ?ft
        (d\<lparr>rd_ext := rd_rng d div ?ft\<rparr>))"
      using n not_le [THEN iffD2, OF asc] k by (simp add: rd_decode_cdf_def Let_def dec k_def [symmetric] del: One_nat_def)
  qed (use lo hi in \<open>simp_all add: fs [symmetric]\<close>)
qed

section \<open>Every primitive cuts the range\<close>

text \<open>What the decoding of one symbol comes to: the part of the range from \<open>a\<close> on of size
  \<open>b\<close>, in which the value lies, becomes the range, and is normalised.\<close>

definition rd_takes :: "range_decoder \<Rightarrow> nat \<Rightarrow> nat \<Rightarrow> range_decoder option \<Rightarrow> bool" where
  "rd_takes d a b r \<longleftrightarrow>
    (\<exists>e v w. r = rd_normalize (d\<lparr>rd_ext := e, rd_val := v, rd_rng := w\<rparr>) \<and>
      0 < b \<and> a + b \<le> unat (rd_rng d) \<and> unat w = b \<and>
      unat (rd_rng d) - (a + b) \<le> unat (rd_val d) \<and>
      unat v = unat (rd_val d) - (unat (rd_rng d) - (a + b)) \<and> unat v < b)"

lemma rd_takes_ok:
  assumes "rd_ok d" "rd_takes d a b r"
  shows "\<exists>d'. r = Some d' \<and> rd_ok d' \<and> rd_err d' = rd_err d"
proof -
  obtain e v w where r: "r = rd_normalize (d\<lparr>rd_ext := e, rd_val := v, rd_rng := w\<rparr>)"
    and w: "0 < b" "a + b \<le> unat (rd_rng d)" "unat w = b" "unat v < b"
    using assms(2) unfolding rd_takes_def by blast
  have "rd_pre (d\<lparr>rd_ext := e, rd_val := v, rd_rng := w\<rparr>)"
    using w rd_okD [OF assms(1)] by (simp add: rd_pre_def word_less_nat_alt)
  from rd_normalize_ok [OF this] show ?thesis unfolding r by auto
qed

lemma rd_takes_update:
  assumes ok: "rd_ok d" and F: "0 < unat ft" "unat ft \<le> 2 ^ 23" and H: "unat fh \<le> unat ft"
    and fs: "unat fl \<le> found_symbol (unat (rd_rng d)) (unat ft) (unat (rd_val d))"
      "found_symbol (unat (rd_rng d)) (unat ft) (unat (rd_val d)) < unat fh"
  shows "rd_takes d (cut_low (unat (rd_rng d)) (unat ft) (unat fl))
    (cut_size (unat (rd_rng d)) (unat ft) (unat fl) (unat fh))
    (rd_update fl fh ft (d\<lparr>rd_ext := rd_rng d div ft\<rparr>))"
proof -
  let ?R = "unat (rd_rng d)" and ?F = "unat ft" and ?L = "unat fl" and ?H = "unat fh" and ?V = "unat (rd_val d)"
  let ?g = "?R div ?F * (?F - ?H)"
  have FR: "?F \<le> ?R" using F(2) rd_okD(1) [OF ok] by linarith
  have LH: "?L < ?H" using fs by linarith
  have cut: "?g \<le> ?V" "?V - ?g < cut_size ?R ?F ?L ?H"
    using found_symbol_cut [OF F(1) FR rd_okD(3) [OF ok] LH H fs] by simp_all
  obtain v r where u: "rd_update fl fh ft (d\<lparr>rd_ext := rd_rng d div ft\<rparr>) =
      rd_normalize (d\<lparr>rd_ext := rd_rng d div ft, rd_val := v, rd_rng := r\<rparr>)"
    and v: "unat v = ?V - ?g" "unat r = cut_size ?R ?F ?L ?H"
    by (rule rd_update_cut [OF LH H cut(1) rd_okD(3) [OF ok]])
  have g: "?g \<le> ?R" by (rule div_mult_le_nat) simp
  then have "?R - (cut_low ?R ?F ?L + cut_size ?R ?F ?L ?H) = ?g" "cut_low ?R ?F ?L + cut_size ?R ?F ?L ?H \<le> ?R"
    unfolding cut_total [OF LH H] by simp_all
  then show ?thesis unfolding rd_takes_def u using cut v cut_size_pos [OF F(1) FR LH H] by (intro exI) auto
qed

lemma rd_decode_cdf_takes:
  assumes ok: "rd_ok d" and t: "cdf_table cdf"
  obtains k r where "k + 1 < length cdf" "cdf ! k < cdf ! (k + 1)" "rd_decode_cdf cdf d = returning (int k) r"
    "rd_takes d (cut_low (unat (rd_rng d)) (cdf_total cdf) (cdf_bound cdf k))
      (cut_size (unat (rd_rng d)) (cdf_total cdf) (cdf_bound cdf k) (cdf_bound cdf (k + 1))) r"
proof -
  let ?n = "length cdf" and ?tab = "\<lambda>i. ucast (cdf ! i) :: u32"
  let ?ft = "?tab (?n - 1) - ?tab 0"
  obtain k where k: "k + 1 < ?n"
    and dec: "rd_decode_cdf cdf d = returning (int k) (rd_update (?tab k - ?tab 0) (?tab (k + 1) - ?tab 0) ?ft
      (d\<lparr>rd_ext := rd_rng d div ?ft\<rparr>))"
    and fs: "cdf_bound cdf k \<le> found_symbol (unat (rd_rng d)) (cdf_total cdf) (unat (rd_val d))"
      "found_symbol (unat (rd_rng d)) (cdf_total cdf) (unat (rd_val d)) < cdf_bound cdf (k + 1)"
    by (rule rd_decode_cdf_cut [OF ok t])
  have b: "unat ?ft = cdf_total cdf" "unat (?tab k - ?tab 0) = cdf_bound cdf k"
    "unat (?tab (k + 1) - ?tab 0) = cdf_bound cdf (k + 1)"
    using k by (simp_all add: cdf_bound_unat [OF t] cdf_total_def cdf_bound_def del: One_nat_def)
  have F: "0 < cdf_total cdf" "cdf_total cdf \<le> 2 ^ 23"
    using cdf_total_pos [OF t] unat_u16 [of "cdf ! (?n - 1)"] by (simp_all add: cdf_total_def)
  have "rd_takes d (cut_low (unat (rd_rng d)) (cdf_total cdf) (cdf_bound cdf k))
      (cut_size (unat (rd_rng d)) (cdf_total cdf) (cdf_bound cdf k) (cdf_bound cdf (k + 1)))
      (rd_update (?tab k - ?tab 0) (?tab (k + 1) - ?tab 0) ?ft (d\<lparr>rd_ext := rd_rng d div ?ft\<rparr>))"
    using rd_takes_update [OF ok, of ?ft "?tab (k + 1) - ?tab 0" "?tab k - ?tab 0", unfolded b]
      F cdf_bound_total [OF t k] fs by blast
  moreover have "cdf ! k < cdf ! (k + 1)"
    using fs cdf_mono [OF t, of 0 k] k by (simp add: cdf_bound_def word_less_nat_alt)
  ultimately show ?thesis by (intro that [OF k _ dec])
qed

lemma rd_takes_uniform:
  assumes ok: "rd_ok d" and F: "0 < unat ft" "unat ft \<le> 2 ^ 23" and dec: "rd_decode ft d = (y, d')"
  shows "unat y < unat ft"
    "rd_takes d (cut_low (unat (rd_rng d)) (unat ft) (unat y))
      (cut_size (unat (rd_rng d)) (unat ft) (unat y) (unat y + 1)) (rd_update y (y + 1) ft d')"
proof -
  let ?f = "found_symbol (unat (rd_rng d)) (unat ft) (unat (rd_val d))"
  have y: "unat y = ?f" and d': "d' = d\<lparr>rd_ext := rd_rng d div ft\<rparr>"
    using rd_decode_ok [OF ok F] dec by (metis prod.inject)+
  show less: "unat y < unat ft" unfolding y by (rule found_symbol_less [OF F(1)])
  have y1: "unat (y + 1) = unat y + 1" using less F(2) by (intro unat_succ) simp
  show "rd_takes d (cut_low (unat (rd_rng d)) (unat ft) (unat y))
      (cut_size (unat (rd_rng d)) (unat ft) (unat y) (unat y + 1)) (rd_update y (y + 1) ft d')"
    using rd_takes_update [OF ok F, of "y + 1" y] less by (simp add: y1 d' y)
qed

lemma unat_power_2: "n < 32 \<Longrightarrow> unat (push_bit n (1 :: u32)) = 2 ^ n"
proof -
  assume n: "n < 32"
  then have "(2 :: nat) ^ n < 2 ^ 32" by (intro power_strict_increasing) simp_all
  then show ?thesis unfolding unsigned_push_bit_eq using n by (simp add: take_bit_nat_eq_self push_bit_eq_mult)
qed

text \<open>A power of two as total: the binary decoder divides by shifting.\<close>

lemma rd_decode_bin_eq:
  assumes "n \<le> 23"
  shows "rd_decode_bin n d = rd_decode (push_bit n 1) d"
proof -
  have "drop_bit n x = x div push_bit n 1" for x :: u32
    by (simp add: drop_bit_eq_div push_bit_eq_mult)
  moreover have "push_bit n 1 \<noteq> (0 :: u32)" using unat_power_2 [of n] assms by auto
  ultimately show ?thesis by (simp only: rd_decode_bin_def rd_decode_def Let_def if_False)
qed

lemma rd_raw_takes:
  assumes ok: "rd_ok d" and n: "n \<le> 16"
  obtains y r where "unat y < 2 ^ n" "rd_decode_raw_symbol n d = returning y r"
    "rd_takes d (cut_low (unat (rd_rng d)) (2 ^ n) (unat y)) (cut_size (unat (rd_rng d)) (2 ^ n) (unat y) (unat y + 1)) r"
proof -
  have ft: "unat (push_bit n 1 :: u32) = 2 ^ n" using n by (intro unat_power_2) simp
  have "(2 :: nat) ^ n \<le> 2 ^ 23" using n by (intro power_increasing) simp_all
  then have F: "0 < unat (push_bit n 1 :: u32)" "unat (push_bit n 1 :: u32) \<le> 2 ^ 23" unfolding ft by simp_all
  obtain y d' where dec: "rd_decode (push_bit n 1) d = (y, d')" by fastforce
  have "rd_decode_raw_symbol n d = returning y (rd_update y (y + 1) (push_bit n 1) d')"
    using n dec by (simp add: rd_decode_raw_symbol_def rd_decode_bin_eq)
  then show ?thesis by (rule that [OF rd_takes_uniform(1) [OF ok F dec, unfolded ft] _ rd_takes_uniform(2) [OF ok F dec, unfolded ft]])
qed

lemma rd_uint_takes:
  assumes ok: "rd_ok d" and ft: "0 < ft" "ft \<le> 256"
  obtains y r where "unat y < unat ft" "rd_decode_uint ft d = returning y r"
    "rd_takes d (cut_low (unat (rd_rng d)) (unat ft) (unat y))
      (cut_size (unat (rd_rng d)) (unat ft) (unat y) (unat y + 1)) r"
proof -
  have F: "0 < unat ft" "unat ft \<le> 2 ^ 23" using ft by (simp_all add: word_less_nat_alt word_le_nat_alt)
  have "floorlog 2 (unat (ft - 1)) \<le> 8"
    using ft by (intro floorlog_leI) (simp_all add: word_less_nat_alt word_le_nat_alt unat_sub)
  then have "ilog (ft - 1) \<le> EC_UINT_BITS" by (simp add: ilog_def leading_zeros_def ec)
  moreover obtain y d' where dec: "rd_decode ft d = (y, d')" by fastforce
  ultimately have "rd_decode_uint ft d = returning y (rd_update y (y + 1) ft d')"
    by (simp add: rd_decode_uint_def)
  from that [OF _ this] rd_takes_uniform [OF ok F dec] show ?thesis by simp
qed

lemma rd_bit_logp_takes:
  assumes ok: "rd_ok d" and n: "0 < n" "n \<le> 23"
  obtains y r where "y \<in> {0, 1}" "rd_bit_logp n d = returning y r"
    "rd_takes d (if y = 0 then 0 else unat (rd_rng d) - unat (rd_rng d) div 2 ^ n)
      (if y = 0 then unat (rd_rng d) - unat (rd_rng d) div 2 ^ n else unat (rd_rng d) div 2 ^ n) r"
proof -
  let ?s = "drop_bit n (rd_rng d)" and ?R = "unat (rd_rng d)"
  have s: "unat ?s = ?R div 2 ^ n" by (rule unat_drop_bit)
  have "(2 :: nat) ^ n \<le> 2 ^ 23" using n by (intro power_increasing) simp_all
  then have pos: "0 < ?R div 2 ^ n" using rd_okD(1) [OF ok] by (simp add: div_greater_zero_iff)
  have lt: "?R div 2 ^ n < ?R" using n rd_okD(1) [OF ok] by (intro div_less_dividend one_less_power) simp_all
  show ?thesis
  proof (cases "rd_val d < ?s")
    case True
    have eq: "rd_bit_logp n d = returning 1 (rd_normalize (d\<lparr>rd_rng := ?s\<rparr>))"
      using True by (simp add: rd_bit_logp_def)
    have "rd_takes d (?R - ?R div 2 ^ n) (?R div 2 ^ n) (rd_normalize (d\<lparr>rd_rng := ?s\<rparr>))"
      unfolding rd_takes_def using True pos lt s
      by (intro exI [of _ "rd_ext d"] exI [of _ "rd_val d"] exI [of _ ?s]) (simp add: word_less_nat_alt)
    then show ?thesis using that [OF _ eq] by simp
  next
    case False
    have eq: "rd_bit_logp n d = returning 0 (rd_normalize (d\<lparr>rd_val := rd_val d - ?s, rd_rng := rd_rng d - ?s\<rparr>))"
      using False by (simp add: rd_bit_logp_def Let_def)
    have le: "?s \<le> rd_val d" "?s \<le> rd_rng d" using False lt s by (simp_all add: word_le_nat_alt not_less)
    have "rd_takes d 0 (?R - ?R div 2 ^ n) (rd_normalize (d\<lparr>rd_val := rd_val d - ?s, rd_rng := rd_rng d - ?s\<rparr>))"
      unfolding rd_takes_def using lt s le rd_okD(3) [OF ok]
      by (intro exI [of _ "rd_ext d"] exI [of _ "rd_val d - ?s"] exI [of _ "rd_rng d - ?s"])
        (simp add: unat_sub word_le_nat_alt)
    then show ?thesis using that [OF _ eq] by simp
  qed
qed

text \<open>\<open>decode_64_fine_sym\<close> is the six-bit uniform symbol.\<close>

lemma rd_fine_eq:
  assumes ok: "rd_ok d"
  shows "rd_decode_64_fine_sym d = map_option (\<lambda>(y, d'). (int (unat y), d')) (rd_decode_raw_symbol 6 d)"
proof -
  let ?e = "drop_bit 6 (rd_rng d)" and ?s = "rd_val d div drop_bit 6 (rd_rng d)"
  have "unat ?e = unat (rd_rng d) div 2 ^ 6" by (rule unat_drop_bit)
  then have e0: "?e \<noteq> 0" using rd_okD(1) [OF ok] by auto
  have "unat ?s \<le> unat (rd_val d)" by (simp add: unat_div)
  then have s1: "unat (?s + 1) = unat ?s + 1" using rd_okD(2,3) [OF ok] by (intro unat_succ) simp
  define y where "y = (64 :: u32) - min (?s + 1) 64"
  have le: "min (?s + 1) 64 \<le> (64 :: u32)" by simp
  have y: "unat y = 64 - min (unat ?s + 1) 64"
    unfolding y_def unat_sub [OF le] unat_min s1 by simp
  have sym: "max 0 (min 64 (63 - uint ?s)) = int (unat y)"
    unfolding y by (simp add: min_def max_def uint_nat del: of_nat_unat)
  have at_e: "rd_ext (d\<lparr>rd_ext := ?e\<rparr>) = ?e" "rd_val (d\<lparr>rd_ext := ?e\<rparr>) = rd_val d" by simp_all
  have w: "word_of_int (int (unat y)) = y" by simp
  have raw: "rd_decode_raw_symbol 6 d = returning y (rd_update y (y + 1) 64 (d\<lparr>rd_ext := ?e\<rparr>))"
    using e0 by (simp add: rd_decode_raw_symbol_def rd_decode_bin_def y_def Let_def)
  have "rd_decode_64_fine_sym d = returning (int (unat y)) (rd_update y (y + 1) 64 (d\<lparr>rd_ext := ?e\<rparr>))"
    using e0 by (simp only: rd_decode_64_fine_sym_def Let_def at_e sym w if_False)
  then show ?thesis unfolding raw returning_def by (simp add: option.map_comp comp_def)
qed

text \<open>An inverse table: its entries fall to 0, from less than the total.\<close>

definition icdf_table :: "u8 list \<Rightarrow> nat \<Rightarrow> bool" where
  "icdf_table icdf ftb \<longleftrightarrow> icdf \<noteq> [] \<and> icdf ! (length icdf - 1) = 0 \<and> sorted (rev icdf) \<and>
    unat (icdf ! 0) < 2 ^ ftb \<and> ftb \<le> 16"

definition icdf_low :: "u8 list \<Rightarrow> nat \<Rightarrow> nat \<Rightarrow> nat \<Rightarrow> nat" where
  "icdf_low icdf ftb R k = (if 0 < k then R - R div 2 ^ ftb * unat (icdf ! (k - 1)) else 0)"

definition icdf_size :: "u8 list \<Rightarrow> nat \<Rightarrow> nat \<Rightarrow> nat \<Rightarrow> nat" where
  "icdf_size icdf ftb R k =
    (if 0 < k then R div 2 ^ ftb * (unat (icdf ! (k - 1)) - unat (icdf ! k)) else R - R div 2 ^ ftb * unat (icdf ! 0))"

lemma icdf_antimono:
  assumes "icdf_table icdf ftb" "i \<le> j" "j < length icdf"
  shows "unat (icdf ! j) \<le> unat (icdf ! i)"
proof -
  have "rev icdf ! (length icdf - 1 - j) \<le> rev icdf ! (length icdf - 1 - i)"
    using assms by (intro sorted_nth_mono) (auto simp: icdf_table_def)
  then show ?thesis using assms by (simp add: rev_nth word_le_nat_alt)
qed

lemma icdf_scan_spec:
  assumes "icdf ! (length icdf - 1) = 0" "i < length icdf" "dv < s"
  shows "\<exists>k t s'. icdf_scan r dv icdf s i = (k, t, s') \<and> i \<le> k \<and> k < length icdf \<and>
    s' = r * ucast (icdf ! k) \<and> t = (if k = i then s else r * ucast (icdf ! (k - 1))) \<and> s' \<le> dv \<and> dv < t"
  using assms
proof (induction r dv icdf s i rule: icdf_scan.induct)
  case (1 r dv icdf s i)
  let ?s = "r * ucast (icdf ! i) :: u32"
  show ?case
  proof (cases "?s \<le> dv \<or> length icdf - 1 \<le> i")
    case True
    then have "icdf_scan r dv icdf s i = (i, s, ?s)" by (subst icdf_scan.simps) simp
    moreover have "?s \<le> dv" 
    proof (cases "?s \<le> dv")
      case False
      then have "i = length icdf - 1" using True "1.prems"(2) by simp
      then show ?thesis using "1.prems"(1) by simp
    qed
    ultimately show ?thesis using "1.prems" by auto
  next
    case False
    then have "icdf_scan r dv icdf s i = icdf_scan r dv icdf ?s (Suc i)" by (subst icdf_scan.simps) simp
    moreover have "\<exists>k t s'. icdf_scan r dv icdf ?s (Suc i) = (k, t, s') \<and> Suc i \<le> k \<and> k < length icdf \<and>
      s' = r * ucast (icdf ! k) \<and> t = (if k = Suc i then ?s else r * ucast (icdf ! (k - 1))) \<and> s' \<le> dv \<and> dv < t"
      using False "1.prems"(1) by (intro "1.IH") auto
    ultimately show ?thesis by fastforce
  qed
qed

lemma unat_ucast_8: "unat (ucast (w :: u8) :: u32) = unat w"
proof -
  have "unat w < 2 ^ 32" by (rule order.strict_trans [OF unsigned_less]) simp
  then show ?thesis by (simp only: unsigned_ucast_eq) (simp add: take_bit_nat_eq_self)
qed

lemma icdf_mult:
  assumes t: "icdf_table icdf ftb" and k: "k < length icdf" and R: "unat (R :: u32) \<le> 2 ^ 31"
  shows "unat (drop_bit ftb R * ucast (icdf ! k)) = unat R div 2 ^ ftb * unat (icdf ! k)"
    "unat R div 2 ^ ftb * unat (icdf ! k) \<le> unat R"
proof -
  have "unat (icdf ! k) \<le> 2 ^ ftb"
    using icdf_antimono [OF t, of 0 k] k t by (simp add: icdf_table_def)
  then show le: "unat R div 2 ^ ftb * unat (icdf ! k) \<le> unat R" by (rule div_mult_le_nat)
  then show "unat (drop_bit ftb R * ucast (icdf ! k)) = unat R div 2 ^ ftb * unat (icdf ! k)"
    using R by (simp add: unat_word_ariths(2) unat_drop_bit unat_ucast_8 del: drop_bit_eq_div)
qed

lemma rd_icdf_takes:
  assumes ok: "rd_ok d" and t: "icdf_table icdf ftb"
  obtains k r where "k < length icdf" "0 < k \<longrightarrow> icdf ! k < icdf ! (k - 1)" "rd_decode_icdf icdf ftb d = returning (int k) r"
    "rd_takes d (icdf_low icdf ftb (unat (rd_rng d)) k) (icdf_size icdf ftb (unat (rd_rng d)) k) r"
proof -
  let ?R = "unat (rd_rng d)" and ?r = "drop_bit ftb (rd_rng d)"
  have last0: "icdf ! (length icdf - 1) = 0" and ne: "icdf \<noteq> []" using t by (simp_all add: icdf_table_def)
  have v: "rd_val d < rd_rng d" using rd_okD(3) [OF ok] by (simp add: word_less_nat_alt)
  obtain k tt s where sc: "icdf_scan ?r (rd_val d) icdf (rd_rng d) 0 = (k, tt, s)" and k: "k < length icdf"
    and s: "s = ?r * ucast (icdf ! k)" and tt: "tt = (if k = 0 then rd_rng d else ?r * ucast (icdf ! (k - 1)))"
    and sv: "s \<le> rd_val d" "rd_val d < tt"
    using icdf_scan_spec [OF last0 _ v, of 0 ?r] ne by auto
  note R = rd_okD(2) [OF ok]
  have us: "unat s = ?R div 2 ^ ftb * unat (icdf ! k)" unfolding s by (rule icdf_mult(1) [OF t k R])
  have ut: "unat tt = (if k = 0 then ?R else ?R div 2 ^ ftb * unat (icdf ! (k - 1)))"
    using icdf_mult(1) [OF t _ R, of "k - 1"] k by (simp add: tt)
  have tR: "unat tt \<le> ?R" using icdf_mult(2) [OF t _ R, of "k - 1"] k by (simp add: ut)
  have v': "unat s \<le> unat (rd_val d)" "unat (rd_val d) < unat tt"
    using sv by (simp_all add: word_le_nat_alt word_less_nat_alt)
  have sub: "unat (rd_val d - s) = unat (rd_val d) - unat s" "unat (tt - s) = unat tt - unat s"
    using sv v' by (simp_all add: unat_sub word_le_nat_alt)
  have low: "icdf_low icdf ftb ?R k = ?R - unat tt" by (simp add: icdf_low_def ut)
  have sz: "icdf_size icdf ftb ?R k = unat tt - unat s"
    by (simp add: icdf_size_def ut us diff_mult_distrib2)
  have "rd_takes d (icdf_low icdf ftb ?R k) (icdf_size icdf ftb ?R k)
      (rd_normalize (d\<lparr>rd_val := rd_val d - s, rd_rng := tt - s\<rparr>))"
    unfolding rd_takes_def low sz using v' tR rd_okD(3) [OF ok]
    by (intro exI [of _ "rd_ext d"] exI [of _ "rd_val d - s"] exI [of _ "tt - s"]) (simp add: sub)
  moreover have "rd_decode_icdf icdf ftb d =
      returning (int k) (rd_normalize (d\<lparr>rd_val := rd_val d - s, rd_rng := tt - s\<rparr>))"
    using ne by (simp add: rd_decode_icdf_def Let_def sc)
  moreover have "0 < k \<longrightarrow> icdf ! k < icdf ! (k - 1)"
  proof
    assume "0 < k"
    then have "?R div 2 ^ ftb * unat (icdf ! k) < ?R div 2 ^ ftb * unat (icdf ! (k - 1))"
      using le_less_trans [OF v'] by (simp add: us ut)
    then show "icdf ! k < icdf ! (k - 1)" unfolding word_less_nat_alt by (rule mult_less_cancel1 [THEN iffD1, THEN conjunct2])
  qed
  ultimately show ?thesis by (intro that [OF k])
qed

section \<open>The table readers agree\<close>

text \<open>The table that a window and that a little-endian slice stand for.\<close>

definition cdf_window :: "u16 list \<Rightarrow> nat \<Rightarrow> nat \<Rightarrow> u16 list" where
  "cdf_window base start n = map (\<lambda>i. if start + i < length base then base ! (start + i) else 0) [0..<n]"

definition le16_table :: "bytes \<Rightarrow> u16 list" where
  "le16_table bs = map (\<lambda>i. ucast (bs ! (2 * i)) OR push_bit 8 (ucast (bs ! (2 * i + 1)))) [0..<length bs div 2]"

lemma cdf_window_nth: "i < n \<Longrightarrow> ucast (cdf_window base start n ! i) = window_at base start i"
  by (simp add: cdf_window_def window_at_def)

lemma le16_table_nth: "i < length bs div 2 \<Longrightarrow> ucast (le16_table bs ! i) = le16_at bs i"
  by (simp add: le16_table_def le16_at_def)

lemma length_tables [simp]:
  "length (cdf_window base start n) = n" "length (le16_table bs) = length bs div 2"
  by (simp_all add: cdf_window_def le16_table_def)

lemma cdf_scan_cong:
  "k < n \<Longrightarrow> (\<And>i. i < n \<Longrightarrow> tab i = tab' i) \<Longrightarrow> cdf_scan tab target n k = cdf_scan tab' target n k"
proof (induction tab target n k rule: cdf_scan.induct)
  case (1 tab target n k)
  then show ?case by (subst (1 2) cdf_scan.simps) auto
qed

lemma cdf_scan_inside:
  assumes ok: "rd_ok d" and n: "2 \<le> n" and asc: "tab 0 < tab (n - 1)" and small: "unat (tab (n - 1)) < 2 ^ 16"
    and dec: "rd_decode (tab (n - 1) - tab 0) d = (fs, d')"
  shows "cdf_scan tab (tab 0 + fs) n 0 + 1 < n"
proof -
  let ?ft = "tab (n - 1) - tab 0" and ?k = "cdf_scan tab (tab 0 + fs) n 0"
  have ft: "unat ?ft = unat (tab (n - 1)) - unat (tab 0)" "unat (tab 0) < unat (tab (n - 1))"
    using asc by (simp_all add: unat_sub word_le_nat_alt word_less_nat_alt)
  have F: "0 < unat ?ft" "unat ?ft \<le> 2 ^ 23" using ft small by simp_all
  have "unat fs < unat ?ft"
    using rd_decode_ok [OF ok F] dec found_symbol_less [OF F(1)] by (metis prod.inject)
  then have "unat (tab 0 + fs) < unat (tab (n - 1))" using ft small by (simp add: unat_word_ariths(1))
  then have "tab 0 + fs < tab (n - 1)" by (simp add: word_less_nat_alt)
  moreover have n0: "0 < n" using n by simp
  ultimately have "?k \<noteq> n - 1" using cdf_scan_spec [OF n0, of tab "tab 0 + fs"] n
    by (metis not_le zero_less_diff Suc_1 Suc_le_lessD le_refl)
  moreover have "?k \<le> n - 1" using cdf_scan_spec [OF n0] by blast
  ultimately show ?thesis by simp
qed

lemma window_at_small: "unat (window_at base start i) < 2 ^ 16"
  using unat_u16 by (simp add: window_at_def unat_ucast_16)

lemma le16_at_small: "unat (le16_at bs i) < 2 ^ 16"
  unfolding le16_at_def unat_ucast_16 by (rule unat_u16)

lemma rd_decode_cdf_by:
  assumes ok: "rd_ok d" and n: "length cdf = n" "2 \<le> n" and tab: "\<And>i. i < n \<Longrightarrow> ucast (cdf ! i) = tab i"
    and asc: "tab 0 < tab (n - 1)" and dec: "rd_decode (tab (n - 1) - tab 0) d = (fs, d')"
  defines "k \<equiv> cdf_scan tab (tab 0 + fs) n 0"
  shows "k + 1 < n"
    "rd_decode_cdf cdf d = returning (int k) (rd_update (tab k - tab 0) (tab (k + 1) - tab 0) (tab (n - 1) - tab 0) d')"
proof -
  let ?tab = "\<lambda>i. ucast (cdf ! i) :: u32"
  have "unat (tab (n - 1)) < 2 ^ 16"
    unfolding tab [of "n - 1", symmetric, OF diff_less [OF zero_less_one order.strict_trans2 [OF zero_less_numeral n(2)]]]
    using unat_u16 by (simp add: unat_ucast_16)
  then show k: "k + 1 < n" unfolding k_def using cdf_scan_inside [OF ok n(2) asc _ dec] by blast
  have scan: "cdf_scan ?tab (tab 0 + fs) n 0 = k" unfolding k_def using n by (intro cdf_scan_cong tab) auto
  have t: "?tab 0 = tab 0" "?tab (n - 1) = tab (n - 1)" "?tab k = tab k" "?tab (k + 1) = tab (k + 1)"
    using k n by (auto intro: tab)
  show "rd_decode_cdf cdf d = returning (int k) (rd_update (tab k - tab 0) (tab (k + 1) - tab 0) (tab (n - 1) - tab 0) d')"
    using k n not_le [THEN iffD2, OF asc] by (simp only: rd_decode_cdf_def Let_def n(1) t dec scan case_prod_conv) simp
qed

lemma rd_window_eq:
  assumes ok: "rd_ok d"
  shows "rd_decode_cdf_window base start n d = rd_decode_cdf (cdf_window base start n) d"
proof (cases "n < 2 \<or> window_at base start (n - 1) \<le> window_at base start 0")
  case True
  then show ?thesis by (auto simp: rd_decode_cdf_window_def rd_decode_cdf_def cdf_window_nth Let_def)
next
  case False
  let ?at = "window_at base start"
  obtain fs d' where dec: "rd_decode (?at (n - 1) - ?at 0) d = (fs, d')" by fastforce
  have asc: "?at 0 < ?at (n - 1)" and n: "2 \<le> n" using False by auto
  from rd_decode_cdf_by(2) [OF ok length_tables(1) n cdf_window_nth asc dec] False show ?thesis
    by (simp add: rd_decode_cdf_window_def Let_def dec del: One_nat_def)
qed

lemma rd_le16_eq:
  assumes ok: "rd_ok d"
  shows "rd_decode_cdf_le16 bs d = rd_decode_cdf (le16_table bs) d"
proof (cases "length bs div 2 < 2 \<or> le16_at bs (length bs div 2 - 1) \<le> le16_at bs 0")
  case True
  then show ?thesis by (auto simp: rd_decode_cdf_le16_def rd_decode_cdf_def le16_table_nth Let_def)
next
  case False
  let ?n = "length bs div 2"
  obtain fs d' where dec: "rd_decode (le16_at bs (?n - 1) - le16_at bs 0) d = (fs, d')" by fastforce
  have asc: "le16_at bs 0 < le16_at bs (?n - 1)" and n: "2 \<le> ?n" using False by auto
  note by_table = rd_decode_cdf_by [OF ok length_tables(2) n le16_table_nth asc dec]
  have arith: "\<not> l \<le> 2 * (k + 1) + 1" if "k + 1 < m" "2 * m \<le> l" for k m l :: nat using that by presburger
  have "cdf_scan (le16_at bs) (le16_at bs 0 + fs) ?n 0 + 1 < ?n" using by_table(1) by blast
  then have "\<not> length bs \<le> 2 * (cdf_scan (le16_at bs) (le16_at bs 0 + fs) ?n 0 + 1) + 1"
    using arith [OF _ times_div_less_eq_dividend] by blast
  with by_table(2) False show ?thesis
    by (simp add: rd_decode_cdf_le16_def Let_def dec del: One_nat_def)
qed

lemma re_window_eq: "re_encode_cdf_window s base start n e = re_encode_cdf s (cdf_window base start n) e"
proof (cases "n < 2 \<or> s < 0 \<or> n \<le> nat (s + 1)")
  case True
  then show ?thesis by (simp add: re_encode_cdf_window_def re_encode_cdf_def Let_def)
next
  case False
  then have "0 < n" "n - 1 < n" "nat s < n" "nat (s + 1) < n" by auto
  then show ?thesis by (simp add: re_encode_cdf_window_def re_encode_cdf_def Let_def cdf_window_nth del: One_nat_def)
qed

text \<open>The three readers of a cumulative table (a slice, a window of a larger table, little-endian
  bytes) decode the same symbol and leave the same decoder when they are given the same table, for
  every table, malformed ones included; and so do the two encoders.\<close>

theorem cdf_readers_agree:
  assumes "rd_ok d"
  shows "rd_decode_cdf_window base start n d = rd_decode_cdf (cdf_window base start n) d \<and>
    rd_decode_cdf_le16 bs d = rd_decode_cdf (le16_table bs) d \<and>
    re_encode_cdf_window s base start n e = re_encode_cdf s (cdf_window base start n) e"
  using rd_window_eq [OF assms] rd_le16_eq [OF assms] re_window_eq by blast

definition wide_decoder :: range_decoder where
  "wide_decoder = \<lparr>rd_buf = [1, 2], rd_storage = 2, rd_end_offs = 0, rd_end_window = 0, rd_nend_bits = 0,
    rd_nbits_total = 33, rd_offs = 2, rd_rng = 0x80000000, rd_val = 5, rd_ext = 0, rd_rem = 0, rd_err = 0\<rparr>"

theorem cdf_readers_agree_witness:
  "rd_decode_cdf_le16 [0, 0, 3, 0, 4, 0] wide_decoder = rd_decode_cdf [0, 3, 4] wide_decoder"
proof -
  have "rd_ok wide_decoder" by (simp add: rd_ok_def rd_pre_def ec wide_decoder_def)
  moreover have "le16_table [0, 0, 3, 0, 4, 0] = [0, 3, 4]" by (simp add: le16_table_def upt_rec)
  ultimately show ?thesis using cdf_readers_agree [of wide_decoder] by metis
qed

section \<open>The primitives as one family\<close>

text \<open>The symbols a stream is made of, each with the table or the parameter it is coded with.\<close>

datatype coder_op =
    Cdf "u16 list" | Window "u16 list" nat nat | Icdf "u8 list" nat | Logp nat | Raw nat | Fine | Uint u32

definition number :: "('a \<Rightarrow> nat) \<Rightarrow> ('a \<times> 's) option \<Rightarrow> (nat \<times> 's) option" where
  "number f = map_option (map_prod f id)"

fun rd_op :: "coder_op \<Rightarrow> range_decoder \<Rightarrow> (nat \<times> range_decoder) option" where
  "rd_op (Cdf cdf) d = number nat (rd_decode_cdf cdf d)"
| "rd_op (Window base start n) d = number nat (rd_decode_cdf_window base start n d)"
| "rd_op (Icdf icdf ftb) d = number nat (rd_decode_icdf icdf ftb d)"
| "rd_op (Logp n) d = number nat (rd_bit_logp n d)"
| "rd_op (Raw n) d = number unat (rd_decode_raw_symbol n d)"
| "rd_op Fine d = number nat (rd_decode_64_fine_sym d)"
| "rd_op (Uint ft) d = number unat (rd_decode_uint ft d)"

fun op_valid :: "coder_op \<Rightarrow> bool" where
  "op_valid (Cdf cdf) = cdf_table cdf"
| "op_valid (Window base start n) = cdf_table (cdf_window base start n)"
| "op_valid (Icdf icdf ftb) = icdf_table icdf ftb"
| "op_valid (Logp n) = (0 < n \<and> n \<le> 23)"
| "op_valid (Raw n) = (n \<le> 16)"
| "op_valid Fine = True"
| "op_valid (Uint ft) = (0 < ft \<and> ft \<le> 256)"

text \<open>How many symbols there are, and the part of a range of size \<open>R\<close> that belongs to one.\<close>

fun op_symbols :: "coder_op \<Rightarrow> nat" where
  "op_symbols (Cdf cdf) = length cdf - 1"
| "op_symbols (Window base start n) = n - 1"
| "op_symbols (Icdf icdf ftb) = length icdf"
| "op_symbols (Logp n) = 2"
| "op_symbols (Raw n) = 2 ^ n"
| "op_symbols Fine = 64"
| "op_symbols (Uint ft) = unat ft"

fun op_low :: "coder_op \<Rightarrow> nat \<Rightarrow> nat \<Rightarrow> nat" where
  "op_low (Cdf cdf) R y = cut_low R (cdf_total cdf) (cdf_bound cdf y)"
| "op_low (Window base start n) R y =
    cut_low R (cdf_total (cdf_window base start n)) (cdf_bound (cdf_window base start n) y)"
| "op_low (Icdf icdf ftb) R y = icdf_low icdf ftb R y"
| "op_low (Logp n) R y = (if y = 0 then 0 else R - R div 2 ^ n)"
| "op_low (Raw n) R y = cut_low R (2 ^ n) y"
| "op_low Fine R y = cut_low R 64 y"
| "op_low (Uint ft) R y = cut_low R (unat ft) y"

fun op_size :: "coder_op \<Rightarrow> nat \<Rightarrow> nat \<Rightarrow> nat" where
  "op_size (Cdf cdf) R y = cut_size R (cdf_total cdf) (cdf_bound cdf y) (cdf_bound cdf (y + 1))"
| "op_size (Window base start n) R y =
    cut_size R (cdf_total (cdf_window base start n)) (cdf_bound (cdf_window base start n) y)
      (cdf_bound (cdf_window base start n) (y + 1))"
| "op_size (Icdf icdf ftb) R y = icdf_size icdf ftb R y"
| "op_size (Logp n) R y = (if y = 0 then R - R div 2 ^ n else R div 2 ^ n)"
| "op_size (Raw n) R y = cut_size R (2 ^ n) y (y + 1)"
| "op_size Fine R y = cut_size R 64 y (y + 1)"
| "op_size (Uint ft) R y = cut_size R (unat ft) y (y + 1)"

text \<open>The symbols that have a part of their own.\<close>

fun op_codable :: "coder_op \<Rightarrow> nat \<Rightarrow> bool" where
  "op_codable (Cdf cdf) y = (y + 1 < length cdf \<and> cdf ! y < cdf ! (y + 1))"
| "op_codable (Window base start n) y =
    (y + 1 < n \<and> cdf_window base start n ! y < cdf_window base start n ! (y + 1))"
| "op_codable (Icdf icdf ftb) y = (y < length icdf \<and> (0 < y \<longrightarrow> icdf ! y < icdf ! (y - 1)))"
| "op_codable (Logp n) y = (y < 2)"
| "op_codable (Raw n) y = (y < 2 ^ n)"
| "op_codable Fine y = (y < 64)"
| "op_codable (Uint ft) y = (y < unat ft)"

lemma op_codable_symbols: "op_codable op y \<Longrightarrow> y < op_symbols op"
  by (cases op) auto

text \<open>Decoding a symbol takes its part of the range.\<close>

lemma number_returning: "number f (returning x r) = returning (f x) r"
  by (cases r) (simp_all add: number_def returning_def)

lemma rd_op_takes:
  assumes ok: "rd_ok d" and v: "op_valid op"
  obtains y r where "op_codable op y" "rd_op op d = returning y r"
    "rd_takes d (op_low op (unat (rd_rng d)) y) (op_size op (unat (rd_rng d)) y) r"
proof (cases op)
  case (Cdf cdf)
  with v have t: "cdf_table cdf" by simp
  show ?thesis by (rule rd_decode_cdf_takes [OF ok t], rule that) (simp_all add: Cdf number_returning)
next
  case (Window base start n)
  with v have t: "cdf_table (cdf_window base start n)" by simp
  show ?thesis
    by (rule rd_decode_cdf_takes [OF ok t], rule that)
      (simp_all add: Window number_returning rd_window_eq [OF ok])
next
  case (Icdf icdf ftb)
  with v have t: "icdf_table icdf ftb" by simp
  show ?thesis by (rule rd_icdf_takes [OF ok t], rule that) (simp_all add: Icdf number_returning)
next
  case (Logp n)
  with v have n: "0 < n" "n \<le> 23" by simp_all
  obtain y r where y: "y \<in> {0, 1}" "rd_bit_logp n d = returning y r" and
    t: "rd_takes d (if y = 0 then 0 else unat (rd_rng d) - unat (rd_rng d) div 2 ^ n)
      (if y = 0 then unat (rd_rng d) - unat (rd_rng d) div 2 ^ n else unat (rd_rng d) div 2 ^ n) r"
    by (rule rd_bit_logp_takes [OF ok n])
  have "op_codable op (nat y)" using y(1) by (auto simp: Logp)
  moreover have "rd_op op d = returning (nat y) r" by (simp only: Logp rd_op.simps y(2) number_returning)
  moreover have "nat y = 0 \<longleftrightarrow> y = 0" using y(1) by auto
  then have "rd_takes d (op_low op (unat (rd_rng d)) (nat y)) (op_size op (unat (rd_rng d)) (nat y)) r"
    using t by (simp only: Logp op_low.simps op_size.simps)
  ultimately show ?thesis by (rule that)
next
  case (Raw n)
  with v have n: "n \<le> 16" by simp
  show ?thesis by (rule rd_raw_takes [OF ok n], rule that) (simp_all add: Raw number_returning)
next
  case Fine
  have six: "(6 :: nat) \<le> 16" by simp
  obtain y r where "unat y < 2 ^ 6" "rd_decode_raw_symbol 6 d = returning y r"
    "rd_takes d (cut_low (unat (rd_rng d)) (2 ^ 6) (unat y)) (cut_size (unat (rd_rng d)) (2 ^ 6) (unat y) (unat y + 1)) r"
    by (rule rd_raw_takes [OF ok six])
  moreover from this(2) have "rd_op op d = returning (unat y) r"
    by (cases r) (simp_all add: Fine rd_fine_eq [OF ok] returning_def number_def)
  ultimately show ?thesis using that by (simp add: Fine)
next
  case (Uint ft)
  with v have ft: "0 < ft" "ft \<le> 256" by simp_all
  show ?thesis by (rule rd_uint_takes [OF ok ft], rule that) (simp_all add: Uint number_returning)
qed

lemma rd_op_ok:
  assumes "rd_ok d" "op_valid op"
  shows "\<exists>y d'. rd_op op d = Some (y, d') \<and> y < op_symbols op \<and> rd_ok d' \<and> rd_err d' = rd_err d"
proof -
  obtain y r where y: "op_codable op y" "rd_op op d = returning y r"
    and t: "rd_takes d (op_low op (unat (rd_rng d)) y) (op_size op (unat (rd_rng d)) y) r"
    by (rule rd_op_takes [OF assms])
  from rd_takes_ok [OF assms(1) t] y op_codable_symbols show ?thesis by (auto simp: returning_def)
qed

primrec decode_all :: "('o \<Rightarrow> 'd \<Rightarrow> ('s \<times> 'd) option) \<Rightarrow> 'o list \<Rightarrow> 'd \<Rightarrow> ('s list \<times> 'd) option" where
  "decode_all get [] d = Some ([], d)"
| "decode_all get (op # ops) d =
    (case get op d of None \<Rightarrow> None | Some (y, d) \<Rightarrow> map_option (map_prod (Cons y) id) (decode_all get ops d))"

text \<open>The decoder that \<open>new\<close> normalises.\<close>

definition rd_start :: "bytes \<Rightarrow> range_decoder" where
  "rd_start buf = \<lparr>rd_buf = buf, rd_storage = word_of_nat (length buf), rd_end_offs = 0, rd_end_window = 0,
    rd_nend_bits = 0, rd_nbits_total = 9, rd_offs = 0, rd_rng = 128, rd_val = 0, rd_ext = 0, rd_rem = 0, rd_err = 0\<rparr>"

lemma new_range_decoder_eq:
  obtains v where "unat v = 127 - unat (fst (rd_read_byte (rd_start buf))) div 2"
    "new_range_decoder buf = rd_normalize ((snd (rd_read_byte (rd_start buf)))
      \<lparr>rd_rem := uint (fst (rd_read_byte (rd_start buf))), rd_val := v\<rparr>)"
proof
  let ?b = "fst (rd_read_byte (rd_start buf))"
  let ?v = "127 - word_of_int (drop_bit 1 (uint ?b)) :: u32"
  have b: "unat ?b < 256" by (rule rd_read_byte_less)
  have ub: "uint ?b = int (unat ?b)" by simp
  have "drop_bit 1 (uint ?b) = int (unat ?b div 2)"
    by (simp only: ub drop_bit_eq_div zdiv_int power_one_right of_nat_numeral)
  then have "unat (word_of_int (drop_bit 1 (uint ?b)) :: u32) = unat ?b div 2"
    using b by (simp add: unat_of_nat)
  moreover from this have "word_of_int (drop_bit 1 (uint ?b)) \<le> (127 :: u32)"
    using b by (simp only: word_le_nat_alt) simp
  ultimately show "unat ?v = 127 - unat ?b div 2" by (simp only: unat_sub) simp
  show "new_range_decoder buf = rd_normalize ((snd (rd_read_byte (rd_start buf)))\<lparr>rd_rem := uint ?b, rd_val := ?v\<rparr>)"
    by (simp add: new_range_decoder_def rd_start_def rd_read_byte_def Let_def case_prod_beta
        EC_SYM_BITS_def EC_CODE_BITS_def ec_values(4))
qed

lemma new_range_decoder_ok: "\<exists>d. new_range_decoder buf = Some d \<and> rd_ok d \<and> rd_err d = 0"
proof -
  obtain v where v: "unat v = 127 - unat (fst (rd_read_byte (rd_start buf))) div 2"
    and new: "new_range_decoder buf = rd_normalize ((snd (rd_read_byte (rd_start buf)))
      \<lparr>rd_rem := uint (fst (rd_read_byte (rd_start buf))), rd_val := v\<rparr>)"
    by (rule new_range_decoder_eq)
  have "rd_pre ((snd (rd_read_byte (rd_start buf)))
      \<lparr>rd_rem := uint (fst (rd_read_byte (rd_start buf))), rd_val := v\<rparr>)"
    using v rd_read_byte_uint [of "rd_start buf"] by (simp add: rd_pre_def rd_start_def word_less_nat_alt)
  from rd_normalize_ok [OF this] show ?thesis unfolding new by (auto simp: rd_start_def)
qed

text \<open>Whatever bytes arrive, the decoder can be set up on them and decodes any sequence of
  symbols against valid tables: no operation panics or loops, every symbol lies inside of its
  table, and no error is raised.\<close>

theorem decoder_never_stuck:
  assumes "\<forall>op \<in> set ops. op_valid op"
  shows "\<exists>d ys d'. new_range_decoder buf = Some d \<and> decode_all rd_op ops d = Some (ys, d') \<and>
    length ys = length ops \<and> (\<forall>i < length ops. ys ! i < op_symbols (ops ! i)) \<and> rd_err d' = 0"
proof -
  have run: "\<exists>ys d'. decode_all rd_op ops d = Some (ys, d') \<and> length ys = length ops \<and>
      (\<forall>i < length ops. ys ! i < op_symbols (ops ! i)) \<and> rd_err d' = rd_err d"
    if "rd_ok d" for d using assms that
  proof (induction ops arbitrary: d)
    case (Cons op ops)
    obtain y d1 where y: "rd_op op d = Some (y, d1)" "y < op_symbols op" "rd_ok d1" "rd_err d1 = rd_err d"
      using rd_op_ok [of d op] Cons.prems by auto
    obtain ys d' where ys: "decode_all rd_op ops d1 = Some (ys, d')" "length ys = length ops"
      "\<forall>i < length ops. ys ! i < op_symbols (ops ! i)" "rd_err d' = rd_err d1"
      using Cons.IH [OF _ y(3)] Cons.prems(1) by auto
    have "(y # ys) ! i < op_symbols ((op # ops) ! i)" if "i < length (op # ops)" for i
      using that ys(3) y(2) by (cases i) auto
    then show ?case using y ys by (intro exI [of _ "y # ys"] exI [of _ d']) auto
  qed simp
  obtain d where d: "new_range_decoder buf = Some d" "rd_ok d" "rd_err d = 0"
    using new_range_decoder_ok by blast
  from run [OF d(2)] d show ?thesis by fastforce
qed

theorem decoder_never_stuck_witness:
  "\<exists>d ys d'. new_range_decoder [0xFF, 0x10] = Some d \<and>
    decode_all rd_op [Cdf [0, 3, 4], Icdf [200, 100, 0] 8, Logp 3, Fine, Window [0, 9] 0 2] d = Some (ys, d') \<and> length ys = 5 \<and> rd_err d' = 0"
proof -
  have "\<forall>op \<in> set [Cdf [0, 3, 4], Icdf [200, 100, 0] 8, Logp 3, Fine, Window [0, 9] 0 2]. op_valid op"
    by (simp add: cdf_table_def icdf_table_def cdf_window_def upt_rec)
  from decoder_never_stuck [OF this, of "[0xFF, 0x10]"] show ?thesis by fastforce
qed

end
