(* ===== verification/Range_Roundtrip.thy ===== *)
theory Range_Roundtrip
  imports Range_Coder
begin

text \<open>
  The two range coders against one abstract coder, which narrows an interval of natural numbers.
  The bytes written, the byte held back and the run of pending \<open>0xFF\<close> bytes of the encoder are
  one number, to which a carry is added; the decoder holds the distance of the number that the
  stream spells to the top of the same interval. What is encoded is decoded, whatever follows it.
\<close>

section \<open>Numbers in base 256\<close>

definition num :: "nat list \<Rightarrow> nat" where
  "num xs = foldl (\<lambda>a b. a * 256 + b) 0 xs"

lemma num_Nil [simp]: "num [] = 0" by (simp add: num_def)

lemma num_snoc [simp]: "num (xs @ [a]) = num xs * 256 + a" by (simp add: num_def)

lemma num_zeros: "num (xs @ replicate n 0) = num xs * 256 ^ n"
  by (induction n) (simp_all add: replicate_append_same [symmetric] flip: append_assoc del: replicate_Suc add: replicate_Suc)

lemma num_ones: "num (xs @ replicate n 255) + 1 = (num xs + 1) * 256 ^ n"
proof (induction n)
  case (Suc n)
  have "xs @ replicate (Suc n) 255 = (xs @ replicate n 255) @ [255]" by (simp add: replicate_append_same)
  then have "num (xs @ replicate (Suc n) 255) + 1 = (num (xs @ replicate n 255) + 1) * 256"
    by (simp only: num_snoc) simp
  then show ?case by (simp only: Suc.IH power_Suc2 mult.assoc)
qed simp

section \<open>Counting the rounds of a normalisation\<close>

function shifts :: "nat \<Rightarrow> nat" where
  "shifts R = (if 0 < R \<and> R \<le> 2 ^ 23 then Suc (shifts (256 * R)) else 0)"
  by auto
termination by (relation "measure (\<lambda>R. 2 ^ 23 + 1 - R)") auto

declare shifts.simps [simp del]

lemma shifts_range: "0 < R \<Longrightarrow> R \<le> 2 ^ 31 \<Longrightarrow> 2 ^ 23 < 256 ^ shifts R * R \<and> 256 ^ shifts R * R \<le> 2 ^ 31"
proof (induction R rule: shifts.induct)
  case (1 R)
  show ?case
  proof (cases "R \<le> 2 ^ 23")
    case True
    with "1.IH" "1.prems" have "2 ^ 23 < 256 ^ shifts (256 * R) * (256 * R) \<and> 256 ^ shifts (256 * R) * (256 * R) \<le> 2 ^ 31"
      by simp
    moreover have "shifts R = Suc (shifts (256 * R))" using True "1.prems" by (subst shifts.simps) simp
    ultimately show ?thesis by (simp add: mult.assoc mult.commute mult.left_commute)
  next
    case False
    then have "shifts R = 0" by (subst shifts.simps) simp
    then show ?thesis using False "1.prems" by simp
  qed
qed

lemma shifts_le:
  assumes "0 < R" "R \<le> 2 ^ 31"
  shows "shifts R \<le> 3"
proof (rule ccontr)
  assume "\<not> shifts R \<le> 3"
  then have "(256 :: nat) ^ 4 * 1 \<le> 256 ^ shifts R * R"
    using assms by (intro mult_le_mono power_increasing) simp_all
  with shifts_range [OF assms] show False by simp
qed

section \<open>What the encoder has sent\<close>

definition re_room :: "range_encoder \<Rightarrow> bool" where
  "re_room e \<longleftrightarrow> unat (re_offs e) + unat (re_end_offs e) \<le> unat (re_storage e) \<and>
    unat (re_storage e) = length (re_buf e)"

definition re_written :: "range_encoder \<Rightarrow> nat list" where
  "re_written e = map unat (take (unat (re_offs e)) (re_buf e))"

lemma re_fields [simp]:
  "re_room (e\<lparr>re_ext := x\<rparr>) = re_room e" "re_written (e\<lparr>re_ext := x\<rparr>) = re_written e"
  "re_room (e\<lparr>re_rem := i\<rparr>) = re_room e" "re_written (e\<lparr>re_rem := i\<rparr>) = re_written e"
  "re_room (e\<lparr>re_val := v\<rparr>) = re_room e" "re_written (e\<lparr>re_val := v\<rparr>) = re_written e"
  "re_room (e\<lparr>re_rng := v\<rparr>) = re_room e" "re_written (e\<lparr>re_rng := v\<rparr>) = re_written e"
  "re_room (e\<lparr>re_nbits_total := i\<rparr>) = re_room e" "re_written (e\<lparr>re_nbits_total := i\<rparr>) = re_written e"
  by (simp_all add: re_room_def re_written_def)

lemma unat_ucast_32_8: "unat (ucast (b :: u32) :: u8) = unat b mod 256"
  by (simp add: unsigned_ucast_eq take_bit_eq_mod)

lemma re_write_byte_lt:
  assumes room: "re_room e" and less: "re_offs e + re_end_offs e < re_storage e"
  shows "re_room (re_write_byte b e)" "re_written (re_write_byte b e) = re_written e @ [unat b mod 256]"
    "unat (re_offs (re_write_byte b e)) = unat (re_offs e) + 1"
proof -
  have ls: "unat (re_storage e) < 2 ^ 32" by (rule unat_u32)
  have "unat (re_offs e + re_end_offs e) = unat (re_offs e) + unat (re_end_offs e)"
    using room ls by (simp add: re_room_def unat_word_ariths(1))
  then have lt: "unat (re_offs e) + unat (re_end_offs e) < unat (re_storage e)"
    using less by (simp add: word_less_nat_alt)
  then have o: "unat (re_offs e + 1) = unat (re_offs e) + 1" using ls by (simp add: unat_word_ariths(1))
  have len: "unat (re_offs e) < length (re_buf e)" using lt room by (simp add: re_room_def)
  show "re_room (re_write_byte b e)" using less room lt o by (simp add: re_write_byte_def re_room_def)
  show "unat (re_offs (re_write_byte b e)) = unat (re_offs e) + 1" using less o by (simp add: re_write_byte_def)
  show "re_written (re_write_byte b e) = re_written e @ [unat b mod 256]"
    using less len o by (simp add: re_write_byte_def re_written_def take_Suc_conv_app_nth unat_ucast_32_8)
qed

lemma re_write_byte_room: "re_room e \<Longrightarrow> re_room (re_write_byte b e)"
  using re_write_byte_lt(1) [of e b]
  by (cases "re_offs e + re_end_offs e < re_storage e") (simp_all add: re_write_byte_def [of b e] re_room_def)

lemma re_write_byte_ok:
  assumes "re_room e" "re_err (re_write_byte b e) = 0"
  shows "re_written (re_write_byte b e) = re_written e @ [unat b mod 256]"
    "unat (re_offs (re_write_byte b e)) = unat (re_offs e) + 1" "re_err e = 0"
proof -
  have less: "re_offs e + re_end_offs e < re_storage e"
    using assms(2) by (auto simp: re_write_byte_def split: if_splits)
  show "re_written (re_write_byte b e) = re_written e @ [unat b mod 256]"
    "unat (re_offs (re_write_byte b e)) = unat (re_offs e) + 1"
    by (rule re_write_byte_lt [OF assms(1) less])+
  show "re_err e = 0" using assms(2) less by (simp add: re_write_byte_def)
qed

lemma re_write_pending_unfold:
  "re_ext e \<noteq> 0 \<Longrightarrow> re_write_pending b e =
    (let e2 = (re_write_byte b e)\<lparr>re_ext := re_ext e - 1\<rparr> in if re_ext e = 1 then e2 else re_write_pending b e2)"
  by (subst re_write_pending.simps) (auto simp: Let_def)

lemma re_write_pending_ok:
  assumes "re_room e" "re_ext e \<noteq> 0" "re_err (re_write_pending b e) = 0"
  shows "re_room (re_write_pending b e) \<and> re_err e = 0 \<and> re_ext (re_write_pending b e) = 0 \<and>
    re_written (re_write_pending b e) = re_written e @ replicate (unat (re_ext e)) (unat b mod 256) \<and>
    re_end_offs (re_write_pending b e) = re_end_offs e \<and> re_storage (re_write_pending b e) = re_storage e \<and>
    re_nend_bits (re_write_pending b e) = re_nend_bits e"
  using assms
proof (induction "unat (re_ext e)" arbitrary: e rule: less_induct)
  case less
  let ?e2 = "(re_write_byte b e)\<lparr>re_ext := re_ext e - 1\<rparr>"
  have ext: "unat (re_ext e) = Suc (unat (re_ext e - 1))"
    using less.prems(2) by (metis Suc_pred' unat_gt_0 unat_minus_one)
  show ?case
  proof (cases "re_ext e = 1")
    case True
    then have eq: "re_write_pending b e = ?e2" using re_write_pending_unfold [OF less.prems(2)] by simp
    then have "re_err (re_write_byte b e) = 0" using less.prems(3) by simp
    from re_write_byte_ok [OF less.prems(1) this] re_write_byte_room [OF less.prems(1)] show ?thesis
      unfolding eq using True by simp
  next
    case False
    then have eq: "re_write_pending b e = re_write_pending b ?e2"
      using re_write_pending_unfold [OF less.prems(2)] by (simp add: Let_def)
    have ne: "re_ext ?e2 \<noteq> 0" using False by auto
    have lt: "unat (re_ext ?e2) < unat (re_ext e)" using ext by simp
    have room: "re_room ?e2" using less.prems(1) by (simp add: re_write_byte_room)
    note ih = less.hyps [OF lt room ne, folded eq, OF less.prems(3)]
    then have "re_err (re_write_byte b e) = 0" by simp
    with ih re_write_byte_ok [OF less.prems(1) this] show ?thesis by (simp add: ext)
  qed
qed

text \<open>The bytes that are decided but for a carry: those written, the one held back, and the
  pending ones.\<close>

definition re_digits :: "range_encoder \<Rightarrow> nat list" where
  "re_digits e = re_written e @ (if re_rem e < 0 then [] else [nat (re_rem e)]) @ replicate (unat (re_ext e)) 255"

definition re_tail :: "range_encoder \<Rightarrow> bool" where
  "re_tail e \<longleftrightarrow> re_room e \<and> - 1 \<le> re_rem e \<and> re_rem e < 256 \<and> (re_rem e < 0 \<longrightarrow> re_offs e = 0)"

lemma re_tail_fields [simp]:
  "re_tail (e\<lparr>re_val := v\<rparr>) = re_tail e" "re_tail (e\<lparr>re_rng := v\<rparr>) = re_tail e"
  "re_tail (e\<lparr>re_nbits_total := i\<rparr>) = re_tail e" 
  "re_digits (e\<lparr>re_val := v\<rparr>) = re_digits e" "re_digits (e\<lparr>re_rng := v\<rparr>) = re_digits e"
  "re_digits (e\<lparr>re_nbits_total := i\<rparr>) = re_digits e"
  by (simp_all add: re_tail_def re_digits_def)

text \<open>The held-back byte and the pending bytes go out, with a carry of 0 or 1.\<close>

definition re_release :: "nat \<Rightarrow> range_encoder \<Rightarrow> range_encoder" where
  "re_release k e =
    (let e = (if 0 \<le> re_rem e then re_write_byte (word_of_int (re_rem e + int k)) e else e)
     in if 0 < re_ext e then re_write_pending (word_of_nat ((255 + k) mod 256)) e else e)"

lemma re_carry_out_eq:
  "c < 512 \<Longrightarrow> re_carry_out (int c) e =
    (if c = 255 then e\<lparr>re_ext := re_ext e + 1\<rparr> else (re_release (c div 256) e)\<lparr>re_rem := int (c mod 256)\<rparr>)"
proof -
  assume c: "c < 512"
  have "drop_bit 8 (int c) = int (c div 256)" by (simp add: drop_bit_eq_div zdiv_int)
  moreover have "x AND 255 = int (nat x mod 256)" if "0 \<le> x" for x :: int
    using that take_bit_eq_mask [of 8 x] by (simp add: mask_numeral take_bit_eq_mod zmod_int)
  then have "int c AND 255 = int (c mod 256)" "(255 + int (c div 256)) AND 255 = int ((255 + c div 256) mod 256)"
    by (simp_all add: nat_add_distrib)
  moreover have "(word_of_int (int c) :: u32) = 255 \<longleftrightarrow> c = 255"
  proof -
    have "unat (word_of_int (int c) :: u32) = c" using c by (simp add: unat_of_nat)
    then show ?thesis by (simp add: word_unat_eq_iff)
  qed
  ultimately show ?thesis by (simp add: re_carry_out_def re_release_def Let_def ec)
qed

lemma re_release_ok:
  assumes t: "re_tail e" and k: "k = 0 \<or> (k = 1 \<and> 0 \<le> re_rem e \<and> re_rem e < 255)"
    and err: "re_err (re_release k e) = 0"
  shows "re_room (re_release k e)" "re_ext (re_release k e) = 0" "re_err e = 0"
    "num (re_written (re_release k e)) = num (re_digits e) + k"
    "length (re_written (re_release k e)) = length (re_digits e)"
    "re_end_offs (re_release k e) = re_end_offs e" "re_storage (re_release k e) = re_storage e"
    "re_nend_bits (re_release k e) = re_nend_bits e"
proof -
  let ?w = "if re_rem e < 0 then [] else [nat (re_rem e) + k]"
  define x where "x = (word_of_int (re_rem e + int k) :: u32)"
  define e1 where "e1 = (if 0 \<le> re_rem e then re_write_byte x e else e)"
  let ?p = "word_of_nat ((255 + k) mod 256) :: u32"
  have rel: "re_release k e = (if 0 < re_ext e1 then re_write_pending ?p e1 else e1)"
    by (simp add: re_release_def e1_def x_def Let_def)
  have room1: "re_room e1" using t by (simp add: e1_def re_tail_def re_write_byte_room)
  have same: "re_ext e1 = re_ext e" "re_end_offs e1 = re_end_offs e" "re_storage e1 = re_storage e"
    "re_nend_bits e1 = re_nend_bits e"
    by (simp_all add: e1_def)
  have p: "unat ?p mod 256 = (255 + k) mod 256" using k by (auto simp: unat_of_nat)
  have fin: "re_err e1 = 0 \<and> re_room (re_release k e) \<and> re_ext (re_release k e) = 0 \<and>
    re_written (re_release k e) = re_written e1 @ replicate (unat (re_ext e)) ((255 + k) mod 256) \<and>
    re_end_offs (re_release k e) = re_end_offs e \<and> re_storage (re_release k e) = re_storage e \<and>
    re_nend_bits (re_release k e) = re_nend_bits e"
  proof (cases "re_ext e1 = 0")
    case True
    then show ?thesis using err room1 same by (simp add: rel)
  next
    case False
    then show ?thesis using re_write_pending_ok [OF room1 False, of ?p] err
      by (simp add: rel word_neq_0_conv [symmetric] same p)
  qed
  have "re_err e = 0 \<and> re_written e1 = re_written e @ ?w"
  proof (cases "0 \<le> re_rem e")
    case True
    have lt: "nat (re_rem e) + k < 256" using True k t by (auto simp: re_tail_def)
    have "re_rem e + int k = int (nat (re_rem e) + k)" using True by simp
    then have "x = word_of_nat (nat (re_rem e) + k)" unfolding x_def by (simp only: of_int_of_nat_eq)
    then have "unat x = nat (re_rem e) + k" using lt by (simp only: unat_of_nat) simp
    then have x: "unat x mod 256 = nat (re_rem e) + k" using lt by simp
    have "re_err (re_write_byte x e) = 0" using fin True by (simp add: e1_def)
    from re_write_byte_ok [OF _ this] t True show ?thesis by (simp add: re_tail_def e1_def x)
  qed (use fin in \<open>simp add: e1_def\<close>)
  then have w: "re_err e = 0" "re_written (re_release k e) = re_written e @ ?w @ replicate (unat (re_ext e)) ((255 + k) mod 256)"
    using fin by simp_all
  show "re_room (re_release k e)" "re_ext (re_release k e) = 0" "re_err e = 0"
    "re_end_offs (re_release k e) = re_end_offs e" "re_storage (re_release k e) = re_storage e"
    "re_nend_bits (re_release k e) = re_nend_bits e" using fin w by simp_all
  show "length (re_written (re_release k e)) = length (re_digits e)"
    unfolding w re_digits_def by simp
  show "num (re_written (re_release k e)) = num (re_digits e) + k"
    using k
  proof
    assume "k = 0"
    then show ?thesis unfolding w re_digits_def by simp
  next
    assume k1: "k = 1 \<and> 0 \<le> re_rem e \<and> re_rem e < 255"
    let ?n = "unat (re_ext e)"
    have "num (re_digits e) + 1 = (num (re_written e @ [nat (re_rem e)]) + 1) * 256 ^ ?n"
      using k1 num_ones [of "re_written e @ [nat (re_rem e)]" ?n] by (simp add: re_digits_def)
    moreover have "num (re_written (re_release k e)) = num (re_written e @ [nat (re_rem e) + 1]) * 256 ^ ?n"
    proof -
      have "re_written (re_release k e) = (re_written e @ [nat (re_rem e) + 1]) @ replicate ?n 0"
        unfolding w(2) using k1 by simp
      then show ?thesis by (simp only: num_zeros)
    qed
    ultimately show ?thesis using k1 by simp
  qed
qed

lemma re_write_pending_fields [simp]:
  "re_val (re_write_pending b e) = re_val e \<and> re_rng (re_write_pending b e) = re_rng e \<and>
    re_end_window (re_write_pending b e) = re_end_window e"
proof (induction b e rule: re_write_pending.induct)
  case (1 b e)
  show ?case
    by (subst (1 2 3) re_write_pending.simps) (use "1.IH" [OF refl refl] in \<open>simp add: Let_def\<close>)
qed

lemma re_release_fields [simp]:
  "re_val (re_release k e) = re_val e" "re_rng (re_release k e) = re_rng e"
  "re_end_window (re_release k e) = re_end_window e"
  by (simp_all add: re_release_def Let_def)

lemma re_carry_out_ok:
  assumes t: "re_tail e" and c: "c < 512" and k: "256 \<le> c \<Longrightarrow> 0 \<le> re_rem e \<and> re_rem e < 255"
    and ext: "unat (re_ext e) + 1 < 2 ^ 32" and err: "re_err (re_carry_out (int c) e) = 0"
  defines "e' \<equiv> re_carry_out (int c) e"
  shows "re_tail e' \<and> num (re_digits e') = num (re_digits e) * 256 + c \<and>
    length (re_digits e') = length (re_digits e) + 1 \<and> unat (re_ext e') \<le> unat (re_ext e) + 1 \<and> re_err e = 0 \<and>
    re_rem e' = (if c = 255 then re_rem e else int (c mod 256)) \<and>
    re_end_offs e' = re_end_offs e \<and> re_storage e' = re_storage e \<and> re_nend_bits e' = re_nend_bits e"
proof (cases "c = 255")
  case True
  then have e': "e' = e\<lparr>re_ext := re_ext e + 1\<rparr>" using re_carry_out_eq [OF c] by (simp add: e'_def)
  have "unat (re_ext e + 1) = unat (re_ext e) + 1" using ext by (simp add: unat_word_ariths(1))
  then have "re_digits e' = re_digits e @ [255]" by (simp add: e' re_digits_def replicate_append_same)
  then show ?thesis using t err True ext unfolding e'_def [symmetric]
    by (simp add: e' re_tail_def unat_word_ariths(1))
next
  case False
  let ?k = "c div 256"
  have e': "e' = (re_release ?k e)\<lparr>re_rem := int (c mod 256)\<rparr>" using re_carry_out_eq [OF c] False by (simp add: e'_def)
  have kk: "?k = 0 \<or> (?k = 1 \<and> 0 \<le> re_rem e \<and> re_rem e < 255)"
  proof (cases "256 \<le> c")
    case True
    then have "?k = 1" using c by (simp add: div_nat_eqI)
    then show ?thesis using k [OF True] by simp
  qed simp
  have err': "re_err (re_release ?k e) = 0" using err by (simp add: e'_def [symmetric] e')
  note rel = re_release_ok [OF t kk err']
  have d: "re_digits e' = re_written (re_release ?k e) @ [c mod 256]"
    by (simp add: re_digits_def e' rel(2))
  have "num (re_digits e') = num (re_digits e) * 256 + c" by (simp add: d rel(4)) 
  moreover have "re_tail e'" using rel(1) by (simp add: re_tail_def e') 
  ultimately show ?thesis using rel False by (simp add: d) (simp add: e')
qed

section \<open>The interval of the encoder\<close>

text \<open>The low end of the interval as a number over all bits that have left the register.\<close>

definition re_low :: "range_encoder \<Rightarrow> nat" where
  "re_low e = num (re_digits e) * 2 ^ 31 + unat (re_val e)"

text \<open>A carry can only happen when there is a byte that takes it.\<close>

definition re_pre :: "range_encoder \<Rightarrow> bool" where
  "re_pre e \<longleftrightarrow> re_tail e \<and> 0 < unat (re_rng e) \<and> unat (re_rng e) \<le> 2 ^ 31 \<and>
    unat (re_val e) + unat (re_rng e) < 2 ^ 32 \<and>
    (re_rem e < 0 \<or> re_rem e = 255 \<longrightarrow> unat (re_val e) + unat (re_rng e) \<le> 2 ^ 31)"

lemma re_shift_eq:
  "re_shift e = (re_carry_out (int (unat (re_val e) div 2 ^ 23)) e)
    \<lparr>re_val := push_bit 8 (re_val (re_carry_out (int (unat (re_val e) div 2 ^ 23)) e)) AND (EC_CODE_TOP - 1),
     re_rng := push_bit 8 (re_rng (re_carry_out (int (unat (re_val e) div 2 ^ 23)) e)),
     re_nbits_total := re_nbits_total (re_carry_out (int (unat (re_val e) div 2 ^ 23)) e) + 8\<rparr>"
proof -
  have "uint (drop_bit 23 (re_val e)) = int (unat (re_val e) div 2 ^ 23)"
    by (simp only: unat_drop_bit [symmetric] uint_nat)
  then show ?thesis by (simp add: re_shift_def Let_def ec_sizes)
qed

lemma re_carry_out_fields [simp]:
  "re_val (re_carry_out c e) = re_val e" "re_rng (re_carry_out c e) = re_rng e"
  "re_end_window (re_carry_out c e) = re_end_window e"
  by (simp_all add: re_carry_out_def Let_def)

lemma re_shift_ok:
  assumes pre: "re_pre e" and small: "unat (re_rng e) \<le> 2 ^ 23" and ext: "unat (re_ext e) + 1 < 2 ^ 32"
    and err: "re_err (re_shift e) = 0"
  shows "re_pre (re_shift e) \<and> re_low (re_shift e) = 256 * re_low e \<and>
    length (re_digits (re_shift e)) = length (re_digits e) + 1 \<and> unat (re_ext (re_shift e)) \<le> unat (re_ext e) + 1 \<and>
    re_err e = 0 \<and> re_end_offs (re_shift e) = re_end_offs e \<and> re_storage (re_shift e) = re_storage e \<and>
    re_nend_bits (re_shift e) = re_nend_bits e"
proof -
  define v r c where "v = unat (re_val e)" and "r = unat (re_rng e)" and "c = unat (re_val e) div 2 ^ 23"
  let ?e = "re_carry_out (int c) e"
  note p = pre [unfolded re_pre_def, folded v_def r_def]
  have c: "c < 512" using p unfolding c_def v_def [symmetric] by (auto intro!: less_mult_imp_div_less)
  have vc: "v = c * 2 ^ 23 + v mod 2 ^ 23" unfolding c_def v_def by simp
  have carry: "0 \<le> re_rem e \<and> re_rem e < 255" if "256 \<le> c"
    using p that vc by (auto simp: re_tail_def)
  note shift = re_shift_eq [of e, folded c_def]
  have "re_err ?e = 0" using err by (simp add: shift)
  note co = re_carry_out_ok [OF _ c carry ext this]
  have rng: "unat (re_rng (re_shift e)) = 256 * r"
    using unat_push_8 [of "re_rng e"] small by (simp add: shift r_def)
  have val: "unat (re_val (re_shift e)) = 256 * (v mod 2 ^ 23)"
  proof -
    have "unat (push_bit 8 (re_val e)) = 256 * v mod 2 ^ 32"
      by (simp add: push_bit_eq_mult unat_word_ariths(2) v_def mult.commute)
    then have "unat (re_val (re_shift e)) = 256 * v mod 2 ^ 32 mod 2 ^ 31" by (simp add: shift unat_and_top)
    also have "\<dots> = 256 * v mod 2 ^ 31" by (simp add: mod_mod_cancel)
    also have "\<dots> = 256 * (v mod 2 ^ 23)" by (simp add: mult_mod_right)
    finally show ?thesis .
  qed
  have rem: "re_rem (re_shift e) = (if c = 255 then re_rem e else int (c mod 256))"
    using co p by (simp add: shift)
  have "re_pre (re_shift e)"
  proof -
    have m: "v mod 2 ^ 23 < 2 ^ 23" by simp
    have "256 * (v mod 2 ^ 23) + 256 * r \<le> 2 ^ 31"
      if "re_rem (re_shift e) < 0 \<or> re_rem (re_shift e) = 255"
    proof (cases "c = 255")
      case True
      then have "v + r \<le> 2 ^ 31" using that p by (simp add: rem)
      then show ?thesis using vc True by simp
    next
      case False
      then have "int (c mod 256) = 255" using that by (simp add: rem)
      then have "c mod 256 = 255" by simp
      moreover have "c div 256 < 2" using c by (intro less_mult_imp_div_less) simp
      moreover have "c = c div 256 * 256 + c mod 256" by simp
      moreover have "c div 256 \<noteq> 0" using calculation False by linarith
      ultimately have "c = 511" by linarith
      then show ?thesis using vc p by simp
    qed
    then show ?thesis
      using co p small m by (simp add: re_pre_def rng val r_def [symmetric]) (simp add: shift)
  qed
  moreover have "re_low (re_shift e) = 256 * re_low e"
    using co p vc by (simp add: re_low_def val v_def [symmetric]) (simp add: shift)
  ultimately show ?thesis using co p by (simp add: shift)
qed

text \<open>An error of the encoder is never taken back.\<close>

lemma re_write_byte_sticky: "re_err (re_write_byte b e) = 0 \<Longrightarrow> re_err e = 0"
  by (auto simp: re_write_byte_def split: if_splits)

lemma re_write_pending_sticky: "re_err (re_write_pending b e) = 0 \<Longrightarrow> re_err e = 0"
proof (induction b e rule: re_write_pending.induct)
  case (1 b e)
  have "re_err (re_write_byte b e) = 0"
    using "1.prems" "1.IH" [OF refl refl]
    by (subst (asm) re_write_pending.simps) (auto simp: Let_def split: if_splits)
  then show ?case by (rule re_write_byte_sticky)
qed

lemma re_shift_sticky: "re_err (re_shift e) = 0 \<Longrightarrow> re_err e = 0"
  by (auto simp: re_shift_eq re_carry_out_def Let_def split: if_splits
      dest: re_write_byte_sticky re_write_pending_sticky)

lemma re_shift_rng: "unat (re_rng e) \<le> 2 ^ 23 \<Longrightarrow> unat (re_rng (re_shift e)) = 256 * unat (re_rng e)"
  using unat_push_8 [of "re_rng e"] by (simp add: re_shift_eq)

lemma re_normalize_wide: "2 ^ 23 < unat (re_rng e) \<Longrightarrow> re_normalize e = Some e \<and> shifts (unat (re_rng e)) = 0"
  by (subst re_normalize.simps, subst shifts.simps) (simp add: word_le_nat_alt ec)

lemma re_normalize_narrow:
  "0 < unat (re_rng e) \<Longrightarrow> unat (re_rng e) \<le> 2 ^ 23 \<Longrightarrow>
    re_normalize e = re_normalize (re_shift e) \<and> shifts (unat (re_rng e)) = Suc (shifts (256 * unat (re_rng e)))"
  by (subst re_normalize.simps, subst shifts.simps) (simp add: word_le_nat_alt ec)

lemma re_normalize_returns: "0 < unat (re_rng e) \<Longrightarrow> \<exists>e'. re_normalize e = Some e' \<and> (re_err e' = 0 \<longrightarrow> re_err e = 0)"
proof (induction "unat (re_rng e)" arbitrary: e rule: shifts.induct)
  case 1
  show ?case
  proof (cases "unat (re_rng e) \<le> 2 ^ 23")
    case True
    have "\<exists>e'. re_normalize (re_shift e) = Some e' \<and> (re_err e' = 0 \<longrightarrow> re_err (re_shift e) = 0)"
      using True "1.prems" by (intro "1.hyps") (simp_all add: re_shift_rng)
    then show ?thesis using re_normalize_narrow [OF "1.prems" True] re_shift_sticky by auto
  next
    case False
    then show ?thesis using re_normalize_wide [of e] by simp
  qed
qed

lemma re_normalize_ok:
  assumes "re_pre e" "unat (re_ext e) + shifts (unat (re_rng e)) < 2 ^ 32" "re_normalize e = Some e'" "re_err e' = 0"
  shows "re_pre e' \<and> re_low e' = 256 ^ shifts (unat (re_rng e)) * re_low e \<and>
    unat (re_rng e') = 256 ^ shifts (unat (re_rng e)) * unat (re_rng e) \<and>
    length (re_digits e') = length (re_digits e) + shifts (unat (re_rng e)) \<and>
    unat (re_ext e') \<le> unat (re_ext e) + shifts (unat (re_rng e)) \<and>
    re_end_offs e' = re_end_offs e \<and> re_storage e' = re_storage e \<and> re_nend_bits e' = re_nend_bits e"
  using assms
proof (induction "unat (re_rng e)" arbitrary: e rule: shifts.induct)
  case 1
  have pos: "0 < unat (re_rng e)" using "1.prems"(1) by (simp add: re_pre_def)
  show ?case
  proof (cases "unat (re_rng e) \<le> 2 ^ 23")
    case True
    note nar = re_normalize_narrow [OF pos True]
    have rng: "unat (re_rng (re_shift e)) = 256 * unat (re_rng e)" using True by (rule re_shift_rng)
    have norm: "re_normalize (re_shift e) = Some e'" using nar "1.prems"(3) by simp
    have "re_err (re_shift e) = 0"
      using re_normalize_returns [of "re_shift e"] pos norm "1.prems"(4) by (auto simp: rng)
    note sh = re_shift_ok [OF "1.prems"(1) True _ this]
    have sh: "re_pre (re_shift e)" "re_low (re_shift e) = 256 * re_low e"
      "length (re_digits (re_shift e)) = length (re_digits e) + 1" "unat (re_ext (re_shift e)) \<le> unat (re_ext e) + 1"
      "re_end_offs (re_shift e) = re_end_offs e" "re_storage (re_shift e) = re_storage e"
      "re_nend_bits (re_shift e) = re_nend_bits e"
      using sh "1.prems"(2) nar by auto
    have "unat (re_ext (re_shift e)) + shifts (unat (re_rng (re_shift e))) < 2 ^ 32"
      using sh(4) nar "1.prems"(2) by (simp add: rng)
    from "1.hyps" [OF _ _ sh(1) this norm "1.prems"(4)] pos True rng
    show ?thesis using sh nar by (simp add: mult.assoc mult.left_commute)
  next
    case False
    then show ?thesis using re_normalize_wide [of e] "1.prems" by simp
  qed
qed

section \<open>Encoding a symbol\<close>

definition re_takes :: "range_encoder \<Rightarrow> nat \<Rightarrow> nat \<Rightarrow> range_encoder option \<Rightarrow> bool" where
  "re_takes e a b r \<longleftrightarrow>
    (\<exists>v w. r = re_normalize (e\<lparr>re_val := v, re_rng := w\<rparr>) \<and> 0 < b \<and> a + b \<le> unat (re_rng e) \<and>
      unat v = unat (re_val e) + a \<and> unat w = b)"

lemma unat_cut:
  assumes "b \<le> a" "a \<le> (ft :: u32)"
  shows "unat (rng div ft * (a - b)) = unat rng div unat ft * (unat a - unat b)"
    "unat rng div unat ft * (unat a - unat b) \<le> unat rng"
proof -
  show le: "unat rng div unat ft * (unat a - unat b) \<le> unat rng" using assms(2)
    by (intro div_mult_le_nat) (simp add: word_le_nat_alt)
  then have "unat rng div unat ft * (unat a - unat b) < 2 ^ 32" using unat_u32 [of rng] by simp
  then show "unat (rng div ft * (a - b)) = unat rng div unat ft * (unat a - unat b)"
    using assms(1) by (simp add: unat_word_ariths(2) unat_sub unat_div)
qed

lemma re_encode_takes:
  assumes fit: "unat (re_val e) + unat (re_rng e) < 2 ^ 32"
    and F: "0 < unat ft" "unat ft \<le> unat (re_rng e)" and LH: "unat fl < unat fh" "unat fh \<le> unat ft"
  shows "re_takes e (cut_low (unat (re_rng e)) (unat ft) (unat fl))
    (cut_size (unat (re_rng e)) (unat ft) (unat fl) (unat fh)) (re_encode fl fh ft e)"
proof -
  let ?R = "unat (re_rng e)" and ?r = "re_rng e div ft"
  have le: "fh \<le> ft" "fl \<le> fh" "fl \<le> ft" using LH by (simp_all add: word_le_nat_alt)
  have ft0: "ft \<noteq> 0" using F by auto
  have pos: "0 < cut_size ?R (unat ft) (unat fl) (unat fh)" by (rule cut_size_pos [OF F LH])
  have tot: "cut_low ?R (unat ft) (unat fl) + cut_size ?R (unat ft) (unat fl) (unat fh) \<le> ?R"
    unfolding cut_total [OF LH] by simp
  have m: "unat (?r * (ft - fl)) = ?R div unat ft * (unat ft - unat fl)" "?R div unat ft * (unat ft - unat fl) \<le> ?R"
    "unat (?r * (ft - fh)) = ?R div unat ft * (unat ft - unat fh)" "?R div unat ft * (unat ft - unat fh) \<le> ?R"
    "unat (?r * (fh - fl)) = ?R div unat ft * (unat fh - unat fl)"
    using le by (auto intro: unat_cut)
  have sub: "unat (re_rng e - ?r * (ft - fl)) = ?R - ?R div unat ft * (unat ft - unat fl)"
    "unat (re_rng e - ?r * (ft - fh)) = ?R - ?R div unat ft * (unat ft - unat fh)"
    using m by (simp_all add: unat_sub word_le_nat_alt)
  show ?thesis
  proof (cases "0 < fl")
    case True
    then have fl: "0 < unat fl" by (simp add: unat_gt_0 word_neq_0_conv)
    have "unat (re_val e + (re_rng e - ?r * (ft - fl))) = unat (re_val e) + (?R - ?R div unat ft * (unat ft - unat fl))"
      using fit by (simp add: unat_word_ariths(1) sub)
    then show ?thesis
      unfolding re_takes_def using True ft0 pos tot m(5) fl
      by (intro exI [of _ "re_val e + (re_rng e - ?r * (ft - fl))"] exI [of _ "?r * (fh - fl)"])
        (simp add: re_encode_def Let_def cut_low_def cut_size_def)
  next
    case False
    then have fl: "unat fl = 0" by (simp add: word_neq_0_conv [symmetric])
    show ?thesis
      unfolding re_takes_def using False ft0 pos tot sub(2) fl
      by (intro exI [of _ "re_val e"] exI [of _ "re_rng e - ?r * (ft - fh)"])
        (simp add: re_encode_def Let_def cut_low_def cut_size_def)
  qed
qed

fun re_op :: "coder_op \<Rightarrow> nat \<Rightarrow> range_encoder \<Rightarrow> range_encoder option" where
  "re_op (Cdf cdf) y e = re_encode_cdf (int y) cdf e"
| "re_op (Window base start n) y e = re_encode_cdf_window (int y) base start n e"
| "re_op (Icdf icdf ftb) y e = re_encode_icdf (int y) icdf ftb e"
| "re_op (Logp n) y e = re_bit_logp (int y) n e"
| "re_op (Raw n) y e = re_encode_raw_symbol (word_of_nat y) n e"
| "re_op Fine y e = re_encode_64_fine_sym (int y) e"
| "re_op (Uint ft) y e = re_encode_uint (word_of_nat y) ft e"

lemma re_cdf_takes:
  assumes fit: "unat (re_val e) + unat (re_rng e) < 2 ^ 32" and wide: "2 ^ 16 \<le> unat (re_rng e)"
    and t: "cdf_table cdf" and y: "y + 1 < length cdf" "cdf ! y < cdf ! (y + 1)"
  shows "re_takes e (cut_low (unat (re_rng e)) (cdf_total cdf) (cdf_bound cdf y))
    (cut_size (unat (re_rng e)) (cdf_total cdf) (cdf_bound cdf y) (cdf_bound cdf (y + 1)))
    (re_encode_cdf (int y) cdf e)"
proof -
  let ?tab = "\<lambda>i. ucast (cdf ! i) :: u32" and ?n = "length cdf"
  have n: "2 \<le> ?n" and asc: "?tab 0 < ?tab (?n - 1)"
    using t by (simp_all add: cdf_table_def word_less_nat_alt unat_ucast_16)
  have b: "unat (?tab (?n - 1) - ?tab 0) = cdf_total cdf" "unat (?tab y - ?tab 0) = cdf_bound cdf y"
    "unat (?tab (y + 1) - ?tab 0) = cdf_bound cdf (y + 1)"
    using y n by (simp_all add: cdf_bound_unat [OF t] cdf_total_def cdf_bound_def del: One_nat_def)
  have F: "0 < cdf_total cdf" "cdf_total cdf \<le> unat (re_rng e)"
    using cdf_total_pos [OF t] unat_u16 [of "cdf ! (?n - 1)"] wide by (simp_all add: cdf_total_def)
  have "unat (cdf ! 0) \<le> unat (cdf ! y)" using cdf_mono [OF t, of 0 y] y by simp
  then have lt: "cdf_bound cdf y < cdf_bound cdf (y + 1)"
    using y(2) by (simp add: cdf_bound_def word_less_nat_alt)
  have "re_encode_cdf (int y) cdf e = re_encode (?tab y - ?tab 0) (?tab (y + 1) - ?tab 0) (?tab (?n - 1) - ?tab 0) e"
    using n y not_le [THEN iffD2, OF asc] by (simp add: re_encode_cdf_def Let_def nat_add_distrib Suc_eq_plus1 del: One_nat_def)
  then show ?thesis
    using re_encode_takes [OF fit, of "?tab (?n - 1) - ?tab 0" "?tab y - ?tab 0" "?tab (y + 1) - ?tab 0", unfolded b,
        OF F lt cdf_bound_total [OF t y(1)]] by simp
qed

lemma re_uniform_takes:
  assumes fit: "unat (re_val e) + unat (re_rng e) < 2 ^ 32" and F: "unat ft \<le> unat (re_rng e)" and y: "y < unat ft"
  shows "re_takes e (cut_low (unat (re_rng e)) (unat ft) y) (cut_size (unat (re_rng e)) (unat ft) y (y + 1))
    (re_encode (word_of_nat y) (word_of_nat y + 1) ft e)"
proof -
  have y32: "y + 1 < 2 ^ 32" using y unat_u32 [of ft] by simp
  then have u: "unat (word_of_nat y :: u32) = y" "unat (word_of_nat y + 1 :: u32) = y + 1"
    by (simp_all add: unat_of_nat unat_word_ariths(1))
  show ?thesis
    using re_encode_takes [OF fit _ F, of "word_of_nat y" "word_of_nat y + 1"] y by (simp add: u)
qed

lemma re_bit_logp_takes:
  assumes fit: "unat (re_val e) + unat (re_rng e) < 2 ^ 32" and wide: "2 ^ 23 \<le> unat (re_rng e)"
    and n: "0 < n" "n \<le> 23" and y: "y < 2"
  shows "re_takes e (op_low (Logp n) (unat (re_rng e)) y) (op_size (Logp n) (unat (re_rng e)) y)
    (re_bit_logp (int y) n e)"
proof -
  let ?R = "unat (re_rng e)" and ?s = "drop_bit n (re_rng e)"
  have s: "unat ?s = ?R div 2 ^ n" by (rule unat_drop_bit)
  have "(2 :: nat) ^ n \<le> 2 ^ 23" using n by (intro power_increasing) simp_all
  then have pos: "0 < ?R div 2 ^ n" using wide by (simp add: div_greater_zero_iff)
  have lt: "?R div 2 ^ n < ?R" using n wide by (intro div_less_dividend one_less_power) simp_all
  have r2: "unat (re_rng e - ?s) = ?R - ?R div 2 ^ n" using lt s by (simp add: unat_sub word_le_nat_alt)
  show ?thesis
  proof (cases "y = 0")
    case True
    show ?thesis unfolding re_takes_def using True lt r2
      by (intro exI [of _ "re_val e"] exI [of _ "re_rng e - ?s"]) (simp add: re_bit_logp_def Let_def)
  next
    case False
    have v: "unat (re_val e + (re_rng e - ?s)) = unat (re_val e) + (?R - ?R div 2 ^ n)"
      using fit by (simp add: unat_word_ariths(1) r2)
    show ?thesis unfolding re_takes_def using False lt s pos v
      by (intro exI [of _ "re_val e + (re_rng e - ?s)"] exI [of _ ?s]) (simp add: re_bit_logp_def Let_def)
  qed
qed

lemma re_icdf_takes:
  assumes fit: "unat (re_val e) + unat (re_rng e) < 2 ^ 32"
    and R: "2 ^ 23 \<le> unat (re_rng e)" "unat (re_rng e) \<le> 2 ^ 31"
    and t: "icdf_table icdf ftb" and y: "op_codable (Icdf icdf ftb) y"
  shows "re_takes e (icdf_low icdf ftb (unat (re_rng e)) y) (icdf_size icdf ftb (unat (re_rng e)) y)
    (re_encode_icdf (int y) icdf ftb e)"
proof -
  let ?R = "unat (re_rng e)" and ?r = "drop_bit ftb (re_rng e)" and ?x = "\<lambda>k. unat (icdf ! k)"
  have len: "y < length icdf" using y by simp
  have ftb: "(2 :: nat) ^ ftb \<le> 2 ^ 23" using t by (intro power_increasing) (simp_all add: icdf_table_def)
  then have pos: "0 < ?R div 2 ^ ftb" using R(1) by (simp add: div_greater_zero_iff)
  note m = icdf_mult [OF t _ R(2)]
  show ?thesis
  proof (cases "y = 0")
    case True
    have "?R div 2 ^ ftb * ?x 0 < ?R div 2 ^ ftb * 2 ^ ftb"
      using t pos by (intro mult_strict_left_mono) (simp_all add: icdf_table_def)
    also have "\<dots> \<le> ?R" by simp
    finally have less: "?R div 2 ^ ftb * ?x 0 < ?R" .
    have w: "unat (re_rng e - ?r * ucast (icdf ! 0)) = ?R - ?R div 2 ^ ftb * ?x 0"
      using m [of 0] len True by (simp add: unat_sub word_le_nat_alt)
    show ?thesis unfolding re_takes_def using True less w len
      by (intro exI [of _ "re_val e"] exI [of _ "re_rng e - ?r * ucast (icdf ! 0)"])
        (simp add: re_encode_icdf_def Let_def icdf_low_def icdf_size_def)
  next
    case False
    let ?k = "y - 1"
    have k: "?k < length icdf" and lt: "?x y < ?x ?k" using len y False by (simp_all add: word_less_nat_alt)
    have nat: "nat (int y - 1) = ?k" using False by (simp add: nat_diff_distrib)
    have sub: "unat (icdf ! ?k - icdf ! y) = ?x ?k - ?x y" using lt by (simp add: unat_sub word_le_nat_alt)
    have le: "?R div 2 ^ ftb * (?x ?k - ?x y) \<le> ?R div 2 ^ ftb * ?x ?k" by simp
    have w: "unat (?r * ucast (icdf ! ?k - icdf ! y)) = ?R div 2 ^ ftb * (?x ?k - ?x y)"
    proof -
      have "?R div 2 ^ ftb * (?x ?k - ?x y) < 2 ^ 32"
        by (rule order.strict_trans1 [OF order.trans [OF le order.trans [OF m(2) [OF k] R(2)]]]) simp
      then show ?thesis
        by (simp add: unat_word_ariths(2) unat_drop_bit unat_ucast_8 sub del: drop_bit_eq_div One_nat_def)
    qed
    have v: "unat (re_val e + (re_rng e - ?r * ucast (icdf ! ?k))) = unat (re_val e) + (?R - ?R div 2 ^ ftb * ?x ?k)"
      using fit m [OF k] by (simp add: unat_word_ariths(1) unat_sub word_le_nat_alt)
    have pos': "0 < ?R div 2 ^ ftb * (?x ?k - ?x y)" using pos lt by simp
    have eq: "re_encode_icdf (int y) icdf ftb e =
      re_normalize (e\<lparr>re_val := re_val e + (re_rng e - ?r * ucast (icdf ! ?k)),
        re_rng := ?r * ucast (icdf ! ?k - icdf ! y)\<rparr>)"
      using len False by (simp add: re_encode_icdf_def Let_def nat)
    have tot: "(?R - ?R div 2 ^ ftb * ?x ?k) + ?R div 2 ^ ftb * (?x ?k - ?x y) \<le> ?R"
      using le_diff_conv2 [OF m(2) [OF k]] diff_add_assoc2 [OF m(2) [OF k], symmetric] add_le_mono [OF order_refl le]
        le_add_diff_inverse2 [OF m(2) [OF k]] by metis
    show ?thesis unfolding re_takes_def eq using False v w pos' tot
      by (intro exI [of _ "re_val e + (re_rng e - ?r * ucast (icdf ! ?k))"] exI [of _ "?r * ucast (icdf ! ?k - icdf ! y)"])
        (simp add: icdf_low_def icdf_size_def)
  qed
qed

definition re_ok :: "range_encoder \<Rightarrow> bool" where
  "re_ok e \<longleftrightarrow> re_pre e \<and> 2 ^ 23 < unat (re_rng e)"

text \<open>Even an encoder that has run out of room goes on: its registers stay in range.\<close>

definition re_fit :: "range_encoder \<Rightarrow> bool" where
  "re_fit e \<longleftrightarrow> 2 ^ 23 < unat (re_rng e) \<and> unat (re_rng e) \<le> 2 ^ 31 \<and> unat (re_val e) + unat (re_rng e) < 2 ^ 32"

lemma re_op_takes:
  assumes ok: "re_fit e" and v: "op_valid op" and y: "op_codable op y"
  shows "re_takes e (op_low op (unat (re_rng e)) y) (op_size op (unat (re_rng e)) y) (re_op op y e)"
proof -
  let ?R = "unat (re_rng e)"
  have fit: "unat (re_val e) + ?R < 2 ^ 32" and R: "2 ^ 23 \<le> ?R" "?R \<le> 2 ^ 31" "2 ^ 16 \<le> ?R"
    using ok by (simp_all add: re_fit_def)
  show ?thesis
  proof (cases op)
    case (Cdf cdf)
    then show ?thesis using v y re_cdf_takes [OF fit R(3)] by simp
  next
    case (Window base start n)
    then show ?thesis using v y re_cdf_takes [OF fit R(3)] by (simp add: re_window_eq)
  next
    case (Icdf icdf ftb)
    then show ?thesis using v y re_icdf_takes [OF fit R(1,2)] by simp
  next
    case (Logp n)
    then show ?thesis using v y re_bit_logp_takes [OF fit R(1), of n y] by simp
  next
    case (Raw n)
    with v have n: "n \<le> 16" by simp
    then have ft: "unat (push_bit n 1 :: u32) = 2 ^ n" by (intro unat_power_2) simp
    have "(2 :: nat) ^ n \<le> 2 ^ 16" using n by (intro power_increasing) simp_all
    then have "2 ^ n \<le> ?R" using R(3) by linarith
    then show ?thesis using y re_uniform_takes [OF fit, of "push_bit n 1" y, unfolded ft]
      by (simp add: Raw re_encode_raw_symbol_def)
  next
    case Fine
    then show ?thesis using y R(3) re_uniform_takes [OF fit, of 64 y] by (simp add: re_encode_64_fine_sym_def)
  next
    case (Uint ft)
    with v have ft: "0 < ft" "ft \<le> 256" by simp_all
    have "floorlog 2 (unat (ft - 1)) \<le> 8"
      using ft by (intro floorlog_leI) (simp_all add: word_less_nat_alt word_le_nat_alt unat_sub)
    then have "ilog (ft - 1) \<le> EC_UINT_BITS" by (simp add: ilog_def leading_zeros_def ec)
    then have "re_op op y e = re_encode (word_of_nat y) (word_of_nat y + 1) ft e"
      by (simp add: Uint re_encode_uint_def)
    moreover have "unat ft \<le> ?R" using ft(2) R(3) by (simp add: word_le_nat_alt)
    ultimately show ?thesis using y re_uniform_takes [OF fit, of ft y] by (simp add: Uint)
  qed
qed

text \<open>The parts of two symbols do not meet.\<close>

lemma cut_disjoint:
  assumes "L < H" "H \<le> L'" "L' \<le> F"
  shows "cut_low R F L + cut_size R F L H \<le> cut_low R F L'"
  using assms by (simp add: cut_total) (simp add: cut_low_def diff_le_mono2)

lemma op_disjoint:
  assumes v: "op_valid op" and y: "op_codable op y" "op_codable op y'" "y < y'" and R: "R \<le> 2 ^ 31"
  shows "op_low op R y + op_size op R y \<le> op_low op R y'"
proof -
  have cdf: "cut_low R (cdf_total cdf) (cdf_bound cdf y) + cut_size R (cdf_total cdf) (cdf_bound cdf y) (cdf_bound cdf (y + 1))
      \<le> cut_low R (cdf_total cdf) (cdf_bound cdf y')"
    if t: "cdf_table cdf" and "y' + 1 < length cdf" "cdf ! y < cdf ! (y + 1)" for cdf
  proof (rule cut_disjoint)
    show "cdf_bound cdf y < cdf_bound cdf (y + 1)"
      using that y(3) cdf_mono [OF t, of 0 y] by (simp add: cdf_bound_def word_less_nat_alt)
    show "cdf_bound cdf (y + 1) \<le> cdf_bound cdf y'" using that y(3) by (intro cdf_bound_le) simp_all
    show "cdf_bound cdf y' \<le> cdf_total cdf" using that by (intro cdf_bound_total) simp_all
  qed
  show ?thesis
  proof (cases op)
    case (Cdf cdf)
    then show ?thesis using v y cdf by simp
  next
    case (Window base start n)
    then show ?thesis using v y cdf by simp
  next
    case (Icdf icdf ftb)
    then have t: "icdf_table icdf ftb" using v by simp
    let ?x = "\<lambda>k. unat (icdf ! k)" and ?r = "R div 2 ^ ftb"
    have le: "?r * ?x k \<le> R" if "k < length icdf" for k
      using that icdf_antimono [OF t, of 0 k] t by (intro div_mult_le_nat) (simp add: icdf_table_def)
    have anti: "?r * ?x (y' - 1) \<le> ?r * ?x y"
      using y Icdf by (intro mult_le_mono2 icdf_antimono [OF t]) auto
    have "icdf_low icdf ftb R y + icdf_size icdf ftb R y \<le> R - ?r * ?x y"
    proof (cases "y = 0")
      case False
      have "?x y \<le> ?x (y - 1)" using y Icdf by (intro icdf_antimono [OF t]) auto
      then have "?r * ?x y \<le> ?r * ?x (y - 1)" by simp
      moreover have "?r * ?x (y - 1) \<le> R" using y Icdf by (intro le) auto
      ultimately show ?thesis using False by (simp add: icdf_low_def icdf_size_def diff_mult_distrib2)
    qed (simp add: icdf_low_def icdf_size_def)
    then have "op_low op R y + op_size op R y \<le> R - ?r * ?x y" by (simp add: Icdf)
    also have "\<dots> \<le> R - ?r * ?x (y' - 1)" by (rule diff_le_mono2 [OF anti])
    also have "\<dots> = op_low op R y'" using y(3) by (simp add: Icdf icdf_low_def)
    finally show ?thesis .
  next
    case (Logp n)
    then have "y = 0" "y' = 1" using y by simp_all
    then show ?thesis by (simp add: Logp)
  next
    case (Raw n)
    then show ?thesis using y by (simp add: cut_disjoint)
  next
    case Fine
    then show ?thesis using y by (simp add: cut_disjoint)
  next
    case (Uint ft)
    then show ?thesis using y by (simp add: cut_disjoint)
  qed
qed

section \<open>The number a stream spells\<close>

definition stream_byte :: "bytes \<Rightarrow> nat \<Rightarrow> nat" where
  "stream_byte buf i = (if i < length buf then unat (buf ! i) else 0)"

text \<open>The first \<open>n\<close> bytes, which are followed by zeros, as a number; the coder leaves the last bit
  of them to the next byte.\<close>

definition stream_num :: "bytes \<Rightarrow> nat \<Rightarrow> nat" where
  "stream_num buf n = num (map (stream_byte buf) [0..<n])"

definition code :: "bytes \<Rightarrow> nat \<Rightarrow> nat" where
  "code buf n = stream_num buf n div 2"

lemma stream_byte_less: "stream_byte buf i < 256"
proof -
  have "unat (b :: u8) < 256" for b using unsigned_less [of b] by simp
  then show ?thesis by (simp add: stream_byte_def)
qed

lemma stream_num_Suc: "stream_num buf (Suc n) = stream_num buf n * 256 + stream_byte buf n"
  by (simp add: stream_num_def)

lemma code_Suc:
  "code buf (Suc (Suc n)) =
    256 * code buf (Suc n) + (256 * stream_byte buf n + stream_byte buf (Suc n)) div 2 mod 256"
proof -
  let ?b = "stream_byte buf (Suc n)" and ?a = "stream_byte buf n" and ?x = "stream_num buf n"
  have b: "?b < 256" "?a < 256" by (rule stream_byte_less)+
  obtain p q where a: "?a = 2 * p + q" "q < 2" by (metis mod_less_divisor mult_div_mod_eq zero_less_numeral)
  have "stream_num buf (Suc n) = 2 * (128 * ?x + p) + q" by (simp add: stream_num_Suc a)
  then have c: "code buf (Suc n) = 128 * ?x + p" using a(2) by (simp add: code_def)
  have "stream_num buf (Suc (Suc n)) = 2 * (128 * (?x * 256 + ?a)) + ?b" by (simp add: stream_num_Suc)
  then have c2: "code buf (Suc (Suc n)) = 128 * (?x * 256 + ?a) + ?b div 2" by (simp add: code_def)
  have "(256 * ?a + ?b) div 2 = 128 * ?a + ?b div 2" by simp
  also have "\<dots> = 256 * p + (128 * q + ?b div 2)" by (simp add: a)
  finally have "(256 * ?a + ?b) div 2 mod 256 = 128 * q + ?b div 2" using a(2) b(1) by simp
  then show ?thesis unfolding c c2 by (simp add: a)
qed

text \<open>The decoder after \<open>n\<close> bytes, when the interval is \<open>[V, V + R)\<close>.\<close>

definition rd_sync :: "bytes \<Rightarrow> nat \<Rightarrow> nat \<Rightarrow> nat \<Rightarrow> range_decoder \<Rightarrow> bool" where
  "rd_sync buf n V R d \<longleftrightarrow> 0 < n \<and> length buf < 2 ^ 32 \<and> rd_buf d = buf \<and> unat (rd_storage d) = length buf \<and>
    unat (rd_offs d) = min n (length buf) \<and> rd_rem d = int (stream_byte buf (n - 1)) \<and>
    unat (rd_rng d) = R \<and> V \<le> code buf n \<and> code buf n < V + R \<and> unat (rd_val d) = V + R - 1 - code buf n"

lemma rd_read_byte_sync:
  assumes "rd_buf d = buf" "unat (rd_storage d) = length buf" "unat (rd_offs d) = min n (length buf)"
  shows "unat (fst (rd_read_byte d)) = stream_byte buf n"
    "unat (rd_offs (snd (rd_read_byte d))) = min (Suc n) (length buf)"
proof -
  have lt: "rd_offs d < rd_storage d \<longleftrightarrow> n < length buf" using assms by (auto simp: word_less_nat_alt)
  show "unat (fst (rd_read_byte d)) = stream_byte buf n"
    using assms by (simp add: rd_read_byte_def lt stream_byte_def unat_ucast_8)
  have "unat (rd_offs d + 1) = unat (rd_offs d) + 1" if "n < length buf"
    using that assms unat_u32 [of "rd_storage d"] by (simp add: unat_word_ariths(1))
  then show "unat (rd_offs (snd (rd_read_byte d))) = min (Suc n) (length buf)"
    using assms by (auto simp: rd_read_byte_def lt)
qed

lemma shift_arith:
  assumes "V \<le> c" "c < V + R" "x < (256 :: nat)"
  shows "256 * V \<le> 256 * c + x" "256 * c + x < 256 * V + 256 * R"
    "256 * (V + R - 1 - c) + (255 - x) = 256 * V + 256 * R - 1 - (256 * c + x)"
  using assms by linarith+

lemma rd_shift_sync:
  assumes s: "rd_sync buf n V R d" and R: "R \<le> 2 ^ 23"
  shows "rd_sync buf (Suc n) (256 * V) (256 * R) (rd_shift d)"
proof -
  note d = s [unfolded rd_sync_def]
  obtain m where n: "n = Suc m" using d by (cases n) auto
  let ?a = "stream_byte buf m" and ?b = "stream_byte buf n"
  have byte: "unat (fst (rd_read_byte d)) = ?b" "unat (rd_offs (snd (rd_read_byte d))) = min (Suc n) (length buf)"
    using rd_read_byte_sync [of d buf n] d by simp_all
  have "V + R - 1 - code buf n < R" using d by linarith
  then have small: "rd_rng d \<le> EC_CODE_BOT" "rd_val d < rd_rng d"
    using d R by (simp_all add: word_le_nat_alt word_less_nat_alt ec)
  have rng: "unat (rd_rng (rd_shift d)) = 256 * R" using rd_shift_rng [OF small(1)] d by simp
  have rem: "nat (rd_rem d) = ?a" "0 \<le> rd_rem d" "rd_rem d < 256" using d n stream_byte_less [of buf m] by simp_all
  have val: "unat (rd_val (rd_shift d)) = 256 * unat (rd_val d) + (255 - (256 * ?a + ?b) div 2 mod 256)"
    using rd_shift_val [OF small rem(2,3)] by (simp add: byte rem(1))
  let ?x = "(256 * ?a + ?b) div 2 mod 256"
  have x: "?x < 256" by simp
  have c: "code buf (Suc n) = 256 * code buf n + ?x" unfolding n by (rule code_Suc)
  have "uint (fst (rd_read_byte d)) = int ?b" using byte(1) by (simp add: uint_nat del: of_nat_unat)
  moreover have cv: "V \<le> code buf n" "code buf n < V + R" "unat (rd_val d) = V + R - 1 - code buf n"
    using d by blast+
  note ar = shift_arith [OF cv(1,2) x]
  have "unat (rd_val (rd_shift d)) = 256 * V + 256 * R - 1 - (256 * code buf n + ?x)"
    unfolding val cv(3) by (rule ar(3))
  ultimately show ?thesis using d rng byte(2) ar(1,2) unfolding rd_sync_def c by simp
qed

lemma rd_normalize_sync:
  "rd_sync buf n V R d \<Longrightarrow> 0 < R \<Longrightarrow>
    \<exists>d'. rd_normalize d = Some d' \<and> rd_sync buf (n + shifts R) (256 ^ shifts R * V) (256 ^ shifts R * R) d' \<and>
      rd_err d' = rd_err d"
proof (induction R arbitrary: n V d rule: shifts.induct)
  case (1 R)
  have rng: "unat (rd_rng d) = R" using "1.prems"(1) by (simp add: rd_sync_def)
  show ?case
  proof (cases "R \<le> 2 ^ 23")
    case True
    have "rd_normalize d = rd_normalize (rd_shift d)"
      using True rng by (subst rd_normalize.simps) (simp add: word_le_nat_alt ec)
    moreover have "shifts R = Suc (shifts (256 * R))" using True "1.prems"(2) by (subst shifts.simps) simp
    moreover have "0 < 256 * R" using "1.prems"(2) by simp
    note "1.IH" [OF _ rd_shift_sync [OF "1.prems"(1) True] this]
    ultimately show ?thesis using True "1.prems"(2) by (simp add: mult.assoc mult.left_commute)
  next
    case False
    then have "rd_normalize d = Some d" "shifts R = 0"
      using rng by (subst rd_normalize.simps, simp add: word_le_nat_alt ec) (subst shifts.simps, use False in simp)
    then show ?thesis using "1.prems"(1) by simp
  qed
qed

lemma rd_takes_sync:
  assumes s: "rd_sync buf n V R d" and t: "rd_takes d a b r"
  shows "V + a \<le> code buf n" "code buf n < V + a + b"
    "\<exists>d'. r = Some d' \<and> rd_sync buf (n + shifts b) (256 ^ shifts b * (V + a)) (256 ^ shifts b * b) d' \<and> rd_err d' = rd_err d"
proof -
  obtain e v w where r: "r = rd_normalize (d\<lparr>rd_ext := e, rd_val := v, rd_rng := w\<rparr>)"
    and b: "0 < b" "a + b \<le> R" "unat w = b"
    and v: "R - (a + b) \<le> unat (rd_val d)" "unat v = unat (rd_val d) - (R - (a + b))" "unat v < b"
    using t s unfolding rd_takes_def rd_sync_def by auto
  have c: "V \<le> code buf n" "code buf n < V + R" "unat (rd_val d) = V + R - 1 - code buf n"
    using s unfolding rd_sync_def by blast+
  show loc: "V + a \<le> code buf n" "code buf n < V + a + b" using b c v by linarith+
  have "unat v = V + a + b - 1 - code buf n" using b c v by linarith
  then have "rd_sync buf n (V + a) b (d\<lparr>rd_ext := e, rd_val := v, rd_rng := w\<rparr>)"
    using s loc b unfolding rd_sync_def by simp
  from rd_normalize_sync [OF this b(1)] show
    "\<exists>d'. r = Some d' \<and> rd_sync buf (n + shifts b) (256 ^ shifts b * (V + a)) (256 ^ shifts b * b) d' \<and> rd_err d' = rd_err d"
    unfolding r by simp
qed

lemma rd_sync_ok: "rd_sync buf n V R d \<Longrightarrow> 2 ^ 23 < R \<Longrightarrow> R \<le> 2 ^ 31 \<Longrightarrow> rd_ok d"
proof -
  assume s: "rd_sync buf n V R d" and R: "2 ^ 23 < R" "R \<le> 2 ^ 31"
  have "V + R - 1 - code buf n < R" using s unfolding rd_sync_def by linarith
  then show "rd_ok d" using s R stream_byte_less [of buf "n - 1"]
    by (simp add: rd_ok_def rd_pre_def rd_sync_def word_less_nat_alt ec)
qed

lemma code_drop: "0 < n \<Longrightarrow> code buf (n + j) div 256 ^ j = code buf n"
proof (induction j)
  case (Suc j)
  obtain m where n: "n + j = Suc m" using Suc.prems by (cases "n + j") auto
  have "code buf (n + Suc j) div 256 = code buf (n + j)"
    using code_Suc [of buf m] n by simp
  then have "code buf (n + Suc j) div 256 ^ Suc j = code buf (n + j) div 256 ^ j"
    by (simp add: div_mult2_eq)
  then show ?case using Suc by simp
qed simp

lemma code_drop_between:
  assumes "0 < n" "256 ^ j * x \<le> code buf (n + j)" "code buf (n + j) < 256 ^ j * y"
  shows "x \<le> code buf n" "code buf n < y"
proof -
  have "256 ^ j * x div 256 ^ j \<le> code buf (n + j) div 256 ^ j" using assms(2) by (rule div_le_mono)
  then show "x \<le> code buf n" by (simp add: code_drop assms(1))
  have "code buf (n + j) div 256 ^ j < y" using assms(3) by (intro less_mult_imp_div_less) (simp add: mult.commute)
  then show "code buf n < y" by (simp add: code_drop assms(1))
qed

section \<open>The two coders in step\<close>

text \<open>The number that the stream spells lies in the interval of the encoder; the decoder is where
  the encoder is.\<close>

definition re_inside :: "bytes \<Rightarrow> range_encoder \<Rightarrow> bool" where
  "re_inside buf e \<longleftrightarrow>
    re_low e \<le> code buf (length (re_digits e) + 4) \<and> code buf (length (re_digits e) + 4) < re_low e + unat (re_rng e)"

definition in_step :: "bytes \<Rightarrow> range_encoder \<Rightarrow> range_decoder \<Rightarrow> bool" where
  "in_step buf e d \<longleftrightarrow> rd_sync buf (length (re_digits e) + 4) (re_low e) (unat (re_rng e)) d \<and> rd_err d = 0"

text \<open>After \<open>n\<close> symbols at most \<open>3 * n\<close> bytes are pending.\<close>

definition re_good :: "nat \<Rightarrow> range_encoder \<Rightarrow> bool" where
  "re_good n e \<longleftrightarrow> re_ok e \<and> unat (re_ext e) \<le> 3 * n \<and> re_end_offs e = 0 \<and> re_nend_bits e = 0"

lemma re_takes_ok:
  assumes g: "re_good n e" and t: "re_takes e a b (Some e')" and err: "re_err e' = 0" and n: "n < 2 ^ 30"
  shows "re_good (Suc n) e'" "re_low e' = 256 ^ shifts b * (re_low e + a)" "unat (re_rng e') = 256 ^ shifts b * b"
    "length (re_digits e') = length (re_digits e) + shifts b" "re_storage e' = re_storage e" "shifts b \<le> 3"
proof -
  obtain v w where e': "re_normalize (e\<lparr>re_val := v, re_rng := w\<rparr>) = Some e'"
    and b: "0 < b" "a + b \<le> unat (re_rng e)" and v: "unat v = unat (re_val e) + a" "unat w = b"
    using t unfolding re_takes_def by metis
  let ?e = "e\<lparr>re_val := v, re_rng := w\<rparr>"
  have ok: "re_pre e" "unat (re_ext e) \<le> 3 * n" using g by (simp_all add: re_good_def re_ok_def)
  have R: "b \<le> 2 ^ 31" using ok b by (simp add: re_pre_def)
  note sh = shifts_le [OF b(1) R] shifts_range [OF b(1) R]
  have tail: "re_tail ?e = re_tail e" by simp
  have pre: "re_pre ?e" using ok(1) b v by (auto simp: re_pre_def)
  have ext: "unat (re_ext ?e) + shifts (unat (re_rng ?e)) < 2 ^ 32" using ok(2) sh(1) n v by simp
  note norm = re_normalize_ok [OF pre ext e' err]
  have low: "re_low ?e = re_low e + a" by (simp add: re_low_def v)
  show "re_low e' = 256 ^ shifts b * (re_low e + a)" "unat (re_rng e') = 256 ^ shifts b * b"
    "length (re_digits e') = length (re_digits e) + shifts b" "re_storage e' = re_storage e" "shifts b \<le> 3"
    using norm low v sh(1) by simp_all
  show "re_good (Suc n) e'" using norm g sh v by (simp add: re_good_def re_ok_def)
qed

lemma re_good_fit: "re_good n e \<Longrightarrow> re_fit e"
  by (simp add: re_good_def re_ok_def re_pre_def re_fit_def)

lemma re_normalize_fit:
  "0 < unat (re_rng e) \<Longrightarrow> unat (re_rng e) \<le> 2 ^ 31 \<Longrightarrow> unat (re_val e) + unat (re_rng e) < 2 ^ 32 \<Longrightarrow>
    re_normalize e = Some e' \<Longrightarrow> re_fit e'"
proof (induction "unat (re_rng e)" arbitrary: e rule: shifts.induct)
  case 1
  show ?case
  proof (cases "unat (re_rng e) \<le> 2 ^ 23")
    case True
    have rng: "unat (re_rng (re_shift e)) = 256 * unat (re_rng e)" using True by (rule re_shift_rng)
    have "unat (re_val (re_shift e)) < 2 ^ 31" by (simp add: re_shift_eq unat_and_top)
    then show ?thesis
      using "1.hyps" [of "re_shift e"] "1.prems" True rng re_normalize_narrow [OF "1.prems"(1) True] by simp
  next
    case False
    then show ?thesis using "1.prems" re_normalize_wide [of e] by (simp add: re_fit_def)
  qed
qed

lemma re_takes_returns:
  assumes f: "re_fit e" and t: "re_takes e a b r"
  shows "\<exists>e'. r = Some e' \<and> re_fit e' \<and> (re_err e' = 0 \<longrightarrow> re_err e = 0)"
proof -
  obtain v w where r: "r = re_normalize (e\<lparr>re_val := v, re_rng := w\<rparr>)"
    and b: "0 < b" "a + b \<le> unat (re_rng e)" and v: "unat v = unat (re_val e) + a" "unat w = b"
    using t unfolding re_takes_def by metis
  obtain e' where e': "r = Some e'" "re_err e' = 0 \<longrightarrow> re_err e = 0"
    using re_normalize_returns [of "e\<lparr>re_val := v, re_rng := w\<rparr>"] b v by (auto simp: r)
  moreover have "re_fit e'"
    using re_normalize_fit [of "e\<lparr>re_val := v, re_rng := w\<rparr>" e'] e'(1) b v f by (simp add: r re_fit_def)
  ultimately show ?thesis by blast
qed

section \<open>Streams of symbols\<close>

text \<open>What any pair of coders owes for its streams: the encoder always comes back; one that did not
  run out of room kept its invariant; a stream that is inside of what the encoder has narrowed to
  was inside before; and the decoder, in step with the encoder, finds the symbol.\<close>

primrec encode_all :: "('o \<Rightarrow> 's \<Rightarrow> 'e \<Rightarrow> 'e option) \<Rightarrow> ('o \<times> 's) list \<Rightarrow> 'e \<Rightarrow> 'e option" where
  "encode_all put [] e = Some e"
| "encode_all put (x # xs) e = (case put (fst x) (snd x) e of None \<Rightarrow> None | Some e \<Rightarrow> encode_all put xs e)"

locale stream_coder =
  fixes put :: "'o \<Rightarrow> 's \<Rightarrow> 'e \<Rightarrow> 'e option" and get :: "'o \<Rightarrow> 'd \<Rightarrow> ('s \<times> 'd) option"
    and legal :: "'o \<times> 's \<Rightarrow> bool" and alive :: "'e \<Rightarrow> bool" and fit :: "'e \<Rightarrow> bool"
    and good :: "nat \<Rightarrow> 'e \<Rightarrow> bool" and limit :: nat
    and inside :: "'e \<Rightarrow> bool" and sync :: "'e \<Rightarrow> 'd \<Rightarrow> bool"
  assumes put_returns: "fit e \<Longrightarrow> legal x \<Longrightarrow> \<exists>e'. put (fst x) (snd x) e = Some e' \<and> fit e' \<and> (alive e' \<longrightarrow> alive e)"
    and put_good: "good n e \<Longrightarrow> n < limit \<Longrightarrow> legal x \<Longrightarrow> put (fst x) (snd x) e = Some e' \<Longrightarrow> alive e' \<Longrightarrow>
      good (Suc n) e'"
    and put_inside: "good n e \<Longrightarrow> n < limit \<Longrightarrow> legal x \<Longrightarrow> put (fst x) (snd x) e = Some e' \<Longrightarrow> alive e' \<Longrightarrow>
      inside e' \<Longrightarrow> inside e"
    and get_put: "good n e \<Longrightarrow> n < limit \<Longrightarrow> legal x \<Longrightarrow> put (fst x) (snd x) e = Some e' \<Longrightarrow> alive e' \<Longrightarrow>
      inside e' \<Longrightarrow> sync e d \<Longrightarrow> \<exists>d'. get (fst x) d = Some (snd x, d') \<and> sync e' d'"
    and good_fit: "good n e \<Longrightarrow> fit e"
begin

lemma encode_returns:
  "fit e \<Longrightarrow> \<forall>x \<in> set xs. legal x \<Longrightarrow> \<exists>e'. encode_all put xs e = Some e' \<and> fit e' \<and> (alive e' \<longrightarrow> alive e)"
proof (induction xs arbitrary: e)
  case (Cons x xs)
  obtain e1 where e1: "put (fst x) (snd x) e = Some e1" "fit e1" "alive e1 \<longrightarrow> alive e"
    using put_returns [of e x] Cons.prems by auto
  from Cons.IH [OF e1(2)] Cons.prems(2) e1 show ?case by auto
qed simp

lemma stream_roundtrip:
  "good n e \<Longrightarrow> \<forall>x \<in> set xs. legal x \<Longrightarrow> n + length xs \<le> limit \<Longrightarrow> encode_all put xs e = Some e' \<Longrightarrow> alive e' \<Longrightarrow>
    good (n + length xs) e' \<and> (inside e' \<longrightarrow> inside e \<and>
      (\<forall>d. sync e d \<longrightarrow> (\<exists>d'. decode_all get (map fst xs) d = Some (map snd xs, d') \<and> sync e' d')))"
proof (induction xs arbitrary: n e)
  case (Cons x xs)
  have lx: "legal x" "n < limit" and fit: "fit e" using Cons.prems good_fit by auto
  obtain e1 where e1: "put (fst x) (snd x) e = Some e1" "fit e1"
    using put_returns [OF fit lx(1)] by auto
  have run: "encode_all put xs e1 = Some e'" using Cons.prems(4) e1(1) by simp
  then have a1: "alive e1" using encode_returns [OF e1(2), of xs] Cons.prems(2,5) by auto
  note g1 = put_good [OF Cons.prems(1) lx(2,1) e1(1) a1]
  have rest: "good (Suc n + length xs) e' \<and> (inside e' \<longrightarrow> inside e1 \<and>
      (\<forall>d. sync e1 d \<longrightarrow> (\<exists>d'. decode_all get (map fst xs) d = Some (map snd xs, d') \<and> sync e' d')))"
    using Cons.prems by (intro Cons.IH [OF g1 _ _ run]) auto
  have "inside e \<and> (\<forall>d. sync e d \<longrightarrow> (\<exists>d'. decode_all get (map fst (x # xs)) d = Some (map snd (x # xs), d') \<and> sync e' d'))"
    if "inside e'"
  proof -
    have i1: "inside e1" using rest that by blast
    then have "inside e" by (rule put_inside [OF Cons.prems(1) lx(2,1) e1(1) a1])
    moreover have "\<exists>d'. decode_all get (map fst (x # xs)) d = Some (map snd (x # xs), d') \<and> sync e' d'" if s: "sync e d" for d
    proof -
      obtain d1 where d1: "get (fst x) d = Some (snd x, d1)" "sync e1 d1"
        using get_put [OF Cons.prems(1) lx(2,1) e1(1) a1 i1 s] by blast
      obtain d' where "decode_all get (map fst xs) d1 = Some (map snd xs, d')" "sync e' d'"
        using rest d1(2) \<open>inside e'\<close> by blast
      with d1 show ?thesis by simp
    qed
    ultimately show ?thesis by blast
  qed
  then show ?case using rest by simp
qed simp

end

definition coder_legal :: "coder_op \<times> nat \<Rightarrow> bool" where
  "coder_legal x \<longleftrightarrow> op_valid (fst x) \<and> op_codable (fst x) (snd x)"

lemma re_op_inside:
  assumes g: "re_good n e" "n < 2 ^ 30" and l: "coder_legal x" and p: "re_op (fst x) (snd x) e = Some e'"
    and err: "re_err e' = 0" and i: "re_inside buf e'"
  defines "R \<equiv> unat (re_rng e)" and "k \<equiv> length (re_digits e) + 4"
  defines "a \<equiv> op_low (fst x) R (snd x)" and "b \<equiv> op_size (fst x) R (snd x)"
  shows "re_low e + a \<le> code buf k" "code buf k < re_low e + a + b" "a + b \<le> R"
    "re_low e' = 256 ^ shifts b * (re_low e + a)" "unat (re_rng e') = 256 ^ shifts b * b"
    "length (re_digits e') = length (re_digits e) + shifts b"
proof -
  have t: "re_takes e a b (Some e')"
    using re_op_takes [OF re_good_fit [OF g(1)], of "fst x" "snd x"] l p by (simp add: coder_legal_def a_def b_def R_def)
  note tk = re_takes_ok [OF g(1) t err g(2)]
  show "re_low e' = 256 ^ shifts b * (re_low e + a)" "unat (re_rng e') = 256 ^ shifts b * b"
    "length (re_digits e') = length (re_digits e) + shifts b" using tk by blast+
  show "a + b \<le> R" using t unfolding re_takes_def R_def by blast
  have "256 ^ shifts b * (re_low e + a) \<le> code buf (k + shifts b)"
    "code buf (k + shifts b) < 256 ^ shifts b * (re_low e + a + b)"
    using i by (simp_all add: re_inside_def tk k_def add.commute add.left_commute distrib_left)
  moreover have "0 < k" by (simp add: k_def)
  ultimately show "re_low e + a \<le> code buf k" "code buf k < re_low e + a + b" by (blast intro: code_drop_between)+
qed

lemma rd_op_in_step:
  assumes g: "re_good n e" "n < 2 ^ 30" and l: "coder_legal x" and p: "re_op (fst x) (snd x) e = Some e'"
    and err: "re_err e' = 0" and i: "re_inside buf e'" and s: "in_step buf e d"
  shows "\<exists>d'. rd_op (fst x) d = Some (snd x, d') \<and> in_step buf e' d'"
proof -
  let ?R = "unat (re_rng e)" and ?k = "length (re_digits e) + 4" and ?y = "snd x" and ?op = "fst x"
  note w = re_op_inside [OF g l p err i]
  have sy: "rd_sync buf ?k (re_low e) ?R d" "rd_err d = 0" using s by (simp_all add: in_step_def)
  have R: "2 ^ 23 < ?R" "?R \<le> 2 ^ 31" using re_good_fit [OF g(1)] by (simp_all add: re_fit_def)
  have rng: "unat (rd_rng d) = ?R" using sy by (simp add: rd_sync_def)
  have legal: "op_valid ?op" "op_codable ?op ?y" using l by (simp_all add: coder_legal_def)
  obtain y' r where y': "op_codable ?op y'" "rd_op ?op d = returning y' r"
    and t: "rd_takes d (op_low ?op ?R y') (op_size ?op ?R y') r"
    using rd_op_takes [OF rd_sync_ok [OF sy(1) R] legal(1)] unfolding rng by blast
  note ts = rd_takes_sync [OF sy(1) t]
  have "y' = ?y"
  proof (rule linorder_cases [of y' ?y])
    assume "y' < ?y"
    from op_disjoint [OF legal(1) y'(1) legal(2) this R(2)] show ?thesis using ts(2) w(1) by linarith
  next
    assume "?y < y'"
    from op_disjoint [OF legal y'(1) this R(2)] show ?thesis using ts(1) w(2) by linarith
  qed
  obtain d' where d': "r = Some d'" "rd_err d' = rd_err d"
    "rd_sync buf (?k + shifts (op_size ?op ?R y')) (256 ^ shifts (op_size ?op ?R y') * (re_low e + op_low ?op ?R y'))
      (256 ^ shifts (op_size ?op ?R y') * op_size ?op ?R y') d'"
    using ts(3) by blast
  have len: "length (re_digits e') + 4 = ?k + shifts (op_size ?op ?R ?y)" by (simp add: w(6))
  have "in_step buf e' d'"
    unfolding in_step_def len w(4,5) using d'(2,3) sy(2) unfolding \<open>y' = ?y\<close> by simp
  then show ?thesis using y'(2) d'(1) \<open>y' = ?y\<close> by (simp add: returning_def)
qed

interpretation mlow: stream_coder re_op rd_op coder_legal "\<lambda>e. re_err e = 0" re_fit re_good "2 ^ 30"
  "re_inside buf" "in_step buf" for buf :: bytes
proof
  fix e and x :: "coder_op \<times> nat"
  assume f: "re_fit e" and l: "coder_legal x"
  have t: "re_takes e (op_low (fst x) (unat (re_rng e)) (snd x)) (op_size (fst x) (unat (re_rng e)) (snd x)) (re_op (fst x) (snd x) e)"
    using re_op_takes [OF f] l by (simp add: coder_legal_def)
  show "\<exists>e'. re_op (fst x) (snd x) e = Some e' \<and> re_fit e' \<and> (re_err e' = 0 \<longrightarrow> re_err e = 0)"
    by (rule re_takes_returns [OF f t])
next
  fix n e and x :: "coder_op \<times> nat" and e'
  assume a: "re_good n e" "n < 2 ^ 30" "coder_legal x" "re_op (fst x) (snd x) e = Some e'" "re_err e' = 0"
  have t: "re_takes e (op_low (fst x) (unat (re_rng e)) (snd x)) (op_size (fst x) (unat (re_rng e)) (snd x)) (Some e')"
    using re_op_takes [OF re_good_fit [OF a(1)], of "fst x" "snd x"] a(3,4) by (simp add: coder_legal_def)
  show "re_good (Suc n) e'" by (rule re_takes_ok(1) [OF a(1) t a(5,2)])
  show "re_inside buf e" if "re_inside buf e'"
    using re_op_inside [OF a that] unfolding re_inside_def by linarith
  show "\<exists>d'. rd_op (fst x) d = Some (snd x, d') \<and> in_step buf e' d'" if "re_inside buf e'" "in_step buf e d" for d
    by (rule rd_op_in_step [OF a that])
qed (rule re_good_fit)

section \<open>The start of a stream\<close>

lemma re_new_good: "n < 2 ^ 32 \<Longrightarrow> re_good 0 (new_range_encoder n)"
  by (simp add: re_good_def re_ok_def re_pre_def re_tail_def re_room_def new_range_encoder_def ec unat_of_nat)

lemma re_new_low:
  "re_low (new_range_encoder n) = 0" "re_digits (new_range_encoder n) = []" "unat (re_rng (new_range_encoder n)) = 2 ^ 31"
  by (simp_all add: re_low_def re_digits_def re_written_def new_range_encoder_def ec)

lemma new_in_step:
  assumes "length buf < 2 ^ 32"
  shows "\<exists>d. new_range_decoder buf = Some d \<and> in_step buf (new_range_encoder n) d"
proof -
  let ?s = "rd_start buf" and ?b = "fst (rd_read_byte (rd_start buf))"
  obtain v where v: "unat v = 127 - unat ?b div 2"
    and new: "new_range_decoder buf = rd_normalize ((snd (rd_read_byte ?s))\<lparr>rd_rem := uint ?b, rd_val := v\<rparr>)"
    by (rule new_range_decoder_eq)
  have st: "rd_buf ?s = buf" "unat (rd_storage ?s) = length buf" "unat (rd_offs ?s) = min 0 (length buf)"
    using assms by (simp_all add: rd_start_def unat_of_nat)
  have b: "unat ?b = stream_byte buf 0" and o: "unat (rd_offs (snd (rd_read_byte ?s))) = min 1 (length buf)"
    using rd_read_byte_sync [OF st] by simp_all
  have "uint ?b = int (stream_byte buf 0)" using b by (simp add: uint_nat del: of_nat_unat)
  moreover have "code buf 1 = stream_byte buf 0 div 2" by (simp add: code_def stream_num_def num_def)
  moreover have "stream_byte buf 0 < 256" by (rule stream_byte_less)
  ultimately have "rd_sync buf 1 0 128 ((snd (rd_read_byte ?s))\<lparr>rd_rem := uint ?b, rd_val := v\<rparr>)"
    using assms st o v b by (simp add: rd_sync_def rd_start_def)
  from rd_normalize_sync [OF this] have
    "\<exists>d. new_range_decoder buf = Some d \<and> rd_sync buf (1 + shifts 128) (256 ^ shifts 128 * 0) (256 ^ shifts 128 * 128) d \<and> rd_err d = 0"
    unfolding new by (simp add: rd_start_def)
  moreover have "shifts 128 = 3" by (simp add: shifts.simps)
  ultimately show ?thesis by (simp add: in_step_def re_new_low)
qed

section \<open>The end of a stream\<close>

lemma unat_and_not_mask: "unat ((w :: u32) AND NOT (mask m)) = unat w div 2 ^ m * 2 ^ m"
proof -
  have "w AND NOT (mask m) = w - (w AND mask m)"
    by (subst disjunctive_diff) (auto intro!: bit_word_eqI simp: bit_simps)
  moreover have "w AND mask m \<le> w" by (simp add: word_and_le2)
  ultimately have "unat (w AND NOT (mask m)) = unat w - unat w mod 2 ^ m"
    by (simp add: unat_sub unat_and_mask)
  then show ?thesis by (simp add: minus_mod_eq_div_mult)
qed

lemma unat_mask: "m < 32 \<Longrightarrow> unat (mask m :: u32) = 2 ^ m - 1"
proof -
  assume m: "m < 32"
  have "unat (mask m :: u32) = unat (push_bit m (1 :: u32) - 1)" by (simp add: mask_eq_exp_minus_1 push_bit_eq_mult)
  also have "\<dots> = unat (push_bit m (1 :: u32)) - 1"
    using unat_power_2 [OF m] by (subst unat_sub) (simp_all add: word_le_nat_alt)
  finally show ?thesis by (simp only: unat_power_2 [OF m])
qed

lemma unat_or_mask:
  assumes m: "m < 32"
  shows "unat (((w :: u32) AND NOT (mask m)) OR mask m) = unat w div 2 ^ m * 2 ^ m + (2 ^ m - 1)"
proof -
  have "(w AND NOT (mask m)) AND mask m = 0" by (rule bit_word_eqI) (auto simp: bit_simps)
  then have or: "(w AND NOT (mask m)) OR mask m = (w AND NOT (mask m)) + mask m"
    by (rule disjunctive_add_eq_or [symmetric])
  have p: "(2 :: nat) ^ 32 = 2 ^ (32 - m) * 2 ^ m" using m by (simp flip: power_add)
  have "unat w div 2 ^ m < 2 ^ (32 - m)"
    using unat_u32 [of w] unfolding p by (rule less_mult_imp_div_less)
  then have "(unat w div 2 ^ m + 1) * 2 ^ m \<le> 2 ^ 32" unfolding p by (intro mult_le_mono1) simp
  then have "unat w div 2 ^ m * 2 ^ m + 2 ^ m \<le> 2 ^ 32" by simp
  moreover have "(0 :: nat) < 2 ^ m" by simp
  ultimately have "unat w div 2 ^ m * 2 ^ m + (2 ^ m - 1) < 2 ^ 32" by linarith
  then show ?thesis unfolding or by (simp add: unat_word_ariths(1) unat_and_not_mask unat_mask [OF m])
qed

lemma round_up:
  fixes v M :: nat assumes "0 < M"
  shows "v \<le> (v + (M - 1)) div M * M" "(v + (M - 1)) div M * M \<le> v + (M - 1)"
proof -
  let ?x = "v + (M - 1)"
  have "?x = ?x div M * M + ?x mod M" by simp
  moreover have "?x mod M \<le> M - 1" using assms by (simp add: less_eq_Suc_le [symmetric] Suc_leI less_Suc_eq_le [symmetric])
  ultimately show "v \<le> ?x div M * M" by linarith
  show "?x div M * M \<le> ?x" by simp
qed

lemma drop_mask_word: "n \<le> 32 \<Longrightarrow> drop_bit k (mask n) = (mask (n - k) :: u32)"
  by (rule bit_word_eqI) (auto simp: bit_simps)

text \<open>\<open>done\<close> picks a number in the interval all of whose continuations are in it.\<close>

lemma re_final_bits_ok:
  assumes f: "re_fit e"
  obtains m where "22 \<le> m" "m \<le> 31" "fst (re_final_bits e) = 31 - int m"
    "2 ^ m dvd unat (snd (re_final_bits e))" "unat (re_val e) \<le> unat (snd (re_final_bits e))"
    "unat (snd (re_final_bits e)) + 2 ^ m \<le> unat (re_val e) + unat (re_rng e)"
proof -
  let ?R = "unat (re_rng e)" and ?v = "unat (re_val e)"
  define q where "q = floorlog 2 ?R"
  have R: "2 ^ 23 < ?R" "?R \<le> 2 ^ 31" "?v + ?R < 2 ^ 32" using f by (simp_all add: re_fit_def)
  have q: "2 ^ (q - 1) \<le> ?R" "?R < 2 ^ q" unfolding q_def using floorlog_bounds [of ?R 2] R(1) by simp_all
  have q24: "24 \<le> q" unfolding q_def using R(1) by (intro floorlog_geI) simp_all
  have q32: "q \<le> 32" unfolding q_def using R(2) by (intro floorlog_leI) simp_all
  have up: "unat ((re_val e + mask m) AND NOT (mask m)) = (?v + (2 ^ m - 1)) div 2 ^ m * 2 ^ m"
    "unat (((re_val e + mask m) AND NOT (mask m)) OR mask m) = (?v + (2 ^ m - 1)) div 2 ^ m * 2 ^ m + (2 ^ m - 1)"
    if "m < q" for m
  proof -
    have m: "m < 32" using that q32 by simp
    have "(2 :: nat) ^ m \<le> 2 ^ (q - 1)" using that by (intro power_increasing) simp_all
    then have "?v + (2 ^ m - 1) < 2 ^ 32" using q(1) R(3) by linarith
    then have "unat (re_val e + mask m) = ?v + (2 ^ m - 1)"
      by (simp add: unat_word_ariths(1) unat_mask [OF m])
    then show "unat ((re_val e + mask m) AND NOT (mask m)) = (?v + (2 ^ m - 1)) div 2 ^ m * 2 ^ m"
      "unat (((re_val e + mask m) AND NOT (mask m)) OR mask m) = (?v + (2 ^ m - 1)) div 2 ^ m * 2 ^ m + (2 ^ m - 1)"
      by (simp_all add: unat_and_not_mask unat_or_mask [OF m])
  qed
  have l: "int EC_CODE_BITS - ilog (re_rng e) = int (32 - q)"
    using q32 by (simp add: ilog_def leading_zeros_def q_def ec)
  have top: "EC_CODE_TOP - 1 = mask 31" by (simp add: ec mask_numeral)
  have msk: "drop_bit (nat (int (32 - q)) mod 32) (EC_CODE_TOP - 1) = mask (q - 1)"
  proof -
    have n: "nat (int (32 - q)) mod 32 = 32 - q" using q24 by (simp add: nat_int del: of_nat_diff)
    have "drop_bit (32 - q) (mask 31) = (mask (31 - (32 - q)) :: u32)" by (rule drop_mask_word) simp
    moreover have "31 - (32 - q) = q - 1" using q32 by simp
    ultimately show ?thesis unfolding top n by simp
  qed
  have msk2: "drop_bit 1 (mask (q - 1)) = (mask (q - 2) :: u32)"
    using drop_mask_word [of "q - 1" 1] q32 by (simp add: numeral_2_eq_2)
  let ?en = "(re_val e + mask (q - 1)) AND NOT (mask (q - 1))"
  have sum: "unat (re_val e + re_rng e) = ?v + ?R" using R(3) by (simp add: unat_word_ariths(1))
  have bits: "re_final_bits e =
      (if re_val e + re_rng e \<le> ?en OR mask (q - 1)
       then (int (32 - q) + 1, (re_val e + mask (q - 2)) AND NOT (mask (q - 2))) else (int (32 - q), ?en))"
    by (simp only: re_final_bits_def Let_def l msk msk2)
  show ?thesis
  proof (cases "re_val e + re_rng e \<le> ?en OR mask (q - 1)")
    case False
    have ql: "q - 1 < q" using q24 by simp
    from False have lt: "unat (?en OR mask (q - 1)) < ?v + ?R" by (simp add: sum word_le_nat_alt not_le)
    show ?thesis
    proof (rule that [of "q - 1"])
      show "unat (snd (re_final_bits e)) + 2 ^ (q - 1) \<le> ?v + ?R"
      proof -
        have snd: "snd (re_final_bits e) = ?en" using False by (simp add: bits)
        have ar: "x + M \<le> s" if "x + (M - 1) < s" "0 < M" for x M s :: nat using that by simp
        show ?thesis unfolding snd up(1) [OF ql] by (rule ar [OF lt [unfolded up(2) [OF ql]]]) simp
      qed
    qed (use False q24 q32 round_up(1) [of "2 ^ (q - 1)" ?v] in \<open>simp_all add: bits up\<close>)
  next
    case True
    have p: "(2 :: nat) ^ (q - 1) = 2 * 2 ^ (q - 2)" using q24 by (simp flip: power_Suc add: Suc_diff_Suc numeral_2_eq_2)
    have M: "0 < (2 :: nat) ^ (q - 2)" by simp
    show ?thesis
    proof (rule that [of "q - 2"])
      have "(?v + (2 ^ (q - 2) - 1)) div 2 ^ (q - 2) * 2 ^ (q - 2) + 2 ^ (q - 2) \<le> ?v + ?R"
        using round_up(2) [of "2 ^ (q - 2)" ?v, OF M] q(1) M unfolding p by linarith
      then show "unat (snd (re_final_bits e)) + 2 ^ (q - 2) \<le> ?v + ?R" using True q24 by (simp add: bits up)
    qed (use True q24 q32 round_up(1) [of "2 ^ (q - 2)" ?v] in \<open>simp_all add: bits up\<close>)
  qed
qed

lemma uint_top_byte: "uint (drop_bit EC_CODE_SHIFT (w :: u32)) = int (unat w div 2 ^ 23)"
proof -
  have s: "EC_CODE_SHIFT = 23" by (simp add: ec_sizes)
  show ?thesis unfolding s by (simp only: unat_drop_bit [symmetric] uint_nat)
qed

lemma re_flush_end_stop: "l \<le> 0 \<Longrightarrow> re_flush_end en l e = e"
  by (subst re_flush_end.simps) simp

lemma re_flush_end_go:
  "0 < l \<Longrightarrow> re_flush_end en l e =
    re_flush_end (push_bit 8 en AND (EC_CODE_TOP - 1)) (l - 8) (re_carry_out (int (unat en div 2 ^ 23)) e)"
  by (subst re_flush_end.simps) (simp add: uint_top_byte EC_SYM_BITS_def)

lemma re_carry_out_sticky: "re_err (re_carry_out c e) = 0 \<Longrightarrow> re_err e = 0"
  by (auto simp: re_carry_out_def Let_def split: if_splits dest: re_write_byte_sticky re_write_pending_sticky)

text \<open>The carry of the flush finds a byte to go to.\<close>

lemma final_carry:
  assumes pre: "re_pre e" and hi: "unat en + 2 ^ m \<le> unat (re_val e) + unat (re_rng e)"
    and c: "256 \<le> unat en div 2 ^ 23"
  shows "0 \<le> re_rem e \<and> re_rem e < 255"
proof -
  have M: "0 < (2 :: nat) ^ m" by simp
  have "256 * 2 ^ 23 \<le> unat en div 2 ^ 23 * 2 ^ 23" using c by (intro mult_le_mono1)
  also have "\<dots> \<le> unat en" by simp
  finally have "2 ^ 31 \<le> unat en" by simp
  then have "2 ^ 31 < unat (re_val e) + unat (re_rng e)" using hi M by linarith
  then show ?thesis using pre by (auto simp: re_pre_def re_tail_def)
qed

text \<open>After the flush, the digits with their successors pin the interval.\<close>

lemma re_flush_ok:
  assumes g: "re_good n e" and n: "n \<le> 2 ^ 30" and m: "22 \<le> m" "m \<le> 31" and dvd: "2 ^ m dvd unat en"
    and lo: "unat (re_val e) \<le> unat en" and hi: "unat en + 2 ^ m \<le> unat (re_val e) + unat (re_rng e)"
    and err: "re_err (re_flush_end en (31 - int m) e) = 0"
  defines "e1 \<equiv> re_flush_end en (31 - int m) e"
  obtains t where "t \<le> 2" "31 - 8 * t \<le> m" "length (re_digits e1) = length (re_digits e) + t"
    "num (re_digits e1) * 2 ^ (31 - 8 * t) = num (re_digits e) * 2 ^ 31 + unat en"
    "re_tail e1" "unat (re_ext e1) \<le> unat (re_ext e) + t" "re_end_offs e1 = 0" "re_nend_bits e1 = 0"
proof -
  have pre: "re_pre e" and ext: "unat (re_ext e) \<le> 3 * n" and z: "re_end_offs e = 0" "re_nend_bits e = 0"
    using g by (simp_all add: re_good_def re_ok_def)
  note p = pre [unfolded re_pre_def]
  have tail: "re_tail e" using p by blast
  define c where "c = unat en div 2 ^ 23"
  have en32: "unat en < 2 ^ 32" by (rule unat_u32)
  then have c: "c < 512" unfolding c_def by (intro less_mult_imp_div_less) simp
  have carry: "0 \<le> re_rem e \<and> re_rem e < 255" if "256 \<le> c"
    by (rule final_carry [OF pre hi that [unfolded c_def]])
  have ext1: "unat (re_ext e) + 1 < 2 ^ 32" using ext n by simp
  consider "m = 31" | "23 \<le> m" "m \<le> 30" | "m = 22" using m by linarith
  then show ?thesis
  proof cases
    case 1
    have e1: "e1 = e" unfolding e1_def 1 by (rule re_flush_end_stop) simp
    have "2 ^ 31 \<le> unat (re_rng e)" using lo hi 1 by simp
    then have "unat en < 2 ^ 31" using p hi 1 by simp
    then have "unat en = 0" using dvd 1 dvd_imp_le [of "2 ^ 31" "unat en"] by (cases "unat en = 0") simp_all
    then show ?thesis using that [of 0] 1 tail z by (simp add: e1)
  next
    case 2
    have l: "0 < 31 - int m" "31 - int m - 8 \<le> 0" using 2 by simp_all
    have e1: "e1 = re_carry_out (int c) e"
      unfolding e1_def re_flush_end_go [OF l(1)] c_def by (rule re_flush_end_stop [OF l(2)])
    have "re_err (re_carry_out (int c) e) = 0" using err e1 by (simp add: e1_def)
    note co = re_carry_out_ok [OF tail c carry ext1 this, folded e1]
    have "2 ^ 23 dvd unat en" using dvd 2(1) by (meson dvd_trans le_imp_power_dvd)
    then have "unat en = c * 2 ^ 23" by (simp add: c_def)
    then show ?thesis using that [of 1] co 2 z by simp
  next
    case 3
    let ?en = "push_bit 8 en AND (EC_CODE_TOP - 1)" and ?e = "re_carry_out (int c) e"
    define c2 where "c2 = unat ?en div 2 ^ 23"
    have e1: "e1 = re_carry_out (int c2) ?e"
      unfolding e1_def 3 by (subst re_flush_end_go, simp, subst re_flush_end_go, simp)
        (simp add: re_flush_end_stop c2_def c_def)
    have err2: "re_err (re_carry_out (int c2) ?e) = 0" using err e1 by (simp add: e1_def)
    note co = re_carry_out_ok [OF tail c carry ext1 re_carry_out_sticky [OF err2]]
    have "unat (push_bit 8 en) = 256 * unat en mod 2 ^ 32"
      by (simp add: push_bit_eq_mult unat_word_ariths(2) mult.commute)
    then have "unat ?en = 256 * unat en mod 2 ^ 32 mod 2 ^ 31" by (simp add: unat_and_top)
    also have "\<dots> = 256 * (unat en mod 2 ^ 23)" by (simp add: mod_mod_cancel mult_mod_right)
    finally have en2: "unat ?en = 256 * (unat en mod 2 ^ 23)" .
    have "unat ?en < 2 ^ 31" by (simp add: unat_and_top)
    then have c2: "c2 < 256" unfolding c2_def by (intro less_mult_imp_div_less) simp
    have tail1: "re_tail ?e" and ext2: "unat (re_ext ?e) + 1 < 2 ^ 32" using co ext n by simp_all
    have c2': "c2 < 512" "256 \<le> c2 \<Longrightarrow> 0 \<le> re_rem ?e \<and> re_rem ?e < 255" using c2 by simp_all
    note co2 = re_carry_out_ok [OF tail1 c2' ext2 err2, folded e1]
    have "2 ^ 22 dvd unat en" using dvd 3 by simp
    then obtain x where x: "unat en = 2 ^ 22 * x" by (rule dvdE)
    have "unat en mod 2 ^ 23 = 2 ^ 22 * (x mod 2)" unfolding x by (simp add: mult_mod_right)
    then have c2eq: "c2 * 2 ^ 15 = unat en mod 2 ^ 23" unfolding c2_def en2 by simp
    have "unat en = c * 2 ^ 23 + unat en mod 2 ^ 23" by (simp add: c_def)
    then have "num (re_digits e1) * 2 ^ 15 = num (re_digits e) * 2 ^ 31 + unat en"
      using co co2 c2eq by simp
    then show ?thesis using that [of 2] co co2 3 z by simp
  qed
qed

lemma take_fold_zero: "n \<le> k \<Longrightarrow> take n (fold (\<lambda>i b. b[i := 0]) [k..<l] bs) = take n bs"
  by (induction l) (auto simp: take_update_cancel upt_Suc)

text \<open>The bytes that go out: the front of the buffer, up to what was consumed.\<close>

definition re_payload :: "range_encoder \<Rightarrow> bytes" where
  "re_payload e = take (re_consumed_len e) (re_buf e)"

lemma re_write_pending_nend [simp]: "re_nend_bits (re_write_pending b e) = re_nend_bits e"
proof (induction b e rule: re_write_pending.induct)
  case (1 b e)
  show ?case by (subst re_write_pending.simps) (use "1.IH" [OF refl refl] in \<open>simp add: Let_def\<close>)
qed

lemma re_carry_out_nend [simp]: "re_nend_bits (re_carry_out c e) = re_nend_bits e"
  by (simp add: re_carry_out_def Let_def)

lemma re_flush_end_keeps:
  "re_nend_bits (re_flush_end en l e) = re_nend_bits e \<and> (re_err (re_flush_end en l e) = 0 \<longrightarrow> re_err e = 0)"
proof (induction en l e rule: re_flush_end.induct)
  case (1 en l e)
  show ?case
  proof (cases "0 < l")
    case True
    have "re_flush_end en l e = re_flush_end (push_bit EC_SYM_BITS en AND (EC_CODE_TOP - 1)) (l - int EC_SYM_BITS)
        (re_carry_out (uint (drop_bit EC_CODE_SHIFT en)) e)"
      using True by (subst re_flush_end.simps) simp
    then show ?thesis using "1.IH" [OF True] by (auto dest: re_carry_out_sticky)
  qed (simp add: re_flush_end_stop)
qed

definition re_released :: "range_encoder \<Rightarrow> range_encoder" where
  "re_released e = (if 0 \<le> re_rem e \<or> 0 < re_ext e then re_carry_out 0 e else e)"

lemma re_released_ok:
  assumes t: "re_tail e" and err: "re_err (re_released e) = 0"
  shows "num (re_written (re_released e)) = num (re_digits e) \<and>
    length (re_written (re_released e)) = length (re_digits e) \<and> re_end_offs (re_released e) = re_end_offs e \<and>
    re_room (re_released e) \<and> re_err e = 0"
proof (cases "0 \<le> re_rem e \<or> 0 < re_ext e")
  case True
  then have eq: "re_released e = (re_release 0 e)\<lparr>re_rem := 0\<rparr>"
    using re_carry_out_eq [of 0 e] by (simp add: re_released_def)
  then have "re_err (re_release 0 e) = 0" using err by simp
  note rel = re_release_ok [OF t _ this]
  then show ?thesis by (simp add: eq)
next
  case False
  then have "re_ext e = 0" by (simp add: word_neq_0_conv [symmetric])
  then show ?thesis using False t err by (simp add: re_released_def re_digits_def re_tail_def)
qed

lemma re_done_eq:
  assumes "re_nend_bits e = 0" "re_final_bits e = (l, en)"
  defines "e2 \<equiv> re_released (re_flush_end en l e)"
  shows "re_done e = (if re_err e2 = 0 then re_zero_gap e2 else e2)"
proof -
  have "re_nend_bits e2 = 0"
    using assms(1) re_flush_end_keeps [of en l e] by (simp add: e2_def re_released_def)
  then have "re_flush_raw (re_end_window e2) (re_nend_bits e2) e2 = (re_end_window e2, 0, e2)"
    by (subst re_flush_raw.simps) (simp add: ec)
  then show ?thesis
    by (simp add: re_done_def Let_def assms(2) e2_def [symmetric] re_released_def [symmetric])
qed

lemma re_done_payload:
  assumes g: "re_good n e" and n: "n \<le> 2 ^ 30" and err: "re_err (re_done e) = 0"
  obtains t en where "t \<le> 2" "num (map unat (re_payload (re_done e))) * 2 ^ (31 - 8 * t) = num (re_digits e) * 2 ^ 31 + en"
    "length (re_payload (re_done e)) = length (re_digits e) + t" "unat (re_val e) \<le> en"
    "en + 2 ^ (31 - 8 * t) \<le> unat (re_val e) + unat (re_rng e)" "re_err e = 0"
proof -
  obtain m where m: "22 \<le> m" "m \<le> 31" "fst (re_final_bits e) = 31 - int m"
    "2 ^ m dvd unat (snd (re_final_bits e))" "unat (re_val e) \<le> unat (snd (re_final_bits e))"
    "unat (snd (re_final_bits e)) + 2 ^ m \<le> unat (re_val e) + unat (re_rng e)"
    by (rule re_final_bits_ok [OF re_good_fit [OF g]])
  define en where "en = snd (re_final_bits e)"
  have fb: "re_final_bits e = (31 - int m, en)" using m(3) by (simp add: en_def prod_eq_iff)
  define e1 where "e1 = re_flush_end en (31 - int m) e"
  define e2 where "e2 = re_released e1"
  have z: "re_nend_bits e = 0" using g by (simp add: re_good_def)
  note dn = re_done_eq [OF z fb, folded e1_def, folded e2_def]
  have err2: "re_err e2 = 0" using err unfolding dn by (auto split: if_splits)
  have d: "re_done e = re_zero_gap e2" using err2 by (simp add: dn)
  have "re_err e1 = 0" using err2 re_carry_out_sticky by (auto simp: e2_def re_released_def split: if_splits)
  then have err1: "re_err (re_flush_end en (31 - int m) e) = 0" by (simp add: e1_def)
  note dvd = m(4) [folded en_def] and lo = m(5) [folded en_def] and hi = m(6) [folded en_def]
  obtain t where t: "t \<le> 2" "31 - 8 * t \<le> m" "length (re_digits e1) = length (re_digits e) + t"
    "num (re_digits e1) * 2 ^ (31 - 8 * t) = num (re_digits e) * 2 ^ 31 + unat en"
    and tail: "re_tail e1" and off1: "re_end_offs e1 = 0"
    by (rule re_flush_ok [OF g n m(1,2) dvd lo hi err1]) (auto simp: e1_def)
  note rel = re_released_ok [OF tail err2 [unfolded e2_def], folded e2_def]
  have "map unat (re_payload (re_done e)) = re_written e2"
    using rel off1 by (simp add: d re_payload_def re_zero_gap_def re_consumed_len_def re_written_def take_fold_zero re_room_def)
  then have pay: "num (map unat (re_payload (re_done e))) = num (re_digits e1)"
    "length (re_payload (re_done e)) = length (re_digits e1)"
    using rel by (simp_all flip: length_map [of unat "re_payload (re_done e)"])
  have "(2 :: nat) ^ (31 - 8 * t) \<le> 2 ^ m" using t(2) by (intro power_increasing) simp_all
  then have "unat en + 2 ^ (31 - 8 * t) \<le> unat (re_val e) + unat (re_rng e)" using hi by linarith
  moreover have "re_err e = 0" using err1 re_flush_end_keeps by blast
  ultimately show ?thesis using that [OF t(1) _ _ lo] t pay by simp
qed

lemma stream_num_more:
  "stream_num buf n * 256 ^ j \<le> stream_num buf (n + j) \<and> stream_num buf (n + j) < (stream_num buf n + 1) * 256 ^ j"
proof (induction j)
  case (Suc j)
  have b: "stream_byte buf (n + j) < 256" by (rule stream_byte_less)
  have "stream_num buf (n + Suc j) = stream_num buf (n + j) * 256 + stream_byte buf (n + j)"
    by (simp add: stream_num_Suc)
  moreover have "stream_num buf n * 256 ^ Suc j = stream_num buf n * 256 ^ j * 256"
    "(stream_num buf n + 1) * 256 ^ Suc j = (stream_num buf n + 1) * 256 ^ j * 256" by simp_all
  ultimately show ?case using Suc.IH b by (simp only:) linarith
qed simp

lemma stream_num_prefix: "stream_num (p @ rest) (length p) = num (map unat p)"
proof -
  have "map (stream_byte (p @ rest)) [0..<length p] = map unat p"
    by (rule nth_equalityI) (simp_all add: stream_byte_def nth_append)
  then show ?thesis by (simp add: stream_num_def)
qed

lemma half: "a * (2 * w) \<le> x \<and> x < (a + 1) * (2 * w) \<Longrightarrow> a * w \<le> x div 2 \<and> x div 2 < (a + 1) * w" for a w x :: nat
proof
  assume x: "a * (2 * w) \<le> x \<and> x < (a + 1) * (2 * w)"
  have "a * w * 2 div 2 \<le> x div 2" using x by (intro div_le_mono) simp
  then show "a * w \<le> x div 2" by simp
  show "x div 2 < (a + 1) * w" using x by (intro less_mult_imp_div_less) (simp add: algebra_simps)
qed

lemma re_flush_raw_sticky:
  "re_err (snd (snd (re_flush_raw w u e))) = 0 \<Longrightarrow> re_err e = 0"
proof (induction w u e rule: re_flush_raw.induct)
  case (1 w u e)
  show ?case
  proof (cases "int EC_SYM_BITS \<le> u")
    case True
    then have "re_err (re_write_byte_at_end (w AND EC_SYM_MAX) e) = 0"
      using "1.prems" by (intro "1.IH") (simp_all add: re_flush_raw.simps [of w u e])
    then show ?thesis by (auto simp: re_write_byte_at_end_def Let_def split: if_splits)
  qed (use "1.prems" in \<open>simp add: re_flush_raw.simps [of w u e]\<close>)
qed

lemma re_done_sticky: "re_err (re_done e) = 0 \<Longrightarrow> re_err e = 0"
proof -
  obtain l en where fb: "re_final_bits e = (l, en)" by fastforce
  define e2 where "e2 = re_released (re_flush_end en l e)"
  obtain w u e3 where raw: "re_flush_raw (re_end_window e2) (re_nend_bits e2) e2 = (w, u, e3)"
    using prod_cases3 by blast
  assume "re_err (re_done e) = 0"
  then have "re_err e3 = 0"
    by (auto simp: re_done_def fb re_released_def [symmetric] e2_def [symmetric] raw Let_def split: if_splits)
  then have "re_err e2 = 0" using re_flush_raw_sticky [of "re_end_window e2" "re_nend_bits e2" e2] raw by simp
  then show "re_err e = 0" using re_flush_end_keeps [of en l e] re_carry_out_sticky
    by (auto simp: e2_def re_released_def split: if_splits)
qed

lemma payload_inside:
  assumes t: "t \<le> 2" and N: "num (map unat p) * 2 ^ (31 - 8 * t) = num (re_digits e) * 2 ^ 31 + en"
    and len: "length p = length (re_digits e) + t" and lo: "unat (re_val e) \<le> en"
    and hi: "en + 2 ^ (31 - 8 * t) \<le> unat (re_val e) + unat (re_rng e)"
  shows "re_inside (p @ rest) e"
proof -
  let ?N = "num (map unat p)" and ?w = "2 ^ (31 - 8 * t) :: nat"
  have k: "length (re_digits e) + 4 = length p + (4 - t)" using t len by simp
  have w: "(256 :: nat) ^ (4 - t) = 2 * ?w"
  proof -
    have "t = 0 \<or> t = 1 \<or> t = 2" using t by linarith
    then show ?thesis by auto
  qed
  have "?N * ?w \<le> code (p @ rest) (length (re_digits e) + 4)" "code (p @ rest) (length (re_digits e) + 4) < (?N + 1) * ?w"
    using stream_num_more [of "p @ rest" "length p" "4 - t"] half [of ?N ?w] unfolding code_def k stream_num_prefix w
    by blast+
  moreover have "(?N + 1) * ?w = ?N * ?w + ?w" by simp
  ultimately show ?thesis using N lo hi unfolding re_inside_def re_low_def by linarith
qed

text \<open>C22: the range coder loses nothing: any sequence of symbols, each coded with its own table or
  parameter, that the encoder finished without running out of room is read back exactly, from the
  bytes the encoder counts as consumed alone or with anything after them, and without an error.\<close>

theorem range_coder_roundtrip:
  assumes legal: "\<forall>x \<in> set xs. coder_legal x" and len: "length xs \<le> 2 ^ 30" and n: "n < 2 ^ 32"
    and enc: "encode_all re_op xs (new_range_encoder n) = Some e" and err: "re_err (re_done e) = 0"
    and small: "length (re_payload (re_done e) @ rest) < 2 ^ 32"
  shows "\<exists>d d'. new_range_decoder (re_payload (re_done e) @ rest) = Some d \<and>
    decode_all rd_op (map fst xs) d = Some (map snd xs, d') \<and> rd_err d' = 0"
proof -
  let ?buf = "re_payload (re_done e) @ rest"
  note new = re_new_good [OF n]
  have alive: "re_err e = 0" and good: "re_good (length xs) e"
    using re_done_sticky [OF err] mlow.stream_roundtrip [OF new legal _ enc] len by simp_all
  obtain t en where t: "t \<le> 2" "num (map unat (re_payload (re_done e))) * 2 ^ (31 - 8 * t) = num (re_digits e) * 2 ^ 31 + en"
    "length (re_payload (re_done e)) = length (re_digits e) + t" "unat (re_val e) \<le> en"
    "en + 2 ^ (31 - 8 * t) \<le> unat (re_val e) + unat (re_rng e)"
    by (rule re_done_payload [OF good len err])
  have inside: "re_inside ?buf e" by (rule payload_inside [OF t])
  obtain d where d: "new_range_decoder ?buf = Some d" "in_step ?buf (new_range_encoder n) d"
    using new_in_step [OF small] by blast
  have "\<exists>d'. decode_all rd_op (map fst xs) d = Some (map snd xs, d') \<and> in_step ?buf e d'"
    using mlow.stream_roundtrip [OF new legal _ enc alive, of ?buf] len inside d(2) by simp
  then show ?thesis using d(1) by (auto simp: in_step_def)
qed

section \<open>How much room a stream needs\<close>

lemma length_digits:
  "re_tail e \<Longrightarrow> length (re_digits e) = unat (re_offs e) + (if re_rem e < 0 then 0 else 1) + unat (re_ext e)"
  by (simp add: re_digits_def re_written_def re_tail_def re_room_def)

lemma re_write_byte_err:
  assumes room: "re_room e" and lt: "unat (re_offs e) + unat (re_end_offs e) < unat (re_storage e)"
  shows "re_err (re_write_byte b e) = re_err e" "unat (re_offs (re_write_byte b e)) = unat (re_offs e) + 1"
proof -
  have "unat (re_offs e + re_end_offs e) = unat (re_offs e) + unat (re_end_offs e)"
    using lt unat_u32 [of "re_storage e"] by (simp add: unat_word_ariths(1))
  then have less: "re_offs e + re_end_offs e < re_storage e" using lt by (simp add: word_less_nat_alt)
  then show "re_err (re_write_byte b e) = re_err e" by (simp add: re_write_byte_def)
  show "unat (re_offs (re_write_byte b e)) = unat (re_offs e) + 1" by (rule re_write_byte_lt(3) [OF room less])
qed

lemma re_write_pending_err:
  "re_room e \<Longrightarrow> re_ext e \<noteq> 0 \<Longrightarrow> unat (re_offs e) + unat (re_end_offs e) + unat (re_ext e) \<le> unat (re_storage e) \<Longrightarrow>
    re_err (re_write_pending b e) = re_err e"
proof (induction "unat (re_ext e)" arbitrary: e rule: less_induct)
  case less
  let ?e2 = "(re_write_byte b e)\<lparr>re_ext := re_ext e - 1\<rparr>"
  have ext: "unat (re_ext e) = Suc (unat (re_ext e - 1))"
    using less.prems(2) by (metis Suc_pred' unat_gt_0 unat_minus_one)
  have lt: "unat (re_offs e) + unat (re_end_offs e) < unat (re_storage e)" using less.prems(3) ext by linarith
  note wr = re_write_byte_err [OF less.prems(1) lt, of b]
  show ?case
  proof (cases "re_ext e = 1")
    case True
    then show ?thesis using re_write_pending_unfold [OF less.prems(2)] wr(1) by simp
  next
    case False
    then have eq: "re_write_pending b e = re_write_pending b ?e2"
      using re_write_pending_unfold [OF less.prems(2)] by (simp add: Let_def)
    have "re_ext ?e2 \<noteq> 0" "unat (re_ext ?e2) < unat (re_ext e)" "re_room ?e2"
      using False ext less.prems(1) by (auto simp: re_write_byte_room)
    moreover have "unat (re_offs ?e2) + unat (re_end_offs ?e2) + unat (re_ext ?e2) \<le> unat (re_storage ?e2)"
      using less.prems(3) ext wr(2) by simp
    ultimately show ?thesis unfolding eq using less.hyps [of ?e2] wr(1) by simp
  qed
qed

lemma re_carry_out_err:
  assumes t: "re_tail e" and room: "length (re_digits e) + unat (re_end_offs e) \<le> unat (re_storage e)" and c: "c < 512"
  shows "re_err (re_carry_out (int c) e) = re_err e"
proof -
  have "re_err (re_release k e) = re_err e" for k
  proof -
    define e1 where "e1 = (if 0 \<le> re_rem e then re_write_byte (word_of_int (re_rem e + int k)) e else e)"
    have rm: "re_room e" using t by (simp add: re_tail_def)
    then have room1: "re_room e1" by (simp add: e1_def re_write_byte_room)
    have e1: "re_err e1 = re_err e \<and> unat (re_offs e1) = unat (re_offs e) + (if re_rem e < 0 then 0 else 1)"
      using re_write_byte_err [OF rm] room by (auto simp: e1_def length_digits [OF t])
    have same: "re_ext e1 = re_ext e" "re_end_offs e1 = re_end_offs e" "re_storage e1 = re_storage e"
      by (simp_all add: e1_def)
    have "unat (re_offs e1) + unat (re_end_offs e1) + unat (re_ext e1) \<le> unat (re_storage e1)"
      using room e1 by (simp add: same length_digits [OF t])
    then show ?thesis using re_write_pending_err [OF room1] e1
      by (auto simp: re_release_def e1_def [symmetric] Let_def word_neq_0_conv)
  qed
  then show ?thesis by (simp add: re_carry_out_eq [OF c])
qed

lemma re_shift_err:
  assumes pre: "re_pre e" and room: "length (re_digits e) + unat (re_end_offs e) \<le> unat (re_storage e)"
  shows "re_err (re_shift e) = re_err e"
proof -
  have "unat (re_val e) < 2 ^ 32" by (rule unat_u32)
  then have "unat (re_val e) div 2 ^ 23 < 512" by (intro less_mult_imp_div_less) simp
  from re_carry_out_err [OF _ room this] pre show ?thesis by (simp add: re_shift_eq re_pre_def)
qed

lemma re_normalize_err:
  "re_pre e \<Longrightarrow> re_err e = 0 \<Longrightarrow> unat (re_ext e) + shifts (unat (re_rng e)) < 2 ^ 32 \<Longrightarrow> re_normalize e = Some e' \<Longrightarrow>
    length (re_digits e) + shifts (unat (re_rng e)) + unat (re_end_offs e) \<le> unat (re_storage e) \<Longrightarrow> re_err e' = 0"
proof (induction "unat (re_rng e)" arbitrary: e rule: shifts.induct)
  case 1
  have pos: "0 < unat (re_rng e)" using "1.prems"(1) by (simp add: re_pre_def)
  show ?case
  proof (cases "unat (re_rng e) \<le> 2 ^ 23")
    case True
    note nar = re_normalize_narrow [OF pos True]
    have err: "re_err (re_shift e) = 0" using "1.prems" nar by (subst re_shift_err) simp_all
    have sh: "re_pre (re_shift e)" "length (re_digits (re_shift e)) = length (re_digits e) + 1"
      "unat (re_ext (re_shift e)) \<le> unat (re_ext e) + 1" "re_end_offs (re_shift e) = re_end_offs e"
      "re_storage (re_shift e) = re_storage e" "unat (re_rng (re_shift e)) = 256 * unat (re_rng e)"
      using re_shift_ok [OF "1.prems"(1) True _ err] re_shift_rng [OF True] "1.prems"(3) nar by auto
    show ?thesis
      using "1.hyps" [of "re_shift e"] pos True sh err "1.prems" nar by simp
  next
    case False
    then show ?thesis using re_normalize_wide [of e] "1.prems" by simp
  qed
qed

lemma re_takes_err:
  assumes g: "re_good n e" and t: "re_takes e a b (Some e')" and err: "re_err e = 0" and n: "n < 2 ^ 30"
    and room: "length (re_digits e) + 3 \<le> unat (re_storage e)"
  shows "re_err e' = 0"
proof -
  obtain v w where e': "re_normalize (e\<lparr>re_val := v, re_rng := w\<rparr>) = Some e'"
    and b: "0 < b" "a + b \<le> unat (re_rng e)" and v: "unat v = unat (re_val e) + a" "unat w = b"
    using t unfolding re_takes_def by metis
  have ok: "re_pre e" "unat (re_ext e) \<le> 3 * n" "re_end_offs e = 0"
    using g by (simp_all add: re_good_def re_ok_def)
  have R: "b \<le> 2 ^ 31" using ok b by (simp add: re_pre_def)
  have tail: "re_tail (e\<lparr>re_val := v, re_rng := w\<rparr>) = re_tail e"
    "re_digits (e\<lparr>re_val := v, re_rng := w\<rparr>) = re_digits e" by simp_all
  have pre: "re_pre (e\<lparr>re_val := v, re_rng := w\<rparr>)" using ok(1) b v by (auto simp: re_pre_def)
  show ?thesis
    by (rule re_normalize_err [OF pre _ _ e']) (use err ok v n room shifts_le [OF b(1) R] in simp_all)
qed

lemma encode_all_room:
  "re_good n e \<Longrightarrow> \<forall>x \<in> set xs. coder_legal x \<Longrightarrow> n + length xs \<le> 2 ^ 30 \<Longrightarrow> re_err e = 0 \<Longrightarrow>
    length (re_digits e) + 3 * length xs \<le> unat (re_storage e) \<Longrightarrow>
    \<exists>e'. encode_all re_op xs e = Some e' \<and> re_good (n + length xs) e' \<and> re_err e' = 0 \<and>
      length (re_digits e') \<le> length (re_digits e) + 3 * length xs \<and> re_storage e' = re_storage e"
proof (induction xs arbitrary: n e)
  case (Cons x xs)
  have l: "op_valid (fst x)" "op_codable (fst x) (snd x)" using Cons.prems(2) by (simp_all add: coder_legal_def)
  have n: "n < 2 ^ 30" using Cons.prems(3) by simp
  note t = re_op_takes [OF re_good_fit [OF Cons.prems(1)] l]
  obtain e1 where e1: "re_op (fst x) (snd x) e = Some e1"
    using re_takes_returns [OF re_good_fit [OF Cons.prems(1)] t] by blast
  have err1: "re_err e1 = 0"
    by (rule re_takes_err [OF Cons.prems(1) t [unfolded e1] Cons.prems(4) n]) (use Cons.prems(5) in simp)
  note ok = re_takes_ok [OF Cons.prems(1) t [unfolded e1] err1 n]
  have "\<exists>e'. encode_all re_op xs e1 = Some e' \<and> re_good (Suc n + length xs) e' \<and> re_err e' = 0 \<and>
      length (re_digits e') \<le> length (re_digits e1) + 3 * length xs \<and> re_storage e' = re_storage e1"
    using Cons.prems ok err1 by (intro Cons.IH) auto
  then show ?case using e1 ok by auto
qed simp

lemma re_flush_err:
  assumes g: "re_good n e" and n: "n \<le> 2 ^ 30" and m: "22 \<le> m" "m \<le> 31" and dvd: "2 ^ m dvd unat en"
    and lo: "unat (re_val e) \<le> unat en" and hi: "unat en + 2 ^ m \<le> unat (re_val e) + unat (re_rng e)"
    and err: "re_err e = 0" and room: "length (re_digits e) + 1 \<le> unat (re_storage e)"
  shows "re_err (re_flush_end en (31 - int m) e) = 0"
proof -
  have pre: "re_pre e" and ext: "unat (re_ext e) \<le> 3 * n" and z: "re_end_offs e = 0"
    using g by (simp_all add: re_good_def re_ok_def)
  have tail: "re_tail e" using pre by (simp add: re_pre_def)
  let ?c = "unat en div 2 ^ 23"
  have c: "?c < 512" using unat_u32 [of en] by (intro less_mult_imp_div_less) simp
  have err1: "re_err (re_carry_out (int ?c) e) = 0"
    using re_carry_out_err [OF tail _ c] room z err by simp
  show ?thesis
  proof (cases "23 \<le> m")
    case True
    show ?thesis
    proof (cases "m = 31")
      case True
      then show ?thesis using err by (simp add: re_flush_end_stop)
    next
      case False
      then have "0 < 31 - int m" "31 - int m - 8 \<le> 0" using m \<open>23 \<le> m\<close> by simp_all
      then show ?thesis using err1 by (simp add: re_flush_end_go re_flush_end_stop)
    qed
  next
    case False
    then have m22: "m = 22" using m by simp
    have ext1: "unat (re_ext e) + 1 < 2 ^ 32" using ext n by simp
    note co = re_carry_out_ok [OF tail c final_carry [OF pre hi] ext1 err1]
    let ?en = "push_bit 8 en AND (EC_CODE_TOP - 1)"
    have "unat ?en < 2 ^ 32" by (rule unat_u32)
    then have c2: "unat ?en div 2 ^ 23 < 512" by (intro less_mult_imp_div_less) simp
    have "re_err (re_carry_out (int (unat ?en div 2 ^ 23)) (re_carry_out (int ?c) e)) = 0"
      using co room z err1 by (subst re_carry_out_err [OF _ _ c2]) simp_all
    moreover have "re_flush_end en (31 - int m) e =
        re_carry_out (int (unat ?en div 2 ^ 23)) (re_carry_out (int ?c) e)"
      unfolding m22 by (subst re_flush_end_go, simp, subst re_flush_end_go, simp) (simp add: re_flush_end_stop)
    ultimately show ?thesis by simp
  qed
qed

lemma re_carry_out_storage [simp]: "re_storage (re_carry_out c e) = re_storage e"
proof -
  have "re_storage (re_write_pending b e) = re_storage e" for b and e :: range_encoder
  proof (induction b e rule: re_write_pending.induct)
    case (1 b e)
    show ?case by (subst re_write_pending.simps) (use "1.IH" [OF refl refl] in \<open>simp add: Let_def\<close>)
  qed
  then show ?thesis by (simp add: re_carry_out_def Let_def)
qed

lemma re_flush_end_storage: "re_storage (re_flush_end en l e) = re_storage e"
  by (induction en l e rule: re_flush_end.induct) (subst re_flush_end.simps, simp)

lemma re_done_room:
  assumes g: "re_good n e" and n: "n \<le> 2 ^ 30" and err: "re_err e = 0"
    and room: "length (re_digits e) + 2 \<le> unat (re_storage e)"
  shows "re_err (re_done e) = 0 \<and> length (re_payload (re_done e)) \<le> length (re_digits e) + 2"
proof -
  obtain m where m: "22 \<le> m" "m \<le> 31" "fst (re_final_bits e) = 31 - int m"
    "2 ^ m dvd unat (snd (re_final_bits e))" "unat (re_val e) \<le> unat (snd (re_final_bits e))"
    "unat (snd (re_final_bits e)) + 2 ^ m \<le> unat (re_val e) + unat (re_rng e)"
    by (rule re_final_bits_ok [OF re_good_fit [OF g]])
  define en where "en = snd (re_final_bits e)"
  have fb: "re_final_bits e = (31 - int m, en)" using m(3) by (simp add: en_def prod_eq_iff)
  note fin = m(1,2) m(4-6) [folded en_def]
  define e1 where "e1 = re_flush_end en (31 - int m) e"
  have z: "re_nend_bits e = 0" using g by (simp add: re_good_def)
  have err1: "re_err (re_flush_end en (31 - int m) e) = 0"
    using re_flush_err [OF g n fin err] room by simp
  obtain t where t: "t \<le> 2" "length (re_digits e1) = length (re_digits e) + t" "re_tail e1" "re_end_offs e1 = 0"
    by (rule re_flush_ok [OF g n fin err1]) (auto simp: e1_def)
  have "re_storage e1 = re_storage e" by (simp add: e1_def re_flush_end_storage)
  then have "re_err (re_released e1) = 0"
    using re_carry_out_err [OF t(3), of 0] t room err1 by (simp add: re_released_def e1_def [symmetric])
  then have dn: "re_err (re_done e) = 0"
    using re_done_eq [OF z fb] by (simp add: e1_def re_zero_gap_def)
  obtain t' en' where "t' \<le> 2" "length (re_payload (re_done e)) = length (re_digits e) + t'"
    by (rule re_done_payload [OF g n dn])
  with dn show ?thesis by simp
qed

lemma encoder_room:
  assumes legal: "\<forall>x \<in> set xs. coder_legal x" and len: "length xs \<le> 2 ^ 30"
    and room: "3 * length xs + 2 \<le> n" and n: "n < 2 ^ 32"
  shows "\<exists>e. encode_all re_op xs (new_range_encoder n) = Some e \<and> re_err (re_done e) = 0 \<and>
    length (re_payload (re_done e)) \<le> 3 * length xs + 2"
proof -
  let ?e = "new_range_encoder n"
  have new: "re_err ?e = 0" "unat (re_storage ?e) = n" "re_digits ?e = []"
    using n by (simp_all add: new_range_encoder_def unat_of_nat re_digits_def re_written_def)
  have "\<exists>e'. encode_all re_op xs ?e = Some e' \<and> re_good (0 + length xs) e' \<and> re_err e' = 0 \<and>
      length (re_digits e') \<le> length (re_digits ?e) + 3 * length xs \<and> re_storage e' = re_storage ?e"
    using new room by (intro encode_all_room [OF re_new_good [OF n] legal]) (use len in simp_all)
  then obtain e where e: "encode_all re_op xs ?e = Some e" "re_good (length xs) e" "re_err e = 0"
    "length (re_digits e) \<le> 3 * length xs" "unat (re_storage e) = n"
    using new by auto
  have "length (re_digits e) + 2 \<le> unat (re_storage e)" using e(4,5) room by simp
  from re_done_room [OF e(2) len e(3) this] e show ?thesis by auto
qed

text \<open>A buffer of three bytes for each symbol and two more is always enough: the encoder then
  returns on every sequence of legal symbols, finishes without an error, and needs no more than that.\<close>

theorem encoder_has_room:
  assumes "\<forall>x \<in> set xs. coder_legal x" "length xs \<le> 2 ^ 30" "3 * length xs + 2 \<le> n" "n < 2 ^ 32"
  shows "\<exists>e. encode_all re_op xs (new_range_encoder n) = Some e \<and> re_err (re_done e) = 0 \<and>
    length (re_payload (re_done e)) \<le> 3 * length xs + 2"
  using assms by (rule encoder_room)

definition sample_symbols :: "(coder_op \<times> nat) list" where
  "sample_symbols = [(Cdf [0, 3, 4], 1), (Icdf [200, 100, 0] 8, 2), (Logp 3, 0), (Fine, 63), (Window [7, 9, 9] 0 2, 0), (Uint 200, 150)]"

lemma sample_symbols_legal: "\<forall>x \<in> set sample_symbols. coder_legal x" "length sample_symbols = 6"
  by (simp_all add: sample_symbols_def coder_legal_def cdf_table_def icdf_table_def cdf_window_def upt_rec)

theorem encoder_has_room_witness:
  "\<exists>e. encode_all re_op sample_symbols (new_range_encoder 20) = Some e \<and> re_err (re_done e) = 0"
  using encoder_has_room [OF sample_symbols_legal(1), of 20] by (auto simp: sample_symbols_legal(2))

theorem range_coder_roundtrip_witness:
  "\<exists>e d d'. encode_all re_op sample_symbols (new_range_encoder 20) = Some e \<and>
    new_range_decoder (re_payload (re_done e) @ [0xFF]) = Some d \<and>
    decode_all rd_op (map fst sample_symbols) d = Some ([1, 2, 0, 63, 0, 150], d') \<and> rd_err d' = 0"
proof -
  obtain e where e: "encode_all re_op sample_symbols (new_range_encoder 20) = Some e" "re_err (re_done e) = 0"
    "length (re_payload (re_done e)) \<le> 20"
    using encoder_room [OF sample_symbols_legal(1), of 20] by (auto simp: sample_symbols_legal(2))
  have "\<exists>d d'. new_range_decoder (re_payload (re_done e) @ [0xFF]) = Some d \<and>
      decode_all rd_op (map fst sample_symbols) d = Some (map snd sample_symbols, d') \<and> rd_err d' = 0"
    by (rule range_coder_roundtrip [OF sample_symbols_legal(1) _ _ e(1,2)])
      (use e(3) in \<open>simp_all add: sample_symbols_legal(2)\<close>)
  moreover have "map snd sample_symbols = [1, 2, 0, 63, 0, 150]" by (simp add: sample_symbols_def)
  ultimately show ?thesis using e(1) by auto
qed

section \<open>The abstract coder\<close>

text \<open>The specification: an interval of numbers and the bytes by which it has grown; a symbol
  narrows it to its part and widens the numbers by whole bytes until it is large again.\<close>

definition narrow :: "coder_op \<Rightarrow> nat \<Rightarrow> nat \<times> nat \<times> nat \<Rightarrow> nat \<times> nat \<times> nat" where
  "narrow op y = (\<lambda>(V, R, k).
    let b = op_size op R y; j = shifts b in (256 ^ j * (V + op_low op R y), 256 ^ j * b, k + j))"

definition interval :: "range_encoder \<Rightarrow> nat \<times> nat \<times> nat" where
  "interval e = (re_low e, unat (re_rng e), length (re_digits e))"

definition at_interval :: "bytes \<Rightarrow> nat \<times> nat \<times> nat \<Rightarrow> range_decoder \<Rightarrow> bool" where
  "at_interval buf = (\<lambda>(V, R, k) d. 2 ^ 23 < R \<and> R \<le> 2 ^ 31 \<and> rd_sync buf (k + 4) V R d)"

text \<open>C23: both coders implement the abstract one, which narrows an interval of unbounded numbers. A
  step of the encoder, with its carries, its held-back byte and its 32-bit registers, is the abstract
  step on the number its bytes and registers spell; and a decoder that is at an interval finds a
  codable symbol and is then at the narrowed interval.\<close>

theorem coders_refine_interval:
  assumes e: "re_good n e" "n < 2 ^ 30" "re_op op y e = Some e'" "re_err e' = 0"
    and d: "at_interval buf I d" and op: "op_valid op" "op_codable op y"
  shows "interval e' = narrow op y (interval e) \<and>
    (\<exists>z d'. rd_op op d = Some (z, d') \<and> op_codable op z \<and> at_interval buf (narrow op z I) d')"
proof
  have t: "re_takes e (op_low op (unat (re_rng e)) y) (op_size op (unat (re_rng e)) y) (Some e')"
    using re_op_takes [OF re_good_fit [OF e(1)] op] e(3) by simp
  show "interval e' = narrow op y (interval e)"
    using re_takes_ok [OF e(1) t e(4,2)] by (simp add: interval_def narrow_def Let_def)
  obtain V R k where I: "I = (V, R, k)" by (metis prod_cases3)
  have s: "rd_sync buf (k + 4) V R d" and R: "2 ^ 23 < R" "R \<le> 2 ^ 31" and rng: "unat (rd_rng d) = R"
    using d by (simp_all add: I at_interval_def rd_sync_def)
  obtain z r where z: "op_codable op z" "rd_op op d = returning z r" and tk: "rd_takes d (op_low op R z) (op_size op R z) r"
    using rd_op_takes [OF rd_sync_ok [OF s R] op(1)] unfolding rng by blast
  let ?b = "op_size op R z"
  have b: "0 < ?b" "?b \<le> R" using tk unfolding rd_takes_def rng by auto
  obtain d' where "r = Some d'"
    "rd_sync buf (k + 4 + shifts ?b) (256 ^ shifts ?b * (V + op_low op R z)) (256 ^ shifts ?b * ?b) d'"
    using rd_takes_sync(3) [OF s tk] by blast
  moreover have "2 ^ 23 < 256 ^ shifts ?b * ?b \<and> 256 ^ shifts ?b * ?b \<le> 2 ^ 31"
    using b R by (intro shifts_range) simp_all
  ultimately show "\<exists>z d'. rd_op op d = Some (z, d') \<and> op_codable op z \<and> at_interval buf (narrow op z I) d'"
    using z by (intro exI [of _ z] exI [of _ d'])
      (simp add: I at_interval_def narrow_def Let_def returning_def add.commute add.left_commute)
qed

text \<open>An interval of full width, whose decoder has read \<open>[0, 0, 0, 12]\<close>.\<close>

theorem coders_refine_interval_witness:
  "\<exists>e' d z d'. re_op Fine 5 (new_range_encoder 8) = Some e' \<and> interval e' = narrow Fine 5 (0, 2 ^ 31, 0) \<and>
    new_range_decoder [0, 0, 0, 12] = Some d \<and> rd_op Fine d = Some (z, d')"
proof -
  let ?e = "new_range_encoder 8" and ?buf = "[0, 0, 0, 12] :: bytes"
  obtain e' where e': "re_op Fine 5 ?e = Some e'" "re_err (re_done e') = 0"
    using encoder_room [of "[(Fine, 5)]" 8] by (auto simp: coder_legal_def split: option.splits)
  obtain d where d: "new_range_decoder ?buf = Some d" "in_step ?buf ?e d" using new_in_step [of ?buf 8] by auto
  have at: "at_interval ?buf (0, 2 ^ 31, 0) d" using d(2) by (simp add: at_interval_def in_step_def re_new_low)
  have "re_good 0 ?e" by (rule re_new_good) simp
  from coders_refine_interval [OF this _ e'(1) re_done_sticky [OF e'(2)] at]
  have "interval e' = narrow Fine 5 (interval ?e) \<and> (\<exists>z d'. rd_op Fine d = Some (z, d') \<and> op_codable Fine z \<and>
      at_interval ?buf (narrow Fine z (0, 2 ^ 31, 0)) d')" by simp
  moreover have "interval ?e = (0, 2 ^ 31, 0)" by (simp add: interval_def re_new_low)
  ultimately show ?thesis using e'(1) d(1) by auto
qed

end
