(* ===== verification/Mlow_Packet.thy ===== *)
theory Mlow_Packet
  imports Ruwa_Prelude
begin

text \<open>
  The outer layers of an MLow audio payload: the redundancy wrapper (\<open>depack_split_red\<close> of
  \<open>src/src/call/mlow/red.rs\<close>), the first byte of a frame (\<open>parse_mlow_toc\<close> of
  \<open>src/src/call/mlow/toc.rs\<close>) and the routing of a payload by them (\<open>MlowDecoder\<close> of
  \<open>src/src/call/mlow/decoder.rs\<close>). The synthesis of an active frame is floating-point code and
  an argument of the routing. A panic of the Rust code is the value \<open>None\<close>.
\<close>

section \<open>The redundancy wrapper\<close>

record mlow_frame =
  mf_data :: bytes
  mf_time_code :: u8
  mf_is_main :: bool

datatype red_error = PktSizeZero | HeaderTooShort | RedundantTooShort | MainTooShort

record red_block =
  rb_code :: u8
  rb_size :: u8

text \<open>The header loop; it leaves with the blocks, \<open>cur\<close> and \<open>rem\<close>.\<close>

function red_headers :: "bytes \<Rightarrow> nat \<Rightarrow> nat \<Rightarrow> red_block list \<Rightarrow>
    (red_error, red_block list \<times> nat \<times> nat) outcome" where
  "red_headers p cur rem red =
    (if rem = 0 then Err HeaderTooShort
     else obind (index_at p cur) (\<lambda>b0.
       if b0 < 0x80 then (if rem \<le> 1 then Err MainTooShort else Ok (red, cur, rem))
       else if rem \<le> 2 then Err RedundantTooShort
       else obind (index_at p (cur + 1)) (\<lambda>sz.
         if rem \<le> unat sz + 2 then Err RedundantTooShort
         else red_headers p (cur + 2) (rem - (unat sz + 2))
                (red @ [\<lparr>rb_code = b0 AND 0x7f, rb_size = sz\<rparr>]))))"
  by auto
termination by (relation "measure (\<lambda>(p, cur, rem, red). rem)") auto

declare red_headers.simps [simp del]

text \<open>The loop over the blocks, with the frames and \<open>cur\<close> after it.\<close>

fun red_frames :: "bytes \<Rightarrow> red_block list \<Rightarrow> nat \<Rightarrow> (red_error, mlow_frame list \<times> nat) outcome" where
  "red_frames p [] cur = Ok ([], cur)"
| "red_frames p (r # red) cur =
    obind (slice p cur (cur + unat (rb_size r))) (\<lambda>d.
    obind (red_frames p red (cur + unat (rb_size r))) (\<lambda>(fs, cur).
      Ok (\<lparr>mf_data = d, mf_time_code = rb_code r, mf_is_main = False\<rparr> # fs, cur)))"

definition depack_split_red :: "bytes \<Rightarrow> (red_error, mlow_frame list) outcome" where
  "depack_split_red p =
    (if p = [] then Err PktSizeZero
     else
       obind (red_headers p 0 (length p) []) (\<lambda>(red, cur, rem).
       obind (index_at p cur) (\<lambda>m.
       obind (red_frames p red (cur + 1)) (\<lambda>(frames, cur).
       obind (slice p cur (cur + (rem - 1))) (\<lambda>d.
         Ok (frames @ [\<lparr>mf_data = d, mf_time_code = m AND 0x7f, mf_is_main = True\<rparr>]))))))"

section \<open>The first byte of a frame\<close>

record mlow_toc =
  std_opus :: bool
  sid :: bool
  vad :: bool
  sample_rate :: int
  frame_ms :: int
  voiced :: bool
  active :: bool
  flag2 :: bool
  flag0 :: bool

definition standard_opus_frame_ms :: "u8 \<Rightarrow> int" where
  "standard_opus_frame_ms b =
    (let config = drop_bit 3 b in
     if config < 12 then [10, 20, 40, 60] ! unat (config AND 3)
     else if config < 16 then [10, 20] ! unat ((config - 12) AND 1)
     else (let c = config AND 3 in if c = 0 then 3 else if c = 1 then 5 else if c = 2 then 10 else 20))"

definition parse_mlow_toc :: "u8 \<Rightarrow> mlow_toc" where
  "parse_mlow_toc b =
    (if b AND 0xC0 = 0xC0
     then \<lparr>std_opus = True, sid = False, vad = False, sample_rate = 16000,
            frame_ms = standard_opus_frame_ms b, voiced = False, active = False,
            flag2 = False, flag0 = False\<rparr>
     else
       (let bit1 = drop_bit 1 b AND 1 \<noteq> 0; v = drop_bit 6 b AND 1 \<noteq> 0
        in \<lparr>std_opus = False, sid = drop_bit 7 b \<noteq> 0, vad = v,
            sample_rate = (if b AND 0x20 \<noteq> 0 then 32000 else 16000),
            frame_ms = [10, 20, 60, 120] ! unat (drop_bit 3 b AND 3),
            voiced = v \<and> bit1, active = v \<or> bit1,
            flag2 = drop_bit 2 b AND 1 \<noteq> 0, flag0 = b AND 1 \<noteq> 0\<rparr>))"

section \<open>Routing a payload\<close>

text \<open>\<open>MlowDecoder\<close> over an argument for \<open>decode_active_frame\<close>, which takes the synthesis state
  and the frame and returns the state, the samples and whether the range coder reported an error.
  Samples are any type with a silent one. \<open>dropped_unsupported\<close> is a \<open>u32\<close> and only counts.\<close>

record 'st mlow_decoder =
  ml_state :: 'st
  redundancy :: int
  had_error :: bool
  dropped_unsupported :: u32

definition OPUS_FRAME_SAMPS :: nat where "OPUS_FRAME_SAMPS = 960"

definition new_mlow_decoder :: "'st \<Rightarrow> 'st mlow_decoder" where
  "new_mlow_decoder st = \<lparr>ml_state = st, redundancy = 0, had_error = False, dropped_unsupported = 0\<rparr>"

definition set_redundancy :: "int \<Rightarrow> 'st mlow_decoder \<Rightarrow> 'st mlow_decoder" where
  "set_redundancy n d = d\<lparr>redundancy := n\<rparr>"

definition reset_mlow_decoder :: "'st \<Rightarrow> 'st mlow_decoder \<Rightarrow> 'st mlow_decoder" where
  "reset_mlow_decoder st d = d\<lparr>ml_state := st, had_error := False\<rparr>"

definition off_point :: "mlow_toc \<Rightarrow> bool" where
  "off_point toc \<longleftrightarrow> sample_rate toc \<noteq> 16000 \<or> flag2 toc \<or> frame_ms toc \<noteq> 60"

definition decode_frame :: "('st \<Rightarrow> bytes \<Rightarrow> 'st \<times> 'a list \<times> bool) \<Rightarrow> 'a \<Rightarrow> bytes \<Rightarrow>
    'st mlow_decoder \<Rightarrow> 'a list \<times> 'st mlow_decoder" where
  "decode_frame synth silent frame d =
    (case frame of [] \<Rightarrow> (replicate OPUS_FRAME_SAMPS silent, d)
     | b # _ \<Rightarrow>
         (let toc = parse_mlow_toc b in
          if std_opus toc then (replicate (nat (16 * frame_ms toc)) silent, d)
          else if sid toc \<or> \<not> active toc then (replicate OPUS_FRAME_SAMPS silent, d)
          else if off_point toc
          then (replicate OPUS_FRAME_SAMPS silent, d\<lparr>dropped_unsupported := dropped_unsupported d + 1\<rparr>)
          else
            (let (st, out, err) = synth (ml_state d) frame
             in (out, d\<lparr>ml_state := st, had_error := had_error d \<or> err\<rparr>))))"

definition mlow_decode :: "('st \<Rightarrow> bytes \<Rightarrow> 'st \<times> 'a list \<times> bool) \<Rightarrow> 'a \<Rightarrow> bytes \<Rightarrow>
    'st mlow_decoder \<Rightarrow> (unit, 'a list \<times> 'st mlow_decoder) outcome" where
  "mlow_decode synth silent payload d =
    (if payload = [] then Ok (replicate OPUS_FRAME_SAMPS silent, d)
     else if 0 < redundancy d then
       (case depack_split_red payload of Panic \<Rightarrow> Panic
        | Err e \<Rightarrow> Ok (replicate OPUS_FRAME_SAMPS silent, d)
        | Ok frames \<Rightarrow>
            Ok (if frames = [] then decode_frame synth silent [] d
                else decode_frame synth silent (mf_data (last frames)) d))
     else Ok (decode_frame synth silent payload d))"

section \<open>What a wrapped packet is\<close>

text \<open>The layout of the wire format: a time code and a payload per redundant block.\<close>

definition red_header :: "u8 \<times> bytes \<Rightarrow> bytes" where
  "red_header = (\<lambda>(c, d). [0x80 OR c, word_of_nat (length d)])"

definition red_packet :: "(u8 \<times> bytes) list \<Rightarrow> u8 \<times> bytes \<Rightarrow> bytes" where
  "red_packet blocks = (\<lambda>(mc, md). concat (map red_header blocks) @ mc # concat (map snd blocks) @ md)"

definition red_block_ok :: "u8 \<times> bytes \<Rightarrow> bool" where
  "red_block_ok = (\<lambda>(c, d). c < 0x80 \<and> length d < 256)"

definition red_packet_ok :: "(u8 \<times> bytes) list \<Rightarrow> u8 \<times> bytes \<Rightarrow> bool" where
  "red_packet_ok blocks = (\<lambda>(mc, md). list_all red_block_ok blocks \<and> mc < 0x80 \<and> md \<noteq> [])"

definition frame_of :: "bool \<Rightarrow> u8 \<times> bytes \<Rightarrow> mlow_frame" where
  "frame_of main = (\<lambda>(c, d). \<lparr>mf_data = d, mf_time_code = c, mf_is_main = main\<rparr>)"

definition block_of :: "u8 \<times> bytes \<Rightarrow> red_block" where
  "block_of = (\<lambda>(c, d). \<lparr>rb_code = c, rb_size = word_of_nat (length d)\<rparr>)"

lemma low_code: "c < 0x80 \<Longrightarrow> c AND 0x7f = c \<and> (0x80 OR c) AND 0x7f = c \<and> \<not> 0x80 OR c < 0x80"
  for c :: u8
proof -
  have "\<forall>c :: u8. c < 0x80 \<longrightarrow> c AND 0x7f = c \<and> (0x80 OR c) AND 0x7f = c \<and> \<not> 0x80 OR c < 0x80"
    unfolding all_u8 by code_simp
  then show "c < 0x80 \<Longrightarrow> ?thesis" by simp
qed

lemma high_code: "\<not> b < 0x80 \<Longrightarrow> 0x80 OR (b AND 0x7f) = b \<and> b AND 0x7f < 0x80"
  for b :: u8
proof -
  have "\<forall>b :: u8. \<not> b < 0x80 \<longrightarrow> 0x80 OR (b AND 0x7f) = b \<and> b AND 0x7f < 0x80"
    unfolding all_u8 by code_simp
  then show "\<not> b < 0x80 \<Longrightarrow> ?thesis" by simp
qed

section \<open>The header loop\<close>

lemma red_headers_sound:
  "red_headers p cur rem red = Ok (red', cur', rem') \<Longrightarrow> cur \<le> length p \<Longrightarrow>
    \<exists>hs. red' = red @ hs \<and> cur' = cur + 2 * length hs \<and> cur' < length p \<and> p ! cur' < 0x80 \<and> 2 \<le> rem' \<and>
      rem = rem' + sum_list (map (\<lambda>h. unat (rb_size h) + 2) hs) \<and>
      list_all (\<lambda>h. rb_code h < 0x80) hs \<and>
      drop cur p = concat (map (\<lambda>h. [0x80 OR rb_code h, rb_size h]) hs) @ drop cur' p"
proof (induction p cur rem red arbitrary: red' cur' rem' rule: red_headers.induct)
  case (1 p cur rem red)
  have step: "rem \<noteq> 0" "cur < length p"
    using "1.prems" by (auto simp: red_headers.simps [of p cur rem red] obind_eq_Ok index_at_def split: if_splits)
  show ?case
  proof (cases "p ! cur < 0x80")
    case True
    then show ?thesis using "1.prems" step
      by (auto simp: red_headers.simps [of p cur rem red] split: if_splits intro!: exI [of _ "[]"])
  next
    case False
    let ?sz = "p ! (cur + 1)"
    let ?h = "\<lparr>rb_code = p ! cur AND 0x7f, rb_size = ?sz\<rparr>"
    have s: "cur + 1 < length p" "\<not> rem \<le> 2" "\<not> rem \<le> unat ?sz + 2"
      and r: "red_headers p (cur + 2) (rem - (unat ?sz + 2)) (red @ [?h]) = Ok (red', cur', rem')"
      using "1.prems" step False
      by (auto simp: red_headers.simps [of p cur rem red] obind_eq_Ok index_at_def split: if_splits)
    obtain hs where hs: "red' = (red @ [?h]) @ hs" "cur' = cur + 2 + 2 * length hs" "cur' < length p"
      "p ! cur' < 0x80" "2 \<le> rem'"
      "rem - (unat ?sz + 2) = rem' + sum_list (map (\<lambda>h. unat (rb_size h) + 2) hs)"
      "list_all (\<lambda>h. rb_code h < 0x80) hs"
      "drop (cur + 2) p = concat (map (\<lambda>h. [0x80 OR rb_code h, rb_size h]) hs) @ drop cur' p"
      using "1.IH" [OF step(1) False s(2,3) r] s(1) by auto
    have "drop cur p = p ! cur # ?sz # drop (cur + 2) p"
      using s(1) by (simp add: Cons_nth_drop_Suc)
    then show ?thesis
      using hs s(3) high_code [OF False] by (intro exI [of _ "?h # hs"]) auto
  qed
qed

lemma red_headers_total:
  "cur + rem \<le> length p \<Longrightarrow> red_headers p cur rem red \<noteq> Panic \<and>
    (0 < rem \<longrightarrow> red_headers p cur rem red \<noteq> Err HeaderTooShort)"
proof (induction p cur rem red rule: red_headers.induct)
  case (1 p cur rem red)
  show ?case
  proof (cases "rem = 0")
    case True
    then show ?thesis by (simp add: red_headers.simps)
  next
    case False
    then have "cur < length p" using "1.prems" by simp
    with False "1.prems" "1.IH" [of "p ! cur" "p ! Suc cur"] show ?thesis
      by (auto simp: red_headers.simps [of p cur rem red])
  qed
qed

lemma red_headers_complete:
  "list_all red_block_ok bs \<Longrightarrow> mc < 0x80 \<Longrightarrow> 2 \<le> rem \<Longrightarrow>
    red_headers (pre @ concat (map red_header bs) @ mc # rest) (length pre)
      (rem + sum_list (map (\<lambda>(c, d). length d + 2) bs)) red =
    Ok (red @ map block_of bs, length pre + 2 * length bs, rem)"
proof (induction bs arbitrary: pre red)
  case Nil
  then show ?case by (simp add: red_headers.simps)
next
  case (Cons b bs)
  obtain c d where b: "b = (c, d)" by force
  with Cons.prems have c: "c < 0x80" "length d < 256" "list_all red_block_ok bs" by (simp_all add: red_block_ok_def)
  let ?R = "rem + sum_list (map (\<lambda>(c, d). length d + 2) bs)"
  have "red_headers ((pre @ red_header b) @ concat (map red_header bs) @ mc # rest) (length (pre @ red_header b)) ?R
      (red @ [block_of b]) = Ok ((red @ [block_of b]) @ map block_of bs, length (pre @ red_header b) + 2 * length bs, rem)"
    by (rule Cons.IH [OF c(3) Cons.prems(2,3)])
  moreover have "unat (word_of_nat (length d) :: u8) = length d" using c(2) by simp
  ultimately show ?case
    using Cons.prems(3) low_code [OF c(1)] c(2)
    by (simp add: red_headers.simps [of "pre @ _"] b red_header_def block_of_def index_at_def nth_append)
qed

section \<open>The frames\<close>

lemma red_frames_complete:
  "list_all red_block_ok bs \<Longrightarrow>
    red_frames (pre @ concat (map snd bs) @ rest) (map block_of bs) (length pre) =
    Ok (map (frame_of False) bs, length pre + length (concat (map snd bs)))"
proof (induction bs arbitrary: pre)
  case (Cons b bs)
  obtain c d where b: "b = (c, d)" by force
  with Cons.prems have c: "length d < 256" "list_all red_block_ok bs" by (simp_all add: red_block_ok_def)
  have "red_frames ((pre @ d) @ concat (map snd bs) @ rest) (map block_of bs) (length (pre @ d)) =
      Ok (map (frame_of False) bs, length (pre @ d) + length (concat (map snd bs)))"
    by (rule Cons.IH [OF c(2)])
  moreover have "unat (word_of_nat (length d) :: u8) = length d" using c(1) by simp
  ultimately show ?case by (simp add: b block_of_def frame_of_def)
qed simp

lemma depack_complete:
  assumes "red_packet_ok bs (mc, md)"
  shows "depack_split_red (red_packet bs (mc, md)) = Ok (map (frame_of False) bs @ [frame_of True (mc, md)])"
proof -
  let ?p = "red_packet bs (mc, md)" and ?H = "concat (map red_header bs)" and ?D = "concat (map snd bs)"
  have ok: "list_all red_block_ok bs" "mc < 0x80" "md \<noteq> []" using assms by (simp_all add: red_packet_ok_def)
  have p: "?p = ?H @ mc # ?D @ md" by (simp add: red_packet_def)
  have H: "length ?H = 2 * length bs" by (induction bs) (auto simp: red_header_def)
  have L: "length ?p = (1 + length md) + sum_list (map (\<lambda>(c, d). length d + 2) bs)"
    unfolding p by (induction bs) (auto simp: red_header_def)
  have h: "red_headers ?p 0 (length ?p) [] = Ok (map block_of bs, 2 * length bs, 1 + length md)"
    using red_headers_complete [OF ok(1,2), of "1 + length md" "[]" "?D @ md" "[]"] ok(3)
    unfolding L by (simp add: p Suc_le_eq)
  have f: "red_frames ?p (map block_of bs) (2 * length bs + 1) = Ok (map (frame_of False) bs, 2 * length bs + 1 + length ?D)"
    using red_frames_complete [OF ok(1), of "?H @ [mc]" md] H by (simp add: p)
  have s: "slice ?p (2 * length bs + 1 + length ?D) (2 * length bs + 1 + length ?D + length md) = (Ok md :: (red_error, bytes) outcome)"
    using slice_append [of "?H @ mc # ?D" md "[]"] H by (simp add: p)
  have i: "index_at ?p (2 * length bs) = (Ok mc :: (red_error, u8) outcome)" using index_at_append_length [of ?H mc] H by (simp add: p)
  show ?thesis using h f s i low_code [OF ok(2)] by (simp add: depack_split_red_def frame_of_def p)
qed

lemma red_frames_sound:
  assumes "cur + sum_list (map (\<lambda>h. unat (rb_size h)) hs) \<le> length p" "list_all (\<lambda>h. rb_code h < 0x80) hs"
  obtains bs where "list_all red_block_ok bs" "hs = map block_of bs"
    "length (concat (map snd bs)) = sum_list (map (\<lambda>h. unat (rb_size h)) hs)"
    "drop cur p = concat (map snd bs) @ drop (cur + length (concat (map snd bs))) p"
proof -
  have "\<exists>bs. list_all red_block_ok bs \<and> hs = map block_of bs \<and>
      length (concat (map snd bs)) = sum_list (map (\<lambda>h. unat (rb_size h)) hs) \<and>
      drop cur p = concat (map snd bs) @ drop (cur + length (concat (map snd bs))) p"
    using assms
  proof (induction hs arbitrary: cur)
    case (Cons h hs)
    let ?n = "unat (rb_size h)" and ?d = "take (unat (rb_size h)) (drop cur p)"
    have d: "length ?d = ?n" "drop cur p = ?d @ drop (cur + ?n) p"
      using Cons.prems(1) by (simp, metis append_take_drop_id drop_drop add.commute)
    obtain bs where "list_all red_block_ok bs" "hs = map block_of bs"
      "length (concat (map snd bs)) = sum_list (map (\<lambda>h. unat (rb_size h)) hs)"
      "drop (cur + ?n) p = concat (map snd bs) @ drop (cur + ?n + length (concat (map snd bs))) p"
      using Cons.IH [of "cur + ?n"] Cons.prems by (auto simp: add.assoc)
    then show ?case using d Cons.prems(2)
      by (intro exI [of _ "(rb_code h, ?d) # bs"])
        (auto simp: red_block_ok_def block_of_def add.assoc simp del: length_take)
  qed (simp add: exI [of _ "[]"])
  then show ?thesis using that by blast
qed

text \<open>A header run that is accepted has room for its blocks, so no slice is out of range.\<close>

lemma red_headers_packet:
  assumes "red_headers p 0 (length p) [] = Ok (hs, cur, rem)"
  obtains bs mc md where "red_packet_ok bs (mc, md)" "p = red_packet bs (mc, md)"
proof -
  from red_headers_sound [OF assms] have
    c: "cur = 2 * length hs" "cur < length p" "p ! cur < 0x80" "2 \<le> rem"
      "length p = rem + sum_list (map (\<lambda>h. unat (rb_size h) + 2) hs)"
    and hs: "list_all (\<lambda>h. rb_code h < 0x80) hs"
    and p: "p = concat (map (\<lambda>h. [0x80 OR rb_code h, rb_size h]) hs) @ drop cur p"
    by auto
  have sum: "sum_list (map (\<lambda>h. unat (rb_size h) + 2) hs) = sum_list (map (\<lambda>h. unat (rb_size h)) hs) + 2 * length hs"
    by (induction hs) auto
  have "cur + 1 + sum_list (map (\<lambda>h. unat (rb_size h)) hs) \<le> length p" using c sum by simp
  then obtain bs where bs: "list_all red_block_ok bs" "hs = map block_of bs"
    "length (concat (map snd bs)) = sum_list (map (\<lambda>h. unat (rb_size h)) hs)"
    "drop (cur + 1) p = concat (map snd bs) @ drop (cur + 1 + length (concat (map snd bs))) p"
    using red_frames_sound [OF _ hs] by blast
  let ?md = "drop (cur + 1 + length (concat (map snd bs))) p"
  have "concat (map (\<lambda>h. [0x80 OR rb_code h, rb_size h]) hs) = concat (map red_header bs)"
    unfolding bs(2) by (induction bs) (auto simp: block_of_def red_header_def)
  moreover have "drop cur p = p ! cur # drop (cur + 1) p" using c(2) by (simp add: Cons_nth_drop_Suc)
  ultimately have "p = red_packet bs (p ! cur, ?md)"
    using p bs(4) by (simp add: red_packet_def)
  moreover have "?md \<noteq> []" using c bs(3) sum by simp
  ultimately show ?thesis using that [of bs "p ! cur" ?md] bs(1) c(3) by (simp add: red_packet_ok_def)
qed

lemma depack_total: "depack_split_red p \<noteq> Panic \<and> depack_split_red p \<noteq> Err HeaderTooShort"
proof (cases "red_headers p 0 (length p) []")
  case (Ok r)
  obtain hs cur rem where r: "r = (hs, cur, rem)" by (metis prod_cases3)
  from Ok r obtain bs mc md where b: "red_packet_ok bs (mc, md)" and p: "p = red_packet bs (mc, md)"
    using red_headers_packet by metis
  from depack_complete [OF b] show ?thesis by (simp add: p)
qed (use red_headers_total [of 0 "length p" p "[]"] in \<open>auto simp: depack_split_red_def\<close>)

text \<open>C24: what \<open>depack_split_red\<close> makes of a payload. It accepts exactly the well-formed wrappers,
  however many blocks they have, and returns their payloads in order with the time codes, the main
  frame last; every other payload is answered by an error, no index is out of range, and
  \<open>HeaderTooShort\<close> is never returned.\<close>

theorem depack_split_red_exact:
  "(depack_split_red p = Ok frames \<longleftrightarrow>
     (\<exists>bs main. red_packet_ok bs main \<and> p = red_packet bs main \<and>
       frames = map (frame_of False) bs @ [frame_of True main])) \<and>
   depack_split_red p \<noteq> Panic \<and> depack_split_red p \<noteq> Err HeaderTooShort"
proof -
  have "\<exists>bs main. red_packet_ok bs main \<and> p = red_packet bs main \<and>
       frames = map (frame_of False) bs @ [frame_of True main]" if d: "depack_split_red p = Ok frames"
  proof -
    from d obtain hs cur rem where "red_headers p 0 (length p) [] = Ok (hs, cur, rem)"
      by (auto simp: depack_split_red_def obind_eq_Ok split: if_splits)
    from red_headers_packet [OF this] obtain bs mc md where
      b: "red_packet_ok bs (mc, md)" and p: "p = red_packet bs (mc, md)" .
    from depack_complete [OF b] d p show ?thesis using b by auto
  qed
  then show ?thesis using depack_complete depack_total [of p] by auto
qed

section \<open>Which frames reach the synthesis\<close>

text \<open>The frame that a payload stands for, empty when the payload is lost.\<close>

definition current_frame :: "int \<Rightarrow> bytes \<Rightarrow> bytes" where
  "current_frame red payload =
    (if red \<le> 0 then payload
     else case depack_split_red payload of Ok frames \<Rightarrow> mf_data (last frames) | _ \<Rightarrow> [])"

text \<open>The first bytes of the frames at the decoder's operating point, and of the standard Opus escape
  with the milliseconds each stands for.\<close>

definition operating_point :: "u8 list" where
  "operating_point = [0x12, 0x13, 0x50, 0x51, 0x52, 0x53]"

lemma toc_operating_point:
  "\<not> std_opus (parse_mlow_toc b) \<and> \<not> sid (parse_mlow_toc b) \<and> active (parse_mlow_toc b) \<and>
    \<not> off_point (parse_mlow_toc b) \<longleftrightarrow> b \<in> set operating_point"
proof -
  have "\<forall>b. (\<not> std_opus (parse_mlow_toc b) \<and> \<not> sid (parse_mlow_toc b) \<and> active (parse_mlow_toc b) \<and>
    \<not> off_point (parse_mlow_toc b)) = (b \<in> set operating_point)"
    unfolding all_u8 by code_simp
  then show ?thesis by simp
qed

lemma toc_std_opus: "std_opus (parse_mlow_toc b) \<longleftrightarrow> 0xC0 \<le> b"
proof -
  have "\<forall>b. std_opus (parse_mlow_toc b) = (0xC0 \<le> b)" unfolding all_u8 by code_simp
  then show ?thesis by simp
qed

lemma toc_std_opus_ms: "0xC0 \<le> b \<Longrightarrow> frame_ms (parse_mlow_toc b) = [3, 5, 10, 20] ! unat (drop_bit 3 b AND 3)"
proof -
  have "\<forall>b. 0xC0 \<le> b \<longrightarrow> frame_ms (parse_mlow_toc b) = [3, 5, 10, 20] ! unat (drop_bit 3 b AND 3)"
    unfolding all_u8 by code_simp
  then show "0xC0 \<le> b \<Longrightarrow> ?thesis" by simp
qed

text \<open>The samples that replace a frame which does not reach the synthesis.\<close>

definition silent_samples :: "bytes \<Rightarrow> nat" where
  "silent_samples frame =
    (if frame \<noteq> [] \<and> 0xC0 \<le> hd frame then [48, 80, 160, 320] ! unat (drop_bit 3 (hd frame) AND 3) else 960)"

lemma decode_frame_gate:
  "decode_frame synth silent frame d =
    (if frame \<noteq> [] \<and> hd frame \<in> set operating_point
     then (case synth (ml_state d) frame of (st, out, err) \<Rightarrow> (out, d\<lparr>ml_state := st, had_error := had_error d \<or> err\<rparr>))
     else (replicate (silent_samples frame) silent,
           if frame \<noteq> [] \<and> hd frame < 0xC0 \<and> \<not> sid (parse_mlow_toc (hd frame)) \<and> active (parse_mlow_toc (hd frame))
           then d\<lparr>dropped_unsupported := dropped_unsupported d + 1\<rparr> else d))"
proof (cases frame)
  case Nil
  then show ?thesis by (simp add: decode_frame_def silent_samples_def OPUS_FRAME_SAMPS_def)
next
  case (Cons b bs)
  show ?thesis
  proof (cases "0xC0 \<le> b")
    case True
    have "unat (drop_bit 3 b AND 3) < 4" using word_and_le1 [of "drop_bit 3 b" 3] by (simp add: word_le_nat_alt)
    then consider "unat (drop_bit 3 b AND 3) = 0" | "unat (drop_bit 3 b AND 3) = 1" | "unat (drop_bit 3 b AND 3) = 2"
      | "unat (drop_bit 3 b AND 3) = 3" by linarith
    then show ?thesis using True toc_std_opus [of b] toc_operating_point [of b] toc_std_opus_ms [OF True]
      by cases (simp_all add: Cons decode_frame_def silent_samples_def Let_def not_less)
  next
    case False
    then show ?thesis using toc_std_opus [of b] toc_operating_point [of b]
      by (auto simp: Cons decode_frame_def silent_samples_def Let_def OPUS_FRAME_SAMPS_def)
  qed
qed

lemma decode_frame_Nil: "decode_frame synth silent [] d = (replicate OPUS_FRAME_SAMPS silent, d)"
  by (simp add: decode_frame_def)

lemma depack_Nil: "depack_split_red [] = Err PktSizeZero"
  by (simp add: depack_split_red_def)

lemma depack_not_Nil: "depack_split_red p = Ok frames \<Longrightarrow> frames \<noteq> []"
  by (auto simp: depack_split_red_def obind_eq_Ok split: if_splits)

lemma mlow_decode_frame:
  "mlow_decode synth silent payload d = Ok (decode_frame synth silent (current_frame (redundancy d) payload) d)"
  using depack_total [of payload] depack_not_Nil [of payload]
  by (cases "payload = []"; cases "depack_split_red payload")
    (auto simp: mlow_decode_def current_frame_def decode_frame_Nil depack_Nil)

text \<open>Whatever payload arrives, the decoder does not panic, and only an active frame at its one
  operating point, told by six values of its first byte, reaches the synthesis and its state; every
  other payload is answered by silence, of the Opus frame's length for the standard Opus escape and
  of a whole packet otherwise, with the synthesis state untouched.\<close>

theorem mlow_decode_gate:
  "\<exists>out d'. mlow_decode synth silent payload d = Ok (out, d') \<and> redundancy d' = redundancy d \<and>
    (let frame = current_frame (redundancy d) payload in
     if frame \<noteq> [] \<and> hd frame \<in> set operating_point
     then (ml_state d', out) = map_prod id fst (synth (ml_state d) frame)
     else ml_state d' = ml_state d \<and> had_error d' = had_error d \<and>
       out = replicate (silent_samples frame) silent)"
  by (simp add: mlow_decode_frame decode_frame_gate Let_def split: prod.splits)

end
