(* ===== verification/Call_Media.thy ===== *)
theory Call_Media
  imports Ruwa_Prelude
begin

text \<open>
  The media plane of a call, \<open>src/src/call.rs\<close>: the key derivation from the call key, the
  payload cipher and the authentication tag, the rollover counters of both directions, the RTP
  header and its sequencer, the protection of packets, and the two steps of \<open>MediaLoop::run\<close> that
  send and receive one. HKDF, the AES-CTR keystream and HMAC-SHA1 are arguments; the sound codecs
  and the transport are outside the model.
\<close>

section \<open>Keys\<close>

record call_crypto =
  hkdf_expand :: "bytes \<Rightarrow> bytes \<Rightarrow> bytes \<Rightarrow> nat \<Rightarrow> bytes"
  keystream :: "bytes \<Rightarrow> bytes \<Rightarrow> nat \<Rightarrow> bytes"
  hmac_sha1 :: "bytes \<Rightarrow> bytes \<Rightarrow> bytes"

text \<open>What the primitives are documented to return: so many bytes.\<close>

definition call_crypto_lengths :: "call_crypto \<Rightarrow> bool" where
  "call_crypto_lengths c \<longleftrightarrow>
    (\<forall>s k i n. length (hkdf_expand c s k i n) = n) \<and> (\<forall>k v n. length (keystream c k v n) = n) \<and>
    (\<forall>k m. length (hmac_sha1 c k m) = 20)"

definition apply_keystream :: "call_crypto \<Rightarrow> bytes \<Rightarrow> bytes \<Rightarrow> bytes \<Rightarrow> bytes" where
  "apply_keystream c k iv out = map2 (XOR) out (keystream c k iv (length out))"

definition format_participant_id :: "string \<Rightarrow> string" where
  "format_participant_id jid =
    (let bare = trim (takeWhile (\<lambda>c. c \<noteq> CHR ''/'') jid) in
     case rsplit_once CHR ''@'' bare of None \<Rightarrow> bare
     | Some (user, domain) \<Rightarrow>
         if user = [] then bare
         else if domain \<noteq> ''lid'' then bare
         else
           (let (user_no_dev, device) =
                  (case split_once CHR '':'' user of Some (u, d) \<Rightarrow> (u, d) | None \<Rightarrow> (user, ''0''));
                number = takeWhile (\<lambda>c. c \<noteq> CHR ''.'') user_no_dev
            in number @ '':'' @ device @ ''@lid''))"

record srtp_keys =
  cipher_key :: bytes
  srtp_salt :: bytes
  auth_key :: bytes

text \<open>\<open>b[i] ^= v\<close>.\<close>

definition xor_at :: "nat \<Rightarrow> u8 \<Rightarrow> bytes \<Rightarrow> bytes" where
  "xor_at i v b = b[i := b ! i XOR v]"

definition aes_cm_kdf :: "call_crypto \<Rightarrow> bytes \<Rightarrow> bytes \<Rightarrow> u8 \<Rightarrow> nat \<Rightarrow> bytes" where
  "aes_cm_kdf c master_key master_salt label len =
    (let iv = xor_at 7 label (take 14 master_salt @ [0, 0]) in apply_keystream c master_key iv (replicate len 0))"

definition session_keys_from_master :: "call_crypto \<Rightarrow> bytes \<Rightarrow> u8 \<times> u8 \<times> u8 \<Rightarrow> srtp_keys" where
  "session_keys_from_master c master = (\<lambda>(l0, l1, l2).
    let master_key = take 16 master; master_salt = take 14 (drop 16 master)
    in \<lparr>cipher_key = aes_cm_kdf c master_key master_salt l0 16,
        srtp_salt = aes_cm_kdf c master_key master_salt l2 14,
        auth_key = aes_cm_kdf c master_key master_salt l1 20\<rparr>)"

definition e2e_master :: "call_crypto \<Rightarrow> bytes \<Rightarrow> string \<Rightarrow> bytes option" where
  "e2e_master c call_key participant_lid =
    (if length call_key < 32 then None
     else Some (hkdf_expand c (replicate 32 0) (take 32 call_key) (as_bytes participant_lid) 46))"

definition derive_e2e_keys :: "call_crypto \<Rightarrow> bytes \<Rightarrow> string \<Rightarrow> srtp_keys option" where
  "derive_e2e_keys c call_key participant_lid =
    map_option (\<lambda>m. session_keys_from_master c m (0x00, 0x01, 0x02)) (e2e_master c call_key participant_lid)"

definition derive_srtcp_keys :: "call_crypto \<Rightarrow> bytes \<Rightarrow> string \<Rightarrow> srtp_keys option" where
  "derive_srtcp_keys c call_key participant_lid =
    map_option (\<lambda>m. session_keys_from_master c m (0x03, 0x04, 0x05)) (e2e_master c call_key participant_lid)"

text \<open>The stream identifiers, read little-endian.\<close>

definition derive_wasm_participant_ssrc :: "call_crypto \<Rightarrow> string \<Rightarrow> string \<Rightarrow> u32 \<Rightarrow> u32" where
  "derive_wasm_participant_ssrc c call_id lid slot_word =
    word_of_nat (be_nat (rev (take 4
      (hkdf_expand c (rev (be_bytes 4 (unat slot_word))) (as_bytes call_id) (as_bytes lid) 4))))"

section \<open>The payload cipher and the tag\<close>

definition build_e2e_rtp_iv :: "bytes \<Rightarrow> u32 \<Rightarrow> u32 \<Rightarrow> u16 \<Rightarrow> bytes" where
  "build_e2e_rtp_iv salt ssrc roc seq =
    (let n = min (length salt) 14;
         off = 14 - n;
         iv = replicate off 0 @ take n salt @ [0, 0];
         iv = xor_at 4 (ucast (drop_bit 24 ssrc)) iv;
         iv = xor_at 5 (ucast (drop_bit 16 ssrc)) iv;
         iv = xor_at 6 (ucast (drop_bit 8 ssrc)) iv;
         iv = xor_at 7 (ucast ssrc) iv;
         packet_index = (ucast roc :: u64) * 0x10000 + (ucast seq :: u64);
         hi16 = (ucast (drop_bit 32 packet_index AND 0xffff) :: u16);
         lo32 = (ucast (packet_index AND 0xffffffff) :: u32);
         iv = xor_at 8 (ucast (drop_bit 8 hi16)) iv;
         iv = xor_at 9 (ucast hi16) iv;
         iv = xor_at 10 (ucast (drop_bit 24 lo32)) iv;
         iv = xor_at 11 (ucast (drop_bit 16 lo32)) iv;
         iv = xor_at 12 (ucast (drop_bit 8 lo32)) iv
     in xor_at 13 (ucast lo32) iv)"

definition crypt_payload :: "call_crypto \<Rightarrow> srtp_keys \<Rightarrow> u32 \<Rightarrow> u16 \<Rightarrow> u32 \<Rightarrow> bytes \<Rightarrow> bytes" where
  "crypt_payload c keys ssrc seq roc payload =
    apply_keystream c (cipher_key keys) (build_e2e_rtp_iv (srtp_salt keys) ssrc roc seq) payload"

definition WARP_MI_TAG_LEN :: nat where "WARP_MI_TAG_LEN = 4"

definition compute_warp_mi_tag :: "call_crypto \<Rightarrow> bytes \<Rightarrow> bytes \<Rightarrow> u32 \<Rightarrow> nat \<Rightarrow> bytes" where
  "compute_warp_mi_tag c key packet roc tag_len =
    take tag_len (hmac_sha1 c key (packet @ be_bytes 4 (unat roc)))"

definition verify_warp_mi_tag :: "call_crypto \<Rightarrow> bytes \<Rightarrow> bytes \<Rightarrow> u32 \<Rightarrow> nat \<Rightarrow> bytes \<Rightarrow> bool" where
  "verify_warp_mi_tag c key packet roc tag_len received = (compute_warp_mi_tag c key packet roc tag_len = received)"

definition append_warp_mi_tag :: "call_crypto \<Rightarrow> bytes \<Rightarrow> bytes \<Rightarrow> u32 \<Rightarrow> nat \<Rightarrow> bytes" where
  "append_warp_mi_tag c key packet roc tag_len = packet @ compute_warp_mi_tag c key packet roc tag_len"

section \<open>The rollover counters\<close>

record roc_tracker =
  rt_roc :: u32
  last_seq :: u16
  rt_initialized :: bool

definition default_roc_tracker :: roc_tracker where
  "default_roc_tracker = \<lparr>rt_roc = 0, last_seq = 0, rt_initialized = False\<rparr>"

definition advance :: "u16 \<Rightarrow> roc_tracker \<Rightarrow> u32 \<times> roc_tracker" where
  "advance seq t =
    (if \<not> rt_initialized t then (rt_roc t, t\<lparr>last_seq := seq, rt_initialized := True\<rparr>)
     else
       (let t = (if int (unat seq) - int (unat (last_seq t)) < - 32768 then t\<lparr>rt_roc := rt_roc t + 1\<rparr> else t)
        in (rt_roc t, t\<lparr>last_seq := seq\<rparr>)))"

record recv_roc_tracker =
  rr_roc :: u32
  s_l :: u16
  rr_initialized :: bool

definition default_recv_roc :: recv_roc_tracker where
  "default_recv_roc = \<lparr>rr_roc = 0, s_l = 0, rr_initialized = False\<rparr>"

definition estimate_roc :: "u16 \<Rightarrow> recv_roc_tracker \<Rightarrow> u32" where
  "estimate_roc seq t =
    (if \<not> rr_initialized t then rr_roc t
     else if s_l t < 0x8000
     then (if 0x8000 < int (unat seq) - int (unat (s_l t)) then rr_roc t - 1 else rr_roc t)
     else if 0x8000 < int (unat (s_l t)) - int (unat seq) then rr_roc t + 1
     else rr_roc t)"

definition commit_roc :: "u32 \<Rightarrow> u16 \<Rightarrow> recv_roc_tracker \<Rightarrow> recv_roc_tracker" where
  "commit_roc v seq t =
    (if \<not> rr_initialized t then t\<lparr>s_l := seq, rr_initialized := True\<rparr>
     else if v = rr_roc t then (if s_l t < seq then t\<lparr>s_l := seq\<rparr> else t)
     else if v = rr_roc t + 1 then t\<lparr>rr_roc := v, s_l := seq\<rparr>
     else t)"

section \<open>The RTP header\<close>

definition RTP_VERSION :: u8 where "RTP_VERSION = 2"
definition RTP_FIXED_HEADER_LEN :: nat where "RTP_FIXED_HEADER_LEN = 12"
definition WHATSAPP_RTP_HEADER_SIZE :: nat where "WHATSAPP_RTP_HEADER_SIZE = 16"
definition WHATSAPP_RTP_HEADER_DTX_SIZE :: nat where "WHATSAPP_RTP_HEADER_DTX_SIZE = 20"
definition WHATSAPP_RTP_EXTENSION_PROFILE :: u16 where "WHATSAPP_RTP_EXTENSION_PROFILE = 0xdebe"
definition WHATSAPP_RTP_EXTENSION_DTX_WORD :: u32 where "WHATSAPP_RTP_EXTENSION_DTX_WORD = 0x30010000"
definition RTP_PAYLOAD_TYPE_OPUS :: u8 where "RTP_PAYLOAD_TYPE_OPUS = 111"
definition RTP_PAYLOAD_TYPE_MLOW :: u8 where "RTP_PAYLOAD_TYPE_MLOW = 120"
definition RTP_PAYLOAD_TYPE_MLOW_RED :: u8 where "RTP_PAYLOAD_TYPE_MLOW_RED = 121"

definition OPUS_PRIMING_FRAME_1 :: bytes where
  "OPUS_PRIMING_FRAME_1 =
    [0x12, 0x36, 0x26, 0x2b, 0x4a, 0xc8, 0x2b, 0x09, 0xc9, 0x1f, 0x34, 0xc2, 0xd6, 0x7a, 0x01, 0x73,
     0x1b, 0x2e]"

definition OPUS_PRIMING_FRAME_2 :: bytes where
  "OPUS_PRIMING_FRAME_2 = [0x90, 0xb8, 0x14, 0x14, 0xc4]"

definition is_whatsapp_opus_rtp_payload :: "u8 \<Rightarrow> bool" where
  "is_whatsapp_opus_rtp_payload pt \<longleftrightarrow>
    pt = RTP_PAYLOAD_TYPE_OPUS \<or> pt = RTP_PAYLOAD_TYPE_MLOW \<or> pt = RTP_PAYLOAD_TYPE_MLOW_RED"

definition is_opus_dtx_payload :: "bytes \<Rightarrow> bool" where
  "is_opus_dtx_payload payload =
    (let n = length payload in
     if n = 0 then False
     else if n \<le> 2 then True
     else if n \<le> 15 then
       (let b0 = payload ! 0 in
        if b0 AND 0xf8 = 0x08 \<or> b0 = 0x0a then True else b0 AND 0xf0 = 0x30 \<and> n \<le> 6)
     else False)"

definition is_mlow_dtx_payload :: "bytes \<Rightarrow> bool" where
  "is_mlow_dtx_payload payload = (case payload of [] \<Rightarrow> False | b # _ \<Rightarrow> b AND 0xC0 = 0x80)"

definition is_opus_priming_payload :: "bytes \<Rightarrow> bool" where
  "is_opus_priming_payload payload \<longleftrightarrow> payload = OPUS_PRIMING_FRAME_1 \<or> payload = OPUS_PRIMING_FRAME_2"

record rtp_header =
  marker :: bool
  payload_type :: u8
  sequence_number :: u16
  timestamp :: u32
  ssrc :: u32
  extension_word :: "u32 option"

definition byte_size :: "rtp_header \<Rightarrow> nat" where
  "byte_size h =
    (if extension_word h \<noteq> None then WHATSAPP_RTP_HEADER_DTX_SIZE else WHATSAPP_RTP_HEADER_SIZE)"

definition encode_rtp_header_into :: "rtp_header \<Rightarrow> bytes \<Rightarrow> bytes" where
  "encode_rtp_header_into h out =
    (let b = [push_bit 6 RTP_VERSION OR 0x10, push_bit 7 (of_bool (marker h)) OR (payload_type h AND 0x7f)] @
             be_bytes 2 (unat (sequence_number h)) @ be_bytes 4 (unat (timestamp h)) @ be_bytes 4 (unat (ssrc h)) @
             be_bytes 2 (unat WHATSAPP_RTP_EXTENSION_PROFILE) @ [0, of_bool (extension_word h \<noteq> None)] @
             (case extension_word h of Some w \<Rightarrow> be_bytes 4 (unat w) | None \<Rightarrow> replicate 4 0)
     in out @ take (byte_size h) b)"

definition is_rtp_version2 :: "bytes \<Rightarrow> bool" where
  "is_rtp_version2 data \<longleftrightarrow>
    RTP_FIXED_HEADER_LEN \<le> length data \<and> drop_bit 6 (data ! 0) AND 0x03 = RTP_VERSION"

definition rtp_header_byte_length :: "bytes \<Rightarrow> nat option" where
  "rtp_header_byte_length data =
    (if length data < RTP_FIXED_HEADER_LEN \<or> drop_bit 6 (data ! 0) AND 0x03 \<noteq> RTP_VERSION then None
     else
       (let cc = unat (data ! 0 AND 0x0f); header_len = RTP_FIXED_HEADER_LEN + cc * 4 in
        if length data < header_len then None
        else if drop_bit 4 (data ! 0) AND 1 = 1 then
          (if length data < header_len + 4 then None
           else
             (let ext_words = be_nat [data ! (header_len + 2), data ! (header_len + 3)];
                  header_len = header_len + (4 + ext_words * 4)
              in if length data < header_len then None else Some header_len))
        else Some header_len))"

definition parse_rtp_header :: "bytes \<Rightarrow> rtp_header option" where
  "parse_rtp_header data =
    (case rtp_header_byte_length data of None \<Rightarrow> None
     | Some _ \<Rightarrow> Some
         \<lparr>marker = (drop_bit 7 (data ! 1) AND 1 = 1), payload_type = data ! 1 AND 0x7f,
          sequence_number = word_of_nat (be_nat [data ! 2, data ! 3]),
          timestamp = word_of_nat (be_nat [data ! 4, data ! 5, data ! 6, data ! 7]),
          ssrc = word_of_nat (be_nat [data ! 8, data ! 9, data ! 10, data ! 11]),
          extension_word = None\<rparr>)"

section \<open>The send-side sequencer\<close>

record rtp_stream =
  st_ssrc :: u32
  st_seq :: u16
  st_timestamp :: u32
  last_sent_timestamp :: "u32 option"
  samples_per_packet :: u32
  speech_started :: bool
  speech_start_markers :: bool
  mlow_profile :: bool
  st_payload_type :: u8

definition new_rtp_stream :: "u32 \<Rightarrow> u32 \<Rightarrow> rtp_stream" where
  "new_rtp_stream src samples =
    \<lparr>st_ssrc = src, st_seq = 1, st_timestamp = 0, last_sent_timestamp = None, samples_per_packet = samples,
     speech_started = False, speech_start_markers = True, mlow_profile = True,
     st_payload_type = RTP_PAYLOAD_TYPE_MLOW\<rparr>"

definition set_payload_type :: "u8 \<Rightarrow> rtp_stream \<Rightarrow> bool \<times> rtp_stream" where
  "set_payload_type pt s = (if 127 < pt then (False, s) else (True, s\<lparr>st_payload_type := pt\<rparr>))"

definition set_mlow_profile :: "bool \<Rightarrow> rtp_stream \<Rightarrow> rtp_stream" where
  "set_mlow_profile enabled s = s\<lparr>mlow_profile := enabled, speech_start_markers := enabled\<rparr>"

definition rtp_timestamp :: "rtp_stream \<Rightarrow> u32" where
  "rtp_timestamp s = (case last_sent_timestamp s of Some t \<Rightarrow> t | None \<Rightarrow> st_timestamp s)"

definition next_packet :: "bytes \<Rightarrow> bool \<Rightarrow> rtp_stream \<Rightarrow> rtp_header \<times> rtp_stream" where
  "next_packet payload mark s =
    (let dtx = (if mlow_profile s then is_mlow_dtx_payload payload else is_opus_dtx_payload payload);
         priming = is_opus_priming_payload payload;
         speech = (\<not> dtx \<and> \<not> priming);
         use_marker = (mark \<or> speech_start_markers s \<and> speech \<and> \<not> speech_started s);
         s = (if dtx then s\<lparr>speech_started := False\<rparr> else if speech then s\<lparr>speech_started := True\<rparr> else s);
         header = \<lparr>marker = use_marker, payload_type = st_payload_type s, sequence_number = st_seq s,
                   timestamp = st_timestamp s, ssrc = st_ssrc s,
                   extension_word = (if dtx then Some WHATSAPP_RTP_EXTENSION_DTX_WORD else None)\<rparr>
     in (header, s\<lparr>last_sent_timestamp := Some (timestamp header), st_seq := st_seq s + 1,
                   st_timestamp := st_timestamp s + samples_per_packet s\<rparr>))"

section \<open>Protected packets\<close>

definition protect_audio_rtp ::
  "call_crypto \<Rightarrow> srtp_keys \<Rightarrow> bytes \<Rightarrow> bytes \<Rightarrow> u32 \<Rightarrow> u16 \<Rightarrow> u32 \<Rightarrow> bytes" where
  "protect_audio_rtp c keys header_bytes payload src seq roc =
    (let ct = crypt_payload c keys src seq roc payload
     in append_warp_mi_tag c (auth_key keys) (header_bytes @ ct) roc WARP_MI_TAG_LEN)"

definition unprotect_audio_rtp ::
  "call_crypto \<Rightarrow> srtp_keys \<Rightarrow> bytes \<Rightarrow> recv_roc_tracker \<Rightarrow> (rtp_header \<times> bytes) option \<times> recv_roc_tracker" where
  "unprotect_audio_rtp c keys packet t =
    (if length packet < WARP_MI_TAG_LEN then (None, t)
     else
       (let body = take (length packet - WARP_MI_TAG_LEN) packet; tag = drop (length packet - WARP_MI_TAG_LEN) packet in
        case rtp_header_byte_length body of None \<Rightarrow> (None, t)
        | Some header_len \<Rightarrow>
            (case parse_rtp_header body of None \<Rightarrow> (None, t)
             | Some hdr \<Rightarrow>
                 (let roc = estimate_roc (sequence_number hdr) t in
                  if \<not> verify_warp_mi_tag c (auth_key keys) body roc WARP_MI_TAG_LEN tag then (None, t)
                  else
                    (let t = commit_roc roc (sequence_number hdr) t; ct = drop header_len body
                     in (Some (hdr, crypt_payload c keys (ssrc hdr) (sequence_number hdr) roc ct), t))))))"

section \<open>The media loop\<close>

datatype relay_packet = Stun | Rtcp | Rtp | Other

definition classify_relay_packet :: "bytes \<Rightarrow> relay_packet" where
  "classify_relay_packet data =
    (case data of [] \<Rightarrow> Other
     | b # bs \<Rightarrow>
         if b AND 0xc0 = 0x00 then Stun
         else if 0x80 \<le> b \<and> b \<le> 0xbf then
           (case bs of pt # _ \<Rightarrow> if 0xc8 \<le> pt \<and> pt \<le> 0xcf then Rtcp else Rtp | [] \<Rightarrow> Rtp)
         else Other)"

text \<open>The state that \<open>run\<close> keeps for the packets, with its statistics.\<close>

record media_state =
  rtp :: rtp_stream
  send_roc :: roc_tracker
  recv_roc :: recv_roc_tracker
  rtp_tx :: u64
  rtp_rx :: u64
  decrypt_ok :: u64
  decrypt_fail :: u64
  mlow_like :: u64

definition CODEC_FRAME_SAMPLES :: nat where "CODEC_FRAME_SAMPLES = 960"

definition media_start :: "u32 \<Rightarrow> bool \<Rightarrow> media_state" where
  "media_start send_ssrc mlow =
    \<lparr>rtp = set_mlow_profile mlow (snd (set_payload_type RTP_PAYLOAD_TYPE_MLOW
             (new_rtp_stream send_ssrc (word_of_nat CODEC_FRAME_SAMPLES)))),
     send_roc = default_roc_tracker, recv_roc = default_recv_roc,
     rtp_tx = 0, rtp_rx = 0, decrypt_ok = 0, decrypt_fail = 0, mlow_like = 0\<rparr>"

text \<open>From the encoded payload to the packet that is sent, on a transport that takes it.\<close>

definition media_send :: "call_crypto \<Rightarrow> srtp_keys \<Rightarrow> u32 \<Rightarrow> bytes \<Rightarrow> media_state \<Rightarrow> bytes \<times> media_state" where
  "media_send c send_keys send_ssrc payload m =
    (let (hdr, stream) = next_packet payload False (rtp m);
         header_bytes = encode_rtp_header_into hdr [];
         (roc, tracker) = advance (sequence_number hdr) (send_roc m)
     in (protect_audio_rtp c send_keys header_bytes payload send_ssrc (sequence_number hdr) roc,
         m\<lparr>rtp := stream, send_roc := tracker, rtp_tx := rtp_tx m + 1\<rparr>))"

text \<open>From a packet to the payload that is handed to the sound decoder.\<close>

definition media_recv :: "call_crypto \<Rightarrow> srtp_keys \<Rightarrow> bytes \<Rightarrow> media_state \<Rightarrow> bytes option \<times> media_state" where
  "media_recv c recv_keys pkt m =
    (if classify_relay_packet pkt = Rtp then
       (let m = m\<lparr>rtp_rx := rtp_rx m + 1\<rparr> in
        case unprotect_audio_rtp c recv_keys pkt (recv_roc m) of
          (Some (hdr, payload), t) \<Rightarrow>
            (let m = m\<lparr>recv_roc := t, decrypt_ok := decrypt_ok m + 1\<rparr>;
                 m = (case payload of b # _ \<Rightarrow>
                        if 0x48 \<le> b \<and> b \<le> 0x57 then m\<lparr>mlow_like := mlow_like m + 1\<rparr> else m | [] \<Rightarrow> m)
             in (Some payload, m))
        | (None, t) \<Rightarrow> (None, m\<lparr>recv_roc := t, decrypt_fail := decrypt_fail m + 1\<rparr>))
     else (None, m))"

end
