(* ===== verification/Media_Transport.thy ===== *)
theory Media_Transport
  imports Call_Media
begin

text \<open>
  What the media plane of \<^theory_text>\<open>Call_Media\<close> delivers: headers and payloads are read back as they were
  written, the counter block determines the packet, the counters of both directions follow the
  packet index, and so a call survives an unreliable and hostile transport.
\<close>

section \<open>Reading back what was written\<close>

lemma length_apply_keystream [simp]: "call_crypto_lengths c \<Longrightarrow> length (apply_keystream c k iv b) = length b"
  by (simp add: apply_keystream_def call_crypto_lengths_def)

lemma xor_map2_cancel: "length ks = length b \<Longrightarrow> map2 (XOR) (map2 (XOR) b ks) ks = (b :: bytes)"
  by (rule nth_equalityI) (simp_all add: xor.assoc)

lemma apply_keystream_twice: "call_crypto_lengths c \<Longrightarrow> apply_keystream c k iv (apply_keystream c k iv b) = b"
  using xor_map2_cancel [of "keystream c k iv (length b)" b]
  by (simp add: apply_keystream_def call_crypto_lengths_def)

lemma crypt_payload_twice:
  "call_crypto_lengths c \<Longrightarrow> crypt_payload c keys src seq roc (crypt_payload c keys src seq roc p) = p"
  by (simp add: crypt_payload_def apply_keystream_twice)

lemma length_warp_tag: "call_crypto_lengths c \<Longrightarrow> n \<le> 20 \<Longrightarrow> length (compute_warp_mi_tag c k p roc n) = n"
  by (simp add: compute_warp_mi_tag_def call_crypto_lengths_def)

lemma marker_byte:
  "pt < 128 \<Longrightarrow> drop_bit 7 (push_bit 7 (of_bool b) OR (pt AND 0x7f)) AND 1 = (of_bool b :: u8) \<and>
    (push_bit 7 (of_bool b) OR (pt AND 0x7f)) AND 0x7f = pt"
proof -
  have "\<forall>pt :: u8. pt < 128 \<longrightarrow> (\<forall>m \<in> {0, 1 :: u8}. drop_bit 7 (push_bit 7 m OR (pt AND 0x7f)) AND 1 = m \<and>
      (push_bit 7 m OR (pt AND 0x7f)) AND 0x7f = pt)"
    unfolding all_u8 by code_simp
  then have "pt < 128 \<Longrightarrow> (of_bool b :: u8) \<in> {0, 1} \<Longrightarrow> ?thesis" by blast
  moreover have "(of_bool b :: u8) \<in> {0, 1}" by simp
  ultimately show "pt < 128 \<Longrightarrow> ?thesis" by blast
qed

lemma encode_rtp_header_into_append: "encode_rtp_header_into h out = out @ encode_rtp_header_into h []"
  by (simp add: encode_rtp_header_into_def Let_def)

lemma length_encode_rtp_header: "length (encode_rtp_header_into h []) = byte_size h"
  by (cases "extension_word h") (simp_all add: encode_rtp_header_into_def Let_def byte_size_def
    WHATSAPP_RTP_HEADER_DTX_SIZE_def WHATSAPP_RTP_HEADER_SIZE_def)

lemma parse_encode_rtp_header:
  assumes "payload_type h < 128"
  shows "rtp_header_byte_length (encode_rtp_header_into h [] @ rest) = Some (byte_size h)"
    "parse_rtp_header (encode_rtp_header_into h [] @ rest) = Some (h\<lparr>extension_word := None\<rparr>)"
proof -
  let ?pb = "push_bit 7 (of_bool (marker h)) OR (payload_type h AND 0x7f) :: u8"
  obtain b1 where b1: "b1 = ?pb" by blast
  obtain q0 q1 where q: "be_bytes 2 (unat (sequence_number h)) = [q0, q1]"
    using list_of_2 [of "be_bytes 2 (unat (sequence_number h))"] by auto
  obtain t0 t1 t2 t3 where t: "be_bytes 4 (unat (timestamp h)) = [t0, t1, t2, t3]"
    using list_of_4 [of "be_bytes 4 (unat (timestamp h))"] by auto
  obtain s0 s1 s2 s3 where s: "be_bytes 4 (unat (ssrc h)) = [s0, s1, s2, s3]"
    using list_of_4 [of "be_bytes 4 (unat (ssrc h))"] by auto
  have pr: "be_bytes 2 (unat WHATSAPP_RTP_EXTENSION_PROFILE) = [0xde, 0xbe]"
  proof -
    have "be_bytes (Suc (Suc 0)) (unat (0xdebe :: u16)) = [0xde, 0xbe]" by simp
    then show ?thesis unfolding WHATSAPP_RTP_EXTENSION_PROFILE_def numeral_2_eq_2 .
  qed
  have v: "push_bit 6 RTP_VERSION OR 0x10 = 0x90" by (simp add: RTP_VERSION_def)
  let ?tl = "case extension_word h of None \<Rightarrow> [] | Some w \<Rightarrow> be_bytes 4 (unat w)"
  have e: "encode_rtp_header_into h [] =
      [0x90, b1, q0, q1, t0, t1, t2, t3, s0, s1, s2, s3, 0xde, 0xbe, 0, of_bool (extension_word h \<noteq> None)] @ ?tl"
    unfolding encode_rtp_header_into_def Let_def q t s pr v b1 [symmetric] byte_size_def
      WHATSAPP_RTP_HEADER_DTX_SIZE_def WHATSAPP_RTP_HEADER_SIZE_def
    by (cases "extension_word h") simp_all
  have tl: "length ?tl = (if extension_word h \<noteq> None then 4 else 0)" by (simp split: option.splits)
  show l: "rtp_header_byte_length (encode_rtp_header_into h [] @ rest) = Some (byte_size h)"
    using tl by (auto simp: rtp_header_byte_length_def e RTP_FIXED_HEADER_LEN_def RTP_VERSION_def Let_def
      byte_size_def WHATSAPP_RTP_HEADER_DTX_SIZE_def WHATSAPP_RTP_HEADER_SIZE_def be_nat_Cons)
  have m: "(drop_bit 7 b1 AND 1 = 1) = marker h" "b1 AND 0x7f = payload_type h"
    using marker_byte [OF assms, of "marker h"] unfolding b1 by simp_all
  have w: "word_of_nat (be_nat [q0, q1]) = sequence_number h" "word_of_nat (be_nat [t0, t1, t2, t3]) = timestamp h"
    "word_of_nat (be_nat [s0, s1, s2, s3]) = ssrc h"
    unfolding q [symmetric] t [symmetric] s [symmetric] by (rule u16_be_bytes u32_be_bytes)+
  show "parse_rtp_header (encode_rtp_header_into h [] @ rest) = Some (h\<lparr>extension_word := None\<rparr>)"
    unfolding parse_rtp_header_def l by (simp add: e m w)
qed

section \<open>The counter block determines the packet\<close>

definition iv_mask :: "u32 \<Rightarrow> u32 \<Rightarrow> u16 \<Rightarrow> bytes" where
  "iv_mask src roc seq =
    (let p = (ucast roc :: u64) * 0x10000 + (ucast seq :: u64);
         hi = (ucast (drop_bit 32 p AND 0xffff) :: u16); lo = (ucast (p AND 0xffffffff) :: u32)
     in [0, 0, 0, 0, ucast (drop_bit 24 src), ucast (drop_bit 16 src), ucast (drop_bit 8 src), ucast src,
         ucast (drop_bit 8 hi), ucast hi, ucast (drop_bit 24 lo), ucast (drop_bit 16 lo), ucast (drop_bit 8 lo),
         ucast lo, 0, 0])"

definition iv_base :: "bytes \<Rightarrow> bytes" where
  "iv_base salt = replicate (14 - min (length salt) 14) 0 @ take (min (length salt) 14) salt @ [0, 0]"

lemma list_of_16: "length xs = 16 \<Longrightarrow> \<exists>a b c d e f g h i j k l m n q r. xs = [a,b,c,d,e,f,g,h,i,j,k,l,m,n,q,r]"
  by (auto simp: numeral_eq_Suc length_Suc_conv)

lemma length_iv_base: "length (iv_base salt) = 16"
  by (simp add: iv_base_def)

lemma build_e2e_rtp_iv_mask: "build_e2e_rtp_iv salt src roc seq = map2 (XOR) (iv_base salt) (iv_mask src roc seq)"
proof -
  obtain a b c d e f g h i j k l m n q r where "iv_base salt = [a,b,c,d,e,f,g,h,i,j,k,l,m,n,q,r]"
    using list_of_16 [OF length_iv_base] by metis
  then show ?thesis
    unfolding build_e2e_rtp_iv_def iv_mask_def Let_def iv_base_def [symmetric] xor_at_def by simp
qed

lemma xor_left_inj: "x XOR a = x XOR b \<longleftrightarrow> a = (b :: u8)"
  by (metis xor.assoc xor.left_neutral xor_self_eq)

lemma map2_xor_inj: "length xs = length ys \<Longrightarrow> length xs = length zs \<Longrightarrow>
    map2 (XOR) xs ys = map2 (XOR) xs zs \<longleftrightarrow> ys = (zs :: bytes)"
proof (induction xs arbitrary: ys zs)
  case (Cons x xs)
  then obtain y ys' z zs' where "ys = y # ys'" "zs = z # zs'" by (auto simp: Suc_length_conv)
  with Cons show ?case by (simp add: xor_left_inj)
qed simp

lemma u32_bytes_inj:
  fixes v w :: u32
  assumes "(ucast (drop_bit 24 v) :: u8) = ucast (drop_bit 24 w)" "(ucast (drop_bit 16 v) :: u8) = ucast (drop_bit 16 w)"
    "(ucast (drop_bit 8 v) :: u8) = ucast (drop_bit 8 w)" "(ucast v :: u8) = ucast w"
  shows "v = w"
proof (rule bit_word_eqI)
  fix n assume n: "n < LENGTH(32)"
  have *: "bit v (k + j) = bit w (k + j)" if "(ucast (drop_bit k v) :: u8) = ucast (drop_bit k w)" "j < 8" "k + j < 32" for k j
    using arg_cong [OF that(1), of "\<lambda>x. bit x j"] that(2,3) by (simp add: bit_simps)
  consider "n < 8" | "8 \<le> n" "n < 16" | "16 \<le> n" "n < 24" | "24 \<le> n" by linarith
  then show "bit v n = bit w n"
    using *[of 0 n] *[of 8 "n - 8"] *[of 16 "n - 16"] *[of 24 "n - 24"] assms n by cases simp_all
qed

lemma u16_bytes_inj:
  fixes v w :: u16
  assumes "(ucast (drop_bit 8 v) :: u8) = ucast (drop_bit 8 w)" "(ucast v :: u8) = ucast w"
  shows "v = w"
proof (rule bit_word_eqI)
  fix n assume n: "n < LENGTH(16)"
  have *: "bit v (k + j) = bit w (k + j)" if "(ucast (drop_bit k v) :: u8) = ucast (drop_bit k w)" "j < 8" "k + j < 16" for k j
    using arg_cong [OF that(1), of "\<lambda>x. bit x j"] that(2,3) by (simp add: bit_simps)
  consider "n < 8" | "8 \<le> n" "n < 16" using n by fastforce
  then show "bit v n = bit w n"
    using *[of 0 n] *[of 8 "n - 8"] assms n by cases simp_all
qed

lemma unat_index: "unat ((ucast roc :: u64) * 0x10000 + (ucast seq :: u64)) = unat (roc :: u32) * 65536 + unat (seq :: u16)"
proof -
  have "unat roc * 65536 + unat seq < 2 ^ 64" using unat_u32_less [of roc] unat_u16_less [of seq] by simp
  moreover have "unat (ucast roc :: u64) = unat roc" "unat (ucast seq :: u64) = unat seq"
    by (simp_all add: unsigned_ucast_eq take_bit_nat_eq_self_iff)
      (use unat_u32_less [of roc] unat_u16_less [of seq] in simp)+
  ultimately show ?thesis by (simp add: unat_word_ariths)
qed

lemma index_bits_high: "48 \<le> n \<Longrightarrow> \<not> bit ((ucast roc :: u64) * 0x10000 + (ucast seq :: u64)) n"
  for roc :: u32 and seq :: u16
proof -
  let ?p = "(ucast roc :: u64) * 0x10000 + (ucast seq :: u64)"
  have "unat ?p < 2 ^ 48" using unat_u32_less [of roc] unat_u16_less [of seq] by (simp add: unat_index)
  then have "take_bit 48 ?p = ?p" by (simp add: word_unat_eq_iff unsigned_take_bit_eq take_bit_nat_eq_self_iff)
  then have "bit ?p n = bit (take_bit 48 ?p) n" by simp
  then show "48 \<le> n \<Longrightarrow> \<not> bit ?p n" by (simp add: bit_simps)
qed

lemma quot_rem_inj: "a * 65536 + b = c * 65536 + d \<Longrightarrow> b < 65536 \<Longrightarrow> d < 65536 \<Longrightarrow> a = c \<and> b = d"
  for a b c d :: nat
proof -
  assume e: "a * 65536 + b = c * 65536 + d" and "b < 65536" "d < 65536"
  then have "(a * 65536 + b) div 65536 = a" "(c * 65536 + d) div 65536 = c" by simp_all
  with e show ?thesis by simp
qed

lemma iv_mask_inj: "iv_mask src roc seq = iv_mask src' roc' seq' \<longleftrightarrow> src = src' \<and> roc = roc' \<and> seq = seq'"
proof
  assume eq: "iv_mask src roc seq = iv_mask src' roc' seq'"
  let ?p = "(ucast roc :: u64) * 0x10000 + (ucast seq :: u64)" and ?q = "(ucast roc' :: u64) * 0x10000 + (ucast seq' :: u64)"
  have src: "src = src'" by (rule u32_bytes_inj) (use eq in \<open>simp_all add: iv_mask_def Let_def\<close>)
  have hi: "(ucast (drop_bit 32 ?p AND 0xffff) :: u16) = ucast (drop_bit 32 ?q AND 0xffff)"
    by (rule u16_bytes_inj) (use eq in \<open>simp_all only: iv_mask_def Let_def list.inject\<close>)
  have lo: "(ucast (?p AND 0xffffffff) :: u32) = ucast (?q AND 0xffffffff)"
    by (rule u32_bytes_inj) (use eq in \<open>simp_all only: iv_mask_def Let_def list.inject\<close>)
  have "?p = ?q"
  proof (rule bit_word_eqI)
    fix n assume "n < LENGTH(64)"
    have m: "(0xffffffff :: u64) = mask 32" "(0xffff :: u64) = mask 16" by (simp_all add: mask_numeral)
    have "bit ?p n = bit ?q n" if "n < 32"
      using arg_cong [OF lo [unfolded m], of "\<lambda>x. bit x n"] that by (simp add: bit_simps)
    moreover have "bit ?p (32 + (n - 32)) = bit ?q (32 + (n - 32))" if "32 \<le> n" "n < 48"
      using arg_cong [OF hi [unfolded m], of "\<lambda>x. bit x (n - 32)"] that less_diff_conv2 [of 32 n 16] less_diff_conv2 [of 32 n 64]
      by (simp add: bit_simps)
    moreover have "bit ?p n = bit ?q n" if "48 \<le> n"
      using that index_bits_high [of n roc seq] index_bits_high [of n roc' seq'] by simp
    ultimately show "bit ?p n = bit ?q n" by (cases "n < 32"; cases "n < 48") simp_all
  qed
  then have "unat roc * 65536 + unat seq = unat roc' * 65536 + unat seq'" using unat_index by metis
  then have "unat roc = unat roc'" "unat seq = unat seq'"
    using quot_rem_inj [OF _ unat_u16_less unat_u16_less] by blast+
  with src show "src = src' \<and> roc = roc' \<and> seq = seq'" by (simp add: word_unat_eq_iff)
qed simp

lemma build_e2e_rtp_iv_inj:
  "build_e2e_rtp_iv salt src roc seq = build_e2e_rtp_iv salt src' roc' seq' \<longleftrightarrow> src = src' \<and> roc = roc' \<and> seq = seq'"
proof -
  have l: "length (iv_base salt) = length (iv_mask s r q)" for s r q by (simp add: length_iv_base iv_mask_def Let_def)
  show ?thesis unfolding build_e2e_rtp_iv_mask map2_xor_inj [OF l l] by (rule iv_mask_inj)
qed

section \<open>The sender's counters\<close>

text \<open>The media state after \<open>n\<close> packets on the stream.\<close>

definition sent :: "u32 \<Rightarrow> nat \<Rightarrow> media_state \<Rightarrow> bool" where
  "sent src n m \<longleftrightarrow>
    st_ssrc (rtp m) = src \<and> st_seq (rtp m) = word_of_nat (n + 1) \<and>
    st_timestamp (rtp m) = word_of_nat (n * CODEC_FRAME_SAMPLES) \<and>
    samples_per_packet (rtp m) = word_of_nat CODEC_FRAME_SAMPLES \<and> st_payload_type (rtp m) = RTP_PAYLOAD_TYPE_MLOW \<and>
    rt_initialized (send_roc m) = (n \<noteq> 0) \<and> rt_roc (send_roc m) = word_of_nat (n div 65536) \<and>
    (n \<noteq> 0 \<longrightarrow> last_seq (send_roc m) = word_of_nat n)"

lemma media_start_sent: "sent src 0 (media_start src mlow)"
  by (simp add: sent_def media_start_def new_rtp_stream_def set_payload_type_def set_mlow_profile_def
      RTP_PAYLOAD_TYPE_MLOW_def default_roc_tracker_def)

lemma unat_u16_of_nat: "unat (word_of_nat n :: u16) = n mod 65536"
  by (simp add: unsigned_of_nat take_bit_eq_mod)

lemma unat_u32_of_nat: "unat (word_of_nat n :: u32) = n mod 2 ^ 32"
  by (simp add: unsigned_of_nat take_bit_eq_mod)

lemma advance_sent:
  assumes "rt_initialized t = (n \<noteq> 0)" "rt_roc t = word_of_nat (n div 65536)" "n \<noteq> 0 \<longrightarrow> last_seq t = word_of_nat n"
  shows "advance (word_of_nat (n + 1)) t =
    (word_of_nat ((n + 1) div 65536), \<lparr>rt_roc = word_of_nat ((n + 1) div 65536), last_seq = word_of_nat (n + 1), rt_initialized = True\<rparr>)"
proof (cases "n = 0")
  case True
  then show ?thesis using assms by (cases t) (simp add: advance_def)
next
  case False
  have s: "(n + 1) mod 65536 = (if n mod 65536 = 65535 then 0 else n mod 65536 + 1)" by (simp add: mod_Suc)
  have d: "Suc n div 65536 = (if n mod 65536 = 65535 then n div 65536 + 1 else n div 65536)"
    by (simp add: div_Suc mod_Suc)
  have w: "int (unat (word_of_nat (n + 1) :: u16)) - int (unat (word_of_nat n :: u16)) < - 32768 \<longleftrightarrow> n mod 65536 = 65535"
    unfolding unat_u16_of_nat s using mod_less_divisor [of 65536 n] by simp
  show ?thesis using assms False w by (cases t) (simp add: advance_def Let_def d)
qed

text \<open>Packet \<open>n\<close> of the stream, counted from zero, has index \<open>n + 1\<close>.\<close>

definition packet_of :: "call_crypto \<Rightarrow> srtp_keys \<Rightarrow> u32 \<Rightarrow> nat \<Rightarrow> bytes \<Rightarrow> bytes \<Rightarrow> bool" where
  "packet_of c keys src n payload pkt \<longleftrightarrow>
    (\<exists>hdr. sequence_number hdr = word_of_nat (n + 1) \<and> ssrc hdr = src \<and> payload_type hdr = RTP_PAYLOAD_TYPE_MLOW \<and>
      timestamp hdr = word_of_nat (n * CODEC_FRAME_SAMPLES) \<and>
      pkt = protect_audio_rtp c keys (encode_rtp_header_into hdr []) payload src (word_of_nat (n + 1))
              (word_of_nat ((n + 1) div 65536)))"

lemma media_send_sent:
  assumes "sent src n m" "media_send c keys src payload m = (pkt, m')"
  shows "sent src (n + 1) m' \<and> packet_of c keys src n payload pkt \<and> recv_roc m' = recv_roc m \<and>
    rtp_tx m' = rtp_tx m + 1"
proof -
  obtain hdr stream where np: "next_packet payload False (rtp m) = (hdr, stream)" by force
  have h: "sequence_number hdr = word_of_nat (n + 1)" "ssrc hdr = src" "payload_type hdr = RTP_PAYLOAD_TYPE_MLOW"
    "timestamp hdr = word_of_nat (n * CODEC_FRAME_SAMPLES)"
    and s: "st_ssrc stream = src" "st_seq stream = word_of_nat (n + 2)"
    "st_timestamp stream = word_of_nat ((n + 1) * CODEC_FRAME_SAMPLES)"
    "samples_per_packet stream = word_of_nat CODEC_FRAME_SAMPLES" "st_payload_type stream = RTP_PAYLOAD_TYPE_MLOW"
    using np assms(1) by (auto simp: next_packet_def sent_def Let_def CODEC_FRAME_SAMPLES_def add.commute split: if_splits)
  have a: "advance (word_of_nat (n + 1)) (send_roc m) = (word_of_nat ((n + 1) div 65536),
      \<lparr>rt_roc = word_of_nat ((n + 1) div 65536), last_seq = word_of_nat (n + 1), rt_initialized = True\<rparr>)"
    by (rule advance_sent) (use assms(1) in \<open>simp_all add: sent_def\<close>)
  have "pkt = protect_audio_rtp c keys (encode_rtp_header_into hdr []) payload src (word_of_nat (n + 1))
              (word_of_nat ((n + 1) div 65536))"
    and "m' = m\<lparr>rtp := stream, send_roc := \<lparr>rt_roc = word_of_nat ((n + 1) div 65536), last_seq = word_of_nat (n + 1),
      rt_initialized = True\<rparr>, rtp_tx := rtp_tx m + 1\<rparr>"
    using assms(2) unfolding media_send_def np prod.case Let_def h(1) a by simp_all
  then show ?thesis using h s unfolding sent_def packet_of_def by (auto simp: algebra_simps)
qed

fun media_send_all :: "call_crypto \<Rightarrow> srtp_keys \<Rightarrow> u32 \<Rightarrow> bytes list \<Rightarrow> media_state \<Rightarrow> bytes list \<times> media_state" where
  "media_send_all c keys src [] m = ([], m)"
| "media_send_all c keys src (p # ps) m =
    (let (pkt, m) = media_send c keys src p m; (pkts, m) = media_send_all c keys src ps m in (pkt # pkts, m))"

lemma media_send_all_packets:
  "sent src n m \<Longrightarrow> media_send_all c keys src ps m = (pkts, m') \<Longrightarrow>
    length pkts = length ps \<and> sent src (n + length ps) m' \<and>
    (\<forall>i < length ps. packet_of c keys src (n + i) (ps ! i) (pkts ! i))"
proof (induction ps arbitrary: n m pkts m')
  case (Cons p ps)
  obtain pkt m1 where 1: "media_send c keys src p m = (pkt, m1)" by force
  obtain qs m2 where 2: "media_send_all c keys src ps m1 = (qs, m2)" by force
  have s: "sent src (n + 1) m1" "packet_of c keys src n p pkt" using media_send_sent [OF Cons.prems(1) 1] by blast+
  from Cons.IH [OF s(1) 2] have i: "length qs = length ps" "sent src (n + 1 + length ps) m2"
    "\<forall>i < length ps. packet_of c keys src (n + 1 + i) (ps ! i) (qs ! i)" by blast+
  have "pkts = pkt # qs" "m' = m2" using Cons.prems(2) 1 2 by simp_all
  then show ?case using i s(2) by (auto simp: nth_Cons split: nat.splits)
qed simp

section \<open>The receiver's counter\<close>

definition highest :: "nat option \<Rightarrow> recv_roc_tracker \<Rightarrow> bool" where
  "highest h t = (case h of None \<Rightarrow> t = default_recv_roc
    | Some h \<Rightarrow> t = \<lparr>rr_roc = word_of_nat (h div 65536), s_l = word_of_nat h, rr_initialized = True\<rparr>)"

definition in_reach :: "nat option \<Rightarrow> nat \<Rightarrow> bool" where
  "in_reach h i = (case h of None \<Rightarrow> i < 65536 | Some h \<Rightarrow> h < i + 32768 \<and> i < h + 32768)"

definition raise :: "nat option \<Rightarrow> nat \<Rightarrow> nat" where
  "raise h i = (case h of None \<Rightarrow> i | Some h \<Rightarrow> max h i)"

lemma word_succ_neq: "w + 1 \<noteq> (w :: u32)" "w - 1 \<noteq> w" "w - 1 \<noteq> w + 1"
proof -
  show "w - 1 \<noteq> w + 1"
  proof
    assume "w - 1 = w + 1"
    then have "(2 :: u32) = 0" by (simp add: diff_eq_eq)
    then show False by simp
  qed
qed simp_all

lemma recv_step:
  assumes t: "highest h t" and r: "in_reach h i"
  shows "estimate_roc (word_of_nat i) t = word_of_nat (i div 65536)"
    "highest (Some (raise h i)) (commit_roc (word_of_nat (i div 65536)) (word_of_nat i) t)"
proof -
  have "estimate_roc (word_of_nat i) t = word_of_nat (i div 65536) \<and>
    highest (Some (raise h i)) (commit_roc (word_of_nat (i div 65536)) (word_of_nat i) t)"
  proof (cases h)
    case None
    then show ?thesis using t r
      by (simp add: highest_def in_reach_def raise_def default_recv_roc_def estimate_roc_def commit_roc_def)
  next
    case (Some g)
    then have t': "t = \<lparr>rr_roc = word_of_nat (g div 65536), s_l = word_of_nat g, rr_initialized = True\<rparr>"
      and r': "g < i + 32768" "i < g + 32768" using t r by (simp_all add: highest_def in_reach_def)
    have lt: "(word_of_nat g :: u16) < 0x8000 \<longleftrightarrow> g mod 65536 < 32768"
      "(word_of_nat g :: u16) < word_of_nat i \<longleftrightarrow> g mod 65536 < i mod 65536"
      by (simp_all add: word_less_nat_alt unat_u16_of_nat)
    obtain a b where g: "g = 65536 * a + b" "b < 65536" "g div 65536 = a" "g mod 65536 = b"
      using mult_div_mod_eq [of 65536 g] mod_less_divisor [of 65536 g] by (metis zero_less_numeral)
    obtain c d where i: "i = 65536 * c + d" "d < 65536" "i div 65536 = c" "i mod 65536 = d"
      using mult_div_mod_eq [of 65536 i] mod_less_divisor [of 65536 i] by (metis zero_less_numeral)
    have "a \<le> c + 1" "c \<le> a + 1" using r' g(1,2) i(1,2) by linarith+
    then consider (same) "c = a" | (up) "c = a + 1" | (down) "a = c + 1" by linarith
    then show ?thesis
    proof cases
      case same
      have k: "\<not> 32768 < int d - int b" "\<not> 32768 < int b - int d"
        using same r' g(1) i(1) by linarith+
      have "max g i = (if b < d then i else g)" using same g(1) i(1) by simp
      then show ?thesis using k same lt
        by (auto simp: t' Some highest_def raise_def estimate_roc_def commit_roc_def unat_u16_of_nat g(3,4) i(3,4))
    next
      case up
      have k: "\<not> b < 32768" "32768 < int b - int d" using up r' g(1,2) i(1,2) by linarith+
      have "max g i = i" using up g(1,2) i(1,2) by simp
      then show ?thesis using k up lt word_succ_neq
        by (simp add: t' Some highest_def raise_def estimate_roc_def commit_roc_def unat_u16_of_nat add.commute g(3,4) i(3,4))
    next
      case down
      have k: "b < 32768" "32768 < int d - int b" using down r' g(1,2) i(1,2) by linarith+
      have "max g i = g" using down g(1,2) i(1,2) by simp
      then show ?thesis using k down lt word_succ_neq
        by (simp add: t' Some highest_def raise_def estimate_roc_def commit_roc_def unat_u16_of_nat add.commute g(3,4) i(3,4))
    qed
  qed
  then show "estimate_roc (word_of_nat i) t = word_of_nat (i div 65536)"
    "highest (Some (raise h i)) (commit_roc (word_of_nat (i div 65536)) (word_of_nat i) t)" by blast+
qed

section \<open>Receiving a packet of the sender\<close>

lemma protect_audio_rtp_eq:
  "protect_audio_rtp c keys hb payload src seq roc =
    (hb @ crypt_payload c keys src seq roc payload) @
    compute_warp_mi_tag c (auth_key keys) (hb @ crypt_payload c keys src seq roc payload) roc 4"
  by (simp add: protect_audio_rtp_def append_warp_mi_tag_def Let_def WARP_MI_TAG_LEN_def)

lemma unprotect_protected:
  assumes c: "call_crypto_lengths c" and hdr: "payload_type hdr < 128"
    and roc: "estimate_roc (sequence_number hdr) t = roc"
  shows "unprotect_audio_rtp c keys
      (protect_audio_rtp c keys (encode_rtp_header_into hdr []) payload (ssrc hdr) (sequence_number hdr) roc) t =
    (Some (hdr\<lparr>extension_word := None\<rparr>, payload), commit_roc roc (sequence_number hdr) t)"
proof -
  let ?hb = "encode_rtp_header_into hdr []" and ?ct = "crypt_payload c keys (ssrc hdr) (sequence_number hdr) roc payload"
  let ?body = "?hb @ ?ct"
  let ?tag = "compute_warp_mi_tag c (auth_key keys) ?body roc 4"
  have tag: "length ?tag = 4" using c by (rule length_warp_tag) simp
  have len: "length ?hb = byte_size hdr"
    using parse_encode_rtp_header(1) [OF hdr, of "[]"] length_encode_rtp_header by simp
  have "unprotect_audio_rtp c keys (?body @ ?tag) t =
      (Some (hdr\<lparr>extension_word := None\<rparr>, crypt_payload c keys (ssrc hdr) (sequence_number hdr) roc ?ct),
       commit_roc roc (sequence_number hdr) t)"
    using parse_encode_rtp_header [OF hdr, of ?ct] tag len roc
    by (simp add: unprotect_audio_rtp_def WARP_MI_TAG_LEN_def verify_warp_mi_tag_def Let_def)
  then show ?thesis by (simp add: protect_audio_rtp_eq crypt_payload_twice [OF c])
qed

lemma classify_protected:
  assumes "payload_type hdr = RTP_PAYLOAD_TYPE_MLOW"
  shows "classify_relay_packet (protect_audio_rtp c keys (encode_rtp_header_into hdr []) payload src seq roc) = Rtp"
proof -
  let ?b1 = "push_bit 7 (of_bool (marker hdr)) OR (payload_type hdr AND 0x7f) :: u8"
  obtain tl where "encode_rtp_header_into hdr [] = 0x90 # ?b1 # tl"
    by (cases "extension_word hdr") (auto simp: encode_rtp_header_into_def Let_def RTP_VERSION_def byte_size_def
      WHATSAPP_RTP_HEADER_DTX_SIZE_def WHATSAPP_RTP_HEADER_SIZE_def)
  moreover have "?b1 = 0x78 \<or> ?b1 = 0xf8"
    using assms by (cases "marker hdr") (simp_all add: RTP_PAYLOAD_TYPE_MLOW_def)
  ultimately show ?thesis
    by (auto simp: protect_audio_rtp_eq classify_relay_packet_def)
qed

lemma media_recv_packet:
  assumes c: "call_crypto_lengths c" and p: "packet_of c keys src n payload pkt"
    and h: "highest h (recv_roc m)" "in_reach h (n + 1)"
  obtains m' where "media_recv c keys pkt m = (Some payload, m')" "highest (Some (raise h (n + 1))) (recv_roc m')"
proof -
  obtain hdr where hdr: "sequence_number hdr = word_of_nat (n + 1)" "ssrc hdr = src" "payload_type hdr = RTP_PAYLOAD_TYPE_MLOW"
    and pkt: "pkt = protect_audio_rtp c keys (encode_rtp_header_into hdr []) payload (ssrc hdr) (sequence_number hdr)
              (word_of_nat ((n + 1) div 65536))"
    using p unfolding packet_of_def by metis
  have pt: "payload_type hdr < 128" by (simp add: hdr(3) RTP_PAYLOAD_TYPE_MLOW_def)
  note r = recv_step [OF h]
  have u: "unprotect_audio_rtp c keys pkt (recv_roc m) = (Some (hdr\<lparr>extension_word := None\<rparr>, payload),
      commit_roc (word_of_nat ((n + 1) div 65536)) (word_of_nat (n + 1)) (recv_roc m))"
    using unprotect_protected [OF c pt, of "recv_roc m"] r(1) pkt hdr(1) by metis
  have "classify_relay_packet pkt = Rtp" unfolding pkt by (rule classify_protected [OF hdr(3)])
  then show ?thesis using r(2) that
    by (auto simp: media_recv_def u Let_def split: list.splits)
qed

text \<open>A packet whose tag does not belong to it, whatever the rollover counter.\<close>

definition forged :: "call_crypto \<Rightarrow> srtp_keys \<Rightarrow> bytes \<Rightarrow> bool" where
  "forged c keys g \<longleftrightarrow> length g < WARP_MI_TAG_LEN \<or>
    (\<forall>roc. compute_warp_mi_tag c (auth_key keys) (take (length g - WARP_MI_TAG_LEN) g) roc WARP_MI_TAG_LEN \<noteq>
       drop (length g - WARP_MI_TAG_LEN) g)"

lemma unprotect_forged: "forged c keys g \<Longrightarrow> unprotect_audio_rtp c keys g t = (None, t)"
  by (auto simp: unprotect_audio_rtp_def forged_def verify_warp_mi_tag_def Let_def split: option.splits)

lemma media_recv_forged:
  assumes "forged c keys g"
  obtains m' where "media_recv c keys g m = (None, m')" "recv_roc m' = recv_roc m"
  using that by (cases "classify_relay_packet g = Rtp") (auto simp: media_recv_def unprotect_forged [OF assms] Let_def)

fun media_recv_all :: "call_crypto \<Rightarrow> srtp_keys \<Rightarrow> bytes list \<Rightarrow> media_state \<Rightarrow> bytes option list \<times> media_state" where
  "media_recv_all c keys [] m = ([], m)"
| "media_recv_all c keys (p # ps) m =
    (let (r, m) = media_recv c keys p m; (rs, m) = media_recv_all c keys ps m in (r # rs, m))"

datatype arrival = Packet nat | Forged bytes

fun arrived :: "bytes list \<Rightarrow> arrival \<Rightarrow> bytes" where
  "arrived pkts (Packet i) = pkts ! i"
| "arrived pkts (Forged g) = g"

fun heard :: "bytes list \<Rightarrow> arrival \<Rightarrow> bytes option" where
  "heard payloads (Packet i) = Some (payloads ! i)"
| "heard payloads (Forged g) = None"

fun arrival_ok :: "call_crypto \<Rightarrow> srtp_keys \<Rightarrow> nat \<Rightarrow> arrival \<Rightarrow> bool" where
  "arrival_ok c keys n (Packet i) = (i < n)"
| "arrival_ok c keys n (Forged g) = forged c keys g"

text \<open>No packet is more than half a rollover from the newest one before it.\<close>

fun timely :: "nat option \<Rightarrow> arrival list \<Rightarrow> bool" where
  "timely h [] = True"
| "timely h (Packet i # as) = (in_reach h (i + 1) \<and> timely (Some (raise h (i + 1))) as)"
| "timely h (Forged g # as) = timely h as"

lemma media_recv_all_heard:
  assumes c: "call_crypto_lengths c" and pk: "\<forall>i < length payloads. packet_of c keys src i (payloads ! i) (pkts ! i)"
  shows "highest h (recv_roc m) \<Longrightarrow> timely h as \<Longrightarrow> list_all (arrival_ok c keys (length payloads)) as \<Longrightarrow>
    fst (media_recv_all c keys (map (arrived pkts) as) m) = map (heard payloads) as"
proof (induction as arbitrary: h m)
  case (Cons a as)
  show ?case
  proof (cases a)
    case (Packet i)
    then have i: "packet_of c keys src i (payloads ! i) (pkts ! i)" "in_reach h (i + 1)" "timely (Some (raise h (i + 1))) as"
      using Cons.prems pk by simp_all
    obtain m' where m': "media_recv c keys (pkts ! i) m = (Some (payloads ! i), m')"
      "highest (Some (raise h (i + 1))) (recv_roc m')"
      using media_recv_packet [OF c i(1) Cons.prems(1) i(2)] by blast
    have "fst (media_recv_all c keys (map (arrived pkts) as) m') = map (heard payloads) as"
      by (rule Cons.IH [OF m'(2) i(3)]) (use Cons.prems in simp)
    then show ?thesis by (simp add: Packet m'(1) case_prod_beta Let_def)
  next
    case (Forged g)
    then have g: "forged c keys g" using Cons.prems by simp
    obtain m' where m': "media_recv c keys g m = (None, m')" "recv_roc m' = recv_roc m"
      using media_recv_forged [OF g] by blast
    have "fst (media_recv_all c keys (map (arrived pkts) as) m') = map (heard payloads) as"
      by (rule Cons.IH [of h]) (use Cons.prems m'(2) Forged in simp_all)
    then show ?thesis by (simp add: Forged m'(1) case_prod_beta Let_def)
  qed
qed simp

lemma media_start_highest: "highest None (recv_roc (media_start src mlow))"
  by (simp add: highest_def media_start_def)

text \<open>C25: the audio of a call survives an unreliable transport. Whatever one side sends, the other side,
  holding the same keys, hears exactly the payloads of the packets that arrive, in the order of their
  arrival: lost, repeated and reordered packets and any packets of someone without the key do no harm,
  as long as no packet is half a rollover (32,768 packets) away from the newest one before it, and the
  first is one of the first 65,535. No bound is put on the length of the call.\<close>

theorem media_survives_transport:
  assumes "call_crypto_lengths c" "media_send_all c keys src payloads (media_start src mlow) = (pkts, m)"
    and "list_all (arrival_ok c keys (length payloads)) as" "timely None as"
  shows "fst (media_recv_all c keys (map (arrived pkts) as) (media_start src' mlow')) = map (heard payloads) as"
proof -
  have "\<forall>i < length payloads. packet_of c keys src i (payloads ! i) (pkts ! i)"
    using media_send_all_packets [OF media_start_sent assms(2)] by simp
  from media_recv_all_heard [OF assms(1) this media_start_highest assms(4,3)] show ?thesis .
qed

text \<open>No two packets of a stream are encrypted under the same counter block, for as long as the packet
  index has not run through its 48 bits.\<close>

theorem keystream_never_reused:
  assumes "media_send_all c keys src payloads (media_start src mlow) = (pkts, m)" "length payloads < 2 ^ 48"
  shows "\<exists>ivs. length ivs = length payloads \<and> distinct ivs \<and>
    (\<forall>i < length payloads. \<exists>h roc.
      let body = encode_rtp_header_into h [] @ apply_keystream c (cipher_key keys) (ivs ! i) (payloads ! i)
      in pkts ! i = body @ compute_warp_mi_tag c (auth_key keys) body roc WARP_MI_TAG_LEN)"
proof -
  let ?iv = "\<lambda>i. build_e2e_rtp_iv (srtp_salt keys) src (word_of_nat ((i + 1) div 65536)) (word_of_nat (i + 1))"
  let ?n = "length payloads"
  have inj: "i = j" if ij: "i < ?n" "j < ?n" "?iv i = ?iv j" for i j
  proof -
    have b: "(i + 1) div 65536 < 2 ^ 32" "(j + 1) div 65536 < 2 ^ 32"
      using ij(1,2) assms(2) by (simp_all add: less_mult_imp_div_less)
    have e: "(word_of_nat ((i + 1) div 65536) :: u32) = word_of_nat ((j + 1) div 65536)"
      "(word_of_nat (i + 1) :: u16) = word_of_nat (j + 1)"
      using ij(3) by (simp_all only: build_e2e_rtp_iv_inj)
    have "(i + 1) div 65536 mod 2 ^ 32 = (j + 1) div 65536 mod 2 ^ 32"
      using arg_cong [OF e(1), of unat] by (simp only: unat_u32_of_nat)
    then have "(i + 1) div 65536 = (j + 1) div 65536" by (simp only: mod_less [OF b(1)] mod_less [OF b(2)])
    moreover have "(i + 1) mod 65536 = (j + 1) mod 65536" using arg_cong [OF e(2), of unat] by (simp only: unat_u16_of_nat)
    ultimately have "i + 1 = j + 1" by (metis div_mult_mod_eq)
    then show ?thesis by simp
  qed
  have p: "\<forall>i < ?n. packet_of c keys src i (payloads ! i) (pkts ! i)"
    using media_send_all_packets [OF media_start_sent assms(1)] by simp
  show ?thesis
  proof (intro exI [of _ "map ?iv [0..<?n]"] conjI allI impI)
    show "distinct (map ?iv [0..<?n])" using inj by (auto simp: distinct_map inj_on_def)
    fix i assume i: "i < ?n"
    then obtain h where "pkts ! i = protect_audio_rtp c keys (encode_rtp_header_into h []) (payloads ! i) src
        (word_of_nat (i + 1)) (word_of_nat ((i + 1) div 65536))"
      using p unfolding packet_of_def by blast
    then show "\<exists>h roc.
        let body = encode_rtp_header_into h [] @ apply_keystream c (cipher_key keys) (map ?iv [0..<?n] ! i) (payloads ! i)
        in pkts ! i = body @ compute_warp_mi_tag c (auth_key keys) body roc WARP_MI_TAG_LEN"
      using i by (intro exI [of _ h] exI [of _ "word_of_nat ((i + 1) div 65536)"])
        (simp add: protect_audio_rtp_eq crypt_payload_def WARP_MI_TAG_LEN_def Let_def)
  qed simp
qed

definition demo_call_crypto :: call_crypto where
  "demo_call_crypto = \<lparr>hkdf_expand = (\<lambda>s k i n. take n (k @ i @ replicate n 0)),
     keystream = (\<lambda>k iv n. take n (iv @ replicate n 85)), hmac_sha1 = (\<lambda>k m. take 20 (rev m @ k @ replicate 20 0))\<rparr>"

definition demo_srtp_keys :: srtp_keys where
  "demo_srtp_keys = \<lparr>cipher_key = replicate 16 1, srtp_salt = replicate 14 2, auth_key = replicate 20 3\<rparr>"

lemma demo_call_crypto_lengths: "call_crypto_lengths demo_call_crypto"
  by (auto simp: call_crypto_lengths_def demo_call_crypto_def min_def)

theorem media_survives_transport_witness:
  "fst (media_recv_all demo_call_crypto demo_srtp_keys
      (map (arrived (fst (media_send_all demo_call_crypto demo_srtp_keys 7 [[10], [20], [30]] (media_start 7 False))))
        [Packet 1, Forged [1, 2], Packet 0, Packet 2, Packet 0]) (media_start 9 True)) =
   [Some [20], None, Some [10], Some [30], Some [10]]"
proof -
  let ?ps = "[[10], [20], [30]] :: bytes list" and ?as = "[Packet 1, Forged [1, 2], Packet 0, Packet 2, Packet 0]"
  let ?s = "media_send_all demo_call_crypto demo_srtp_keys 7 ?ps (media_start 7 False)"
  have "?s = (fst ?s, snd ?s)" by simp
  moreover have "list_all (arrival_ok demo_call_crypto demo_srtp_keys (length ?ps)) ?as"
    by (simp add: forged_def WARP_MI_TAG_LEN_def)
  moreover have "timely None ?as" by (simp add: in_reach_def raise_def)
  ultimately show ?thesis
    using media_survives_transport [OF demo_call_crypto_lengths, of demo_srtp_keys 7 ?ps False "fst ?s" "snd ?s" ?as 9 True]
    by simp
qed

theorem keystream_never_reused_witness:
  "\<exists>ivs. length ivs = 2 \<and> distinct ivs \<and> (\<exists>h roc.
      let body = encode_rtp_header_into h [] @ apply_keystream demo_call_crypto (cipher_key demo_srtp_keys) (ivs ! 1) [20]
      in fst (media_send_all demo_call_crypto demo_srtp_keys 7 [[10], [20]] (media_start 7 False)) ! 1 =
         body @ compute_warp_mi_tag demo_call_crypto (auth_key demo_srtp_keys) body roc WARP_MI_TAG_LEN)"
proof -
  let ?s = "media_send_all demo_call_crypto demo_srtp_keys 7 [[10], [20]] (media_start 7 False)"
  have l: "length [[10], [20 :: u8]] = 2" by simp
  have e: "?s = (fst ?s, snd ?s)" and lt: "length [[10], [20 :: u8]] < 2 ^ 48" by simp_all
  from keystream_never_reused [OF e lt] obtain ivs where "length ivs = 2" "distinct ivs"
    and p: "\<forall>i < 2. \<exists>h roc.
      let body = encode_rtp_header_into h [] @ apply_keystream demo_call_crypto (cipher_key demo_srtp_keys) (ivs ! i) ([[10], [20]] ! i)
      in fst ?s ! i = body @ compute_warp_mi_tag demo_call_crypto (auth_key demo_srtp_keys) body roc WARP_MI_TAG_LEN"
    unfolding l by (elim exE conjE)
  moreover have "[[10], [20 :: u8]] ! 1 = [20]" by simp
  ultimately show ?thesis using p [rule_format, of 1] by (intro exI [of _ ivs] conjI) (simp_all only: one_less_numeral_iff semiring_norm)
qed

section \<open>The participant id\<close>

lemma takeWhile_neq: "c \<notin> set s \<Longrightarrow> takeWhile (\<lambda>x. x \<noteq> c) s = s \<and> takeWhile (\<lambda>x. x \<noteq> c) (s @ c # t) = s"
  by (induction s) auto

definition lid_part :: "string \<Rightarrow> bool" where
  "lid_part s \<longleftrightarrow> s \<noteq> [] \<and> list_all is_ascii_digit s"

definition opt_part :: "char \<Rightarrow> string option \<Rightarrow> string" where
  "opt_part c s = (case s of None \<Rightarrow> [] | Some s \<Rightarrow> c # s)"

lemma digit_plain: "is_ascii_digit c \<Longrightarrow> plain_char c \<and> c \<notin> {CHR ''/'', CHR ''@'', CHR '':'', CHR ''.''}"
  by (auto simp: is_ascii_digit_def plain_char_def word_less_nat_alt unat_byte_of)

lemma lid_part_plain: "lid_part s \<Longrightarrow> list_all plain_char s \<and> set s \<inter> {CHR ''/'', CHR ''@'', CHR '':'', CHR ''.''} = {}"
  using digit_plain by (auto simp: lid_part_def list_all_iff)

lemma plain_punct: "plain_char CHR ''@''" "plain_char CHR '':''" "plain_char CHR ''.''" "plain_char CHR ''l''"
  "plain_char CHR ''i''" "plain_char CHR ''d''"
  by (simp_all add: plain_char_def byte_of_def)

lemma format_participant_id_lid:
  assumes n: "lid_part number" and a: "pred_option lid_part agent" and d: "pred_option lid_part device"
  shows "format_participant_id (number @ opt_part CHR ''.'' agent @ opt_part CHR '':'' device @ ''@lid'' @ opt_part CHR ''/'' resource) =
      number @ '':'' @ or_default ''0'' device @ ''@lid''"
proof -
  let ?na = "number @ opt_part CHR ''.'' agent"
  let ?u = "?na @ opt_part CHR '':'' device"
  note np = lid_part_plain [OF n]
  have ap: "list_all plain_char (opt_part CHR ''.'' agent) \<and> set (opt_part CHR ''.'' agent) \<inter> {CHR ''/'', CHR ''@'', CHR '':''} = {}"
    using a lid_part_plain plain_punct by (auto simp: opt_part_def split: option.splits)
  have dp: "list_all plain_char (opt_part CHR '':'' device) \<and> set (opt_part CHR '':'' device) \<inter> {CHR ''/'', CHR ''@''} = {}"
    using d lid_part_plain plain_punct by (auto simp: opt_part_def split: option.splits)
  have 1: "takeWhile (\<lambda>c. c \<noteq> CHR ''/'') ((?u @ ''@lid'') @ opt_part CHR ''/'' resource) = ?u @ ''@lid''"
  proof -
    have "CHR ''/'' \<notin> set (?u @ ''@lid'')" using np ap dp by auto
    from takeWhile_neq [OF this] show ?thesis
      by (cases resource) (simp_all only: opt_part_def option.case append_Nil2)
  qed
  have 2: "trim (?u @ ''@lid'') = ?u @ ''@lid''"
    using np ap dp plain_punct by (intro trim_plain) simp
  have 3: "rsplit_once CHR ''@'' (?u @ ''@lid'') = Some (?u, ''lid'')"
    by (simp add: rsplit_once_Some)
  have 4: "?u \<noteq> []" using n by (auto simp: lid_part_def)
  have 5: "takeWhile (\<lambda>c. c \<noteq> CHR ''.'') ?na = number"
    using np by (cases agent) (auto simp: opt_part_def takeWhile_neq)
  have 6: "split_once CHR '':'' ?u = (case device of None \<Rightarrow> None | Some x \<Rightarrow> Some (?na, x))"
    using np ap by (cases device) (auto simp: opt_part_def split_once_Some)
  have "format_participant_id ((?u @ ''@lid'') @ opt_part CHR ''/'' resource) =
      number @ '':'' @ or_default ''0'' device @ ''@lid''"
    unfolding format_participant_id_def Let_def 1 2 3 option.case prod.case if_not_P [OF 4] 6
    using 5 by (cases device) (simp_all add: or_default_def opt_part_def)
  then show ?thesis by (simp only: append_assoc)
qed

text \<open>However the signaling writes a device of a LID contact (with an agent, a device number, a
  resource, or without any of them), its participant id is the number and the device, zero when none
  is named; so the keys that one side derives for sending are those the other derives for receiving.\<close>

theorem participant_keys_agree:
  assumes "lid_part number" "pred_option lid_part agent" "pred_option lid_part device"
  shows "format_participant_id (number @ opt_part CHR ''.'' agent @ opt_part CHR '':'' device @ ''@lid'' @ opt_part CHR ''/'' resource) =
      number @ '':'' @ or_default ''0'' device @ ''@lid'' \<and>
    derive_e2e_keys c call_key (format_participant_id
      (number @ opt_part CHR ''.'' agent @ opt_part CHR '':'' device @ ''@lid'' @ opt_part CHR ''/'' resource)) =
    derive_e2e_keys c call_key (format_participant_id (number @ '':'' @ or_default ''0'' device @ ''@lid''))"
proof -
  have z: "lid_part (or_default ''0'' device)"
    using assms(3) by (cases device) (auto simp: or_default_def lid_part_def is_ascii_digit_def)
  have "format_participant_id (number @ '':'' @ or_default ''0'' device @ ''@lid'') = number @ '':'' @ or_default ''0'' device @ ''@lid''"
    using format_participant_id_lid [OF assms(1), of None "Some (or_default ''0'' device)" None] z
    by (simp add: opt_part_def or_default_def)
  then show ?thesis unfolding format_participant_id_lid [OF assms] by (simp only: simp_thms)
qed

theorem participant_keys_agree_witness:
  "format_participant_id ''123.1:7@lid'' = ''123:7@lid''"
  using participant_keys_agree [of "''123''" "Some ''1''" "Some ''7''" None demo_call_crypto "[]"]
  by (simp add: lid_part_def is_ascii_digit_def opt_part_def or_default_def)

end
