(* ===== verification/Call_Stun.thy ===== *)
theory Call_Stun
  imports Call_Media
begin

text \<open>
  The STUN layer of a call, \<open>src/src/call.rs\<close>: the requests that open and keep the relay
  allocation, and the reading of the relay's answers. HMAC-SHA1 and HKDF are those of
  \<^theory_text>\<open>Call_Media\<close>; random transaction ids are arguments.
\<close>

section \<open>Encoding\<close>

definition STUN_MAGIC :: u32 where "STUN_MAGIC = 0x2112a442"
definition STUN_FINGERPRINT_XOR :: u32 where "STUN_FINGERPRINT_XOR = 0x5354554e"
definition STUN_XOR_PORT :: u16 where "STUN_XOR_PORT = 0x2112"
definition STUN_XOR_ADDR :: bytes where "STUN_XOR_ADDR = [0x21, 0x12, 0xa4, 0x42]"
definition ATTR_MESSAGE_INTEGRITY :: u16 where "ATTR_MESSAGE_INTEGRITY = 0x0008"
definition ATTR_FINGERPRINT :: u16 where "ATTR_FINGERPRINT = 0x8028"
definition ATTR_ERROR_CODE :: u16 where "ATTR_ERROR_CODE = 0x0009"
definition ATTR_RELAY_TOKEN :: u16 where "ATTR_RELAY_TOKEN = 0x4000"
definition STUN_ATTR_STREAM_DESCRIPTORS :: u16 where "STUN_ATTR_STREAM_DESCRIPTORS = 0x4024"
definition STUN_ATTR_WASM_RELAY_ENDPOINT :: u16 where "STUN_ATTR_WASM_RELAY_ENDPOINT = 0x0016"
definition MSG_ALLOCATE_REQUEST :: u16 where "MSG_ALLOCATE_REQUEST = 0x0003"
definition MSG_BINDING_SUCCESS :: u16 where "MSG_BINDING_SUCCESS = 0x0101"
definition MSG_ALLOCATE_SUCCESS :: u16 where "MSG_ALLOCATE_SUCCESS = 0x0103"
definition MSG_ALLOCATE_ERROR :: u16 where "MSG_ALLOCATE_ERROR = 0x0113"
definition MSG_WHATSAPP_PING :: u16 where "MSG_WHATSAPP_PING = 0x0801"
definition MSG_WHATSAPP_PONG :: u16 where "MSG_WHATSAPP_PONG = 0x0802"

definition pad4 :: "nat \<Rightarrow> nat" where
  "pad4 n = (4 - n mod 4) mod 4"

definition stun_attr :: "u16 \<Rightarrow> bytes \<Rightarrow> bytes" where
  "stun_attr attr_type val =
    be_bytes 2 (unat attr_type) @ be_bytes 2 (length val) @ val @ replicate (pad4 (length val)) 0"

definition crc_bit :: "u32 \<Rightarrow> u32" where
  "crc_bit crc = drop_bit 1 crc XOR (0xedb88320 AND (0 - (crc AND 1)))"

definition crc32 :: "bytes \<Rightarrow> u32" where
  "crc32 buf = NOT (fold (\<lambda>b crc. (crc_bit ^^ 8) (crc XOR ucast b)) buf 0xffffffff)"

definition stun_pseudo_header :: "u16 \<Rightarrow> u16 \<Rightarrow> bytes \<Rightarrow> bytes" where
  "stun_pseudo_header msg_type msg_len tx =
    be_bytes 2 (unat msg_type) @ be_bytes 2 (unat msg_len) @ be_bytes 4 (unat STUN_MAGIC) @ tx"

definition encode_stun_request ::
  "call_crypto \<Rightarrow> u16 \<Rightarrow> bytes \<Rightarrow> bytes \<Rightarrow> bytes option \<Rightarrow> bool \<Rightarrow> bytes" where
  "encode_stun_request c msg_type tx attrs integrity_key include_fingerprint =
    (let body = attrs;
         body = (case integrity_key of None \<Rightarrow> body
                 | Some key \<Rightarrow>
                     (let header = stun_pseudo_header msg_type (word_of_nat (length body + 24)) tx;
                          mi = hmac_sha1 c key (header @ body)
                      in body @ stun_attr ATTR_MESSAGE_INTEGRITY mi));
         body = (if include_fingerprint then
                   (let header = stun_pseudo_header msg_type (word_of_nat (length body + 8)) tx;
                        fp = crc32 (header @ body) XOR STUN_FINGERPRINT_XOR
                    in body @ stun_attr ATTR_FINGERPRINT (be_bytes 4 (unat fp)))
                 else body)
     in be_bytes 2 (unat msg_type) @ be_bytes 2 (length body) @ be_bytes 4 (unat STUN_MAGIC) @ tx @ body)"

text \<open>\<open>ipv4.split('.')\<close> with the parts that are octets.\<close>

fun split_on :: "char \<Rightarrow> string \<Rightarrow> string list" where
  "split_on c [] = [[]]"
| "split_on c (x # xs) =
    (if x = c then [] # split_on c xs
     else case split_on c xs of p # ps \<Rightarrow> (x # p) # ps | [] \<Rightarrow> [[x]])"

definition encode_xor_relay_endpoint :: "string \<Rightarrow> u16 \<Rightarrow> bytes option" where
  "encode_xor_relay_endpoint ipv4 port =
    (let octets = map (word_of_nat :: nat \<Rightarrow> u8) (List.map_filter (parse_uint 255) (split_on CHR ''.'' ipv4)) in
     if length octets \<noteq> 4 then None
     else Some (be_bytes 2 (unat (port XOR STUN_XOR_PORT)) @ map2 (XOR) octets STUN_XOR_ADDR))"

definition create_wasm_relay_endpoint_attr :: "bytes \<Rightarrow> bytes" where
  "create_wasm_relay_endpoint_attr endpoint_xor = be_bytes 2 1 @ endpoint_xor"

function pb_varint :: "bytes \<Rightarrow> u64 \<Rightarrow> bytes" where
  "pb_varint out v =
    (if 0x7f < v then pb_varint (out @ [ucast ((v AND 0x7f) OR 0x80)]) (drop_bit 7 v)
     else out @ [ucast (v AND 0xff)])"
  by auto
termination
proof (relation "measure (\<lambda>(out, v). unat v)")
  fix out :: bytes and v :: u64
  assume "0x7f < v"
  then have "0 < unat v" by (simp add: word_less_nat_alt)
  then have "take_bit 64 (unat v) div 128 < unat v"
    using div_le_mono [OF take_bit_nat_less_eq_self [of 64 "unat v"], of 128] by simp
  then show "((out @ [ucast ((v AND 0x7f) OR 0x80)], drop_bit 7 v), out, v) \<in> measure (\<lambda>(out, v). unat v)"
    unfolding in_measure prod.case unsigned_drop_bit_eq by (simp add: drop_bit_eq_div)
qed simp

declare pb_varint.simps [simp del]

definition pb_tag :: "bytes \<Rightarrow> u32 \<Rightarrow> u32 \<Rightarrow> bytes" where
  "pb_tag out field wire = pb_varint out (ucast (push_bit 3 field OR wire))"

definition pb_len_delim :: "bytes \<Rightarrow> u32 \<Rightarrow> bytes \<Rightarrow> bytes" where
  "pb_len_delim out field b = pb_varint (pb_tag out field 2) (word_of_nat (length b)) @ b"

definition WASM_STREAM_SLOTS :: "(u32 \<times> u32 \<times> u32) list" where
  "WASM_STREAM_SLOTS =
    [(0, 0, 0), (0, 1, 1), (0, 2, 4), (1, 0, 2), (1, 1, 3), (1, 2, 5), (2, 0, 7), (2, 1, 8), (2, 2, 6)]"

definition stream_descriptor :: "u32 \<Rightarrow> u32 \<Rightarrow> u32 \<Rightarrow> bytes" where
  "stream_descriptor stream_index sub_type src =
    (let d = [];
         d = (if stream_index \<noteq> 0 then pb_varint (pb_tag d 1 0) (ucast stream_index) else d);
         d = (if sub_type \<noteq> 0 then pb_varint (pb_tag d 2 0) (ucast sub_type) else d)
     in pb_varint (pb_tag d 3 0) (ucast src))"

definition create_wasm_stream_descriptors :: "call_crypto \<Rightarrow> string \<Rightarrow> string \<Rightarrow> bytes" where
  "create_wasm_stream_descriptors c call_id self_id =
    fold (\<lambda>(stream_index, sub_type, slot) out.
        let src = derive_wasm_participant_ssrc c call_id self_id slot in
        if src = 0 then out else pb_len_delim out 1 (stream_descriptor stream_index sub_type src))
      WASM_STREAM_SLOTS []"

definition build_wasm_stun_allocate_request ::
  "call_crypto \<Rightarrow> bytes \<Rightarrow> bytes \<Rightarrow> bytes \<Rightarrow> bytes \<Rightarrow> string \<Rightarrow> string \<Rightarrow> bytes" where
  "build_wasm_stun_allocate_request c tx relay_token endpoint_xor integrity_key call_id self_id =
    (let attrs = stun_attr ATTR_RELAY_TOKEN relay_token;
         attrs = attrs @ stun_attr STUN_ATTR_STREAM_DESCRIPTORS (create_wasm_stream_descriptors c call_id self_id);
         attrs = attrs @ stun_attr STUN_ATTR_WASM_RELAY_ENDPOINT (create_wasm_relay_endpoint_attr endpoint_xor)
     in encode_stun_request c MSG_ALLOCATE_REQUEST tx attrs (Some integrity_key) False)"

definition build_whatsapp_ping :: "bytes \<Rightarrow> bytes" where
  "build_whatsapp_ping tx = be_bytes 2 (unat MSG_WHATSAPP_PING) @ [0, 0] @ be_bytes 4 (unat STUN_MAGIC) @ tx"

section \<open>Reading\<close>

definition is_stun_packet :: "bytes \<Rightarrow> bool" where
  "is_stun_packet data \<longleftrightarrow> 2 \<le> length data \<and> data ! 0 AND 0xc0 = 0x00"

definition stun_message_type :: "bytes \<Rightarrow> u16 option" where
  "stun_message_type data =
    (if 2 \<le> length data then Some (push_bit 8 (ucast (data ! 0 AND 0x3f)) OR ucast (data ! 1)) else None)"

definition stun_transaction_id :: "bytes \<Rightarrow> bytes option" where
  "stun_transaction_id data = (if 20 \<le> length data then Some (take 12 (drop 8 data)) else None)"

definition stun_body_len :: "bytes \<Rightarrow> nat" where
  "stun_body_len data = be_nat [data ! 2, data ! 3]"

definition is_complete_stun :: "bytes \<Rightarrow> bool" where
  "is_complete_stun data =
    (if \<not> (is_stun_packet data \<and> 20 \<le> length data \<and> take 4 (drop 4 data) = be_bytes 4 (unat STUN_MAGIC)) then False
     else stun_body_len data mod 4 = 0 \<and> 20 + stun_body_len data \<le> length data)"

definition is_allocate_or_binding_success :: "bytes \<Rightarrow> bool" where
  "is_allocate_or_binding_success data \<longleftrightarrow> is_complete_stun data \<and>
    (stun_message_type data = Some MSG_ALLOCATE_SUCCESS \<or> stun_message_type data = Some MSG_BINDING_SUCCESS)"

definition is_allocate_error :: "bytes \<Rightarrow> bool" where
  "is_allocate_error data \<longleftrightarrow> is_complete_stun data \<and> stun_message_type data = Some MSG_ALLOCATE_ERROR"

definition is_whatsapp_pong :: "bytes \<Rightarrow> bytes option \<Rightarrow> bool" where
  "is_whatsapp_pong data tx =
    (if \<not> is_stun_packet data \<or> stun_message_type data \<noteq> Some MSG_WHATSAPP_PONG then False
     else case tx of None \<Rightarrow> True | Some [] \<Rightarrow> True | Some want \<Rightarrow> stun_transaction_id data = Some want)"

text \<open>The attribute loop of \<open>parse_stun_error_code\<close>.\<close>

function stun_error_scan :: "bytes \<Rightarrow> nat \<Rightarrow> nat \<Rightarrow> (unit, u16 option) outcome" where
  "stun_error_scan data en off =
    (if off + 4 \<le> en then
       obind (index_at data off) (\<lambda>t1. obind (index_at data (off + 1)) (\<lambda>t0.
       obind (index_at data (off + 2)) (\<lambda>l1. obind (index_at data (off + 3)) (\<lambda>l0.
         let attr_type = (push_bit 8 (ucast t1) OR ucast t0 :: u16); len = be_nat [l1, l0] in
         if attr_type = ATTR_ERROR_CODE \<and> 4 \<le> len \<and> off + 8 \<le> en then
           obind (index_at data (off + 6)) (\<lambda>cls. obind (index_at data (off + 7)) (\<lambda>number.
             Ok (Some (ucast cls * 100 + ucast number))))
         else stun_error_scan data en (off + (4 + len + pad4 len))))))
     else Ok None)"
  by auto
termination by (relation "measure (\<lambda>(data, en, off). en - off)") auto

declare stun_error_scan.simps [simp del]

definition parse_stun_error_code :: "bytes \<Rightarrow> (unit, u16 option) outcome" where
  "parse_stun_error_code data =
    (if \<not> is_complete_stun data then Ok None
     else
       case stun_message_type data of None \<Rightarrow> Ok None
       | Some t \<Rightarrow>
           if t \<noteq> MSG_ALLOCATE_ERROR \<and> t \<noteq> 0x0111 then Ok None
           else stun_error_scan data (min (20 + stun_body_len data) (length data)) 20)"

text \<open>The loop of \<open>connect_and_allocate\<close> over what arrives before the deadline: \<open>None\<close> when it passes.\<close>

fun await_allocate :: "bytes list \<Rightarrow> (u16 option, unit) outcome option" where
  "await_allocate [] = None"
| "await_allocate (pkt # pkts) =
    (if is_allocate_or_binding_success pkt then Some (Ok ())
     else if is_allocate_error pkt then
       Some (case parse_stun_error_code pkt of Ok code \<Rightarrow> Err code | Err e \<Rightarrow> Panic | Panic \<Rightarrow> Panic)
     else await_allocate pkts)"

section \<open>What the requests are\<close>

lemma crc32_check: "crc32 [0x31, 0x32] = 0x4f5344cd"
  by code_simp

lemma length_stun_attr: "length (stun_attr t v) = 4 + length v + pad4 (length v)"
  by (simp add: stun_attr_def)

lemma pad4_multiple: "(n + pad4 n) mod 4 = 0"
proof -
  have "n mod 4 = 0 \<or> n mod 4 = 1 \<or> n mod 4 = 2 \<or> n mod 4 = 3" by linarith
  then have "(n mod 4 + pad4 n) mod 4 = 0" by (auto simp: pad4_def)
  then show ?thesis by (simp add: mod_add_left_eq)
qed

lemma stun_attr_multiple: "length (stun_attr t v) mod 4 = 0"
proof -
  have "(4 + (length v + pad4 (length v))) mod 4 = 0" using pad4_multiple [of "length v"] by simp
  then show ?thesis by (simp only: length_stun_attr add.assoc)
qed

lemma u16_join: "(push_bit 8 (ucast a) OR ucast b :: u16) = word_of_nat (be_nat [a, b])"
proof (rule bit_word_eqI)
  fix n assume "n < LENGTH(16)"
  have "be_nat [a, b] = push_bit 8 (unat a) OR unat b" by (simp add: be_nat_def)
  moreover have "bit (word_of_nat k :: u16) n \<longleftrightarrow> n < 16 \<and> bit k n" for k by (simp add: bit_simps)
  ultimately show "bit (push_bit 8 (ucast a) OR ucast b :: u16) n = bit (word_of_nat (be_nat [a, b]) :: u16) n"
    by (auto simp: bit_simps)
qed

lemma small_type_byte: "a < 64 \<Longrightarrow> a AND 0x3f = a \<and> a AND 0xc0 = 0" for a :: u8
proof -
  have "\<forall>a :: u8. a < 64 \<longrightarrow> a AND 0x3f = a \<and> a AND 0xc0 = 0" unfolding all_u8 by code_simp
  then show "a < 64 \<Longrightarrow> ?thesis" by blast
qed

lemma stun_header_read:
  assumes mt: "mt < 0x4000" and tx: "length tx = 12" and l: "length body < 65536"
  defines "msg \<equiv> be_bytes 2 (unat mt) @ be_bytes 2 (length body) @ be_bytes 4 (unat STUN_MAGIC) @ tx @ body"
  shows "is_stun_packet msg" "stun_message_type msg = Some mt" "stun_transaction_id msg = Some tx"
    "stun_body_len msg = length body" "take 4 (drop 4 msg) = be_bytes 4 (unat STUN_MAGIC)" "length msg = 20 + length body"
proof -
  obtain t1 t0 where t: "be_bytes 2 (unat mt) = [t1, t0]" using list_of_2 [of "be_bytes 2 (unat mt)"] by auto
  obtain l1 l0 where b: "be_bytes 2 (length body) = [l1, l0]" using list_of_2 [of "be_bytes 2 (length body)"] by auto
  obtain m3 m2 m1 m0 where m: "be_bytes 4 (unat STUN_MAGIC) = [m3, m2, m1, m0]"
    using list_of_4 [of "be_bytes 4 (unat STUN_MAGIC)"] by auto
  have "t1 = word_of_nat (unat mt div 256)" using t by (simp add: numeral_2_eq_2)
  moreover have "unat mt div 256 < 64" using mt by (simp add: word_less_nat_alt)
  ultimately have "t1 < 64" by (simp add: word_less_nat_alt)
  note s = small_type_byte [OF this]
  have be: "be_nat [t1, t0] = unat mt" "be_nat [l1, l0] = length body"
    using unat_u16_less [of mt] l by (simp_all add: t [symmetric] b [symmetric])
  show "is_stun_packet msg" using s by (simp add: msg_def t is_stun_packet_def)
  show "stun_message_type msg = Some mt" using s by (simp add: msg_def t stun_message_type_def u16_join be)
  show "stun_transaction_id msg = Some tx" using tx by (simp add: msg_def t b m stun_transaction_id_def)
  show "stun_body_len msg = length body" by (simp add: msg_def t b stun_body_len_def be)
  show "take 4 (drop 4 msg) = be_bytes 4 (unat STUN_MAGIC)" by (simp add: msg_def t b m)
  show "length msg = 20 + length body" using tx by (simp add: msg_def)
qed

lemma complete_stun_message:
  fixes mt :: u16
  assumes "mt < 0x4000" "length tx = 12" "length body < 65536" "length body mod 4 = 0"
  shows "is_complete_stun (be_bytes 2 (unat mt) @ be_bytes 2 (length body) @ be_bytes 4 (unat STUN_MAGIC) @ tx @ body)"
  unfolding is_complete_stun_def stun_header_read [OF assms(1-3)] using stun_header_read(1) [OF assms(1-3)] assms(4) by simp

text \<open>A request is a message of its own format: its type, its transaction id and the length of its body
  are read back, and the body is a whole number of words, so that a receiver finds it complete. This
  holds with and without the integrity tag and the fingerprint, for a body that the 16-bit length can
  tell.\<close>

theorem stun_request_complete:
  assumes "call_crypto_lengths c" "mt < 0x4000" "length tx = 12" "length attrs mod 4 = 0" "length attrs + 32 < 65536"
    and req: "encode_stun_request c mt tx attrs key fp = req"
  shows "is_complete_stun req \<and> stun_message_type req = Some mt \<and> stun_transaction_id req = Some tx \<and>
    20 + stun_body_len req = length req \<and> take (length attrs) (drop 20 req) = attrs"
proof -
  have mi: "length (stun_attr ATTR_MESSAGE_INTEGRITY (hmac_sha1 c k m)) = 24" for k m
    using assms(1) by (simp add: length_stun_attr call_crypto_lengths_def pad4_def)
  have f: "length (stun_attr ATTR_FINGERPRINT (be_bytes 4 n)) = 8" for n by (simp add: length_stun_attr pad4_def)
  obtain body where req': "req = be_bytes 2 (unat mt) @ be_bytes 2 (length body) @ be_bytes 4 (unat STUN_MAGIC) @ tx @ body"
    and "length body = length attrs \<or> length body = length attrs + 24 \<or> length body = length attrs + 8 \<or>
      length body = length attrs + 32" and pre: "take (length attrs) body = attrs"
    by (cases key; cases fp) (simp_all add: req [symmetric] encode_stun_request_def Let_def mi f add.commute)
  then have l: "length body < 65536" "length body mod 4 = 0" using assms(4,5) by (auto simp: mod_add_left_eq [symmetric])
  from req' pre complete_stun_message [OF assms(2,3) l] stun_header_read [OF assms(2,3) l(1)] show ?thesis
    using assms(3) by simp
qed

theorem stun_request_complete_witness:
  "is_complete_stun (encode_stun_request \<lparr>hkdf_expand = (\<lambda>s k i n. replicate n 0), keystream = (\<lambda>k v n. replicate n 0),
    hmac_sha1 = (\<lambda>k m. replicate 20 7)\<rparr> MSG_ALLOCATE_REQUEST (replicate 12 1) (stun_attr ATTR_RELAY_TOKEN [1, 2, 3]) (Some [4]) True)"
  using stun_request_complete [of "\<lparr>hkdf_expand = (\<lambda>s k i n. replicate n 0), keystream = (\<lambda>k v n. replicate n 0),
    hmac_sha1 = (\<lambda>k m. replicate 20 7)\<rparr>" MSG_ALLOCATE_REQUEST "replicate 12 1" "stun_attr ATTR_RELAY_TOKEN [1, 2, 3]" "Some [4]" True]
  by (simp add: call_crypto_lengths_def MSG_ALLOCATE_REQUEST_def length_stun_attr pad4_def)

section \<open>Error codes\<close>

lemma stun_error_scan_total: "en \<le> length data \<Longrightarrow> \<exists>r. stun_error_scan data en off = Ok r"
proof (induction data en off rule: stun_error_scan.induct)
  case (1 data en off)
  then show ?case by (auto simp: stun_error_scan.simps [of data en off] Let_def)
qed

definition stun_attrs :: "(u16 \<times> bytes) list \<Rightarrow> bytes" where
  "stun_attrs attrs = concat (map (\<lambda>(t, v). stun_attr t v) attrs)"

definition error_code :: "u16 \<times> bytes \<Rightarrow> u16" where
  "error_code = (\<lambda>(t, v). ucast (v ! 2) * 100 + ucast (v ! 3))"

definition is_error_code :: "u16 \<times> bytes \<Rightarrow> bool" where
  "is_error_code = (\<lambda>(t, v). t = ATTR_ERROR_CODE \<and> 4 \<le> length v)"

lemma stun_error_scan_attrs:
  "list_all (\<lambda>(t, v). length v < 65536) attrs \<Longrightarrow>
    stun_error_scan (pre @ stun_attrs attrs) (length (pre @ stun_attrs attrs)) (length pre) =
    Ok (map_option error_code (find is_error_code attrs))"
proof (induction attrs arbitrary: pre)
  case Nil
  then show ?case by (simp add: stun_attrs_def stun_error_scan.simps)
next
  case (Cons a attrs)
  obtain t v where a: "a = (t, v)" by force
  with Cons.prems have v: "length v < 65536" "list_all (\<lambda>(t, v). length v < 65536) attrs" by simp_all
  obtain t1 t0 where t: "be_bytes 2 (unat t) = [t1, t0]" using list_of_2 [of "be_bytes 2 (unat t)"] by auto
  obtain l1 l0 where l: "be_bytes 2 (length v) = [l1, l0]" using list_of_2 [of "be_bytes 2 (length v)"] by auto
  have be: "be_nat [l1, l0] = length v" "(push_bit 8 (ucast t1) OR ucast t0 :: u16) = t"
    using v(1) unat_u16_less [of t] unfolding u16_join by (simp_all add: t [symmetric] l [symmetric])
  let ?rest = "v @ replicate (pad4 (length v)) 0 @ stun_attrs attrs"
  have d: "pre @ stun_attrs (a # attrs) = pre @ [t1, t0, l1, l0] @ ?rest"
    by (simp add: stun_attrs_def a stun_attr_def t l)
  have next_a: "stun_error_scan (pre @ stun_attrs (a # attrs)) (length (pre @ stun_attrs (a # attrs)))
      (length pre + (4 + length v + pad4 (length v))) = Ok (map_option error_code (find is_error_code attrs))"
    using Cons.IH [OF v(2), of "pre @ stun_attr t v"] by (simp add: stun_attrs_def a length_stun_attr)
  show ?case
  proof (cases "is_error_code a")
    case True
    then have e: "t = ATTR_ERROR_CODE" "4 \<le> length v" by (simp_all add: a is_error_code_def)
    obtain v0 v1 v2 v3 w where w: "v = v0 # v1 # v2 # v3 # w"
      using e(2) by (auto simp: numeral_eq_Suc Suc_le_length_iff)
    show ?thesis unfolding d
      using True be e by (subst stun_error_scan.simps) (simp add: nth_append Let_def a w error_code_def)
  next
    case False
    then have "\<not> (t = ATTR_ERROR_CODE \<and> 4 \<le> length v)" by (simp add: a is_error_code_def)
    then show ?thesis using False next_a unfolding d
      by (subst stun_error_scan.simps) (auto simp: nth_append Let_def be)
  qed
qed

lemma parse_stun_error_code_total: "\<exists>r. parse_stun_error_code data = Ok r"
  using stun_error_scan_total [of "min (20 + stun_body_len data) (length data)" data 20]
  by (auto simp: parse_stun_error_code_def split: option.splits)

text \<open>The error code of an answer. On no input does the reader leave the packet; and in an answer
  that carries a list of attributes it finds the first error code among them, whatever stands before
  it and whatever padding the attributes need.\<close>

theorem stun_error_code_found:
  assumes "mt = MSG_ALLOCATE_ERROR \<or> mt = 0x0111" "length tx = 12" "length (stun_attrs attrs) < 65536"
  shows "(\<exists>r. parse_stun_error_code data = Ok r) \<and>
    parse_stun_error_code (be_bytes 2 (unat mt) @ be_bytes 2 (length (stun_attrs attrs)) @ be_bytes 4 (unat STUN_MAGIC) @
      tx @ stun_attrs attrs) = Ok (map_option error_code (find is_error_code attrs))"
proof
  have mt: "mt < 0x4000" using assms(1) by (auto simp: MSG_ALLOCATE_ERROR_def)
  have m4: "length (stun_attrs attrs) mod 4 = 0" "list_all (\<lambda>(t, v). length v < 65536) attrs" if "length (stun_attrs attrs) < 65536" for attrs
    using that
  proof (induction attrs)
    case (Cons a attrs)
    obtain t v where a: "a = (t, v)" by force
    have l: "length (stun_attrs (a # attrs)) = length (stun_attr t v) + length (stun_attrs attrs)"
      by (simp add: stun_attrs_def a)
    { case 1
      then show ?case using Cons.IH(1) l stun_attr_multiple [of t v]
        by (metis add_lessD1 add.commute mod_add_eq mod_0 add_0) }
    { case 2
      then show ?case using Cons.IH(2) l by (simp add: a length_stun_attr) }
  qed (simp_all add: stun_attrs_def)
  note c = complete_stun_message [OF mt assms(2,3) m4(1) [OF assms(3)]]
  note h = stun_header_read [OF mt assms(2,3)]
  let ?pre = "be_bytes 2 (unat mt) @ be_bytes 2 (length (stun_attrs attrs)) @ be_bytes 4 (unat STUN_MAGIC) @ tx"
  have "length ?pre = 20" using assms(2) by simp
  then show "parse_stun_error_code (be_bytes 2 (unat mt) @ be_bytes 2 (length (stun_attrs attrs)) @ be_bytes 4 (unat STUN_MAGIC) @
      tx @ stun_attrs attrs) = Ok (map_option error_code (find is_error_code attrs))"
    using stun_error_scan_attrs [OF m4(2) [OF assms(3)], of ?pre] c h assms(1)
    by (auto simp: parse_stun_error_code_def)
qed (rule parse_stun_error_code_total)

text \<open>A 437 behind a padded reason phrase.\<close>

theorem stun_error_code_found_witness:
  "parse_stun_error_code (be_bytes 2 (unat MSG_ALLOCATE_ERROR) @
      be_bytes 2 (length (stun_attrs [(0x8022, [1, 2, 3, 4, 5]), (ATTR_ERROR_CODE, [0, 0, 4, 37])])) @
      be_bytes 4 (unat STUN_MAGIC) @ replicate 12 1 @
      stun_attrs [(0x8022, [1, 2, 3, 4, 5]), (ATTR_ERROR_CODE, [0, 0, 4, 37])]) = Ok (Some 437)"
  using stun_error_code_found [of MSG_ALLOCATE_ERROR "replicate 12 1" "[(0x8022, [1, 2, 3, 4, 5]), (ATTR_ERROR_CODE, [0, 0, 4, 37])]" "[]"]
  by (simp add: stun_attrs_def length_stun_attr pad4_def is_error_code_def error_code_def ATTR_ERROR_CODE_def)

end
