(* ===== verification/Node_Build.thy ===== *)
theory Node_Build
  imports Node_Codec
begin

text \<open>
  Reading and building stanzas: the accessors that \<open>src/src/call.rs\<close> and \<open>src/src/session.rs\<close> use on a
  node, alike in both files, and the attribute maps of the nodes they build.
\<close>

definition children :: "node \<Rightarrow> string \<Rightarrow> node list" where
  "children n t = (case node_content n of CNodes ns \<Rightarrow> filter (\<lambda>c. tag c = t) ns | _ \<Rightarrow> [])"

definition child :: "node \<Rightarrow> string \<Rightarrow> node option" where
  "child n t = (case node_content n of CNodes ns \<Rightarrow> find (\<lambda>c. tag c = t) ns | _ \<Rightarrow> None)"

definition node_bytes :: "node \<Rightarrow> bytes option" where
  "node_bytes n = (case node_content n of CBytes b \<Rightarrow> Some b | _ \<Rightarrow> None)"

definition get_attr :: "node \<Rightarrow> string \<Rightarrow> string option" where
  "get_attr n k = map_of (node_attrs n) k"

definition parse_u32 :: "string \<Rightarrow> nat option" where
  "parse_u32 = parse_uint 4294967295"

definition attr :: "(string \<times> string) list \<Rightarrow> attrs" where
  "attr pairs = fold (\<lambda>(k, v) a. attrs_insert k v a) pairs []"

lemma map_of_attrs_insert: "map_of (attrs_insert k v as) = (map_of as)(k \<mapsto> v)"
  by (induction k v as rule: attrs_insert.induct) auto

lemma get_attr_attr [simp]: "get_attr (Node t (attr ps) c) k = map_of (rev ps) k"
proof -
  have "map_of (fold (\<lambda>(k, v) a. attrs_insert k v a) ps as) = map_of as ++ map_of (rev ps)" for as
    by (induction ps arbitrary: as) (auto simp: map_of_attrs_insert)
  then show ?thesis by (simp add: get_attr_def attr_def)
qed

end
