(* ===== verification/Call_Signal.thy ===== *)
theory Call_Signal
  imports Node_Build Call_Media
begin

text \<open>
  Call signaling, \<open>src/src/call.rs\<close>: reading an offer and the relay it names, choosing the relay
  endpoint, and building the stanzas of both sides of a call, with the part of \<open>place_call\<close> in
  \<open>src/src/session.rs\<close> that puts the offer together. The decoder of the base64 crate is an argument.
\<close>

section \<open>Reading nodes\<close>

definition CAPABILITY_STANDARD_OPUS_OFFER :: bytes where
  "CAPABILITY_STANDARD_OPUS_OFFER = [0x01, 0x05, 0xf7, 0x09, 0xe0, 0xbb AND 0x7f, 0x13]"

definition CAPABILITY_STANDARD_OPUS_PREACCEPT :: bytes where
  "CAPABILITY_STANDARD_OPUS_PREACCEPT = [0x01, 0x05, 0xf7, 0x09, 0xe0, 0xbb AND 0x7f, 0x07]"

definition CAPABILITY_MLOW_OFFER :: bytes where
  "CAPABILITY_MLOW_OFFER = [0x01, 0x05, 0xf7, 0x09, 0xe0, 0xbb, 0x13]"

definition STANDARD_OPUS_PT120_SETTINGS :: bytes where
  "STANDARD_OPUS_PT120_SETTINGS =
    as_bytes ''{\"encode\":{\"use_mlow_codec_v1\":\"false\"},\"options\":{\"enable_48khz_rtp_clock\":\"false\"}}''"

record offer_enc =
  oe_type :: string
  oe_version :: nat
  oe_ciphertext :: bytes

definition capability_wants_mlow :: "bytes \<Rightarrow> bool" where
  "capability_wants_mlow blob \<longleftrightarrow> 5 < length blob \<and> blob ! 5 AND 0x80 \<noteq> 0"

definition parse_offer_enc :: "node \<Rightarrow> offer_enc option" where
  "parse_offer_enc e =
    (case node_bytes e of None \<Rightarrow> None
     | Some ciphertext \<Rightarrow>
         if ciphertext = [] then None
         else Some \<lparr>oe_type = or_default ''pkmsg'' (get_attr e ''type''),
                    oe_version = or_default 2 (Option.bind (get_attr e ''v'') parse_u32),
                    oe_ciphertext = ciphertext\<rparr>)"

fun enc_among :: "node list \<Rightarrow> string \<Rightarrow> offer_enc option" where
  "enc_among [] own_lid = None"
| "enc_among (to # tos) own_lid =
    (if get_attr to ''jid'' = Some own_lid then
       (case child to ''enc'' of Some e \<Rightarrow> parse_offer_enc e | None \<Rightarrow> enc_among tos own_lid)
     else enc_among tos own_lid)"

definition enc_for_device :: "node \<Rightarrow> string \<Rightarrow> offer_enc option" where
  "enc_for_device offer own_lid =
    (case child offer ''enc'' of Some e \<Rightarrow> parse_offer_enc e
     | None \<Rightarrow>
         (case child offer ''destination'' of None \<Rightarrow> None
          | Some dest \<Rightarrow> enc_among (children dest ''to'') own_lid))"

section \<open>The relay block\<close>

definition WHATSAPP_RELAY_PORT :: u16 where "WHATSAPP_RELAY_PORT = 3478"
definition WEB_CLIENT_RELAY_PORT :: u16 where "WEB_CLIENT_RELAY_PORT = 3480"
definition MAX_RELAY_TOKENS :: nat where "MAX_RELAY_TOKENS = 64"
definition HBH_KEY_LEN :: nat where "HBH_KEY_LEN = 30"

record relay_address =
  ra_protocol :: u8
  ra_ipv4 :: "string option"
  ra_ipv6 :: "string option"
  ra_port :: u16

record relay_endpoint =
  relay_id :: nat
  relay_name :: string
  token_id :: nat
  auth_token_id :: nat
  is_fna :: bool
  addresses :: "relay_address list"
  c2r_rtt_ms :: "nat option"

record relay_data =
  hbh_key :: "bytes option"
  relay_key :: "bytes option"
  relay_key_ascii :: "bytes option"
  warp_mi_tag_len :: "nat option"
  uuid :: "string option"
  relay_tokens :: "bytes list"
  auth_tokens :: "bytes list"
  endpoints :: "relay_endpoint list"

definition is_ascii_alphanumeric :: "char \<Rightarrow> bool" where
  "is_ascii_alphanumeric c \<longleftrightarrow> (let n = of_char c :: nat in
    48 \<le> n \<and> n \<le> 57 \<or> 65 \<le> n \<and> n \<le> 90 \<or> 97 \<le> n \<and> n \<le> 122)"

definition looks_like_base64 :: "string \<Rightarrow> bool" where
  "looks_like_base64 txt \<longleftrightarrow> 4 \<le> length txt \<and>
    list_all (\<lambda>c. is_ascii_alphanumeric c \<or> c = CHR ''+'' \<or> c = CHR ''/'' \<or> c = CHR ''='') txt"

definition try_decode_base64 :: "(string \<Rightarrow> bytes option) \<Rightarrow> bytes \<Rightarrow> bytes option" where
  "try_decode_base64 b64 b =
    (case from_utf8 b of None \<Rightarrow> None
     | Some txt \<Rightarrow> if \<not> looks_like_base64 txt then None else b64 txt)"

definition decode_hbh_key :: "(string \<Rightarrow> bytes option) \<Rightarrow> bytes \<Rightarrow> bytes option" where
  "decode_hbh_key b64 b =
    (if b = [] then None
     else
       (let decoded = or_default b (try_decode_base64 b64 b);
            decoded = (if length decoded \<noteq> HBH_KEY_LEN then
                         (case try_decode_base64 b64 decoded of
                            Some inner \<Rightarrow> if length inner = HBH_KEY_LEN then inner else decoded
                          | None \<Rightarrow> decoded)
                       else decoded)
        in if length decoded = HBH_KEY_LEN then Some decoded else None))"

definition decode_relay_key_content :: "(string \<Rightarrow> bytes option) \<Rightarrow> bytes \<Rightarrow> bytes" where
  "decode_relay_key_content b64 b = or_default b (try_decode_base64 b64 b)"

text \<open>One pass of the loop of \<open>parse_indexed_tokens\<close>; the inner loop pads.\<close>

definition pad_tokens :: "nat \<Rightarrow> bytes list \<Rightarrow> bytes list" where
  "pad_tokens i tokens = tokens @ replicate (i + 1 - length tokens) []"

definition token_step :: "node \<Rightarrow> bytes list \<Rightarrow> bytes list" where
  "token_step n tokens =
    (case node_bytes n of None \<Rightarrow> tokens
     | Some b \<Rightarrow>
         (let i = or_default (length tokens) (Option.bind (get_attr n ''id'') (parse_uint 18446744073709551615)) in
          if MAX_RELAY_TOKENS \<le> i then tokens else (pad_tokens i tokens)[i := b]))"

definition parse_indexed_tokens :: "node \<Rightarrow> string \<Rightarrow> bytes list" where
  "parse_indexed_tokens relay t = fold token_step (children relay t) []"

text \<open>\<open>{:x}\<close>.\<close>

definition hex_digit :: "nat \<Rightarrow> char" where
  "hex_digit d = (if d < 10 then char_of (48 + d) else char_of (87 + d))"

fun show_hex :: "nat \<Rightarrow> string" where
  "show_hex n = (if n < 16 then [hex_digit n] else show_hex (n div 16) @ [hex_digit (n mod 16)])"

declare show_hex.simps [simp del]

fun join_with :: "string \<Rightarrow> string list \<Rightarrow> string" where
  "join_with sep [] = []"
| "join_with sep [x] = x"
| "join_with sep (x # y # zs) = x @ sep @ join_with sep (y # zs)"

definition parse_te2_address :: "bytes \<Rightarrow> u8 \<Rightarrow> relay_address option" where
  "parse_te2_address b protocol =
    (if length b = 6 then
       Some \<lparr>ra_protocol = protocol, ra_ipv4 = Some (join_with ''.'' (map (\<lambda>i. show_nat (unat (b ! i))) [0, 1, 2, 3])),
             ra_ipv6 = None, ra_port = word_of_nat (be_nat [b ! 4, b ! 5])\<rparr>
     else if length b = 18 then
       Some \<lparr>ra_protocol = protocol, ra_ipv4 = None,
             ra_ipv6 = Some (join_with '':'' (map (\<lambda>i. show_hex (be_nat [b ! i, b ! (i + 1)])) [0, 2, 4, 6, 8, 10, 12, 14])),
             ra_port = word_of_nat (be_nat [b ! 16, b ! 17])\<rparr>
     else None)"

fun find_relay :: "node \<Rightarrow> node option" and find_relay_among :: "node list \<Rightarrow> node option" where
  "find_relay (Node t as c) =
    (if t = ''relay'' then Some (Node t as c)
     else case c of CNodes ns \<Rightarrow> find_relay_among ns | _ \<Rightarrow> None)"
| "find_relay_among [] = None"
| "find_relay_among (n # ns) = (case find_relay n of Some r \<Rightarrow> Some r | None \<Rightarrow> find_relay_among ns)"

text \<open>The loop over the \<open>te2\<close> nodes: the endpoints, and the index of each relay id and name.\<close>

definition te2_step :: "node \<Rightarrow> relay_endpoint list \<times> (string \<Rightarrow> nat option) \<Rightarrow>
    relay_endpoint list \<times> (string \<Rightarrow> nat option)" where
  "te2_step te2 = (\<lambda>(eps, index_by_key).
    case node_bytes te2 of None \<Rightarrow> (eps, index_by_key)
    | Some addr_bytes \<Rightarrow>
        (let attr_u32 = (\<lambda>k. Option.bind (get_attr te2 k) parse_u32);
             rid = or_default 0 (attr_u32 ''relay_id'');
             rname = or_default [] (get_attr te2 ''relay_name'');
             tok = or_default 0 (attr_u32 ''token_id'');
             auth = or_default 0 (attr_u32 ''auth_token_id'');
             fna = (get_attr te2 ''is_fna'' = Some ''1'');
             protocol = (word_of_nat (or_default 0 (attr_u32 ''protocol'')) :: u8);
             rtt = attr_u32 ''c2r_rtt''
         in case parse_te2_address addr_bytes protocol of None \<Rightarrow> (eps, index_by_key)
            | Some address \<Rightarrow>
                (let key = show_nat rid @ '':'' @ rname;
                     (eps, index_by_key, i) =
                       (case index_by_key key of Some i \<Rightarrow> (eps, index_by_key, i)
                        | None \<Rightarrow>
                            (eps @ [\<lparr>relay_id = rid, relay_name = rname, token_id = tok, auth_token_id = auth,
                                     is_fna = fna, addresses = [], c2r_rtt_ms = rtt\<rparr>],
                             index_by_key (key := Some (length eps)), length eps));
                     eps = eps[i := (eps ! i)\<lparr>addresses := addresses (eps ! i) @ [address]\<rparr>];
                     eps = (case rtt of Some r \<Rightarrow> eps[i := (eps ! i)\<lparr>c2r_rtt_ms := Some r\<rparr>] | None \<Rightarrow> eps)
                 in (eps, index_by_key))))"

definition parse_relay_data :: "(string \<Rightarrow> bytes option) \<Rightarrow> node \<Rightarrow> relay_data" where
  "parse_relay_data b64 relay =
    (let find_bytes = (\<lambda>t. Option.bind (child relay t) node_bytes);
         key_bytes = find_bytes ''key'';
         hbh_key_bytes = find_bytes ''hbh_key'';
         tag_len = Option.bind (Option.bind (find_bytes ''warp_mi_tag_len'') from_utf8) (\<lambda>s. parse_u32 (trim s))
     in \<lparr>hbh_key = Option.bind hbh_key_bytes (decode_hbh_key b64),
         relay_key = map_option (decode_relay_key_content b64) key_bytes,
         relay_key_ascii = key_bytes,
         warp_mi_tag_len = (case tag_len of Some n \<Rightarrow> if 0 < n then Some n else None | None \<Rightarrow> None),
         uuid = get_attr relay ''uuid'',
         relay_tokens = parse_indexed_tokens relay ''token'',
         auth_tokens = parse_indexed_tokens relay ''auth_token'',
         endpoints = fst (fold te2_step (children relay ''te2'') ([], \<lambda>k. None))\<rparr>)"

definition get_primary_ipv4_address :: "relay_endpoint \<Rightarrow> (string \<times> u16) option" where
  "get_primary_ipv4_address ep =
    (case filter (\<lambda>a. ra_ipv4 a \<noteq> None) (addresses ep) of [] \<Rightarrow> None
     | a # _ \<Rightarrow> Some (the (ra_ipv4 a), ra_port a))"

definition is_outbound_relay_candidate :: "relay_endpoint \<Rightarrow> bool" where
  "is_outbound_relay_candidate ep \<longleftrightarrow> \<not> is_fna ep \<and> auth_token_id ep \<noteq> 0"

definition usable :: "relay_data \<Rightarrow> relay_endpoint \<Rightarrow> bool" where
  "usable rd e \<longleftrightarrow> get_primary_ipv4_address e \<noteq> None \<and>
    token_id e < length (relay_tokens rd) \<and> relay_tokens rd ! token_id e \<noteq> []"

definition on_web_port :: "relay_endpoint \<Rightarrow> bool" where
  "on_web_port e = (case get_primary_ipv4_address e of Some (_, port) \<Rightarrow> port = WEB_CLIENT_RELAY_PORT | None \<Rightarrow> False)"

definition or_else :: "'a option \<Rightarrow> 'a option \<Rightarrow> 'a option" where
  "or_else x y = (case x of Some a \<Rightarrow> Some a | None \<Rightarrow> y)"

definition pick_endpoint :: "relay_data \<Rightarrow> bool \<Rightarrow> relay_endpoint option" where
  "pick_endpoint rd usable_only =
    (let ok = (\<lambda>e. \<not> usable_only \<or> usable rd e); eps = endpoints rd in
     or_else (find (\<lambda>e. on_web_port e \<and> ok e) eps)
       (or_else (find (\<lambda>e. is_outbound_relay_candidate e \<and> ok e) eps)
         (or_else (find (\<lambda>e. \<not> is_fna e \<and> ok e) eps) (find ok eps))))"

definition get_media_relay_endpoint :: "relay_data \<Rightarrow> relay_endpoint option" where
  "get_media_relay_endpoint rd = or_else (pick_endpoint rd True) (pick_endpoint rd False)"

section \<open>Reading an offer\<close>

record parsed_offer =
  po_call_id :: string
  po_call_creator :: string
  po_from :: string
  po_is_video :: bool
  po_audio_rates :: "nat list"
  po_enc :: offer_enc
  po_relay :: "relay_data option"
  po_mlow :: bool

definition parse_offer :: "(string \<Rightarrow> bytes option) \<Rightarrow> node \<Rightarrow> string \<Rightarrow> parsed_offer option" where
  "parse_offer b64 call own_lid =
    (if tag call \<noteq> ''call'' then None
     else
       Option.bind (child call ''offer'') (\<lambda>offer.
       Option.bind (get_attr offer ''call-id'') (\<lambda>call_id.
       Option.bind (get_attr offer ''call-creator'') (\<lambda>call_creator.
       let from_jid = or_default [] (get_attr call ''from'');
           is_video = (child offer ''video'' \<noteq> None);
           rates = List.map_filter (\<lambda>a. Option.bind (get_attr a ''rate'') parse_u32) (children offer ''audio'')
       in Option.bind (enc_for_device offer own_lid) (\<lambda>enc.
         let relay = map_option (parse_relay_data b64) (find_relay call);
             mlow = (case Option.bind (child offer ''capability'') node_bytes of
                       Some b \<Rightarrow> capability_wants_mlow b | None \<Rightarrow> False)
         in Some \<lparr>po_call_id = call_id, po_call_creator = call_creator, po_from = from_jid,
                  po_is_video = is_video, po_audio_rates = rates, po_enc = enc, po_relay = relay,
                  po_mlow = mlow\<rparr>)))))"

section \<open>The stanzas of a call\<close>

definition audio_opus :: "string \<Rightarrow> node" where
  "audio_opus rate = Node ''audio'' (attr [(''enc'', ''opus''), (''rate'', rate)]) CNone"

definition encopt_node :: node where
  "encopt_node = Node ''encopt'' (attr [(''keygen'', ''2'')]) CNone"

definition capability_node :: "bytes \<Rightarrow> node" where
  "capability_node blob = Node ''capability'' (attr [(''ver'', ''1'')]) (CBytes blob)"

definition call_wrap :: "string \<Rightarrow> string \<Rightarrow> node \<Rightarrow> node" where
  "call_wrap to i action = Node ''call'' (attr [(''to'', to), (''id'', i)]) (CNodes [action])"

definition offer_action :: "string \<Rightarrow> string \<Rightarrow> string \<Rightarrow> node list \<Rightarrow> node" where
  "offer_action t call_id call_creator cs =
    Node t (attr [(''call-id'', call_id), (''call-creator'', call_creator)]) (CNodes cs)"

definition build_offer_ack_receipt :: "string \<Rightarrow> string \<Rightarrow> string \<Rightarrow> string \<Rightarrow> string option \<Rightarrow> node" where
  "build_offer_ack_receipt from_jid stanza_id call_id call_creator own_ad =
    (let attrs = attr [(''to'', from_jid), (''id'', stanza_id)];
         attrs = (case own_ad of Some ad \<Rightarrow> attrs_insert ''from'' ad attrs | None \<Rightarrow> attrs);
         offer = Node ''offer'' (attr [(''call-id'', call_id), (''call-creator'', call_creator)]) CNone
     in Node ''receipt'' attrs (CNodes [offer]))"

definition build_preaccept :: "string \<Rightarrow> string \<Rightarrow> string \<Rightarrow> string \<Rightarrow> string list \<Rightarrow> node" where
  "build_preaccept call_id to call_creator wrapper_id rates =
    (let cs = map audio_opus rates;
         cs = cs @ [encopt_node];
         cs = cs @ [capability_node CAPABILITY_STANDARD_OPUS_PREACCEPT]
     in call_wrap to wrapper_id (offer_action ''preaccept'' call_id call_creator cs))"

definition build_accept :: "string \<Rightarrow> string \<Rightarrow> string \<Rightarrow> string \<Rightarrow> string list \<Rightarrow> node" where
  "build_accept call_id to call_creator wrapper_id rates =
    (let cs = map audio_opus rates;
         cs = cs @ [Node ''net'' (attr [(''medium'', ''2'')]) CNone];
         cs = cs @ [encopt_node];
         cs = cs @ [capability_node CAPABILITY_STANDARD_OPUS_OFFER];
         cs = cs @ [Node ''voip_settings'' (attr [(''uncompressed'', ''1'')]) (CBytes STANDARD_OPUS_PT120_SETTINGS)]
     in call_wrap to wrapper_id (offer_action ''accept'' call_id call_creator cs))"

definition non_ad :: "string \<Rightarrow> string" where
  "non_ad jid =
    (case split_once CHR ''@'' jid of
       Some (user, server) \<Rightarrow> takeWhile (\<lambda>c. c \<noteq> CHR '':'') user @ ''@'' @ server
     | None \<Rightarrow> jid)"

definition build_terminate :: "string \<Rightarrow> string \<Rightarrow> string \<Rightarrow> string \<Rightarrow> string option \<Rightarrow> node" where
  "build_terminate msg_id to call_creator call_id reason =
    (let ta = attr [(''call-id'', call_id), (''call-creator'', non_ad call_creator)];
         ta = (case reason of Some r \<Rightarrow> attrs_insert ''reason'' r ta | None \<Rightarrow> ta)
     in Node ''call'' (attr [(''id'', msg_id), (''to'', non_ad to)]) (CNodes [Node ''terminate'' ta CNone]))"

text \<open>\<open>"00"\<close> and fifteen random bytes in hex.\<close>

definition generate_call_id :: "bytes \<Rightarrow> string" where
  "generate_call_id raw =
    ''00'' @ concat (map (\<lambda>b. [hex_digit (unat b div 16), hex_digit (unat b mod 16)]) raw)"

record offer_device_key =
  ok_device_jid :: string
  ok_enc_type :: string
  ok_ciphertext :: bytes

definition offer_enc_node :: "string \<Rightarrow> bytes \<Rightarrow> node" where
  "offer_enc_node ty ciphertext =
    Node ''enc'' (attr [(''v'', ''2''), (''type'', ty), (''count'', ''0'')]) (CBytes ciphertext)"

definition build_offer :: "string \<Rightarrow> string \<Rightarrow> string \<Rightarrow> string \<Rightarrow> string \<Rightarrow> bytes option \<Rightarrow>
    offer_device_key list \<Rightarrow> bool \<Rightarrow> bytes option \<Rightarrow> node" where
  "build_offer call_id to call_creator wrapper_id rate privacy_token device_keys multi_device device_identity =
    (let cs = [];
         cs = (case privacy_token of Some tok \<Rightarrow> cs @ [Node ''privacy'' [] (CBytes tok)] | None \<Rightarrow> cs);
         cs = cs @ [audio_opus rate];
         cs = cs @ [Node ''net'' (attr [(''medium'', ''3'')]) CNone];
         cs = cs @ [capability_node CAPABILITY_STANDARD_OPUS_OFFER];
         addressed = (multi_device \<or> 1 < length device_keys);
         any_pkmsg = list_ex (\<lambda>d. ok_enc_type d = ''pkmsg'') device_keys;
         cs = (if addressed then
                 (let tos = map (\<lambda>d. Node ''to'' (attr [(''jid'', ok_device_jid d)])
                                      (CNodes [offer_enc_node (ok_enc_type d) (ok_ciphertext d)])) device_keys
                  in cs @ [Node ''destination'' [] (CNodes tos)])
               else case device_keys of d # _ \<Rightarrow> cs @ [offer_enc_node (ok_enc_type d) (ok_ciphertext d)] | [] \<Rightarrow> cs);
         cs = cs @ [encopt_node];
         cs = (if any_pkmsg then
                 (case device_identity of Some di \<Rightarrow> cs @ [Node ''device-identity'' [] (CBytes di)] | None \<Rightarrow> cs)
               else cs)
     in call_wrap to wrapper_id (offer_action ''offer'' call_id call_creator cs))"

section \<open>Dialing\<close>

text \<open>What \<open>place_call\<close> addresses and what it hands to the media bridge, from the peer's LID, if one is
  known, its digits and our own LID; and the \<open>terminate\<close> of a call that nobody answers.\<close>

record outgoing_call =
  oc_call_id :: string
  oc_own_lid :: string
  oc_peer_addr :: string
  oc_call_creator :: string

definition peer_address :: "string option \<Rightarrow> string \<Rightarrow> string" where
  "peer_address peer_lid_user peer_digits =
    (case peer_lid_user of Some lu \<Rightarrow> lu @ ''@lid'' | None \<Rightarrow> peer_digits @ ''@s.whatsapp.net'')"

definition place_call :: "string \<Rightarrow> string option \<Rightarrow> string \<Rightarrow> string list \<Rightarrow> offer_device_key list \<Rightarrow>
    bytes option \<Rightarrow> bytes option \<Rightarrow> string \<Rightarrow> string \<Rightarrow> node \<times> outgoing_call" where
  "place_call own_lid peer_lid_user peer_digits device_jids device_keys account privacy_token call_id wrapper_id =
    (let peer_addr = peer_address peer_lid_user peer_digits;
         peer_bare = peer_address peer_lid_user peer_digits;
         multi_device = (1 < length device_jids);
         any_pkmsg = list_ex (\<lambda>d. ok_enc_type d = ''pkmsg'') device_keys;
         device_identity = (if any_pkmsg then account else None);
         privacy_token = (case peer_lid_user of Some _ \<Rightarrow> privacy_token | None \<Rightarrow> None)
     in (build_offer call_id peer_bare own_lid wrapper_id ''16000'' privacy_token device_keys multi_device device_identity,
         \<lparr>oc_call_id = call_id, oc_own_lid = own_lid, oc_peer_addr = peer_addr, oc_call_creator = peer_bare\<rparr>))"

definition cancel_call :: "string \<Rightarrow> outgoing_call \<Rightarrow> node" where
  "cancel_call msg_id s = build_terminate msg_id (oc_peer_addr s) (oc_call_creator s) (oc_call_id s) None"

end
