(* ===== verification/Call_Offer.thy ===== *)
theory Call_Offer
  imports Call_Signal
begin

text \<open>
  What call signaling achieves: the choice of the relay endpoint is the best one of the list, a relay
  block of any content leaves bounded and well-grouped data, and an offer that one side builds is read
  by each device of the other side as it was meant.
\<close>

section \<open>The endpoint that is dialed\<close>

lemma or_else_eq_None [simp]: "or_else x y = None \<longleftrightarrow> x = None \<and> y = None"
  by (cases x) (simp_all add: or_else_def)

lemma or_else_simps [simp]: "or_else (Some a) y = Some a" "or_else None y = y"
  by (simp_all add: or_else_def)

lemma find_cases:
  obtains (None) "find P xs = None" "\<forall>x \<in> set xs. \<not> P x"
  | (Some) x where "find P xs = Some x" "x \<in> set xs" "P x"
  by (cases "find P xs") (auto simp: find_None_iff find_Some_iff)

text \<open>The order of preference: whether the endpoint can be dialed with a token we hold, then whether it
  is on the web port, a candidate, or at least not an FNA.\<close>

definition preference :: "relay_data \<Rightarrow> relay_endpoint \<Rightarrow> nat" where
  "preference rd e =
    (if usable rd e then 0 else 4) +
    (if on_web_port e then 0 else if is_outbound_relay_candidate e then 1 else if \<not> is_fna e then 2 else 3)"

lemma pick_endpoint_best:
  assumes "pick_endpoint rd u = Some ep" "e \<in> set (endpoints rd)" "u \<longrightarrow> usable rd e"
    and "u \<or> (\<forall>x \<in> set (endpoints rd). \<not> usable rd x)"
  shows "ep \<in> set (endpoints rd)" "preference rd ep \<le> preference rd e"
proof -
  let ?eps = "endpoints rd" and ?ok = "\<lambda>e. \<not> u \<or> usable rd e"
  have "ep \<in> set ?eps \<and> preference rd ep \<le> preference rd e"
  proof (cases rule: find_cases [of "\<lambda>e. on_web_port e \<and> ?ok e" ?eps])
    case (Some x)
    then show ?thesis using assms by (auto simp: pick_endpoint_def Let_def preference_def)
  next
    case 1: None
    show ?thesis
    proof (cases rule: find_cases [of "\<lambda>e. is_outbound_relay_candidate e \<and> ?ok e" ?eps])
      case (Some x)
      then show ?thesis using assms 1 by (auto simp: pick_endpoint_def Let_def preference_def)
    next
      case 2: None
      show ?thesis
      proof (cases rule: find_cases [of "\<lambda>e. \<not> is_fna e \<and> ?ok e" ?eps])
        case (Some x)
        then show ?thesis using assms 1 2 by (auto simp: pick_endpoint_def Let_def preference_def)
      next
        case 3: None
        show ?thesis
        proof (cases rule: find_cases [of ?ok ?eps])
          case (Some x)
          then show ?thesis using assms 1 2 3 by (auto simp: pick_endpoint_def Let_def preference_def)
        qed (use assms in auto)
      qed
    qed
  qed
  then show "ep \<in> set ?eps" "preference rd ep \<le> preference rd e" by blast+
qed

lemma pick_endpoint_None: "pick_endpoint rd u = None \<longleftrightarrow> (\<forall>e \<in> set (endpoints rd). u \<and> \<not> usable rd e)"
  by (auto simp: pick_endpoint_def Let_def find_None_iff)

text \<open>C26: the endpoint that is dialed is the best one the relay offers: one that has an IPv4 address and
  a token we hold comes before any that has not, then one on the web port, then a candidate, then
  one that is no FNA. There is none only when the relay lists none.\<close>

theorem relay_endpoint_best:
  "(get_media_relay_endpoint rd = None \<longleftrightarrow> endpoints rd = []) \<and>
   (get_media_relay_endpoint rd = Some ep \<longrightarrow>
     ep \<in> set (endpoints rd) \<and> (\<forall>e \<in> set (endpoints rd). preference rd ep \<le> preference rd e))"
proof (intro conjI impI)
  show "get_media_relay_endpoint rd = None \<longleftrightarrow> endpoints rd = []"
    by (auto simp: get_media_relay_endpoint_def pick_endpoint_None)
next
  assume g: "get_media_relay_endpoint rd = Some ep"
  have "ep \<in> set (endpoints rd) \<and> preference rd ep \<le> preference rd e" if e: "e \<in> set (endpoints rd)" for e
  proof (cases "pick_endpoint rd True")
    case None
    then have n: "\<forall>x \<in> set (endpoints rd). \<not> usable rd x" by (simp add: pick_endpoint_None)
    have "pick_endpoint rd False = Some ep" using g None by (simp add: get_media_relay_endpoint_def)
    from pick_endpoint_best [OF this e] n show ?thesis by simp
  next
    case (Some x)
    then have p: "pick_endpoint rd True = Some ep" using g by (simp add: get_media_relay_endpoint_def)
    show ?thesis
    proof (cases "usable rd e")
      case True
      from pick_endpoint_best [OF p e] True show ?thesis by simp
    next
      case False
      obtain y where y: "y \<in> set (endpoints rd)" "usable rd y"
        using p pick_endpoint_None [of rd True] by fastforce
      from pick_endpoint_best [OF p y(1)] y(2) have "ep \<in> set (endpoints rd)" "preference rd ep \<le> preference rd y" by simp_all
      moreover have "preference rd y < 4" using y(2) by (simp add: preference_def)
      ultimately show ?thesis using False by (simp add: preference_def split: if_splits)
    qed
  qed
  then have *: "\<forall>e \<in> set (endpoints rd). ep \<in> set (endpoints rd) \<and> preference rd ep \<le> preference rd e" by blast
  moreover have "endpoints rd \<noteq> []" using g by (auto simp: get_media_relay_endpoint_def pick_endpoint_def)
  ultimately show "ep \<in> set (endpoints rd)" by (cases "endpoints rd") auto
  show "\<forall>e \<in> set (endpoints rd). preference rd ep \<le> preference rd e" using * by blast
qed

text \<open>A relay whose endpoint on the web port names a token that it does not hand out, and a second one.\<close>

definition demo_relay :: relay_data where
  "demo_relay =
    (let adr = (\<lambda>p. \<lparr>ra_protocol = 0, ra_ipv4 = Some ''10.0.0.1'', ra_ipv6 = None, ra_port = p\<rparr>);
         ep = (\<lambda>t p. \<lparr>relay_id = t, relay_name = ''r'', token_id = t, auth_token_id = 1, is_fna = True,
                      addresses = [adr p], c2r_rtt_ms = None\<rparr>)
     in \<lparr>hbh_key = None, relay_key = None, relay_key_ascii = None, warp_mi_tag_len = None, uuid = None,
         relay_tokens = [[], [1]], auth_tokens = [], endpoints = [ep 0 WEB_CLIENT_RELAY_PORT, ep 1 WHATSAPP_RELAY_PORT]\<rparr>)"

theorem relay_endpoint_best_witness:
  "\<exists>ep. get_media_relay_endpoint demo_relay = Some ep \<and> preference demo_relay ep \<le> 7 \<and> \<not> on_web_port ep"
proof -
  have "get_media_relay_endpoint demo_relay \<noteq> None"
    using relay_endpoint_best [of demo_relay] by (simp add: demo_relay_def Let_def)
  then obtain ep where ep: "get_media_relay_endpoint demo_relay = Some ep" by blast
  with relay_endpoint_best [of demo_relay ep] have b: "ep \<in> set (endpoints demo_relay)"
    "\<forall>e \<in> set (endpoints demo_relay). preference demo_relay ep \<le> preference demo_relay e" by simp_all
  have "preference demo_relay (endpoints demo_relay ! 1) = 3" "preference demo_relay (endpoints demo_relay ! 0) = 4"
    "\<not> on_web_port (endpoints demo_relay ! 1)"
    by (simp_all add: preference_def demo_relay_def Let_def usable_def get_primary_ipv4_address_def on_web_port_def
      WHATSAPP_RELAY_PORT_def WEB_CLIENT_RELAY_PORT_def is_outbound_relay_candidate_def)
  moreover have "set (endpoints demo_relay) = {endpoints demo_relay ! 0, endpoints demo_relay ! 1}"
    by (simp add: demo_relay_def Let_def)
  ultimately show ?thesis using ep b by auto
qed

section \<open>What an untrusted relay can make us store\<close>

lemma pad_tokens_length: "length (pad_tokens i tokens) = max (length tokens) (i + 1)"
  by (simp add: pad_tokens_def max_def)

lemma token_step_bound: "length tokens \<le> MAX_RELAY_TOKENS \<Longrightarrow> length (token_step n tokens) \<le> MAX_RELAY_TOKENS"
  by (auto simp: token_step_def Let_def pad_tokens_length split: option.splits)

lemma parse_indexed_tokens_bound: "length (parse_indexed_tokens relay t) \<le> MAX_RELAY_TOKENS"
proof -
  have "length (fold token_step ns ts) \<le> MAX_RELAY_TOKENS" if "length ts \<le> MAX_RELAY_TOKENS" for ns ts
    using that by (induction ns arbitrary: ts) (simp_all add: token_step_bound)
  then show ?thesis by (simp add: parse_indexed_tokens_def)
qed

definition relay_key_of :: "relay_endpoint \<Rightarrow> string" where
  "relay_key_of e = show_nat (relay_id e) @ '':'' @ relay_name e"

lemma show_nat_no_colon: "CHR '':'' \<notin> set (show_nat n)"
  using show_nat_digits [of n] by (auto simp: list_all_iff is_ascii_digit_def)

lemma relay_key_of_inj: "relay_key_of a = relay_key_of b \<longleftrightarrow> relay_id a = relay_id b \<and> relay_name a = relay_name b"
proof
  assume "relay_key_of a = relay_key_of b"
  then have "split_once CHR '':'' (relay_key_of a) = split_once CHR '':'' (relay_key_of b)" by simp
  then have "show_nat (relay_id a) = show_nat (relay_id b)" "relay_name a = relay_name b"
    by (simp_all add: relay_key_of_def split_once_complete show_nat_no_colon)
  then show "relay_id a = relay_id b \<and> relay_name a = relay_name b" by (metis digits_value_show_nat)
qed (simp add: relay_key_of_def)

text \<open>The index maps exactly the keys of the endpoints to their positions.\<close>

definition te2_ok :: "relay_endpoint list \<times> (string \<Rightarrow> nat option) \<Rightarrow> bool" where
  "te2_ok = (\<lambda>(eps, ix). (\<forall>k i. ix k = Some i \<longleftrightarrow> i < length eps \<and> relay_key_of (eps ! i) = k) \<and>
    list_all (\<lambda>e. addresses e \<noteq> []) eps)"

lemma te2_update:
  assumes ix: "\<forall>k i. ix k = Some i \<longleftrightarrow> i < length eps \<and> relay_key_of (eps ! i) = k"
    and a: "\<forall>j < length eps. j \<noteq> i \<longrightarrow> addresses (eps ! j) \<noteq> []" and i: "i < length eps"
  shows "te2_ok (let eps = eps[i := (eps ! i)\<lparr>addresses := addresses (eps ! i) @ [adr]\<rparr>]
    in case rtt of Some r \<Rightarrow> eps[i := (eps ! i)\<lparr>c2r_rtt_ms := Some r\<rparr>] | None \<Rightarrow> eps, ix)"
proof -
  have k: "relay_key_of (e\<lparr>addresses := x\<rparr>) = relay_key_of e" "relay_key_of (e\<lparr>c2r_rtt_ms := y\<rparr>) = relay_key_of e" for e x y
    by (simp_all add: relay_key_of_def)
  show ?thesis using ix a i
    by (cases rtt) (auto simp: te2_ok_def Let_def list_all_length nth_list_update k)
qed

lemma te2_insert:
  assumes ix: "\<forall>k i. ix k = Some i \<longleftrightarrow> i < length eps \<and> relay_key_of (eps ! i) = k"
    and new: "relay_key_of e = key" "ix key = None"
  shows "\<forall>k i. (ix(key \<mapsto> length eps)) k = Some i \<longleftrightarrow> i < length (eps @ [e]) \<and> relay_key_of ((eps @ [e]) ! i) = k"
proof (intro allI)
  fix k i
  have "\<not> (i < length eps \<and> relay_key_of (eps ! i) = key)" using ix [rule_format, of key i] new(2) by auto
  then show "(ix(key \<mapsto> length eps)) k = Some i \<longleftrightarrow> i < length (eps @ [e]) \<and> relay_key_of ((eps @ [e]) ! i) = k"
    using ix [rule_format, of k i] new(1) by (auto simp: nth_append less_Suc_eq)
qed

lemma te2_step_ok: "te2_ok s \<Longrightarrow> te2_ok (te2_step n s)"
proof -
  assume ok: "te2_ok s"
  obtain eps ix where s: "s = (eps, ix)" by force
  have ix: "\<forall>k i. ix k = Some i \<longleftrightarrow> i < length eps \<and> relay_key_of (eps ! i) = k"
    and ad: "\<forall>j < length eps. addresses (eps ! j) \<noteq> []"
    using ok by (auto simp: s te2_ok_def list_all_length)
  let ?u = "\<lambda>k. Option.bind (get_attr n k) parse_u32"
  let ?rid = "or_default 0 (?u ''relay_id'')" and ?rn = "or_default [] (get_attr n ''relay_name'')"
  let ?new = "\<lparr>relay_id = ?rid, relay_name = ?rn, token_id = or_default 0 (?u ''token_id''),
      auth_token_id = or_default 0 (?u ''auth_token_id''), is_fna = (get_attr n ''is_fna'' = Some ''1''),
      addresses = [], c2r_rtt_ms = ?u ''c2r_rtt''\<rparr>"
  let ?key = "show_nat ?rid @ '':'' @ ?rn"
  show ?thesis
  proof (cases "node_bytes n")
    case None
    then show ?thesis using ok by (simp add: s te2_step_def)
  next
    case b: (Some b)
    show ?thesis
    proof (cases "parse_te2_address b (word_of_nat (or_default 0 (?u ''protocol'')))")
      case None
      then show ?thesis using ok b by (simp add: s te2_step_def Let_def)
    next
      case a: (Some adr)
      show ?thesis
      proof (cases "ix ?key")
        case (Some i)
        then have "i < length eps" using ix by simp
        from te2_update [OF ix _ this, of adr "?u ''c2r_rtt''"] ad
        show ?thesis using a b Some by (simp add: s te2_step_def Let_def)
      next
        case None
        have k: "relay_key_of ?new = ?key" by (simp add: relay_key_of_def)
        note ix' = te2_insert [OF ix k None]
        have "\<forall>j < length (eps @ [?new]). j \<noteq> length eps \<longrightarrow> addresses ((eps @ [?new]) ! j) \<noteq> []"
          using ad by (auto simp: nth_append less_Suc_eq)
        from te2_update [OF ix' this, of adr "?u ''c2r_rtt''"]
        show ?thesis using a b None
          by (cases "?u ''c2r_rtt''") (simp_all add: s te2_step_def Let_def fun_upd_def)
      qed
    qed
  qed
qed

lemma fold_te2_ok: "te2_ok s \<Longrightarrow> te2_ok (fold te2_step ns s)"
  by (induction ns arbitrary: s) (simp_all add: te2_step_ok)

text \<open>Whatever the relay block holds, at most 64 tokens of each kind are kept, a hop-by-hop key has its
  thirty bytes and a tag length is positive; the endpoints are grouped by relay id and name, no two
  alike, and each has an address.\<close>

theorem relay_data_bounded:
  "let rd = parse_relay_data b64 relay in length (relay_tokens rd) \<le> 64 \<and> length (auth_tokens rd) \<le> 64 \<and>
    pred_option (\<lambda>k. length k = 30) (hbh_key rd) \<and> pred_option (\<lambda>n. 0 < n) (warp_mi_tag_len rd) \<and>
    distinct (map (\<lambda>e. (relay_id e, relay_name e)) (endpoints rd)) \<and> list_all (\<lambda>e. addresses e \<noteq> []) (endpoints rd)"
proof -
  obtain rd where rd_def: "rd = parse_relay_data b64 relay" by blast
  have "te2_ok ([], \<lambda>k. None)" by (simp add: te2_ok_def)
  from fold_te2_ok [OF this, of "children relay ''te2''"] obtain ix where
    ix: "\<forall>k i. ix k = Some i \<longleftrightarrow> i < length (endpoints rd) \<and> relay_key_of (endpoints rd ! i) = k"
    and ad: "list_all (\<lambda>e. addresses e \<noteq> []) (endpoints rd)"
    by (auto simp: te2_ok_def rd_def parse_relay_data_def Let_def split: prod.splits)
  have "i = j" if "i < length (endpoints rd)" "j < length (endpoints rd)"
    "relay_key_of (endpoints rd ! i) = relay_key_of (endpoints rd ! j)" for i j
    using that ix by (metis option.inject)
  then have "distinct (map (\<lambda>e. (relay_id e, relay_name e)) (endpoints rd))"
    by (auto simp: distinct_conv_nth relay_key_of_inj)
  moreover have "pred_option (\<lambda>k. length k = 30) (hbh_key rd)"
    by (auto simp: rd_def parse_relay_data_def Let_def decode_hbh_key_def HBH_KEY_LEN_def pred_option_def
      split: if_splits bind_splits)
  moreover have "pred_option (\<lambda>n. 0 < n) (warp_mi_tag_len rd)"
    by (auto simp: rd_def parse_relay_data_def Let_def pred_option_def split: option.splits if_splits)
  moreover have "length (relay_tokens rd) \<le> 64" "length (auth_tokens rd) \<le> 64"
    using parse_indexed_tokens_bound by (simp_all add: rd_def parse_relay_data_def Let_def MAX_RELAY_TOKENS_def)
  ultimately show ?thesis using ad unfolding Let_def rd_def [symmetric] by blast
qed

section \<open>From the caller's offer to the callee's device\<close>

text \<open>The stanza as the server delivers it: \<open>to\<close> has become \<open>from\<close>.\<close>

definition delivered :: "string \<Rightarrow> node \<Rightarrow> node" where
  "delivered from_jid call =
    Node (tag call) (attr [(''from'', from_jid), (''id'', or_default [] (get_attr call ''id''))]) (node_content call)"

text \<open>The key that an offer holds for a device.\<close>

definition key_for :: "string list \<Rightarrow> offer_device_key list \<Rightarrow> string \<Rightarrow> offer_device_key option" where
  "key_for device_jids keys lid =
    (if 1 < length device_jids \<or> 1 < length keys then find (\<lambda>d. ok_device_jid d = lid) keys
     else case keys of d # _ \<Rightarrow> Some d | [] \<Rightarrow> None)"

lemma get_attr_simps [simp]: "get_attr (Node t (attr [(k, v)]) c) k' = (if k' = k then Some v else None)"
  by (auto simp: get_attr_def attr_def)

lemma parse_offer_enc_node:
  "parse_offer_enc (offer_enc_node ty ct) =
    (if ct = [] then None else Some \<lparr>oe_type = ty, oe_version = 2, oe_ciphertext = ct\<rparr>)"
proof -
  have "get_attr (offer_enc_node ty ct) ''type'' = Some ty" "get_attr (offer_enc_node ty ct) ''v'' = Some ''2''"
    by (simp_all add: get_attr_def offer_enc_node_def attr_def)
  moreover have "parse_u32 ''2'' = Some 2"
    by (simp add: parse_u32_def parse_uint_def digits_value_def digit_val_def is_ascii_digit_def)
  ultimately show ?thesis
    by (simp add: parse_offer_enc_def node_bytes_def offer_enc_node_def or_default_def)
qed

lemma child_enc_to: "child (Node t as (CNodes [offer_enc_node ty ct])) ''enc'' = Some (offer_enc_node ty ct)"
  by (simp add: child_def offer_enc_node_def)

lemma enc_among_keys:
  "enc_among (map (\<lambda>d. Node ''to'' (attr [(''jid'', ok_device_jid d)])
      (CNodes [offer_enc_node (ok_enc_type d) (ok_ciphertext d)])) keys) lid =
    (case find (\<lambda>d. ok_device_jid d = lid) keys of None \<Rightarrow> None
     | Some d \<Rightarrow> parse_offer_enc (offer_enc_node (ok_enc_type d) (ok_ciphertext d)))"
  by (induction keys) (auto simp: child_enc_to)

text \<open>The children of an offer, by tag.\<close>

definition offer_children :: "bytes option \<Rightarrow> string list \<Rightarrow> offer_device_key list \<Rightarrow> bytes option \<Rightarrow> node list" where
  "offer_children tok device_jids keys identity =
    (case tok of Some t \<Rightarrow> [Node ''privacy'' [] (CBytes t)] | None \<Rightarrow> []) @
    [audio_opus ''16000'', Node ''net'' (attr [(''medium'', ''3'')]) CNone, capability_node CAPABILITY_STANDARD_OPUS_OFFER] @
    (if 1 < length device_jids \<or> 1 < length keys
     then [Node ''destination'' [] (CNodes (map (\<lambda>d. Node ''to'' (attr [(''jid'', ok_device_jid d)])
             (CNodes [offer_enc_node (ok_enc_type d) (ok_ciphertext d)])) keys))]
     else case keys of d # _ \<Rightarrow> [offer_enc_node (ok_enc_type d) (ok_ciphertext d)] | [] \<Rightarrow> []) @
    [encopt_node] @
    (case identity of Some di \<Rightarrow> [Node ''device-identity'' [] (CBytes di)] | None \<Rightarrow> [])"

lemma place_call_offer:
  "\<exists>tok' identity. fst (place_call own peer digits device_jids keys account tok call_id wid) =
    call_wrap (peer_address peer digits) wid
      (offer_action ''offer'' call_id own (offer_children tok' device_jids keys identity))"
proof -
  let ?tok = "case peer of Some _ \<Rightarrow> tok | None \<Rightarrow> None"
  let ?id = "if list_ex (\<lambda>d. ok_enc_type d = ''pkmsg'') keys then account else None"
  have "fst (place_call own peer digits device_jids keys account tok call_id wid) =
    call_wrap (peer_address peer digits) wid (offer_action ''offer'' call_id own (offer_children ?tok device_jids keys ?id))"
    by (cases ?tok; cases account; cases keys)
      (simp_all add: place_call_def build_offer_def offer_children_def Let_def)
  then show ?thesis by blast
qed

lemma find_relay_tag: "tag n \<noteq> ''relay'' \<Longrightarrow> (case node_content n of CNodes ns \<Rightarrow> False | _ \<Rightarrow> True) \<Longrightarrow> find_relay n = None"
  by (cases n; cases "node_content n") auto

lemma find_relay_among_None: "(\<And>n. n \<in> set ns \<Longrightarrow> find_relay n = None) \<Longrightarrow> find_relay_among ns = None"
  by (induction ns) auto

lemma find_relay_offer: "find_relay (offer_action ''offer'' call_id own (offer_children tok device_jids keys identity)) = None"
proof -
  have e: "find_relay (offer_enc_node ty ct) = None" for ty ct by (simp add: offer_enc_node_def)
  have "find_relay_among (map (\<lambda>d. Node ''to'' (attr [(''jid'', ok_device_jid d)])
      (CNodes [offer_enc_node (ok_enc_type d) (ok_ciphertext d)])) keys) = None"
    by (rule find_relay_among_None) (auto simp: e)
  then have "find_relay n = None" if "n \<in> set (offer_children tok device_jids keys identity)" for n
    using that by (auto simp: offer_children_def audio_opus_def capability_node_def encopt_node_def e
      split: option.splits list.splits if_splits)
  then have "find_relay_among (offer_children tok device_jids keys identity) = None" by (rule find_relay_among_None)
  then show ?thesis by (simp add: offer_action_def)
qed

lemma offer_children_read:
  fixes tok device_jids keys identity call_id own
  defines "offer \<equiv> offer_action ''offer'' call_id own (offer_children tok device_jids keys identity)"
  shows "child offer ''video'' = None" "children offer ''audio'' = [audio_opus ''16000'']"
    "child offer ''capability'' = Some (capability_node CAPABILITY_STANDARD_OPUS_OFFER)"
    "enc_for_device offer lid = (case key_for device_jids keys lid of None \<Rightarrow> None
      | Some d \<Rightarrow> parse_offer_enc (offer_enc_node (ok_enc_type d) (ok_ciphertext d)))"
proof -
  note defs = offer_children_def audio_opus_def capability_node_def encopt_node_def offer_enc_node_def
  show "child offer ''video'' = None" "children offer ''audio'' = [audio_opus ''16000'']"
    "child offer ''capability'' = Some (capability_node CAPABILITY_STANDARD_OPUS_OFFER)"
    by (cases tok; cases keys; cases identity; simp add: offer_def child_def children_def offer_action_def defs)+
  show "enc_for_device offer lid = (case key_for device_jids keys lid of None \<Rightarrow> None
      | Some d \<Rightarrow> parse_offer_enc (offer_enc_node (ok_enc_type d) (ok_ciphertext d)))"
  proof (cases "1 < length device_jids \<or> 1 < length keys")
    case True
    let ?tos = "map (\<lambda>d. Node ''to'' (attr [(''jid'', ok_device_jid d)])
             (CNodes [offer_enc_node (ok_enc_type d) (ok_ciphertext d)])) keys"
    have c: "child offer ''enc'' = None" "child offer ''destination'' = Some (Node ''destination'' [] (CNodes ?tos))"
      using True by (cases tok; cases identity; simp add: offer_def child_def offer_action_def defs)+
    have "filter (\<lambda>c. tag c = ''to'') ?tos = ?tos" by (auto simp: filter_id_conv)
    then have "children (Node ''destination'' [] (CNodes ?tos)) ''to'' = ?tos" by (simp add: children_def)
    then show ?thesis using True unfolding enc_for_device_def c option.case
      by (simp add: enc_among_keys key_for_def)
  next
    case False
    show ?thesis
    proof (cases keys)
      case Nil
      then have c: "child offer ''enc'' = None" "child offer ''destination'' = None"
        using False by (cases tok; cases identity; simp add: offer_def child_def offer_action_def defs)+
      then show ?thesis using False Nil by (simp add: enc_for_device_def key_for_def)
    next
      case (Cons d ds)
      then have c: "child offer ''enc'' = Some (offer_enc_node (ok_enc_type d) (ok_ciphertext d))"
        using False by (cases tok; cases identity; simp add: offer_def child_def offer_action_def defs)+
      then show ?thesis using False Cons by (simp add: enc_for_device_def key_for_def)
    qed
  qed
qed

text \<open>What an offer of ours says to each device of the peer. A device finds the call id, us as the
  creator and the caller, the one audio rate, no video and no MLow, and the key that was encrypted
  for it, in the addressed form as in the bare one; a device the offer has no key for, or an empty
  one, reads no offer at all.\<close>

theorem offer_read_by_device:
  "parse_offer b64 (delivered from_jid (fst (place_call own peer digits device_jids keys account tok call_id wid))) lid =
    (case key_for device_jids keys lid of None \<Rightarrow> None
     | Some d \<Rightarrow>
         if ok_ciphertext d = [] then None
         else Some \<lparr>po_call_id = call_id, po_call_creator = own, po_from = from_jid, po_is_video = False,
                    po_audio_rates = [16000],
                    po_enc = \<lparr>oe_type = ok_enc_type d, oe_version = 2, oe_ciphertext = ok_ciphertext d\<rparr>,
                    po_relay = None, po_mlow = False\<rparr>)"
proof -
  obtain tok' identity where o: "fst (place_call own peer digits device_jids keys account tok call_id wid) =
    call_wrap (peer_address peer digits) wid
      (offer_action ''offer'' call_id own (offer_children tok' device_jids keys identity))" (is "_ = call_wrap _ _ ?offer")
    using place_call_offer by blast
  let ?call = "delivered from_jid (call_wrap (peer_address peer digits) wid ?offer)"
  have c: "tag ?call = ''call''" "child ?call ''offer'' = Some ?offer" "get_attr ?call ''from'' = Some from_jid"
    by (simp_all add: delivered_def call_wrap_def child_def offer_action_def get_attr_def attr_def)
  have a: "get_attr ?offer ''call-id'' = Some call_id" "get_attr ?offer ''call-creator'' = Some own"
    by (simp_all add: get_attr_def offer_action_def attr_def)
  have r: "find_relay ?call = None"
    using find_relay_offer [of call_id own tok' device_jids keys identity] by (simp add: delivered_def call_wrap_def)
  have rates: "List.map_filter (\<lambda>a. Option.bind (get_attr a ''rate'') parse_u32) [audio_opus ''16000''] = [16000]"
  proof -
    have "get_attr (audio_opus ''16000'') ''rate'' = Some ''16000''" by (simp add: get_attr_def audio_opus_def attr_def)
    moreover have "parse_u32 ''16000'' = Some 16000"
      by (simp add: parse_u32_def parse_uint_def digits_value_def digit_val_def is_ascii_digit_def)
    ultimately show ?thesis by (simp add: List.map_filter_def)
  qed
  have m: "\<not> capability_wants_mlow CAPABILITY_STANDARD_OPUS_OFFER"
    by (simp add: capability_wants_mlow_def CAPABILITY_STANDARD_OPUS_OFFER_def)
  show ?thesis unfolding o parse_offer_def c(1) c(2,3) Option.bind.simps a Let_def offer_children_read r rates
    using m by (auto simp: parse_offer_enc_node or_default_def capability_node_def node_bytes_def split: option.splits)
qed

text \<open>The offer names us as the creator of the call. The \<open>terminate\<close> that cancels it, when nobody answers,
  names the peer.\<close>

lemma cancel_names_the_peer:
  assumes "place_call own peer digits device_jids keys account tok call_id wid = (offer, s)"
  shows "Option.bind (child offer ''offer'') (\<lambda>n. get_attr n ''call-creator'') = Some own"
    "Option.bind (child (cancel_call msg_id s) ''terminate'') (\<lambda>n. get_attr n ''call-creator'') =
      Some (non_ad (peer_address peer digits))"
proof -
  obtain tok' identity where o: "offer = call_wrap (peer_address peer digits) wid
      (offer_action ''offer'' call_id own (offer_children tok' device_jids keys identity))"
    using place_call_offer [of own peer digits device_jids keys account tok call_id wid] assms by auto
  show "Option.bind (child offer ''offer'') (\<lambda>n. get_attr n ''call-creator'') = Some own"
    by (simp add: o call_wrap_def offer_action_def child_def get_attr_def attr_def)
  have "oc_call_creator s = peer_address peer digits" using assms by (auto simp: place_call_def Let_def)
  then show "Option.bind (child (cancel_call msg_id s) ''terminate'') (\<lambda>n. get_attr n ''call-creator'') =
      Some (non_ad (peer_address peer digits))"
    by (simp add: cancel_call_def build_terminate_def child_def get_attr_def attr_def Let_def)
qed

end
