(* ===== verification/Resp.thy ===== *)
theory Resp
  imports Chunked_Stream
begin

text \<open>
  The Redis transport of \<open>src/src/egress.rs\<close>: the RESP codec, the loop that reads one reply off the
  connection, and the publishing of an event. The TCP connection is the list of chunks that its reads
  return; JSON and URL parsing are arguments. The messages of protocol errors are data.
\<close>

section \<open>The codec\<close>

datatype resp_value =
    Simple string
  | ErrorReply string
  | Integer int
  | Bulk "bytes option"
  | Array "resp_value list option"

datatype resp_error = Incomplete | BadInteger bytes | UnknownType u8

definition crlf :: bytes where "crlf = [0x0D, 0x0A]"

definition encode_command :: "bytes list \<Rightarrow> bytes" where
  "encode_command args =
    (let out = as_bytes (''*'' @ show_nat (length args)) @ crlf
     in fold (\<lambda>a out. out @ as_bytes (''$'' @ show_nat (length a)) @ crlf @ a @ crlf) args out)"

text \<open>\<open>windows(2).position(|w| w == b"\r\n")\<close>.\<close>

fun crlf_position :: "bytes \<Rightarrow> nat option" where
  "crlf_position (a # b # r) =
    (if a = 0x0D \<and> b = 0x0A then Some 0 else map_option Suc (crlf_position (b # r)))"
| "crlf_position r = None"

definition resp_line :: "bytes \<Rightarrow> nat \<Rightarrow> (resp_error, bytes \<times> nat) outcome" where
  "resp_line buf pos =
    (if length buf < pos then Err Incomplete
     else
       (let rest = drop pos buf in
        case crlf_position rest of Some i \<Rightarrow> Ok (take i rest, pos + i + 2) | None \<Rightarrow> Err Incomplete))"

definition resp_int :: "bytes \<Rightarrow> (resp_error, int) outcome" where
  "resp_int line = ok_or (Option.bind (from_utf8 line) (\<lambda>s. parse_i64 (trim s))) (BadInteger line)"

text \<open>The loop over the items of an array, given the reader of one.\<close>

primrec resp_items :: "(nat \<Rightarrow> (resp_error, resp_value \<times> nat) outcome) \<Rightarrow> nat \<Rightarrow> nat \<Rightarrow>
    (resp_error, resp_value list \<times> nat) outcome" where
  "resp_items item 0 p = Ok ([], p)"
| "resp_items item (Suc n) p =
    obind (item p) (\<lambda>(v, np). obind (resp_items item n np) (\<lambda>(vs, p). Ok (v # vs, p)))"

text \<open>\<open>resp_parse_at\<close> on a stack that holds so many nested calls. \<open>Vec::with_capacity\<close> panics when the
  items, of \<open>item_size\<close> bytes each, would take more than \<open>isize::MAX\<close>.\<close>

primrec resp_parse_depth :: "nat \<Rightarrow> nat \<Rightarrow> bytes \<Rightarrow> nat \<Rightarrow> (resp_error, resp_value \<times> nat) outcome" where
  "resp_parse_depth item_size 0 buf pos = Panic"
| "resp_parse_depth item_size (Suc depth) buf pos =
    (if length buf \<le> pos then Err Incomplete
     else
       obind (index_at buf pos) (\<lambda>kind.
       obind (resp_line buf (pos + 1)) (\<lambda>(line, nxt).
         if kind = 0x2B then Ok (Simple (from_utf8_lossy line), nxt)
         else if kind = 0x2D then Ok (ErrorReply (from_utf8_lossy line), nxt)
         else if kind = 0x3A then obind (resp_int line) (\<lambda>i. Ok (Integer i, nxt))
         else if kind = 0x24 then
           obind (resp_int line) (\<lambda>len.
             if len < 0 then Ok (Bulk None, nxt)
             else
               (let en = nxt + nat len in
                if length buf < en + 2 then Err Incomplete
                else obind (slice buf nxt en) (\<lambda>d. Ok (Bulk (Some d), en + 2))))
         else if kind = 0x2A then
           obind (resp_int line) (\<lambda>count.
             if count < 0 then Ok (Array None, nxt)
             else if 9223372036854775807 < nat count * item_size then Panic
             else
               obind (resp_items (resp_parse_depth item_size depth buf) (nat count) nxt) (\<lambda>(items, p).
                 Ok (Array (Some items), p)))
         else Err (UnknownType kind))))"

text \<open>A reply nests less deep than it is long.\<close>

definition parse_reply :: "nat \<Rightarrow> bytes \<Rightarrow> (resp_error, resp_value \<times> nat) outcome" where
  "parse_reply item_size buf = resp_parse_depth item_size (Suc (length buf)) buf 0"

section \<open>Configuration\<close>

datatype redis_mode = List | PubSub

record redis_config =
  redis_url :: string
  redis_mode :: redis_mode
  redis_key :: string

text \<open>The fields \<open>url\<close>, \<open>key\<close> and \<open>mode\<close> of the configuration, as the JSON library finds them; \<open>None\<close> when it
  is not JSON.\<close>

definition redis_from_target :: "(string option \<times> string option \<times> string option) option \<Rightarrow> redis_config option" where
  "redis_from_target config =
    (case config of None \<Rightarrow> None
     | Some (url, key, mode) \<Rightarrow>
         (case url of None \<Rightarrow> None
          | Some url \<Rightarrow>
              (case key of None \<Rightarrow> None
               | Some key \<Rightarrow>
                   (let m = or_default ''list'' mode in
                    Some \<lparr>redis_url = url,
                          redis_mode = (if m = ''pubsub'' \<or> m = ''publish'' then PubSub else List),
                          redis_key = key\<rparr>))))"

text \<open>From the parts that the URL library finds: host, port and password.\<close>

definition parse_redis_url :: "(string option \<times> u16 option \<times> string option) option \<Rightarrow> (string \<times> u16 \<times> string option) option" where
  "parse_redis_url parsed =
    (case parsed of None \<Rightarrow> None
     | Some (host, port, password) \<Rightarrow>
         (case host of None \<Rightarrow> None
          | Some host \<Rightarrow>
              Some (host, or_default 6379 port, case password of Some p \<Rightarrow> if p = [] then None else Some p | None \<Rightarrow> None)))"

definition redis_publish_commands :: "redis_config \<Rightarrow> string option \<Rightarrow> bytes \<Rightarrow> bytes list" where
  "redis_publish_commands cfg password body =
    (let cmds = [];
         cmds = (case password of Some pw \<Rightarrow> cmds @ [encode_command [as_bytes ''AUTH'', as_bytes pw]] | None \<Rightarrow> cmds);
         verb = (case redis_mode cfg of List \<Rightarrow> as_bytes ''RPUSH'' | PubSub \<Rightarrow> as_bytes ''PUBLISH'')
     in cmds @ [encode_command [verb, as_bytes (redis_key cfg), body]])"

section \<open>Publishing\<close>

datatype transport_error = Unreachable | Closed | Malformed resp_error | Refused string

text \<open>\<open>read_one_reply\<close> on the chunks that the reads return; an empty one, and the end of the list, is the
  closed connection. The buffer and the chunks that are left are returned with the result.\<close>

fun read_one_reply :: "nat \<Rightarrow> bytes list \<Rightarrow> bytes \<Rightarrow> (transport_error, resp_value) outcome \<times> bytes list \<times> bytes" where
  "read_one_reply sz [] buf =
    (case parse_reply sz buf of
       Ok (v, consumed) \<Rightarrow> (Ok v, [], drop consumed buf)
     | Panic \<Rightarrow> (Panic, [], buf)
     | Err Incomplete \<Rightarrow> (Err Closed, [], buf)
     | Err e \<Rightarrow> (Err (Malformed e), [], buf))"
| "read_one_reply sz (c # cs) buf =
    (case parse_reply sz buf of
       Ok (v, consumed) \<Rightarrow> (Ok v, c # cs, drop consumed buf)
     | Panic \<Rightarrow> (Panic, c # cs, buf)
     | Err Incomplete \<Rightarrow> if c = [] then (Err Closed, cs, buf) else read_one_reply sz cs (buf @ c)
     | Err e \<Rightarrow> (Err (Malformed e), c # cs, buf))"

text \<open>The loop of \<open>publish\<close> over the commands, on a connection that takes what is written: the result and
  the commands that were sent.\<close>

fun publish_commands :: "nat \<Rightarrow> bytes list \<Rightarrow> bytes list \<Rightarrow> bytes \<Rightarrow> (transport_error, unit) outcome \<times> bytes list" where
  "publish_commands sz [] chunks rbuf = (Ok (), [])"
| "publish_commands sz (cmd # cmds) chunks rbuf =
    (case read_one_reply sz chunks rbuf of
       (Ok v, chunks, rbuf) \<Rightarrow>
         (case v of ErrorReply e \<Rightarrow> (Err (Refused e), [cmd])
          | _ \<Rightarrow> (let (r, sent) = publish_commands sz cmds chunks rbuf in (r, cmd # sent)))
     | (Err e, _) \<Rightarrow> (Err e, [cmd])
     | (Panic, _) \<Rightarrow> (Panic, [cmd]))"

definition publish :: "nat \<Rightarrow> redis_config \<Rightarrow> string option \<Rightarrow> bytes \<Rightarrow> bytes list \<Rightarrow>
    (transport_error, unit) outcome \<times> bytes list" where
  "publish sz cfg password body chunks = publish_commands sz (redis_publish_commands cfg password body) chunks []"

end
