(* ===== verification/Json.thy ===== *)
theory Json
  imports Ruwa_Prelude
begin

text \<open>
  \<open>serde_json::Value\<close>: the data that the components exchange with the JSON library, whose reader and
  printer are arguments of the model, and the accessors that the sources use on it.
\<close>

datatype json = JNull | JBool bool | JNumber int | JString string | JArray "json list" | JObject "(string \<times> json) list"

definition json_get :: "json \<Rightarrow> string \<Rightarrow> json option" where
  "json_get v k = (case v of JObject ms \<Rightarrow> map_of ms k | _ \<Rightarrow> None)"

definition json_nth :: "json \<Rightarrow> nat \<Rightarrow> json option" where
  "json_nth v i = (case v of JArray xs \<Rightarrow> if i < length xs then Some (xs ! i) else None | _ \<Rightarrow> None)"

definition as_str :: "json \<Rightarrow> string option" where
  "as_str v = (case v of JString s \<Rightarrow> Some s | _ \<Rightarrow> None)"

definition json_str :: "json \<Rightarrow> string \<Rightarrow> string option" where
  "json_str v k = Option.bind (json_get v k) as_str"

end
