(* ===== verification/Egress.thy ===== *)
theory Egress
  imports Resp Rows Json
begin

text \<open>
  Event egress, \<open>src/src/egress.rs\<close>: the payload of an event, the choice of its targets, delivery to a
  webhook with retries and to Redis, the fan-out, and the worker that logs events and prunes the log. The
  network is a list of the steps taken so far, which determines what the servers answer to the next one;
  JSON, URL parsing, HMAC, random draws and the HTTP client are arguments.
\<close>

section \<open>Targets and events\<close>

record egress_target =
  et_session_id :: string
  et_kind :: string
  et_enabled :: bool
  et_events :: "string option"
  et_secret :: "string option"
  et_config :: string
  et_updated_at :: int

text \<open>The table, with its primary key, and the listing of a session's targets by kind.\<close>

type_synonym egress_table = "(string \<times> string, egress_target) rows"

definition egress_set :: "egress_target \<Rightarrow> egress_table \<Rightarrow> egress_table" where
  "egress_set t tab = row_save tab (et_session_id t, et_kind t) t"

definition egress_get :: "egress_table \<Rightarrow> string \<Rightarrow> string \<Rightarrow> egress_target option" where
  "egress_get tab sid kind = row_load tab (sid, kind)"

definition egress_delete :: "string \<Rightarrow> string \<Rightarrow> egress_table \<Rightarrow> egress_table" where
  "egress_delete sid kind tab = row_delete tab (sid, kind)"

definition egress_list_for_session :: "egress_table \<Rightarrow> string \<Rightarrow> egress_target list" where
  "egress_list_for_session tab sid = sort_key et_kind (map snd (filter (\<lambda>r. fst (fst r) = sid) tab))"

text \<open>\<open>str::split\<close> on a character.\<close>

fun split_csv :: "char \<Rightarrow> string \<Rightarrow> string list" where
  "split_csv c [] = [[]]"
| "split_csv c (x # xs) =
    (if x = c then [] # split_csv c xs
     else (case split_csv c xs of p # ps \<Rightarrow> (x # p) # ps | [] \<Rightarrow> [[x]]))"

definition event_allowed :: "string option \<Rightarrow> string \<Rightarrow> bool" where
  "event_allowed flt etype =
    (case map_option trim flt of None \<Rightarrow> True
     | Some csv \<Rightarrow> if csv = [] then True else list_ex (\<lambda>t. t = etype) (map trim (split_csv CHR '','' csv)))"

definition should_fire :: "egress_target \<Rightarrow> string \<Rightarrow> bool" where
  "should_fire t etype \<longleftrightarrow> et_enabled t \<and> event_allowed (et_events t) etype"

text \<open>An event is the JSON value that it serializes to, \<open>None\<close> if that fails.\<close>

definition event_type :: "json option \<Rightarrow> string" where
  "event_type ev = or_default ''unknown'' (Option.bind ev (\<lambda>v. json_str v ''type''))"

definition event_to_payload :: "string \<Rightarrow> json option \<Rightarrow> int \<Rightarrow> json" where
  "event_to_payload session_id ev ts =
    (let v = or_default (JObject []) ev;
         etype = or_default ''unknown'' (json_str v ''type'');
         v = (case v of JObject ms \<Rightarrow> JObject (filter (\<lambda>m. fst m \<noteq> ''type'') ms) | _ \<Rightarrow> v)
     in JObject [(''session'', JString session_id), (''event'', JString etype), (''data'', v), (''ts'', JNumber ts)])"

section \<open>The network\<close>

record webhook_request =
  wr_url :: string
  wr_event :: string
  wr_delivery :: string
  wr_body :: bytes
  wr_signature :: "string option"

datatype net_step = Posted webhook_request | Slept nat | Published string u16 "bytes list"

record net =
  net_trace :: "net_step list"
  delivered_total :: nat
  failed_total :: nat

record egress_env =
  http_answer :: "net_step list \<Rightarrow> webhook_request \<Rightarrow> u16 option"
  fresh_uuid :: "net_step list \<Rightarrow> string"
  draw :: "net_step list \<Rightarrow> nat \<Rightarrow> nat"
  redis_answer :: "net_step list \<Rightarrow> string \<Rightarrow> u16 \<Rightarrow> bytes list option"
  resp_item_size :: nat
  hmac_sha256_hex :: "bytes \<Rightarrow> bytes \<Rightarrow> string"
  read_json :: "string \<Rightarrow> json option"
  print_json :: "json \<Rightarrow> bytes"
  read_url :: "string \<Rightarrow> (string option \<times> u16 option \<times> string option) option"

definition net_do :: "net_step \<Rightarrow> net \<Rightarrow> net" where
  "net_do s w = w\<lparr>net_trace := net_trace w @ [s]\<rparr>"

definition event_to_sse_json :: "egress_env \<Rightarrow> json option \<Rightarrow> bytes" where
  "event_to_sse_json env ev = (case ev of Some v \<Rightarrow> print_json env v | None \<Rightarrow> as_bytes ''{}'')"

section \<open>Webhooks\<close>

datatype deliver_error = BadConfig | Http | Status u16 | StoreError | TransportError transport_error

definition target_url :: "egress_env \<Rightarrow> egress_target \<Rightarrow> string option" where
  "target_url env t = Option.bind (read_json env (et_config t)) (\<lambda>v. json_str v ''url'')"

definition deliver_webhook :: "egress_env \<Rightarrow> egress_target \<Rightarrow> json \<Rightarrow> net \<Rightarrow> (deliver_error, unit) outcome \<times> net" where
  "deliver_webhook env target payload w =
    (case target_url env target of None \<Rightarrow> (Err BadConfig, w)
     | Some url \<Rightarrow>
         (let body = print_json env payload;
              etype = or_default [] (json_str payload ''event'');
              delivery_id = fresh_uuid env (net_trace w);
              signature = (case et_secret target of
                  Some secret \<Rightarrow> if secret \<noteq> [] then Some (''sha256='' @ hmac_sha256_hex env (as_bytes secret) body) else None
                | None \<Rightarrow> None);
              req = \<lparr>wr_url = url, wr_event = etype, wr_delivery = delivery_id, wr_body = body, wr_signature = signature\<rparr>
          in case http_answer env (net_trace w) req of
               None \<Rightarrow> (Err Http, net_do (Posted req) w)
             | Some code \<Rightarrow>
                 (if 200 \<le> code \<and> code < 300 then Ok () else Err (Status code), net_do (Posted req) w)))"

text \<open>Durations are in nanoseconds.\<close>

definition DURATION_MAX :: nat where "DURATION_MAX = 18446744073709551615 * 1000000000 + 999999999"
definition MAX_RETRIES :: nat where "MAX_RETRIES = 3"
definition RETRY_BASE :: nat where "RETRY_BASE = 500 * 1000000"

definition as_millis :: "nat \<Rightarrow> nat" where
  "as_millis d = d div 1000000"

definition jittered :: "egress_env \<Rightarrow> nat \<Rightarrow> net \<Rightarrow> nat" where
  "jittered env base w =
    (let half = as_millis base mod 18446744073709551616 div 2;
         extra = draw env (net_trace w) (max half 1)
     in (half + extra) * 1000000)"

definition saturating_double :: "nat \<Rightarrow> nat" where
  "saturating_double d = min (d * 2) DURATION_MAX"

text \<open>The loop of \<open>deliver_with_retry\<close>.\<close>

function retry_loop :: "egress_env \<Rightarrow> egress_target \<Rightarrow> json \<Rightarrow> nat \<Rightarrow> nat \<Rightarrow> nat \<Rightarrow> net \<Rightarrow>
    (deliver_error, unit) outcome \<times> net" where
  "retry_loop env target payload max_retries backoff attempt w =
    (case deliver_webhook env target payload w of
       (Ok _, w) \<Rightarrow> (Ok (), w\<lparr>delivered_total := delivered_total w + 1\<rparr>)
     | (Panic, w) \<Rightarrow> (Panic, w)
     | (Err e, w) \<Rightarrow>
         if e = BadConfig then (Err BadConfig, w)
         else if max_retries \<le> attempt then (Err e, w\<lparr>failed_total := failed_total w + 1\<rparr>)
         else
           (let w = net_do (Slept (jittered env backoff w)) w in
            retry_loop env target payload max_retries (saturating_double backoff) (attempt + 1) w))"
  by pat_completeness auto

termination
  by (relation "measure (\<lambda>(env, target, payload, max_retries, backoff, attempt, w). max_retries - attempt)") auto

declare retry_loop.simps [simp del]

definition deliver_with_retry :: "egress_env \<Rightarrow> egress_target \<Rightarrow> json \<Rightarrow> nat \<Rightarrow> nat \<Rightarrow> net \<Rightarrow>
    (deliver_error, unit) outcome \<times> net" where
  "deliver_with_retry env target payload max_retries base w = retry_loop env target payload max_retries base 0 w"

section \<open>Fan-out\<close>

text \<open>\<open>RedisTransport::new\<close> and \<open>publish\<close>: the commands that were sent are a step.\<close>

definition deliver_redis :: "egress_env \<Rightarrow> egress_target \<Rightarrow> bytes \<Rightarrow> net \<Rightarrow> (deliver_error, unit) outcome \<times> net" where
  "deliver_redis env target body w =
    (case redis_from_target (map_option (\<lambda>v. (json_str v ''url'', json_str v ''key'', json_str v ''mode''))
        (read_json env (et_config target))) of
       None \<Rightarrow> (Err BadConfig, w)
     | Some cfg \<Rightarrow>
         (case parse_redis_url (read_url env (redis_url cfg)) of
            None \<Rightarrow> (Err BadConfig, w)
          | Some (host, port, password) \<Rightarrow>
              (case redis_answer env (net_trace w) host port of
                 None \<Rightarrow> (Err (TransportError Unreachable), w)
               | Some chunks \<Rightarrow>
                   (let (r, sent) = publish (resp_item_size env) cfg password body chunks
                    in (map_err TransportError r, net_do (Published host port sent) w)))))"

definition is_webhook :: "string \<Rightarrow> bool" where
  "is_webhook k \<longleftrightarrow> k = ''webhook'' \<or> take 8 k = ''webhook:''"

definition deliver_target :: "egress_env \<Rightarrow> json \<Rightarrow> bytes \<Rightarrow> egress_target \<Rightarrow> net \<Rightarrow> (deliver_error, unit) outcome \<times> net" where
  "deliver_target env payload body target w =
    (if is_webhook (et_kind target) then deliver_with_retry env target payload MAX_RETRIES RETRY_BASE w
     else if et_kind target = ''redis'' then deliver_redis env target body w
     else (Ok (), w))"

text \<open>The loop over the targets. A failed delivery is logged; a panic ends the task.\<close>

primrec deliver_targets :: "egress_env \<Rightarrow> string \<Rightarrow> json \<Rightarrow> bytes \<Rightarrow> egress_target list \<Rightarrow> net \<Rightarrow>
    (deliver_error, unit) outcome \<times> net" where
  "deliver_targets env etype payload body [] w = (Ok (), w)"
| "deliver_targets env etype payload body (t # ts) w =
    (if \<not> should_fire t etype then deliver_targets env etype payload body ts w
     else
       (case deliver_target env payload body t w of
          (Panic, w) \<Rightarrow> (Panic, w)
        | (_, w) \<Rightarrow> deliver_targets env etype payload body ts w))"

text \<open>\<open>targets\<close> is what listing them in the store gives.\<close>

definition deliver_event :: "egress_env \<Rightarrow> egress_target list option \<Rightarrow> string \<Rightarrow> json option \<Rightarrow> int \<Rightarrow> net \<Rightarrow>
    (deliver_error, unit) outcome \<times> net" where
  "deliver_event env targets session_id ev ts w =
    (case targets of None \<Rightarrow> (Err StoreError, w)
     | Some targets \<Rightarrow>
         if targets = [] then (Ok (), w)
         else
           (let etype = event_type ev;
                payload = event_to_payload session_id ev ts;
                body = print_json env payload
            in deliver_targets env etype payload body targets w))"

section \<open>The event log\<close>

record event_log_row =
  el_id :: nat
  el_session :: string
  el_ts :: int
  el_type :: string
  el_payload :: bytes

text \<open>The rows, and the id that the next one gets.\<close>

type_synonym event_log = "event_log_row list \<times> nat"

definition event_log_insert :: "string \<Rightarrow> int \<Rightarrow> string \<Rightarrow> bytes \<Rightarrow> event_log \<Rightarrow> event_log" where
  "event_log_insert sid ts etype payload tab =
    (fst tab @ [\<lparr>el_id = snd tab, el_session = sid, el_ts = ts, el_type = etype, el_payload = payload\<rparr>], snd tab + 1)"

definition newest_ids :: "string \<Rightarrow> nat \<Rightarrow> event_log \<Rightarrow> nat list" where
  "newest_ids sid n tab = take n (rev (sort (map el_id (filter (\<lambda>r. el_session r = sid) (fst tab)))))"

definition event_log_prune :: "string \<Rightarrow> nat \<Rightarrow> int \<Rightarrow> event_log \<Rightarrow> event_log" where
  "event_log_prune sid keep_max age_cutoff_ms tab =
    (filter (\<lambda>r. \<not> (el_session r = sid \<and> (el_ts r < age_cutoff_ms \<or> el_id r \<notin> set (newest_ids sid keep_max tab)))) (fst tab),
     snd tab)"

text \<open>Ids start at one; a cursor below zero, which the source's type allows, selects what zero does: nothing.\<close>

definition event_log_list :: "event_log \<Rightarrow> string \<Rightarrow> nat \<Rightarrow> string option \<Rightarrow> nat \<Rightarrow> event_log_row list" where
  "event_log_list tab sid before_id type_filter limit =
    take limit (rev (sort_key el_id (filter (\<lambda>r. el_session r = sid \<and> el_id r < before_id \<and>
      (case type_filter of None \<Rightarrow> True | Some t \<Rightarrow> el_type r = t)) (fst tab))))"

section \<open>The worker\<close>

definition LOG_KEEP_MAX :: nat where "LOG_KEEP_MAX = 5000"
definition LOG_MAX_AGE_MS :: int where "LOG_MAX_AGE_MS = 14 * 24 * 60 * 60 * 1000"
definition PRUNE_EVERY :: nat where "PRUNE_EVERY = 256"

text \<open>What the receiver gives, with the time, whether the two statements on the log succeed, and the targets. A
  panic ends the task, and no other is ever spawned for the session.\<close>

datatype worker_input = Event "json option" int bool bool "egress_target list option" | Lagged nat

definition worker_step :: "egress_env \<Rightarrow> string \<Rightarrow> worker_input \<Rightarrow> nat \<times> event_log \<times> net \<Rightarrow> (nat \<times> event_log \<times> net) option" where
  "worker_step env sid i s =
    (case i of
       Lagged n \<Rightarrow> Some s
     | Event ev now insert_ok prune_ok targets \<Rightarrow>
         (let (since_prune, tab, w) = s;
              ts_ms = now * 1000;
              etype = event_type ev;
              payload = event_to_sse_json env ev;
              (since_prune, tab) =
                (if \<not> insert_ok then (since_prune, tab)
                 else
                   (let tab = event_log_insert sid ts_ms etype payload tab;
                        since_prune = since_prune + 1
                    in if PRUNE_EVERY \<le> since_prune then
                         (0, if prune_ok then event_log_prune sid LOG_KEEP_MAX (ts_ms - LOG_MAX_AGE_MS) tab else tab)
                       else (since_prune, tab)))
          in case deliver_event env targets sid ev now w of
               (Panic, w) \<Rightarrow> None
             | (_, w) \<Rightarrow> Some (since_prune, tab, w)))"

primrec worker_run :: "egress_env \<Rightarrow> string \<Rightarrow> worker_input list \<Rightarrow> nat \<times> event_log \<times> net \<Rightarrow> (nat \<times> event_log \<times> net) option" where
  "worker_run env sid [] s = Some s"
| "worker_run env sid (i # is) s = Option.bind (worker_step env sid i s) (worker_run env sid is)"

end
