(* ===== verification/Resp_Delivery.thy ===== *)
theory Resp_Delivery
  imports Resp
begin

text \<open>
  The Redis transport delivers: the parser of replies does not depend on how the stream is cut and undoes
  the server's encoding, a command is read back as its arguments, and publishing sends a command only
  after the one before it was taken.
\<close>


section \<open>More bytes do not change an answer\<close>

lemma crlf_position_bound: "crlf_position xs = Some i \<Longrightarrow> i + 2 \<le> length xs"
  by (induction xs arbitrary: i rule: crlf_position.induct) (auto split: if_splits)

lemma crlf_position_append: "crlf_position xs = Some i \<Longrightarrow> crlf_position (xs @ ys) = Some i"
  by (induction xs arbitrary: i rule: crlf_position.induct) (auto split: if_splits)

lemma resp_line_extends:
  assumes "resp_line buf pos = Ok (line, nxt)"
  shows "resp_line (buf @ zs) pos = Ok (line, nxt) \<and> pos + 2 \<le> nxt \<and> nxt \<le> length buf"
proof -
  obtain i where i: "crlf_position (drop pos buf) = Some i" "pos \<le> length buf" "line = take i (drop pos buf)" "nxt = pos + i + 2"
    using assms by (auto simp: resp_line_def Let_def split: if_splits option.splits)
  note b = crlf_position_bound [OF i(1)] crlf_position_append [OF i(1), of zs]
  then show ?thesis using i by (simp add: resp_line_def Let_def)
qed

lemma resp_line_cases: "(\<exists>line nxt. resp_line buf pos = Ok (line, nxt)) \<or> resp_line buf pos = Err Incomplete"
  by (auto simp: resp_line_def Let_def split: option.splits)

text \<open>A reader that answers \<open>r\<close> at a position keeps to it when the buffer grows, and a value ends inside the
  buffer.\<close>

definition settled :: "nat \<Rightarrow> nat \<Rightarrow> (resp_error, 'a \<times> nat) outcome \<Rightarrow> (resp_error, 'a \<times> nat) outcome \<Rightarrow> bool" where
  "settled l p r r' \<longleftrightarrow> r \<noteq> Err Incomplete \<longrightarrow> r' = r \<and> (\<forall>v np. r = Ok (v, np) \<longrightarrow> p < np \<and> np \<le> l)"

lemma resp_items_settled:
  assumes "\<And>p. p0 \<le> p \<Longrightarrow> settled l p (item p) (item' p)"
  shows "p0 \<le> p \<Longrightarrow> resp_items item n p \<noteq> Err Incomplete \<Longrightarrow>
    resp_items item' n p = resp_items item n p \<and>
    (\<forall>vs q. resp_items item n p = Ok (vs, q) \<longrightarrow> p \<le> q \<and> q \<le> max p l)"
proof (induction n arbitrary: p)
  case (Suc n)
  have i: "item p \<noteq> Err Incomplete" using Suc.prems(2) by auto
  have s: "item' p = item p" "\<And>v np. item p = Ok (v, np) \<Longrightarrow> p < np \<and> np \<le> l"
    using assms [OF Suc.prems(1)] i by (auto simp: settled_def)
  show ?case
  proof (cases "item p")
    case (Ok r)
    obtain v np where r: "r = (v, np)" by force
    with Ok s(2) have np: "p < np" "np \<le> l" by auto
    have "resp_items item n np \<noteq> Err Incomplete" using Suc.prems(2) Ok r by auto
    from Suc.IH [OF _ this] np Suc.prems(1) have
      "resp_items item' n np = resp_items item n np"
      "\<And>vs q. resp_items item n np = Ok (vs, q) \<Longrightarrow> np \<le> q \<and> q \<le> max np l" by auto
    then show ?thesis using Ok r s(1) np
      by (cases "resp_items item n np") fastforce+
  qed (use s in auto)
qed simp

lemma resp_parse_settled:
  "length buf - pos < depth \<Longrightarrow> depth \<le> depth' \<Longrightarrow>
    settled (length buf) pos (resp_parse_depth sz depth buf pos) (resp_parse_depth sz depth' (buf @ zs) pos)"
proof (induction depth arbitrary: pos depth')
  case (Suc d)
  obtain d' where d': "depth' = Suc d'" "d \<le> d'" using Suc.prems(2) by (cases depth') auto
  show ?case
  proof (cases "length buf \<le> pos")
    case True
    then show ?thesis by (simp add: settled_def)
  next
    case False
    show ?thesis
    proof (cases "resp_line buf (pos + 1)")
      case (Ok l)
      obtain line nxt where l: "l = (line, nxt)" by force
      from resp_line_extends [OF Ok [unfolded l], of zs] have
        n: "resp_line (buf @ zs) (pos + 1) = Ok (line, nxt)" "pos + 3 \<le> nxt" "nxt \<le> length buf" by simp_all
      have i: "settled (length buf) p (resp_parse_depth sz d buf p) (resp_parse_depth sz d' (buf @ zs) p)" if "nxt \<le> p" for p
        by (rule Suc.IH) (use Suc.prems(1) that n False d' in auto)
      have bulk: "slice (buf @ zs) nxt (nxt + k) = slice buf nxt (nxt + k)" if "nxt + k + 2 \<le> length buf" for k
        using that by (simp add: slice_def)
      have kind: "(buf @ zs) ! pos = buf ! pos" using False by (simp add: nth_append)
      have bulk_ok: "slice buf nxt (nxt + k) = Ok (take k (drop nxt buf))" if "nxt + k + 2 \<le> length buf" for k
        using that by (simp add: slice_def)
      show ?thesis
      proof (cases "buf ! pos = 0x2A \<and> (\<exists>c. resp_int line = Ok c \<and> 0 \<le> c \<and> nat c * sz \<le> 9223372036854775807)")
        case True
        then obtain c where c: "buf ! pos = 0x2A" "resp_int line = Ok c" "0 \<le> c" "\<not> 9223372036854775807 < nat c * sz" by auto
        note it = resp_items_settled [of nxt "length buf" "resp_parse_depth sz d buf" "resp_parse_depth sz d' (buf @ zs)", OF i, OF _ order.refl, of "nat c"]
        show ?thesis
        proof (cases "resp_items (resp_parse_depth sz d buf) (nat c) nxt = Err Incomplete")
          case True
          then show ?thesis using c False Ok l by (simp add: settled_def)
        next
          case ne: False
          with it [OF _ ne] have "resp_items (resp_parse_depth sz d' (buf @ zs)) (nat c) nxt = resp_items (resp_parse_depth sz d buf) (nat c) nxt"
            "\<forall>vs q. resp_items (resp_parse_depth sz d buf) (nat c) nxt = Ok (vs, q) \<longrightarrow> nxt \<le> q \<and> q \<le> length buf"
            using n by auto
          then show ?thesis using c False Ok l n kind d'
            by (cases "resp_items (resp_parse_depth sz d buf) (nat c) nxt") (auto simp: settled_def)
        qed
      next
        case other: False
        then show ?thesis using False Ok l n kind d'
          by (cases "resp_int line") (auto simp: settled_def Let_def not_less bulk bulk_ok)
      qed
    next
      case (Err e)
      then show ?thesis using resp_line_cases [of buf "pos + 1"] False by (auto simp: settled_def)
    next
      case Panic
      then show ?thesis using resp_line_cases [of buf "pos + 1"] by auto
    qed
  qed
qed simp

lemma parse_reply_settled: "settled (length buf) 0 (parse_reply sz buf) (parse_reply sz (buf @ zs))"
  unfolding parse_reply_def by (rule resp_parse_settled) auto


section \<open>Replies on the wire\<close>

fun resp_bytes :: "resp_value \<Rightarrow> bytes" where
  "resp_bytes (Simple s) = 0x2B # as_bytes s @ crlf"
| "resp_bytes (ErrorReply s) = 0x2D # as_bytes s @ crlf"
| "resp_bytes (Integer i) = 0x3A # as_bytes (show_int i) @ crlf"
| "resp_bytes (Bulk None) = 0x24 # as_bytes ''-1'' @ crlf"
| "resp_bytes (Bulk (Some d)) = 0x24 # as_bytes (show_nat (length d)) @ crlf @ d @ crlf"
| "resp_bytes (Array None) = 0x2A # as_bytes ''-1'' @ crlf"
| "resp_bytes (Array (Some vs)) = 0x2A # as_bytes (show_nat (length vs)) @ crlf @ concat (map resp_bytes vs)"

text \<open>The values that can be sent: lines without a carriage return, numbers and lengths in range.\<close>

fun resp_ok :: "nat \<Rightarrow> resp_value \<Rightarrow> bool" where
  "resp_ok sz (Simple s) = (rust_string s \<and> CHR 0x0D \<notin> set s)"
| "resp_ok sz (ErrorReply s) = (rust_string s \<and> CHR 0x0D \<notin> set s)"
| "resp_ok sz (Integer i) = (- 9223372036854775808 \<le> i \<and> i \<le> 9223372036854775807)"
| "resp_ok sz (Bulk None) = True"
| "resp_ok sz (Bulk (Some d)) = (length d \<le> 9223372036854775807)"
| "resp_ok sz (Array None) = True"
| "resp_ok sz (Array (Some vs)) =
    (length vs \<le> 9223372036854775807 \<and> length vs * sz \<le> 9223372036854775807 \<and> list_all (resp_ok sz) vs)"

lemma crlf_position_line: "0x0D \<notin> set xs \<Longrightarrow> crlf_position (xs @ 0x0D # 0x0A # ys) = Some (length xs)"
proof (induction xs)
  case (Cons x xs)
  then show ?case by (cases xs) auto
qed simp

lemma resp_line_at:
  assumes "0x0D \<notin> set line"
  shows "resp_line (pre @ line @ crlf @ rest) (length pre) = Ok (line, length pre + length line + 2)"
  using crlf_position_line [OF assms, of rest] by (simp add: resp_line_def crlf_def)

lemma resp_line_kind:
  assumes "0x0D \<notin> set line"
  shows "resp_line (pre @ k # line @ crlf @ rest) (Suc (length pre)) = Ok (line, length pre + length line + 3)"
  using resp_line_at [OF assms, of "pre @ [k]" rest] by simp

lemma as_bytes_no_cr: "CHR 0x0D \<notin> set s \<Longrightarrow> 0x0D \<notin> set (as_bytes s)"
proof -
  assume a: "CHR 0x0D \<notin> set s"
  have "byte_of CHR 0x0D = 0x0D" by (simp add: byte_of_def)
  then show ?thesis using a by (auto simp: as_bytes_def)
qed

lemma digits_no_cr: "list_all is_ascii_digit s \<Longrightarrow> CHR 0x0D \<notin> set s"
  by (auto simp: list_all_iff is_ascii_digit_def)

lemma digits_ascii: "list_all is_ascii_digit s \<Longrightarrow> list_all ascii_char s \<and> list_all plain_char s"
  by (auto simp: list_all_iff is_ascii_digit_def ascii_char_def plain_char_def word_less_nat_alt unat_byte_of)

lemma show_int_chars: "list_all (\<lambda>c. is_ascii_digit c \<or> c = CHR ''-'') (show_int i)"
  using show_nat_digits by (auto simp: show_int_def list_all_iff)

lemma show_int_plain: "rust_string (show_int i) \<and> list_all plain_char (show_int i) \<and> CHR 0x0D \<notin> set (show_int i)"
proof -
  have "ascii_char c \<and> plain_char c \<and> c \<noteq> CHR 0x0D" if "is_ascii_digit c \<or> c = CHR ''-''" for c
    using that by (auto simp: is_ascii_digit_def ascii_char_def plain_char_def word_less_nat_alt unat_byte_of)
  then show ?thesis using show_int_chars [of i] rust_string_ascii [of "show_int i"] by (auto simp: list_all_iff)
qed

lemma parse_i64_show_int:
  assumes "- 9223372036854775808 \<le> i" "i \<le> 9223372036854775807"
  shows "parse_i64 (show_int i) = Some i"
proof (cases "i < 0")
  case True
  then have "nat (- i) \<le> 9223372036854775808" using assms by linarith
  then show ?thesis using True show_nat_digits [of "nat (- i)"] by (simp add: parse_i64_def show_int_def)
next
  case False
  obtain c r where cr: "show_nat (nat i) = c # r" by (metis neq_Nil_conv show_nat_not_Nil)
  have "c \<noteq> CHR ''-''" using show_nat_digits [of "nat i"] by (auto simp: cr is_ascii_digit_def)
  moreover have "parse_uint 9223372036854775807 (show_nat (nat i)) = Some (nat i)"
    using assms False by (intro parse_uint_show_nat) linarith
  ultimately show ?thesis using False by (simp add: parse_i64_def show_int_def cr)
qed

lemma resp_int_show_int:
  assumes "- 9223372036854775808 \<le> i" "i \<le> 9223372036854775807"
  shows "resp_int (as_bytes (show_int i)) = Ok i"
  using show_int_plain [of i] parse_i64_show_int [OF assms]
  by (simp add: resp_int_def from_utf8_as_bytes trim_plain)

lemma show_int_nat: "show_int (int n) = show_nat n"
  by (simp add: show_int_def)

lemma resp_int_show_nat: "n \<le> 9223372036854775807 \<Longrightarrow> resp_int (as_bytes (show_nat n)) = Ok (int n)"
  using resp_int_show_int [of "int n"] by (simp add: show_int_nat)

lemma show_nat_no_cr: "0x0D \<notin> set (as_bytes (show_nat n))"
  by (rule as_bytes_no_cr, rule digits_no_cr, rule show_nat_digits)

lemma show_int_minus_one: "show_int (- 1) = ''-1''"
  by code_simp

lemma resp_bytes_not_Nil: "resp_bytes v \<noteq> []"
  by (cases v rule: resp_bytes.cases) simp_all

lemma resp_items_bytes:
  assumes "\<And>v pre rest. v \<in> set vs \<Longrightarrow> buf = pre @ resp_bytes v @ rest \<Longrightarrow> item (length pre) = Ok (v, length pre + length (resp_bytes v))"
  shows "buf = pre @ concat (map resp_bytes vs) @ rest \<Longrightarrow>
    resp_items item (length vs) (length pre) = Ok (vs, length pre + length (concat (map resp_bytes vs)))"
  using assms
proof (induction vs arbitrary: pre)
  case (Cons v vs)
  have "item (length pre) = Ok (v, length pre + length (resp_bytes v))"
    by (rule Cons.prems(2)) (use Cons.prems(1) in auto)
  moreover have "resp_items item (length vs) (length (pre @ resp_bytes v)) =
      Ok (vs, length (pre @ resp_bytes v) + length (concat (map resp_bytes vs)))"
    by (rule Cons.IH) (use Cons.prems in auto)
  ultimately show ?case by simp
qed simp

lemma resp_parse_bytes:
  "resp_ok sz v \<Longrightarrow> length (resp_bytes v) \<le> depth \<Longrightarrow> buf = pre @ resp_bytes v @ rest \<Longrightarrow>
    resp_parse_depth sz depth buf (length pre) = Ok (v, length pre + length (resp_bytes v))"
proof (induction v arbitrary: depth pre rest rule: resp_bytes.induct)
  case (1 s)
  then obtain d where "depth = Suc d" by (cases depth) auto
  with 1 resp_line_kind [OF as_bytes_no_cr, of s pre "0x2B" rest] show ?case
    by (simp add: from_utf8_lossy_as_bytes crlf_def)
next
  case (2 s)
  then obtain d where "depth = Suc d" by (cases depth) auto
  with 2 resp_line_kind [OF as_bytes_no_cr, of s pre "0x2D" rest] show ?case
    by (simp add: from_utf8_lossy_as_bytes crlf_def)
next
  case (3 i)
  then obtain d where "depth = Suc d" by (cases depth) auto
  with 3 resp_line_kind [OF as_bytes_no_cr, of "show_int i" pre "0x3A" rest] show_int_plain [of i] resp_int_show_int [of i]
  show ?case by (simp add: crlf_def)
next
  case 4
  then obtain d where "depth = Suc d" by (cases depth) auto
  with 4 resp_line_kind [OF as_bytes_no_cr, of "show_int (- 1)" pre "0x24" rest] show_int_plain [of "- 1"] resp_int_show_int [of "- 1"]
  show ?case by (simp add: crlf_def show_int_minus_one)
next
  case (5 x)
  then obtain d where d: "depth = Suc d" by (cases depth) auto
  let ?n = "as_bytes (show_nat (length x))"
  let ?pre = "pre @ 0x24 # ?n @ crlf"
  have l: "resp_line buf (Suc (length pre)) = Ok (?n, length ?pre)"
    using resp_line_kind [OF show_nat_no_cr, of pre "0x24" "length x" "x @ crlf @ rest"] 5 by (simp add: crlf_def)
  have b: "buf = ?pre @ x @ crlf @ rest" using 5 by simp
  have s: "slice buf (length ?pre) (length ?pre + length x) = (Ok x :: (resp_error, bytes) outcome)"
    unfolding b by (rule slice_append)
  have k: "buf ! length pre = 0x24" "length pre < length buf" "\<not> length buf < length ?pre + length x + 2"
    unfolding b by (simp_all add: crlf_def)
  have i: "resp_int ?n = Ok (int (length x))" using 5 by (intro resp_int_show_nat) simp
  have e: "length pre + length (resp_bytes (Bulk (Some x))) = length ?pre + length x + 2" by (simp add: crlf_def)
  show ?case unfolding d resp_parse_depth.simps e using l s k i by (simp add: not_le Let_def del: length_append)
next
  case 6
  then obtain d where "depth = Suc d" by (cases depth) auto
  with 6 resp_line_kind [OF as_bytes_no_cr, of "show_int (- 1)" pre "0x2A" rest] show_int_plain [of "- 1"] resp_int_show_int [of "- 1"]
  show ?case by (simp add: crlf_def show_int_minus_one)
next
  case (7 vs)
  then obtain d where d: "depth = Suc d" by (cases depth) auto
  let ?n = "as_bytes (show_nat (length vs))" and ?b = "concat (map resp_bytes vs)"
  let ?pre = "pre @ 0x2A # ?n @ crlf"
  have l: "resp_line buf (Suc (length pre)) = Ok (?n, length ?pre)"
    using resp_line_kind [OF show_nat_no_cr, of pre "0x2A" "length vs" "?b @ rest"] 7 by (simp add: crlf_def)
  have i: "resp_items (resp_parse_depth sz d buf) (length vs) (length ?pre) = Ok (vs, length ?pre + length ?b)"
  proof (rule resp_items_bytes)
    show "buf = ?pre @ ?b @ rest" using 7 by simp
    fix v p r assume v: "v \<in> set vs" and b: "buf = p @ resp_bytes v @ r"
    have "length (resp_bytes v) \<le> length ?b" using v by (auto simp: length_concat intro: member_le_sum_list)
    then have "length (resp_bytes v) \<le> d" using 7 d by (simp add: crlf_def)
    moreover have "resp_ok sz v" using 7 v by (simp add: list_all_iff)
    ultimately show "resp_parse_depth sz d buf (length p) = Ok (v, length p + length (resp_bytes v))"
      by (rule "7.IH" [OF v _ _ b, rotated])
  qed
  have k: "buf ! length pre = 0x2A" "length pre < length buf" using 7 by simp_all
  show ?case using 7 l i k resp_int_show_nat [of "length vs"] by (simp add: d crlf_def)
qed


definition resp_step :: "nat \<Rightarrow> bytes \<Rightarrow> (resp_value \<times> bytes) option" where
  "resp_step sz b = (case parse_reply sz b of Ok (v, n) \<Rightarrow> Some (v, drop n b) | _ \<Rightarrow> None)"

lemma parse_reply_bytes: "resp_ok sz v \<Longrightarrow> parse_reply sz (resp_bytes v @ rest) = Ok (v, length (resp_bytes v))"
  using resp_parse_bytes [of sz v "Suc (length (resp_bytes v @ rest))" "resp_bytes v @ rest" "[]" rest]
  by (simp add: parse_reply_def)

text \<open>The reader of replies is a decoder of a chunked stream, and undoes the server's encoding.\<close>

interpretation resp: framed "resp_step sz" resp_bytes "resp_ok sz" for sz
proof
  fix b r c :: bytes and x
  assume s: "resp_step sz b = Some (x, r)"
  then obtain n where n: "parse_reply sz b = Ok (x, n)" "r = drop n b"
    by (auto simp: resp_step_def split: outcome.splits prod.splits)
  from parse_reply_settled [of b sz c] n(1) have
    e: "parse_reply sz (b @ c) = Ok (x, n)" "0 < n" "n \<le> length b" by (auto simp: settled_def)
  show "\<exists>p. b = p @ r \<and> p \<noteq> []" using e n(2) by (intro exI [of _ "take n b"]) auto
  show "resp_step sz (b @ c) = Some (x, r @ c)" using e n(2) by (simp add: resp_step_def)
qed (simp add: resp_step_def parse_reply_bytes)

lemma read_one_reply_frame:
  "resp_ok sz v \<Longrightarrow> buf @ concat chunks = resp_bytes v @ rest \<Longrightarrow> [] \<notin> set chunks \<Longrightarrow>
    \<exists>chunks' buf'. read_one_reply sz chunks buf = (Ok v, chunks', buf') \<and> buf' @ concat chunks' = rest \<and> [] \<notin> set chunks'"
proof (induction chunks arbitrary: buf)
  case Nil
  then show ?case by (simp add: parse_reply_bytes)
next
  case (Cons c cs)
  have "c \<noteq> []" "[] \<notin> set cs" using Cons.prems(3) by auto
  note ne = this
  have whole: "parse_reply sz (buf @ concat (c # cs)) = Ok (v, length (resp_bytes v))"
    unfolding Cons.prems(2) by (rule parse_reply_bytes [OF Cons.prems(1)])
  show ?case
  proof (cases "parse_reply sz buf = Err Incomplete")
    case True
    then show ?thesis using Cons.IH [of "buf @ c"] Cons.prems(1,2) ne by simp
  next
    case False
    with parse_reply_settled [of buf sz "concat (c # cs)"] whole have
      p: "parse_reply sz buf = Ok (v, length (resp_bytes v))" and l: "length (resp_bytes v) \<le> length buf"
      by (auto simp: settled_def)
    have "drop (length (resp_bytes v)) (buf @ concat (c # cs)) = rest" unfolding Cons.prems(2) by simp
    then show ?thesis using p l ne by auto
  qed
qed

section \<open>What publishing does\<close>

text \<open>The command after each reply, until one is refused.\<close>

fun acknowledged :: "bytes list \<Rightarrow> resp_value list \<Rightarrow> (transport_error, unit) outcome \<times> bytes list" where
  "acknowledged (cmd # cmds) (v # vs) =
    (case v of ErrorReply e \<Rightarrow> (Err (Refused e), [cmd])
     | _ \<Rightarrow> (let (r, sent) = acknowledged cmds vs in (r, cmd # sent)))"
| "acknowledged cmds vs = (Ok (), [])"

lemma publish_commands_acknowledged:
  "list_all (resp_ok sz) vs \<Longrightarrow> length cmds \<le> length vs \<Longrightarrow> buf @ concat chunks = concat (map resp_bytes vs) @ rest \<Longrightarrow>
    [] \<notin> set chunks \<Longrightarrow> publish_commands sz cmds chunks buf = acknowledged cmds vs"
proof (induction cmds vs arbitrary: buf chunks rule: acknowledged.induct)
  case (1 cmd cmds v vs)
  obtain chunks' buf' where r: "read_one_reply sz chunks buf = (Ok v, chunks', buf')"
    and b: "buf' @ concat chunks' = concat (map resp_bytes vs) @ rest" "[] \<notin> set chunks'"
    using read_one_reply_frame [of sz v buf chunks "concat (map resp_bytes vs) @ rest"] 1 by auto
  have ok: "list_all (resp_ok sz) vs" "length cmds \<le> length vs" using "1.prems" by auto
  show ?case
  proof (cases v)
    case (ErrorReply e)
    then show ?thesis using r by simp
  next
    case (Simple s)
    then show ?thesis using r "1.IH"(1) [OF Simple ok b] by simp
  next
    case (Integer i)
    then show ?thesis using r "1.IH"(2) [OF Integer ok b] by simp
  next
    case (Bulk d)
    then show ?thesis using r "1.IH"(3) [OF Bulk ok b] by simp
  next
    case (Array d)
    then show ?thesis using r "1.IH"(4) [OF Array ok b] by simp
  qed
qed auto

text \<open>C27: publishing to Redis. However the network cuts the server's replies, each command is sent only when
  the one before it has been answered by a reply that is not an error; the first error reply ends
  the delivery with its text. So a body is never sent on a connection that refused the password, and
  a delivery is reported done only when the server took the body.\<close>

theorem publish_any_cut:
  assumes "list_all (resp_ok sz) replies" "length (redis_publish_commands cfg password body) \<le> length replies"
    and "concat chunks = concat (map resp_bytes replies) @ rest" "[] \<notin> set chunks"
  shows "publish sz cfg password body chunks = acknowledged (redis_publish_commands cfg password body) replies"
  unfolding publish_def by (rule publish_commands_acknowledged [OF assms(1,2) _ assms(4)]) (simp add: assms(3))

text \<open>A refused password, in two pieces.\<close>

theorem publish_any_cut_witness:
  "publish 24 \<lparr>redis_url = [], redis_mode = PubSub, redis_key = ''k''\<rparr> (Some ''pw'') [1, 2]
    [as_bytes ''-ERR inv'', as_bytes ''alid'' @ crlf @ as_bytes ''+OK'' @ crlf] =
   (Err (Refused ''ERR invalid''), [encode_command [as_bytes ''AUTH'', as_bytes ''pw'']])"
proof -
  let ?cfg = "\<lparr>redis_url = [], redis_mode = PubSub, redis_key = ''k''\<rparr>"
  let ?rs = "[ErrorReply ''ERR invalid'', Simple ''OK'']"
  have "list_all (resp_ok 24) ?rs"
    by (simp add: rust_string_ascii ascii_char_def)
  moreover have "length (redis_publish_commands ?cfg (Some ''pw'') [1, 2]) \<le> length ?rs"
    by (simp add: redis_publish_commands_def Let_def)
  moreover have "concat [as_bytes ''-ERR inv'', as_bytes ''alid'' @ crlf @ as_bytes ''+OK'' @ crlf] = concat (map resp_bytes ?rs) @ []"
    by (simp add: byte_of_def)
  moreover have "[] \<notin> set [as_bytes ''-ERR inv'', as_bytes ''alid'' @ crlf @ as_bytes ''+OK'' @ crlf]" by simp
  ultimately show ?thesis
    using publish_any_cut [of 24 ?rs ?cfg "Some ''pw''" "[1, 2]" "[as_bytes ''-ERR inv'', as_bytes ''alid'' @ crlf @ as_bytes ''+OK'' @ crlf]" "[]"]
    by (simp add: redis_publish_commands_def Let_def)
qed

section \<open>Commands\<close>

lemma encode_command_bytes: "encode_command args = resp_bytes (Array (Some (map (\<lambda>a. Bulk (Some a)) args)))"
proof -
  have "fold (\<lambda>a out. out @ as_bytes (''$'' @ show_nat (length a)) @ crlf @ a @ crlf) args out =
      out @ concat (map (\<lambda>a. resp_bytes (Bulk (Some a))) args)" for out
    by (induction args arbitrary: out) (simp_all add: byte_of_def)
  then show ?thesis by (simp add: encode_command_def byte_of_def comp_def Let_def del: resp_bytes.simps(5))
qed

text \<open>A command is read back by the parser as the array of its arguments, whatever bytes they hold
  and whatever follows, and no proper prefix of it is taken for a reply.\<close>

theorem encode_command_roundtrip:
  assumes "list_all (\<lambda>a. length a \<le> 9223372036854775807) args" "length args * sz \<le> 9223372036854775807"
    "length args \<le> 9223372036854775807"
  shows "parse_reply sz (encode_command args @ rest) =
      Ok (Array (Some (map (\<lambda>a. Bulk (Some a)) args)), length (encode_command args)) \<and>
    (\<forall>p q. encode_command args = p @ q \<and> q \<noteq> [] \<longrightarrow> parse_reply sz p = Err Incomplete)"
proof
  have ok: "resp_ok sz (Array (Some (map (\<lambda>a. Bulk (Some a)) args)))" using assms by (simp add: list_all_iff)
  note p = parse_reply_bytes [OF ok, folded encode_command_bytes]
  show "parse_reply sz (encode_command args @ rest) =
      Ok (Array (Some (map (\<lambda>a. Bulk (Some a)) args)), length (encode_command args))" by (rule p)
  show "\<forall>p q. encode_command args = p @ q \<and> q \<noteq> [] \<longrightarrow> parse_reply sz p = Err Incomplete"
  proof (intro allI impI)
    fix x y assume e: "encode_command args = x @ y \<and> y \<noteq> []"
    show "parse_reply sz x = Err Incomplete"
    proof (rule ccontr)
      assume "parse_reply sz x \<noteq> Err Incomplete"
      with parse_reply_settled [of x sz y] p [of "[]"] e have "length (encode_command args) \<le> length x"
        by (auto simp: settled_def)
      with e show False by simp
    qed
  qed
qed

theorem encode_command_roundtrip_witness:
  "parse_reply 24 (encode_command [as_bytes ''RPUSH'', as_bytes ''q'', [0, 13, 10]] @ [7]) =
    Ok (Array (Some [Bulk (Some (as_bytes ''RPUSH'')), Bulk (Some (as_bytes ''q'')), Bulk (Some [0, 13, 10])]),
      length (encode_command [as_bytes ''RPUSH'', as_bytes ''q'', [0, 13, 10]]))"
  using encode_command_roundtrip [of "[as_bytes ''RPUSH'', as_bytes ''q'', [0, 13, 10]]" 24 "[7]"] by simp

text \<open>The count of an array is trusted: one large enough makes the allocation panic.\<close>

lemma array_count_panics:
  assumes "2 \<le> sz"
  shows "parse_reply sz (0x2A # as_bytes (show_nat 9223372036854775807) @ crlf) = Panic"
proof -
  let ?n = "as_bytes (show_nat 9223372036854775807)"
  have "resp_line (0x2A # ?n @ crlf) 1 = Ok (?n, length ?n + 3)"
    using resp_line_kind [OF show_nat_no_cr, of "[]" "0x2A" 9223372036854775807 "[]"] by simp
  moreover have "resp_int ?n = Ok 9223372036854775807" using resp_int_show_nat [of 9223372036854775807] by simp
  moreover have "9223372036854775807 < 9223372036854775807 * sz" using assms by simp
  ultimately show ?thesis by (simp add: parse_reply_def)
qed

end
