(* ===== verification/Egress_Delivery.thy ===== *)
theory Egress_Delivery
  imports Egress Resp_Delivery
begin

text \<open>
  Events get out: what a webhook delivery does attempt by attempt, that the fan-out reaches every target
  whatever the others answer, that the log of events stays bounded and can be read page by page, and
  one way in which a Redis server can stop it all.
\<close>


section \<open>Attempts\<close>

text \<open>The request that a webhook gets in an attempt with this id.\<close>

definition webhook_request_of :: "egress_env \<Rightarrow> egress_target \<Rightarrow> json \<Rightarrow> string \<Rightarrow> string \<Rightarrow> webhook_request" where
  "webhook_request_of env t payload url i =
    \<lparr>wr_url = url, wr_event = or_default [] (json_str payload ''event''), wr_delivery = i, wr_body = print_json env payload,
     wr_signature = (case et_secret t of
         Some secret \<Rightarrow> if secret \<noteq> [] then Some (''sha256='' @ hmac_sha256_hex env (as_bytes secret) (print_json env payload)) else None
       | None \<Rightarrow> None)\<rparr>"

definition accepted :: "egress_env \<Rightarrow> net_step list \<Rightarrow> webhook_request \<Rightarrow> bool" where
  "accepted env tr q \<longleftrightarrow> (case http_answer env tr q of Some code \<Rightarrow> 200 \<le> code \<and> code < 300 | None \<Rightarrow> False)"

text \<open>Failed attempts with the pauses after them, starting with a backoff: requests differ in their id only, and
  a pause is between half of the backoff and the whole of it.\<close>

primrec failed_attempts :: "egress_env \<Rightarrow> (string \<Rightarrow> webhook_request) \<Rightarrow> nat \<Rightarrow> net_step list \<Rightarrow> net_step list \<Rightarrow> nat \<Rightarrow> bool" where
  "failed_attempts env rq backoff tr new 0 = (new = [])"
| "failed_attempts env rq backoff tr new (Suc n) =
    (\<exists>i d rest. new = Posted (rq i) # Slept d # rest \<and> \<not> accepted env tr (rq i) \<and>
      (let half = as_millis backoff mod 18446744073709551616 div 2 in
       half * 1000000 \<le> d \<and> d \<le> (half + max half 1) * 1000000) \<and>
      failed_attempts env rq (saturating_double backoff) (tr @ [Posted (rq i), Slept d]) rest n)"

lemma net_do_simps [simp]:
  "net_trace (net_do s w) = net_trace w @ [s]" "delivered_total (net_do s w) = delivered_total w"
  "failed_total (net_do s w) = failed_total w"
  by (simp_all add: net_do_def)

lemma deliver_webhook_cases:
  assumes "target_url env t = Some url"
  shows "\<exists>i r. deliver_webhook env t payload w = (r, net_do (Posted (webhook_request_of env t payload url i)) w) \<and>
    r \<noteq> Panic \<and> r \<noteq> Err BadConfig \<and> (r = Ok () \<longleftrightarrow> accepted env (net_trace w) (webhook_request_of env t payload url i))"
  using assms
  by (intro exI [of _ "fresh_uuid env (net_trace w)"])
    (auto simp: deliver_webhook_def webhook_request_of_def accepted_def Let_def split: option.splits)

lemma retry_loop_attempts:
  assumes "target_url env t = Some url" "\<And>tr n. draw env tr n \<le> n"
  shows "attempt \<le> max_retries \<Longrightarrow> \<exists>r w' n new i. retry_loop env t payload max_retries backoff attempt w = (r, w') \<and>
    r \<noteq> Panic \<and> r \<noteq> Err BadConfig \<and>
    net_trace w' = net_trace w @ new @ [Posted (webhook_request_of env t payload url i)] \<and>
    failed_attempts env (webhook_request_of env t payload url) backoff (net_trace w) new n \<and>
    n \<le> max_retries - attempt \<and>
    (r = Ok () \<longleftrightarrow> accepted env (net_trace w @ new) (webhook_request_of env t payload url i)) \<and>
    (r = Ok () \<or> n = max_retries - attempt) \<and>
    delivered_total w' = delivered_total w + of_bool (r = Ok ()) \<and> failed_total w' = failed_total w + of_bool (r \<noteq> Ok ())"
proof (induction "max_retries - attempt" arbitrary: attempt backoff w)
  case (0 attempt backoff w)
  obtain i r where d: "deliver_webhook env t payload w = (r, net_do (Posted (webhook_request_of env t payload url i)) w)"
    "r \<noteq> Panic" "r \<noteq> Err BadConfig" "r = Ok () \<longleftrightarrow> accepted env (net_trace w) (webhook_request_of env t payload url i)"
    using deliver_webhook_cases [OF assms(1)] by blast
  show ?case
    by (rule exI [of _ r], rule exI [of _ "snd (retry_loop env t payload max_retries backoff attempt w)"], rule exI [of _ 0], rule exI [of _ "[]"], rule exI [of _ i])
      (use d 0 in \<open>cases r; simp add: retry_loop.simps [of env t payload _ backoff attempt w]\<close>)
next
  case (Suc k attempt backoff w)
  let ?rq = "webhook_request_of env t payload url"
  obtain i r where d: "deliver_webhook env t payload w = (r, net_do (Posted (?rq i)) w)"
    "r \<noteq> Panic" "r \<noteq> Err BadConfig" "r = Ok () \<longleftrightarrow> accepted env (net_trace w) (?rq i)"
    using deliver_webhook_cases [OF assms(1)] by blast
  show ?case
  proof (cases r)
    case (Ok u)
    show ?thesis
      by (rule exI [of _ r], rule exI [of _ "snd (retry_loop env t payload max_retries backoff attempt w)"], rule exI [of _ 0], rule exI [of _ "[]"], rule exI [of _ i])
        (use d Ok in \<open>simp add: retry_loop.simps [of env t payload _ backoff attempt w]\<close>)
  next
    case (Err e)
    let ?w = "net_do (Posted (?rq i)) w"
    let ?d = "jittered env backoff ?w"
    let ?w2 = "net_do (Slept ?d) ?w"
    have s: "k = max_retries - (attempt + 1)" "attempt + 1 \<le> max_retries" using Suc.hyps(2) by simp_all
    obtain r' w' n new j where ih: "retry_loop env t payload max_retries (saturating_double backoff) (attempt + 1) ?w2 = (r', w')"
      "r' \<noteq> Panic" "r' \<noteq> Err BadConfig" "net_trace w' = net_trace ?w2 @ new @ [Posted (?rq j)]"
      "failed_attempts env ?rq (saturating_double backoff) (net_trace ?w2) new n" "n \<le> max_retries - (attempt + 1)"
      "r' = Ok () \<longleftrightarrow> accepted env (net_trace ?w2 @ new) (?rq j)" "r' = Ok () \<or> n = max_retries - (attempt + 1)"
      "delivered_total w' = delivered_total ?w2 + of_bool (r' = Ok ())" "failed_total w' = failed_total ?w2 + of_bool (r' \<noteq> Ok ())"
      using Suc.hyps(1) [OF s, of "saturating_double backoff" ?w2] by blast
    have "retry_loop env t payload max_retries backoff attempt w = (r', w')"
      using d(1,3) Err s(2) ih(1) by (simp add: retry_loop.simps [of env t payload max_retries backoff attempt w] Let_def)
    moreover have "failed_attempts env ?rq backoff (net_trace w) (Posted (?rq i) # Slept ?d # new) (Suc n)"
      using ih(5) d(4) Err assms(2) by (auto simp: jittered_def Let_def)
    ultimately show ?thesis
      by (intro exI [of _ r'] exI [of _ w'] exI [of _ "Suc n"] exI [of _ "Posted (?rq i) # Slept ?d # new"] exI [of _ j])
        (use ih s(2) in \<open>auto simp: append_assoc\<close>)
  qed (use d in auto)
qed

lemma webhook_attempts':
  assumes "target_url env t = Some url" "\<And>tr n. draw env tr n \<le> n"
  shows "\<exists>r w' n new i. deliver_with_retry env t payload max_retries base w = (r, w') \<and>
    net_trace w' = net_trace w @ new @ [Posted (webhook_request_of env t payload url i)] \<and>
    failed_attempts env (webhook_request_of env t payload url) base (net_trace w) new n \<and> n \<le> max_retries \<and>
    (r = Ok () \<longleftrightarrow> accepted env (net_trace w @ new) (webhook_request_of env t payload url i)) \<and>
    (r = Ok () \<or> n = max_retries) \<and>
    delivered_total w' = delivered_total w + of_bool (r = Ok ()) \<and> failed_total w' = failed_total w + of_bool (r \<noteq> Ok ())"
proof -
  from retry_loop_attempts [OF assms, where attempt = 0 and max_retries = max_retries and backoff = base and w = w and payload = payload]
  obtain r w' n new i where "retry_loop env t payload max_retries base 0 w = (r, w')"
    "net_trace w' = net_trace w @ new @ [Posted (webhook_request_of env t payload url i)]"
    "failed_attempts env (webhook_request_of env t payload url) base (net_trace w) new n" "n \<le> max_retries - 0"
    "r = Ok () \<longleftrightarrow> accepted env (net_trace w @ new) (webhook_request_of env t payload url i)"
    "r = Ok () \<or> n = max_retries - 0" "delivered_total w' = delivered_total w + of_bool (r = Ok ())"
    "failed_total w' = failed_total w + of_bool (r \<noteq> Ok ())" by blast
  then show ?thesis unfolding deliver_with_retry_def by (metis diff_zero)
qed

text \<open>C33: a webhook delivery. It posts at least once and at most \<open>max_retries\<close> times more; all requests carry the
  event, the exact body and its signature and differ in their id only; a pause of half the backoff to the
  whole of it lies between them, and the backoff doubles. Only the last attempt can have been
  accepted, which is what the result says; failure means that every attempt was used up. One counter
  goes up by one.\<close>

theorem webhook_attempts:
  assumes "target_url env t = Some url" "\<And>tr n. draw env tr n \<le> n"
  shows "\<exists>r w' n new i. deliver_with_retry env t payload max_retries base w = (r, w') \<and>
    net_trace w' = net_trace w @ new @ [Posted (webhook_request_of env t payload url i)] \<and>
    failed_attempts env (webhook_request_of env t payload url) base (net_trace w) new n \<and> n \<le> max_retries \<and>
    (r = Ok () \<longleftrightarrow> accepted env (net_trace w @ new) (webhook_request_of env t payload url i)) \<and>
    (r = Ok () \<or> n = max_retries) \<and>
    delivered_total w' = delivered_total w + of_bool (r = Ok ()) \<and> failed_total w' = failed_total w + of_bool (r \<noteq> Ok ())"
  by (rule webhook_attempts' [OF assms])


section \<open>Fan-out\<close>

definition is_post :: "net_step \<Rightarrow> bool" where
  "is_post s = (case s of Posted q \<Rightarrow> True | _ \<Rightarrow> False)"

lemma failed_attempts_posts:
  "failed_attempts env rq backoff tr new n \<Longrightarrow>
    (\<forall>q. Posted q \<in> set new \<longrightarrow> (\<exists>i. q = rq i)) \<and> length (filter is_post new) = n"
proof (induction n arbitrary: backoff tr new)
  case (Suc n)
  then obtain i d rest where n: "new = Posted (rq i) # Slept d # rest"
    "failed_attempts env rq (saturating_double backoff) (tr @ [Posted (rq i), Slept d]) rest n" by auto
  from Suc.IH [OF n(2)] show ?case by (auto simp: n(1) is_post_def)
qed simp

definition webhook_of :: "egress_env \<Rightarrow> egress_target \<Rightarrow> string option" where
  "webhook_of env t = (if is_webhook (et_kind t) then target_url env t else None)"

text \<open>What delivering to one target does.\<close>

definition target_effect :: "egress_env \<Rightarrow> json \<Rightarrow> egress_target \<Rightarrow> net \<Rightarrow> net \<Rightarrow> bool" where
  "target_effect env payload t w w' \<longleftrightarrow> (\<exists>new. net_trace w' = net_trace w @ new \<and>
    (\<forall>url. webhook_of env t = Some url \<longrightarrow> (\<exists>i. Posted (webhook_request_of env t payload url i) \<in> set new)) \<and>
    (\<forall>q. Posted q \<in> set new \<longrightarrow> (\<exists>url i. webhook_of env t = Some url \<and> q = webhook_request_of env t payload url i)) \<and>
    length (filter is_post new) \<le> (if webhook_of env t = None then 0 else 4) \<and>
    delivered_total w' + failed_total w' = delivered_total w + failed_total w + (if webhook_of env t = None then 0 else 1))"

lemma target_effect_idle: "webhook_of env t = None \<Longrightarrow> target_effect env payload t w w"
  by (simp add: target_effect_def)

lemma deliver_webhook_none: "target_url env t = None \<Longrightarrow> deliver_with_retry env t payload mx base w = (Err BadConfig, w)"
  by (simp add: deliver_with_retry_def retry_loop.simps [of env t payload mx base 0 w] deliver_webhook_def)

lemma deliver_redis_effect:
  assumes "webhook_of env t = None"
  shows "target_effect env payload t w (snd (deliver_redis env t body w))"
  using assms unfolding deliver_redis_def target_effect_def
  by (auto simp: Let_def is_post_def split: option.splits prod.splits)

lemma deliver_target_effect:
  assumes "\<And>tr n. draw env tr n \<le> n"
  shows "target_effect env payload t w (snd (deliver_target env payload body t w))"
proof (cases "is_webhook (et_kind t)")
  case False
  then have "webhook_of env t = None" by (simp add: webhook_of_def)
  then show ?thesis using False deliver_redis_effect target_effect_idle by (simp add: deliver_target_def)
next
  case True
  show ?thesis
  proof (cases "target_url env t")
    case None
    then show ?thesis using True target_effect_idle [of env t payload w]
      by (simp add: deliver_target_def deliver_webhook_none webhook_of_def)
  next
    case (Some url)
    from webhook_attempts' [OF Some assms, of payload MAX_RETRIES RETRY_BASE w]
    obtain r w' n new i where a: "deliver_with_retry env t payload MAX_RETRIES RETRY_BASE w = (r, w')"
      "net_trace w' = net_trace w @ new @ [Posted (webhook_request_of env t payload url i)]"
      "failed_attempts env (webhook_request_of env t payload url) RETRY_BASE (net_trace w) new n" "n \<le> MAX_RETRIES"
      "delivered_total w' = delivered_total w + of_bool (r = Ok ())" "failed_total w' = failed_total w + of_bool (r \<noteq> Ok ())"
      by blast
    have w: "webhook_of env t = Some url" using True Some by (simp add: webhook_of_def)
    have "n \<le> 3" using a(4) by (simp add: MAX_RETRIES_def)
    with failed_attempts_posts [OF a(3)] w show ?thesis unfolding target_effect_def
      by (intro exI [of _ "new @ [Posted (webhook_request_of env t payload url i)]"])
        (auto simp: deliver_target_def True a(1,2,5,6) is_post_def)
  qed
qed

definition fires :: "egress_env \<Rightarrow> string \<Rightarrow> egress_target \<Rightarrow> bool" where
  "fires env etype t \<longleftrightarrow> should_fire t etype \<and> webhook_of env t \<noteq> None"

lemma deliver_targets_effect:
  assumes "\<And>tr n. draw env tr n \<le> n"
  shows "deliver_targets env etype payload body ts w = (r, w') \<Longrightarrow> r \<noteq> Panic \<Longrightarrow>
    r = Ok () \<and> (\<exists>new. net_trace w' = net_trace w @ new \<and>
      (\<forall>t \<in> set ts. fires env etype t \<longrightarrow>
        (\<exists>url i. webhook_of env t = Some url \<and> Posted (webhook_request_of env t payload url i) \<in> set new)) \<and>
      (\<forall>q. Posted q \<in> set new \<longrightarrow>
        (\<exists>t \<in> set ts. fires env etype t \<and> (\<exists>url i. webhook_of env t = Some url \<and> q = webhook_request_of env t payload url i))) \<and>
      length (filter is_post new) \<le> 4 * length (filter (fires env etype) ts) \<and>
      delivered_total w' + failed_total w' = delivered_total w + failed_total w + length (filter (fires env etype) ts))"
proof (induction ts arbitrary: w)
  case (Cons t ts)
  show ?case
  proof (cases "should_fire t etype")
    case False
    with Cons.IH [of w] Cons.prems show ?thesis by (auto simp: fires_def)
  next
    case True
    obtain r1 w1 where d: "deliver_target env payload body t w = (r1, w1)" by force
    with True Cons.prems have r: "deliver_targets env etype payload body ts w1 = (r, w')"
      by (auto split: outcome.splits)
    from deliver_target_effect [OF assms, of payload t w body] obtain n1 where
      n1: "net_trace w1 = net_trace w @ n1"
      "\<And>url. webhook_of env t = Some url \<Longrightarrow> \<exists>i. Posted (webhook_request_of env t payload url i) \<in> set n1"
      "\<And>q. Posted q \<in> set n1 \<Longrightarrow> \<exists>url i. webhook_of env t = Some url \<and> q = webhook_request_of env t payload url i"
      "length (filter is_post n1) \<le> (if webhook_of env t = None then 0 else 4)"
      "delivered_total w1 + failed_total w1 = delivered_total w + failed_total w + (if webhook_of env t = None then 0 else 1)"
      unfolding d target_effect_def by auto
    from Cons.IH [OF r Cons.prems(2)] obtain n2 where n2: "r = Ok ()" "net_trace w' = net_trace w1 @ n2"
      "\<And>t. t \<in> set ts \<Longrightarrow> fires env etype t \<Longrightarrow>
        (\<exists>url i. webhook_of env t = Some url \<and> Posted (webhook_request_of env t payload url i) \<in> set n2)"
      "\<And>q. Posted q \<in> set n2 \<Longrightarrow>
        (\<exists>t \<in> set ts. fires env etype t \<and> (\<exists>url i. webhook_of env t = Some url \<and> q = webhook_request_of env t payload url i))"
      "length (filter is_post n2) \<le> 4 * length (filter (fires env etype) ts)"
      "delivered_total w' + failed_total w' = delivered_total w1 + failed_total w1 + length (filter (fires env etype) ts)"
      by blast
    have f: "fires env etype t \<longleftrightarrow> webhook_of env t \<noteq> None" using True by (simp add: fires_def)
    have fwd: "\<exists>url i. webhook_of env x = Some url \<and> Posted (webhook_request_of env x payload url i) \<in> set (n1 @ n2)"
      if "x \<in> set (t # ts)" "fires env etype x" for x
    proof (cases "x = t")
      case True
      with that(2) f obtain url where "webhook_of env t = Some url" by auto
      with n1(2) [OF this] True show ?thesis by auto
    next
      case False
      with that n2(3) [of x] show ?thesis by auto
    qed
    have bwd: "\<exists>x \<in> set (t # ts). fires env etype x \<and> (\<exists>url i. webhook_of env x = Some url \<and> q = webhook_request_of env x payload url i)"
      if "Posted q \<in> set (n1 @ n2)" for q
      using that n1(3) [of q] n2(4) [of q] f by auto
    have cnt: "length (filter is_post (n1 @ n2)) \<le> 4 * length (filter (fires env etype) (t # ts))"
      "delivered_total w' + failed_total w' = delivered_total w + failed_total w + length (filter (fires env etype) (t # ts))"
      using n1(4,5) n2(5,6) f by auto
    have tr: "net_trace w' = net_trace w @ (n1 @ n2)" using n1(1) n2(2) by simp
    show ?thesis using n2(1) tr fwd bwd cnt by blast
  qed
qed simp

text \<open>An event reaches every target that is enabled for it, whatever the others answer: each such webhook is
  posted to, nothing else is, at most four times each, and each is counted once, as delivered or as
  failed; the event itself is never reported as failed.\<close>

theorem fan_out_reaches_all:
  assumes "\<And>tr n. draw env tr n \<le> n"
    and "deliver_event env (Some targets) sid ev ts w = (r, w')" "r \<noteq> Panic"
  shows "let payload = event_to_payload sid ev ts; hooks = filter (fires env (event_type ev)) targets in
    r = Ok () \<and> (\<exists>new. net_trace w' = net_trace w @ new \<and>
      (\<forall>t \<in> set hooks. \<exists>url i. webhook_of env t = Some url \<and> Posted (webhook_request_of env t payload url i) \<in> set new) \<and>
      (\<forall>q. Posted q \<in> set new \<longrightarrow>
        (\<exists>t \<in> set hooks. \<exists>url i. webhook_of env t = Some url \<and> q = webhook_request_of env t payload url i)) \<and>
      length (filter is_post new) \<le> 4 * length hooks \<and>
      delivered_total w' + failed_total w' = delivered_total w + failed_total w + length hooks)"
proof -
  have d: "deliver_targets env (event_type ev) (event_to_payload sid ev ts) (print_json env (event_to_payload sid ev ts)) targets w = (r, w')"
    using assms(2) by (cases "targets = []") (auto simp: deliver_event_def Let_def)
  from deliver_targets_effect [OF assms(1) d assms(3)] obtain new where n: "r = Ok ()" "net_trace w' = net_trace w @ new"
    "\<forall>t \<in> set targets. fires env (event_type ev) t \<longrightarrow>
      (\<exists>url i. webhook_of env t = Some url \<and> Posted (webhook_request_of env t (event_to_payload sid ev ts) url i) \<in> set new)"
    "\<forall>q. Posted q \<in> set new \<longrightarrow>
      (\<exists>t \<in> set targets. fires env (event_type ev) t \<and>
        (\<exists>url i. webhook_of env t = Some url \<and> q = webhook_request_of env t (event_to_payload sid ev ts) url i))"
    "length (filter is_post new) \<le> 4 * length (filter (fires env (event_type ev)) targets)"
    "delivered_total w' + failed_total w' = delivered_total w + failed_total w + length (filter (fires env (event_type ev)) targets)"
    by blast
  show ?thesis unfolding Let_def
    by (intro conjI exI [of _ new]) (use n in \<open>simp_all add: set_filter\<close>, blast)
qed

section \<open>A reply that ends the worker\<close>

text \<open>A Redis server whose reply announces a huge array ends the delivery task of the session: the capacity
  that the parser asks for overflows, and no other task is ever started.\<close>

theorem redis_reply_ends_worker:
  assumes "2 \<le> resp_item_size env" "should_fire t (event_type ev)" "et_kind t = ''redis''"
    and "redis_from_target (map_option (\<lambda>v. (json_str v ''url'', json_str v ''key'', json_str v ''mode'')) (read_json env (et_config t))) = Some cfg"
    and "parse_redis_url (read_url env (redis_url cfg)) = Some (host, port, password)"
    and "\<And>tr. redis_answer env tr host port = Some [0x2A # as_bytes (show_nat 9223372036854775807) @ crlf]"
  shows "worker_run env sid (Event ev now insert_ok prune_ok (Some [t]) # later) s = None"
proof -
  let ?c = "0x2A # as_bytes (show_nat 9223372036854775807) @ crlf"
  have "parse_reply (resp_item_size env) [] = Err Incomplete" by (simp add: parse_reply_def)
  then have "fst (publish (resp_item_size env) cfg password body [?c]) = Panic" for body
    using array_count_panics [OF assms(1)]
    by (cases "redis_publish_commands cfg password body")
      (auto simp: publish_def redis_publish_commands_def Let_def split: option.splits)
  then have r: "fst (deliver_redis env t body w) = Panic" for body w
    using assms(4-6) by (simp add: deliver_redis_def Let_def case_prod_beta)
  have d: "fst (deliver_target env payload body t w) = Panic" for payload body w
    using assms(3) r by (simp add: deliver_target_def is_webhook_def)
  have p: "fst (deliver_event env (Some [t]) sid ev now w) = Panic" for w
  proof -
    let ?p = "event_to_payload sid ev now"
    obtain w' where "deliver_target env ?p (print_json env ?p) t w = (Panic, w')"
      using d [of ?p "print_json env ?p" w] by (metis prod.collapse)
    then show ?thesis using assms(2) by (simp add: deliver_event_def Let_def)
  qed
  obtain k tab w where s: "s = (k, tab, w)" by (cases s) auto
  obtain w' where "deliver_event env (Some [t]) sid ev now w = (Panic, w')" using p [of w] by (metis prod.collapse)
  then show ?thesis by (simp add: worker_step_def s Let_def split: prod.splits)
qed


section \<open>The log stays bounded\<close>

definition rows_of :: "string \<Rightarrow> event_log \<Rightarrow> event_log_row list" where
  "rows_of sid tab = filter (\<lambda>r. el_session r = sid) (fst tab)"

text \<open>Ids are those that the table gave out, each once.\<close>

definition log_ok :: "event_log \<Rightarrow> bool" where
  "log_ok tab \<longleftrightarrow> distinct (map el_id (fst tab)) \<and> (\<forall>r \<in> set (fst tab). el_id r < snd tab)"

lemma rows_insert:
  "rows_of s (event_log_insert sid ts e p tab) =
    rows_of s tab @ (if s = sid then [\<lparr>el_id = snd tab, el_session = sid, el_ts = ts, el_type = e, el_payload = p\<rparr>] else [])"
  by (simp add: rows_of_def event_log_insert_def)

lemma log_ok_insert: "log_ok tab \<Longrightarrow> log_ok (event_log_insert sid ts e p tab)"
  by (auto simp: log_ok_def event_log_insert_def)

lemma log_ok_prune: "log_ok tab \<Longrightarrow> log_ok (event_log_prune sid n c tab)"
  by (auto simp: log_ok_def event_log_prune_def distinct_map_filter)

lemma rows_prune_other: "s \<noteq> sid \<Longrightarrow> rows_of s (event_log_prune sid n c tab) = rows_of s tab"
  by (auto simp: rows_of_def event_log_prune_def intro!: filter_cong)

lemma rows_prune:
  assumes "log_ok tab"
  shows "length (rows_of sid (event_log_prune sid n c tab)) \<le> n"
proof -
  let ?r = "rows_of sid (event_log_prune sid n c tab)"
  have "set (map el_id ?r) \<subseteq> set (newest_ids sid n tab)" by (auto simp: rows_of_def event_log_prune_def)
  moreover have "distinct (map el_id ?r)"
    using log_ok_prune [OF assms, of sid n c] by (simp add: log_ok_def rows_of_def distinct_map_filter)
  ultimately have "length ?r \<le> card (set (newest_ids sid n tab))"
    by (metis List.finite_set card_mono distinct_card length_map)
  also have "\<dots> \<le> length (newest_ids sid n tab)" by (rule card_length)
  also have "\<dots> \<le> n" by (simp add: newest_ids_def)
  finally show ?thesis .
qed

fun prunes_work :: "worker_input \<Rightarrow> bool" where
  "prunes_work (Event ev now insert_ok prune_ok targets) = prune_ok"
| "prunes_work (Lagged n) = True"

lemma worker_step_log:
  assumes "worker_step env sid i (k, tab, w) = Some (k', tab', w')" "prunes_work i" "log_ok tab"
    and "k < PRUNE_EVERY" "length (rows_of sid tab) \<le> b + k" "LOG_KEEP_MAX \<le> b"
  shows "log_ok tab' \<and> k' < PRUNE_EVERY \<and> length (rows_of sid tab') \<le> b + k' \<and> (\<forall>s. s \<noteq> sid \<longrightarrow> rows_of s tab' = rows_of s tab)"
proof (cases i)
  case (Event ev now insert_ok prune_ok targets)
  let ?tab = "event_log_insert sid (now * 1000) (event_type ev) (event_to_sse_json env ev) tab"
  let ?cut = "now * 1000 - LOG_MAX_AGE_MS"
  have p: "prune_ok" using assms(2) Event by simp
  have e: "k' = (if \<not> insert_ok then k else if PRUNE_EVERY \<le> k + 1 then 0 else k + 1) \<and>
    tab' = (if \<not> insert_ok then tab else if PRUNE_EVERY \<le> k + 1 then event_log_prune sid LOG_KEEP_MAX ?cut ?tab else ?tab)"
    using assms(1) p unfolding worker_step_def Event
    by (auto simp: Let_def split: prod.splits outcome.splits if_splits)
  have "length (rows_of sid ?tab) = length (rows_of sid tab) + 1" by (simp add: rows_insert)
  moreover have "length (rows_of sid (event_log_prune sid LOG_KEEP_MAX ?cut ?tab)) \<le> LOG_KEEP_MAX"
    by (rule rows_prune) (rule log_ok_insert, rule assms(3))
  ultimately show ?thesis using e assms(3-6)
    by (auto simp: log_ok_insert log_ok_prune rows_insert rows_prune_other PRUNE_EVERY_def)
qed (use assms in \<open>simp add: worker_step_def\<close>)

text \<open>The log of a session keeps at most 255 rows more than it had, or than 5,000, however many events come
  in, as long as the statement that prunes it works; the logs of other sessions are not touched.\<close>

theorem event_log_bounded:
  assumes "worker_run env sid inputs (0, tab, w) = Some (k, tab', w')" "list_all prunes_work inputs" "log_ok tab"
  shows "length (rows_of sid tab') \<le> max (length (rows_of sid tab)) 5000 + 255 \<and> log_ok tab' \<and>
    (\<forall>s. s \<noteq> sid \<longrightarrow> rows_of s tab' = rows_of s tab)"
proof -
  let ?b = "max (length (rows_of sid tab)) 5000"
  have "worker_run env sid is (k0, t0, w0) = Some (k, tab', w') \<Longrightarrow> list_all prunes_work is \<Longrightarrow> log_ok t0 \<Longrightarrow>
      k0 < PRUNE_EVERY \<Longrightarrow> length (rows_of sid t0) \<le> ?b + k0 \<Longrightarrow>
      log_ok tab' \<and> k < PRUNE_EVERY \<and> length (rows_of sid tab') \<le> ?b + k \<and> (\<forall>s. s \<noteq> sid \<longrightarrow> rows_of s tab' = rows_of s t0)"
    for "is" k0 t0 w0
  proof (induction "is" arbitrary: k0 t0 w0)
    case (Cons i r)
    from Cons.prems(1) obtain k1 t1 w1 where s: "worker_step env sid i (k0, t0, w0) = Some (k1, t1, w1)"
      and r: "worker_run env sid r (k1, t1, w1) = Some (k, tab', w')" by (auto simp: bind_eq_Some_conv)
    have "LOG_KEEP_MAX \<le> ?b" by (simp add: LOG_KEEP_MAX_def)
    with worker_step_log [OF s] Cons.prems have
      "log_ok t1 \<and> k1 < PRUNE_EVERY \<and> length (rows_of sid t1) \<le> ?b + k1 \<and> (\<forall>s. s \<noteq> sid \<longrightarrow> rows_of s t1 = rows_of s t0)" by auto
    with Cons.IH [OF r] Cons.prems(2) show ?case by auto
  qed simp
  from this [OF assms, unfolded PRUNE_EVERY_def] show ?thesis by auto
qed

section \<open>Pages\<close>

definition newest_rows :: "event_log \<Rightarrow> string \<Rightarrow> nat \<Rightarrow> string option \<Rightarrow> event_log_row list" where
  "newest_rows tab sid before_id ty =
    rev (sort_key el_id (filter (\<lambda>r. el_session r = sid \<and> el_id r < before_id \<and> (case ty of None \<Rightarrow> True | Some t \<Rightarrow> el_type r = t)) (fst tab)))"

lemma newest_rows_below:
  "c \<le> b \<Longrightarrow> newest_rows tab sid c ty = filter (\<lambda>r. el_id r < c) (newest_rows tab sid b ty)"
proof -
  assume c: "c \<le> b"
  have "filter (\<lambda>r. el_session r = sid \<and> el_id r < c \<and> (case ty of None \<Rightarrow> True | Some t \<Rightarrow> el_type r = t)) (fst tab) =
    filter (\<lambda>r. el_id r < c) (filter (\<lambda>r. el_session r = sid \<and> el_id r < b \<and> (case ty of None \<Rightarrow> True | Some t \<Rightarrow> el_type r = t)) (fst tab))"
    using c unfolding filter_filter by (intro filter_cong) auto
  then show ?thesis unfolding newest_rows_def by (simp only: filter_sort [symmetric] rev_filter)
qed

lemma newest_rows_decreasing:
  assumes "log_ok tab"
  shows "sorted_wrt (\<lambda>r q. el_id q < el_id r) (newest_rows tab sid b ty)"
proof -
  let ?f = "filter (\<lambda>r. el_session r = sid \<and> el_id r < b \<and> (case ty of None \<Rightarrow> True | Some t \<Rightarrow> el_type r = t)) (fst tab)"
  have "distinct (map el_id (sort_key el_id ?f))"
    using assms by (auto simp: log_ok_def distinct_map intro: inj_on_subset)
  then have "sorted_wrt (<) (map el_id (sort_key el_id ?f))" by (simp add: strict_sorted_iff)
  then show ?thesis by (simp add: newest_rows_def sorted_wrt_rev sorted_wrt_map)
qed

lemma cut_decreasing:
  "sorted_wrt (\<lambda>r q. f q < (f r :: nat)) xs \<Longrightarrow> 0 < n \<Longrightarrow> n \<le> length xs \<Longrightarrow>
    filter (\<lambda>r. f r < f (xs ! (n - 1))) xs = drop n xs"
proof -
  assume s: "sorted_wrt (\<lambda>r q. f q < f r) xs" and n: "0 < n" "n \<le> length xs"
  let ?c = "f (xs ! (n - 1))"
  have "filter (\<lambda>r. f r < ?c) (take n xs) = []"
  proof -
    have le: "\<not> f (xs ! i) < ?c" if "i < n" for i
    proof (cases "i = n - 1")
      case False
      then have "i < n - 1" "n - 1 < length xs" using that n by linarith+
      from sorted_wrt_nth_less [OF s this] show ?thesis by simp
    qed simp
    show ?thesis unfolding filter_empty_conv
    proof
      fix x assume "x \<in> set (take n xs)"
      then obtain i where "i < n" "x = xs ! i" by (auto simp: in_set_conv_nth)
      with le [of i] show "\<not> f x < ?c" by simp
    qed
  qed
  moreover have "filter (\<lambda>r. f r < ?c) (drop n xs) = drop n xs"
    using sorted_wrt_nth_less [OF s, of "n - 1"] n by (intro filter_True) (auto simp: in_set_conv_nth)
  ultimately show ?thesis by (metis append_Nil append_take_drop_id filter_append)
qed

text \<open>C34: reading the log page by page misses no row and repeats none: a full page and the page before its last
  id are together the page of both sizes, with or without a filter on the type.\<close>

theorem event_log_pages:
  assumes "log_ok tab" "event_log_list tab sid before ty n = page" "page \<noteq> []" "length page = n"
  shows "page @ event_log_list tab sid (el_id (last page)) ty m = event_log_list tab sid before ty (n + m)"
proof -
  let ?r = "newest_rows tab sid before ty"
  have l: "event_log_list tab sid b ty k = take k (newest_rows tab sid b ty)" for b k
    by (simp add: event_log_list_def newest_rows_def)
  have p: "page = take n ?r" using assms(2) l by simp
  have n: "0 < n" "n \<le> length ?r" using assms(3,4) p by auto
  have la: "last page = ?r ! (n - 1)" using last_conv_nth [OF assms(3)] assms(4) n by (simp add: p)
  then have "last page \<in> set ?r" using n by simp
  then have "el_id (last page) \<le> before" by (auto simp: newest_rows_def)
  from newest_rows_below [OF this, of tab sid ty] cut_decreasing [OF newest_rows_decreasing [OF assms(1)] n]
  have "newest_rows tab sid (el_id (last page)) ty = drop n ?r" unfolding la by simp
  then show ?thesis unfolding l p by (simp add: take_add)
qed

section \<open>Instances\<close>

text \<open>A server that fails the first post of a trace, and one that is down.\<close>

definition toy_egress :: egress_env where
  "toy_egress = \<lparr>http_answer = (\<lambda>tr q. if wr_url q = ''down'' then None else if tr = [] then Some 500 else Some 200),
    fresh_uuid = (\<lambda>tr. show_nat (length tr)), draw = (\<lambda>tr n. n div 2),
    redis_answer = (\<lambda>tr h p. Some [0x2A # as_bytes (show_nat 9223372036854775807) @ crlf]), resp_item_size = 24,
    hmac_sha256_hex = (\<lambda>k m. ''00''),
    read_json = (\<lambda>s. Some (JObject [(''url'', JString s), (''key'', JString ''k'')])), print_json = (\<lambda>v. [1]),
    read_url = (\<lambda>s. Some (Some s, None, None))\<rparr>"

definition toy_target :: "string \<Rightarrow> string \<Rightarrow> egress_target" where
  "toy_target kind config = \<lparr>et_session_id = ''s'', et_kind = kind, et_enabled = True, et_events = None,
    et_secret = Some ''x'', et_config = config, et_updated_at = 0\<rparr>"

definition blank_net :: net where
  "blank_net = \<lparr>net_trace = [], delivered_total = 0, failed_total = 0\<rparr>"

lemma toy_draw: "draw toy_egress tr n \<le> n"
  by (simp add: toy_egress_def)

theorem webhook_attempts_witness:
  "\<exists>r w' n new i. deliver_with_retry toy_egress (toy_target ''webhook'' ''up'') JNull 3 500000000 blank_net = (r, w') \<and>
    net_trace w' = new @ [Posted (webhook_request_of toy_egress (toy_target ''webhook'' ''up'') JNull ''up'' i)] \<and>
    (r = Ok () \<or> n = 3)"
proof -
  have "target_url toy_egress (toy_target ''webhook'' ''up'') = Some ''up''"
    by (simp add: target_url_def toy_egress_def toy_target_def json_str_def json_get_def as_str_def)
  from webhook_attempts [OF this toy_draw, of JNull 3 500000000 blank_net] show ?thesis
    by (auto simp: blank_net_def)
qed

theorem fan_out_reaches_all_witness:
  "\<exists>r w'. deliver_event toy_egress (Some [toy_target ''webhook'' ''down'', toy_target ''webhook:b'' ''up'']) ''s'' None 0 blank_net = (r, w') \<and>
    r = Ok () \<and> delivered_total w' + failed_total w' = 2"
proof -
  let ?ts = "[toy_target ''webhook'' ''down'', toy_target ''webhook:b'' ''up'']"
  obtain r w' where d: "deliver_event toy_egress (Some ?ts) ''s'' None 0 blank_net = (r, w')" by force
  have url: "target_url toy_egress (toy_target k u) = Some u" for k u
    by (simp add: target_url_def toy_egress_def toy_target_def json_str_def json_get_def as_str_def)
  have f: "filter (fires toy_egress (event_type None)) ?ts = ?ts"
    by (simp add: fires_def should_fire_def event_allowed_def webhook_of_def url is_webhook_def toy_target_def) (simp add: url [unfolded toy_target_def])
  have k: "deliver_target toy_egress p b (toy_target k u) w = deliver_with_retry toy_egress (toy_target k u) p MAX_RETRIES RETRY_BASE w"
    if "is_webhook k" for p b k u w
    using that by (simp add: deliver_target_def toy_target_def)
  have np: "fst (deliver_with_retry toy_egress (toy_target k u) p MAX_RETRIES RETRY_BASE w) \<noteq> Panic" for k u p w
    using retry_loop_attempts [OF url toy_draw, of 0 MAX_RETRIES k u p RETRY_BASE w] by (auto simp: deliver_with_retry_def)
  have "fst (deliver_targets toy_egress e p b ts w) \<noteq> Panic" if "\<forall>t \<in> set ts. \<exists>k u. t = toy_target k u \<and> is_webhook k" for e p b ts w
    using that
  proof (induction ts arbitrary: w)
    case (Cons t ts)
    then obtain k' u where t: "t = toy_target k' u" "is_webhook k'" by auto
    obtain r1 w1 where r1: "deliver_with_retry toy_egress t p MAX_RETRIES RETRY_BASE w = (r1, w1)" by force
    then have "r1 \<noteq> Panic" using np [of k' u p w] t(1) by simp
    then show ?case using Cons k [OF t(2)] t(1) r1 by (cases r1) simp_all
  qed simp
  moreover have "\<forall>t \<in> set ?ts. \<exists>k u. t = toy_target k u \<and> is_webhook k"
    using is_webhook_def [of "''webhook''"] is_webhook_def [of "''webhook:b''"] by (simp, blast)
  ultimately have "fst (deliver_targets toy_egress e p b ?ts w) \<noteq> Panic" for e p b w by blast
  then have "r \<noteq> Panic" using d by (simp add: deliver_event_def Let_def del: deliver_targets.simps) (metis fst_conv)
  from fan_out_reaches_all [OF toy_draw d this] show ?thesis using d f by (auto simp: Let_def blank_net_def)
qed

theorem redis_reply_ends_worker_witness:
  "worker_run toy_egress ''s'' [Event None 0 True True (Some [toy_target ''redis'' ''host'']), Lagged 1] (0, ([], 1), blank_net) = None"
proof (rule redis_reply_ends_worker)
  show "redis_from_target (map_option (\<lambda>v. (json_str v ''url'', json_str v ''key'', json_str v ''mode''))
      (read_json toy_egress (et_config (toy_target ''redis'' ''host'')))) = Some \<lparr>redis_url = ''host'', redis_mode = List, redis_key = ''k''\<rparr>"
    by (simp add: redis_from_target_def toy_egress_def toy_target_def json_str_def json_get_def as_str_def or_default_def)
qed (simp_all add: toy_egress_def toy_target_def should_fire_def event_allowed_def parse_redis_url_def or_default_def)

theorem event_log_bounded_witness:
  "\<exists>k tab w. worker_run toy_egress ''s'' [Event None 5 True True (Some []), Lagged 2] (0, ([], 1), blank_net) = Some (k, tab, w) \<and>
    length (rows_of ''s'' tab) \<le> 5255"
proof -
  obtain k tab w where r: "worker_run toy_egress ''s'' [Event None 5 True True (Some []), Lagged 2] (0, ([], 1), blank_net) = Some (k, tab, w)"
    by (simp add: worker_step_def Let_def PRUNE_EVERY_def deliver_event_def)
  from event_log_bounded [OF r] show ?thesis using r by (auto simp: log_ok_def rows_of_def)
qed

theorem event_log_pages_witness:
  "let row = \<lambda>i. \<lparr>el_id = i, el_session = ''s'', el_ts = 0, el_type = ''t'', el_payload = []\<rparr>;
       tab = (map row [1, 2, 3], 4)
   in [row 3, row 2] @ event_log_list tab ''s'' 2 None 5 = event_log_list tab ''s'' 9 None 7"
proof -
  let ?row = "\<lambda>i. \<lparr>el_id = i, el_session = ''s'', el_ts = 0, el_type = ''t'', el_payload = []\<rparr>"
  have "log_ok (map ?row [1, 2, 3], 4)" by (simp add: log_ok_def)
  moreover have "event_log_list (map ?row [1, 2, 3], 4) ''s'' 9 None 2 = [?row 3, ?row 2]"
    by (simp add: event_log_list_def insort_key_def)
  ultimately have "[?row 3, ?row 2] @ event_log_list (map ?row [1, 2, 3], 4) ''s'' (el_id (last [?row 3, ?row 2])) None 5 =
      event_log_list (map ?row [1, 2, 3], 4) ''s'' 9 None (2 + 5)"
    by (intro event_log_pages) simp_all
  then show ?thesis by (simp add: Let_def)
qed

end
