(* ===== verification/Media_Blob.thy ===== *)
theory Media_Blob
  imports Ruwa_Prelude
begin

text \<open>
  Encrypted media of \<open>src/src/media.rs\<close>: the keys of a blob, its encryption and decryption, and the walk
  over the pages of a voice note that finds its duration. HKDF-SHA256, HMAC-SHA256, SHA-256 and AES-256-CBC
  with PKCS#7 padding are arguments.
\<close>

record media_crypto =
  hkdf_expand :: "bytes \<Rightarrow> bytes \<Rightarrow> nat \<Rightarrow> bytes"
  hmac256 :: "bytes \<Rightarrow> bytes \<Rightarrow> bytes"
  hash256 :: "bytes \<Rightarrow> bytes"
  aes_cbc_encrypt :: "bytes \<Rightarrow> bytes \<Rightarrow> bytes \<Rightarrow> bytes"
  aes_cbc_decrypt :: "bytes \<Rightarrow> bytes \<Rightarrow> bytes \<Rightarrow> bytes option"

section \<open>Keys\<close>

datatype media_type = Image | Video | Audio | Ptt | Document | Sticker | History | AppState

fun hkdf_info :: "media_type \<Rightarrow> bytes" where
  "hkdf_info Image = as_bytes ''WhatsApp Image Keys''"
| "hkdf_info Video = as_bytes ''WhatsApp Video Keys''"
| "hkdf_info Audio = as_bytes ''WhatsApp Audio Keys''"
| "hkdf_info Ptt = as_bytes ''WhatsApp Audio Keys''"
| "hkdf_info Document = as_bytes ''WhatsApp Document Keys''"
| "hkdf_info Sticker = as_bytes ''WhatsApp Image Keys''"
| "hkdf_info History = as_bytes ''WhatsApp History Keys''"
| "hkdf_info AppState = as_bytes ''WhatsApp App State Keys''"

fun upload_path :: "media_type \<Rightarrow> string" where
  "upload_path Image = ''/mms/image''"
| "upload_path Video = ''/mms/video''"
| "upload_path Audio = ''/mms/audio''"
| "upload_path Ptt = ''/mms/audio''"
| "upload_path Document = ''/mms/document''"
| "upload_path Sticker = ''/mms/image''"
| "upload_path History = ''/mms/document''"
| "upload_path AppState = ''/mms/document''"

record derived_media_keys =
  media_iv :: bytes
  media_cipher_key :: bytes
  media_mac_key :: bytes
  media_ref_key :: bytes

definition derive_media_keys :: "('c) media_crypto_scheme \<Rightarrow> bytes \<Rightarrow> media_type \<Rightarrow> derived_media_keys" where
  "derive_media_keys c media_key ty =
    (let out = hkdf_expand c media_key (hkdf_info ty) 112 in
     \<lparr>media_iv = take 16 out,
      media_cipher_key = take 32 (drop 16 out),
      media_mac_key = take 32 (drop 48 out),
      media_ref_key = take 32 (drop 80 out)\<rparr>)"

section \<open>Blobs\<close>

datatype media_error = Aes | BadMac | Truncated

record encrypted_media =
  ciphertext :: bytes
  media_key :: bytes
  file_sha256 :: bytes
  file_enc_sha256 :: bytes
  file_length :: nat

definition media_mac :: "('c) media_crypto_scheme \<Rightarrow> bytes \<Rightarrow> bytes \<Rightarrow> bytes \<Rightarrow> bytes" where
  "media_mac c mac_key iv ct = hmac256 c mac_key (iv @ ct)"

definition encrypt_media :: "('c) media_crypto_scheme \<Rightarrow> bytes \<Rightarrow> bytes \<Rightarrow> media_type \<Rightarrow> encrypted_media" where
  "encrypt_media c plaintext key ty =
    (let dk = derive_media_keys c key ty;
         ct = aes_cbc_encrypt c (media_cipher_key dk) (media_iv dk) plaintext;
         mac = media_mac c (media_mac_key dk) (media_iv dk) ct;
         out = ct @ take 10 mac
     in \<lparr>ciphertext = out, media_key = key, file_sha256 = hash256 c plaintext,
         file_enc_sha256 = hash256 c out, file_length = length plaintext\<rparr>)"

definition decrypt_media :: "('c) media_crypto_scheme \<Rightarrow> bytes \<Rightarrow> bytes \<Rightarrow> media_type \<Rightarrow> (media_error, bytes) outcome" where
  "decrypt_media c blob key ty =
    (if length blob < 10 then Err Truncated
     else
       (let ct = take (length blob - 10) blob;
            mac10 = drop (length blob - 10) blob;
            dk = derive_media_keys c key ty;
            want_mac = media_mac c (media_mac_key dk) (media_iv dk) ct
        in if take 10 want_mac \<noteq> mac10 then Err BadMac
           else ok_or (aes_cbc_decrypt c (media_cipher_key dk) (media_iv dk) ct) Aes))"

section \<open>Voice notes\<close>

definition le_nat :: "bytes \<Rightarrow> nat" where
  "le_nat bs = be_nat (rev bs)"

definition le_bytes :: "nat \<Rightarrow> nat \<Rightarrow> bytes" where
  "le_bytes k n = rev (be_bytes k n)"

lemma le_nat_le_bytes [simp]: "le_nat (le_bytes k n) = n mod 256 ^ k"
  by (simp add: le_nat_def le_bytes_def)

lemma length_le_bytes [simp]: "length (le_bytes k n) = k"
  by (simp add: le_bytes_def)

text \<open>The loop of \<open>ogg_opus_duration_secs\<close>: the granule position of the last page.\<close>

function ogg_pages :: "bytes \<Rightarrow> nat \<Rightarrow> u64 option \<Rightarrow> u64 option" where
  "ogg_pages data pos last_granule =
    (if \<not> pos + 27 \<le> length data then last_granule
     else if take 4 (drop pos data) \<noteq> as_bytes ''OggS'' then last_granule
     else
       (let granule_position = word_of_nat (le_nat (take 8 (drop (pos + 6) data)));
            page_segments = unat (data ! (pos + 26));
            header_len = 27 + page_segments
        in if length data < pos + header_len then last_granule
           else
             (let body_len = sum_list (map unat (take page_segments (drop (pos + 27) data)))
              in ogg_pages data (pos + header_len + body_len) (Some granule_position))))"
  by pat_completeness auto

termination
  by (relation "measure (\<lambda>(data, pos, g). length data - pos)") (auto simp: Let_def)

declare ogg_pages.simps [simp del]

text \<open>\<open>to_secs\<close> divides by 48,000 in floating point and rounds.\<close>

definition ogg_opus_duration_secs :: "(u64 \<Rightarrow> u32) \<Rightarrow> bytes \<Rightarrow> u32 option" where
  "ogg_opus_duration_secs to_secs data = map_option to_secs (ogg_pages data 0 None)"

section \<open>Round trips\<close>

text \<open>What is accepted is exactly what carries its tag.\<close>

lemma decrypt_media_eq_Ok:
  assumes "\<And>k m. 10 \<le> length (hmac256 c k m)"
  shows "decrypt_media c blob key ty = Ok p \<longleftrightarrow>
    (\<exists>ct. let dk = derive_media_keys c key ty in
      blob = ct @ take 10 (media_mac c (media_mac_key dk) (media_iv dk) ct) \<and>
      aes_cbc_decrypt c (media_cipher_key dk) (media_iv dk) ct = Some p)"
proof -
  let ?dk = "derive_media_keys c key ty"
  let ?tag = "\<lambda>ct. take 10 (media_mac c (media_mac_key ?dk) (media_iv ?dk) ct)"
  have t: "length (?tag ct) = 10" for ct using assms by (simp add: media_mac_def)
  show ?thesis
  proof
    assume a: "decrypt_media c blob key ty = Ok p"
    let ?ct = "take (length blob - 10) blob"
    have "blob = ?ct @ ?tag ?ct" using a by (auto simp: decrypt_media_def Let_def split: if_splits)
    moreover have "aes_cbc_decrypt c (media_cipher_key ?dk) (media_iv ?dk) ?ct = Some p"
      using a by (auto simp: decrypt_media_def Let_def split: if_splits)
    ultimately show "\<exists>ct. let dk = ?dk in blob = ct @ take 10 (media_mac c (media_mac_key dk) (media_iv dk) ct) \<and>
        aes_cbc_decrypt c (media_cipher_key dk) (media_iv dk) ct = Some p" by (auto simp: Let_def)
  next
    assume "\<exists>ct. let dk = ?dk in blob = ct @ take 10 (media_mac c (media_mac_key dk) (media_iv dk) ct) \<and>
        aes_cbc_decrypt c (media_cipher_key dk) (media_iv dk) ct = Some p"
    then obtain ct where b: "blob = ct @ ?tag ct" "aes_cbc_decrypt c (media_cipher_key ?dk) (media_iv ?dk) ct = Some p"
      by (auto simp: Let_def)
    have l: "length blob - 10 = length ct" "\<not> length blob < 10" using b(1) t [of ct] by simp_all
    have "take (length blob - 10) blob = ct" "drop (length blob - 10) blob = ?tag ct"
      unfolding l by (simp_all add: b(1))
    then show "decrypt_media c blob key ty = Ok p" using b(2) l(2) by (simp add: decrypt_media_def Let_def)
  qed
qed

text \<open>C28: an encrypted blob decrypts to the file under its key and type, for every type, and whatever is
  accepted under a key carries the tag of its ciphertext: the fields of the message describe the
  file and the blob that was uploaded.\<close>

theorem media_blob_roundtrip:
  assumes "\<And>k m. 10 \<le> length (hmac256 c k m)"
    and "\<And>k iv p. aes_cbc_decrypt c k iv (aes_cbc_encrypt c k iv p) = Some p"
  shows "decrypt_media c (ciphertext (encrypt_media c file key ty)) key ty = Ok file \<and>
    file_enc_sha256 (encrypt_media c file key ty) = hash256 c (ciphertext (encrypt_media c file key ty)) \<and>
    (\<forall>blob p. decrypt_media c blob key ty = Ok p \<longrightarrow>
      (\<exists>ct. let dk = derive_media_keys c key ty in
        blob = ct @ take 10 (hmac256 c (media_mac_key dk) (media_iv dk @ ct)) \<and>
        aes_cbc_decrypt c (media_cipher_key dk) (media_iv dk) ct = Some p))"
  unfolding decrypt_media_eq_Ok [OF assms(1)] using assms(2)
  by (auto simp: encrypt_media_def Let_def media_mac_def)

text \<open>A cipher that adds a byte of padding and takes it off.\<close>

definition toy_media_crypto :: media_crypto where
  "toy_media_crypto = \<lparr>hkdf_expand = (\<lambda>k info n. take n (k @ info @ replicate n 0)),
    hmac256 = (\<lambda>k m. take 32 (k @ m @ replicate 32 0)), hash256 = (\<lambda>m. take 32 (m @ replicate 32 0)),
    aes_cbc_encrypt = (\<lambda>k iv p. p @ [0x80]),
    aes_cbc_decrypt = (\<lambda>k iv ct. if ct = [] then None else Some (butlast ct))\<rparr>"

lemma toy_media_laws:
  "10 \<le> length (hmac256 toy_media_crypto k m)"
  "aes_cbc_decrypt toy_media_crypto k iv (aes_cbc_encrypt toy_media_crypto k iv p) = Some p"
by (simp_all add: toy_media_crypto_def)

theorem media_blob_roundtrip_witness:
  "decrypt_media toy_media_crypto (ciphertext (encrypt_media toy_media_crypto [1, 2, 3] (replicate 32 9) Ptt)) (replicate 32 9) Ptt = Ok [1, 2, 3]"
  using media_blob_roundtrip [of toy_media_crypto "[1, 2, 3]" "replicate 32 9" Ptt] toy_media_laws by simp

section \<open>The walk over the pages\<close>

text \<open>A page of an Ogg stream, and its bytes.\<close>

record ogg_page =
  ogg_flags :: bytes
  ogg_granule :: u64
  ogg_serial :: bytes
  ogg_segments :: bytes
  ogg_body :: bytes

definition ogg_page_ok :: "ogg_page \<Rightarrow> bool" where
  "ogg_page_ok g \<longleftrightarrow> length (ogg_flags g) = 2 \<and> length (ogg_serial g) = 12 \<and> length (ogg_segments g) < 256 \<and>
    length (ogg_body g) = sum_list (map unat (ogg_segments g))"

definition ogg_page_bytes :: "ogg_page \<Rightarrow> bytes" where
  "ogg_page_bytes g = as_bytes ''OggS'' @ ogg_flags g @ le_bytes 8 (unat (ogg_granule g)) @ ogg_serial g @
    [word_of_nat (length (ogg_segments g))] @ ogg_segments g @ ogg_body g"

lemma drop_past: "d = p @ q \<Longrightarrow> length p = n \<Longrightarrow> drop n d = q"
  by simp

lemma ogg_pages_step:
  assumes "ogg_page_ok g"
  shows "ogg_pages (pre @ ogg_page_bytes g @ rest) (length pre) l0 =
    ogg_pages (pre @ ogg_page_bytes g @ rest) (length pre + length (ogg_page_bytes g)) (Some (ogg_granule g))"
proof -
  let ?d = "pre @ ogg_page_bytes g @ rest" and ?h = "as_bytes ''OggS'' @ ogg_flags g"
  let ?gr = "le_bytes 8 (unat (ogg_granule g))" and ?n = "length (ogg_segments g)"
  have len: "length (ogg_flags g) = 2" "length (ogg_serial g) = 12" "?n < 256"
    "length (ogg_body g) = sum_list (map unat (ogg_segments g))" using assms by (simp_all add: ogg_page_ok_def)
  have d: "?d = pre @ ?h @ ?gr @ ogg_serial g @ [word_of_nat ?n] @ ogg_segments g @ ogg_body g @ rest"
    by (simp add: ogg_page_bytes_def)
  have "take 4 (drop (length pre) ?d) = as_bytes ''OggS''" unfolding d by simp
  moreover have "take 8 (drop (length pre + 6) ?d) = ?gr"
    by (subst drop_past [of _ "pre @ ?h" "?gr @ ogg_serial g @ [word_of_nat ?n] @ ogg_segments g @ ogg_body g @ rest"])
      (use len in \<open>simp_all add: d\<close>)
  moreover have "?d ! (length pre + 26) = word_of_nat ?n"
    using nth_append_length [of "pre @ ?h @ ?gr @ ogg_serial g" "word_of_nat ?n" "ogg_segments g @ ogg_body g @ rest"] len
    by (simp add: d)
  moreover have "take ?n (drop (length pre + 27) ?d) = ogg_segments g"
    by (subst drop_past [of _ "pre @ ?h @ ?gr @ ogg_serial g @ [word_of_nat ?n]" "ogg_segments g @ ogg_body g @ rest"])
      (use len in \<open>simp_all add: d\<close>)
  moreover have "word_of_nat (le_nat ?gr) = ogg_granule g"
  proof -
    have "unat (ogg_granule g) < 256 ^ 8" using unsigned_less [of "ogg_granule g"] by simp
    then show ?thesis by simp
  qed
  moreover have "unat (word_of_nat ?n :: u8) = ?n" using len(3) by simp
  moreover have "length ?d = length pre + 27 + ?n + length (ogg_body g) + length rest" unfolding d using len by simp
  moreover have "length (ogg_page_bytes g) = 27 + ?n + sum_list (map unat (ogg_segments g))"
    using len by (simp add: ogg_page_bytes_def)
  ultimately show ?thesis
    by (subst ogg_pages.simps) (simp add: Let_def add.assoc)
qed

lemma ogg_pages_concat:
  "list_all ogg_page_ok gs \<Longrightarrow>
    ogg_pages (pre @ concat (map ogg_page_bytes gs) @ rest) (length pre) l0 =
    ogg_pages (pre @ concat (map ogg_page_bytes gs) @ rest) (length pre + length (concat (map ogg_page_bytes gs)))
      (if gs = [] then l0 else Some (ogg_granule (last gs)))"
proof (induction gs arbitrary: pre l0)
  case (Cons g gs)
  show ?case
    using ogg_pages_step [of g pre "concat (map ogg_page_bytes gs) @ rest" l0] Cons.prems
      Cons.IH [of "pre @ ogg_page_bytes g" "Some (ogg_granule g)"] by (simp add: add.assoc)
qed simp

text \<open>The duration of a voice note is read from its last page, whatever its pages hold and however many
  there are; a cut or foreign tail behind them does not change it.\<close>

theorem ogg_last_granule:
  assumes "list_all ogg_page_ok gs" "gs \<noteq> []" "length rest < 27 \<or> take 4 rest \<noteq> as_bytes ''OggS''"
  shows "ogg_opus_duration_secs to_secs (concat (map ogg_page_bytes gs) @ rest) = Some (to_secs (ogg_granule (last gs)))"
proof -
  let ?b = "concat (map ogg_page_bytes gs)"
  have "ogg_pages (?b @ rest) (length ?b) (Some g) = Some g" for g
    using assms(3) by (subst ogg_pages.simps) auto
  then show ?thesis using ogg_pages_concat [OF assms(1), of "[]" rest None] assms(2)
    by (simp add: ogg_opus_duration_secs_def)
qed

text \<open>A stream of two pages with an empty and a short body.\<close>

theorem ogg_last_granule_witness:
  "let g = \<lparr>ogg_flags = [0, 2], ogg_granule = 0, ogg_serial = replicate 12 7, ogg_segments = [], ogg_body = []\<rparr> in
   let h = g\<lparr>ogg_granule := 336000, ogg_segments := [2, 1], ogg_body := [9, 9, 9]\<rparr> in
   ogg_opus_duration_secs (\<lambda>g. word_of_nat (unat g div 48000)) (concat (map ogg_page_bytes [g, h])) = Some 7"
proof -
  define g where "g = \<lparr>ogg_flags = [0, 2], ogg_granule = 0, ogg_serial = replicate 12 7, ogg_segments = [], ogg_body = []\<rparr>"
  define h where "h = g\<lparr>ogg_granule := 336000, ogg_segments := [2, 1], ogg_body := [9, 9, 9]\<rparr>"
  have "list_all ogg_page_ok [g, h]" by (simp add: g_def h_def ogg_page_ok_def)
  from ogg_last_granule [OF this, of "[]" "\<lambda>g. word_of_nat (unat g div 48000)"]
  have "ogg_opus_duration_secs (\<lambda>g. word_of_nat (unat g div 48000)) (concat (map ogg_page_bytes [g, h])) = Some 7"
    by (simp add: h_def)
  then show ?thesis by (simp add: g_def h_def Let_def)
qed

end
