(* ===== verification/App_State.thy ===== *)
theory App_State
  imports Rows Json Node_Build Media_Blob
begin

text \<open>
  App-state sync of \<open>src/src/session.rs\<close>: the additive hash of a collection, the keys and tags of its
  records, the decoders of patches and snapshots, what their mutations do to the local tables, and the
  handler of a sync reply. Protobuf, JSON and the cryptographic primitives are arguments; the decoded
  messages are the structs of the source. A store that answers is modelled, its tables for one account.
\<close>

section \<open>The additive hash\<close>

definition u16_from_le :: "u8 \<Rightarrow> u8 \<Rightarrow> u16" where
  "u16_from_le a b = word_of_nat (le_nat [a, b])"

definition u16_to_le :: "u16 \<Rightarrow> bytes" where
  "u16_to_le w = le_bytes 2 (unat w)"

text \<open>One pass of the loops of \<open>LtHash::add\<close> and \<open>sub\<close>; arrays of 128 bytes are never indexed out of range.\<close>

definition lt_lane :: "(u16 \<Rightarrow> u16 \<Rightarrow> u16) \<Rightarrow> bytes \<Rightarrow> nat \<Rightarrow> bytes \<Rightarrow> bytes" where
  "lt_lane f other i h =
    (let a = u16_from_le (h ! i) (h ! (i + 1));
         b = u16_from_le (other ! i) (other ! (i + 1));
         s = u16_to_le (f a b)
     in h[i := s ! 0, i + 1 := s ! 1])"

definition lt_steps :: "nat list" where
  "lt_steps = map (\<lambda>k. 2 * k) [0..<64]"

definition lt_zero :: bytes where
  "lt_zero = replicate 128 0"

definition lt_add :: "bytes \<Rightarrow> bytes \<Rightarrow> bytes" where
  "lt_add h other = fold (lt_lane (+) other) lt_steps h"

definition lt_sub :: "bytes \<Rightarrow> bytes \<Rightarrow> bytes" where
  "lt_sub h other = fold (lt_lane (-) other) lt_steps h"

section \<open>Collections\<close>

datatype app_state_collection = Regular | RegularHigh | RegularLow | CriticalBlock | CriticalUnblockLow

fun collection_name :: "app_state_collection \<Rightarrow> string" where
  "collection_name Regular = ''regular''"
| "collection_name RegularHigh = ''regular_high''"
| "collection_name RegularLow = ''regular_low''"
| "collection_name CriticalBlock = ''critical_block''"
| "collection_name CriticalUnblockLow = ''critical_unblock_low''"

definition all_collections :: "app_state_collection list" where
  "all_collections = [CriticalBlock, CriticalUnblockLow, Regular, RegularHigh, RegularLow]"

definition build_app_state_fetch_iq :: "string \<Rightarrow> string \<Rightarrow> u64 \<Rightarrow> bool \<Rightarrow> node" where
  "build_app_state_fetch_iq iq_id name version want_snapshot =
    (let col_attrs = attrs_insert ''name'' name [];
         col_attrs = attrs_insert ''return_snapshot'' (if want_snapshot then ''true'' else ''false'') col_attrs;
         col_attrs = (if \<not> want_snapshot then attrs_insert ''version'' (show_nat (unat version)) col_attrs else col_attrs);
         collection = Node ''collection'' col_attrs CNone;
         sync = Node ''sync'' [] (CNodes [collection]);
         iq_attrs = attr [(''id'', iq_id), (''xmlns'', ''w:sync:app:state''), (''type'', ''set''), (''to'', ''s.whatsapp.net'')]
     in Node ''iq'' iq_attrs (CNodes [sync]))"

section \<open>The tables\<close>

record chat_row =
  pinned :: bool
  archived :: bool
  muted_until :: "int option"

definition blank_chat :: chat_row where
  "blank_chat = \<lparr>pinned = False, archived = False, muted_until = None\<rparr>"

record sync_store =
  sync_versions :: "(string, u64 \<times> bytes) rows"
  main_keys :: "(bytes, bytes) rows"
  contact_rows :: "(string, string option \<times> string option) rows"
  chat_rows :: "(string, chat_row) rows"
  nct_salt :: "bytes option"

definition app_state_version_get :: "sync_store \<Rightarrow> string \<Rightarrow> u64" where
  "app_state_version_get st name = (case row_load (sync_versions st) name of Some (v, _) \<Rightarrow> v | None \<Rightarrow> 0)"

definition load_app_state_version :: "sync_store \<Rightarrow> string \<Rightarrow> u64" where
  "load_app_state_version st name = app_state_version_get st name"

definition app_state_hash_get :: "sync_store \<Rightarrow> string \<Rightarrow> bytes option" where
  "app_state_hash_get st name = map_option snd (row_load (sync_versions st) name)"

datatype app_state_error = BadPatch | MissingRecord | MissingBlob | ShortBlob | WrongKeyLength | StoreFailed

text \<open>The column is a signed 64-bit integer, and at the largest the statement fails, as PostgreSQL does; (SQLite would go on
  with a floating-point number there).\<close>

definition app_state_version_bump :: "string \<Rightarrow> bytes \<Rightarrow> sync_store \<Rightarrow> (app_state_error, sync_store) outcome" where
  "app_state_version_bump name hash st =
    (let v = app_state_version_get st name in
     if v = 0x7FFFFFFFFFFFFFFF then Err StoreFailed
     else Ok (st\<lparr>sync_versions := row_save (sync_versions st) name (v + 1, hash)\<rparr>))"

definition app_state_version_set :: "string \<Rightarrow> u64 \<Rightarrow> bytes \<Rightarrow> sync_store \<Rightarrow> sync_store" where
  "app_state_version_set name version hash st = st\<lparr>sync_versions := row_save (sync_versions st) name (version, hash)\<rparr>"

definition app_state_main_key_save :: "bytes \<Rightarrow> bytes \<Rightarrow> sync_store \<Rightarrow> sync_store" where
  "app_state_main_key_save key_id key_data st = st\<lparr>main_keys := row_save (main_keys st) key_id key_data\<rparr>"

definition app_state_main_key_load :: "sync_store \<Rightarrow> bytes \<Rightarrow> bytes option" where
  "app_state_main_key_load st key_id = row_load (main_keys st) key_id"

definition store_app_state_main_key :: "bytes \<Rightarrow> bytes \<Rightarrow> sync_store \<Rightarrow> sync_store" where
  "store_app_state_main_key key_id main_key st = app_state_main_key_save key_id main_key st"

definition load_app_state_main_key :: "sync_store \<Rightarrow> bytes \<Rightarrow> (app_state_error, bytes option) outcome" where
  "load_app_state_main_key st key_id =
    (case app_state_main_key_load st key_id of None \<Rightarrow> Ok None
     | Some b \<Rightarrow> if length b = 32 then Ok (Some b) else Err WrongKeyLength)"

text \<open>\<open>COALESCE\<close> keeps the old value where there is no new one.\<close>

definition coalesce :: "'a option \<Rightarrow> 'a option \<Rightarrow> 'a option" where
  "coalesce a b = (case a of Some x \<Rightarrow> Some x | None \<Rightarrow> b)"

definition contact_upsert :: "string \<Rightarrow> string option \<Rightarrow> string option \<Rightarrow> sync_store \<Rightarrow> sync_store" where
  "contact_upsert jid full_name push_name st =
    (let row = (case row_load (contact_rows st) jid of None \<Rightarrow> (full_name, push_name)
                | Some (f, p) \<Rightarrow> (coalesce full_name f, coalesce push_name p))
     in st\<lparr>contact_rows := row_save (contact_rows st) jid row\<rparr>)"

definition upsert_chat :: "string \<Rightarrow> (chat_row \<Rightarrow> chat_row) \<Rightarrow> sync_store \<Rightarrow> sync_store" where
  "upsert_chat jid f st =
    st\<lparr>chat_rows := row_save (chat_rows st) jid (f (or_default blank_chat (row_load (chat_rows st) jid)))\<rparr>"

definition chat_set_pinned :: "string \<Rightarrow> bool \<Rightarrow> sync_store \<Rightarrow> sync_store" where
  "chat_set_pinned jid b = upsert_chat jid (\<lambda>r. r\<lparr>pinned := b\<rparr>)"

definition chat_set_archived :: "string \<Rightarrow> bool \<Rightarrow> sync_store \<Rightarrow> sync_store" where
  "chat_set_archived jid b = upsert_chat jid (\<lambda>r. r\<lparr>archived := b\<rparr>)"

definition chat_set_muted :: "string \<Rightarrow> int option \<Rightarrow> sync_store \<Rightarrow> sync_store" where
  "chat_set_muted jid until = upsert_chat jid (\<lambda>r. r\<lparr>muted_until := until\<rparr>)"

definition session_set_nct_salt :: "bytes \<Rightarrow> sync_store \<Rightarrow> sync_store" where
  "session_set_nct_salt salt st = st\<lparr>nct_salt := Some salt\<rparr>"

section \<open>Messages\<close>

text \<open>\<open>KeyIdSubset\<close> and \<open>SyncdBlob\<close> are an optional field each.\<close>

record syncd_record =
  rec_index :: "bytes option option"
  rec_value :: "bytes option option"
  rec_key_id :: "bytes option option"

record syncd_mutation =
  mut_operation :: "int option"
  mut_record :: "syncd_record option"

record syncd_patch =
  patch_mutations :: "syncd_mutation list"
  patch_snapshot_mac :: "bytes option"
  patch_patch_mac :: "bytes option"
  patch_key_id :: "bytes option option"

record syncd_snapshot =
  snap_version :: "u64 option option"
  snap_records :: "syncd_record list"
  snap_mac :: "bytes option"
  snap_key_id :: "bytes option option"

record sync_action_value =
  contact_action :: "(string option \<times> string option) option"
  mute_action :: "(bool option \<times> int option) option"
  pin_action :: "bool option option"
  archive_chat_action :: "bool option option"
  nct_salt_sync_action :: "bytes option option"

record sync_action_data =
  ad_index :: "bytes option"
  ad_value :: "sync_action_value option"

record external_blob_reference =
  ext_media_key :: "bytes option"
  ext_direct_path :: "string option"

text \<open>The libraries: protobuf decoders, JSON, HMAC-SHA512, and the media primitives.\<close>

record app_state_lib = media_crypto +
  hmac512 :: "bytes \<Rightarrow> bytes \<Rightarrow> bytes"
  read_patch :: "bytes \<Rightarrow> syncd_patch option"
  read_snapshot :: "bytes \<Rightarrow> syncd_snapshot option"
  read_action :: "bytes \<Rightarrow> sync_action_data option"
  read_blob_ref :: "bytes \<Rightarrow> external_blob_reference option"
  read_json :: "string \<Rightarrow> json option"

section \<open>Keys and tags\<close>

record expanded_keys =
  mutation_cipher_key :: bytes
  value_mac_key :: bytes
  snapshot_mac_key :: bytes
  mutation_mac_key :: bytes
  patch_mac_key :: bytes

definition expand_app_state_keys :: "app_state_lib \<Rightarrow> bytes \<Rightarrow> expanded_keys" where
  "expand_app_state_keys lib main_key =
    (let out = hkdf_expand lib main_key (as_bytes ''WhatsApp Mutation Keys'') 160 in
     \<lparr>mutation_cipher_key = take 32 (drop 32 out),
      value_mac_key = take 32 (drop 64 out),
      snapshot_mac_key = take 32 (drop 96 out),
      mutation_mac_key = take 32 out,
      patch_mac_key = take 32 (drop 128 out)\<rparr>)"

definition expand_value_mac_to_lthash_input :: "app_state_lib \<Rightarrow> bytes \<Rightarrow> bytes" where
  "expand_value_mac_to_lthash_input lib value_mac = hkdf_expand lib value_mac (as_bytes ''WhatsApp Patch LTHash'') 128"

text \<open>\<open>operation + 1\<close> wraps in a release build.\<close>

definition compute_app_state_value_mac :: "app_state_lib \<Rightarrow> bytes \<Rightarrow> u8 \<Rightarrow> bytes \<Rightarrow> bytes \<Rightarrow> bytes" where
  "compute_app_state_value_mac lib key operation key_id data =
    take 32 (hmac512 lib key ([operation + 1] @ key_id @ data @ be_bytes 8 (length key_id + 1)))"

section \<open>Mutations\<close>

datatype app_state_mutation =
    ContactUpsert string "string option" "string option"
  | ChatPin string bool
  | ChatArchive string bool
  | ChatMute string "int option"
  | NctSalt bytes

definition parse_appstate_index_jid :: "app_state_lib \<Rightarrow> string \<Rightarrow> string option" where
  "parse_appstate_index_jid lib idx = Option.bind (read_json lib idx) (\<lambda>v. Option.bind (json_nth v 1) as_str)"

definition action_jid :: "app_state_lib \<Rightarrow> sync_action_data \<Rightarrow> string" where
  "action_jid lib a =
    or_default [] (parse_appstate_index_jid lib (or_default [] (Option.bind (ad_index a) from_utf8)))"

definition action_mutations :: "string \<Rightarrow> sync_action_value \<Rightarrow> app_state_mutation list" where
  "action_mutations jid v =
    (case contact_action v of Some (full, first) \<Rightarrow> [ContactUpsert jid full first] | None \<Rightarrow> []) @
    (case pin_action v of Some b \<Rightarrow> [ChatPin jid (or_default False b)] | None \<Rightarrow> []) @
    (case archive_chat_action v of Some b \<Rightarrow> [ChatArchive jid (or_default False b)] | None \<Rightarrow> []) @
    (case mute_action v of Some (muted, til) \<Rightarrow> [ChatMute jid (if or_default False muted then til else None)] | None \<Rightarrow> []) @
    (case nct_salt_sync_action v of Some (Some salt) \<Rightarrow> if salt \<noteq> [] then [NctSalt salt] else [] | _ \<Rightarrow> [])"

fun apply_app_state_mutation :: "app_state_mutation \<Rightarrow> sync_store \<Rightarrow> sync_store" where
  "apply_app_state_mutation (ContactUpsert jid full push) st = contact_upsert jid full push st"
| "apply_app_state_mutation (ChatPin jid b) st = chat_set_pinned jid b st"
| "apply_app_state_mutation (ChatArchive jid b) st = chat_set_archived jid b st"
| "apply_app_state_mutation (ChatMute jid til) st = chat_set_muted jid til st"
| "apply_app_state_mutation (NctSalt salt) st = (if salt \<noteq> [] then session_set_nct_salt salt st else st)"

text \<open>The decoder of patches whose values are in the clear.\<close>

definition plain_mutation :: "app_state_lib \<Rightarrow> syncd_mutation \<Rightarrow> app_state_mutation list" where
  "plain_mutation lib m =
    (case mut_record m of None \<Rightarrow> []
     | Some record \<Rightarrow>
         (case Option.bind (rec_value record) (\<lambda>b. b) of None \<Rightarrow> []
          | Some value_bytes \<Rightarrow>
              (case read_action lib value_bytes of None \<Rightarrow> []
               | Some a \<Rightarrow> (case ad_value a of None \<Rightarrow> [] | Some v \<Rightarrow> action_mutations (action_jid lib a) v))))"

definition decode_app_state_patch :: "app_state_lib \<Rightarrow> bytes \<Rightarrow> app_state_mutation list" where
  "decode_app_state_patch lib patch_bytes =
    (case read_patch lib patch_bytes of None \<Rightarrow> [] | Some patch \<Rightarrow> concat (map (plain_mutation lib) (patch_mutations patch)))"

section \<open>Encrypted records\<close>

text \<open>A tag that does not match is logged and changes nothing else.\<close>

datatype mac_mismatch = ValueMac u8 | SnapshotMac | PatchMac

record decode_state =
  ds_lthash :: bytes
  ds_out :: "app_state_mutation list"
  ds_key_cache :: "(bytes \<times> expanded_keys) list"
  ds_missing :: "bytes list"
  ds_log :: "mac_mismatch list"

definition record_keys :: "app_state_lib \<Rightarrow> sync_store \<Rightarrow> bytes \<Rightarrow> decode_state \<Rightarrow>
    (app_state_error, expanded_keys option) outcome \<times> decode_state" where
  "record_keys lib st key_id s =
    (case map_of (ds_key_cache s) key_id of
       Some k \<Rightarrow> (Ok (Some k), s)
     | None \<Rightarrow>
         (case load_app_state_main_key st key_id of
            Err e \<Rightarrow> (Err e, s)
          | Panic \<Rightarrow> (Panic, s)
          | Ok None \<Rightarrow> (Ok None, s\<lparr>ds_missing := ds_missing s @ [key_id]\<rparr>)
          | Ok (Some mk) \<Rightarrow>
              (let k = expand_app_state_keys lib mk in
               (Ok (Some k), s\<lparr>ds_key_cache := (key_id, k) # ds_key_cache s\<rparr>))))"

text \<open>What both decoders do with a blob of at least 48 bytes.\<close>

definition decode_blob :: "app_state_lib \<Rightarrow> expanded_keys \<Rightarrow> u8 \<Rightarrow> bytes \<Rightarrow> bytes \<Rightarrow> decode_state \<Rightarrow> decode_state" where
  "decode_blob lib keys op_byte key_id value_blob s =
    (let iv = take 16 value_blob;
         mac_offset = length value_blob - 32;
         ct = take (mac_offset - 16) (drop 16 value_blob);
         received_mac = drop mac_offset value_blob;
         want_mac = compute_app_state_value_mac lib (value_mac_key keys) op_byte key_id (take mac_offset value_blob);
         s = (if want_mac \<noteq> received_mac then s\<lparr>ds_log := ds_log s @ [ValueMac op_byte]\<rparr> else s)
     in case aes_cbc_decrypt lib (mutation_cipher_key keys) iv ct of None \<Rightarrow> s
        | Some action_data_bytes \<Rightarrow>
            (case read_action lib action_data_bytes of None \<Rightarrow> s
             | Some a \<Rightarrow>
                 (case ad_value a of None \<Rightarrow> s
                  | Some v \<Rightarrow>
                      (let lt_input = expand_value_mac_to_lthash_input lib received_mac in
                       s\<lparr>ds_out := ds_out s @ action_mutations (action_jid lib a) v,
                         ds_lthash := (if op_byte = 1 then lt_sub (ds_lthash s) lt_input
                                       else lt_add (ds_lthash s) lt_input)\<rparr>))))"

section \<open>Patches\<close>

definition patch_mutation :: "app_state_lib \<Rightarrow> sync_store \<Rightarrow> bytes option \<Rightarrow> syncd_mutation \<Rightarrow> decode_state \<Rightarrow>
    (app_state_error, unit) outcome \<times> decode_state" where
  "patch_mutation lib st patch_key m s =
    (let op_byte = word_of_int (or_default 0 (mut_operation m)) in
     case mut_record m of None \<Rightarrow> (Err MissingRecord, s)
     | Some record \<Rightarrow>
         (case (case Option.bind (rec_key_id record) (\<lambda>k. k) of Some k \<Rightarrow> Some k | None \<Rightarrow> patch_key) of
            None \<Rightarrow> (Ok (), s)
          | Some key_id \<Rightarrow>
              sbind (record_keys lib st key_id) (\<lambda>ks s.
                case ks of None \<Rightarrow> (Ok (), s)
                | Some keys \<Rightarrow>
                    (case Option.bind (rec_value record) (\<lambda>b. b) of None \<Rightarrow> (Err MissingBlob, s)
                     | Some value_blob \<Rightarrow>
                         if length value_blob < 16 + 32 then (Err ShortBlob, s)
                         else (Ok (), decode_blob lib keys op_byte key_id value_blob s))) s))"

primrec patch_loop :: "app_state_lib \<Rightarrow> sync_store \<Rightarrow> bytes option \<Rightarrow> syncd_mutation list \<Rightarrow> decode_state \<Rightarrow>
    (app_state_error, unit) outcome \<times> decode_state" where
  "patch_loop lib st patch_key [] s = (Ok (), s)"
| "patch_loop lib st patch_key (m # ms) s = sbind (patch_mutation lib st patch_key m) (\<lambda>_. patch_loop lib st patch_key ms) s"

definition initial_lthash :: "sync_store \<Rightarrow> string \<Rightarrow> bytes" where
  "initial_lthash st name =
    (case app_state_hash_get st name of Some b \<Rightarrow> if length b = 128 then b else lt_zero | None \<Rightarrow> lt_zero)"

text \<open>The tags of the patch. \<open>any_key\<close> is the first key that iterating over the cache gives.\<close>

definition patch_tags :: "app_state_lib \<Rightarrow> ((bytes \<times> expanded_keys) list \<Rightarrow> bytes option) \<Rightarrow> bytes option \<Rightarrow>
    syncd_patch \<Rightarrow> decode_state \<Rightarrow> mac_mismatch list" where
  "patch_tags lib any_key patch_key patch s =
    (case (case patch_key of Some k \<Rightarrow> Some k | None \<Rightarrow> any_key (ds_key_cache s)) of None \<Rightarrow> []
     | Some mac_key_id \<Rightarrow>
         (case map_of (ds_key_cache s) mac_key_id of None \<Rightarrow> []
          | Some keys \<Rightarrow>
              (case patch_snapshot_mac patch of None \<Rightarrow> []
               | Some want \<Rightarrow>
                   if hmac256 lib (snapshot_mac_key keys) (ds_lthash s @ mac_key_id) \<noteq> want then [SnapshotMac] else []) @
              (case patch_patch_mac patch of None \<Rightarrow> []
               | Some want \<Rightarrow>
                   if hmac256 lib (patch_mac_key keys) (or_default [] (patch_snapshot_mac patch) @ mac_key_id) \<noteq> want
                   then [PatchMac] else [])))"

text \<open>The result with the store, the missing keys and the log.\<close>

definition decode_authenticated_app_state_patch :: "app_state_lib \<Rightarrow> ((bytes \<times> expanded_keys) list \<Rightarrow> bytes option) \<Rightarrow>
    string \<Rightarrow> bytes \<Rightarrow> bytes list \<Rightarrow> sync_store \<Rightarrow>
    (app_state_error, app_state_mutation list) outcome \<times> sync_store \<times> bytes list \<times> mac_mismatch list" where
  "decode_authenticated_app_state_patch lib any_key name patch_bytes missing st =
    (case read_patch lib patch_bytes of None \<Rightarrow> (Err BadPatch, st, missing, [])
     | Some patch \<Rightarrow>
         (let patch_key = Option.bind (patch_key_id patch) (\<lambda>k. k);
              s = \<lparr>ds_lthash = initial_lthash st name, ds_out = [], ds_key_cache = [], ds_missing = missing, ds_log = []\<rparr>
          in case patch_loop lib st patch_key (patch_mutations patch) s of
               (Ok _, s) \<Rightarrow>
                 (let log = ds_log s @ patch_tags lib any_key patch_key patch s in
                  case app_state_version_bump name (ds_lthash s) st of
                    Ok st \<Rightarrow> (Ok (ds_out s), st, ds_missing s, log)
                  | Err e \<Rightarrow> (Err e, st, ds_missing s, log)
                  | Panic \<Rightarrow> (Panic, st, ds_missing s, log))
             | (Err e, s) \<Rightarrow> (Err e, st, ds_missing s, ds_log s)
             | (Panic, s) \<Rightarrow> (Panic, st, ds_missing s, ds_log s)))"

section \<open>Snapshots\<close>

definition snapshot_record :: "app_state_lib \<Rightarrow> sync_store \<Rightarrow> bytes option \<Rightarrow> syncd_record \<Rightarrow> decode_state \<Rightarrow>
    (app_state_error, unit) outcome \<times> decode_state" where
  "snapshot_record lib st snapshot_key record s =
    (case (case Option.bind (rec_key_id record) (\<lambda>k. k) of Some k \<Rightarrow> Some k | None \<Rightarrow> snapshot_key) of
       None \<Rightarrow> (Ok (), s)
     | Some key_id \<Rightarrow>
         sbind (record_keys lib st key_id) (\<lambda>ks s.
           case ks of None \<Rightarrow> (Ok (), s)
           | Some keys \<Rightarrow>
               (case Option.bind (rec_value record) (\<lambda>b. b) of None \<Rightarrow> (Ok (), s)
                | Some value_blob \<Rightarrow>
                    if length value_blob < 16 + 32 then (Ok (), s)
                    else (Ok (), decode_blob lib keys 0 key_id value_blob s))) s)"

primrec snapshot_loop :: "app_state_lib \<Rightarrow> sync_store \<Rightarrow> bytes option \<Rightarrow> syncd_record list \<Rightarrow> decode_state \<Rightarrow>
    (app_state_error, unit) outcome \<times> decode_state" where
  "snapshot_loop lib st snapshot_key [] s = (Ok (), s)"
| "snapshot_loop lib st snapshot_key (r # rs) s =
    sbind (snapshot_record lib st snapshot_key r) (\<lambda>_. snapshot_loop lib st snapshot_key rs) s"

definition decode_app_state_snapshot :: "app_state_lib \<Rightarrow> sync_store \<Rightarrow> bytes \<Rightarrow> bytes list \<Rightarrow>
    (app_state_error, u64 \<times> app_state_mutation list \<times> bytes) outcome \<times> bytes list \<times> mac_mismatch list" where
  "decode_app_state_snapshot lib st snapshot_bytes missing =
    (case read_snapshot lib snapshot_bytes of None \<Rightarrow> (Err BadPatch, missing, [])
     | Some snap \<Rightarrow>
         (let version = or_default 0 (Option.bind (snap_version snap) (\<lambda>v. v));
              snapshot_key = Option.bind (snap_key_id snap) (\<lambda>k. k);
              s = \<lparr>ds_lthash = lt_zero, ds_out = [], ds_key_cache = [], ds_missing = missing, ds_log = []\<rparr>
          in case snapshot_loop lib st snapshot_key (snap_records snap) s of
               (Ok _, s) \<Rightarrow> (Ok (version, ds_out s, ds_lthash s), ds_missing s, ds_log s)
             | (Err e, s) \<Rightarrow> (Err e, ds_missing s, ds_log s)
             | (Panic, s) \<Rightarrow> (Panic, ds_missing s, ds_log s)))"

section \<open>Readiness\<close>

datatype session_status =
    Pending | PendingOnboarding | Connecting | AwaitingQr | Syncing | Connected | Disconnected | ProxyError | LoggedOut | Blocked

text \<open>The events of a session's life cycle, and the fields of a session that the sync phase uses.\<close>

datatype sync_event =
    SyncingEvent | ConnectedEvent | ConnectingEvent | DisconnectedEvent string | LoggedOutEvent | PairedEvent string
  | QrEvent string

record sync_session =
  status :: session_status
  events :: "sync_event list"
  synced_collections :: "string set"
  sync_ready :: bool
  sync_deadline :: bool
  requested_app_state_keys :: "bytes set"

text \<open>\<open>sync_deadline\<close> says that the fallback timer is armed.\<close>

definition begin_sync :: "sync_session \<Rightarrow> sync_session" where
  "begin_sync s =
    s\<lparr>sync_ready := False, synced_collections := {}, status := Syncing, events := events s @ [SyncingEvent],
      sync_deadline := True\<rparr>"

definition mark_ready :: "sync_session \<Rightarrow> sync_session" where
  "mark_ready s =
    (if sync_ready s then s
     else s\<lparr>sync_ready := True, sync_deadline := False, status := Connected, events := events s @ [ConnectedEvent]\<rparr>)"

definition sync_deadline_fires :: "sync_session \<Rightarrow> sync_session" where
  "sync_deadline_fires s = (if sync_deadline s \<and> \<not> sync_ready s then mark_ready s else s)"

definition mark_collection_synced :: "string \<Rightarrow> sync_session \<Rightarrow> sync_session" where
  "mark_collection_synced name s =
    (let s = s\<lparr>synced_collections := insert name (synced_collections s)\<rparr>
     in if list_all (\<lambda>c. collection_name c \<in> synced_collections s) all_collections then mark_ready s else s)"

text \<open>The ids that \<open>seen.insert\<close> finds new, in order.\<close>

primrec unrequested :: "bytes list \<Rightarrow> bytes set \<Rightarrow> bytes list \<times> bytes set" where
  "unrequested [] seen = ([], seen)"
| "unrequested (i # ids) seen =
    (if i \<in> seen then unrequested ids seen
     else (let (out, seen) = unrequested ids (insert i seen) in (i # out, seen)))"

definition take_unrequested_app_state_keys :: "bytes list \<Rightarrow> sync_session \<Rightarrow> bytes list \<times> sync_session" where
  "take_unrequested_app_state_keys ids s =
    (let (out, seen) = unrequested ids (requested_app_state_keys s) in (out, s\<lparr>requested_app_state_keys := seen\<rparr>))"

section \<open>A sync reply\<close>

text \<open>What a handler of replies works with: \<open>download\<close> fetches a URL; the host is that of the media connection.\<close>

record sync_env =
  sync_lib :: app_state_lib
  sync_any_key :: "(bytes \<times> expanded_keys) list \<Rightarrow> bytes option"
  sync_host :: string
  sync_download :: "string \<Rightarrow> bytes option"

definition sync_snapshot :: "sync_env \<Rightarrow> string \<Rightarrow> node \<Rightarrow> sync_store \<times> bytes list \<Rightarrow> sync_store \<times> bytes list" where
  "sync_snapshot env name kid sm =
    (let (st, missing) = sm; lib = sync_lib env in
     case node_content kid of
       CBytes blob_bytes \<Rightarrow>
         (case read_blob_ref lib blob_bytes of None \<Rightarrow> sm
          | Some ext \<Rightarrow>
              (case (ext_direct_path ext, ext_media_key ext) of
                 (Some direct_path, Some mk) \<Rightarrow>
                   if length mk \<noteq> 32 then sm
                   else
                     (case sync_download env (''https://'' @ sync_host env @ direct_path) of None \<Rightarrow> sm
                      | Some blob \<Rightarrow>
                          (case decrypt_media lib blob mk AppState of
                             Ok snap_bytes \<Rightarrow>
                               (case decode_app_state_snapshot lib st snap_bytes missing of
                                  (Ok (version, muts, hash), missing', log) \<Rightarrow>
                                    (let st = fold apply_app_state_mutation muts st;
                                         had_missing = length missing < length missing'
                                     in (if had_missing then st else app_state_version_set name version hash st, missing'))
                                | (_, missing', log) \<Rightarrow> (st, missing'))
                           | _ \<Rightarrow> sm))
               | _ \<Rightarrow> sm))
     | _ \<Rightarrow> sm)"

definition sync_patch :: "sync_env \<Rightarrow> string \<Rightarrow> node \<Rightarrow> sync_store \<times> bytes list \<Rightarrow> sync_store \<times> bytes list" where
  "sync_patch env name patch sm =
    (let (st, missing) = sm in
     case node_content patch of
       CBytes pb \<Rightarrow>
         (case decode_authenticated_app_state_patch (sync_lib env) (sync_any_key env) name pb missing st of
            (Ok muts, st, missing, log) \<Rightarrow> (fold apply_app_state_mutation muts st, missing)
          | (_, st, missing, log) \<Rightarrow> (st, missing))
     | _ \<Rightarrow> sm)"

definition sync_child :: "sync_env \<Rightarrow> string \<Rightarrow> node \<Rightarrow> sync_store \<times> bytes list \<Rightarrow> sync_store \<times> bytes list" where
  "sync_child env name kid sm =
    (if tag kid = ''snapshot'' then sync_snapshot env name kid sm
     else if tag kid = ''patches'' then
       (case node_content kid of
          CNodes patch_nodes \<Rightarrow> fold (sync_patch env name) (filter (\<lambda>p. tag p = ''patch'') patch_nodes) sm
        | _ \<Rightarrow> sm)
     else sm)"

definition sync_collection :: "sync_env \<Rightarrow> node \<Rightarrow> sync_store \<times> sync_session \<times> bytes list \<Rightarrow> sync_store \<times> sync_session \<times> bytes list" where
  "sync_collection env collection w =
    (let (st, ss, missing) = w; name = or_default [] (get_attr collection ''name'') in
     case node_content collection of
       CNodes kids \<Rightarrow>
         (let (st, missing') = fold (sync_child env name) kids (st, missing) in
          (st, if length missing' = length missing then mark_collection_synced name ss else ss, missing'))
     | _ \<Rightarrow> (st, mark_collection_synced name ss, missing))"

text \<open>The keys asked for are the last component; \<open>request_app_state_keys\<close> asks nothing when there is none.\<close>

definition handle_app_state_sync_iq :: "sync_env \<Rightarrow> node \<Rightarrow> sync_store \<times> sync_session \<Rightarrow>
    sync_store \<times> sync_session \<times> bytes list" where
  "handle_app_state_sync_iq env sync w =
    (case node_content sync of
       CNodes collections \<Rightarrow>
         (let (st, ss, missing_keys) =
                fold (sync_collection env) (filter (\<lambda>c. tag c = ''collection'') collections) (fst w, snd w, []);
              (to_request, ss) = take_unrequested_app_state_keys missing_keys ss
          in (st, ss, to_request))
     | _ \<Rightarrow> (fst w, snd w, []))"

definition ship_app_state_fetches :: "(nat \<Rightarrow> string) \<Rightarrow> sync_store \<Rightarrow> node list" where
  "ship_app_state_fetches new_id st =
    map (\<lambda>(i, col).
      let name = collection_name col;
          version = load_app_state_version st name;
          want_snapshot = (version = 0)
      in build_app_state_fetch_iq (new_id i) name version want_snapshot) (enumerate 0 all_collections)"

text \<open>What the endpoint \<open>resync-appstate\<close> (\<open>src/src/api.rs\<close>) does before it reconnects.\<close>

definition resync_appstate_session :: "sync_store \<Rightarrow> sync_store" where
  "resync_appstate_session st = fold (\<lambda>col. app_state_version_set (collection_name col) 0 []) all_collections st"

text \<open>The keys of a share, each an optional id and optional data: those kept, and whether to fetch again.\<close>

definition store_shared_key :: "bytes option \<times> bytes option \<Rightarrow> sync_store \<times> nat \<Rightarrow> sync_store \<times> nat" where
  "store_shared_key k w =
    (case k of
       (Some key_id, Some key_data) \<Rightarrow>
         if length key_data = 32 then (store_app_state_main_key key_id key_data (fst w), snd w + 1) else w
     | _ \<Rightarrow> w)"

definition receive_key_share :: "(nat \<Rightarrow> string) \<Rightarrow> (bytes option \<times> bytes option) list \<Rightarrow> sync_store \<Rightarrow> sync_store \<times> node list" where
  "receive_key_share new_id ks st =
    (let (st, stored) = fold store_shared_key ks (st, 0) in
     (st, if 0 < stored then ship_app_state_fetches new_id st else []))"

end
