(* ===== verification/App_Sync.thy ===== *)
theory App_Sync
  imports App_State "HOL-Library.Multiset"
begin

text \<open>
  App-state sync is right where it can be: the hash of a collection is a sum, patches are read record by
  record under the keys they name, missing keys are asked for once and hold their collection back, and
  the sync phase ends exactly when every collection is in. Two things the code does not do are stated
  as well: it enforces no tag, and a snapshot that it meant to fetch again may wait for a resync that somebody asks for.
\<close>


section \<open>The hash adds lane by lane\<close>

text \<open>A running value to which entries are added and from which they are taken away again.\<close>

locale accumulator =
  fixes add :: "'s \<Rightarrow> 'e \<Rightarrow> 's"
    and sub :: "'s \<Rightarrow> 'e \<Rightarrow> 's"
    and ok :: "'s \<Rightarrow> bool"
  assumes ok_add: "ok s \<Longrightarrow> ok (add s x)"
    and ok_sub: "ok s \<Longrightarrow> ok (sub s x)"
    and add_add: "ok s \<Longrightarrow> add (add s x) y = add (add s y) x"
    and sub_add: "ok s \<Longrightarrow> sub (add s x) x = s"
    and add_sub: "ok s \<Longrightarrow> add (sub s x) x = s"
begin

lemma sub_add_commute: "ok s \<Longrightarrow> sub (add s x) y = add (sub s y) x"
proof -
  assume s: "ok s"
  have "sub (add s x) y = sub (add (add (sub s y) y) x) y" using add_sub [OF s] by simp
  also have "\<dots> = sub (add (add (sub s y) x) y) y" using add_add [OF ok_sub [OF s]] by simp
  also have "\<dots> = add (sub s y) x" using sub_add [OF ok_add [OF ok_sub [OF s]]] by simp
  finally show ?thesis .
qed

lemma sub_sub: "ok s \<Longrightarrow> sub (sub s x) y = sub (sub s y) x"
proof -
  assume s: "ok s"
  have "sub (sub s x) y = sub (sub (add (sub s y) y) x) y" using add_sub [OF s] by simp
  also have "\<dots> = sub (add (sub (sub s y) x) y) y" using sub_add_commute [OF ok_sub [OF s]] by simp
  also have "\<dots> = sub (sub s y) x" using sub_add [OF ok_sub [OF ok_sub [OF s]]] by simp
  finally show ?thesis .
qed

text \<open>An entry with whether it is removed.\<close>

definition change :: "bool \<times> 'e \<Rightarrow> 's \<Rightarrow> 's" where
  "change r s = (if fst r then sub s (snd r) else add s (snd r))"

lemma ok_change: "ok s \<Longrightarrow> ok (change r s)"
  by (simp add: change_def ok_add ok_sub)

lemma change_commute: "ok s \<Longrightarrow> change r (change q s) = change q (change r s)"
  by (simp add: change_def add_add sub_sub sub_add_commute)

lemma ok_changes: "ok s \<Longrightarrow> ok (fold change rs s)"
  by (induction rs arbitrary: s) (simp_all add: ok_change)

lemma changes_any_order: "mset rs = mset qs \<Longrightarrow> ok s \<Longrightarrow> fold change rs s = fold change qs s"
  by (rule fold_permuted_eq [where P = ok]) (auto intro: ok_change change_commute)

lemma changes_undone: "ok s \<Longrightarrow> fold change (rev (map (apfst Not) rs)) (fold change rs s) = s"
proof (induction rs arbitrary: s)
  case (Cons r rs)
  then have "fold change (rev (map (apfst Not) rs)) (fold change rs (change r s)) = change r s" by (simp add: ok_change)
  moreover have "change (apfst Not r) (change r s) = s" using Cons.prems by (cases r) (simp add: change_def sub_add add_sub)
  ultimately show ?case by simp
qed simp

end

definition lane :: "bytes \<Rightarrow> nat \<Rightarrow> u16" where
  "lane h k = u16_from_le (h ! (2 * k)) (h ! (2 * k + 1))"

lemma unat_u16_small: "n < 65536 \<Longrightarrow> unat (word_of_nat n :: u16) = n"
  by (simp add: unsigned_of_nat take_bit_nat_eq_self)

lemma u16_from_le_nat: "unat (u16_from_le a b) = unat b * 256 + unat a"
proof -
  have "le_nat [a, b] = unat b * 256 + unat a" by (simp add: le_nat_def be_nat_Cons)
  moreover have "unat b * 256 + unat a < 65536" using unat_u8_less [of a] unat_u8_less [of b] by linarith
  ultimately show ?thesis using unat_u16_small [of "le_nat [a, b]"] by (simp only: u16_from_le_def)
qed

lemma u16_from_le_inject: "u16_from_le a b = u16_from_le c d \<longleftrightarrow> a = c \<and> b = d"
proof
  have m: "unat (u16_from_le a b) mod 256 = unat a" "unat (u16_from_le a b) div 256 = unat b" for a b
    using unat_u8_less [of a] by (simp_all add: u16_from_le_nat)
  assume "u16_from_le a b = u16_from_le c d"
  then have "unat a = unat c" "unat b = unat d" using m by metis+
  then show "a = c \<and> b = d" by (simp add: word_unat_eq_iff)
qed simp

lemma u16_le_bytes: "u16_from_le (u16_to_le w ! 0) (u16_to_le w ! 1) = w"
proof -
  obtain a b where ab: "u16_to_le w = [a, b]" using list_of_2 [of "u16_to_le w"] by (auto simp: u16_to_le_def)
  then have "le_nat [a, b] = unat w" using unat_u16_less [of w] le_nat_le_bytes [of 2 "unat w"] by (simp add: u16_to_le_def)
  then show ?thesis by (simp add: ab u16_from_le_def)
qed

lemma length_lt_lane [simp]: "length (lt_lane f x i h) = length h"
  by (simp add: lt_lane_def Let_def)

lemma lane_lt_lane:
  assumes "length h = 128" "k < 64" "j < 64"
  shows "lane (lt_lane f x (2 * k) h) j = (if j = k then f (lane h k) (lane x k) else lane h j)"
proof -
  have "2 * j \<noteq> 2 * k + 1" "2 * j + 1 \<noteq> 2 * k" by presburger+
  then show ?thesis using assms by (simp add: lane_def lt_lane_def Let_def u16_le_bytes [unfolded One_nat_def] nth_list_update)
qed

lemma lanes_fold:
  "distinct ks \<Longrightarrow> set ks \<subseteq> {..<64} \<Longrightarrow> length h = 128 \<Longrightarrow> j < 64 \<Longrightarrow>
    length (fold (lt_lane f x) (map (\<lambda>k. 2 * k) ks) h) = 128 \<and>
    lane (fold (lt_lane f x) (map (\<lambda>k. 2 * k) ks) h) j = (if j \<in> set ks then f (lane h j) (lane x j) else lane h j)"
  by (induction ks arbitrary: h) (simp_all add: lane_lt_lane)

lemma length_lt [simp]: "length h = 128 \<Longrightarrow> length (lt_add h x) = 128" "length h = 128 \<Longrightarrow> length (lt_sub h x) = 128"
  using lanes_fold [of "[0..<64]" h 0] by (auto simp: lt_add_def lt_sub_def lt_steps_def lessThan_atLeast0)

lemma lane_lt [simp]:
  "length h = 128 \<Longrightarrow> j < 64 \<Longrightarrow> lane (lt_add h x) j = lane h j + lane x j"
  "length h = 128 \<Longrightarrow> j < 64 \<Longrightarrow> lane (lt_sub h x) j = lane h j - lane x j"
  using lanes_fold [of "[0..<64]" h j] by (auto simp: lt_add_def lt_sub_def lt_steps_def lessThan_atLeast0)

lemma lanes_eqI:
  assumes "length h = 128" "length h' = 128" "\<And>j. j < 64 \<Longrightarrow> lane h j = lane h' j"
  shows "h = h'"
proof (rule nth_equalityI)
  fix i assume "i < length h"
  then have j: "i div 2 < 64" using assms(1) by simp
  from assms(3) [OF this] have "h ! (2 * (i div 2)) = h' ! (2 * (i div 2))" "h ! (2 * (i div 2) + 1) = h' ! (2 * (i div 2) + 1)"
    by (simp_all add: lane_def u16_from_le_inject)
  then show "h ! i = h' ! i" by (cases "even i") (auto elim!: evenE oddE)
qed (simp add: assms)

interpretation lthash: accumulator lt_add lt_sub "\<lambda>h. length h = 128"
  by unfold_locales (auto intro!: lanes_eqI)

text \<open>The value of a lane, read off the bytes: the low one first.\<close>

definition lane_value :: "bytes \<Rightarrow> nat \<Rightarrow> int" where
  "lane_value h k = uint (h ! (2 * k)) + 256 * uint (h ! (2 * k + 1))"

lemma lane_value_uint: "lane_value h k = uint (lane h k)"
  unfolding lane_value_def lane_def
  by (simp only: uint_nat u16_from_le_nat of_nat_add of_nat_mult of_nat_numeral mult.commute add.commute)

lemma mod_shift: "(x mod m + s - t) mod m = (x + s - t) mod (m :: int)"
  using mod_add_left_eq [of x m "s - t"] by (simp only: add_diff_eq)

definition lane_total :: "nat \<Rightarrow> bytes list \<Rightarrow> int" where
  "lane_total k xs = sum_list (map (\<lambda>x. lane_value x k) xs)"

lemma lane_changes:
  "length h = 128 \<Longrightarrow> k < 64 \<Longrightarrow>
    lane_value (fold lthash.change rs h) k =
      (lane_value h k + lane_total k (map snd (filter (Not \<circ> fst) rs)) - lane_total k (map snd (filter fst rs))) mod 65536"
proof (induction rs arbitrary: h)
  case Nil
  have "uint (lane h k) < 65536" using uint_bounded [of "lane h k"] by simp
  then show ?case by (simp add: lane_total_def lane_value_uint)
next
  case (Cons r rs)
  have l: "length (lthash.change r h) = 128" using Cons.prems(1) by (rule lthash.ok_change)
  have v: "lane_value (lthash.change r h) k =
    (if fst r then lane_value h k - lane_value (snd r) k else lane_value h k + lane_value (snd r) k) mod 65536"
    using Cons.prems by (simp add: lthash.change_def lane_value_uint uint_word_ariths)
  show ?case unfolding fold.simps o_apply Cons.IH [OF l Cons.prems(2)] v mod_shift
    by (simp add: lane_total_def algebra_simps)
qed

text \<open>C29: The hash of a collection is a sum of 64 lanes, little-endian numbers of sixteen bits: after any records are added and
  removed, each lane is its old value plus the lanes of what was added minus those of what was removed,
  modulo 65,536. So the order does not matter, and what is removed leaves no trace.\<close>

theorem lthash_is_lane_sum:
  assumes "length h = 128"
  defines "hash \<equiv> fold (\<lambda>(rm, x) h. if rm then lt_sub h x else lt_add h x)"
  shows "length (hash rs h) = 128 \<and>
    (\<forall>k < 64. lane_value (hash rs h) k =
      (lane_value h k + lane_total k (map snd (filter (Not \<circ> fst) rs)) - lane_total k (map snd (filter fst rs))) mod 65536) \<and>
    (\<forall>qs. mset qs = mset rs \<longrightarrow> hash qs h = hash rs h) \<and>
    hash (rev (map (apfst Not) rs)) (hash rs h) = h"
proof -
  have hash: "hash = fold lthash.change"
    unfolding hash_def by (rule arg_cong [where f = fold]) (auto simp: lthash.change_def fun_eq_iff)
  have "length (fold lthash.change rs h) = 128" by (rule lthash.ok_changes [OF assms(1)])
  moreover have "\<forall>qs. mset qs = mset rs \<longrightarrow> fold lthash.change qs h = fold lthash.change rs h"
    using lthash.changes_any_order [OF _ assms(1)] by blast
  ultimately show ?thesis unfolding hash
    using lane_changes [OF assms(1)] lthash.changes_undone [OF assms(1), of rs] by blast
qed


section \<open>Records that decrypt\<close>

text \<open>A record as a device seals it: the operation, the key, the IV, the encoded action and the tag, which
  may be any 32 bytes.\<close>

record sealed_record =
  sr_op :: u8
  sr_key_id :: bytes
  sr_iv :: bytes
  sr_plain :: bytes
  sr_tag :: bytes

definition sealed_blob :: "app_state_lib \<Rightarrow> bytes \<Rightarrow> sealed_record \<Rightarrow> bytes" where
  "sealed_blob lib mk r =
    sr_iv r @ aes_cbc_encrypt lib (mutation_cipher_key (expand_app_state_keys lib mk)) (sr_iv r) (sr_plain r) @ sr_tag r"

text \<open>The tag that belongs on it.\<close>

definition record_tag :: "app_state_lib \<Rightarrow> bytes \<Rightarrow> sealed_record \<Rightarrow> bytes" where
  "record_tag lib mk r =
    (let k = expand_app_state_keys lib mk in
     compute_app_state_value_mac lib (value_mac_key k) (sr_op r) (sr_key_id r)
       (sr_iv r @ aes_cbc_encrypt lib (mutation_cipher_key k) (sr_iv r) (sr_plain r)))"

definition sealed_record_msg :: "app_state_lib \<Rightarrow> bytes \<Rightarrow> sealed_record \<Rightarrow> syncd_record" where
  "sealed_record_msg lib mk r =
    \<lparr>rec_index = None, rec_value = Some (Some (sealed_blob lib mk r)), rec_key_id = Some (Some (sr_key_id r))\<rparr>"

definition sealed_mutation :: "app_state_lib \<Rightarrow> (bytes \<Rightarrow> bytes) \<Rightarrow> sealed_record \<Rightarrow> syncd_mutation" where
  "sealed_mutation lib mk r =
    \<lparr>mut_operation = Some (uint (sr_op r)), mut_record = Some (sealed_record_msg lib (mk (sr_key_id r)) r)\<rparr>"

text \<open>What a record says, and its effect on the hash.\<close>

definition record_mutations :: "app_state_lib \<Rightarrow> sealed_record \<Rightarrow> app_state_mutation list" where
  "record_mutations lib r =
    (case read_action lib (sr_plain r) of None \<Rightarrow> []
     | Some a \<Rightarrow> (case ad_value a of None \<Rightarrow> [] | Some v \<Rightarrow> action_mutations (action_jid lib a) v))"

definition hash_record :: "app_state_lib \<Rightarrow> sealed_record \<Rightarrow> bytes \<Rightarrow> bytes" where
  "hash_record lib r h =
    (let x = expand_value_mac_to_lthash_input lib (sr_tag r) in if sr_op r = 1 then lt_sub h x else lt_add h x)"

definition sealed_ok :: "app_state_lib \<Rightarrow> (bytes \<Rightarrow> bytes) \<Rightarrow> sync_store \<Rightarrow> sealed_record \<Rightarrow> bool" where
  "sealed_ok lib mk st r \<longleftrightarrow> length (sr_iv r) = 16 \<and> length (sr_tag r) = 32 \<and>
    (case read_action lib (sr_plain r) of None \<Rightarrow> False | Some a \<Rightarrow> ad_value a \<noteq> None) \<and>
    load_app_state_main_key st (sr_key_id r) = Ok (Some (mk (sr_key_id r)))"

text \<open>A cache holds the expansions of keys in the store.\<close>

definition cache_ok :: "app_state_lib \<Rightarrow> sync_store \<Rightarrow> (bytes \<times> expanded_keys) list \<Rightarrow> bool" where
  "cache_ok lib st cache \<longleftrightarrow>
    (\<forall>i k. map_of cache i = Some k \<longrightarrow> (\<exists>mk. load_app_state_main_key st i = Ok (Some mk) \<and> k = expand_app_state_keys lib mk))"

lemma record_keys_known:
  assumes "load_app_state_main_key st i = Ok (Some mk)" "cache_ok lib st (ds_key_cache s)"
  shows "\<exists>cache. record_keys lib st i s = (Ok (Some (expand_app_state_keys lib mk)), s\<lparr>ds_key_cache := cache\<rparr>) \<and> cache_ok lib st cache"
proof (cases "map_of (ds_key_cache s) i")
  case None
  let ?c = "(i, expand_app_state_keys lib mk) # ds_key_cache s"
  have "cache_ok lib st ?c" using assms unfolding cache_ok_def by (simp split: if_split)
  then show ?thesis using None assms(1) by (intro exI [of _ ?c]) (simp add: record_keys_def Let_def)
next
  case (Some k)
  from assms(2) [unfolded cache_ok_def, rule_format, OF this] have "k = expand_app_state_keys lib mk" using assms(1) by auto
  then show ?thesis using Some assms(2) by (intro exI [of _ "ds_key_cache s"]) (simp add: record_keys_def)
qed

lemma record_keys_missing:
  assumes "load_app_state_main_key st i = Ok None" "cache_ok lib st (ds_key_cache s)"
  shows "record_keys lib st i s = (Ok None, s\<lparr>ds_missing := ds_missing s @ [i]\<rparr>)"
proof (cases "map_of (ds_key_cache s) i")
  case (Some k)
  from assms(2) [unfolded cache_ok_def, rule_format, OF this] assms(1) show ?thesis by auto
qed (use assms(1) in \<open>simp add: record_keys_def\<close>)

lemma decode_sealed:
  assumes "length (sr_iv r) = 16" "length (sr_tag r) = 32"
    and "\<And>k iv p. aes_cbc_decrypt lib k iv (aes_cbc_encrypt lib k iv p) = Some p"
    and "case read_action lib (sr_plain r) of None \<Rightarrow> False | Some a \<Rightarrow> ad_value a \<noteq> None"
  shows "decode_blob lib (expand_app_state_keys lib mk) (sr_op r) (sr_key_id r) (sealed_blob lib mk r) s =
    s\<lparr>ds_out := ds_out s @ record_mutations lib r, ds_lthash := hash_record lib r (ds_lthash s),
      ds_log := ds_log s @ (if record_tag lib mk r = sr_tag r then [] else [ValueMac (sr_op r)])\<rparr>"
proof -
  let ?k = "expand_app_state_keys lib mk"
  let ?ct = "aes_cbc_encrypt lib (mutation_cipher_key ?k) (sr_iv r) (sr_plain r)"
  let ?b = "sealed_blob lib mk r"
  have l: "length ?b - 32 = 16 + length ?ct" using assms(1,2) by (simp add: sealed_blob_def)
  have p: "take 16 ?b = sr_iv r" "take (16 + length ?ct - 16) (drop 16 ?b) = ?ct"
    "drop (16 + length ?ct) ?b = sr_tag r" "take (16 + length ?ct) ?b = sr_iv r @ ?ct"
    using assms(1) by (simp_all add: sealed_blob_def)
  from assms(4) obtain a v where av: "read_action lib (sr_plain r) = Some a" "ad_value a = Some v"
    by (auto split: option.splits)
  show ?thesis
    unfolding decode_blob_def l p Let_def record_tag_def [of lib mk r, unfolded Let_def, symmetric]
    by (simp add: p assms(3) av record_mutations_def hash_record_def Let_def record_tag_def)
qed

lemma patch_mutation_sealed:
  assumes "sealed_ok lib mk st r" "cache_ok lib st (ds_key_cache s)"
    and "\<And>k iv p. aes_cbc_decrypt lib k iv (aes_cbc_encrypt lib k iv p) = Some p"
  shows "\<exists>cache. patch_mutation lib st pk (sealed_mutation lib mk r) s =
    (Ok (), s\<lparr>ds_out := ds_out s @ record_mutations lib r, ds_lthash := hash_record lib r (ds_lthash s),
      ds_log := ds_log s @ (if record_tag lib (mk (sr_key_id r)) r = sr_tag r then [] else [ValueMac (sr_op r)]),
      ds_key_cache := cache\<rparr>) \<and> cache_ok lib st cache"
proof -
  from assms(1) have r: "length (sr_iv r) = 16" "length (sr_tag r) = 32"
    "case read_action lib (sr_plain r) of None \<Rightarrow> False | Some a \<Rightarrow> ad_value a \<noteq> None"
    "load_app_state_main_key st (sr_key_id r) = Ok (Some (mk (sr_key_id r)))" by (auto simp: sealed_ok_def)
  from record_keys_known [OF r(4) assms(2)] obtain cache where
    c: "record_keys lib st (sr_key_id r) s = (Ok (Some (expand_app_state_keys lib (mk (sr_key_id r)))), s\<lparr>ds_key_cache := cache\<rparr>)"
      "cache_ok lib st cache" by auto
  have "\<not> length (sealed_blob lib (mk (sr_key_id r)) r) < 48" using r by (simp add: sealed_blob_def)
  then show ?thesis
    using c(2) decode_sealed [OF r(1,2) assms(3) r(3), where mk = "mk (sr_key_id r)" and s = "s\<lparr>ds_key_cache := cache\<rparr>"]
    by (auto simp: patch_mutation_def sealed_mutation_def sealed_record_msg_def or_default_def sbind_Ok [where m = "record_keys lib st (sr_key_id r)" and s = s, OF c(1)] Let_def intro!: exI [of _ cache])
qed

definition tag_log :: "app_state_lib \<Rightarrow> (bytes \<Rightarrow> bytes) \<Rightarrow> sealed_record list \<Rightarrow> mac_mismatch list" where
  "tag_log lib mk rs = map (\<lambda>r. ValueMac (sr_op r)) (filter (\<lambda>r. record_tag lib (mk (sr_key_id r)) r \<noteq> sr_tag r) rs)"

lemma patch_loop_sealed:
  assumes d: "\<And>k iv p. aes_cbc_decrypt lib k iv (aes_cbc_encrypt lib k iv p) = Some p"
  shows "list_all (sealed_ok lib mk st) rs \<Longrightarrow> cache_ok lib st (ds_key_cache s) \<Longrightarrow>
    \<exists>cache. patch_loop lib st pk (map (sealed_mutation lib mk) rs) s =
      (Ok (), s\<lparr>ds_out := ds_out s @ concat (map (record_mutations lib) rs), ds_lthash := fold (hash_record lib) rs (ds_lthash s),
        ds_log := ds_log s @ tag_log lib mk rs, ds_key_cache := cache\<rparr>)"
proof (induction rs arbitrary: s)
  case Nil
  then show ?case by (auto simp: tag_log_def intro!: exI [of _ "ds_key_cache s"])
next
  case (Cons r rs)
  then obtain cache where c: "patch_mutation lib st pk (sealed_mutation lib mk r) s =
    (Ok (), s\<lparr>ds_out := ds_out s @ record_mutations lib r, ds_lthash := hash_record lib r (ds_lthash s),
      ds_log := ds_log s @ (if record_tag lib (mk (sr_key_id r)) r = sr_tag r then [] else [ValueMac (sr_op r)]),
      ds_key_cache := cache\<rparr>)" (is "_ = (_, ?s)") "cache_ok lib st cache"
    using patch_mutation_sealed [of lib mk st r s pk] d by auto
  from Cons.IH [of ?s] Cons.prems c(2) obtain cache' where
    "patch_loop lib st pk (map (sealed_mutation lib mk) rs) ?s =
      (Ok (), ?s\<lparr>ds_out := ds_out ?s @ concat (map (record_mutations lib) rs), ds_lthash := fold (hash_record lib) rs (ds_lthash ?s),
        ds_log := ds_log ?s @ tag_log lib mk rs, ds_key_cache := cache'\<rparr>)" by auto
  then show ?case
    by (intro exI [of _ cache']) (simp add: sbind_Ok [where m = "patch_mutation lib st pk (sealed_mutation lib mk r)" and s = s, OF c(1)] tag_log_def)
qed


section \<open>Patches\<close>

text \<open>The tags a device puts on a patch with this key and this hash.\<close>

definition tagged_patch :: "app_state_lib \<Rightarrow> bytes \<Rightarrow> bytes \<Rightarrow> bytes \<Rightarrow> syncd_patch \<Rightarrow> bool" where
  "tagged_patch lib key_id main_key hash p \<longleftrightarrow>
    (let k = expand_app_state_keys lib main_key; smac = hmac256 lib (snapshot_mac_key k) (hash @ key_id) in
     patch_key_id p = Some (Some key_id) \<and> patch_snapshot_mac p = Some smac \<and>
     patch_patch_mac p = Some (hmac256 lib (patch_mac_key k) (smac @ key_id)))"

lemma cache_ok_Nil [simp]: "cache_ok lib st []"
  by (simp add: cache_ok_def)

lemma patch_loop_cache:
  assumes "patch_loop lib st pk ms s = (Ok (), s')" "cache_ok lib st (ds_key_cache s)"
  shows "cache_ok lib st (ds_key_cache s')"
proof -
  have rk: "cache_ok lib st (ds_key_cache s') " if "record_keys lib st i s = (r, s')" "cache_ok lib st (ds_key_cache s)" for i r s s'
    using that unfolding record_keys_def cache_ok_def Let_def
    by (auto split: option.splits outcome.splits if_splits)
  have db: "ds_key_cache (decode_blob lib k op i b s) = ds_key_cache s" for k op i b s
    by (simp add: decode_blob_def Let_def split: option.split)
  have pm: "cache_ok lib st (ds_key_cache s')" if "patch_mutation lib st pk m s = (Ok (), s')" "cache_ok lib st (ds_key_cache s)" for m s s'
    using that rk by (auto simp: patch_mutation_def Let_def sbind_eq_Ok db split: option.splits if_splits)
  show ?thesis using assms
    by (induction ms arbitrary: s) (auto simp: sbind_eq_Ok dest: pm)
qed

text \<open>C30: a patch is read record by record: each is decrypted under the key that it names and all that they
  say comes out in order; the version of the collection goes up by one and its hash takes every
  record in. The tags decide nothing: a record, and a patch, whose tag is wrong is logged and
  applied all the same. A patch that its sender tagged properly is not complained about.\<close>

theorem patch_decoded:
  assumes "\<And>k iv p. aes_cbc_decrypt lib k iv (aes_cbc_encrypt lib k iv p) = Some p"
    and "read_patch lib pb = Some p" "patch_mutations p = map (sealed_mutation lib mk) rs"
    and "list_all (sealed_ok lib mk st) rs" "app_state_version_get st name \<noteq> 0x7FFFFFFFFFFFFFFF"
  shows "\<exists>log. decode_authenticated_app_state_patch lib any_key name pb missing st =
      (Ok (concat (map (record_mutations lib) rs)),
       st\<lparr>sync_versions := row_save (sync_versions st) name
          (app_state_version_get st name + 1, fold (hash_record lib) rs (initial_lthash st name))\<rparr>,
       missing, log) \<and>
    ((\<forall>r \<in> set rs. sr_tag r = record_tag lib (mk (sr_key_id r)) r) \<and> load_app_state_main_key st k = Ok (Some (mk k)) \<and>
      tagged_patch lib k (mk k) (fold (hash_record lib) rs (initial_lthash st name)) p \<longrightarrow> log = [])"
proof -
  let ?pk = "Option.bind (patch_key_id p) (\<lambda>k. k)" and ?h = "fold (hash_record lib) rs (initial_lthash st name)"
  let ?s = "\<lparr>ds_lthash = initial_lthash st name, ds_out = [], ds_key_cache = [], ds_missing = missing, ds_log = []\<rparr>"
  let ?s' = "\<lambda>cache. \<lparr>ds_lthash = ?h, ds_out = concat (map (record_mutations lib) rs), ds_key_cache = cache,
    ds_missing = missing, ds_log = tag_log lib mk rs\<rparr>"
  from patch_loop_sealed [OF assms(1,4), of ?s ?pk] obtain cache where
    l: "patch_loop lib st ?pk (map (sealed_mutation lib mk) rs) ?s = (Ok (), ?s' cache)" by auto
  have c: "cache_ok lib st cache" using patch_loop_cache [OF l] by simp
  have e: "decode_authenticated_app_state_patch lib any_key name pb missing st =
      (Ok (concat (map (record_mutations lib) rs)),
       st\<lparr>sync_versions := row_save (sync_versions st) name (app_state_version_get st name + 1, ?h)\<rparr>,
       missing, tag_log lib mk rs @ patch_tags lib any_key ?pk p (?s' cache))"
    using assms(2,3,5) l by (simp add: decode_authenticated_app_state_patch_def app_state_version_bump_def Let_def)
  have "tag_log lib mk rs = []" if "\<forall>r \<in> set rs. sr_tag r = record_tag lib (mk (sr_key_id r)) r"
    using that by (auto simp: tag_log_def filter_empty_conv)
  moreover have "patch_tags lib any_key ?pk p (?s' cache) = []"
    if k: "load_app_state_main_key st k = Ok (Some (mk k))" and t: "tagged_patch lib k (mk k) ?h p"
  proof (cases "map_of cache k")
    case None
    with t show ?thesis by (simp add: patch_tags_def tagged_patch_def Let_def)
  next
    case (Some ks)
    from c [unfolded cache_ok_def, rule_format, OF this] k have "ks = expand_app_state_keys lib (mk k)" by auto
    with t Some show ?thesis by (simp add: patch_tags_def tagged_patch_def Let_def or_default_def)
  qed
  ultimately show ?thesis using e by auto
qed

section \<open>The sync phase\<close>

datatype sync_op = CollectionSynced string | DeadlineFires

fun sync_op_step :: "sync_op \<Rightarrow> sync_session \<Rightarrow> sync_session" where
  "sync_op_step (CollectionSynced name) s = mark_collection_synced name s"
| "sync_op_step DeadlineFires s = sync_deadline_fires s"

definition sync_names :: "string set" where
  "sync_names = set (map collection_name all_collections)"

lemma all_synced_iff: "list_all (\<lambda>c. collection_name c \<in> S) all_collections \<longleftrightarrow> sync_names \<subseteq> S"
  by (auto simp: sync_names_def list_all_iff)

lemma mark_ready_idle: "sync_ready s \<Longrightarrow> mark_ready s = s"
  by (simp add: mark_ready_def)

text \<open>What a session looks like after the marks \<open>ms\<close> since the last start, the deadline having fired or not.\<close>

definition phase :: "sync_session \<Rightarrow> string set \<Rightarrow> bool \<Rightarrow> sync_session" where
  "phase s ms fired =
    (let ready = fired \<or> sync_names \<subseteq> ms in
     s\<lparr>synced_collections := ms, sync_ready := ready, sync_deadline := \<not> ready,
       status := (if ready then Connected else Syncing),
       events := events s @ [SyncingEvent] @ (if ready then [ConnectedEvent] else [])\<rparr>)"

lemma sync_names_not_empty: "\<not> sync_names \<subseteq> {}"
  by (simp add: sync_names_def all_collections_def)

lemma phase_start: "begin_sync s = phase s {} False"
  using sync_names_not_empty by (simp add: begin_sync_def phase_def Let_def)

lemma phase_step:
  "sync_op_step opn (phase s ms fired) =
    (case opn of CollectionSynced n \<Rightarrow> phase s (insert n ms) fired | DeadlineFires \<Rightarrow> phase s ms True)"
proof (cases opn)
  case (CollectionSynced n)
  have "sync_names \<subseteq> ms \<Longrightarrow> sync_names \<subseteq> insert n ms" by auto
  then show ?thesis
    by (simp add: CollectionSynced mark_collection_synced_def phase_def mark_ready_def all_synced_iff Let_def)
qed (simp add: sync_deadline_fires_def phase_def mark_ready_def Let_def)

lemma phase_run:
  "fold sync_op_step ops (phase s ms fired) =
    phase s (ms \<union> {n. CollectionSynced n \<in> set ops}) (fired \<or> DeadlineFires \<in> set ops)"
proof (induction ops arbitrary: ms fired)
  case (Cons opn ops)
  have "insert n ms \<union> {n. CollectionSynced n \<in> set ops} = ms \<union> {na. na = n \<or> CollectionSynced na \<in> set ops}" for n by auto
  then show ?case using Cons by (cases opn) (simp_all add: phase_step)
qed simp

text \<open>C31: the sync phase after a login, whatever happens in it and how often: the session is ready exactly
  when every collection was synced or the deadline fired, and it announces that once.\<close>

theorem sync_phase:
  "let s' = fold sync_op_step ops (begin_sync s);
       ready = (DeadlineFires \<in> set ops \<or> (\<forall>c. CollectionSynced (collection_name c) \<in> set ops))
   in sync_ready s' = ready \<and> status s' = (if ready then Connected else Syncing) \<and>
      events s' = events s @ SyncingEvent # (if ready then [ConnectedEvent] else [])"
proof -
  have "c \<in> set all_collections" for c by (cases c) (simp_all add: all_collections_def)
  then have "sync_names \<subseteq> {n. CollectionSynced n \<in> set ops} \<longleftrightarrow> (\<forall>c. CollectionSynced (collection_name c) \<in> set ops)"
    by (auto simp: sync_names_def)
  then show ?thesis unfolding phase_start phase_run by (simp add: phase_def Let_def)
qed

section \<open>Keys are asked for once\<close>

lemma unrequested_new:
  "distinct (fst (unrequested ids seen)) \<and> set (fst (unrequested ids seen)) = set ids - seen \<and>
    snd (unrequested ids seen) = seen \<union> set ids"
proof (induction ids arbitrary: seen)
  case (Cons i ids)
  show ?case
  proof (cases "i \<in> seen")
    case False
    obtain out seen' where u: "unrequested ids (insert i seen) = (out, seen')" by force
    from Cons.IH [of "insert i seen"] have o: "distinct out" "set out = set ids - insert i seen" "seen' = insert i seen \<union> set ids"
      unfolding u by simp_all
    have "unrequested (i # ids) seen = (i # out, seen')" using False u by simp
    moreover have "insert i (set out) = set (i # ids) - seen" unfolding o(2) using False by auto
    ultimately show ?thesis using o(1,3) by (simp add: o(2))
  qed (use Cons.IH [of seen] in auto)
qed simp

primrec key_requests :: "bytes list list \<Rightarrow> sync_session \<Rightarrow> bytes list list" where
  "key_requests [] s = []"
| "key_requests (ids # r) s =
    (let (out, s) = take_unrequested_app_state_keys ids s in out # key_requests r s)"

lemma take_unrequested:
  assumes "take_unrequested_app_state_keys ids s = (out, s')"
  shows "distinct out \<and> set out = set ids - requested_app_state_keys s \<and>
    requested_app_state_keys s' = requested_app_state_keys s \<union> set ids"
proof -
  obtain o' seen where u: "unrequested ids (requested_app_state_keys s) = (o', seen)" by force
  then have "out = o'" "s' = s\<lparr>requested_app_state_keys := seen\<rparr>"
    using assms by (simp_all add: take_unrequested_app_state_keys_def)
  then show ?thesis using unrequested_new [of ids "requested_app_state_keys s"] by (simp add: u)
qed

text \<open>However often a key is found missing, in one reply or in many, the phone is asked for it exactly once.\<close>

theorem keys_requested_once:
  "distinct (concat (key_requests missing s)) \<and>
    set (concat (key_requests missing s)) = \<Union> (set (map set missing)) - requested_app_state_keys s"
proof (induction missing arbitrary: s)
  case (Cons ids r)
  obtain out s' where t: "take_unrequested_app_state_keys ids s = (out, s')" by force
  note d = take_unrequested [OF t] and r = Cons.IH [of s']
  have "set (concat (key_requests (ids # r) s)) = set out \<union> set (concat (key_requests r s'))" by (simp add: t)
  then have "set (concat (key_requests (ids # r) s)) = \<Union> (set (map set (ids # r))) - requested_app_state_keys s"
    using d r by auto
  moreover have "set out \<inter> set (concat (key_requests r s')) = {}" using d r by auto
  ultimately show ?case using d r by (simp add: t)
qed simp


section \<open>What a reply does\<close>

text \<open>Missing keys are only ever added.\<close>

definition adds_missing :: "(decode_state \<Rightarrow> 'r \<times> decode_state) \<Rightarrow> bool" where
  "adds_missing m \<longleftrightarrow> (\<forall>s r s'. m s = (r, s') \<longrightarrow> (\<exists>g. ds_missing s' = ds_missing s @ g))"

lemma adds_missingD: "adds_missing m \<Longrightarrow> m s = (r, s') \<Longrightarrow> \<exists>g. ds_missing s' = ds_missing s @ g"
  by (auto simp: adds_missing_def)

lemma adds_missing_sbind:
  assumes "adds_missing m" "\<And>x. adds_missing (k x)"
  shows "adds_missing (sbind m k)"
  unfolding adds_missing_def
proof (intro allI impI)
  fix s r s' assume e: "sbind m k s = (r, s')"
  obtain r1 s1 where m: "m s = (r1, s1)" by force
  from adds_missingD [OF assms(1) m] obtain g where g: "ds_missing s1 = ds_missing s @ g" by auto
  show "\<exists>g. ds_missing s' = ds_missing s @ g"
  proof (cases r1)
    case (Ok x)
    with e m have "k x s1 = (r, s')" by (simp add: sbind_def)
    from adds_missingD [OF assms(2) this] g show ?thesis by auto
  qed (use e m g in \<open>auto simp: sbind_def\<close>)
qed

lemma ds_missing_decode_blob: "ds_missing (decode_blob lib k op i b s) = ds_missing s"
  by (simp add: decode_blob_def Let_def split: option.split)

lemma adds_missing_state: "(\<And>s. \<exists>g. ds_missing (f s) = ds_missing s @ g) \<Longrightarrow> adds_missing (\<lambda>s. (r s, f s))"
  by (auto simp: adds_missing_def)

lemma adds_missing_keys: "adds_missing (record_keys lib st i)"
  unfolding adds_missing_def record_keys_def Let_def
  by (auto split: option.splits outcome.splits)

lemma adds_missing_blob:
  "adds_missing (\<lambda>s. case ks of None \<Rightarrow> (Ok (), s) | Some keys \<Rightarrow>
    (case v of None \<Rightarrow> (r1, s) | Some b \<Rightarrow> if length b < n then (r2, s) else (Ok (), decode_blob lib keys op i b s)))"
  by (auto simp: adds_missing_def ds_missing_decode_blob split: option.splits if_splits)

lemma adds_missing_mutation: "adds_missing (patch_mutation lib st pk m)"
  using adds_missing_sbind [OF adds_missing_keys adds_missing_blob]
  unfolding patch_mutation_def Let_def by (auto simp: adds_missing_def split: option.splits)

lemma adds_missing_record: "adds_missing (snapshot_record lib st pk m)"
  using adds_missing_sbind [OF adds_missing_keys adds_missing_blob]
  unfolding snapshot_record_def by (auto simp: adds_missing_def split: option.splits)

lemma adds_missing_loops: "adds_missing (patch_loop lib st pk ms)" "adds_missing (snapshot_loop lib st pk rs)"
proof -
  show "adds_missing (patch_loop lib st pk ms)"
  proof (induction ms)
    case (Cons m ms)
    from adds_missing_sbind [OF adds_missing_mutation Cons] show ?case by (simp add: adds_missing_def)
  qed (simp add: adds_missing_def)
  show "adds_missing (snapshot_loop lib st pk rs)"
  proof (induction rs)
    case (Cons r rs)
    from adds_missing_sbind [OF adds_missing_record Cons] show ?case by (simp add: adds_missing_def)
  qed (simp add: adds_missing_def)
qed

lemma patch_adds_missing:
  "decode_authenticated_app_state_patch lib ak name pb missing st = (r, st', missing', log) \<Longrightarrow> \<exists>g. missing' = missing @ g"
  using adds_missingD [OF adds_missing_loops(1)]
  by (fastforce simp: decode_authenticated_app_state_patch_def Let_def split: option.splits prod.splits outcome.splits)

lemma snapshot_adds_missing:
  "decode_app_state_snapshot lib st b missing = (r, missing', log) \<Longrightarrow> \<exists>g. missing' = missing @ g"
  using adds_missingD [OF adds_missing_loops(2)]
  by (fastforce simp: decode_app_state_snapshot_def Let_def split: option.splits prod.splits outcome.splits)

lemma sync_snapshot_missing: "\<exists>g. snd (sync_snapshot env name c (st, missing)) = missing @ g"
  using snapshot_adds_missing
  by (fastforce simp: sync_snapshot_def Let_def split: content.splits option.splits outcome.splits prod.splits)

lemma sync_patch_missing: "\<exists>g. snd (sync_patch env name c (st, missing)) = missing @ g"
  using patch_adds_missing
  by (fastforce simp: sync_patch_def Let_def split: content.splits outcome.splits prod.splits)

lemma fold_adds:
  assumes "\<And>c st missing. \<exists>g. snd (f c (st, missing)) = missing @ g"
  shows "\<exists>g. snd (fold f cs (st, missing)) = missing @ (g :: bytes list)"
proof (induction cs arbitrary: st missing)
  case (Cons c cs)
  obtain st1 m1 where f: "f c (st, missing) = (st1, m1)" by force
  with assms [of c st missing] Cons.IH [of st1 m1] show ?case by auto
qed simp

lemma sync_child_missing: "\<exists>g. snd (sync_child env name c (st, missing)) = missing @ g"
proof -
  have "\<exists>g. snd (fold (sync_patch env name) cs (st, missing)) = missing @ g" for cs
    by (rule fold_adds) (rule sync_patch_missing)
  then show ?thesis using sync_snapshot_missing by (simp add: sync_child_def split: content.split)
qed

text \<open>A collection counts as synced exactly when reading it left no key missing.\<close>

lemma sync_collection_cases:
  assumes "sync_collection env c (st, ss, missing) = (st', ss', missing')"
  shows "(\<exists>g. missing' = missing @ g) \<and>
    ss' = (if missing' = missing then mark_collection_synced (or_default [] (get_attr c ''name'')) ss else ss)"
proof (cases "node_content c")
  case (CNodes kids)
  let ?name = "or_default [] (get_attr c ''name'')"
  obtain st1 m1 where f: "fold (sync_child env ?name) kids (st, missing) = (st1, m1)" by force
  have "\<exists>g. snd (fold (sync_child env ?name) kids (st, missing)) = missing @ g"
    by (rule fold_adds) (rule sync_child_missing)
  then obtain g where g: "m1 = missing @ g" unfolding f by auto
  show ?thesis using assms g by (auto simp: sync_collection_def Let_def CNodes f split: if_splits)
qed (use assms in \<open>auto simp: sync_collection_def Let_def\<close>)

lemma sync_collections_marks:
  "fold (sync_collection env) cs (st, ss, missing) = (st', ss', missing') \<Longrightarrow>
    (\<exists>g. missing' = missing @ g) \<and>
    (missing' = missing \<longrightarrow> ss' = fold sync_op_step (map (\<lambda>c. CollectionSynced (or_default [] (get_attr c ''name''))) cs) ss)"
proof (induction cs arbitrary: st ss missing)
  case (Cons c cs)
  obtain st1 ss1 m1 where s: "sync_collection env c (st, ss, missing) = (st1, ss1, m1)" by (cases "sync_collection env c (st, ss, missing)")
  note a = sync_collection_cases [OF s] and b = Cons.IH [of st1 ss1 m1] Cons.prems
  have f: "fold (sync_collection env) cs (st1, ss1, m1) = (st', ss', missing')" using b(2) by (simp add: s)
  from a b(1) [OF f] obtain g g' where g: "m1 = missing @ g" "missing' = m1 @ g'" by blast
  show ?case
  proof (intro conjI impI)
    show "\<exists>g. missing' = missing @ g" using g by simp
    assume "missing' = missing"
    with g have "m1 = missing" "missing' = m1" by simp_all
    then show "ss' = fold sync_op_step (map (\<lambda>c. CollectionSynced (or_default [] (get_attr c ''name''))) (c # cs)) ss"
      using a b(1) [OF f] by simp
  qed
qed simp

text \<open>A sync reply that covers the five collections and leaves no key missing makes a session that is
  syncing ready; until then a collection whose keys are missing holds it back.\<close>

theorem complete_reply_makes_ready:
  assumes "node_content sync = CNodes cols"
    and "fold (sync_collection env) (filter (\<lambda>c. tag c = ''collection'') cols) (st, begin_sync ss, []) = (st', ss', missing)"
    and "\<And>c. \<exists>col \<in> set cols. tag col = ''collection'' \<and> get_attr col ''name'' = Some (collection_name c)"
  shows "\<exists>ss'' asked. handle_app_state_sync_iq env sync (st, begin_sync ss) = (st', ss'', asked) \<and>
    set asked = set missing - requested_app_state_keys ss' \<and>
    (missing = [] \<longrightarrow> sync_ready ss'' \<and> status ss'' = Connected \<and> events ss'' = events ss @ [SyncingEvent, ConnectedEvent])"
proof -
  let ?cols = "filter (\<lambda>c. tag c = ''collection'') cols"
  let ?ops = "map (\<lambda>c. CollectionSynced (or_default [] (get_attr c ''name''))) ?cols"
  obtain asked ss'' where t: "take_unrequested_app_state_keys missing ss' = (asked, ss'')" by force
  have h: "handle_app_state_sync_iq env sync (st, begin_sync ss) = (st', ss'', asked)"
    using assms(1,2) t by (simp add: handle_app_state_sync_iq_def)
  have "sync_ready ss'' \<and> status ss'' = Connected \<and> events ss'' = events ss @ [SyncingEvent, ConnectedEvent]" if "missing = []"
  proof -
    have s: "ss' = fold sync_op_step ?ops (begin_sync ss)" using sync_collections_marks [OF assms(2)] that by simp
    have "CollectionSynced (collection_name c) \<in> set ?ops" for c
      using assms(3) [of c] by (force simp: or_default_def image_iff)
    moreover have "DeadlineFires \<notin> set ?ops" by auto
    ultimately have "sync_names \<subseteq> {n. CollectionSynced n \<in> set ?ops}" by (auto simp: sync_names_def)
    then have "sync_ready ss' \<and> status ss' = Connected \<and> events ss' = events ss @ [SyncingEvent, ConnectedEvent]"
      unfolding s phase_start phase_run by (simp add: phase_def Let_def)
    moreover have "sync_ready ss'' = sync_ready ss'" "status ss'' = status ss'" "events ss'' = events ss'"
      using t by (auto simp: take_unrequested_app_state_keys_def split: prod.splits)
    ultimately show ?thesis by simp
  qed
  then show ?thesis using h take_unrequested [OF t] by blast
qed

section \<open>A snapshot that is held back\<close>

lemma versions_apply: "sync_versions (apply_app_state_mutation m st) = sync_versions st"
  by (cases m) (simp_all add: contact_upsert_def chat_set_pinned_def chat_set_archived_def chat_set_muted_def
      upsert_chat_def session_set_nct_salt_def Let_def)

lemma versions_apply_all: "sync_versions (fold apply_app_state_mutation ms st) = sync_versions st"
  by (induction ms arbitrary: st) (simp_all add: versions_apply)

lemma held_snapshot_versions:
  assumes "sync_snapshot env name c (st, missing) = (st', missing')" "missing' \<noteq> missing"
  shows "sync_versions st' = sync_versions st"
proof -
  have "sync_versions st' = sync_versions st \<or> missing' = missing"
  proof (cases "node_content c")
    case (CBytes b)
    show ?thesis using assms(1) snapshot_adds_missing [of "sync_lib env" st _ missing]
      by (fastforce simp: sync_snapshot_def Let_def CBytes versions_apply_all split: option.splits outcome.splits prod.splits if_splits)
  qed (use assms in \<open>auto simp: sync_snapshot_def\<close>)
  with assms(2) show ?thesis by simp
qed

lemma patch_version:
  assumes "decode_authenticated_app_state_patch lib ak name pb missing st = (Ok muts, st', missing', log)"
  shows "app_state_version_get st' name = app_state_version_get st name + 1"
proof -
  obtain h where "app_state_version_bump name h st = Ok st'"
    using assms by (auto simp: decode_authenticated_app_state_patch_def Let_def split: option.splits prod.splits outcome.splits)
  then show ?thesis
    by (auto simp: app_state_version_bump_def Let_def app_state_version_get_def rows.load_save split: if_splits)
qed

lemma versions_key_share: "sync_versions (fst (receive_key_share new_id ks st)) = sync_versions st"
proof -
  have "sync_versions (fst (fold store_shared_key ks (st, n))) = sync_versions st" for n
    by (induction ks arbitrary: st n) (auto simp: store_shared_key_def store_app_state_main_key_def
        app_state_main_key_save_def split: prod.splits option.splits)
  then show ?thesis by (simp add: receive_key_share_def split: prod.split) (metis fst_conv)
qed

text \<open>What may follow: sync replies and key shares, with the store and the session.\<close>

datatype sync_step = SyncReply sync_env node | KeyShare "(bytes option \<times> bytes option) list"

definition sync_step :: "(nat \<Rightarrow> string) \<Rightarrow> sync_step \<Rightarrow> sync_store \<times> sync_session \<Rightarrow> sync_store \<times> sync_session" where
  "sync_step new_id l w =
    (case l of
       SyncReply env sync \<Rightarrow> (case handle_app_state_sync_iq env sync w of (st, ss, _) \<Rightarrow> (st, ss))
     | KeyShare ks \<Rightarrow> (fst (receive_key_share new_id ks (fst w)), snd w))"

text \<open>A reply brings a snapshot of a collection only when it was asked for.\<close>

definition brings_no_snapshot :: "string \<Rightarrow> sync_step \<Rightarrow> bool" where
  "brings_no_snapshot name l =
    (case l of
       SyncReply env sync \<Rightarrow>
         (case node_content sync of
            CNodes cols \<Rightarrow> (\<forall>col \<in> set cols. get_attr col ''name'' = Some name \<longrightarrow>
              (case node_content col of CNodes kids \<Rightarrow> (\<forall>kid \<in> set kids. tag kid \<noteq> ''snapshot'') | _ \<Rightarrow> True))
          | _ \<Rightarrow> True)
     | KeyShare ks \<Rightarrow> True)"

text \<open>A version that no snapshot is asked for, in the range of the column.\<close>

definition under_way :: "string \<Rightarrow> sync_store \<Rightarrow> bool" where
  "under_way name st \<longleftrightarrow> 0 < unat (app_state_version_get st name) \<and> unat (app_state_version_get st name) < 2 ^ 63"

lemma under_way_cong: "sync_versions st' = sync_versions st \<Longrightarrow> under_way name st' = under_way name st"
  by (simp add: under_way_def app_state_version_get_def)

lemma under_way_bump:
  assumes "app_state_version_bump m h st = Ok st'" "under_way name st"
  shows "under_way name st'"
proof -
  let ?v = "app_state_version_get st m"
  have st': "?v \<noteq> 0x7FFFFFFFFFFFFFFF" "st' = st\<lparr>sync_versions := row_save (sync_versions st) m (?v + 1, h)\<rparr>"
    using assms(1) by (auto simp: app_state_version_bump_def Let_def split: if_splits)
  show ?thesis
  proof (cases "m = name")
    case True
    have v: "0 < unat ?v" "unat ?v < 2 ^ 63" using assms(2) True by (simp_all add: under_way_def)
    have "unat ?v \<noteq> unat (0x7FFFFFFFFFFFFFFF :: u64)" using st'(1) unfolding word_unat_eq_iff .
    then have "unat ?v \<noteq> 0x7FFFFFFFFFFFFFFF" by simp
    then have "unat (?v + 1) = unat ?v + 1" "unat ?v + 1 < 2 ^ 63" using v(2) by (simp_all add: unat_word_ariths)
    then show ?thesis unfolding st'(2) using True by (simp add: under_way_def app_state_version_get_def rows.load_save)
  next
    case False
    then show ?thesis using assms(2) unfolding st'(2) by (simp add: under_way_def app_state_version_get_def rows.load_save)
  qed
qed

lemma under_way_decoded:
  assumes "decode_authenticated_app_state_patch lib ak m pb missing st = (r, st', missing', log)" "under_way name st"
  shows "under_way name st'"
proof -
  have "st' = st \<or> (\<exists>h. app_state_version_bump m h st = Ok st')"
    using assms(1) by (auto simp: decode_authenticated_app_state_patch_def Let_def split: option.splits prod.splits outcome.splits)
  then show ?thesis using under_way_bump assms(2) by blast
qed

lemma under_way_patch:
  assumes "under_way name (fst w)"
  shows "under_way name (fst (sync_patch env m p w))"
proof (cases "node_content p")
  case (CBytes pb)
  obtain st missing where w: "w = (st, missing)" by fastforce
  obtain r st' missing' log where
    d: "decode_authenticated_app_state_patch (sync_lib env) (sync_any_key env) m pb missing st = (r, st', missing', log)"
    by (metis prod_cases4)
  have "under_way name st'" using under_way_decoded [OF d] assms w by simp
  then show ?thesis using d under_way_cong [OF versions_apply_all]
    by (cases r) (simp_all add: sync_patch_def w CBytes)
qed (use assms in \<open>cases w; simp add: sync_patch_def\<close>)+

lemma under_way_patches: "under_way name (fst w) \<Longrightarrow> under_way name (fst (fold (sync_patch env m) ps w))"
  by (induction ps arbitrary: w) (simp_all add: under_way_patch)

lemma under_way_snapshot:
  assumes "under_way name (fst w)" "m \<noteq> name"
  shows "under_way name (fst (sync_snapshot env m kid w))"
proof -
  have set: "under_way name (app_state_version_set m v h st) = under_way name st" for v h st
    using assms(2) by (simp add: under_way_def app_state_version_get_def app_state_version_set_def rows.load_save)
  show ?thesis using assms(1) under_way_cong [OF versions_apply_all]
    by (auto simp: sync_snapshot_def Let_def set split: prod.splits content.splits option.splits outcome.splits)
qed

lemma under_way_child:
  assumes "under_way name (fst w)" "m = name \<longrightarrow> tag kid \<noteq> ''snapshot''"
  shows "under_way name (fst (sync_child env m kid w))"
proof (cases "tag kid = ''snapshot''")
  case True
  then show ?thesis using assms under_way_snapshot [OF assms(1)] by (simp add: sync_child_def)
next
  case False
  then show ?thesis using assms(1) by (simp add: sync_child_def under_way_patches split: content.split)
qed

lemma under_way_children:
  "under_way name (fst w) \<Longrightarrow> \<forall>kid \<in> set kids. m = name \<longrightarrow> tag kid \<noteq> ''snapshot'' \<Longrightarrow>
    under_way name (fst (fold (sync_child env m) kids w))"
  by (induction kids arbitrary: w) (simp_all add: under_way_child)

lemma under_way_collection:
  assumes "under_way name (fst w)" "name \<noteq> []"
    and "get_attr col ''name'' = Some name \<longrightarrow>
      (case node_content col of CNodes kids \<Rightarrow> \<forall>kid \<in> set kids. tag kid \<noteq> ''snapshot'' | _ \<Rightarrow> True)"
  shows "under_way name (fst (sync_collection env col w))"
proof (cases "node_content col")
  case (CNodes kids)
  obtain st ss missing where w: "w = (st, ss, missing)" by (metis prod_cases3)
  let ?m = "or_default [] (get_attr col ''name'')"
  have "?m = name \<longrightarrow> get_attr col ''name'' = Some name" using assms(2) by (auto simp: or_default_def split: option.splits)
  then have "under_way name (fst (fold (sync_child env ?m) kids (st, missing)))"
    using assms w CNodes by (intro under_way_children) auto
  then show ?thesis by (simp add: sync_collection_def w CNodes Let_def split: prod.split) (metis fst_conv)
qed (use assms in \<open>cases w; simp add: sync_collection_def Let_def\<close>)+

lemma under_way_step:
  assumes "under_way name (fst w)" "name \<noteq> []" "brings_no_snapshot name l"
  shows "under_way name (fst (sync_step new_id l w))"
proof (cases l)
  case (SyncReply env sync)
  show ?thesis
  proof (cases "node_content sync")
    case (CNodes cols)
    have "under_way name (fst (fold (sync_collection env) cs v))"
      if "under_way name (fst v)" "set cs \<subseteq> set cols" for cs v
      using that
    proof (induction cs arbitrary: v)
      case (Cons a cs)
      have "under_way name (fst (sync_collection env a v))"
        using Cons.prems assms(3) by (intro under_way_collection assms(2)) (auto simp: brings_no_snapshot_def SyncReply CNodes)
      with Cons show ?case by simp
    qed simp
    from this [of "(fst w, snd w, [])" "filter (\<lambda>c. tag c = ''collection'') cols"] assms(1) show ?thesis
      by (auto simp: sync_step_def SyncReply handle_app_state_sync_iq_def CNodes split: prod.splits)
  qed (use assms(1) in \<open>simp_all add: sync_step_def SyncReply handle_app_state_sync_iq_def\<close>)
next
  case (KeyShare ks)
  then show ?thesis using assms(1) under_way_cong [OF versions_key_share] by (simp add: sync_step_def)
qed

lemma under_way_steps:
  "under_way name (fst w) \<Longrightarrow> name \<noteq> [] \<Longrightarrow> \<forall>l \<in> set ls. brings_no_snapshot name l \<Longrightarrow>
    under_way name (fst (fold (sync_step new_id) ls w))"
  by (induction ls arbitrary: w) (simp_all add: under_way_step)

lemma resync_zero: "app_state_version_get (resync_appstate_session st) (collection_name c) = 0"
  by (cases c) (simp_all add: resync_appstate_session_def all_collections_def app_state_version_set_def
      app_state_version_get_def rows.load_save)

lemma fetch_at:
  assumes "i < length all_collections" "all_collections ! i = c"
  shows "ship_app_state_fetches new_id st ! i =
    build_app_state_fetch_iq (new_id i) (collection_name c) (app_state_version_get st (collection_name c))
      (app_state_version_get st (collection_name c) = 0)"
  using assms by (simp add: ship_app_state_fetches_def load_app_state_version_def nth_enumerate_eq Let_def)

text \<open>C32: A snapshot whose keys are missing is held back by leaving the version of its collection at zero, so that it is
  fetched again when the keys arrive. A patch in the same reply undoes that: through whatever key shares and
  replies follow, as long as the server sends no snapshot unasked, the collection is fetched from a
  nonzero version, without its snapshot. After the endpoint that resets the versions, the fetch asks for it.\<close>

theorem held_snapshot_needs_resync:
  fixes new_id :: "nat \<Rightarrow> string" and ss :: sync_session
  assumes "tag snap = ''snapshot''" "app_state_version_get st (collection_name c) = 0"
    and "sync_child env (collection_name c) snap (st, missing) = (st1, missing1)" "missing1 \<noteq> missing"
    and "decode_authenticated_app_state_patch (sync_lib env) (sync_any_key env) (collection_name c) pb missing1 st1 =
      (Ok muts, st2, missing2, log)"
    and "i < length all_collections" "all_collections ! i = c"
    and "\<forall>l \<in> set ls. brings_no_snapshot (collection_name c) l"
  defines "held \<equiv> fst (fold (sync_child env (collection_name c))
      [snap, Node ''patches'' [] (CNodes [Node ''patch'' [] (CBytes pb)])] (st, missing))"
  defines "later \<equiv> fst (fold (sync_step new_id) ls (held, ss))"
  shows "(\<exists>v. v \<noteq> 0 \<and> ship_app_state_fetches new_id later ! i = build_app_state_fetch_iq (new_id i) (collection_name c) v False) \<and>
    ship_app_state_fetches new_id (resync_appstate_session later) ! i =
      build_app_state_fetch_iq (new_id i) (collection_name c) 0 True"
proof -
  let ?n = "collection_name c"
  have held: "held = fold apply_app_state_mutation muts st2"
    unfolding held_def using assms(3,5) by (simp add: sync_child_def sync_patch_def)
  have "sync_versions st1 = sync_versions st"
    using assms(1,3,4) by (intro held_snapshot_versions [of env ?n snap st missing]) (simp_all add: sync_child_def)
  then have "app_state_version_get st2 ?n = 1"
    using patch_version [OF assms(5)] assms(2) by (simp add: app_state_version_get_def)
  then have "under_way ?n held" unfolding held under_way_cong [OF versions_apply_all] by (simp add: under_way_def)
  moreover have "?n \<noteq> []" by (cases c) simp_all
  ultimately have "under_way ?n later" unfolding later_def using assms(8) by (simp add: under_way_steps)
  then have "app_state_version_get later ?n \<noteq> 0" by (auto simp: under_way_def)
  then show ?thesis unfolding fetch_at [OF assms(6,7)] resync_zero by auto
qed


section \<open>Instances\<close>

definition pin_action_data :: sync_action_data where
  "pin_action_data = \<lparr>ad_index = Some (as_bytes ''index''), ad_value = Some \<lparr>contact_action = None, mute_action = None,
    pin_action = Some (Some True), archive_chat_action = None, nct_salt_sync_action = None\<rparr>\<rparr>"

definition toy_sync_lib :: app_state_lib where
  "toy_sync_lib = media_crypto.extend toy_media_crypto
    (app_state_lib.fields (\<lambda>k m. take 64 (k @ m @ replicate 64 0))
      (\<lambda>b. Some \<lparr>patch_mutations = [], patch_snapshot_mac = None, patch_patch_mac = None, patch_key_id = None\<rparr>)
      (\<lambda>b. Some \<lparr>snap_version = Some (Some 3),
        snap_records = [\<lparr>rec_index = None, rec_value = Some (Some (replicate 48 0)), rec_key_id = Some (Some [1])\<rparr>],
        snap_mac = None, snap_key_id = None\<rparr>)
      (\<lambda>b. if b = [1] then Some pin_action_data else None)
      (\<lambda>b. Some \<lparr>ext_media_key = Some (replicate 32 9), ext_direct_path = Some ''/blob''\<rparr>)
      (\<lambda>s. Some (JArray [JString ''pin_v1'', JString ''49@s.whatsapp.net''])))"

definition blank_sync_store :: sync_store where
  "blank_sync_store = \<lparr>sync_versions = [], main_keys = [], contact_rows = [], chat_rows = [], nct_salt = None\<rparr>"

theorem lthash_is_lane_sum_witness:
  "lane_value (fold (\<lambda>(rm, x) h. if rm then lt_sub h x else lt_add h x)
    [(False, replicate 128 255), (False, 7 # replicate 127 0), (True, replicate 128 3)] lt_zero) 0 = 64771"
proof -
  let ?rs = "[(False, replicate 128 255), (False, 7 # replicate 127 0), (True, replicate 128 3)]"
  have "length lt_zero = 128" by (simp add: lt_zero_def)
  from lthash_is_lane_sum [OF this, of ?rs, THEN conjunct2, THEN conjunct1, rule_format, of 0]
  show ?thesis by (simp add: lane_total_def lane_value_def lt_zero_def)
qed

text \<open>A pinned chat, in a record with a tag that is not its own.\<close>

theorem patch_decoded_witness:
  "let r = \<lparr>sr_op = 0, sr_key_id = [5], sr_iv = replicate 16 0, sr_plain = [1], sr_tag = replicate 32 0\<rparr>;
       p = \<lparr>patch_mutations = [sealed_mutation toy_sync_lib (\<lambda>_. replicate 32 8) r], patch_snapshot_mac = None,
         patch_patch_mac = None, patch_key_id = None\<rparr>;
       lib = toy_sync_lib\<lparr>read_patch := \<lambda>_. Some p\<rparr>;
       st = blank_sync_store\<lparr>main_keys := [([5], replicate 32 8)]\<rparr>
   in fst (decode_authenticated_app_state_patch lib (\<lambda>_. None) ''regular'' [7] [] st) =
     Ok [ChatPin ''49@s.whatsapp.net'' True]"
proof -
  define r where "r = \<lparr>sr_op = 0, sr_key_id = [5], sr_iv = replicate 16 0, sr_plain = [1], sr_tag = replicate 32 0\<rparr>"
  define p where "p = \<lparr>patch_mutations = [sealed_mutation toy_sync_lib (\<lambda>_. replicate 32 8) r], patch_snapshot_mac = None,
    patch_patch_mac = None, patch_key_id = None\<rparr>"
  define lib where "lib = toy_sync_lib\<lparr>read_patch := \<lambda>_. Some p\<rparr>"
  define st where "st = blank_sync_store\<lparr>main_keys := [([5], replicate 32 8)]\<rparr>"
  have lib: "aes_cbc_encrypt lib = aes_cbc_encrypt toy_media_crypto" "aes_cbc_decrypt lib = aes_cbc_decrypt toy_media_crypto"
    "read_action lib = (\<lambda>b. if b = [1] then Some pin_action_data else None)" "read_patch lib b = Some p"
    "aes_cbc_encrypt toy_sync_lib = aes_cbc_encrypt toy_media_crypto" "expand_app_state_keys lib = expand_app_state_keys toy_sync_lib"
    "read_json lib s = Some (JArray [JString ''pin_v1'', JString ''49@s.whatsapp.net''])" for b s
    by (simp_all add: lib_def toy_sync_lib_def media_crypto.extend_def app_state_lib.fields_def expand_app_state_keys_def fun_eq_iff Let_def)
  have "list_all (sealed_ok lib (\<lambda>_. replicate 32 8) st) [r]"
    by (simp add: sealed_ok_def lib r_def pin_action_data_def load_app_state_main_key_def app_state_main_key_load_def st_def row_load_def)
  moreover have "patch_mutations p = map (sealed_mutation lib (\<lambda>_. replicate 32 8)) [r]"
    by (simp add: p_def sealed_mutation_def sealed_record_msg_def sealed_blob_def lib)
  moreover have "app_state_version_get st ''regular'' \<noteq> 0x7FFFFFFFFFFFFFFF"
    by (simp add: app_state_version_get_def st_def blank_sync_store_def row_load_def)
  moreover have "aes_cbc_decrypt lib k iv (aes_cbc_encrypt lib k iv q) = Some q" for k iv q
    unfolding lib by (rule toy_media_laws(2))
  ultimately have "fst (decode_authenticated_app_state_patch lib (\<lambda>_. None) ''regular'' [7] [] st) = Ok (record_mutations lib r)"
    using patch_decoded [of lib "[7]" p "\<lambda>_. replicate 32 8" "[r]" st "''regular''" "\<lambda>_. None" "[]" "[5]"] lib(4) by auto
  moreover have "record_mutations lib r = [ChatPin ''49@s.whatsapp.net'' True]"
    by (simp add: record_mutations_def lib r_def pin_action_data_def action_mutations_def action_jid_def
        parse_appstate_index_jid_def json_nth_def as_str_def or_default_def)
  ultimately show ?thesis unfolding Let_def lib_def st_def p_def r_def by simp
qed

definition toy_sync_env :: sync_env where
  "toy_sync_env = \<lparr>sync_lib = toy_sync_lib, sync_any_key = (\<lambda>_. None), sync_host = ''h'',
    sync_download = (\<lambda>_. Some (ciphertext (encrypt_media toy_media_crypto [5] (replicate 32 9) AppState)))\<rparr>"

theorem complete_reply_makes_ready_witness:
  "let sync = Node ''sync'' [] (CNodes (map (\<lambda>c. Node ''collection'' [(''name'', collection_name c)] CNone) all_collections));
       ss = \<lparr>status = Connecting, events = [], synced_collections = {}, sync_ready = False, sync_deadline = False,
         requested_app_state_keys = {}\<rparr>
   in status (fst (snd (handle_app_state_sync_iq toy_sync_env sync (blank_sync_store, begin_sync ss)))) = Connected"
proof -
  let ?cols = "map (\<lambda>c. Node ''collection'' [(''name'', collection_name c)] CNone) all_collections"
  let ?ss = "\<lparr>status = Connecting, events = [], synced_collections = {}, sync_ready = False, sync_deadline = False,
    requested_app_state_keys = {}\<rparr>"
  have f: "fold (sync_collection toy_sync_env) (filter (\<lambda>c. tag c = ''collection'') ?cols) (blank_sync_store, begin_sync ?ss, []) =
    (blank_sync_store, fold mark_collection_synced (map collection_name all_collections) (begin_sync ?ss), [])"
    by (simp add: all_collections_def sync_collection_def get_attr_def or_default_def Let_def)
  have c: "\<exists>col \<in> set ?cols. tag col = ''collection'' \<and> get_attr col ''name'' = Some (collection_name c)" for c
    by (cases c) (simp_all add: all_collections_def get_attr_def)
  from complete_reply_makes_ready [OF _ f c, of "Node ''sync'' [] (CNodes ?cols)"]
  show ?thesis unfolding Let_def by auto
qed

definition calm_session :: sync_session where
  "calm_session = \<lparr>status = Connected, events = [], synced_collections = {}, sync_ready = True, sync_deadline = False,
    requested_app_state_keys = {}\<rparr>"

theorem held_snapshot_needs_resync_witness:
  "let snap = Node ''snapshot'' [] (CBytes [1]);
       patches = Node ''patches'' [] (CNodes [Node ''patch'' [] (CBytes [2])]);
       held = fst (fold (sync_child toy_sync_env ''regular'') [snap, patches] (blank_sync_store, []));
       again = Node ''sync'' [] (CNodes [Node ''collection'' [(''name'', ''regular'')] (CNodes [patches])]);
       later = fst (fold (sync_step (\<lambda>_. ''id'')) [KeyShare [(Some [1], Some (replicate 32 8))], SyncReply toy_sync_env again]
         (held, calm_session))
   in (\<exists>v. v \<noteq> 0 \<and> ship_app_state_fetches (\<lambda>_. ''id'') later ! 2 = build_app_state_fetch_iq ''id'' ''regular'' v False) \<and>
     ship_app_state_fetches (\<lambda>_. ''id'') (resync_appstate_session later) ! 2 = build_app_state_fetch_iq ''id'' ''regular'' 0 True"
proof -
  let ?snap = "Node ''snapshot'' [] (CBytes [1])"
  let ?patches = "Node ''patches'' [] (CNodes [Node ''patch'' [] (CBytes [2])])"
  let ?again = "Node ''sync'' [] (CNodes [Node ''collection'' [(''name'', ''regular'')] (CNodes [?patches])])"
  let ?ls = "[KeyShare [(Some [1], Some (replicate 32 8))], SyncReply toy_sync_env ?again]"
  have 1: "sync_child toy_sync_env (collection_name Regular) ?snap (blank_sync_store, []) = (blank_sync_store, [[1]])"
    by code_simp
  have 2: "decode_authenticated_app_state_patch (sync_lib toy_sync_env) (sync_any_key toy_sync_env) (collection_name Regular) [2]
      [[1]] blank_sync_store = (Ok [], blank_sync_store\<lparr>sync_versions := [(''regular'', 1, lt_zero)]\<rparr>, [[1]], [])"
    by code_simp
  have 3: "tag ?snap = ''snapshot''" "app_state_version_get blank_sync_store (collection_name Regular) = 0"
    "[[1]] \<noteq> ([] :: bytes list)" "2 < length all_collections" "all_collections ! 2 = Regular" by code_simp+
  have 4: "\<forall>l \<in> set ?ls. brings_no_snapshot (collection_name Regular) l" by (simp add: brings_no_snapshot_def)
  from held_snapshot_needs_resync [OF 3(1,2) 1 3(3) 2 3(4,5) 4, where new_id = "\<lambda>_. ''id''" and ss = calm_session]
  show ?thesis by (simp only: Let_def collection_name.simps)
qed

end
