(* ===== verification/Session_Driver.thy ===== *)
theory Session_Driver
  imports Complex_Main App_State Proxy
begin

text \<open>
  The driver of one session in \<open>src/src/session.rs\<close>: \<open>run_with_reconnect\<close>, the select loop and the
  cleanup of \<open>run_connection\<close>, the stanzas by which the server ends a connection, and the calls by
  which a client of the API starts, bounces and ends the driver. Each way on is a function of the
  state; which of them is taken next is the scheduler's choice.
\<close>

section \<open>State\<close>

text \<open>Where the driver is: \<open>Ended\<close> is the point where \<open>run_connection\<close> has returned \<open>false\<close>, \<open>Waiting\<close> the
  wait of so many milliseconds before the next attempt.\<close>

datatype place = Launched | Dialing | Live | Ended | Waiting nat | Stopped

record driver =
  sess :: sync_session
  jid :: "string option"
  proxy_url :: "string option"
  qr_codes :: "string list"
  place :: place
  backoff_ms :: nat
  reached_success :: bool
  expect_disconnect :: bool
  wa_blocked :: bool
  restart_required :: bool
  qr_timeouts :: u32
  reconnects :: u32
  socket_live :: bool
  last_rx_at :: int
  pending_logout_jid :: "string option"
  logout_woken :: bool
  reconnect_woken :: bool
  shutting_down :: bool
  leased :: bool
  send_rx_free :: bool
  pumped :: bool
  qr_rotating :: bool
  keepalive_on :: bool
  topup_on :: bool
  iq_client_on :: bool

text \<open>
  \<open>logout_woken\<close> and \<open>reconnect_woken\<close>: a notification has reached the select that waits on it.
  \<open>send_rx_free\<close>: the receiving end of the send queue waits for a pump; \<open>pumped\<close>: the present connection
  has one of its own.
\<close>

definition sess_status :: "driver \<Rightarrow> session_status" where
  "sess_status d = status (sess d)"

definition set_status :: "session_status \<Rightarrow> driver \<Rightarrow> driver" where
  "set_status st d = d\<lparr>sess := (sess d)\<lparr>status := st\<rparr>\<rparr>"

definition send_event :: "sync_event \<Rightarrow> driver \<Rightarrow> driver" where
  "send_event e d = d\<lparr>sess := (sess d)\<lparr>events := events (sess d) @ [e]\<rparr>\<rparr>"

definition status_is_live :: "session_status \<Rightarrow> bool" where
  "status_is_live st \<longleftrightarrow> st \<in> {Connected, Connecting, Syncing, AwaitingQr}"

definition reconnect_can_bounce :: "session_status \<Rightarrow> bool \<Rightarrow> bool" where
  "reconnect_can_bounce st live \<longleftrightarrow> live \<and> status_is_live st"

section \<open>Clocks and limits\<close>

definition INITIAL_BACKOFF_MS :: nat where "INITIAL_BACKOFF_MS = 1000"
definition MAX_BACKOFF_MS :: nat where "MAX_BACKOFF_MS = 60000"
definition RX_IDLE_TIMEOUT_SECS :: int where "RX_IDLE_TIMEOUT_SECS = 75"

text \<open>\<open>rnd\<close> rounds a product to a double; the draw \<open>draw\<close> is a double between 0 and 1.\<close>

definition round_half_up :: "rat \<Rightarrow> nat" where
  "round_half_up x = nat \<lfloor>x + 1 / 2\<rfloor>"

definition jittered_backoff_ms :: "(rat \<Rightarrow> rat) \<Rightarrow> nat \<Rightarrow> rat \<Rightarrow> nat" where
  "jittered_backoff_ms rnd base draw =
    (let half = base div 2 in half + round_half_up (rnd (of_nat half * max 0 (min draw 1))))"

definition saturating_sub64 :: "int \<Rightarrow> int \<Rightarrow> int" where
  "saturating_sub64 a b = max (- (2 ^ 63)) (min (a - b) (2 ^ 63 - 1))"

definition rx_is_stale :: "int option \<Rightarrow> int \<Rightarrow> int \<Rightarrow> bool" where
  "rx_is_stale last_rx now timeout =
    (case last_rx of Some t \<Rightarrow> timeout \<le> saturating_sub64 now t | None \<Rightarrow> False)"

definition last_rx :: "driver \<Rightarrow> int option" where
  "last_rx d = (if last_rx_at d = 0 then None else Some (last_rx_at d))"

definition mark_rx :: "int \<Rightarrow> driver \<Rightarrow> driver" where
  "mark_rx now d = d\<lparr>last_rx_at := now\<rparr>"

definition qr_refresh_limit :: "string option \<Rightarrow> u32" where
  "qr_refresh_limit var =
    (case Option.bind var (\<lambda>v. parse_u32 (trim v)) of Some n \<Rightarrow> max (word_of_nat n) 1 | None \<Rightarrow> 8)"

section \<open>QR codes\<close>

definition cancel_qr_rotation :: "driver \<Rightarrow> driver" where
  "cancel_qr_rotation d = d\<lparr>qr_rotating := False, qr_codes := []\<rparr>"

definition install_qr_rotation :: "string list \<Rightarrow> driver \<Rightarrow> driver" where
  "install_qr_rotation codes d =
    (if codes = [] then cancel_qr_rotation d
     else send_event (QrEvent (hd codes)) (d\<lparr>qr_codes := codes, qr_rotating := True\<rparr>))"

definition current_qr :: "driver \<Rightarrow> string option" where
  "current_qr d = (case qr_codes d of [] \<Rightarrow> None | c # _ \<Rightarrow> Some c)"

text \<open>One period of the rotation task.\<close>

definition qr_rotate :: "driver \<Rightarrow> driver" where
  "qr_rotate d =
    (if \<not> qr_rotating d then d
     else case qr_codes d of [] \<Rightarrow> d\<lparr>qr_rotating := False\<rparr>
       | _ # rest \<Rightarrow>
         (let d = d\<lparr>qr_codes := rest\<rparr>
          in case rest of [] \<Rightarrow> d\<lparr>qr_rotating := False\<rparr> | c # _ \<Rightarrow> send_event (QrEvent c) d))"

section \<open>The reconnect loop\<close>

text \<open>The task of the driver ends, and with it the lease.\<close>

definition stop :: "driver \<Rightarrow> driver" where
  "stop d = d\<lparr>place := Stopped, leased := False\<rparr>"

text \<open>The top of the loop.\<close>

definition attempt :: "driver \<Rightarrow> driver" where
  "attempt d = d\<lparr>reached_success := False, place := Dialing\<rparr>"

definition open_window :: "driver \<Rightarrow> driver" where
  "open_window d = attempt (d\<lparr>qr_timeouts := 0, backoff_ms := INITIAL_BACKOFF_MS\<rparr>)"

definition run_begin :: "driver \<Rightarrow> driver" where
  "run_begin d =
    (if shutting_down d then stop d
     else case proxy_url d of None \<Rightarrow> open_window d
       | Some url \<Rightarrow>
         (case parse_proxy url of
            Err e \<Rightarrow> stop (send_event (DisconnectedEvent (''proxy_error: '' @ e)) (set_status ProxyError d))
          | Ok _ \<Rightarrow> open_window d
          | Panic \<Rightarrow> stop d))"

definition next_attempt :: "driver \<Rightarrow> driver" where
  "next_attempt d = attempt (send_event ConnectingEvent (set_status Connecting (d\<lparr>reconnects := reconnects d + 1\<rparr>)))"

text \<open>What follows a connection that did not end cleanly.\<close>

definition retry :: "(rat \<Rightarrow> rat) \<Rightarrow> rat \<Rightarrow> driver \<Rightarrow> driver" where
  "retry rnd draw d =
    (let restart = restart_required d;
         d = d\<lparr>restart_required := False\<rparr>;
         d = (if restart \<or> reached_success d then d\<lparr>backoff_ms := INITIAL_BACKOFF_MS\<rparr> else d)
     in if restart then next_attempt d
        else d\<lparr>place := Waiting (jittered_backoff_ms rnd (backoff_ms d) draw),
               logout_woken := False\<rparr>)"

definition after_failure :: "(rat \<Rightarrow> rat) \<Rightarrow> rat \<Rightarrow> driver \<Rightarrow> driver" where
  "after_failure rnd draw d =
    (if shutting_down d then stop d
     else if expect_disconnect d then
       (let d = d\<lparr>expect_disconnect := False\<rparr>
        in if wa_blocked d then stop (set_status Blocked (d\<lparr>wa_blocked := False\<rparr>))
           else stop (set_status Disconnected d))
     else if sess_status d = LoggedOut then stop d
     else retry rnd draw d)"

definition wait_over :: "driver \<Rightarrow> driver" where
  "wait_over d = next_attempt (d\<lparr>backoff_ms := min (backoff_ms d * 2) MAX_BACKOFF_MS\<rparr>)"

section \<open>One connection\<close>

text \<open>The transport is up: from the handshake to the select loop.\<close>

definition connection_up :: "driver \<Rightarrow> driver" where
  "connection_up d =
    (let d = send_event ConnectingEvent (set_status AwaitingQr d);
         d = d\<lparr>iq_client_on := True\<rparr>;
         d = (if send_rx_free d then d\<lparr>send_rx_free := False, pumped := True\<rparr> else d\<lparr>pumped := False\<rparr>)
     in d\<lparr>keepalive_on := True, topup_on := True, socket_live := True, logout_woken := False,
          reconnect_woken := False, place := Live\<rparr>)"

text \<open>The cleanup on every way out.\<close>

definition connection_over :: "driver \<Rightarrow> driver" where
  "connection_over d =
    (cancel_qr_rotation (d\<lparr>socket_live := False, send_rx_free := True, pumped := False\<rparr>))
      \<lparr>keepalive_on := False, topup_on := False, iq_client_on := False\<rparr>"

definition connection_failed :: "string \<Rightarrow> driver \<Rightarrow> driver" where
  "connection_failed why d =
    (send_event (DisconnectedEvent why) (set_status Disconnected (connection_over d)))\<lparr>place := Ended\<rparr>"

definition connection_closed :: "driver \<Rightarrow> driver" where
  "connection_closed d = stop (connection_over d)"

text \<open>Back to the top of the select loop, whose futures are made anew: a notification that was not
  taken is gone.\<close>

definition select_again :: "driver \<Rightarrow> driver" where
  "select_again d = d\<lparr>logout_woken := False, reconnect_woken := False\<rparr>"

definition watchdog_tick :: "int \<Rightarrow> string \<Rightarrow> driver \<Rightarrow> driver" where
  "watchdog_tick now why d =
    (if reached_success d \<and> rx_is_stale (last_rx d) now RX_IDLE_TIMEOUT_SECS then connection_failed why d
     else select_again d)"

definition lease_tick :: "bool \<Rightarrow> driver \<Rightarrow> driver" where
  "lease_tick renewed d =
    (if leased d \<and> \<not> renewed then connection_closed (set_status Disconnected d) else select_again d)"

definition shutdown_seen :: "driver \<Rightarrow> driver" where
  "shutdown_seen d = connection_closed (set_status Disconnected d)"

definition logout_seen :: "driver \<Rightarrow> driver" where
  "logout_seen d = connection_closed (d\<lparr>pending_logout_jid := None\<rparr>)"

section \<open>What the server says\<close>

definition has_child :: "node \<Rightarrow> (node \<Rightarrow> bool) \<Rightarrow> bool" where
  "has_child n p = (case node_content n of CNodes ns \<Rightarrow> list_ex p ns | _ \<Rightarrow> False)"

definition is_replaced :: "node \<Rightarrow> bool" where
  "is_replaced n = has_child n (\<lambda>c. tag c = ''conflict'' \<and> get_attr c ''type'' = Some ''replaced'')"

definition is_idle_ping_timeout :: "node \<Rightarrow> bool" where
  "is_idle_ping_timeout n \<longleftrightarrow> get_attr n ''code'' = None \<and> has_child n (\<lambda>c. tag c = ''ping'')"

definition is_rejected :: "node \<Rightarrow> bool" where
  "is_rejected n \<longleftrightarrow> get_attr n ''code'' \<in> {Some ''401'', Some ''403''}"

definition block :: "driver \<Rightarrow> driver" where
  "block d = d\<lparr>wa_blocked := True, expect_disconnect := True\<rparr>"

definition idle_ping_timeout :: "u32 \<Rightarrow> driver \<Rightarrow> driver" where
  "idle_ping_timeout limit d =
    (if jid d = None then
       (let n = qr_timeouts d + 1; d = d\<lparr>qr_timeouts := n\<rparr>
        in if limit \<le> n then d\<lparr>expect_disconnect := True\<rparr> else d\<lparr>restart_required := True\<rparr>)
     else d\<lparr>restart_required := True\<rparr>)"

definition stream_error :: "u32 \<Rightarrow> node \<Rightarrow> driver \<Rightarrow> driver" where
  "stream_error limit n d =
    (if is_replaced n then send_event (DisconnectedEvent ''replaced'') (d\<lparr>expect_disconnect := True\<rparr>)
     else if get_attr n ''code'' = Some ''515'' then d\<lparr>restart_required := True\<rparr>
     else if is_idle_ping_timeout n then idle_ping_timeout limit d
     else if is_rejected n then block d
     else d)"

definition login_success :: "driver \<Rightarrow> driver" where
  "login_success d = d\<lparr>reached_success := True, sess := begin_sync (sess d)\<rparr>"

text \<open>The nodes of \<open>process_inbound_node\<close> that steer the driver.\<close>

definition steering_node :: "u32 \<Rightarrow> node \<Rightarrow> driver \<Rightarrow> driver" where
  "steering_node limit n d =
    (if tag n = ''stream:error'' then stream_error limit n d
     else if tag n = ''failure'' then block d
     else if tag n = ''success'' then login_success d
     else d)"

definition recv_inbound :: "u32 \<Rightarrow> int \<Rightarrow> node \<Rightarrow> driver \<Rightarrow> driver" where
  "recv_inbound limit now n d = select_again (steering_node limit n (mark_rx now d))"

text \<open>The two pairing stanzas, once parsed.\<close>

definition paired_as :: "string option \<Rightarrow> driver \<Rightarrow> driver" where
  "paired_as j d =
    (let d = d\<lparr>jid := j\<rparr>; d = (case j of Some j \<Rightarrow> send_event (PairedEvent j) d | None \<Rightarrow> d)
     in cancel_qr_rotation (d\<lparr>sess := begin_sync (sess d)\<rparr>))"

definition recv_pair_success :: "int \<Rightarrow> string option \<Rightarrow> driver \<Rightarrow> driver" where
  "recv_pair_success now j d = select_again (paired_as j (mark_rx now d))"

definition recv_pair_device :: "int \<Rightarrow> string list \<Rightarrow> driver \<Rightarrow> driver" where
  "recv_pair_device now codes d = select_again (install_qr_rotation codes (mark_rx now d))"

section \<open>Calls of the API\<close>

text \<open>
  \<open>lease\<close> is what acquiring the lease said, \<open>None\<close> where leasing is off. A driver that was running is
  aborted where it is: nothing of its cleanup runs.
\<close>

datatype connect_result = AlreadyUp | LeasedElsewhere | Started

definition connect :: "bool option \<Rightarrow> driver \<Rightarrow> connect_result \<times> driver" where
  "connect lease d =
    (if sess_status d \<in> {Connecting, Connected, Syncing} then (AlreadyUp, d)
     else
       let d = d\<lparr>wa_blocked := False, expect_disconnect := False\<rparr>
       in if lease = Some False then (LeasedElsewhere, d)
          else (Started, (send_event ConnectingEvent (set_status Connecting d))
                  \<lparr>place := Launched, leased := (lease = Some True), logout_woken := False, reconnect_woken := False\<rparr>))"

text \<open>\<open>notify_waiters\<close> reaches those who wait at that moment.\<close>

definition notify_reconnect :: "driver \<Rightarrow> driver" where
  "notify_reconnect d = (if place d = Live then d\<lparr>reconnect_woken := True\<rparr> else d)"

definition notify_logout :: "driver \<Rightarrow> driver" where
  "notify_logout d = (case place d of Live \<Rightarrow> d\<lparr>logout_woken := True\<rparr> | Waiting _ \<Rightarrow> d\<lparr>logout_woken := True\<rparr> | _ \<Rightarrow> d)"

definition request_reconnect :: "driver \<Rightarrow> driver" where
  "request_reconnect d = notify_reconnect (d\<lparr>restart_required := True\<rparr>)"

definition abort_task :: "driver \<Rightarrow> driver" where
  "abort_task d = d\<lparr>place := Stopped, socket_live := False, logout_woken := False, reconnect_woken := False\<rparr>"

definition reconnect :: "bool option \<Rightarrow> driver \<Rightarrow> driver" where
  "reconnect lease d =
    (if reconnect_can_bounce (sess_status d) (socket_live d) then request_reconnect d
     else
       let d = (if status_is_live (sess_status d) then set_status Disconnected (abort_task d) else d)
       in snd (connect lease d))"

definition logout :: "driver \<Rightarrow> driver" where
  "logout d =
    (let prev = jid d;
         d = set_status LoggedOut (d\<lparr>jid := None, qr_codes := []\<rparr>);
         d = (send_event LoggedOutEvent d)\<lparr>pending_logout_jid := prev\<rparr>
     in notify_logout d)"

definition begin_shutdown :: "driver \<Rightarrow> driver" where
  "begin_shutdown d = d\<lparr>shutting_down := True\<rparr>"

end
