(* ===== verification/Driver_Safety.thy ===== *)
theory Driver_Safety
  imports Session_Driver
begin

text \<open>
  The step relation of a session driver, its runs, and what holds along them: the waits between
  attempts, the refusals that are never retried, the window for scanning a QR code, and three ways in
  which a call of the API or a timer misses the driver.
\<close>

section \<open>Steps and runs\<close>

record driver_env =
  limit :: u32
  rnd :: "rat \<Rightarrow> rat"

text \<open>What the driver does, what its timers do, and what the API and the process ask.\<close>

datatype label =
    Begin | Up | DialFailed string
  | Bounced | Watchdog int string | LeaseTick bool | ShutdownSeen | LogoutSeen
  | RecvFailed string | Recv int node | RecvPaired int "string option" | RecvQr int "string list"
  | Sent | SendFailed string
  | Decide rat | WaitOver | WaitLogout | WaitShutdown
  | QrTick | SyncDeadline | Synced string
  | Connect "bool option" | Reconnect "bool option" | Logout | Shutdown

definition on_sess :: "(sync_session \<Rightarrow> sync_session) \<Rightarrow> driver \<Rightarrow> driver" where
  "on_sess f d = d\<lparr>sess := f (sess d)\<rparr>"

inductive driver_step :: "driver_env \<Rightarrow> driver \<Rightarrow> label \<Rightarrow> driver \<Rightarrow> bool" for env :: driver_env where
  launch: "place d = Launched \<Longrightarrow> driver_step env d Begin (run_begin d)"
| up: "place d = Dialing \<Longrightarrow> driver_step env d Up (connection_up d)"
| dial_failed: "place d = Dialing \<Longrightarrow> driver_step env d (DialFailed why) (connection_failed why d)"
| bounced: "place d = Live \<Longrightarrow> reconnect_woken d \<Longrightarrow>
    driver_step env d Bounced (connection_failed ''manual reconnect requested'' d)"
| watchdog: "place d = Live \<Longrightarrow> driver_step env d (Watchdog now why) (watchdog_tick now why d)"
| lease: "place d = Live \<Longrightarrow> leased d \<Longrightarrow> driver_step env d (LeaseTick renewed) (lease_tick renewed d)"
| shutdown_seen: "place d = Live \<Longrightarrow> shutting_down d \<Longrightarrow> driver_step env d ShutdownSeen (shutdown_seen d)"
| logout_seen: "place d = Live \<Longrightarrow> logout_woken d \<Longrightarrow> driver_step env d LogoutSeen (logout_seen d)"
| recv_failed: "place d = Live \<Longrightarrow> driver_step env d (RecvFailed why) (connection_failed why d)"
| recv: "place d = Live \<Longrightarrow> driver_step env d (Recv now n) (recv_inbound (limit env) now n d)"
| recv_paired: "place d = Live \<Longrightarrow> driver_step env d (RecvPaired now j) (recv_pair_success now j d)"
| recv_qr: "place d = Live \<Longrightarrow> driver_step env d (RecvQr now codes) (recv_pair_device now codes d)"
| sent: "place d = Live \<Longrightarrow> driver_step env d Sent (select_again d)"
| send_failed: "place d = Live \<Longrightarrow> driver_step env d (SendFailed why) (connection_failed why d)"
| decide: "place d = Ended \<Longrightarrow> driver_step env d (Decide draw) (after_failure (rnd env) draw d)"
| wait_over: "place d = Waiting w \<Longrightarrow> driver_step env d WaitOver (wait_over d)"
| wait_logout: "place d = Waiting w \<Longrightarrow> logout_woken d \<Longrightarrow> driver_step env d WaitLogout (stop d)"
| wait_shutdown: "place d = Waiting w \<Longrightarrow> shutting_down d \<Longrightarrow> driver_step env d WaitShutdown (stop d)"
| qr_tick: "driver_step env d QrTick (qr_rotate d)"
| sync_deadline: "driver_step env d SyncDeadline (on_sess sync_deadline_fires d)"
| synced: "driver_step env d (Synced c) (on_sess (mark_collection_synced c) d)"
| connect: "driver_step env d (Connect l) (snd (connect l d))"
| reconnect: "driver_step env d (Reconnect l) (reconnect l d)"
| logout: "driver_step env d Logout (logout d)"
| shutdown: "driver_step env d Shutdown (begin_shutdown d)"

inductive driver_run :: "driver_env \<Rightarrow> driver \<Rightarrow> label list \<Rightarrow> driver \<Rightarrow> bool" for env :: driver_env where
  none: "driver_run env d [] d"
| more: "driver_run env d ls d' \<Longrightarrow> driver_step env d' l d'' \<Longrightarrow> driver_run env d (ls @ [l]) d''"

text \<open>The calls by which somebody asks for a connection.\<close>

definition asks :: "label \<Rightarrow> bool" where
  "asks l \<longleftrightarrow> (\<exists>x. l = Connect x \<or> l = Reconnect x)"

definition fresh_session :: "string option \<Rightarrow> string option \<Rightarrow> driver" where
  "fresh_session j url =
    \<lparr>sess = \<lparr>status = Disconnected, events = [], synced_collections = {}, sync_ready = False, sync_deadline = False,
        requested_app_state_keys = {}\<rparr>,
     jid = j, proxy_url = url, qr_codes = [], place = Stopped, backoff_ms = INITIAL_BACKOFF_MS, reached_success = False,
     expect_disconnect = False, wa_blocked = False, restart_required = False, qr_timeouts = 0, reconnects = 0,
     socket_live = False, last_rx_at = 0, pending_logout_jid = None, logout_woken = False, reconnect_woken = False,
     shutting_down = False, leased = False, send_rx_free = True, pumped = False, qr_rotating = False,
     keepalive_on = False, topup_on = False, iq_client_on = False\<rparr>"

text \<open>What each operation does to the fields that steer the driver.\<close>

lemmas driver_ops = run_begin_def open_window_def attempt_def stop_def next_attempt_def retry_def after_failure_def
  wait_over_def connection_up_def connection_over_def connection_failed_def connection_closed_def select_again_def
  watchdog_tick_def lease_tick_def shutdown_seen_def logout_seen_def recv_inbound_def recv_pair_success_def
  recv_pair_device_def paired_as_def install_qr_rotation_def cancel_qr_rotation_def set_status_def send_event_def
  mark_rx_def on_sess_def qr_rotate_def connect_def reconnect_def request_reconnect_def notify_reconnect_def
  notify_logout_def logout_def begin_shutdown_def abort_task_def

lemmas node_ops = steering_node_def stream_error_def idle_ping_timeout_def block_def login_success_def


text \<open>The fields that no operation on the session's events, codes or readiness touches.\<close>

lemma set_status_fields [simp]:
  "place (set_status st d) = place d" "backoff_ms (set_status st d) = backoff_ms d"
  "expect_disconnect (set_status st d) = expect_disconnect d" "qr_timeouts (set_status st d) = qr_timeouts d"
  "jid (set_status st d) = jid d" "shutting_down (set_status st d) = shutting_down d"
  "sess_status (set_status st d) = st" "wa_blocked (set_status st d) = wa_blocked d"
  by (simp_all add: set_status_def sess_status_def)

lemma send_event_fields [simp]:
  "place (send_event e d) = place d" "backoff_ms (send_event e d) = backoff_ms d"
  "expect_disconnect (send_event e d) = expect_disconnect d" "qr_timeouts (send_event e d) = qr_timeouts d"
  "jid (send_event e d) = jid d" "shutting_down (send_event e d) = shutting_down d"
  "sess_status (send_event e d) = sess_status d" "wa_blocked (send_event e d) = wa_blocked d"
  by (simp_all add: send_event_def sess_status_def)

section \<open>The waits\<close>

definition rounding :: "(rat \<Rightarrow> rat) \<Rightarrow> bool" where
  "rounding r \<longleftrightarrow> mono r \<and> (\<forall>n \<le> MAX_BACKOFF_MS. r (of_nat n) = of_nat n)"

lemma jittered_between:
  assumes "rounding r" "base \<le> MAX_BACKOFF_MS"
  shows "base div 2 \<le> jittered_backoff_ms r base x \<and> jittered_backoff_ms r base x \<le> base"
proof -
  define h where "h = base div 2"
  define y where "y = r (of_nat h * max 0 (min x 1))"
  have h: "h \<le> MAX_BACKOFF_MS" "2 * h \<le> base" using assms(2) by (simp_all add: h_def)
  have "of_nat h * max 0 (min x 1) \<le> of_nat h" using mult_left_mono [of "max 0 (min x 1)" 1 "of_nat h :: rat"] by simp
  then have "y \<le> r (of_nat h)" using assms(1) by (simp add: rounding_def y_def monoD)
  then have "y \<le> of_nat h" using assms(1) h(1) by (simp add: rounding_def)
  then have "\<lfloor>y + 1 / 2\<rfloor> < int h + 1" unfolding floor_less_iff by simp
  then have "round_half_up y \<le> h" by (simp add: round_half_up_def)
  then show ?thesis using h(2) by (simp add: jittered_backoff_ms_def Let_def h_def y_def)
qed

definition driver_wf :: "driver \<Rightarrow> bool" where
  "driver_wf d \<longleftrightarrow> INITIAL_BACKOFF_MS \<le> backoff_ms d \<and> backoff_ms d \<le> MAX_BACKOFF_MS \<and>
    (case place d of Waiting w \<Rightarrow> backoff_ms d div 2 \<le> w \<and> w \<le> backoff_ms d | _ \<Rightarrow> True)"

text \<open>No operation other than those that decide, wait or begin touches the backoff or starts a wait.\<close>

definition steady :: "driver \<Rightarrow> driver \<Rightarrow> bool" where
  "steady d d' \<longleftrightarrow> backoff_ms d' = backoff_ms d \<and> (place d' = place d \<or> (\<forall>w. place d' \<noteq> Waiting w))"

named_theorems steady_ops

lemma steady_refl [steady_ops]: "steady d d"
  by (simp add: steady_def)

lemma steady_leaf [steady_ops]:
  assumes "steady d e"
  shows "steady d (select_again e)" "steady d (mark_rx now e)" "steady d (set_status s e)" "steady d (send_event v e)"
    "steady d (block e)" "steady d (login_success e)" "steady d (cancel_qr_rotation e)" "steady d (stop e)"
    "steady d (begin_shutdown e)" "steady d (on_sess f e)" "steady d (abort_task e)" "steady d (connection_over e)"
  using assms
  by (simp_all add: steady_def select_again_def mark_rx_def block_def login_success_def cancel_qr_rotation_def stop_def
      begin_shutdown_def on_sess_def abort_task_def connection_over_def)

lemma steady_update [steady_ops]:
  assumes "steady d e"
  shows "steady d (e\<lparr>qr_codes := c\<rparr>)" "steady d (e\<lparr>qr_rotating := b\<rparr>)" "steady d (e\<lparr>jid := j\<rparr>)" "steady d (e\<lparr>sess := ss\<rparr>)"
    "steady d (e\<lparr>expect_disconnect := b\<rparr>)" "steady d (e\<lparr>wa_blocked := b\<rparr>)" "steady d (e\<lparr>restart_required := b\<rparr>)"
    "steady d (e\<lparr>qr_timeouts := n\<rparr>)" "steady d (e\<lparr>pending_logout_jid := j\<rparr>)" "steady d (e\<lparr>logout_woken := b\<rparr>)"
    "steady d (e\<lparr>reconnect_woken := b\<rparr>)" "steady d (e\<lparr>place := Ended\<rparr>)" "steady d (e\<lparr>place := Launched\<rparr>)"
    "steady d (e\<lparr>place := Live\<rparr>)" "steady d (e\<lparr>leased := b\<rparr>)"
  using assms by (simp_all add: steady_def)

lemma steady_wake [steady_ops]:
  assumes "steady d e"
  shows "steady d (notify_reconnect e)" "steady d (notify_logout e)"
  using assms by (auto simp: steady_def notify_reconnect_def notify_logout_def split: place.split)

lemma steady_end [steady_ops]:
  assumes "steady d e"
  shows "steady d (connection_failed why e)" "steady d (connection_closed e)"
  unfolding connection_failed_def connection_closed_def by (intro steady_ops assms)+

lemma steady_node [steady_ops]:
  assumes "steady d e"
  shows "steady d (idle_ping_timeout lm e)" "steady d (stream_error lm n e)" "steady d (steering_node lm n e)"
  unfolding steering_node_def stream_error_def idle_ping_timeout_def Let_def
  by (simp_all add: steady_ops assms)

lemma steady_recv [steady_ops]:
  assumes "steady d e"
  shows "steady d (recv_inbound lm now n e)" "steady d (recv_pair_success now j e)" "steady d (recv_pair_device now cs e)"
  unfolding recv_inbound_def recv_pair_success_def recv_pair_device_def paired_as_def install_qr_rotation_def Let_def
  by (simp_all add: steady_ops assms split: option.split)

lemma steady_select [steady_ops]:
  "steady d (connection_up d)" "steady d (watchdog_tick now why d)" "steady d (lease_tick r d)" "steady d (shutdown_seen d)"
  "steady d (logout_seen d)" "steady d (qr_rotate d)"
  by (simp add: steady_def connection_up_def Let_def)
     (simp_all add: watchdog_tick_def lease_tick_def shutdown_seen_def logout_seen_def qr_rotate_def Let_def steady_ops split: list.split)

lemma steady_connect:
  assumes "steady d e"
  shows "steady d (snd (connect l e))"
  using assms by (simp add: connect_def Let_def steady_ops)

lemma steady_api [steady_ops]: "steady d (snd (connect l d))" "steady d (reconnect l d)" "steady d (logout d)"
  by (simp_all add: steady_connect reconnect_def request_reconnect_def logout_def Let_def steady_ops)

lemma driver_wf_cong: "driver_wf d \<Longrightarrow> steady d d' \<Longrightarrow> driver_wf d'"
  by (auto simp: driver_wf_def steady_def split: place.splits)

lemma driver_wf_step:
  assumes "driver_step env d l d'" "driver_wf d" "rounding (rnd env)"
  shows "driver_wf d'"
  using assms(1)
proof cases
  case (decide draw)
  let ?b = "if restart_required d \<or> reached_success d then INITIAL_BACKOFF_MS else backoff_ms d"
  have "INITIAL_BACKOFF_MS \<le> ?b \<and> ?b \<le> MAX_BACKOFF_MS"
    using assms(2) by (simp add: driver_wf_def INITIAL_BACKOFF_MS_def MAX_BACKOFF_MS_def)
  moreover from this jittered_between [OF assms(3), of ?b draw]
  have "?b div 2 \<le> jittered_backoff_ms (rnd env) ?b draw \<and> jittered_backoff_ms (rnd env) ?b draw \<le> ?b" by blast
  ultimately show ?thesis
    using assms(2) decide
    by (auto simp: after_failure_def retry_def Let_def driver_wf_def stop_def next_attempt_def attempt_def)
next
  case (wait_over w)
  then show ?thesis using assms(2)
    by (auto simp: wait_over_def next_attempt_def attempt_def driver_wf_def MAX_BACKOFF_MS_def INITIAL_BACKOFF_MS_def)
next
  case launch
  then show ?thesis using assms(2)
    by (auto simp: run_begin_def open_window_def attempt_def stop_def driver_wf_def MAX_BACKOFF_MS_def
        INITIAL_BACKOFF_MS_def split: option.splits outcome.splits)
qed (simp_all add: driver_wf_cong [OF assms(2)] steady_ops)


text \<open>C18: In every run of a driver the backoff stays between one second and one minute, and each wait is between half
  the backoff and the backoff.\<close>

theorem driver_run_wf:
  assumes "driver_run env d ls d'" "driver_wf d" "rounding (rnd env)"
  shows "driver_wf d'"
  using assms by (induction rule: driver_run.induct) (simp, blast intro: driver_wf_step)

text \<open>An attempt that fails, and the wait after it.\<close>

definition failed_attempt :: "(rat \<Rightarrow> rat) \<Rightarrow> rat \<Rightarrow> string \<Rightarrow> driver \<Rightarrow> driver" where
  "failed_attempt r draw why d = wait_over (after_failure r draw (connection_failed why d))"

lemma failed_attempt_once:
  assumes "\<not> shutting_down d" "\<not> expect_disconnect d" "\<not> restart_required d" "\<not> reached_success d"
  shows "let d' = failed_attempt r draw why d
         in backoff_ms d' = min (2 * backoff_ms d) MAX_BACKOFF_MS \<and> place d' = Dialing \<and> \<not> shutting_down d' \<and>
            \<not> expect_disconnect d' \<and> \<not> restart_required d' \<and> \<not> reached_success d'"
  using assms by (simp add: failed_attempt_def driver_ops sess_status_def Let_def)

theorem backoff_doubles:
  assumes "\<not> shutting_down d" "\<not> expect_disconnect d" "\<not> restart_required d"
  shows "let d' = (failed_attempt r draw why ^^ k) (open_window d)
         in place d' = Dialing \<and> backoff_ms d' = min (1000 * 2 ^ k) 60000"
proof -
  let ?f = "failed_attempt r draw why" and ?d = "open_window d"
  have "backoff_ms ((?f ^^ k) ?d) = min (1000 * 2 ^ k) 60000 \<and> place ((?f ^^ k) ?d) = Dialing \<and>
      \<not> shutting_down ((?f ^^ k) ?d) \<and> \<not> expect_disconnect ((?f ^^ k) ?d) \<and> \<not> restart_required ((?f ^^ k) ?d) \<and>
      \<not> reached_success ((?f ^^ k) ?d)"
  proof (induction k)
    case 0
    then show ?case using assms by (simp add: open_window_def attempt_def INITIAL_BACKOFF_MS_def)
  next
    case (Suc k)
    then show ?case using failed_attempt_once [of "(?f ^^ k) ?d" r draw why]
      by (simp add: Let_def MAX_BACKOFF_MS_def)
  qed
  then show ?thesis by (simp add: Let_def)
qed

section \<open>Refusals\<close>

definition refuses :: "node \<Rightarrow> bool" where
  "refuses n \<longleftrightarrow> tag n = ''failure'' \<or> tag n = ''stream:error'' \<and> (is_replaced n \<or> is_rejected n)"

definition condemned :: "bool \<Rightarrow> driver \<Rightarrow> bool" where
  "condemned b d \<longleftrightarrow>
    place d = Stopped \<or> place d \<in> {Live, Ended} \<and> expect_disconnect d \<and> (b \<longrightarrow> wa_blocked d)"

lemma condemned_step:
  assumes "driver_step env d l d'" "condemned b d" "\<not> asks l"
  shows "condemned b d'"
  using assms(1)
  by cases (insert assms(2,3), auto simp: condemned_def asks_def driver_ops node_ops Let_def
      split: list.splits option.splits place.splits if_splits)

lemma condemned_run:
  assumes "driver_run env d ls d'" "condemned b d" "\<forall>l \<in> set ls. \<not> asks l"
  shows "condemned b d'"
  using assms by (induction rule: driver_run.induct) (auto intro: condemned_step)

lemma refused_condemned:
  assumes "place d = Live" "refuses n"
  shows "condemned (tag n = ''failure'' \<or> \<not> is_replaced n) (recv_inbound lm now n d)"
  using assms by (auto simp: condemned_def refuses_def recv_inbound_def select_again_def mark_rx_def node_ops
      is_idle_ping_timeout_def is_rejected_def Let_def)

text \<open>C8: After the server has refused (a \<open>failure\<close>, a stream error 401 or 403, or \<open>replaced\<close>) the driver makes no
  further attempt unless somebody asks for one; and where the account was refused it ends \<open>Blocked\<close>.\<close>

theorem no_retry_after_refusal:
  assumes "place d = Live" "refuses n"
    and "driver_run env (recv_inbound (limit env) now n d) ls d'" "\<forall>l \<in> set ls. \<not> asks l"
  shows "place d' \<in> {Live, Ended, Stopped} \<and>
    (place d' = Ended \<and> \<not> shutting_down d' \<and> (tag n = ''failure'' \<or> \<not> is_replaced n) \<longrightarrow>
      (let d'' = after_failure (rnd env) draw d' in place d'' = Stopped \<and> sess_status d'' = Blocked))"
  using condemned_run [OF assms(3) refused_condemned [OF assms(1,2)] assms(4)]
  by (auto simp: condemned_def after_failure_def Let_def stop_def sess_status_def set_status_def)

section \<open>The window for scanning\<close>

definition idle_timeout :: "label \<Rightarrow> bool" where
  "idle_timeout l = (case l of Recv _ n \<Rightarrow> tag n = ''stream:error'' \<and> \<not> is_replaced n \<and> is_idle_ping_timeout n | _ \<Rightarrow> False)"

definition scanning :: "u32 \<Rightarrow> nat \<Rightarrow> driver \<Rightarrow> bool" where
  "scanning lm k d \<longleftrightarrow>
    place d = Stopped \<or> place d \<in> {Live, Ended} \<and> expect_disconnect d \<or>
    place d \<noteq> Launched \<and> jid d = None \<and> unat (qr_timeouts d) = k \<and> k < unat lm"

lemma scanning_idle:
  assumes "scanning lm k d" "place d = Live" "idle_timeout (Recv now n)"
  shows "scanning lm (k + 1) (recv_inbound lm now n d)"
proof -
  have n: "tag n = ''stream:error''" "\<not> is_replaced n" "is_idle_ping_timeout n" "get_attr n ''code'' \<noteq> Some ''515''"
    using assms(3) by (auto simp: idle_timeout_def is_idle_ping_timeout_def)
  have r: "recv_inbound lm now n d = select_again (idle_ping_timeout lm (mark_rx now d))"
    using n by (simp add: recv_inbound_def steering_node_def stream_error_def)
  show ?thesis
  proof (cases "expect_disconnect d \<or> lm \<le> qr_timeouts d + 1")
    case True
    then show ?thesis using assms(1,2)
      by (auto simp: r scanning_def idle_ping_timeout_def select_again_def mark_rx_def Let_def)
  next
    case False
    then have j: "jid d = None" "unat (qr_timeouts d) = k" "k < unat lm" using assms(1,2) by (auto simp: scanning_def)
    have "unat (qr_timeouts d + 1) = k + 1"
      using j(2,3) unsigned_less [of lm, where 'a=nat] by (simp add: unat_word_ariths)
    moreover have "unat (qr_timeouts d + 1) < unat lm" using False by (simp add: word_less_nat_alt not_le)
    ultimately show ?thesis using False j assms(2)
      by (simp add: r scanning_def idle_ping_timeout_def select_again_def mark_rx_def Let_def)
  qed
qed

definition pairs :: "label \<Rightarrow> bool" where
  "pairs l \<longleftrightarrow> (\<exists>now j. l = RecvPaired now j)"

lemma scanning_step:
  assumes "driver_step env d l d'" "scanning (limit env) k d" "\<not> asks l" "\<not> pairs l"
  shows "scanning (limit env) (k + (if idle_timeout l then 1 else 0)) d'"
  using assms(1)
proof cases
  case (recv now n)
  show ?thesis
  proof (cases "idle_timeout l")
    case True
    then show ?thesis using scanning_idle assms(2) recv by simp
  next
    case False
    then show ?thesis using assms(2) recv
      by (auto simp: scanning_def idle_timeout_def recv_inbound_def select_again_def mark_rx_def
          steering_node_def stream_error_def block_def login_success_def send_event_def)
  qed
qed (insert assms(2-4), auto simp: scanning_def asks_def pairs_def idle_timeout_def driver_ops Let_def
      split: list.splits option.splits place.splits if_splits)

lemma scanning_run:
  assumes "driver_run env d ls d'" "scanning (limit env) 0 d" "\<forall>l \<in> set ls. \<not> asks l \<and> \<not> pairs l"
  shows "scanning (limit env) (length (filter idle_timeout ls)) d'"
  using assms
proof (induction rule: driver_run.induct)
  case (more d ls d' l d'')
  then have "scanning (limit env) (length (filter idle_timeout ls)) d'" "\<not> asks l" "\<not> pairs l" by simp_all
  from scanning_step [OF more.hyps(2) this] show ?case by (cases "idle_timeout l") simp_all
qed simp

lemma limit_positive: "0 < qr_refresh_limit var"
proof -
  have "1 \<le> qr_refresh_limit var" by (simp add: qr_refresh_limit_def split: option.splits)
  then show ?thesis by (simp add: word_le_nat_alt word_less_nat_alt)
qed

text \<open>Once an unpaired session has seen as many idle timeouts as its budget allows, its driver makes no further
  attempt, whatever else happened in between.\<close>

theorem qr_window_closes:
  assumes "0 < limit env" "jid d = None" "driver_run env (open_window d) ls d'"
    and "\<forall>l \<in> set ls. \<not> asks l \<and> \<not> pairs l"
    and "unat (limit env) \<le> length (filter idle_timeout ls)"
  shows "place d' \<in> {Live, Ended, Stopped}"
proof -
  have "scanning (limit env) 0 (open_window d)"
    using assms(1,2) by (simp add: word_less_nat_alt scanning_def open_window_def attempt_def)
  from scanning_run [OF assms(3) this assms(4)] show ?thesis using assms(5) by (auto simp: scanning_def)
qed


section \<open>Calls and timers that miss the driver\<close>

text \<open>A logout ends a driver that reads its socket or waits for its next attempt. A driver that is dialing
  does not hear it: the status is overwritten, and it logs in or tries again.\<close>

theorem logout_heard_only_by_a_select:
  "(place d = Live \<longrightarrow>
      driver_step env (logout d) LogoutSeen (logout_seen (logout d)) \<and> place (logout_seen (logout d)) = Stopped \<and>
      sess_status (logout_seen (logout d)) = LoggedOut) \<and>
   (place d = Waiting w \<longrightarrow>
      driver_step env (logout d) WaitLogout (stop (logout d)) \<and> sess_status (stop (logout d)) = LoggedOut) \<and>
   (place d = Dialing \<longrightarrow>
      (let up = connection_up (logout d) in place up = Live \<and> sess_status up = AwaitingQr \<and> \<not> logout_woken up) \<and>
      (\<not> shutting_down d \<and> \<not> expect_disconnect d \<longrightarrow>
        place (after_failure (rnd env) draw (connection_failed why (logout d))) \<noteq> Stopped))"
proof (intro conjI impI)
  assume p: "place d = Live"
  then show "driver_step env (logout d) LogoutSeen (logout_seen (logout d))"
    by (intro driver_step.logout_seen) (simp_all add: logout_def notify_logout_def set_status_def send_event_def)
  show "place (logout_seen (logout d)) = Stopped" by (simp add: logout_seen_def connection_closed_def stop_def)
  show "sess_status (logout_seen (logout d)) = LoggedOut" using p
    by (simp add: driver_ops sess_status_def Let_def)
next
  assume p: "place d = Waiting w"
  then show "driver_step env (logout d) WaitLogout (stop (logout d))"
    by (intro driver_step.wait_logout [where w = w])
      (simp_all add: logout_def notify_logout_def set_status_def send_event_def)
  show "sess_status (stop (logout d)) = LoggedOut" using p by (simp add: driver_ops sess_status_def Let_def)
next
  assume "place d = Dialing"
  then show "let up = connection_up (logout d) in place up = Live \<and> sess_status up = AwaitingQr \<and> \<not> logout_woken up"
    by (simp add: driver_ops sess_status_def Let_def)
next
  assume "place d = Dialing" "\<not> shutting_down d \<and> \<not> expect_disconnect d"
  then show "place (after_failure (rnd env) draw (connection_failed why (logout d))) \<noteq> Stopped"
    by (simp add: driver_ops sess_status_def Let_def)
qed

text \<open>C35: A session that was refused right after its login, and whose driver has stopped, is marked connected
  by the fallback timer of the sync phase; \<open>connect\<close> then does nothing.\<close>

theorem deadline_revives_a_refused_session:
  assumes "\<not> shutting_down d" "tag n = ''failure''"
  shows "let d1 = recv_inbound lm now n (login_success d);
      d2 = after_failure r draw (connection_failed why d1);
      d3 = on_sess sync_deadline_fires d2
    in sess_status d2 = Blocked \<and> place d2 = Stopped \<and> sess_status d3 = Connected \<and> place d3 = Stopped \<and>
       connect l d3 = (AlreadyUp, d3)"
  using assms
  by (simp add: driver_ops node_ops sess_status_def Let_def begin_sync_def sync_deadline_fires_def mark_ready_def)

text \<open>A \<open>connect\<close> while a scan is awaited: the new connection has no send pump of its own, and until it is up
  a reconnect signals nobody.\<close>

theorem connect_over_a_live_socket:
  assumes "place d = Live" "sess_status d = AwaitingQr" "socket_live d" "\<not> send_rx_free d" "l \<noteq> Some False"
    and "\<not> shutting_down d" "proxy_url d = None"
  shows "let d1 = snd (connect l d); d2 = connection_up (run_begin d1)
    in fst (connect l d) = Started \<and> place d1 = Launched \<and> reconnect l d1 = d1\<lparr>restart_required := True\<rparr> \<and>
       place d2 = Live \<and> \<not> pumped d2"
  using assms
  by (simp add: driver_ops sess_status_def Let_def reconnect_can_bounce_def status_is_live_def)

section \<open>Runs on a concrete session\<close>

definition scan_session :: driver where
  "scan_session = connection_up (open_window (fresh_session None None))"

definition plain_env :: driver_env where
  "plain_env = \<lparr>limit = 1, rnd = (\<lambda>x. x)\<rparr>"

definition ping_error :: node where
  "ping_error = Node ''stream:error'' [] (CNodes [Node ''ping'' [] CNone])"

lemma scan_session_fields:
  "place scan_session = Live" "shutting_down scan_session = False" "jid scan_session = None"
  "expect_disconnect scan_session = False" "restart_required scan_session = False"
  by (simp_all add: scan_session_def fresh_session_def driver_ops Let_def)

lemma plain_rounding: "rounding (rnd plain_env)"
  by (simp add: rounding_def plain_env_def mono_def)

lemma driver_run_one: "driver_step env d l d' \<Longrightarrow> driver_run env d [l] d'"
  using driver_run.more [OF driver_run.none, of env d l d'] by simp

text \<open>The first attempt fails, with a wait of \<open>500 + round (500 / 3)\<close> milliseconds before the second.\<close>

theorem driver_run_wf_witness:
  "\<exists>d. place d = Waiting 667 \<and> driver_wf d"
proof -
  let ?e = "connection_failed [] (attempt (fresh_session None None))"
  let ?d = "after_failure (rnd plain_env) (1 / 3) ?e"
  have "place ?e = Ended" by (simp add: connection_failed_def)
  then have "driver_run plain_env ?e [Decide (1 / 3)] ?d" by (intro driver_run_one driver_step.decide)
  then have "driver_wf ?d"
    by (rule driver_run_wf) (simp_all add: plain_rounding driver_wf_def driver_ops fresh_session_def
        INITIAL_BACKOFF_MS_def MAX_BACKOFF_MS_def)
  moreover have "\<lfloor>1003 / 6 :: rat\<rfloor> = 167" by (simp add: floor_eq_iff)
  then have "place ?d = Waiting 667"
    by (simp add: fresh_session_def driver_ops sess_status_def Let_def jittered_backoff_ms_def INITIAL_BACKOFF_MS_def
        round_half_up_def plain_env_def)
  ultimately show ?thesis by blast
qed

theorem backoff_doubles_witness:
  "let d' = (failed_attempt (\<lambda>x. x) (1 / 2) [] ^^ 7) (open_window scan_session)
   in place d' = Dialing \<and> backoff_ms d' = 60000"
  using backoff_doubles [where d = scan_session and r = "\<lambda>x. x" and draw = "1 / 2" and why = "[]" and k = 7]
  by (simp add: scan_session_fields)

theorem no_retry_after_refusal_witness:
  "\<exists>ls d'. ls \<noteq> [] \<and> driver_run plain_env (recv_inbound (limit plain_env) 9 (Node ''failure'' [] CNone) scan_session) ls d' \<and>
     place d' \<in> {Live, Ended, Stopped}"
proof -
  let ?n = "Node ''failure'' [] CNone"
  let ?d = "recv_inbound (limit plain_env) 9 ?n scan_session"
  have "place ?d = Live" by (simp add: driver_ops node_ops scan_session_fields)
  then have r: "driver_run plain_env ?d [RecvFailed []] (connection_failed [] ?d)"
    by (intro driver_run_one driver_step.recv_failed)
  have "place (connection_failed [] ?d) \<in> {Live, Ended, Stopped}"
    using no_retry_after_refusal [OF scan_session_fields(1) _ r] by (simp add: refuses_def asks_def)
  with r show ?thesis by blast
qed

text \<open>With a budget of one scan, the first idle timeout is the last.\<close>

theorem qr_window_closes_witness:
  "\<exists>ls d'. length (filter idle_timeout ls) = 1 \<and>
     driver_run plain_env (open_window (fresh_session None None)) ls d' \<and> place d' \<in> {Live, Ended, Stopped}"
proof -
  let ?d = "open_window (fresh_session None None)" and ?e = "recv_inbound (limit plain_env) 9 ping_error scan_session"
  have "driver_run plain_env ?d [Up] scan_session"
    unfolding scan_session_def by (intro driver_run_one driver_step.up) (simp add: open_window_def attempt_def)
  from driver_run.more [OF this driver_step.recv [OF scan_session_fields(1)], of 9 ping_error]
  have r: "driver_run plain_env ?d [Up, Recv 9 ping_error] ?e" by simp
  have i: "length (filter idle_timeout [Up, Recv 9 ping_error]) = 1"
    by (simp add: idle_timeout_def ping_error_def is_replaced_def is_idle_ping_timeout_def has_child_def get_attr_def)
  have l: "unat (limit plain_env) = 1" by (simp add: plain_env_def)
  have "place ?e \<in> {Live, Ended, Stopped}"
  proof (rule qr_window_closes [OF _ _ r])
    show "0 < limit plain_env" by (simp add: plain_env_def)
    show "jid (fresh_session None None) = None" by (simp add: fresh_session_def)
    show "\<forall>l \<in> set [Up, Recv 9 ping_error]. \<not> asks l \<and> \<not> pairs l" by (simp add: asks_def pairs_def)
    show "unat (limit plain_env) \<le> length (filter idle_timeout [Up, Recv 9 ping_error])" by (simp only: i l)
  qed
  with r i show ?thesis by blast
qed

theorem deadline_revives_a_refused_session_witness:
  "let d1 = recv_inbound 8 9 (Node ''failure'' [] CNone) (login_success scan_session);
      d3 = on_sess sync_deadline_fires (after_failure (\<lambda>x. x) 0 (connection_failed [] d1))
    in sess_status d3 = Connected \<and> connect None d3 = (AlreadyUp, d3)"
  using deadline_revives_a_refused_session [where d = scan_session and n = "Node ''failure'' [] CNone" and lm = 8
      and now = 9 and r = "\<lambda>x. x" and draw = 0 and why = "[]" and l = None]
  by (simp add: scan_session_fields Let_def)

theorem connect_over_a_live_socket_witness:
  "\<not> pumped (connection_up (run_begin (snd (connect None scan_session))))"
  using connect_over_a_live_socket [where d = scan_session and l = None]
  by (simp add: scan_session_def fresh_session_def driver_ops sess_status_def Let_def)

end
