(* ===== verification/Leases.thy ===== *)
theory Leases
  imports Session_Driver
begin

text \<open>
  The leases by which the instances of a deployment agree who connects a session: the statements of
  \<open>src/src/store.rs\<close> on the table \<open>session_leases\<close>, the wait for a lease of
  \<open>src/src/session.rs\<close>, and the system of several instances that share one table and one clock.
\<close>

record lease =
  owner_id :: string
  heartbeat_ts :: int
  ttl :: int

type_synonym leases = "(string, lease) rows"

definition lease_acquire :: "string \<Rightarrow> string \<Rightarrow> int \<Rightarrow> int \<Rightarrow> leases \<Rightarrow> bool \<times> leases" where
  "lease_acquire session_id owner t now ls =
    (let new = \<lparr>owner_id = owner, heartbeat_ts = now, ttl = t\<rparr>;
         ls = (case row_load ls session_id of
             None \<Rightarrow> row_save ls session_id new
           | Some l \<Rightarrow> if owner_id l = owner \<or> heartbeat_ts l + ttl l < now then row_save ls session_id new else ls)
     in (map_option owner_id (row_load ls session_id) = Some owner, ls))"

definition owns :: "string \<Rightarrow> string \<Rightarrow> leases \<Rightarrow> bool" where
  "owns session_id owner ls \<longleftrightarrow> map_option owner_id (row_load ls session_id) = Some owner"

definition lease_renew :: "string \<Rightarrow> string \<Rightarrow> int \<Rightarrow> leases \<Rightarrow> bool \<times> leases" where
  "lease_renew session_id owner now ls =
    (case row_load ls session_id of
       Some l \<Rightarrow> if owner_id l = owner then (True, row_save ls session_id (l\<lparr>heartbeat_ts := now\<rparr>)) else (False, ls)
     | None \<Rightarrow> (False, ls))"

definition lease_release :: "string \<Rightarrow> string \<Rightarrow> leases \<Rightarrow> leases" where
  "lease_release session_id owner ls = (if owns session_id owner ls then row_delete ls session_id else ls)"

definition lease_holder :: "string \<Rightarrow> int \<Rightarrow> leases \<Rightarrow> (string \<times> bool) option" where
  "lease_holder session_id now ls =
    map_option (\<lambda>l. (owner_id l, heartbeat_ts l + ttl l < now)) (row_load ls session_id)"

section \<open>Waiting for a lease\<close>

definition lease_wait_still_wanted :: "session_status \<Rightarrow> bool \<Rightarrow> bool" where
  "lease_wait_still_wanted st has_jid \<longleftrightarrow> st = Disconnected \<and> has_jid"

text \<open>What one turn of \<open>connect_when_lease_free\<close> finds: whether the process is going down, the session
  if it is still there, and what \<open>connect\<close> says, \<open>None\<close> an error other than a conflict.\<close>

record handoff_view =
  going_down :: bool
  wanted :: "(session_status \<times> bool) option"
  attempted :: "connect_result option"

datatype handoff = GivenUp | HandedOff | StillHeld

fun connect_when_lease_free :: "nat \<Rightarrow> handoff_view list \<Rightarrow> handoff \<times> nat list" where
  "connect_when_lease_free backoff [] = (StillHeld, [])"
| "connect_when_lease_free backoff (v # vs) =
    (if going_down v then (GivenUp, [])
     else case wanted v of
       None \<Rightarrow> (GivenUp, [])
     | Some (st, has_jid) \<Rightarrow>
         if \<not> lease_wait_still_wanted st has_jid then (GivenUp, [])
         else case attempted v of
           None \<Rightarrow> (GivenUp, [])
         | Some LeasedElsewhere \<Rightarrow>
             (let (r, waits) = connect_when_lease_free (min (backoff * 2) 15000) vs in (r, backoff # waits))
         | Some _ \<Rightarrow> (HandedOff, []))"

lemma handoff_waits:
  "1000 \<le> b \<Longrightarrow> b \<le> 15000 \<Longrightarrow> list_all (\<lambda>w. 1000 \<le> w \<and> w \<le> 15000) (snd (connect_when_lease_free b vs))"
  by (induction b vs rule: connect_when_lease_free.induct)
    (auto simp: split_beta split: option.splits connect_result.splits)

section \<open>Several instances\<close>

text \<open>\<open>held s o\<close>: instance \<open>o\<close> drives session \<open>s\<close>; the time is that of the last heartbeat that went through.\<close>

record lease_world =
  table :: leases
  clock :: int
  held :: "string \<Rightarrow> string \<Rightarrow> (int \<times> int) option"

definition hold :: "string \<Rightarrow> string \<Rightarrow> (int \<times> int) option \<Rightarrow> lease_world \<Rightarrow> lease_world" where
  "hold s i h w = w\<lparr>held := (held w)(s := (held w s)(i := h))\<rparr>"

inductive lease_step :: "lease_world \<Rightarrow> lease_world \<Rightarrow> bool" where
  tick: "0 \<le> dt \<Longrightarrow> lease_step w (w\<lparr>clock := clock w + dt\<rparr>)"
| acquired: "lease_acquire s i t (clock w) (table w) = (True, ls) \<Longrightarrow>
    lease_step w (hold s i (Some (clock w, t)) (w\<lparr>table := ls\<rparr>))"
| refused: "lease_acquire s i t (clock w) (table w) = (False, ls) \<Longrightarrow> lease_step w (w\<lparr>table := ls\<rparr>)"
| renewed: "held w s i = Some (h, t) \<Longrightarrow> lease_renew s i (clock w) (table w) = (True, ls) \<Longrightarrow>
    lease_step w (hold s i (Some (clock w, t)) (w\<lparr>table := ls\<rparr>))"
| lost: "held w s i = Some (h, t) \<Longrightarrow> lease_renew s i (clock w) (table w) = (False, ls) \<Longrightarrow>
    lease_step w (hold s i None (w\<lparr>table := lease_release s i ls\<rparr>))"
| released: "held w s i \<noteq> None \<Longrightarrow> lease_step w (hold s i None (w\<lparr>table := lease_release s i (table w)\<rparr>))"
| died: "lease_step w (hold s i None w)"

inductive lease_steps :: "lease_world \<Rightarrow> lease_world \<Rightarrow> bool" where
  none: "lease_steps w w"
| more: "lease_steps w w' \<Longrightarrow> lease_step w' w'' \<Longrightarrow> lease_steps w w''"

definition no_leases :: "int \<Rightarrow> lease_world" where
  "no_leases now = \<lparr>table = [], clock = now, held = (\<lambda>_ _. None)\<rparr>"

text \<open>An instance that believes to hold a lease is in the table, or has missed its heartbeats and lost it.\<close>

definition lease_good :: "leases \<Rightarrow> int \<Rightarrow> string \<Rightarrow> string \<Rightarrow> int \<Rightarrow> int \<Rightarrow> bool" where
  "lease_good ls now s i h t \<longleftrightarrow>
    row_load ls s = Some \<lparr>owner_id = i, heartbeat_ts = h, ttl = t\<rparr> \<or> h + t < now \<and> \<not> owns s i ls"

definition lease_ok :: "lease_world \<Rightarrow> bool" where
  "lease_ok w \<longleftrightarrow> (\<forall>s i h t. held w s i = Some (h, t) \<longrightarrow> lease_good (table w) (clock w) s i h t)"

lemma lease_okD: "lease_ok w \<Longrightarrow> held w s i = Some (h, t) \<Longrightarrow> lease_good (table w) (clock w) s i h t"
  by (auto simp: lease_ok_def)

lemma lease_ok_table:
  assumes "lease_ok w"
    and "\<And>s' i' h' t'. held w s' i' = Some (h', t') \<Longrightarrow> (s', i') \<noteq> (s, i) \<Longrightarrow>
      lease_good (table w) (clock w) s' i' h' t' \<Longrightarrow> lease_good ls (clock w) s' i' h' t'"
    and "\<And>h' t'. b = Some (h', t') \<Longrightarrow> lease_good ls (clock w) s i h' t'"
  shows "lease_ok (hold s i b (w\<lparr>table := ls\<rparr>))"
  unfolding lease_ok_def
proof (intro allI impI)
  fix s' i' h' t' assume h: "held (hold s i b (w\<lparr>table := ls\<rparr>)) s' i' = Some (h', t')"
  show "lease_good (table (hold s i b (w\<lparr>table := ls\<rparr>))) (clock (hold s i b (w\<lparr>table := ls\<rparr>))) s' i' h' t'"
  proof (cases "(s', i') = (s, i)")
    case True
    then show ?thesis using h assms(3) by (simp add: hold_def)
  next
    case False
    then have "held w s' i' = Some (h', t')" using h by (auto simp: hold_def split: if_splits)
    from assms(2) [OF this False lease_okD [OF assms(1) this]] show ?thesis by (simp add: hold_def)
  qed
qed

lemmas lease_simps = lease_good_def owns_def rows.load_save rows.load_delete Let_def

lemma lease_ok_step:
  assumes "lease_step w w'" "lease_ok w"
  shows "lease_ok w'"
  using assms(1)
proof cases
  case (tick dt)
  then show ?thesis using assms(2) by (fastforce simp: lease_ok_def lease_good_def)
next
  case (acquired s i t ls)
  show ?thesis unfolding acquired(1)
    by (rule lease_ok_table [OF assms(2)]; use acquired(2) in
        \<open>auto simp: lease_acquire_def lease_simps split: option.splits if_splits\<close>)
next
  case (refused s i t ls)
  then have "row_load ls = row_load (table w)"
    by (auto simp: lease_acquire_def lease_simps split: option.splits if_splits)
  then show ?thesis using refused assms(2) by (simp add: lease_ok_def lease_good_def owns_def)
next
  case (renewed s i h t ls)
  from lease_okD [OF assms(2) renewed(2)] show ?thesis unfolding renewed(1)
    by - (rule lease_ok_table [OF assms(2)]; use renewed(2,3) in
        \<open>auto simp: lease_renew_def lease_simps split: option.splits if_splits\<close>)
next
  case (lost s i h t ls)
  show ?thesis unfolding lost(1)
    by (rule lease_ok_table [OF assms(2)]; use lost(2,3) in
        \<open>auto simp: lease_renew_def lease_release_def lease_simps split: option.splits if_splits\<close>)
next
  case (released s i)
  show ?thesis unfolding released(1)
    by (rule lease_ok_table [OF assms(2)]; use released(2) in
        \<open>auto simp: lease_release_def lease_simps split: option.splits if_splits\<close>)
next
  case (died s i)
  then show ?thesis using assms(2) by (auto simp: lease_ok_def hold_def)
qed

lemma lease_ok_steps: "lease_steps w w' \<Longrightarrow> lease_ok w \<Longrightarrow> lease_ok w'"
  by (induction rule: lease_steps.induct) (auto intro: lease_ok_step)

text \<open>C13: Of two instances that drive one session, one has gone longer without a heartbeat than its lease
  lasts: as long as heartbeats go through in time, no two instances hold a socket of the same session.\<close>

theorem lease_exclusion:
  assumes "lease_steps (no_leases t0) w" "i \<noteq> j"
    and "held w s i = Some (hi, ti)" "held w s j = Some (hj, tj)"
  shows "hi + ti < clock w \<or> hj + tj < clock w"
proof -
  have "lease_ok w" by (rule lease_ok_steps [OF assms(1)]) (simp add: lease_ok_def no_leases_def)
  from lease_okD [OF this assms(3)] lease_okD [OF this assms(4)] assms(2) show ?thesis
    by (auto simp: lease_good_def)
qed

text \<open>An instance that stalls for two minutes, and the one that takes over.\<close>

theorem lease_exclusion_witness:
  "\<exists>w :: lease_world. held w ''s'' ''a'' = Some (0, 60) \<and> held w ''s'' ''b'' = Some (120, 60) \<and> (60 < clock w \<or> 180 < clock w)"
proof -
  let ?w0 = "no_leases 0"
  let ?la = "[(''s'', \<lparr>owner_id = ''a'', heartbeat_ts = 0, ttl = 60\<rparr>)]"
  let ?lb = "[(''s'', \<lparr>owner_id = ''b'', heartbeat_ts = 120, ttl = 60\<rparr>)]"
  let ?w1 = "hold ''s'' ''a'' (Some (clock ?w0, 60)) (?w0\<lparr>table := ?la\<rparr>)"
  let ?w2 = "?w1\<lparr>clock := clock ?w1 + 120\<rparr>"
  let ?w3 = "hold ''s'' ''b'' (Some (clock ?w2, 60)) (?w2\<lparr>table := ?lb\<rparr>)"
  note e = lease_acquire_def no_leases_def hold_def row_load_def row_save_def row_delete_def Let_def
  have 1: "lease_step ?w0 ?w1" by (rule lease_step.acquired) (simp add: e)
  have 2: "lease_step ?w1 ?w2" by (rule lease_step.tick) simp
  have 3: "lease_step ?w2 ?w3" by (rule lease_step.acquired) (simp add: e)
  have r: "lease_steps ?w0 ?w3"
    by (rule lease_steps.more [OF lease_steps.more [OF lease_steps.more [OF lease_steps.none 1] 2] 3])
  have "held ?w3 ''s'' ''a'' = Some (0, 60) \<and> held ?w3 ''s'' ''b'' = Some (120, 60)"
    by (simp add: no_leases_def hold_def)
  with r obtain w where w: "lease_steps ?w0 w" "held w ''s'' ''a'' = Some (0, 60)" "held w ''s'' ''b'' = Some (120, 60)"
    by blast
  from lease_exclusion [OF w(1) _ w(2,3)] have "60 < clock w \<or> 180 < clock w" by simp
  with w show ?thesis by blast
qed

end
