(* ===== verification/Linking.thy ===== *)
theory Linking
  imports Device_Keys Node_Build
begin

text \<open>
  Pairing by a code, module \<open>linking\<close> of \<open>src/src/crypto.rs\<close> and the part of
  \<open>src/src/session.rs\<close> that runs it: the code a user types, the wrapped keys, the companion's half of
  the key agreement, and the pending state of a session from \<open>pair_phone\<close> to the notification of the phone.
  HMAC, HKDF, X25519, AES-CTR and AES-GCM are arguments, and so is what the generators draw.
\<close>

record link_crypto = signal_crypto +
  aes_ctr :: "bytes \<Rightarrow> bytes \<Rightarrow> bytes \<Rightarrow> bytes"
  gcm_seal :: "bytes \<Rightarrow> bytes \<Rightarrow> bytes \<Rightarrow> bytes option"
  gcm_open :: "bytes \<Rightarrow> bytes \<Rightarrow> bytes \<Rightarrow> bytes option"

section \<open>The code\<close>

definition LINKING_ALPHABET :: string where
  "LINKING_ALPHABET = ''123456789ABCDEFGHJKLMNPQRSTVWXYZ''"

definition link_char :: "u64 \<Rightarrow> char" where
  "link_char w = LINKING_ALPHABET ! unat (w AND 0x1f)"

text \<open>The inner loop: five bits at a time, while there are five.\<close>

function emit_bits :: "u64 \<Rightarrow> nat \<Rightarrow> string \<Rightarrow> u64 \<times> nat \<times> string" where
  "emit_bits acc bits out =
    (if bits < 5 then (acc, bits, out)
     else let bits = bits - 5
          in emit_bits (acc AND (push_bit bits 1 - 1)) bits (out @ [link_char (drop_bit bits acc)]))"
  by pat_completeness auto
termination by (relation "measure (\<lambda>(acc, bits, out). bits)") auto

declare emit_bits.simps [simp del]

definition encode_byte :: "u64 \<times> nat \<times> string \<Rightarrow> u8 \<Rightarrow> u64 \<times> nat \<times> string" where
  "encode_byte st b = (let (acc, bits, out) = st in emit_bits (push_bit 8 acc OR ucast b) (bits + 8) out)"

definition base32_encode :: "bytes \<Rightarrow> string" where
  "base32_encode data =
    (let (acc, bits, out) = foldl encode_byte (0, 0, []) data
     in if 0 < bits then out @ [link_char (push_bit (5 - bits) acc)] else out)"

section \<open>Keys from the code\<close>

definition LINK_PBKDF2_ITERS :: nat where "LINK_PBKDF2_ITERS = 131072"

definition pbkdf2_round :: "link_crypto \<Rightarrow> bytes \<Rightarrow> bytes \<times> bytes \<Rightarrow> bytes \<times> bytes" where
  "pbkdf2_round c password ut = (let u = hmac c password (fst ut) in (u, map2 (XOR) (snd ut) u))"

definition pbkdf2_block :: "link_crypto \<Rightarrow> bytes \<Rightarrow> bytes \<Rightarrow> nat \<Rightarrow> nat \<Rightarrow> bytes" where
  "pbkdf2_block c password slt iters block =
    (let u = hmac c password (slt @ be_bytes 4 block)
     in snd ((pbkdf2_round c password ^^ (iters - 1)) (u, u)))"

definition pbkdf2_sha256 :: "link_crypto \<Rightarrow> bytes \<Rightarrow> bytes \<Rightarrow> nat \<Rightarrow> nat \<Rightarrow> bytes" where
  "pbkdf2_sha256 c password slt iters dk_len =
    (let n_blocks = (dk_len + 31) div 32
     in take dk_len (concat (map (pbkdf2_block c password slt iters) [1..<n_blocks + 1])))"

definition link_code_key :: "link_crypto \<Rightarrow> string \<Rightarrow> bytes \<Rightarrow> bytes" where
  "link_code_key c linking_code slt = pbkdf2_sha256 c (as_bytes linking_code) slt LINK_PBKDF2_ITERS 32"

definition wrap_ephemeral_pub :: "link_crypto \<Rightarrow> string \<Rightarrow> bytes \<Rightarrow> bytes \<Rightarrow> bytes \<Rightarrow> bytes" where
  "wrap_ephemeral_pub c linking_code pubkey slt iv =
    slt @ iv @ aes_ctr c (link_code_key c linking_code slt) iv pubkey"

definition unwrap_ephemeral_pub :: "link_crypto \<Rightarrow> string \<Rightarrow> bytes \<Rightarrow> (string, bytes) outcome" where
  "unwrap_ephemeral_pub c linking_code wrapped =
    (if length wrapped < 80 then Err ''wrapped ephemeral pub too short''
     else let slt = take 32 wrapped; iv = take 16 (drop 32 wrapped)
          in Ok (aes_ctr c (link_code_key c linking_code slt) iv (take 32 (drop 48 wrapped))))"

record companion_ephemeral =
  ce_keypair :: key_pair
  ce_ephemeral_key :: bytes
  ce_linking_code :: string

definition generate_companion_ephemeral_key :: "link_crypto \<Rightarrow> key_pair \<Rightarrow> bytes \<Rightarrow> bytes \<Rightarrow> bytes \<Rightarrow> companion_ephemeral" where
  "generate_companion_ephemeral_key c keypair code_bytes slt iv =
    (let linking_code = base32_encode code_bytes
     in \<lparr>ce_keypair = keypair, ce_ephemeral_key = wrap_ephemeral_pub c linking_code (kp_public keypair) slt iv,
         ce_linking_code = linking_code\<rparr>)"

record code_pair_draws =
  adv_random :: bytes
  bundle_salt :: bytes
  bundle_nonce :: bytes

record code_pair_result =
  wrapped_key_bundle :: bytes
  cp_adv_secret :: bytes

definition bundle_key_of :: "link_crypto \<Rightarrow> bytes \<Rightarrow> bytes \<Rightarrow> bytes" where
  "bundle_key_of c slt ephemeral_shared =
    hkdf c (Some slt) ephemeral_shared ''link_code_pairing_key_bundle_encryption_key'' 32"

definition adv_secret_of :: "link_crypto \<Rightarrow> bytes \<Rightarrow> bytes \<Rightarrow> bytes \<Rightarrow> bytes" where
  "adv_secret_of c ephemeral_shared identity_shared rand =
    hkdf c None (ephemeral_shared @ identity_shared @ rand) ''adv_secret'' 32"

definition complete_code_pair ::
  "link_crypto \<Rightarrow> code_pair_draws \<Rightarrow> string \<Rightarrow> bytes \<Rightarrow> key_pair \<Rightarrow> bytes \<Rightarrow> bytes \<Rightarrow> (string, code_pair_result) outcome" where
  "complete_code_pair c draws linking_code our_eph_priv our_identity wrapped_primary_eph_pub primary_identity_pub =
    obind (guard_err (length primary_identity_pub \<noteq> 32) ''primary identity pub must be 32 bytes'') (\<lambda>_.
    obind (unwrap_ephemeral_pub c linking_code wrapped_primary_eph_pub) (\<lambda>primary_eph_pub.
    let ephemeral_shared = dh c our_eph_priv primary_eph_pub;
        bundle_key = bundle_key_of c (bundle_salt draws) ephemeral_shared;
        plaintext = kp_public our_identity @ primary_identity_pub @ adv_random draws
    in
    obind (ok_or (gcm_seal c bundle_key (bundle_nonce draws) plaintext) ''key bundle encrypt failed'') (\<lambda>ct.
    let identity_shared = dh c (kp_private our_identity) primary_identity_pub
    in Ok \<lparr>wrapped_key_bundle = bundle_salt draws @ bundle_nonce draws @ ct,
           cp_adv_secret = adv_secret_of c ephemeral_shared identity_shared (adv_random draws)\<rparr>)))"

section \<open>The pending pairing of a session\<close>

definition child_with_bytes :: "string \<Rightarrow> bytes \<Rightarrow> node" where
  "child_with_bytes t b = Node t [] (CBytes b)"

definition link_iq :: "string \<Rightarrow> node \<Rightarrow> node" where
  "link_iq iq_id reg =
    Node ''iq'' (attr [(''id'', iq_id), (''type'', ''set''), (''xmlns'', ''md''), (''to'', ''s.whatsapp.net'')]) (CNodes [reg])"

definition build_companion_hello_iq :: "string \<Rightarrow> string \<Rightarrow> bytes \<Rightarrow> bytes \<Rightarrow> string \<Rightarrow> node" where
  "build_companion_hello_iq iq_id jid wrapped noise_pub client_display_name =
    link_iq iq_id
      (Node ''link_code_companion_reg''
        (attr [(''jid'', jid), (''stage'', ''companion_hello''), (''should_show_push_notification'', ''true'')])
        (CNodes [child_with_bytes ''link_code_pairing_wrapped_companion_ephemeral_pub'' wrapped,
          child_with_bytes ''companion_server_auth_key_pub'' noise_pub,
          child_with_bytes ''companion_platform_id'' (as_bytes ''1''),
          child_with_bytes ''companion_platform_display'' (as_bytes client_display_name),
          child_with_bytes ''link_code_pairing_nonce'' [0]]))"

definition build_companion_finish_iq :: "string \<Rightarrow> string \<Rightarrow> bytes \<Rightarrow> bytes \<Rightarrow> string \<Rightarrow> node" where
  "build_companion_finish_iq iq_id jid bundle our_identity_pub pairing_ref =
    link_iq iq_id
      (Node ''link_code_companion_reg'' (attr [(''jid'', jid), (''stage'', ''companion_finish'')])
        (CNodes [child_with_bytes ''link_code_pairing_wrapped_key_bundle'' bundle,
          child_with_bytes ''companion_identity_public'' our_identity_pub,
          child_with_bytes ''link_code_pairing_ref'' (as_bytes pairing_ref)]))"

definition extract_link_code_pairing_ref :: "node \<Rightarrow> string option" where
  "extract_link_code_pairing_ref reply =
    Option.bind (child reply ''link_code_companion_reg'') (\<lambda>reg.
    Option.bind (child reg ''link_code_pairing_ref'') (\<lambda>r.
    map_option from_utf8_lossy (node_bytes r)))"

definition iq_is_error :: "node \<Rightarrow> bool" where
  "iq_is_error iq \<longleftrightarrow> get_attr iq ''type'' = Some ''error'' \<or>
    (case node_content iq of CNodes ns \<Rightarrow> list_ex (\<lambda>n. tag n = ''error'') ns | _ \<Rightarrow> False)"

record phone_linking_state =
  pl_jid :: string
  pl_keypair :: key_pair
  pl_ephemeral_key :: bytes
  pl_linking_code :: string
  pl_display_name :: string
  pl_pairing_ref :: string
  pl_rearm_attempts :: nat

definition REARM_MAX :: nat where "REARM_MAX = 6"

text \<open>The pending pairing, the stored secret and the codes shown to the user.\<close>

record link_session =
  phone_linking :: "phone_linking_state option"
  stored_adv_secret :: bytes
  shown_codes :: "string list"

text \<open>Up to the request; \<open>phone_linked\<close> is what follows the reply, where one came.\<close>

definition phone_jid :: "string \<Rightarrow> (string, string) outcome" where
  "phone_jid phone =
    (let digits = filter is_ascii_digit phone
     in if length digits \<le> 6 then Err ''phone number too short''
        else if hd digits = CHR ''0'' then Err ''phone number must be international (no leading 0)''
        else Ok (digits @ ''@s.whatsapp.net''))"

definition hyphenated :: "string \<Rightarrow> string" where
  "hyphenated code = take 4 code @ ''-'' @ take 4 (drop 4 code)"

definition pair_phone ::
  "(node \<Rightarrow> (string, node) outcome) \<Rightarrow> (node \<Rightarrow> string) \<Rightarrow> string \<Rightarrow> companion_ephemeral \<Rightarrow> bytes \<Rightarrow> string \<Rightarrow> string \<Rightarrow>
   link_session \<Rightarrow> (string, string) outcome \<times> link_session" where
  "pair_phone ask detail iq_id companion noise_pub phone client_display_name s =
    (case obind (phone_jid phone) (\<lambda>jid.
       obind (ask (build_companion_hello_iq iq_id jid (ce_ephemeral_key companion) noise_pub client_display_name)) (\<lambda>reply.
       obind (guard_err (iq_is_error reply) (''server rejected link-code registration: '' @ detail reply)) (\<lambda>_.
       obind (ok_or (extract_link_code_pairing_ref reply) ''response missing link_code_pairing_ref'') (\<lambda>pairing_ref.
       Ok \<lparr>pl_jid = jid, pl_keypair = ce_keypair companion, pl_ephemeral_key = ce_ephemeral_key companion,
           pl_linking_code = ce_linking_code companion, pl_display_name = client_display_name,
           pl_pairing_ref = pairing_ref, pl_rearm_attempts = 0\<rparr>)))) of
       Ok pl \<Rightarrow>
         (let formatted = hyphenated (pl_linking_code pl)
          in (Ok formatted, s\<lparr>phone_linking := Some pl, shown_codes := shown_codes s @ [formatted]\<rparr>))
     | Err e \<Rightarrow> (Err e, s)
     | Panic \<Rightarrow> (Panic, s))"

text \<open>The two halves of \<open>rearm_phone_pairing\<close>, before and after its wait for the reply.\<close>

definition rearm_send :: "string \<Rightarrow> bytes \<Rightarrow> link_session \<Rightarrow> node option \<times> link_session" where
  "rearm_send iq_id noise_pub s =
    (case phone_linking s of
       None \<Rightarrow> (None, s)
     | Some pl \<Rightarrow>
         if REARM_MAX \<le> pl_rearm_attempts pl then (None, s)
         else (Some (build_companion_hello_iq iq_id (pl_jid pl) (pl_ephemeral_key pl) noise_pub (pl_display_name pl)),
               s\<lparr>phone_linking := Some (pl\<lparr>pl_rearm_attempts := pl_rearm_attempts pl + 1\<rparr>)\<rparr>))"

definition rearm_reply :: "node option \<Rightarrow> link_session \<Rightarrow> link_session" where
  "rearm_reply reply s =
    (case reply of
       None \<Rightarrow> s
     | Some r \<Rightarrow>
         if iq_is_error r then s
         else case (extract_link_code_pairing_ref r, phone_linking s) of
           (Some new_ref, Some pl) \<Rightarrow> s\<lparr>phone_linking := Some (pl\<lparr>pl_pairing_ref := new_ref\<rparr>)\<rparr>
         | _ \<Rightarrow> s)"

definition clear_phone_linking :: "link_session \<Rightarrow> link_session" where
  "clear_phone_linking s = s\<lparr>phone_linking := None\<rparr>"

definition reg_bytes :: "node \<Rightarrow> string \<Rightarrow> bytes option" where
  "reg_bytes reg t = Option.bind (child reg t) node_bytes"

text \<open>A store that answers; the key pair is the identity of the device.\<close>

definition handle_code_pair_notification ::
  "link_crypto \<Rightarrow> code_pair_draws \<Rightarrow> string \<Rightarrow> key_pair \<Rightarrow> node \<Rightarrow> link_session \<Rightarrow> node option \<times> link_session" where
  "handle_code_pair_notification c draws iq_id identity reg s =
    (case phone_linking s of
       None \<Rightarrow> (None, s)
     | Some pl \<Rightarrow>
         (case node_content reg of
            CNodes _ \<Rightarrow>
              (let notif_ref = or_default [] (map_option from_utf8_lossy (reg_bytes reg ''link_code_pairing_ref''))
               in if notif_ref \<noteq> pl_pairing_ref pl then (None, s)
                  else case (reg_bytes reg ''link_code_pairing_wrapped_primary_ephemeral_pub'',
                             reg_bytes reg ''primary_identity_pub'') of
                    (Some wrapped_primary, Some primary_identity_pub) \<Rightarrow>
                      (case complete_code_pair c draws (pl_linking_code pl) (kp_private (pl_keypair pl)) identity
                              wrapped_primary primary_identity_pub of
                         Ok r \<Rightarrow>
                           (Some (build_companion_finish_iq iq_id (pl_jid pl) (wrapped_key_bundle r) (kp_public identity) notif_ref),
                            clear_phone_linking (s\<lparr>stored_adv_secret := cp_adv_secret r\<rparr>))
                       | _ \<Rightarrow> (None, s))
                  | _ \<Rightarrow> (None, s))
          | _ \<Rightarrow> (None, s)))"

end
