(* ===== verification/Pairing.thy ===== *)
theory Pairing
  imports Session_Driver Linking
begin

text \<open>
  Pairing in \<open>src/src/session.rs\<close>: the QR codes of a \<open>pair-device\<close>, the checks and the reply of
  \<open>apply_pair_success\<close>, and the server's requests that a session answers. The protobuf codec, base64 and
  the primitives are arguments.
\<close>

section \<open>The signed identity\<close>

record adv_container =
  container_details :: "bytes option"
  container_hmac :: "bytes option"
  container_account_type :: "int option"

record adv_signed =
  signed_details :: "bytes option"
  account_signature_key :: "bytes option"
  account_signature :: "bytes option"
  device_signature :: "bytes option"

record adv_device =
  device_key_index :: "u32 option"
  device_type :: "int option"

record adv_codec =
  dec_container :: "bytes \<Rightarrow> adv_container option"
  dec_signed :: "bytes \<Rightarrow> adv_signed option"
  enc_signed :: "adv_signed \<Rightarrow> bytes"
  dec_device :: "bytes \<Rightarrow> adv_device option"

text \<open>\<open>AdvEncryptionType::Hosted\<close>.\<close>

definition HOSTED :: int where "HOSTED = 1"

definition ADV_ACCOUNT_SIG_PREFIX :: bytes where "ADV_ACCOUNT_SIG_PREFIX = [6, 0]"
definition ADV_HOSTED_ACCOUNT_SIG_PREFIX :: bytes where "ADV_HOSTED_ACCOUNT_SIG_PREFIX = [6, 5]"
definition ADV_DEVICE_SIG_PREFIX :: bytes where "ADV_DEVICE_SIG_PREFIX = [6, 1]"

text \<open>The columns of the session's row.\<close>

record session_row =
  row_adv_secret :: "bytes option"
  account_pb :: "bytes option"
  business_name :: "string option"
  platform :: "string option"
  row_jid :: "string option"
  row_status :: string

definition find_child_attr :: "node list \<Rightarrow> string \<Rightarrow> string \<Rightarrow> string option" where
  "find_child_attr ns child_tag attr_key = Option.bind (find (\<lambda>c. tag c = child_tag) ns) (\<lambda>c. get_attr c attr_key)"

definition session_apply_pair_success ::
  "bytes \<Rightarrow> string option \<Rightarrow> string option \<Rightarrow> string option \<Rightarrow> session_row \<Rightarrow> session_row" where
  "session_apply_pair_success pb biz plat j row =
    row\<lparr>account_pb := Some pb, business_name := biz, platform := plat, row_jid := j, row_status := ''connected''\<rparr>"

definition pair_secret :: "device_keys \<Rightarrow> session_row \<Rightarrow> bytes" where
  "pair_secret keys row =
    (case row_adv_secret row of Some s \<Rightarrow> if length s = 32 then s else adv_secret keys | None \<Rightarrow> adv_secret keys)"

definition hmac_input :: "adv_container \<Rightarrow> bytes \<Rightarrow> bytes" where
  "hmac_input container details =
    (if container_account_type container = Some HOSTED then ADV_HOSTED_ACCOUNT_SIG_PREFIX else []) @ details"

text \<open>Either prefix is accepted, the one that the inner identity names first.\<close>

definition account_prefixes :: "adv_device \<Rightarrow> bytes list" where
  "account_prefixes dev =
    (if device_type dev = Some HOSTED then [ADV_HOSTED_ACCOUNT_SIG_PREFIX, ADV_ACCOUNT_SIG_PREFIX]
     else [ADV_ACCOUNT_SIG_PREFIX, ADV_HOSTED_ACCOUNT_SIG_PREFIX])"

record verified_pair =
  vp_signed :: adv_signed
  vp_details :: bytes
  vp_account_key :: bytes
  vp_key_index :: u32

text \<open>Steps 1 to 5 of \<open>apply_pair_success\<close>.\<close>

definition verify_pair_success ::
  "signal_crypto \<Rightarrow> adv_codec \<Rightarrow> device_keys \<Rightarrow> session_row \<Rightarrow> node \<Rightarrow> (string, verified_pair) outcome" where
  "verify_pair_success c pb keys row pair_success =
    obind (case node_content pair_success of CNodes ns \<Rightarrow> Ok ns | _ \<Rightarrow> Err ''pair-success has no children'') (\<lambda>ns.
    obind (ok_or (Option.bind (find (\<lambda>n. tag n = ''device-identity'') ns) node_bytes) ''pair-success missing device-identity bytes'') (\<lambda>b.
    obind (ok_or (dec_container pb b) ''bad device-identity HMAC container'') (\<lambda>container.
    obind (ok_or (container_details container) ''HMAC container missing details'') (\<lambda>details.
    obind (ok_or (container_hmac container) ''HMAC container missing hmac'') (\<lambda>hmac_bytes.
    obind (guard_err (hmac c (pair_secret keys row) (hmac_input container details) \<noteq> hmac_bytes)
        ''device-identity HMAC verification failed'') (\<lambda>_.
    obind (ok_or (dec_signed pb details) ''bad signed device-identity'') (\<lambda>signed.
    obind (ok_or (signed_details signed) ''signed identity missing details'') (\<lambda>sd.
    obind (ok_or (account_signature_key signed) ''signed identity missing account_signature_key'') (\<lambda>account_sig_key.
    obind (ok_or (account_signature signed) ''signed identity missing account_signature'') (\<lambda>account_sig.
    obind (guard_err (length account_sig_key \<noteq> 32 \<or> length account_sig \<noteq> 64)
        ''account signature key/signature wrong length'') (\<lambda>_.
    obind (ok_or (dec_device pb sd) ''bad inner ADVDeviceIdentity'') (\<lambda>dev.
    obind (guard_err (\<not> list_ex (\<lambda>prefix. xeddsa_verify c account_sig_key
          (prefix @ sd @ kp_public (identity_key keys)) account_sig) (account_prefixes dev))
        ''pair-success account signature verification failed'') (\<lambda>_.
    Ok \<lparr>vp_signed = signed, vp_details = sd, vp_account_key = account_sig_key,
        vp_key_index = or_default 0 (device_key_index dev)\<rparr>)))))))))))))"

definition device_message :: "device_keys \<Rightarrow> bytes \<Rightarrow> bytes \<Rightarrow> bytes" where
  "device_message keys sd account_key = ADV_DEVICE_SIG_PREFIX @ sd @ kp_public (identity_key keys) @ account_key"

definition pair_reply :: "node \<Rightarrow> u32 \<Rightarrow> bytes \<Rightarrow> node" where
  "pair_reply orig key_index self_signed =
    (let device_id_node = Node ''device-identity'' (attr [(''key-index'', show_nat (unat key_index))]) (CBytes self_signed);
         pair_sign_node = Node ''pair-device-sign'' [] (CNodes [device_id_node]);
         ack_attrs = [(''to'', ''s.whatsapp.net''), (''type'', ''result'')] @
           (case get_attr orig ''id'' of Some i \<Rightarrow> [(''id'', i)] | None \<Rightarrow> [])
     in Node ''iq'' (attr ack_attrs) (CNodes [pair_sign_node]))"

definition child_nodes :: "node \<Rightarrow> node list" where
  "child_nodes n = (case node_content n of CNodes ns \<Rightarrow> ns | _ \<Rightarrow> [])"

definition apply_pair_success ::
  "signal_crypto \<Rightarrow> adv_codec \<Rightarrow> device_keys \<Rightarrow> node \<Rightarrow> node \<Rightarrow> session_row \<times> driver \<Rightarrow> (string, node) outcome \<times> session_row \<times> driver" where
  "apply_pair_success c pb keys orig pair_success st =
    (let (row, d) = st in
     case verify_pair_success c pb keys row pair_success of
       Ok v \<Rightarrow>
         (let device_sig = xeddsa_sign c (kp_private (identity_key keys)) (device_message keys (vp_details v) (vp_account_key v));
              signed = (vp_signed v)\<lparr>device_signature := Some device_sig\<rparr>;
              ns = child_nodes pair_success;
              j = find_child_attr ns ''device'' ''jid'';
              row = session_apply_pair_success (enc_signed pb signed) (find_child_attr ns ''biz'' ''name'')
                (find_child_attr ns ''platform'' ''name'') j row;
              d = paired_as j d
          in (Ok (pair_reply orig (vp_key_index v) (enc_signed pb (signed\<lparr>account_signature_key := None\<rparr>))), row, d))
     | Err e \<Rightarrow> (Err e, row, d)
     | Panic \<Rightarrow> (Panic, row, d))"

section \<open>QR codes and the server's requests\<close>

definition pair_device_qr_codes :: "(bytes \<Rightarrow> string) \<Rightarrow> device_keys \<Rightarrow> node \<Rightarrow> string list" where
  "pair_device_qr_codes b64 keys pair_device =
    map (\<lambda>r. r @ '','' @ b64 (kp_public (noise_key keys)) @ '','' @ b64 (kp_public (identity_key keys)) @ '','' @ b64 (adv_secret keys))
      (List.map_filter (\<lambda>n. Option.bind (node_bytes n) from_utf8)
        (filter (\<lambda>n. tag n = ''ref'') (child_nodes pair_device)))"

definition build_iq_ack :: "node \<Rightarrow> node" where
  "build_iq_ack orig =
    Node ''iq''
      (attr ((case get_attr orig ''from'' of Some f \<Rightarrow> [(''to'', f)] | None \<Rightarrow> []) @
             (case get_attr orig ''id'' of Some i \<Rightarrow> [(''id'', i)] | None \<Rightarrow> []) @ [(''type'', ''result'')])) CNone"

definition build_keepalive_iq :: "string \<Rightarrow> node" where
  "build_keepalive_iq i =
    Node ''iq'' (attr [(''id'', i), (''to'', ''s.whatsapp.net''), (''type'', ''get''), (''xmlns'', ''w:p'')]) CNone"

definition needs_result :: "node \<Rightarrow> bool" where
  "needs_result n \<longleftrightarrow>
    get_attr n ''type'' \<in> {Some ''get'', Some ''set''} \<and> get_attr n ''from'' = Some ''s.whatsapp.net''"

definition empty_result :: "node \<Rightarrow> node" where
  "empty_result n =
    Node ''iq''
      (attr ((case get_attr n ''id'' of Some i \<Rightarrow> [(''id'', i)] | None \<Rightarrow> []) @ [(''type'', ''result''), (''to'', ''s.whatsapp.net'')])) CNone"

text \<open>The \<open>iq\<close> branch of \<open>process_inbound_node\<close>; the app-state reply that it may also spawn is modelled apart.\<close>

definition process_inbound_iq ::
  "signal_crypto \<Rightarrow> adv_codec \<Rightarrow> (bytes \<Rightarrow> string) \<Rightarrow> device_keys \<Rightarrow> node \<Rightarrow> session_row \<times> driver \<Rightarrow> node option \<times> session_row \<times> driver" where
  "process_inbound_iq c pb b64 keys n st =
    (case node_content n of
       CNodes ns \<Rightarrow>
         (case find (\<lambda>k. tag k = ''pair-device'') ns of
            Some pd \<Rightarrow>
              (let codes = pair_device_qr_codes b64 keys pd
               in if codes = [] then (None, st)
                  else (Some (build_iq_ack n), fst st, install_qr_rotation codes (snd st)))
          | None \<Rightarrow>
              (case find (\<lambda>k. tag k = ''pair-success'') ns of
                 Some ps \<Rightarrow>
                   (case apply_pair_success c pb keys n ps st of (Ok reply, st) \<Rightarrow> (Some reply, st) | (_, st) \<Rightarrow> (None, st))
               | None \<Rightarrow> (if needs_result n then Some (empty_result n) else None, st)))
     | _ \<Rightarrow> (None, st))"

end
