(* ===== verification/Linking_Agreement.thy ===== *)
theory Linking_Agreement
  imports Linking
begin

text \<open>
  What pairing by a code gives: the code is the base-32 numeral of the bytes drawn, the wrapping of keys is
  inverted by the same code, and the phone that types the code ends with the secret that the companion
  has stored.
\<close>

section \<open>The code as a numeral\<close>

text \<open>The last \<open>k\<close> base-32 digits of \<open>x\<close>, most significant first.\<close>

primrec digits32 :: "nat \<Rightarrow> nat \<Rightarrow> nat list" where
  "digits32 0 x = []"
| "digits32 (Suc k) x = (x div 32 ^ k mod 32) # digits32 k x"

definition numeral32 :: "nat \<Rightarrow> nat \<Rightarrow> string" where
  "numeral32 k x = map (\<lambda>d. LINKING_ALPHABET ! d) (digits32 k x)"

lemma digits32_mod: "digits32 k (x mod 32 ^ (k + j)) = digits32 k x"
proof (induction k arbitrary: j)
  case (Suc k)
  have "x mod 32 ^ (Suc k + j) div 32 ^ k mod 32 = x div 32 ^ k mod 32"
  proof -
    have "x mod 32 ^ (Suc k + j) = x mod (32 ^ k * 32 ^ Suc j)" by (simp add: power_add mult.assoc mult.left_commute)
    also have "\<dots> div 32 ^ k = x div 32 ^ k mod 32 ^ Suc j" by (simp add: mod_mult2_eq)
    also have "\<dots> mod 32 = x div 32 ^ k mod 32" by (rule mod_mod_cancel) simp
    finally show ?thesis .
  qed
  with Suc [of "Suc j"] show ?case by simp
qed simp

lemma digits32_append: "digits32 m x @ digits32 k y = digits32 (m + k) (x * 32 ^ k + y mod 32 ^ k)"
proof (induction m)
  case 0
  show ?case using digits32_mod [of k "x * 32 ^ k + y" 0] digits32_mod [of k y 0] digits32_mod [of k "x * 32 ^ k + y mod 32 ^ k" 0]
    by simp
next
  case (Suc m)
  have "(x * 32 ^ k + y mod 32 ^ k) div 32 ^ (m + k) = x div 32 ^ m"
    by (simp add: power_add mult.commute [of "32 ^ m"] div_mult2_eq)
  with Suc show ?case by simp
qed

lemma numeral32_append: "numeral32 m x @ numeral32 k y = numeral32 (m + k) (x * 32 ^ k + y mod 32 ^ k)"
  unfolding numeral32_def map_append [symmetric] digits32_append ..

lemma unat_and_low_bits: "unat ((w :: u64) AND (push_bit n 1 - 1)) = unat w mod 2 ^ n"
proof -
  have "(push_bit n 1 - 1 :: u64) = mask n" by (simp add: mask_eq_exp_minus_1 push_bit_of_1)
  then have "w AND (push_bit n 1 - 1) = take_bit n w" by (simp add: take_bit_eq_mask)
  then have "unat (w AND (push_bit n 1 - 1)) = unat (take_bit n w)" by (rule arg_cong)
  also have "\<dots> = take_bit n (unat w)" by (rule unsigned_take_bit_eq)
  finally show ?thesis by (simp only: take_bit_eq_mod)
qed

lemma link_char_drop:
  assumes "unat acc < 2 ^ (n + 5)"
  shows "link_char (drop_bit n acc) = LINKING_ALPHABET ! (unat acc div 2 ^ n)"
proof -
  have "unat acc div 2 ^ n < 32" using assms by (simp add: less_mult_imp_div_less power_add mult.commute)
  moreover have "unat (drop_bit n acc AND 0x1f) = unat acc div 2 ^ n mod 32"
    using unat_and_low_bits [of "drop_bit n acc" 5] by (simp add: unat_drop_bit push_bit_of_1)
  ultimately show ?thesis by (simp add: link_char_def)
qed

lemma emit_bits_eq:
  "unat acc < 2 ^ bits \<Longrightarrow>
    (let (acc', bits', out') = emit_bits acc bits out
     in unat acc' = unat acc mod 2 ^ (bits mod 5) \<and> bits' = bits mod 5 \<and>
        out' = out @ numeral32 (bits div 5) (unat acc div 2 ^ (bits mod 5)))"
proof (induction acc bits out rule: emit_bits.induct)
  case (1 acc bits out)
  show ?case
  proof (cases "bits < 5")
    case True
    then show ?thesis using 1(2) by (simp add: emit_bits.simps [of acc bits] numeral32_def)
  next
    case False
    define b where "b = bits - 5"
    define k where "k = b div 5"
    define r where "r = b mod 5"
    have b5: "bits = b + 5" using False by (simp add: b_def)
    then have b: "bits = b + 5" "bits mod 5 = r" "bits div 5 = Suc k" "b = 5 * k + r"
      by (simp_all add: k_def r_def)
    let ?acc = "acc AND (push_bit b 1 - 1)"
    have a: "unat ?acc = unat acc mod 2 ^ b" by (rule unat_and_low_bits)
    have lt: "unat acc < 2 ^ (b + 5)" using 1(2) b(1) by simp
    have p: "(2 :: nat) ^ b = 2 ^ r * 32 ^ k"
      using b(4) by (simp add: power_add power_mult)
    have "emit_bits acc bits out = emit_bits ?acc b (out @ [link_char (drop_bit b acc)])"
      using False by (simp add: emit_bits.simps [of acc bits] b_def Let_def)
    moreover have "numeral32 (Suc k) (unat acc div 2 ^ r) = link_char (drop_bit b acc) # numeral32 k (unat acc mod 2 ^ b div 2 ^ r)"
    proof -
      have "unat acc div 2 ^ r div 32 ^ k = unat acc div 2 ^ b" by (simp add: p div_mult2_eq)
      moreover have "unat acc div 2 ^ b < 32" using lt by (simp add: less_mult_imp_div_less power_add mult.commute)
      moreover have "unat acc mod 2 ^ b div 2 ^ r = unat acc div 2 ^ r mod 32 ^ k" by (simp add: p mod_mult2_eq)
      moreover have "digits32 k (unat acc div 2 ^ r mod 32 ^ k) = digits32 k (unat acc div 2 ^ r)"
        using digits32_mod [of k _ 0] by simp
      ultimately show ?thesis by (simp add: numeral32_def link_char_drop [OF lt])
    qed
    moreover have "unat acc mod 2 ^ b mod 2 ^ r = unat acc mod 2 ^ r"
      by (simp add: p mod_mult2_eq)
    ultimately show ?thesis
      using 1(1) [OF False b_def] a b
      by (simp add: k_def [symmetric] r_def [symmetric] Let_def split_beta)
  qed
qed


text \<open>The state of the encoder after some bytes of value \<open>v\<close>: the digits written, and the bits left over.\<close>

definition encoder_ok :: "nat \<Rightarrow> nat \<Rightarrow> u64 \<times> nat \<times> string \<Rightarrow> bool" where
  "encoder_ok n v st = (case st of (acc, bits, out) \<Rightarrow>
    bits < 5 \<and> (\<exists>m. 8 * n = 5 * m + bits \<and> out = numeral32 m (v div 2 ^ bits)) \<and> unat acc = v mod 2 ^ bits)"

lemma shift_in_byte:
  assumes "unat (acc :: u64) < 2 ^ 5"
  shows "unat (push_bit 8 acc OR ucast (b :: u8)) = unat acc * 256 + unat b"
proof -
  have "unat (push_bit 8 acc OR ucast b :: u64) = unat (push_bit 8 acc) OR unat (ucast b :: u64)"
    by (rule unsigned_or_eq)
  also have "unat (ucast b :: u64) = unat b"
    using less_trans [OF unat_u8_less [of b], of "2 ^ 64"] by (simp add: unsigned_ucast_eq take_bit_nat_eq_self_iff)
  also have "unat (push_bit 8 acc) = push_bit 8 (unat acc)"
    using assms unfolding unsigned_push_bit_eq by (simp add: push_bit_eq_mult take_bit_nat_eq_self)
  also have "push_bit 8 (unat acc) OR unat b = unat acc * 256 + unat b" by (rule push_bit_8_or_byte)
  finally show ?thesis .
qed

lemma byte_fits: "a + 1 \<le> m \<Longrightarrow> b < 256 \<Longrightarrow> a * 256 + b < m * (256 :: nat)"
  by linarith

lemma encode_byte_ok:
  assumes "encoder_ok n v st"
  shows "encoder_ok (n + 1) (v * 256 + unat b) (encode_byte st b)"
proof -
  obtain acc bits out m where st: "st = (acc, bits, out)" and b5: "bits < 5" and m: "8 * n = 5 * m + bits"
    and out: "out = numeral32 m (v div 2 ^ bits)" and acc: "unat acc = v mod 2 ^ bits"
    using assms by (cases st) (auto simp: encoder_ok_def)
  let ?a = "push_bit 8 acc OR ucast b :: u64"
  define r where "r = (bits + 8) mod 5"
  define k where "k = (bits + 8) div 5"
  have rk: "bits + 8 = 5 * k + r" by (simp add: k_def r_def)
  have "v mod 2 ^ bits < 2 ^ bits" by simp
  also have "(2 :: nat) ^ bits \<le> 2 ^ 5" using b5 by (intro power_increasing) simp_all
  finally have "unat acc < 2 ^ 5" by (simp only: acc)
  then have a: "unat ?a = unat acc * 256 + unat b" by (rule shift_in_byte)
  have v: "v = v div 2 ^ bits * 2 ^ bits + unat acc" by (simp only: acc div_mult_mod_eq)
  have lt: "unat ?a < 2 ^ (bits + 8)"
  proof -
    have "unat acc + 1 \<le> 2 ^ bits" by (simp add: acc Suc_leI)
    then have "unat acc * 256 + unat b < 2 ^ bits * 256" using unat_u8_less [of b] by (rule byte_fits)
    then show ?thesis by (simp add: a power_add)
  qed
  have e: "encode_byte st b = emit_bits ?a (bits + 8) out" by (simp add: encode_byte_def st)
  have v': "v * 256 + unat b = v div 2 ^ bits * 2 ^ (bits + 8) + unat ?a"
    by (subst v) (simp add: a power_add algebra_simps)
  have p: "(2 :: nat) ^ (bits + 8) = 2 ^ r * 32 ^ k" unfolding rk by (simp add: power_add power_mult)
  have "(v * 256 + unat b) div 2 ^ r = v div 2 ^ bits * 32 ^ k + unat ?a div 2 ^ r"
  proof -
    have "v * 256 + unat b = 2 ^ r * (v div 2 ^ bits * 32 ^ k) + unat ?a" unfolding v' p by (simp add: algebra_simps)
    then show ?thesis by simp
  qed
  moreover have "unat ?a div 2 ^ r < 32 ^ k" using lt unfolding p by (simp add: less_mult_imp_div_less mult.commute)
  ultimately have "numeral32 m (v div 2 ^ bits) @ numeral32 k (unat ?a div 2 ^ r) = numeral32 (m + k) ((v * 256 + unat b) div 2 ^ r)"
    by (simp add: numeral32_append)
  moreover have "unat ?a mod 2 ^ r = (v * 256 + unat b) mod 2 ^ r" unfolding v' p by (simp add: mult.commute [of "2 ^ r"] mult.assoc [symmetric])
  moreover have "8 * (n + 1) = 5 * (m + k) + r" using m rk by simp
  ultimately show ?thesis
    using emit_bits_eq [OF lt, of out] unfolding e r_def [symmetric] k_def [symmetric]
    by (auto simp: encoder_ok_def out Let_def r_def split: prod.splits intro!: exI [of _ "m + k"])
qed

lemma encode_bytes_ok: "encoder_ok n v st \<Longrightarrow> encoder_ok (n + length bs) (v * 256 ^ length bs + be_nat bs) (foldl encode_byte st bs)"
proof (induction bs arbitrary: n v st)
  case (Cons b bs)
  from Cons.IH [OF encode_byte_ok [OF Cons.prems, of b]] show ?case by (simp add: be_nat_Cons algebra_simps)
qed simp

text \<open>C36: The encoder, which streams bytes through a 64-bit accumulator, writes the base-32 numeral of the bytes;
  the bits left over at the end are padded with zeros to a last digit.\<close>

theorem base32_is_numeral:
  "base32_encode data =
    (let n = (8 * length data + 4) div 5 in numeral32 n (be_nat data * 2 ^ (5 * n - 8 * length data)))"
proof -
  obtain acc bits out where st: "foldl encode_byte (0, 0, []) data = (acc, bits, out)" by (metis prod_cases3)
  have "encoder_ok 0 0 (0, 0, [])" by (simp add: encoder_ok_def numeral32_def)
  from encode_bytes_ok [OF this, of data] obtain m where b: "bits < 5" "8 * length data = 5 * m + bits"
      "out = numeral32 m (be_nat data div 2 ^ bits)" "unat acc = be_nat data mod 2 ^ bits"
    by (auto simp: st encoder_ok_def)
  show ?thesis
  proof (cases "bits = 0")
    case True
    then show ?thesis using b by (simp add: base32_encode_def st Let_def)
  next
    case False
    define p where "p = 5 - bits"
    have n: "(8 * length data + 4) div 5 = m + 1" "5 + 5 * m - 8 * length data = p" "bits + p = 5"
      using False b(1,2) by (simp_all add: p_def)
    have "unat acc * 2 ^ p < 32"
    proof -
      have "unat acc < 2 ^ bits" by (simp add: b(4))
      then have "unat acc * 2 ^ p < 2 ^ bits * 2 ^ p" by simp
      also have "\<dots> = 2 ^ (bits + p)" by (simp add: power_add)
      finally show ?thesis by (simp add: n(3))
    qed
    then have u: "unat (push_bit p acc) = unat acc * 2 ^ p"
      unfolding unsigned_push_bit_eq by (simp add: push_bit_eq_mult take_bit_nat_eq_self)
    have "link_char (push_bit p acc) = LINKING_ALPHABET ! (unat acc * 2 ^ p)"
      using link_char_drop [of "push_bit p acc" 0] u \<open>unat acc * 2 ^ p < 32\<close> by simp
    then have "[link_char (push_bit p acc)] = numeral32 1 (unat acc * 2 ^ p)"
      using \<open>unat acc * 2 ^ p < 32\<close> by (simp add: numeral32_def)
    moreover have "be_nat data * 2 ^ p = be_nat data div 2 ^ bits * 32 ^ 1 + unat acc * 2 ^ p"
    proof -
      have "be_nat data = be_nat data div 2 ^ bits * 2 ^ bits + unat acc" by (simp only: b(4) div_mult_mod_eq)
      then have "be_nat data * 2 ^ p = be_nat data div 2 ^ bits * (2 ^ bits * 2 ^ p) + unat acc * 2 ^ p"
        by (metis add_mult_distrib mult.assoc)
      also have "(2 :: nat) ^ bits * 2 ^ p = 32" by (simp add: power_add [symmetric] n(3))
      finally show ?thesis by simp
    qed
    ultimately show ?thesis
      using False numeral32_append [of m "be_nat data div 2 ^ bits" 1 "unat acc * 2 ^ p"] \<open>unat acc * 2 ^ p < 32\<close>
      by (simp add: base32_encode_def st n b(3) p_def [symmetric] Let_def)
  qed
qed


lemma length_digits32 [simp]: "length (digits32 k x) = k"
  by (induction k) simp_all

lemma length_linking_code: "length code_bytes = 5 \<Longrightarrow> length (base32_encode code_bytes) = 8"
  by (simp add: base32_is_numeral Let_def numeral32_def)

section \<open>Agreement with the phone\<close>

text \<open>Documented behaviour of the primitives; \<open>pub\<close> gives the public half of a key.\<close>

definition link_primitives :: "link_crypto \<Rightarrow> (bytes \<Rightarrow> bytes) \<Rightarrow> bool" where
  "link_primitives c pub \<longleftrightarrow>
    (\<forall>k iv x. aes_ctr c k iv (aes_ctr c k iv x) = x \<and> length (aes_ctr c k iv x) = length x) \<and>
    (\<forall>k n p. \<exists>ct. gcm_seal c k n p = Some ct \<and> gcm_open c k n ct = Some p) \<and>
    (\<forall>a b. dh c a (pub b) = dh c b (pub a)) \<and> (\<forall>a. length (pub a) = 32)"

definition key_pair_of :: "(bytes \<Rightarrow> bytes) \<Rightarrow> bytes \<Rightarrow> key_pair" where
  "key_pair_of pub a = \<lparr>kp_private = a, kp_public = pub a\<rparr>"

lemma unwrap_wrap:
  assumes "link_primitives c pub" "length slt = 32" "length iv = 16" "length p = 32"
  shows "unwrap_ephemeral_pub c code (wrap_ephemeral_pub c code p slt iv) = Ok p"
  using assms by (simp add: unwrap_ephemeral_pub_def wrap_ephemeral_pub_def link_primitives_def Let_def)

text \<open>The phone: it types the code shown without its hyphen, wraps its own key under it, and opens the
  bundle that comes back.\<close>

definition typed :: "string \<Rightarrow> string" where
  "typed shown = take 4 shown @ drop 5 shown"

definition phone_notification :: "link_crypto \<Rightarrow> string \<Rightarrow> bytes \<Rightarrow> bytes \<Rightarrow> bytes \<Rightarrow> bytes \<Rightarrow> bytes \<Rightarrow> node" where
  "phone_notification c code ref_bytes eph_pub identity_pub slt iv =
    Node ''link_code_companion_reg'' []
      (CNodes [child_with_bytes ''link_code_pairing_ref'' ref_bytes,
        child_with_bytes ''link_code_pairing_wrapped_primary_ephemeral_pub'' (wrap_ephemeral_pub c code eph_pub slt iv),
        child_with_bytes ''primary_identity_pub'' identity_pub])"

definition link_reg :: "node \<Rightarrow> node option" where
  "link_reg iq = child iq ''link_code_companion_reg''"

definition phone_secret :: "link_crypto \<Rightarrow> string \<Rightarrow> bytes \<Rightarrow> key_pair \<Rightarrow> node \<Rightarrow> node \<Rightarrow> bytes option" where
  "phone_secret c code eph_priv identity hello finish =
    Option.bind (Option.bind (link_reg hello) (\<lambda>r. reg_bytes r ''link_code_pairing_wrapped_companion_ephemeral_pub'')) (\<lambda>wrapped.
    Option.bind (Option.bind (link_reg finish) (\<lambda>r. reg_bytes r ''link_code_pairing_wrapped_key_bundle'')) (\<lambda>bundle.
    Option.bind (Option.bind (link_reg finish) (\<lambda>r. reg_bytes r ''companion_identity_public'')) (\<lambda>companion_identity.
    case unwrap_ephemeral_pub c code wrapped of
      Ok companion_eph \<Rightarrow>
        (let shared = dh c eph_priv companion_eph
         in Option.bind (gcm_open c (bundle_key_of c (take 32 bundle) shared) (take 12 (drop 32 bundle)) (drop 44 bundle)) (\<lambda>pt.
            if take 64 pt = companion_identity @ kp_public identity
            then Some (adv_secret_of c shared (dh c (kp_private identity) companion_identity) (drop 64 pt))
            else None))
    | _ \<Rightarrow> None)))"

lemma reg_bytes_first: "reg_bytes (Node t ats (CNodes (child_with_bytes k b # ns))) k = Some b"
  by (simp add: reg_bytes_def child_def child_with_bytes_def node_bytes_def)

lemma reg_bytes_later: "k \<noteq> k' \<Longrightarrow> reg_bytes (Node t ats (CNodes (child_with_bytes k' b # ns))) k = reg_bytes (Node t ats (CNodes ns)) k"
  by (simp add: reg_bytes_def child_def child_with_bytes_def)

lemmas reg_bytes_simps = reg_bytes_first reg_bytes_later

lemma link_reg_iq [simp]: "link_reg (link_iq i (Node ''link_code_companion_reg'' ats ct)) = Some (Node ''link_code_companion_reg'' ats ct)"
  by (simp add: link_reg_def link_iq_def child_def)

text \<open>C14: The phone that types the code shown, and answers with its own keys wrapped under it, ends with the very
  secret that the session has stored for the \<open>pair-success\<close>; the pending pairing is over.\<close>

theorem code_pair_agreement:
  assumes c: "link_primitives c pub" and len: "length slt = 32" "length iv = 16" "length pslt = 32" "length piv = 16"
      "length (bundle_salt draws) = 32" "length (bundle_nonce draws) = 12" "length code_bytes = 5"
    and companion: "companion = generate_companion_ephemeral_key c (key_pair_of pub eph) code_bytes slt iv"
    and paired: "pair_phone ask detail iq1 companion noise_pub phone name s = (Ok shown, s1)" "phone_jid phone = Ok jid"
    and ref: "map_option pl_pairing_ref (phone_linking s1) = Some (from_utf8_lossy ref_bytes)"
    and heard: "handle_code_pair_notification c draws iq2 (key_pair_of pub ident)
        (phone_notification c (typed shown) ref_bytes (pub peph) (pub pident) pslt piv) s1 = (out, s2)"
  shows "phone_linking s2 = None \<and> out \<noteq> None \<and>
    phone_secret c (typed shown) peph (key_pair_of pub pident)
      (build_companion_hello_iq iq1 jid (ce_ephemeral_key companion) noise_pub name) (the out) = Some (stored_adv_secret s2)"
proof -
  let ?code = "base32_encode code_bytes"
  note gen = companion [unfolded generate_companion_ephemeral_key_def Let_def]
  have l8: "length ?code = 8" by (rule length_linking_code [OF len(7)])
  have shown: "shown = hyphenated ?code" and
    s1: "phone_linking s1 = Some \<lparr>pl_jid = jid, pl_keypair = key_pair_of pub eph, pl_ephemeral_key = ce_ephemeral_key companion,
           pl_linking_code = ?code, pl_display_name = name, pl_pairing_ref = from_utf8_lossy ref_bytes, pl_rearm_attempts = 0\<rparr>"
    using paired ref
    by (auto simp: pair_phone_def gen ok_or_def guard_err_def obind_eq_Ok Let_def split: outcome.splits option.splits if_splits)
  have typed: "typed shown = ?code"
    using l8 by (simp add: typed_def shown hyphenated_def min_def append_take_drop_id)
  obtain ct where ct: "gcm_seal c (bundle_key_of c (bundle_salt draws) (dh c eph (pub peph))) (bundle_nonce draws)
        (pub ident @ pub pident @ adv_random draws) = Some ct"
      "gcm_open c (bundle_key_of c (bundle_salt draws) (dh c eph (pub peph))) (bundle_nonce draws) ct =
        Some (pub ident @ pub pident @ adv_random draws)"
    using c unfolding link_primitives_def by metis
  have p: "length (pub a) = 32" "dh c a (pub b) = dh c b (pub a)" for a b
    using c unfolding link_primitives_def by metis+
  let ?adv = "adv_secret_of c (dh c eph (pub peph)) (dh c ident (pub pident)) (adv_random draws)"
  have completed: "complete_code_pair c draws ?code eph (key_pair_of pub ident) (wrap_ephemeral_pub c ?code (pub peph) pslt piv) (pub pident) =
      Ok \<lparr>wrapped_key_bundle = bundle_salt draws @ bundle_nonce draws @ ct, cp_adv_secret = ?adv\<rparr>"
    using unwrap_wrap [OF c len(3,4) p(1), of ?code peph] ct(1)
    by (simp add: complete_code_pair_def guard_err_def ok_or_def p(1) key_pair_of_def Let_def)
  have out: "out = Some (build_companion_finish_iq iq2 jid (bundle_salt draws @ bundle_nonce draws @ ct) (pub ident) (from_utf8_lossy ref_bytes))"
      "s2 = clear_phone_linking (s1\<lparr>stored_adv_secret := ?adv\<rparr>)"
    using heard completed
    by (simp_all add: handle_code_pair_notification_def s1 phone_notification_def reg_bytes_simps typed key_pair_of_def or_default_def
        Let_def)
  have hello: "link_reg (build_companion_hello_iq iq1 jid (ce_ephemeral_key companion) noise_pub name) =
      Some (Node ''link_code_companion_reg''
        (attr [(''jid'', jid), (''stage'', ''companion_hello''), (''should_show_push_notification'', ''true'')])
        (CNodes [child_with_bytes ''link_code_pairing_wrapped_companion_ephemeral_pub'' (ce_ephemeral_key companion),
          child_with_bytes ''companion_server_auth_key_pub'' noise_pub,
          child_with_bytes ''companion_platform_id'' (as_bytes ''1''),
          child_with_bytes ''companion_platform_display'' (as_bytes name),
          child_with_bytes ''link_code_pairing_nonce'' [0]]))"
    by (simp add: build_companion_hello_iq_def)
  have unwrap: "unwrap_ephemeral_pub c ?code (ce_ephemeral_key companion) = Ok (pub eph)"
    using unwrap_wrap [OF c len(1,2) p(1), of ?code eph] by (simp add: gen key_pair_of_def)
  show ?thesis
    using ct(2) unwrap
    by (simp add: out clear_phone_linking_def phone_secret_def hello build_companion_finish_iq_def reg_bytes_simps typed
        len p(1) p(2) [of peph eph] p(2) [of pident ident] key_pair_of_def Let_def)
qed


text \<open>A toy instance of the primitives, for a run of the whole exchange.\<close>

definition toy_pub :: "bytes \<Rightarrow> bytes" where
  "toy_pub a = take 32 (a @ replicate 32 0)"

definition toy_link :: link_crypto where
  "toy_link = signal_crypto.extend
    \<lparr>hmac = (\<lambda>_ _. replicate 32 7), hkdf = (\<lambda>slt m info n. take n (m @ replicate n 0)), cbc_enc = (\<lambda>_ _ p. p),
     cbc_dec = (\<lambda>_ _ p. Some p), dh = (\<lambda>a b. map2 (XOR) (toy_pub a) b), xeddsa_sign = (\<lambda>k m. replicate 64 1),
     xeddsa_verify = (\<lambda>_ _ _. True)\<rparr>
    (link_crypto.fields (\<lambda>_ _ x. x) (\<lambda>_ _ p. Some p) (\<lambda>_ _ p. Some p))"

lemma map2_xor_commute: "map2 (XOR) xs ys = map2 (XOR) ys (xs :: bytes)"
  by (induction xs ys rule: list_induct2') (simp_all add: xor.commute)

lemma toy_link_fields:
  "aes_ctr toy_link k iv x = x" "gcm_seal toy_link k n p = Some p" "gcm_open toy_link k n p = Some p"
  "dh toy_link a b = map2 (XOR) (toy_pub a) b"
  by (simp_all add: toy_link_def signal_crypto.extend_def link_crypto.fields_def)

lemma toy_link_primitives: "link_primitives toy_link toy_pub"
  unfolding link_primitives_def toy_link_fields
proof (intro conjI allI)
  show "map2 (XOR) (toy_pub a) (toy_pub b) = map2 (XOR) (toy_pub b) (toy_pub a)" for a b by (rule map2_xor_commute)
  show "length (toy_pub a) = 32" for a by (simp add: toy_pub_def)
qed simp_all

definition hello_reply :: node where
  "hello_reply = Node ''iq'' [] (CNodes [Node ''link_code_companion_reg'' []
    (CNodes [child_with_bytes ''link_code_pairing_ref'' (as_bytes ''r'')])])"

theorem code_pair_agreement_witness:
  "\<exists>shown out (s2 :: link_session) hello. phone_linking s2 = None \<and> out \<noteq> None \<and>
    phone_secret toy_link (typed shown) [1] (key_pair_of toy_pub [2]) hello (the out) = Some (stored_adv_secret s2)"
proof -
  let ?slt = "replicate 32 0 :: bytes" and ?iv = "replicate 16 0 :: bytes"
  let ?companion = "generate_companion_ephemeral_key toy_link (key_pair_of toy_pub [3]) [1, 2, 3, 4, 5] ?slt ?iv"
  let ?draws = "\<lparr>adv_random = replicate 32 5, bundle_salt = ?slt, bundle_nonce = replicate 12 0\<rparr>"
  let ?s = "\<lparr>phone_linking = None, stored_adv_secret = [], shown_codes = []\<rparr>"
  obtain shown s1 where p: "pair_phone (\<lambda>_. Ok hello_reply) tag ''1'' ?companion [] ''5511999'' ''x'' ?s = (Ok shown, s1)"
      "map_option pl_pairing_ref (phone_linking s1) = Some (from_utf8_lossy (as_bytes ''r''))"
    by (simp add: pair_phone_def phone_jid_def is_ascii_digit_def hello_reply_def iq_is_error_def get_attr_def
        extract_link_code_pairing_ref_def child_def node_bytes_def child_with_bytes_def guard_err_def Let_def)
  have j: "phone_jid ''5511999'' = Ok ''5511999@s.whatsapp.net''" by (simp add: phone_jid_def is_ascii_digit_def)
  obtain out s2 where n: "handle_code_pair_notification toy_link ?draws ''2'' (key_pair_of toy_pub [4])
      (phone_notification toy_link (typed shown) (as_bytes ''r'') (toy_pub [1]) (toy_pub [2]) ?slt ?iv) s1 = (out, s2)"
    by (metis surj_pair)
  have "phone_linking s2 = None \<and> out \<noteq> None \<and>
      phone_secret toy_link (typed shown) [1] (key_pair_of toy_pub [2])
        (build_companion_hello_iq ''1'' ''5511999@s.whatsapp.net'' (ce_ephemeral_key ?companion) [] ''x'') (the out) =
        Some (stored_adv_secret s2)"
    by (rule code_pair_agreement [OF toy_link_primitives _ _ _ _ _ _ _ refl p(1) j p(2) n]) simp_all
  then show ?thesis by blast
qed

section \<open>Registering again\<close>

datatype link_op = Rearm string bytes | RearmReply "node option" | Notified code_pair_draws string key_pair node

definition link_apply :: "link_crypto \<Rightarrow> link_op \<Rightarrow> link_session \<Rightarrow> bool \<times> link_session" where
  "link_apply c op s =
    (case op of
       Rearm i n \<Rightarrow> (let (iq, s) = rearm_send i n s in (iq \<noteq> None, s))
     | RearmReply r \<Rightarrow> (False, rearm_reply r s)
     | Notified d i k reg \<Rightarrow> (False, snd (handle_code_pair_notification c d i k reg s)))"

primrec hellos :: "link_crypto \<Rightarrow> link_op list \<Rightarrow> link_session \<Rightarrow> nat" where
  "hellos c [] s = 0"
| "hellos c (op # ops) s = (let (sent, s) = link_apply c op s in (if sent then 1 else 0) + hellos c ops s)"

definition hellos_left :: "link_session \<Rightarrow> nat" where
  "hellos_left s = (case phone_linking s of Some pl \<Rightarrow> REARM_MAX - pl_rearm_attempts pl | None \<Rightarrow> 0)"

lemma link_apply_left: "link_apply c op s = (sent, s') \<Longrightarrow> hellos_left s' + (if sent then 1 else 0) \<le> hellos_left s"
  by (cases op)
    (auto simp: link_apply_def rearm_send_def rearm_reply_def handle_code_pair_notification_def hellos_left_def
      clear_phone_linking_def Let_def split: option.splits if_splits content.splits outcome.splits)

text \<open>However often the socket is recycled, one pairing registers its code at most six times again.\<close>

theorem hellos_bounded: "hellos c ops s \<le> hellos_left s"
proof (induction ops arbitrary: s)
  case (Cons op ops)
  obtain sent s' where a: "link_apply c op s = (sent, s')" by fastforce
  from link_apply_left [OF a] Cons [of s'] show ?case by (simp add: a)
qed simp

end
