(* ===== verification/Pairing_Checks.thy ===== *)
theory Pairing_Checks
  imports Pairing Linking_Agreement Driver_Safety Signal_Delivery
begin

text \<open>
  What a session that reports itself paired has checked, and that the identity an honest phone signs is
  accepted and answered with a proof that the server can check.
\<close>

text \<open>What the phone signs: the details it made, under the secret it shares and the account's key.\<close>

definition vouched :: "signal_crypto \<Rightarrow> adv_codec \<Rightarrow> device_keys \<Rightarrow> bytes \<Rightarrow> bytes \<Rightarrow> bool" where
  "vouched c pb keys secret b \<longleftrightarrow>
    (\<exists>container details signed sd key sig prefix. dec_container pb b = Some container \<and>
      container_details container = Some details \<and> container_hmac container = Some (hmac c secret (hmac_input container details)) \<and>
      dec_signed pb details = Some signed \<and> signed_details signed = Some sd \<and>
      account_signature_key signed = Some key \<and> length key = 32 \<and>
      account_signature signed = Some sig \<and>
      prefix \<in> {ADV_ACCOUNT_SIG_PREFIX, ADV_HOSTED_ACCOUNT_SIG_PREFIX} \<and>
      xeddsa_verify c key (prefix @ sd @ kp_public (identity_key keys)) sig)"

definition identity_bytes :: "node \<Rightarrow> bytes option" where
  "identity_bytes ps = Option.bind (find (\<lambda>n. tag n = ''device-identity'') (child_nodes ps)) node_bytes"

lemma verify_vouched:
  assumes "verify_pair_success c pb keys row ps = Ok v"
  shows "\<exists>b. identity_bytes ps = Some b \<and> vouched c pb keys (pair_secret keys row) b"
proof -
  from assms obtain b container details signed sig dev where
    "identity_bytes ps = Some b" "dec_container pb b = Some container" "container_details container = Some details"
    "container_hmac container = Some (hmac c (pair_secret keys row) (hmac_input container details))"
    "dec_signed pb details = Some signed" "signed_details signed = Some (vp_details v)"
    "account_signature_key signed = Some (vp_account_key v)" "length (vp_account_key v) = 32"
    "account_signature signed = Some sig"
    "list_ex (\<lambda>prefix. xeddsa_verify c (vp_account_key v) (prefix @ vp_details v @ kp_public (identity_key keys)) sig)
      (account_prefixes dev)"
    by (auto simp: verify_pair_success_def obind_eq_Ok identity_bytes_def child_nodes_def split: content.splits)
  then show ?thesis
    by (fastforce simp: vouched_def account_prefixes_def split: if_splits)
qed

text \<open>C6: A session takes a \<open>pair-success\<close> only if the phone vouched for this very device: its details carry the tag
  made with the shared secret, and the account key signed them together with our identity key. Otherwise
  neither the row nor the session changes.\<close>

theorem pair_success_vouched:
  "case apply_pair_success c pb keys orig ps (row, d) of
     (Ok reply, row', d') \<Rightarrow>
       (\<exists>b. identity_bytes ps = Some b \<and> vouched c pb keys (pair_secret keys row) b) \<and>
       row_jid row' = jid d' \<and> row_status row' = ''connected'' \<and> sess_status d' = Syncing \<and> qr_codes d' = []
   | (Err e, st') \<Rightarrow> st' = (row, d)
   | (Panic, st') \<Rightarrow> False"
proof (cases "verify_pair_success c pb keys row ps")
  case (Ok v)
  from verify_vouched [OF Ok] show ?thesis
    by (simp add: apply_pair_success_def Ok session_apply_pair_success_def paired_as_def cancel_qr_rotation_def
        begin_sync_def sess_status_def send_event_def Let_def split: option.splits)
next
  case (Err e)
  then show ?thesis by (simp add: apply_pair_success_def)
next
  case Panic
  then have False
    by (auto simp: verify_pair_success_def obind_eq_Panic ok_or_def guard_err_def split: content.splits option.splits if_splits)
  then show ?thesis ..
qed

section \<open>An honest phone\<close>

definition signing :: "signal_crypto \<Rightarrow> (bytes \<Rightarrow> bytes) \<Rightarrow> bool" where
  "signing c pub \<longleftrightarrow>
    (\<forall>k m. xeddsa_verify c (pub k) m (xeddsa_sign c k m) \<and> length (xeddsa_sign c k m) = 64) \<and> (\<forall>k. length (pub k) = 32)"

text \<open>The identity that the phone sends: \<open>account\<close> is the account's private key, and the two flags say
  separately that the account is hosted.\<close>

definition phone_container :: "signal_crypto \<Rightarrow> bytes \<Rightarrow> bool \<Rightarrow> bytes \<Rightarrow> adv_container" where
  "phone_container c secret hosted details =
    (let ty = (if hosted then Some HOSTED else None); u = \<lparr>container_details = Some details, container_hmac = None, container_account_type = ty\<rparr>
     in u\<lparr>container_hmac := Some (hmac c secret (hmac_input u details))\<rparr>)"

definition phone_signed :: "signal_crypto \<Rightarrow> (bytes \<Rightarrow> bytes) \<Rightarrow> bytes \<Rightarrow> bool \<Rightarrow> bytes \<Rightarrow> bytes \<Rightarrow> adv_signed" where
  "phone_signed c pub account hosted sd device_identity =
    \<lparr>signed_details = Some sd, account_signature_key = Some (pub account),
     account_signature = Some (xeddsa_sign c account
       ((if hosted then ADV_HOSTED_ACCOUNT_SIG_PREFIX else ADV_ACCOUNT_SIG_PREFIX) @ sd @ device_identity)),
     device_signature = None\<rparr>"

definition phone_pair_success :: "bytes \<Rightarrow> string \<Rightarrow> node" where
  "phone_pair_success b j =
    Node ''pair-success'' [] (CNodes [Node ''device-identity'' [] (CBytes b), Node ''device'' (attr [(''jid'', j)]) CNone])"

definition reply_identity :: "node \<Rightarrow> bytes option" where
  "reply_identity r = Option.bind (child r ''pair-device-sign'') (\<lambda>n. Option.bind (child n ''device-identity'') node_bytes)"

text \<open>C37: The identity that an honest phone signs is accepted, whatever the two flags for a hosted account say;
  the row keeps the account's key, and the proof that goes back carries no account key and a signature
  that verifies under our identity.\<close>

theorem honest_phone_pairs:
  assumes c: "signing c pub"
    and keys: "identity_key keys = key_pair_of pub ident" "pair_secret keys row = secret"
    and codec: "\<And>x. dec_signed pb (enc_signed pb x) = Some x" "dec_device pb sd = Some dev"
      "dec_signed pb details = Some (phone_signed c pub account hosted sd (pub ident))"
      "dec_container pb b = Some (phone_container c secret flagged details)"
    and run: "apply_pair_success c pb keys orig (phone_pair_success b j) (row, d) = (r, row', d')"
  shows "\<exists>reply w proof. r = Ok reply \<and> row_jid row' = Some j \<and> jid d' = Some j \<and>
    account_pb row' = Some (enc_signed pb w) \<and> account_signature_key w = Some (pub account) \<and>
    Option.bind (reply_identity reply) (dec_signed pb) = Some (w\<lparr>account_signature_key := None\<rparr>) \<and>
    device_signature w = Some proof \<and>
    xeddsa_verify c (pub ident) (ADV_DEVICE_SIG_PREFIX @ sd @ pub ident @ pub account) proof"
proof -
  let ?sign = "phone_signed c pub account hosted sd (pub ident)"
  let ?v = "\<lparr>vp_signed = ?sign, vp_details = sd, vp_account_key = pub account, vp_key_index = or_default 0 (device_key_index dev)\<rparr>"
  have len: "length (pub k) = 32" "length (xeddsa_sign c k m) = 64" "xeddsa_verify c (pub k) m (xeddsa_sign c k m)" for k m
    using c unfolding signing_def by blast+
  have cont: "container_details (phone_container c secret flagged details) = Some details"
    "container_hmac (phone_container c secret flagged details) =
      Some (hmac c secret (hmac_input (phone_container c secret flagged details) details))"
    by (simp_all add: phone_container_def hmac_input_def Let_def)
  have sgn: "signed_details ?sign = Some sd" "account_signature_key ?sign = Some (pub account)"
    "account_signature ?sign = Some (xeddsa_sign c account
       ((if hosted then ADV_HOSTED_ACCOUNT_SIG_PREFIX else ADV_ACCOUNT_SIG_PREFIX) @ sd @ pub ident))"
    by (simp_all add: phone_signed_def)
  have pref: "list_ex (\<lambda>prefix. xeddsa_verify c (pub account) (prefix @ sd @ pub ident) (xeddsa_sign c account
       ((if hosted then ADV_HOSTED_ACCOUNT_SIG_PREFIX else ADV_ACCOUNT_SIG_PREFIX) @ sd @ pub ident))) (account_prefixes dev)"
    by (simp add: account_prefixes_def len)
  have v: "verify_pair_success c pb keys row (phone_pair_success b j) = Ok ?v"
    by (simp add: verify_pair_success_def phone_pair_success_def node_bytes_def codec cont sgn keys key_pair_of_def len pref
        guard_err_def)
  let ?w = "?sign\<lparr>device_signature := Some (xeddsa_sign c ident (device_message keys sd (pub account)))\<rparr>"
  have dev: "find_child_attr (child_nodes (phone_pair_success b j)) ''device'' ''jid'' = Some j"
    by (simp add: find_child_attr_def child_nodes_def phone_pair_success_def)
  have r: "r = Ok (pair_reply orig (or_default 0 (device_key_index dev)) (enc_signed pb (?w\<lparr>account_signature_key := None\<rparr>)))"
    and row': "row_jid row' = Some j" "account_pb row' = Some (enc_signed pb ?w)" and d': "jid d' = Some j"
    using run by (auto simp: apply_pair_success_def v dev key_pair_of_def keys session_apply_pair_success_def paired_as_def send_event_def
        cancel_qr_rotation_def Let_def)
  have "Option.bind (reply_identity (pair_reply orig k (enc_signed pb x))) (dec_signed pb) = Some x" for k x
    by (simp add: reply_identity_def pair_reply_def child_def node_bytes_def codec Let_def)
  moreover have "xeddsa_verify c (pub ident) (ADV_DEVICE_SIG_PREFIX @ sd @ pub ident @ pub account)
      (xeddsa_sign c ident (device_message keys sd (pub account)))"
    using len(3) [of ident] by (simp add: device_message_def keys key_pair_of_def)
  ultimately show ?thesis
    using r row' d' sgn(2) by (intro exI [of _ "pair_reply _ _ _"] exI [of _ ?w] exI conjI) auto
qed

definition toy_keys :: device_keys where
  "toy_keys = \<lparr>noise_key = key_pair_of (\<lambda>_. toy_key32) [0], identity_key = key_pair_of (\<lambda>_. toy_key32) [1],
     signed_prekey = \<lparr>spk_key_id = 1, spk_keypair = key_pair_of (\<lambda>_. toy_key32) [2], spk_signature = []\<rparr>,
     adv_secret = toy_key32, registration_id = 1\<rparr>"

definition toy_row :: session_row where
  "toy_row = \<lparr>row_adv_secret = Some toy_key32, account_pb = None, business_name = None, platform = None,
     row_jid = None, row_status = ''pending''\<rparr>"

definition toy_enc :: "adv_signed \<Rightarrow> bytes" where
  "toy_enc x = put_opt (signed_details x) @ put_opt (account_signature_key x) @ put_opt (account_signature x) @
    put_opt (device_signature x)"

text \<open>The account is hosted, which the outer container does not say.\<close>

definition toy_identity :: adv_signed where
  "toy_identity = phone_signed toy_signal (\<lambda>_. toy_key32) [2] True [7] toy_key32"

definition toy_adv :: adv_codec where
  "toy_adv =
    \<lparr>dec_container = (\<lambda>_. Some (phone_container toy_signal toy_key32 False (toy_enc toy_identity))),
     dec_signed = (\<lambda>b. case get_opt b of (x, b) \<Rightarrow> case get_opt b of (k, b) \<Rightarrow> case get_opt b of (s, b) \<Rightarrow>
       case get_opt b of (d, b) \<Rightarrow>
         Some \<lparr>signed_details = x, account_signature_key = k, account_signature = s, device_signature = d\<rparr>),
     enc_signed = toy_enc, dec_device = (\<lambda>_. Some \<lparr>device_key_index = Some 1, device_type = Some HOSTED\<rparr>)\<rparr>"

theorem honest_phone_pairs_witness:
  "\<exists>reply row d. apply_pair_success toy_signal toy_adv toy_keys (Node ''iq'' [] CNone) (phone_pair_success [] ''1@s'')
      (toy_row, scan_session) = (Ok reply, row, d) \<and> jid d = Some ''1@s''"
proof -
  obtain r row d where run: "apply_pair_success toy_signal toy_adv toy_keys (Node ''iq'' [] CNone) (phone_pair_success [] ''1@s'')
      (toy_row, scan_session) = (r, row, d)" by (metis prod_cases3)
  have rt: "dec_signed toy_adv (enc_signed toy_adv x) = Some x" for x
    by (simp add: toy_adv_def toy_enc_def get_put_opt get_put_opt_end)
  have "signing toy_signal (\<lambda>_. toy_key32)" by (simp add: signing_def toy_signal_def toy_key32_def)
  then have "\<exists>reply w proof. r = Ok reply \<and> row_jid row = Some ''1@s'' \<and> jid d = Some ''1@s'' \<and>
      account_pb row = Some (enc_signed toy_adv w) \<and> account_signature_key w = Some toy_key32 \<and>
      Option.bind (reply_identity reply) (dec_signed toy_adv) = Some (w\<lparr>account_signature_key := None\<rparr>) \<and>
      device_signature w = Some proof \<and>
      xeddsa_verify toy_signal toy_key32 (ADV_DEVICE_SIG_PREFIX @ [7] @ toy_key32 @ toy_key32) proof"
  proof (rule honest_phone_pairs [OF _ _ _ _ _ _ _ run])
    show "identity_key toy_keys = key_pair_of (\<lambda>_. toy_key32) [1]" by (simp add: toy_keys_def)
    show "pair_secret toy_keys toy_row = toy_key32" by (simp add: pair_secret_def toy_row_def toy_key32_def)
    show "dec_signed toy_adv (enc_signed toy_adv x) = Some x" for x by (rule rt)
    show "dec_device toy_adv [7] = Some \<lparr>device_key_index = Some 1, device_type = Some HOSTED\<rparr>" by (simp add: toy_adv_def)
    show "dec_signed toy_adv (toy_enc toy_identity) = Some (phone_signed toy_signal (\<lambda>_. toy_key32) [2] True [7] toy_key32)"
      using rt [of toy_identity] by (simp add: toy_adv_def toy_identity_def)
    show "dec_container toy_adv [] = Some (phone_container toy_signal toy_key32 False (toy_enc toy_identity))"
      by (simp add: toy_adv_def)
  qed
  with run show ?thesis by blast
qed

section \<open>Requests of the server\<close>

text \<open>Every \<open>get\<close> or \<open>set\<close> of the server is answered under its id, unless it is a pairing stanza.\<close>

lemma server_request_answered:
  assumes "needs_result n" "node_content n = CNodes ns" "get_attr n ''id'' = Some i"
    and "\<forall>k \<in> set ns. tag k \<notin> {''pair-device'', ''pair-success''}"
  shows "\<exists>reply. fst (process_inbound_iq c pb b64 keys n st) = Some reply \<and> get_attr reply ''id'' = Some i \<and>
    get_attr reply ''type'' = Some ''result'' \<and> snd (process_inbound_iq c pb b64 keys n st) = st"
proof -
  have "find (\<lambda>k. tag k = ''pair-device'') ns = None" "find (\<lambda>k. tag k = ''pair-success'') ns = None"
    using assms(4) by (auto simp: find_None_iff)
  then show ?thesis using assms(1-3) by (simp add: process_inbound_iq_def empty_result_def)
qed

end
