(* ===== verification/Prekeys.thy ===== *)
theory Prekeys
  imports Message_Envelope Node_Build
begin

text \<open>
  One-time prekeys: the table of \<open>src/src/store.rs\<close>, and in \<open>src/src/session.rs\<close> their upload and
  replenishment, the bundle that a retry receipt carries, and the readers of the bundles of others. What the
  key generator draws is an argument; a database that answers is modelled.
\<close>

section \<open>The table\<close>

record prekey_row =
  pk_private :: bytes
  pk_public :: bytes
  pk_uploaded :: bool

type_synonym prekey_table = "(u32, prekey_row) rows"

definition prekey_max_id :: "prekey_table \<Rightarrow> u32" where
  "prekey_max_id t = fold max (map fst t) 0"

text \<open>One transaction: an id that is taken makes it fail as a whole.\<close>

definition prekeys_insert_batch :: "(u32 \<times> key_pair) list \<Rightarrow> prekey_table \<Rightarrow> prekey_table option" where
  "prekeys_insert_batch batch t =
    (if distinct (map fst batch) \<and> list_all (\<lambda>(i, _). row_load t i = None) batch
     then Some (fold (\<lambda>(i, k) t. row_save t i \<lparr>pk_private = kp_private k, pk_public = kp_public k, pk_uploaded = False\<rparr>) batch t)
     else None)"

definition prekeys_pending_upload :: "nat \<Rightarrow> prekey_table \<Rightarrow> (u32 \<times> bytes) list" where
  "prekeys_pending_upload lm t =
    take lm (map (\<lambda>(i, r). (i, pk_public r)) (sort_key fst (filter (\<lambda>(i, r). \<not> pk_uploaded r) t)))"

definition prekeys_mark_uploaded :: "u32 \<Rightarrow> prekey_table \<Rightarrow> prekey_table" where
  "prekeys_mark_uploaded up_to t = map (\<lambda>(i, r). (i, if i \<le> up_to then r\<lparr>pk_uploaded := True\<rparr> else r)) t"

definition prekey_count_uploaded :: "prekey_table \<Rightarrow> nat" where
  "prekey_count_uploaded t = length (filter (\<lambda>(i, r). pk_uploaded r) t)"

definition prekey_load_private :: "prekey_table \<Rightarrow> u32 \<Rightarrow> bytes option" where
  "prekey_load_private t i = map_option pk_private (row_load t i)"

definition prekey_delete :: "u32 \<Rightarrow> prekey_table \<Rightarrow> prekey_table" where
  "prekey_delete i t = row_delete t i"

definition MIN_PREKEY_COUNT :: nat where "MIN_PREKEY_COUNT = 5"
definition WANTED_PREKEY_COUNT :: nat where "WANTED_PREKEY_COUNT = 50"

text \<open>\<open>PreKey::generate_batch\<close>: \<open>start_id + i\<close> overflows with a panic in a debug build and wraps otherwise; ids
  of this size are not reached.\<close>

definition generate_batch :: "(nat \<Rightarrow> key_pair) \<Rightarrow> u32 \<Rightarrow> nat \<Rightarrow> (u32 \<times> key_pair) list" where
  "generate_batch gen start_id n = map (\<lambda>i. (start_id + word_of_nat i, gen i)) [0..<n]"

section \<open>Stanzas\<close>

definition bytes_child :: "string \<Rightarrow> bytes \<Rightarrow> node" where
  "bytes_child t b = Node t [] (CBytes b)"

text \<open>The last three bytes of \<open>to_be_bytes\<close>.\<close>

definition id_bytes :: "u32 \<Rightarrow> bytes" where
  "id_bytes i = drop 1 (be_bytes 4 (unat i))"

definition key_node :: "u32 \<times> bytes \<Rightarrow> node" where
  "key_node k = Node ''key'' [] (CNodes [bytes_child ''id'' (id_bytes (fst k)), bytes_child ''value'' (snd k)])"

definition skey_node :: "signed_pre_key \<Rightarrow> node" where
  "skey_node spk =
    Node ''skey'' [] (CNodes [bytes_child ''id'' (id_bytes (spk_key_id spk)), bytes_child ''value'' (kp_public (spk_keypair spk)),
      bytes_child ''signature'' (spk_signature spk)])"

definition prekey_upload_iq :: "string \<Rightarrow> device_keys \<Rightarrow> (u32 \<times> bytes) list \<Rightarrow> node" where
  "prekey_upload_iq iq_id keys rows =
    Node ''iq'' (attr [(''id'', iq_id), (''xmlns'', ''encrypt''), (''type'', ''set''), (''to'', ''s.whatsapp.net'')])
      (CNodes [bytes_child ''registration'' (be_bytes 4 (unat (registration_id keys))),
        bytes_child ''type'' [5],
        bytes_child ''identity'' (kp_public (identity_key keys)),
        Node ''list'' [] (CNodes (map key_node rows)),
        skey_node (signed_prekey keys)])"

definition upload_pending_prekeys :: "string \<Rightarrow> device_keys \<Rightarrow> prekey_table \<Rightarrow> node option \<times> nat \<times> prekey_table" where
  "upload_pending_prekeys iq_id keys t =
    (let prekey_rows = prekeys_pending_upload 50 t
     in if prekey_rows = [] then (None, 0, t)
        else (Some (prekey_upload_iq iq_id keys prekey_rows), length prekey_rows,
              prekeys_mark_uploaded (fst (last prekey_rows)) t))"

definition replenish_prekeys ::
  "(nat \<Rightarrow> key_pair) \<Rightarrow> string \<Rightarrow> device_keys \<Rightarrow> prekey_table \<Rightarrow> node option \<times> nat \<times> prekey_table" where
  "replenish_prekeys gen iq_id keys t =
    (let batch = generate_batch gen (prekey_max_id t + 1) WANTED_PREKEY_COUNT;
         t = or_default t (prekeys_insert_batch batch t)
     in upload_pending_prekeys iq_id keys t)"

definition top_up_prekeys ::
  "(nat \<Rightarrow> key_pair) \<Rightarrow> string \<Rightarrow> device_keys \<Rightarrow> prekey_table \<Rightarrow> node option \<times> nat \<times> prekey_table" where
  "top_up_prekeys gen iq_id keys t =
    (if prekey_count_uploaded t < MIN_PREKEY_COUNT then replenish_prekeys gen iq_id keys t else (None, 0, t))"

text \<open>The bundle of a retry receipt, with the prekey minted for it.\<close>

definition build_retry_keys_node ::
  "key_pair \<Rightarrow> bytes option \<Rightarrow> device_keys \<Rightarrow> prekey_table \<Rightarrow> node option \<times> prekey_table" where
  "build_retry_keys_node minted account_pb keys t =
    (case account_pb of
       None \<Rightarrow> (None, t)
     | Some pb \<Rightarrow>
         (let m = prekey_max_id t; next_id = (if m = - 1 then m else m + 1)
          in case prekeys_insert_batch [(next_id, minted)] t of
               None \<Rightarrow> (None, t)
             | Some t \<Rightarrow>
                 (Some (Node ''keys'' []
                   (CNodes [bytes_child ''type'' [5], bytes_child ''identity'' (kp_public (identity_key keys)),
                     key_node (next_id, kp_public minted), skey_node (signed_prekey keys),
                     bytes_child ''device-identity'' pb])), t)))"

section \<open>The bundles of others\<close>

definition be_u32 :: "bytes \<Rightarrow> u32 option" where
  "be_u32 b = (if b = [] \<or> length b > 4 then None else Some (word_of_nat (be_nat b)))"

definition node_child_bytes :: "node \<Rightarrow> string \<Rightarrow> bytes option" where
  "node_child_bytes n t = Option.bind (child n t) node_bytes"

definition of_length :: "nat \<Rightarrow> bytes \<Rightarrow> bytes option" where
  "of_length n b = (if length b = n then Some b else None)"

definition jid_device :: "string \<Rightarrow> u32" where
  "jid_device jid =
    (case split_once (CHR '':'') jid of
       None \<Rightarrow> 0
     | Some (_, rest) \<Rightarrow>
         (case parse_u32 (takeWhile (\<lambda>c. c \<notin> {CHR ''@'', CHR ''.'', CHR '':''}) rest) of
            Some n \<Rightarrow> word_of_nat n | None \<Rightarrow> 0))"

definition parse_retry_keys_bundle :: "node \<Rightarrow> string \<Rightarrow> u32 \<Rightarrow> device_prekey_bundle option" where
  "parse_retry_keys_bundle keys_node jid reg_id =
    Option.bind (Option.bind (node_child_bytes keys_node ''identity'') (of_length 32)) (\<lambda>identity_pub.
    Option.bind (child keys_node ''skey'') (\<lambda>skey.
    Option.bind (Option.bind (node_child_bytes skey ''id'') be_u32) (\<lambda>spk_id.
    Option.bind (Option.bind (node_child_bytes skey ''value'') (of_length 32)) (\<lambda>spk_pub.
    Option.bind (Option.bind (node_child_bytes skey ''signature'') (of_length 64)) (\<lambda>spk_sig.
    Option.bind
      (case child keys_node ''key'' of
         Some k \<Rightarrow>
           Option.bind (Option.bind (node_child_bytes k ''id'') be_u32) (\<lambda>i.
           Option.bind (Option.bind (node_child_bytes k ''value'') (of_length 32)) (\<lambda>p. Some (Some i, Some p)))
       | None \<Rightarrow> Some (None, None)) (\<lambda>opk.
    Some \<lparr>bundle_jid = jid, bundle_device_id = jid_device jid, bundle_registration_id = reg_id,
          bundle_identity_pub = identity_pub, bundle_signed_pre_key_id = spk_id, bundle_signed_pre_key_pub = spk_pub,
          bundle_signed_pre_key_sig = spk_sig, bundle_one_time_pre_key_id = fst opk,
          bundle_one_time_pre_key_pub = snd opk\<rparr>))))))"

text \<open>\<open>parse_user_jid\<close>, whose only use is the device number.\<close>

definition parse_user_jid :: "string \<Rightarrow> (nat \<times> nat) option" where
  "parse_user_jid jid =
    (let loc = takeWhile (\<lambda>c. c \<noteq> CHR ''@'') jid;
         up = (case split_once (CHR '':'') loc of Some (u, d) \<Rightarrow> map_option (\<lambda>d. (u, d)) (parse_u32 d) | None \<Rightarrow> Some (loc, 0))
     in Option.bind up (\<lambda>(u, d).
        let u = (case split_once (CHR ''.'') u of Some (u, _) \<Rightarrow> u | None \<Rightarrow> u)
        in map_option (\<lambda>n. (n, d)) (parse_uint 18446744073709551615 u)))"

definition build_prekey_fetch_iq :: "string list \<Rightarrow> string \<Rightarrow> node" where
  "build_prekey_fetch_iq target_jids iq_id =
    Node ''iq'' (attr [(''id'', iq_id), (''type'', ''get''), (''xmlns'', ''encrypt''), (''to'', ''s.whatsapp.net'')])
      (CNodes [Node ''key'' []
        (CNodes (map (\<lambda>j. Node ''user'' (attr [(''jid'', j), (''reason'', ''identity'')]) CNone) target_jids))])"

text \<open>One \<open>user\<close> of the reply; a user that lacks something is passed over.\<close>

definition parse_prekey_user :: "node \<Rightarrow> device_prekey_bundle option" where
  "parse_prekey_user user =
    (if child user ''error'' \<noteq> None then None
     else
       Option.bind (get_attr user ''jid'') (\<lambda>jid.
       Option.bind (Option.bind (node_child_bytes user ''registration'') (of_length 4)) (\<lambda>reg.
       let keys_parent = or_default user (child user ''keys'') in
       Option.bind (Option.bind (node_child_bytes keys_parent ''identity'') (of_length 32)) (\<lambda>identity_pub.
       Option.bind (child keys_parent ''skey'') (\<lambda>skey.
       Option.bind (Option.bind (node_child_bytes skey ''id'') be_u32) (\<lambda>spk_id.
       Option.bind (Option.bind (node_child_bytes skey ''value'') (of_length 32)) (\<lambda>spk_pub.
       Option.bind (Option.bind (node_child_bytes skey ''signature'') (of_length 64)) (\<lambda>spk_sig.
       let opk = (case child keys_parent ''key'' of
             Some k \<Rightarrow>
               (case (Option.bind (node_child_bytes k ''id'') be_u32, Option.bind (node_child_bytes k ''value'') (of_length 32)) of
                  (Some i, Some p) \<Rightarrow> (Some i, Some p)
                | _ \<Rightarrow> (None, None))
           | None \<Rightarrow> (None, None))
       in Some \<lparr>bundle_jid = jid,
            bundle_device_id = (case parse_user_jid jid of Some (_, d) \<Rightarrow> word_of_nat d | None \<Rightarrow> 0),
            bundle_registration_id = word_of_nat (be_nat reg), bundle_identity_pub = identity_pub,
            bundle_signed_pre_key_id = spk_id, bundle_signed_pre_key_pub = spk_pub, bundle_signed_pre_key_sig = spk_sig,
            bundle_one_time_pre_key_id = fst opk, bundle_one_time_pre_key_pub = snd opk\<rparr>))))))))"

definition parse_prekey_fetch_response :: "node \<Rightarrow> device_prekey_bundle list" where
  "parse_prekey_fetch_response iq =
    (case child iq ''list'' of
       None \<Rightarrow> []
     | Some l \<Rightarrow> List.map_filter parse_prekey_user (children l ''user''))"

end
