(* ===== verification/Retry.thy ===== *)
theory Retry
  imports Prekeys
begin

text \<open>
  Messages that could not be decrypted, from both sides (\<open>src/src/session.rs\<close>): the retry receipts we send
  for them, and the resending of our own messages for the receipts of others, with the ring of recent sends
  and the counters that bound both. The protobuf decoder, what the key generators draw, the clock and the
  server's replies are arguments.
\<close>

section \<open>Recent sends and counters\<close>

record recent_send =
  rs_msg_id :: string
  rs_chat_jid :: string
  rs_inner_proto :: bytes

record retry_state =
  recent_sends :: "recent_send list"
  message_retries :: "(string, u32) rows"
  session_recreate_history :: "(string, int) rows"
  incoming_retry_counter :: "(string \<times> string, u32) rows"

definition RECENT_SENDS_MAX :: nat where "RECENT_SENDS_MAX = 256"

definition record_recent_send :: "string \<Rightarrow> string \<Rightarrow> bytes \<Rightarrow> retry_state \<Rightarrow> retry_state" where
  "record_recent_send msg_id chat_jid inner_proto s =
    (let q = recent_sends s @ [\<lparr>rs_msg_id = msg_id, rs_chat_jid = chat_jid, rs_inner_proto = inner_proto\<rparr>]
     in s\<lparr>recent_sends := drop (length q - RECENT_SENDS_MAX) q\<rparr>)"

definition recent_send_of :: "string \<Rightarrow> retry_state \<Rightarrow> (string \<times> bytes) option" where
  "recent_send_of msg_id s =
    map_option (\<lambda>r. (rs_chat_jid r, rs_inner_proto r)) (find (\<lambda>r. rs_msg_id r = msg_id) (rev (recent_sends s)))"

text \<open>The counters are \<open>u32\<close>; a debug build panics where they would wrap.\<close>

definition bump_message_retry :: "string \<Rightarrow> retry_state \<Rightarrow> u32 \<times> retry_state" where
  "bump_message_retry msg_id s =
    (let n = or_default 0 (row_load (message_retries s) msg_id) + 1
     in (n, s\<lparr>message_retries := row_save (message_retries s) msg_id n\<rparr>))"

definition take_message_retry :: "string \<Rightarrow> retry_state \<Rightarrow> u32 option \<times> retry_state" where
  "take_message_retry msg_id s =
    (row_load (message_retries s) msg_id, s\<lparr>message_retries := row_delete (message_retries s) msg_id\<rparr>)"

definition clear_message_retries :: "retry_state \<Rightarrow> retry_state" where
  "clear_message_retries s = s\<lparr>message_retries := []\<rparr>"

definition bump_incoming_retry :: "string \<Rightarrow> string \<Rightarrow> retry_state \<Rightarrow> u32 \<times> retry_state" where
  "bump_incoming_retry device msg_id s =
    (let n = or_default 0 (row_load (incoming_retry_counter s) (device, msg_id)) + 1
     in (n, s\<lparr>incoming_retry_counter := row_save (incoming_retry_counter s) (device, msg_id) n\<rparr>))"

definition i64_saturating_sub :: "int \<Rightarrow> int \<Rightarrow> int" where
  "i64_saturating_sub a b = max (- (2 ^ 63)) (min (2 ^ 63 - 1) (a - b))"

definition RECREATE_SESSION_TIMEOUT_SECS :: int where "RECREATE_SESSION_TIMEOUT_SECS = 3600"

definition should_recreate_session :: "string \<Rightarrow> bool \<Rightarrow> u32 \<Rightarrow> int \<Rightarrow> retry_state \<Rightarrow> bool \<times> retry_state" where
  "should_recreate_session device has_session n now s =
    (let yes = (True, s\<lparr>session_recreate_history := row_save (session_recreate_history s) device now\<rparr>)
     in if \<not> has_session then yes
        else if n < 2 then (False, s)
        else
          (case row_load (session_recreate_history s) device of
             Some prev \<Rightarrow>
               if i64_saturating_sub now prev < RECREATE_SESSION_TIMEOUT_SECS then (False, s) else yes
           | None \<Rightarrow> yes))"

section \<open>Receipts\<close>

definition build_receipt :: "string \<Rightarrow> string \<Rightarrow> string \<Rightarrow> bool \<Rightarrow> string \<Rightarrow> node" where
  "build_receipt msg_id from_jid participant is_from_me msg_type_attr =
    Node ''receipt''
      (attr ([(''id'', msg_id), (''to'', from_jid)] @
        (if participant \<noteq> [] \<and> participant \<noteq> from_jid then [(''participant'', participant)] else []) @
        (if is_from_me then [(''type'', if msg_type_attr = ''peer_msg'' then ''peer_msg'' else ''sender'')] else []))) CNone"

definition build_retry_receipt ::
  "string \<Rightarrow> string \<Rightarrow> string \<Rightarrow> int \<Rightarrow> u32 \<Rightarrow> u32 \<Rightarrow> node option \<Rightarrow> bool \<Rightarrow> node" where
  "build_retry_receipt msg_id from_jid participant timestamp reg_id n keys_node peer_category =
    Node ''receipt''
      (attr ([(''id'', msg_id), (''type'', ''retry''), (''to'', from_jid)] @
        (if participant \<noteq> [] \<and> participant \<noteq> from_jid then [(''participant'', participant)] else []) @
        (if peer_category then [(''category'', ''peer'')] else [])))
      (CNodes ([Node ''retry''
          (attr [(''count'', show_nat (unat n)), (''id'', msg_id), (''t'', show_int timestamp), (''v'', ''1'')]) CNone,
         bytes_child ''registration'' (be_bytes 4 (unat reg_id))] @
        (case keys_node of Some k \<Rightarrow> [k] | None \<Rightarrow> [])))"

text \<open>What the tail of \<open>process_inbound_message\<close> knows of a stanza that did not decrypt.\<close>

record inbound_stanza =
  in_msg_id :: string
  in_from :: string
  in_participant :: string
  in_timestamp :: int
  in_from_me :: bool
  in_type :: string
  in_category :: "string option"

text \<open>The reply, and whether our own phone is asked for the message too.\<close>

definition undecryptable_reply ::
  "key_pair \<Rightarrow> bytes option \<Rightarrow> device_keys \<Rightarrow> inbound_stanza \<Rightarrow> retry_state \<times> prekey_table \<Rightarrow>
    (node \<times> bool) \<times> retry_state \<times> prekey_table" where
  "undecryptable_reply minted account_pb keys i st =
    (case st of (s, t) \<Rightarrow>
      let (n, s) = bump_message_retry (in_msg_id i) s
      in if n \<ge> 5 then ((build_receipt (in_msg_id i) (in_from i) (in_participant i) (in_from_me i) (in_type i), False), s, t)
         else
           (case build_retry_keys_node minted account_pb keys t of
              (keys_node, t) \<Rightarrow>
                ((build_retry_receipt (in_msg_id i) (in_from i) (in_participant i) (in_timestamp i) (registration_id keys)
                    n keys_node (in_category i = Some ''peer''), n = 1), s, t)))"

section \<open>Retry receipts of others\<close>

record retry_request =
  rr_msg_id :: string
  rr_device_jid :: string
  rr_count :: u32
  rr_bundle :: "device_prekey_bundle option"

definition parse_inbound_retry_receipt :: "node \<Rightarrow> retry_request option" where
  "parse_inbound_retry_receipt n =
    (if tag n \<noteq> ''receipt'' \<or> get_attr n ''type'' \<noteq> Some ''retry'' then None
     else
       Option.bind (get_attr n ''from'') (\<lambda>device_jid.
       let retry_child = child n ''retry'' in
       Option.bind
         (case get_attr n ''id'' of Some i \<Rightarrow> Some i | None \<Rightarrow> Option.bind retry_child (\<lambda>r. get_attr r ''id'')) (\<lambda>msg_id.
       let c = or_default 1 (map_option word_of_nat (Option.bind (Option.bind retry_child (\<lambda>r. get_attr r ''count'')) parse_u32));
           reg = or_default 0 (Option.bind (node_child_bytes n ''registration'') be_u32)
       in Some \<lparr>rr_msg_id = msg_id, rr_device_jid = device_jid, rr_count = c,
            rr_bundle = Option.bind (child n ''keys'') (\<lambda>k. parse_retry_keys_bundle k device_jid reg)\<rparr>)))"

definition install_session_from_bundle ::
  "signal_crypto \<Rightarrow> device_keys \<Rightarrow> key_pair \<times> key_pair \<Rightarrow> string \<Rightarrow> device_prekey_bundle \<Rightarrow> whisper_store \<Rightarrow> whisper_store" where
  "install_session_from_bundle c keys gen device b st = store_save_record device (bootstrap_record c keys gen b) st"

definition fetch_one_bundle :: "(node \<Rightarrow> node option) \<Rightarrow> string \<Rightarrow> string \<Rightarrow> device_prekey_bundle option" where
  "fetch_one_bundle ask iq_id device =
    Option.bind (ask (build_prekey_fetch_iq [device] iq_id))
      (\<lambda>reply. case parse_prekey_fetch_response reply of b # _ \<Rightarrow> Some b | [] \<Rightarrow> None)"

definition build_retry_resend_node ::
  "string \<Rightarrow> string \<Rightarrow> encrypted_recipient \<Rightarrow> u32 \<Rightarrow> int \<Rightarrow> bytes option \<Rightarrow> string option \<Rightarrow> node" where
  "build_retry_resend_node msg_id device_jid rec n timestamp account_pb edit =
    (let is_pkmsg = er_message_type rec = PreKey;
         enc = Node ''enc''
           (attr ([(''v'', ''2''), (''type'', if is_pkmsg then ''pkmsg'' else ''msg''), (''count'', show_nat (unat n))] @
             (if edit \<noteq> None then [(''decrypt-fail'', ''hide'')] else []))) (CBytes (er_ciphertext rec))
     in Node ''message''
          (attr ([(''id'', msg_id), (''type'', ''text''), (''to'', device_jid), (''t'', show_int timestamp),
             (''device_fanout'', ''false'')] @ (case edit of Some e \<Rightarrow> [(''edit'', e)] | None \<Rightarrow> [])))
          (CNodes (enc # (case (is_pkmsg, account_pb) of
             (True, Some pb) \<Rightarrow> [bytes_child ''device-identity'' pb] | _ \<Rightarrow> []))))"

text \<open>What \<open>edit_attribute_for_inner\<close> reads of a decoded message: of the protocol part the key's
  \<open>from_me\<close>, the type and whether an edited message is there, and the text of a reaction.\<close>

record protocol_view =
  pv_key_from_me :: "bool option option"
  pv_type :: "int option"
  pv_has_edited :: bool

record inner_view =
  iv_protocol :: "protocol_view option"
  iv_reaction :: "string option option"

definition PM_REVOKE :: int where "PM_REVOKE = 0"
definition PM_MESSAGE_EDIT :: int where "PM_MESSAGE_EDIT = 14"

definition edit_attribute_for_inner :: "inner_view option \<Rightarrow> string option" where
  "edit_attribute_for_inner view =
    (case view of
       None \<Rightarrow> None
     | Some m \<Rightarrow>
       (case (case iv_protocol m of
                None \<Rightarrow> None
              | Some p \<Rightarrow>
                (case pv_key_from_me p of
                   None \<Rightarrow> None
                 | Some from_me \<Rightarrow>
                   (let ty = or_default (- 1) (pv_type p)
                    in if ty = PM_REVOKE then Some (if or_default False from_me then ''7'' else ''8'')
                       else if ty = PM_MESSAGE_EDIT \<and> pv_has_edited p then Some ''1'' else None))) of
          Some e \<Rightarrow> Some e
        | None \<Rightarrow>
          (case iv_reaction m of
             Some text \<Rightarrow> if or_default [] text = [] then Some ''7'' else None
           | None \<Rightarrow> None)))"

definition fresh_tctoken :: "(string \<Rightarrow> (bytes \<times> int) option) \<Rightarrow> int \<Rightarrow> string \<Rightarrow> bytes option" where
  "fresh_tctoken privacy_token_get now peer_lid_user =
    (case privacy_token_get peer_lid_user of
       Some (token, ts) \<Rightarrow> if (ts = 0 \<or> now - ts < 28 * 86400) \<and> token \<noteq> [] then Some token else None
     | None \<Rightarrow> None)"

definition attach_tctoken_if_available :: "(string \<Rightarrow> (bytes \<times> int) option) \<Rightarrow> int \<Rightarrow> string \<Rightarrow> node \<Rightarrow> node" where
  "attach_tctoken_if_available privacy_token_get now peer_lid_user n =
    (if peer_lid_user = [] then n
     else
       (case (fresh_tctoken privacy_token_get now peer_lid_user, node_content n) of
          (Some token, CNodes ns) \<Rightarrow> Node (tag n) (node_attrs n) (CNodes (ns @ [bytes_child ''tctoken'' token]))
        | _ \<Rightarrow> n))"

record retry_env =
  re_ask :: "nat \<Rightarrow> node \<Rightarrow> node option"
  re_iq_id :: "nat \<Rightarrow> string"
  re_gen :: "key_pair \<times> key_pair"
  re_gens :: "nat \<Rightarrow> key_pair \<times> key_pair"
  re_fresh :: "nat \<Rightarrow> bytes \<times> bytes"
  re_pad :: u8
  re_wrap :: "bytes \<Rightarrow> string \<Rightarrow> bytes option"
  re_view :: "bytes \<Rightarrow> inner_view option"
  re_account_pb :: "bytes option"
  re_token :: "string \<Rightarrow> (bytes \<times> int) option"
  re_own_jid :: "string option"
  re_now :: int

definition MAX_INCOMING_RETRIES :: u32 where "MAX_INCOMING_RETRIES = 10"

definition reestablish ::
  "signal_crypto \<Rightarrow> device_keys \<Rightarrow> retry_env \<Rightarrow> retry_request \<Rightarrow> retry_state \<times> whisper_store \<Rightarrow> retry_state \<times> whisper_store" where
  "reestablish c keys env req sst =
    (case sst of (s, st) \<Rightarrow>
      (case rr_bundle req of
         Some b \<Rightarrow> (s, install_session_from_bundle c keys (re_gen env) (rr_device_jid req) b st)
       | None \<Rightarrow>
         (let has = has_signal_session st (rr_device_jid req);
              (recreate, s) = should_recreate_session (rr_device_jid req) has (rr_count req) (re_now env) s
          in if recreate then
               (case fetch_one_bundle (re_ask env 0) (re_iq_id env 0) (rr_device_jid req) of
                  Some b \<Rightarrow> (s, install_session_from_bundle c keys (re_gen env) (rr_device_jid req) b st)
                | None \<Rightarrow> (s, st))
             else (s, st))))"

definition own_device :: "retry_env \<Rightarrow> string \<Rightarrow> whisper_store \<Rightarrow> bool" where
  "own_device env device st =
    (let own_pn_user = map_option jid_user (re_own_jid env);
         own_lid_user = Option.bind own_pn_user (pn_to_lid st)
     in device_user_is_own (lid_user_part device) own_pn_user own_lid_user)"

definition handle_inbound_retry_receipt ::
  "signal_crypto \<Rightarrow> signal_codec \<Rightarrow> device_keys \<Rightarrow> retry_env \<Rightarrow> retry_request \<Rightarrow> retry_state \<times> whisper_store \<Rightarrow>
    node option \<times> retry_state \<times> whisper_store" where
  "handle_inbound_retry_receipt c pb keys env req sst =
    (case sst of (s, st) \<Rightarrow>
     case recent_send_of (rr_msg_id req) s of
       None \<Rightarrow> (None, s, st)
     | Some (dest_jid, inner_proto) \<Rightarrow>
       (let device = rr_device_jid req;
            (internal, s) = bump_incoming_retry device (rr_msg_id req) s
        in if internal \<ge> MAX_INCOMING_RETRIES then (None, s, st)
           else
             (let (s, st) = reestablish c keys env req (s, st);
                  own = own_device env device st;
                  padded = pad_message (re_pad env)
                    (if own then or_default inner_proto (re_wrap env inner_proto dest_jid) else inner_proto)
              in case encrypt_per_device c pb keys
                     (\<lambda>jids. map_option parse_prekey_fetch_response (re_ask env 1 (build_prekey_fetch_iq jids (re_iq_id env 1))))
                     (re_gens env) (re_fresh env) [device] padded padded None st of
                   (Ok (rec # _), st) \<Rightarrow>
                     (let n = build_retry_resend_node (rr_msg_id req) device rec (rr_count req) (re_now env) (re_account_pb env)
                            (edit_attribute_for_inner (re_view env inner_proto));
                          peer_lid_user = (if ends_with device ''@lid'' then lid_user_part device
                            else or_default [] (pn_to_lid st (jid_user device)))
                      in (Some (if own then n else attach_tctoken_if_available (re_token env) (re_now env) peer_lid_user n), s, st))
                 | (_, st) \<Rightarrow> (None, s, st))))"

end
