(* ===== verification/Prekey_Supply.thy ===== *)
theory Prekey_Supply
  imports Prekeys Message_Flow
begin

text \<open>
  What the supply of one-time prekeys gives: an upload ships each pending key and marks just those; a bundle
  that we publish, whether by upload or in a retry receipt, is read by a peer as our keys, with a prekey whose
  private half we hold; a prekey minted for a retry receipt is offered to others as well.
\<close>

section \<open>Ids and bundles on the wire\<close>

lemma id_bytes_eq: "id_bytes i = be_bytes 3 (unat i)"
proof -
  have "be_bytes 4 (unat i) = be_bytes (Suc 3) (unat i)" by (rule arg_cong [of 4 "Suc 3"]) simp
  then show ?thesis by (simp only: id_bytes_def be_bytes.simps(2) One_nat_def drop_Suc_Cons drop_0)
qed

lemma be_u32_id_bytes: "unat i < 2 ^ 24 \<Longrightarrow> be_u32 (id_bytes i) = Some i"
  using length_be_bytes [of 3 "unat i"] by (auto simp: be_u32_def id_bytes_eq simp del: length_be_bytes)

lemma child_nodes_cons: "child (Node t a (CNodes (n # ns))) k = (if tag n = k then Some n else child (Node t a (CNodes ns)) k)"
  by (simp add: child_def)

lemma child_nodes_nil: "child (Node t a (CNodes [])) k = None"
  by (simp add: child_def)

lemma tag_bytes_child [simp]: "tag (bytes_child t b) = t" "node_bytes (bytes_child t b) = Some b"
  by (simp_all add: bytes_child_def node_bytes_def)

lemma node_child_bytes_nodes:
  "node_child_bytes (Node t a (CNodes (n # ns))) k = (if tag n = k then node_bytes n else node_child_bytes (Node t a (CNodes ns)) k)"
  "node_child_bytes (Node t a (CNodes [])) k = None"
  by (simp_all add: node_child_bytes_def child_nodes_cons child_nodes_nil)

lemmas child_simps = child_nodes_cons child_nodes_nil node_child_bytes_nodes

lemma tag_key_nodes [simp]: "tag (key_node k) = ''key''" "tag (skey_node spk) = ''skey''"
  by (simp_all add: key_node_def skey_node_def)

lemma key_node_fields:
  "node_child_bytes (key_node k) ''id'' = Some (id_bytes (fst k))" "node_child_bytes (key_node k) ''value'' = Some (snd k)"
  by (simp_all add: key_node_def child_simps)

lemma skey_node_fields:
  "node_child_bytes (skey_node spk) ''id'' = Some (id_bytes (spk_key_id spk))"
  "node_child_bytes (skey_node spk) ''value'' = Some (kp_public (spk_keypair spk))"
  "node_child_bytes (skey_node spk) ''signature'' = Some (spk_signature spk)"
  by (simp_all add: skey_node_def child_simps)

text \<open>Keys as they are: of their lengths, the signed prekey with an id of three bytes.\<close>

definition keys_wf :: "device_keys \<Rightarrow> bool" where
  "keys_wf keys \<longleftrightarrow> length (kp_public (identity_key keys)) = 32 \<and>
    length (kp_public (spk_keypair (signed_prekey keys))) = 32 \<and> length (spk_signature (signed_prekey keys)) = 64 \<and>
    unat (spk_key_id (signed_prekey keys)) < 2 ^ 24"

definition our_bundle :: "string \<Rightarrow> u32 \<Rightarrow> u32 \<Rightarrow> device_keys \<Rightarrow> u32 \<Rightarrow> bytes \<Rightarrow> device_prekey_bundle" where
  "our_bundle jid dev reg keys i p =
    \<lparr>bundle_jid = jid, bundle_device_id = dev, bundle_registration_id = reg,
     bundle_identity_pub = kp_public (identity_key keys), bundle_signed_pre_key_id = spk_key_id (signed_prekey keys),
     bundle_signed_pre_key_pub = kp_public (spk_keypair (signed_prekey keys)),
     bundle_signed_pre_key_sig = spk_signature (signed_prekey keys), bundle_one_time_pre_key_id = Some i,
     bundle_one_time_pre_key_pub = Some p\<rparr>"

lemma prekey_max_id_ge: "i \<in> fst ` set t \<Longrightarrow> i \<le> prekey_max_id t"
proof -
  assume "i \<in> fst ` set t"
  moreover have "prekey_max_id t = Max (set (0 # map fst t))"
    by (simp only: prekey_max_id_def Max.set_eq_fold)
  ultimately show "i \<le> prekey_max_id t" by simp
qed

lemma retry_bundle_read:
  assumes "build_retry_keys_node minted (Some pb) keys t = (Some n, t')" "keys_wf keys"
    and "length (kp_public minted) = 32" "unat (prekey_max_id t) + 1 < 2 ^ 24"
  defines "i \<equiv> prekey_max_id t + 1"
  shows "parse_retry_keys_bundle n jid reg = Some (our_bundle jid (jid_device jid) reg keys i (kp_public minted)) \<and>
    t' = row_save t i \<lparr>pk_private = kp_private minted, pk_public = kp_public minted, pk_uploaded = False\<rparr> \<and> row_load t i = None"
proof -
  have m: "prekey_max_id t \<noteq> - 1"
  proof
    assume "prekey_max_id t = - 1"
    then have "unat (prekey_max_id t) = 2 ^ 32 - 1" by (simp add: unsigned_minus_1_eq_mask mask_eq_exp_minus_1)
    with assms(4) show False by simp
  qed
  have i: "unat i < 2 ^ 24" using assms(4) by (simp add: i_def unat_word_ariths)
  from assms(1) m have n: "n = Node ''keys'' [] (CNodes [bytes_child ''type'' [5], bytes_child ''identity'' (kp_public (identity_key keys)),
        key_node (i, kp_public minted), skey_node (signed_prekey keys), bytes_child ''device-identity'' pb])"
    and t': "prekeys_insert_batch [(i, minted)] t = Some t'"
    by (auto simp: build_retry_keys_node_def Let_def i_def split: option.splits)
  have "parse_retry_keys_bundle n jid reg = Some (our_bundle jid (jid_device jid) reg keys i (kp_public minted))"
    using assms(2,3) i
    by (simp add: n parse_retry_keys_bundle_def child_simps key_node_fields skey_node_fields of_length_def keys_wf_def be_u32_id_bytes our_bundle_def)
  then show ?thesis using t' by (auto simp: prekeys_insert_batch_def split: if_splits)
qed

section \<open>Uploads\<close>

definition uploaded_ids :: "prekey_table \<Rightarrow> u32 set" where
  "uploaded_ids t = {i. \<exists>r. (i, r) \<in> set t \<and> pk_uploaded r}"

definition shipped_keys :: "node \<Rightarrow> (u32 \<times> bytes) list" where
  "shipped_keys iq = List.map_filter (\<lambda>k. case (Option.bind (node_child_bytes k ''id'') be_u32, node_child_bytes k ''value'') of
      (Some i, Some p) \<Rightarrow> Some (i, p) | _ \<Rightarrow> None)
    (case child iq ''list'' of Some l \<Rightarrow> children l ''key'' | None \<Rightarrow> [])"

lemma upload_iq_list: "child (prekey_upload_iq q keys rows) ''list'' = Some (Node ''list'' [] (CNodes (map key_node rows)))"
  by (simp add: prekey_upload_iq_def child_simps)

lemma shipped_upload:
  "\<forall>k \<in> set rows. unat (fst k) < 2 ^ 24 \<Longrightarrow> shipped_keys (prekey_upload_iq q keys rows) = rows"
proof (induction rows)
  case (Cons k rows)
  then show ?case
    by (simp add: shipped_keys_def upload_iq_list children_def key_node_fields be_u32_id_bytes List.map_filter_simps)
qed (simp add: shipped_keys_def upload_iq_list children_def List.map_filter_simps)

lemma pending_prefix:
  fixes t :: prekey_table
  defines "s \<equiv> sort_key fst (filter (\<lambda>(i, r). \<not> pk_uploaded r) t)"
  assumes "distinct (map fst t)" "take n s \<noteq> []"
  shows "set (take n s) = {(i, r) \<in> set t. \<not> pk_uploaded r \<and> i \<le> fst (last (take n s))}"
proof -
  have srt: "sorted (map fst s)" and st: "set s = {(i, r) \<in> set t. \<not> pk_uploaded r}"
    by (auto simp: s_def)
  have "distinct (map fst s)"
  proof -
    have "inj_on fst (set t)" "distinct t" using assms(2) by (simp_all add: distinct_map)
    then show ?thesis unfolding s_def distinct_map
      by (auto intro: inj_on_subset)
  qed
  then have ss: "sorted_wrt (<) (map fst s)" using srt by (simp add: strict_sorted_iff)
  let ?k = "length (take n s) - 1"
  have k: "?k < length s" "last (take n s) = s ! ?k" "length (take n s) = Suc ?k"
    using assms(3) by (auto simp: last_conv_nth min_def not_le)
  have "x \<in> set (take n s) \<longleftrightarrow> fst x \<le> fst (s ! ?k)" if "x \<in> set s" for x
  proof -
    from that obtain j where j: "j < length s" "x = s ! j" by (auto simp: in_set_conv_nth)
    have a: "x \<in> set (take n s) \<longleftrightarrow> j \<le> ?k"
    proof
      assume "x \<in> set (take n s)"
      then obtain l where "l < Suc ?k" "x = s ! l" using k(3) by (auto simp: in_set_conv_nth)
      moreover have "l = j"
      proof -
        have "distinct s" using \<open>distinct (map fst s)\<close> by (simp add: distinct_map)
        then show ?thesis using j k(1) \<open>l < Suc ?k\<close> \<open>x = s ! l\<close> by (auto simp: nth_eq_iff_index_eq)
      qed
      ultimately show "j \<le> ?k" by simp
    next
      assume "j \<le> ?k"
      then have "j < length (take n s)" using k(3) by linarith
      then show "x \<in> set (take n s)" unfolding in_set_conv_nth using j by (auto intro!: exI [of _ j])
    qed
    have "fst (s ! j) \<le> fst (s ! ?k) \<longleftrightarrow> j \<le> ?k"
    proof
      assume le: "fst (s ! j) \<le> fst (s ! ?k)"
      show "j \<le> ?k"
      proof (rule ccontr)
        assume "\<not> j \<le> ?k"
        then have "map fst s ! ?k < map fst s ! j" using ss j k(1) by (intro sorted_wrt_nth_less [OF ss]) auto
        with le j k(1) show False by simp
      qed
    next
      assume "j \<le> ?k"
      then show "fst (s ! j) \<le> fst (s ! ?k)" using srt j k(1) by (auto simp: sorted_iff_nth_mono)
    qed
    then show ?thesis using a j by simp
  qed
  then have "x \<in> set (take n s) \<longleftrightarrow> x \<in> set s \<and> fst x \<le> fst (last (take n s))" for x
    unfolding k(2) using in_set_takeD by fast
  then show ?thesis unfolding st by (intro set_eqI) (simp add: case_prod_beta)
qed

text \<open>An upload is exact. The stanza carries at most 50 keys, each one a stored key with its public half that was
  not marked before; the keys marked afterwards are those marked before and the ones that were shipped, no others;
  and no private half is touched. So no key is shipped twice and none is counted as held by the server unless
  it was sent.\<close>

theorem upload_exact:
  assumes "upload_pending_prekeys q keys t = (Some iq, c, t')" "distinct (map fst t)" "\<forall>i \<in> fst ` set t. unat i < 2 ^ 24"
  shows "length (shipped_keys iq) = c \<and> 0 < c \<and> c \<le> 50 \<and>
    (\<forall>(i, p) \<in> set (shipped_keys iq). \<exists>r. row_load t i = Some r \<and> pk_public r = p \<and> \<not> pk_uploaded r) \<and>
    uploaded_ids t' = uploaded_ids t \<union> fst ` set (shipped_keys iq) \<and>
    (\<forall>i. prekey_load_private t' i = prekey_load_private t i)"
proof -
  define s where "s = sort_key fst (filter (\<lambda>(i, r). \<not> pk_uploaded r) t)"
  let ?k = "take 50 s"
  let ?rows = "map (\<lambda>(i, r). (i, pk_public r)) ?k"
  have rows: "prekeys_pending_upload 50 t = ?rows"
    by (simp add: prekeys_pending_upload_def s_def take_map)
  from assms(1) have ne: "?k \<noteq> []" and iq: "iq = prekey_upload_iq q keys ?rows" and c: "c = length ?k"
    and t': "t' = prekeys_mark_uploaded (fst (last ?rows)) t"
    by (auto simp: upload_pending_prekeys_def Let_def rows split: if_splits)
  have set: "set ?k = {(i, r) \<in> set t. \<not> pk_uploaded r \<and> i \<le> fst (last ?k)}"
    unfolding s_def by (rule pending_prefix) (use assms(2) ne s_def in auto)
  have last: "fst (last ?rows) = fst (last ?k)"
    using ne by (simp add: last_map case_prod_beta)
  have "\<forall>k \<in> set ?rows. unat (fst k) < 2 ^ 24" using assms(3) set by force
  then have shipped: "shipped_keys iq = ?rows" unfolding iq by (rule shipped_upload)
  have stored: "\<forall>(i, p) \<in> set ?rows. \<exists>r. row_load t i = Some r \<and> pk_public r = p \<and> \<not> pk_uploaded r"
    using set assms(2) by (auto simp: row_load_def intro: map_of_is_SomeI)
  have up: "uploaded_ids t' = uploaded_ids t \<union> fst ` set ?rows"
    unfolding uploaded_ids_def t' prekeys_mark_uploaded_def last set_map set by (force split: if_splits)
  have "prekey_load_private t' i = prekey_load_private t i" for i
    unfolding t' prekeys_mark_uploaded_def prekey_load_private_def row_load_def by (induction t) (auto split: if_splits)
  then show ?thesis using stored up c ne by (simp add: shipped)
qed

section \<open>Publishing and fetching\<close>

text \<open>What the server answers for a device: the parts of its upload, with one of the keys.\<close>

definition server_user :: "string \<Rightarrow> node \<Rightarrow> nat \<Rightarrow> node" where
  "server_user jid iq j =
    Node ''user'' [(''jid'', jid)]
      (CNodes (map the [child iq ''registration'', child iq ''identity'',
         Some (children (the (child iq ''list'')) ''key'' ! j), child iq ''skey'']))"

definition server_reply :: "node \<Rightarrow> node" where
  "server_reply user = Node ''iq'' [] (CNodes [Node ''list'' [] (CNodes [user])])"

lemma be_u32_registration: "word_of_nat (be_nat (be_bytes 4 (unat r))) = (r :: u32)"
proof -
  have "unat r < 2 ^ 32" using unsigned_less [where 'a = nat, of r] by simp
  then show ?thesis by simp
qed

text \<open>C16: From upload to first message. Whatever key of an upload the server answers with, a device that fetches our
  bundle reads our registration id, identity and signed prekey, and that one-time prekey under its id, and our
  table holds the private half under the same id, before the upload is marked and after.\<close>

theorem fetched_bundle_is_published:
  assumes "upload_pending_prekeys q keys t = (Some iq, c, t')" "distinct (map fst t)" "\<forall>i \<in> fst ` set t. unat i < 2 ^ 24"
    and "keys_wf keys" "\<forall>(i, r) \<in> set t. length (pk_public r) = 32" "j < c"
    and "parse_user_jid jid = Some (u, d)"
  shows "\<exists>i r. row_load t i = Some r \<and> prekey_load_private t' i = Some (pk_private r) \<and>
    parse_prekey_fetch_response (server_reply (server_user jid iq j)) =
      [our_bundle jid (word_of_nat d) (registration_id keys) keys i (pk_public r)]"
proof -
  from assms(1) obtain rows where rows: "rows = prekeys_pending_upload 50 t" and iq: "iq = prekey_upload_iq q keys rows"
    and c: "c = length rows" and t': "t' = prekeys_mark_uploaded (fst (last rows)) t"
    by (auto simp: upload_pending_prekeys_def Let_def split: if_splits)
  let ?k = "rows ! j"
  have "?k \<in> set rows" using assms(6) c by simp
  then obtain r where r: "(fst ?k, r) \<in> set t" "snd ?k = pk_public r"
    by (auto simp: rows prekeys_pending_upload_def dest!: in_set_takeD)
  have l: "row_load t (fst ?k) = Some r" using r(1) assms(2) by (simp add: row_load_def)
  have priv: "prekey_load_private t' (fst ?k) = Some (pk_private r)"
    using l unfolding t' prekeys_mark_uploaded_def prekey_load_private_def row_load_def by (induction t) (auto split: if_splits)
  have small: "unat (fst ?k) < 2 ^ 24" "length (snd ?k) = 32" using r assms(3,5) by force+
  have parts: "child iq ''registration'' = Some (bytes_child ''registration'' (be_bytes 4 (unat (registration_id keys))))"
    "child iq ''identity'' = Some (bytes_child ''identity'' (kp_public (identity_key keys)))"
    "child iq ''skey'' = Some (skey_node (signed_prekey keys))"
    "children (the (child iq ''list'')) ''key'' ! j = key_node ?k"
    using assms(6) c by (simp_all add: iq prekey_upload_iq_def child_simps children_def)
  have "parse_prekey_user (server_user jid iq j) =
      Some (our_bundle jid (word_of_nat d) (registration_id keys) keys (fst ?k) (snd ?k))"
    using assms(4,7) small
    by (simp add: server_user_def parts parse_prekey_user_def child_simps key_node_fields skey_node_fields of_length_def
        keys_wf_def be_u32_id_bytes our_bundle_def get_attr_def or_default_def Let_def be_u32_registration del: be_nat_be_bytes)
  then have "parse_prekey_fetch_response (server_reply (server_user jid iq j)) =
      [our_bundle jid (word_of_nat d) (registration_id keys) keys (fst ?k) (pk_public r)]"
    by (simp add: parse_prekey_fetch_response_def server_reply_def child_simps children_def server_user_def List.map_filter_simps r(2))
  with l priv show ?thesis by blast
qed

section \<open>The key of a retry receipt\<close>

text \<open>A one-time key for two. The key minted for a retry receipt goes to the peer that is to answer it, but it stays
  unmarked in the table: the next upload, if no more than 50 keys wait, hands the same key to the server, which
  gives it to someone else. The private half goes with the first of the two messages.\<close>

theorem retry_key_offered_again:
  assumes "build_retry_keys_node minted (Some pb) keys t = (Some n, t')" "keys_wf keys" "length (kp_public minted) = 32"
    and "unat (prekey_max_id t) + 1 < 2 ^ 24" "length (filter (\<lambda>(i, r). \<not> pk_uploaded r) t) < 50"
  shows "\<exists>i iq c t''. parse_retry_keys_bundle n jid reg = Some (our_bundle jid (jid_device jid) reg keys i (kp_public minted)) \<and>
    upload_pending_prekeys q keys t' = (Some iq, c, t'') \<and> (i, kp_public minted) \<in> set (shipped_keys iq)"
proof -
  let ?i = "prekey_max_id t + 1" and ?p = "\<lambda>(i :: u32, r). \<not> pk_uploaded r"
  let ?r = "\<lparr>pk_private = kp_private minted, pk_public = kp_public minted, pk_uploaded = False\<rparr>"
  from assms(1,4) have n: "parse_retry_keys_bundle n jid reg = Some (our_bundle jid (jid_device jid) reg keys ?i (kp_public minted))"
    and t': "t' = row_save t ?i ?r"
    using retry_bundle_read [OF assms(1-4)] by simp_all
  have "length (filter ?p (row_delete t i)) \<le> length (filter ?p t)" for i
    by (induction t) (auto simp: row_delete_def)
  from this [of ?i] assms(5) have len: "length (filter ?p t') \<le> 50" by (simp add: t' row_save_def)
  let ?rows = "map (\<lambda>(i, r). (i, pk_public r)) (sort_key fst (filter ?p t'))"
  have rows: "prekeys_pending_upload 50 t' = ?rows" using len by (simp add: prekeys_pending_upload_def)
  have "\<forall>k \<in> set ?rows. unat (fst k) < 2 ^ 24"
  proof
    fix k assume "k \<in> set ?rows"
    then obtain r where "(fst k, r) \<in> set t'" by auto
    then have "fst k = ?i \<or> fst k \<in> fst ` set t" by (auto simp: t' row_save_def row_delete_def intro!: image_eqI [of _ fst])
    then have "fst k = ?i \<or> unat (fst k) \<le> unat (prekey_max_id t)"
      using prekey_max_id_ge [of "fst k" t] by (auto simp: word_le_nat_alt)
    then show "unat (fst k) < 2 ^ 24" using assms(4) by (auto simp: unat_word_ariths)
  qed
  then have "shipped_keys (prekey_upload_iq q keys ?rows) = ?rows" by (rule shipped_upload)
  moreover have mem: "(?i, kp_public minted) \<in> set ?rows"
    unfolding set_map set_sort by (rule image_eqI [of _ _ "(?i, ?r)"]) (simp_all add: t' row_save_def)
  moreover have "upload_pending_prekeys q keys t' =
      (Some (prekey_upload_iq q keys ?rows), length ?rows, prekeys_mark_uploaded (fst (last ?rows)) t')"
    using mem unfolding upload_pending_prekeys_def rows Let_def by (metis list.set(1) empty_iff)
  ultimately show ?thesis using n by metis
qed

section \<open>Instances\<close>

lemma toy_device_wf: "keys_wf toy_device"
  by (simp add: keys_wf_def toy_device_def generate_device_keys_def toy_pair_def toy_key32_def toy_signal_def)

definition toy_prekeys :: prekey_table where
  "toy_prekeys = [(3, \<lparr>pk_private = [1], pk_public = replicate 32 7, pk_uploaded = False\<rparr>),
    (2, \<lparr>pk_private = [2], pk_public = replicate 32 8, pk_uploaded = True\<rparr>)]"

lemma toy_upload: "\<exists>iq t'. upload_pending_prekeys ''q'' toy_device toy_prekeys = (Some iq, 1, t') \<and>
    distinct (map fst toy_prekeys) \<and> (\<forall>i \<in> fst ` set toy_prekeys. unat i < 2 ^ 24) \<and>
    (\<forall>(i, r) \<in> set toy_prekeys. length (pk_public r) = 32)"
  by (simp add: upload_pending_prekeys_def prekeys_pending_upload_def toy_prekeys_def)

theorem upload_exact_witness:
  "\<exists>iq t'. upload_pending_prekeys ''q'' toy_device toy_prekeys = (Some iq, 1, t') \<and>
    uploaded_ids t' = uploaded_ids toy_prekeys \<union> fst ` set (shipped_keys iq)"
proof -
  obtain iq t' where u: "upload_pending_prekeys ''q'' toy_device toy_prekeys = (Some iq, 1, t')"
    and t: "distinct (map fst toy_prekeys)" "\<forall>i \<in> fst ` set toy_prekeys. unat i < 2 ^ 24"
    using toy_upload by blast
  from upload_exact [OF u t] u show ?thesis by blast
qed

theorem fetched_bundle_is_published_witness:
  "\<exists>iq t' i. \<exists>r :: prekey_row. upload_pending_prekeys ''q'' toy_device toy_prekeys = (Some iq, 1, t') \<and>
    prekey_load_private t' i = Some (pk_private r) \<and>
    parse_prekey_fetch_response (server_reply (server_user ''64:2@lid'' iq 0)) =
      [our_bundle ''64:2@lid'' 2 (registration_id toy_device) toy_device i (pk_public r)]"
proof -
  have p: "parse_user_jid ''64:2@lid'' = Some (64, 2)"
    by (simp add: parse_user_jid_def split_once.simps parse_u32_def parse_uint_def digits_value_def is_ascii_digit_def digit_val_def)
  obtain iq t' where u: "upload_pending_prekeys ''q'' toy_device toy_prekeys = (Some iq, 1, t')"
    and t: "distinct (map fst toy_prekeys)" "\<forall>i \<in> fst ` set toy_prekeys. unat i < 2 ^ 24"
      "\<forall>(i, r) \<in> set toy_prekeys. length (pk_public r) = 32"
    using toy_upload by blast
  from fetched_bundle_is_published [OF u t(1,2) toy_device_wf t(3) zero_less_one p, unfolded of_nat_numeral] u
  show ?thesis by blast
qed

theorem retry_key_offered_again_witness:
  "\<exists>n t' i iq c t''. build_retry_keys_node toy_pair (Some []) toy_device toy_prekeys = (Some n, t') \<and>
    upload_pending_prekeys ''q'' toy_device t' = (Some iq, c, t'') \<and> (i, kp_public toy_pair) \<in> set (shipped_keys iq)"
proof -
  have m: "prekey_max_id toy_prekeys = 3" by (simp add: prekey_max_id_def toy_prekeys_def)
  obtain n t' where b: "build_retry_keys_node toy_pair (Some []) toy_device toy_prekeys = (Some n, t')"
    unfolding build_retry_keys_node_def m
    by (simp add: prekeys_insert_batch_def row_load_def toy_prekeys_def)
  have pre: "length (kp_public toy_pair) = 32" "unat (prekey_max_id toy_prekeys) + 1 < 2 ^ 24"
      "length (filter (\<lambda>(i, r). \<not> pk_uploaded r) toy_prekeys) < 50"
    by (simp_all only: m) (simp_all add: toy_pair_def toy_key32_def toy_prekeys_def)
  from retry_key_offered_again [OF b toy_device_wf pre, of "''9''" 1 "''q''"] b show ?thesis by blast
qed

end
