(* ===== verification/Retry_Recovery.thy ===== *)
theory Retry_Recovery
  imports Retry Prekey_Supply
begin

text \<open>
  What a retry achieves: from a message that did not decrypt, over the receipt with fresh keys, to the same
  message decrypted; and what bounds it on both sides.
\<close>

section \<open>The receipt on its way\<close>

text \<open>The server forwards a stanza with \<open>from\<close> in place of \<open>to\<close>.\<close>

definition as_delivered :: "string \<Rightarrow> node \<Rightarrow> node" where
  "as_delivered d n = Node (tag n) (attrs_insert ''from'' d (filter (\<lambda>(k, v). k \<noteq> ''to'') (node_attrs n))) (node_content n)"

lemma as_delivered [simp]:
  "tag (as_delivered d n) = tag n" "child (as_delivered d n) t = child n t"
  "node_child_bytes (as_delivered d n) t = node_child_bytes n t"
  by (simp_all add: as_delivered_def child_def node_child_bytes_def)

lemma get_attr_delivered:
  "get_attr (as_delivered d n) k = (if k = ''from'' then Some d else if k = ''to'' then None else get_attr n k)"
proof -
  have "map_of (filter (\<lambda>(k, v). k \<noteq> ''to'') ps) k = (if k = ''to'' then None else map_of ps k)" for ps :: attrs
    by (induction ps) auto
  then show ?thesis by (simp add: get_attr_def as_delivered_def map_of_attrs_insert)
qed

lemma be_u32_be_bytes: "be_u32 (be_bytes 4 (unat r)) = Some r"
  using length_be_bytes [of 4 "unat r"] be_u32_registration [of r]
  by (auto simp: be_u32_def simp del: length_be_bytes be_nat_be_bytes)

lemma parse_count: "parse_u32 (show_nat (unat (n :: u32))) = Some (unat n)"
proof -
  have "unat n < 2 ^ 32" using unsigned_less [where 'a = nat, of n] by simp
  then show ?thesis by (simp add: parse_u32_def parse_uint_show_nat)
qed

lemma retry_receipt_read:
  assumes "tag k = ''keys''"
  shows "parse_inbound_retry_receipt (as_delivered d (build_retry_receipt mid from_jid part ts reg n (Some k) cat)) =
    Some \<lparr>rr_msg_id = mid, rr_device_jid = d, rr_count = n, rr_bundle = parse_retry_keys_bundle k d reg\<rparr>"
  using assms
  by (simp add: parse_inbound_retry_receipt_def get_attr_delivered build_retry_receipt_def child_simps be_u32_be_bytes
      parse_count or_default_def)

section \<open>The resend\<close>

lemma send_installed:
  assumes "canonical_session_address st d = d" "\<forall>b \<in> set (address_forms st d). has_current st b \<longrightarrow> b = d"
    and "sender_chain (initiate_alice c (alice_of keys gen bundle)) = Some oc"
  defines "v \<equiv> view_of (initiate_alice c (alice_of keys gen bundle))"
  shows "\<exists>st'. encrypt_per_device c pb keys fetch gens fr [d] m m own (install_session_from_bundle c keys gen d bundle st) =
    (Ok [\<lparr>er_jid = d, er_ciphertext = pre_key_wire pb keys gen bundle (whisper_wire c pb v oc m), er_message_type = PreKey\<rparr>], st')"
proof -
  let ?r = "bootstrap_record c keys gen bundle"
  let ?st = "store_save_record d ?r st"
  have "\<forall>b \<in> set (address_forms ?st d). has_current ?st b \<longrightarrow> b = canonical_session_address ?st d"
    "canonical_session_address ?st d = d"
    using only_form_save [of st d ?r] assms(1,2) by simp_all
  note addr = encryption_address_stays [OF this(1), unfolded this(2)]
  obtain state where cur: "current ?r = Some state" by (simp add: bootstrap_record_def)
  have s0: "sender_chain state = Some oc" "sender_ratchet_pub state = Some (kp_public (snd gen))" "view_of state = v"
    using cur by (auto simp: bootstrap_record_def assms(3) v_def view_of_def)
  have pend: "pending_pre_key_of state = Some \<lparr>pending_pre_key_id = bundle_one_time_pre_key_id bundle,
      pending_signed_pre_key_id = bundle_signed_pre_key_id bundle, pending_base_key_pub = kp_public (fst gen)\<rparr>"
    using cur by (auto simp: bootstrap_record_def)
  have enc: "encrypt_state c pb keys (fr 0) m state =
      (Ok \<lparr>serialized = pre_key_wire pb keys gen bundle (whisper_wire c pb v oc m), message_type_of = PreKey\<rparr>,
        (state\<lparr>sender_chain := Some (next_chain c oc)\<rparr>)\<lparr>pending_pre_key_of := None\<rparr>)"
    using pend by (simp add: encrypt_state_def sbind_def pre_key_wire_def encrypt_pre_key_Ok [OF s0(1,2)] s0(3))
  have ld: "store_load_record ?st d = Some ?r" by simp
  have part: "partition_targets ?st [(d, d)] = ([(d, ?r)], [])"
    by (simp add: partition_targets_def ld cur row_save_def row_delete_def)
  show ?thesis
    by (simp add: install_session_from_bundle_def encrypt_per_device_def addr part row_load_def [of "[(d, ?r)]"] cur enc)
qed

lemma own_device_install: "own_device env d (install_session_from_bundle c keys gen d' b st) = own_device env d st"
  using lid_pn_cong [of "store_save_record d' (bootstrap_record c keys gen b) st" st]
  by (simp add: own_device_def install_session_from_bundle_def)

lemma resend_enc:
  "\<exists>e. child (build_retry_resend_node mid d \<lparr>er_jid = j, er_ciphertext = ct, er_message_type = PreKey\<rparr> n ts pb edit) ''enc'' = Some e \<and>
    get_attr e ''type'' = Some ''pkmsg'' \<and> node_bytes e = Some ct"
  by (simp add: build_retry_resend_node_def Let_def child_simps node_bytes_def)

lemma find_append_Some: "find P xs = Some e \<Longrightarrow> find P (xs @ ys) = Some e"
  by (induction xs) (auto split: if_splits)

lemma child_attach: "child n t = Some e \<Longrightarrow> child (attach_tctoken_if_available tok now u n) t = Some e"
  by (auto simp: attach_tctoken_if_available_def child_def find_append_Some split: option.split content.split)

text \<open>The message part of a first message to the peer of a bundle.\<close>

definition first_wire ::
  "signal_crypto \<Rightarrow> signal_codec \<Rightarrow> device_keys \<Rightarrow> key_pair \<times> key_pair \<Rightarrow> device_prekey_bundle \<Rightarrow> bytes \<Rightarrow> bytes" where
  "first_wire c pb keys gen bundle m =
    (let a = initiate_alice c (alice_of keys gen bundle) in whisper_wire c pb (view_of a) (the (sender_chain a)) m)"

lemma handle_with_bundle:
  assumes "recent_send_of (rr_msg_id req) s = Some (dest, inner)" "rr_bundle req = Some bundle"
    and "unat (or_default 0 (row_load (incoming_retry_counter s) (rr_device_jid req, rr_msg_id req))) < 9"
    and "canonical_session_address sa (rr_device_jid req) = rr_device_jid req"
    and "\<forall>b \<in> set (address_forms sa (rr_device_jid req)). has_current sa b \<longrightarrow> b = rr_device_jid req"
    and "\<not> own_device env (rr_device_jid req) sa"
  shows "\<exists>resend sst' e. handle_inbound_retry_receipt c pb keys env req (s, sa) = (Some resend, sst') \<and>
    child resend ''enc'' = Some e \<and> get_attr e ''type'' = Some ''pkmsg'' \<and>
    node_bytes e = Some (pre_key_wire pb keys (re_gen env) bundle (first_wire c pb keys (re_gen env) bundle (pad_message (re_pad env) inner)))"
proof -
  let ?d = "rr_device_jid req" and ?m = "pad_message (re_pad env) inner" and ?a = "initiate_alice c (alice_of keys (re_gen env) bundle)"
  obtain oc where oc: "sender_chain ?a = Some oc" by (simp add: initiate_alice_def Let_def split_beta)
  obtain n s1 where b: "bump_incoming_retry ?d (rr_msg_id req) s = (n, s1)" by fastforce
  have n: "n < MAX_INCOMING_RETRIES"
  proof -
    have "n = or_default 0 (row_load (incoming_retry_counter s) (?d, rr_msg_id req)) + 1"
      using b by (auto simp: bump_incoming_retry_def Let_def)
    then show ?thesis using assms(3) by (auto simp: MAX_INCOMING_RETRIES_def word_less_nat_alt unat_word_ariths)
  qed
  obtain st' where e: "encrypt_per_device c pb keys
      (\<lambda>jids. map_option parse_prekey_fetch_response (re_ask env 1 (build_prekey_fetch_iq jids (re_iq_id env 1))))
      (re_gens env) (re_fresh env) [?d] ?m ?m None (install_session_from_bundle c keys (re_gen env) ?d bundle sa) =
      (Ok [\<lparr>er_jid = ?d, er_ciphertext = pre_key_wire pb keys (re_gen env) bundle (whisper_wire c pb (view_of ?a) oc ?m),
        er_message_type = PreKey\<rparr>], st')"
    using send_installed [OF assms(4,5) oc] by blast
  show ?thesis
    unfolding handle_inbound_retry_receipt_def prod.case assms(1) option.case Let_def b
    using n assms(2,6) e resend_enc [of "rr_msg_id req" ?d ?d "pre_key_wire pb keys (re_gen env) bundle (whisper_wire c pb (view_of ?a) oc ?m)"]
      child_attach
    by (simp add: reestablish_def own_device_install first_wire_def oc Let_def not_le) meson
qed

lemma retry_keys_node:
  assumes "unat (prekey_max_id t) + 1 < 2 ^ 24"
  shows "\<exists>n t'. build_retry_keys_node minted (Some pb) keys t = (Some n, t') \<and> tag n = ''keys''"
proof -
  let ?i = "prekey_max_id t + 1"
  have i: "unat ?i = unat (prekey_max_id t) + 1" using assms by (simp add: unat_word_ariths)
  have "row_load t ?i = None"
  proof (rule ccontr)
    assume "row_load t ?i \<noteq> None"
    then have "?i \<in> fst ` set t" using row_load_set by force
    from prekey_max_id_ge [OF this] i show False by (simp add: word_le_nat_alt)
  qed
  moreover have "prekey_max_id t \<noteq> - 1"
  proof
    assume "prekey_max_id t = - 1"
    then have "unat (prekey_max_id t) = 2 ^ 32 - 1" by (simp add: unsigned_minus_1_eq_mask mask_eq_exp_minus_1)
    with assms show False by simp
  qed
  ultimately show ?thesis by (simp add: build_retry_keys_node_def prekeys_insert_batch_def Let_def)
qed

text \<open>C5: A lost message comes back, and to whoever asks. A message that did not decrypt is answered by a receipt
  with fresh keys; the sender that still has it in its ring (for whatever chat it was meant) sets a session up
  to the device the receipt comes from and resends it there, and that device, whose kept session refuses it,
  decrypts the very same content.\<close>

theorem retry_recovers:
  fixes i t d bkeys minted
  defines "bundle \<equiv> our_bundle d (jid_device d) (registration_id bkeys) bkeys (prekey_max_id t + 1) (kp_public minted)"
  assumes "undecryptable_reply minted (Some apb) bkeys i (rs, t) = ((receipt, ask), rs', t')"
    and "unat (or_default 0 (row_load (message_retries rs) (in_msg_id i))) < 4"
    and "keys_wf bkeys" "length (kp_public minted) = 32" "unat (prekey_max_id t) + 1 < 2 ^ 24"
    and "signal_sound c pb" "\<forall>p. dec_pre_key pb (enc_pre_key pb p) = Some p"
    and "bundle_of_peer c akeys (re_gen env) bkeys (Some minted) bundle"
    and "recent_send_of (in_msg_id i) s = Some (dest, inner)"
    and "unat (or_default 0 (row_load (incoming_retry_counter s) (d, in_msg_id i))) < 9"
    and "canonical_session_address sa d = d" "\<forall>b \<in> set (address_forms sa d). has_current sa b \<longrightarrow> b = d"
    and "\<not> own_device env d sa"
    and "\<forall>k. load_prekey_priv wb k = prekey_load_private t' k"
    and "\<forall>q. store_load_record wb addr = Some q \<longrightarrow>
      fst (decrypt_with_record c pb fresh addr 2 (first_wire c pb akeys (re_gen env) bundle (pad_message (re_pad env) inner)) q wb) = None"
  shows "\<exists>req resend enc ct sst' wb'. parse_inbound_retry_receipt (as_delivered d receipt) = Some req \<and>
    handle_inbound_retry_receipt c pb akeys env req (s, sa) = (Some resend, sst') \<and>
    child resend ''enc'' = Some enc \<and> get_attr enc ''type'' = Some ''pkmsg'' \<and> node_bytes enc = Some ct \<and>
    receive_msg c pb fresh bkeys addr (''pkmsg'', ct) wb = (Ok inner, wb')"
proof -
  obtain n where n: "n = or_default 0 (row_load (message_retries rs) (in_msg_id i)) + 1" "\<not> n \<ge> 5"
    using assms(3) by (auto simp: word_le_nat_alt unat_word_ariths)
  obtain kn where k: "build_retry_keys_node minted (Some apb) bkeys t = (Some kn, t')"
    and receipt: "receipt = build_retry_receipt (in_msg_id i) (in_from i) (in_participant i) (in_timestamp i) (registration_id bkeys)
      n (Some kn) (in_category i = Some ''peer'')" and tag: "tag kn = ''keys''"
    using assms(2) n retry_keys_node [OF assms(6), of minted apb bkeys]
    by (auto simp: undecryptable_reply_def bump_message_retry_def Let_def)
  have kr: "parse_retry_keys_bundle kn d (registration_id bkeys) = Some bundle"
    and t': "t' = row_save t (prekey_max_id t + 1) \<lparr>pk_private = kp_private minted, pk_public = kp_public minted, pk_uploaded = False\<rparr>"
    using retry_bundle_read [OF k assms(4-6)] by (simp_all add: bundle_def)
  let ?req = "\<lparr>rr_msg_id = in_msg_id i, rr_device_jid = d, rr_count = n, rr_bundle = Some bundle\<rparr>"
  have req: "parse_inbound_retry_receipt (as_delivered d receipt) = Some ?req"
    unfolding receipt using retry_receipt_read [OF tag] by (simp add: kr)
  let ?a = "initiate_alice c (alice_of akeys (re_gen env) bundle)"
  obtain oc where oc: "sender_chain ?a = Some oc" by (simp add: initiate_alice_def Let_def split_beta)
  obtain resend sst' e where h: "handle_inbound_retry_receipt c pb akeys env ?req (s, sa) = (Some resend, sst')"
    "child resend ''enc'' = Some e" "get_attr e ''type'' = Some ''pkmsg''"
    "node_bytes e = Some (pre_key_wire pb akeys (re_gen env) bundle (first_wire c pb akeys (re_gen env) bundle (pad_message (re_pad env) inner)))"
    using handle_with_bundle [of ?req s dest inner "bundle" sa env c pb akeys] assms(10-14) by auto
  have holds: "holds_prekey bundle (Some minted) wb"
    using assms(15) by (simp add: holds_prekey_def bundle_def our_bundle_def t' prekey_load_private_def rows.load_save)
  have fw: "first_wire c pb akeys (re_gen env) bundle m = whisper_wire c pb (view_of ?a) oc m" for m
    by (simp add: first_wire_def oc)
  obtain wb' where "receive_msg c pb fresh bkeys addr
      (''pkmsg'', pre_key_wire pb akeys (re_gen env) bundle (first_wire c pb akeys (re_gen env) bundle (pad_message (re_pad env) inner))) wb = (Ok inner, wb')"
    using receive_fresh [OF assms(7-9) holds oc refl assms(16) [unfolded fw]] unfolding fw by blast
  then show ?thesis using req h by blast
qed

section \<open>Where resends go\<close>

lemma handle_Some:
  assumes "handle_inbound_retry_receipt c pb keys env req (s, st) = (Some out, sst')"
  shows "get_attr out ''to'' = Some (rr_device_jid req) \<and> get_attr out ''participant'' = None \<and> recent_send_of (rr_msg_id req) s \<noteq> None \<and>
    or_default 0 (row_load (incoming_retry_counter s) (rr_device_jid req, rr_msg_id req)) + 1 < MAX_INCOMING_RETRIES"
proof -
  have to: "get_attr (build_retry_resend_node m d rec n ts pb edit) ''to'' = Some d"
      "get_attr (build_retry_resend_node m d rec n ts pb edit) ''participant'' = None" for m d rec n ts pb edit
    by (simp_all add: build_retry_resend_node_def Let_def split: option.split)
  have at: "get_attr (attach_tctoken_if_available tok now u x) k = get_attr x k" for tok now u x k
    by (auto simp: attach_tctoken_if_available_def get_attr_def split: option.split content.split)
  show ?thesis
    using assms
    by (auto simp: handle_inbound_retry_receipt_def Let_def bump_incoming_retry_def to at not_le split: option.splits if_splits prod.splits outcome.splits list.splits)
qed

text \<open>A resend goes to the \<open>from\<close> of the receipt, whatever participant it names: the device of a group member
  that asks again is not the one the resend is encrypted for.\<close>

theorem resend_goes_to_from:
  assumes "parse_inbound_retry_receipt n = Some req" "handle_inbound_retry_receipt c pb keys env req sst = (Some out, sst')"
  shows "get_attr out ''to'' = get_attr n ''from'' \<and> get_attr out ''participant'' = None"
proof -
  obtain s st sst' where h: "handle_inbound_retry_receipt c pb keys env req (s, st) = (Some out, sst')"
    using assms(2) by (cases sst) blast
  have "get_attr n ''from'' = Some (rr_device_jid req)"
    using assms(1) by (auto simp: parse_inbound_retry_receipt_def Let_def split: if_splits bind_splits)
  with handle_Some [OF h] show ?thesis by simp
qed

section \<open>Bounds\<close>

lemma word_inc: "unat (w :: u32) < 2 ^ 32 - 1 \<Longrightarrow> unat (w + 1) = Suc (unat w)"
  by (simp add: unat_word_ariths)

lemma reestablish_counter: "incoming_retry_counter (fst (reestablish c keys env req (s, st))) = incoming_retry_counter s"
  by (auto simp: reestablish_def should_recreate_session_def Let_def split: option.split)

lemma handle_counter:
  assumes "handle_inbound_retry_receipt c pb keys env req (s, st) = (out, s', st')"
  shows "row_load (incoming_retry_counter s') k =
    (if k = (rr_device_jid req, rr_msg_id req) \<and> recent_send_of (rr_msg_id req) s \<noteq> None
     then Some (or_default 0 (row_load (incoming_retry_counter s) k) + 1) else row_load (incoming_retry_counter s) k)"
proof (cases "recent_send_of (rr_msg_id req) s")
  case None
  then show ?thesis using assms by (simp add: handle_inbound_retry_receipt_def)
next
  case (Some x)
  obtain n s1 where b: "bump_incoming_retry (rr_device_jid req) (rr_msg_id req) s = (n, s1)" by fastforce
  obtain s2 st2 where r: "reestablish c keys env req (s1, st) = (s2, st2)" by fastforce
  have "incoming_retry_counter s' = incoming_retry_counter s1"
    using assms Some reestablish_counter [of c keys env req s1 st]
    by (auto simp: handle_inbound_retry_receipt_def b r Let_def split: prod.splits if_splits outcome.splits list.splits)
  moreover have "incoming_retry_counter s1 = row_save (incoming_retry_counter s) (rr_device_jid req, rr_msg_id req)
      (or_default 0 (row_load (incoming_retry_counter s) (rr_device_jid req, rr_msg_id req)) + 1)"
    using b by (auto simp: bump_incoming_retry_def Let_def)
  ultimately show ?thesis using Some by (simp add: rows.load_save)
qed

primrec handle_all ::
  "signal_crypto \<Rightarrow> signal_codec \<Rightarrow> device_keys \<Rightarrow> (retry_env \<times> retry_request) list \<Rightarrow> retry_state \<times> whisper_store \<Rightarrow>
    node option list \<times> retry_state \<times> whisper_store" where
  "handle_all c pb keys [] sst = ([], sst)"
| "handle_all c pb keys (er # ers) sst =
    (case handle_inbound_retry_receipt c pb keys (fst er) (snd er) sst of
       (out, sst) \<Rightarrow> (case handle_all c pb keys ers sst of (outs, sst) \<Rightarrow> (out # outs, sst)))"

definition resends :: "string \<Rightarrow> string \<Rightarrow> (retry_env \<times> retry_request) list \<Rightarrow> node option list \<Rightarrow> nat" where
  "resends d m ers outs =
    length (filter (\<lambda>(er, out). rr_device_jid (snd er) = d \<and> rr_msg_id (snd er) = m \<and> out \<noteq> None) (zip ers outs))"

lemma resends_from:
  assumes "handle_all c pb keys ers (s, st) = (outs, sst')"
    and "unat (or_default 0 (row_load (incoming_retry_counter s) (d, m))) + length ers < 2 ^ 32"
  shows "resends d m ers outs \<le> 9 - unat (or_default 0 (row_load (incoming_retry_counter s) (d, m)))"
  using assms
proof (induction ers arbitrary: s st outs sst')
  case (Cons er ers)
  let ?n = "\<lambda>s. unat (or_default 0 (row_load (incoming_retry_counter s) (d, m)))"
  obtain out s1 st1 where h: "handle_inbound_retry_receipt c pb keys (fst er) (snd er) (s, st) = (out, s1, st1)"
    by (metis prod_cases3)
  obtain outs1 sst1 where r: "handle_all c pb keys ers (s1, st1) = (outs1, sst1)" by (rule prod.exhaust)
  have outs: "outs = out # outs1" using Cons.prems(1) by (simp add: h r)
  let ?mine = "rr_device_jid (snd er) = d \<and> rr_msg_id (snd er) = m \<and> recent_send_of m s \<noteq> None"
  have n1: "?n s1 = (if ?mine then ?n s + 1 else ?n s)"
    using handle_counter [OF h, of "(d, m)"] Cons.prems(2) by (auto simp: or_default_def unat_word_ariths)
  then have ih: "resends d m ers outs1 \<le> 9 - ?n s1" using Cons.IH [OF r] Cons.prems(2) by auto
  show ?case
  proof (cases "?mine \<and> out \<noteq> None")
    case True
    then have "or_default 0 (row_load (incoming_retry_counter s) (d, m)) + 1 < MAX_INCOMING_RETRIES"
      using handle_Some [of c pb keys "fst er" "snd er" s st "the out" "(s1, st1)"] h by auto
    then have "?n s < 9" using Cons.prems(2) by (simp add: MAX_INCOMING_RETRIES_def word_less_nat_alt unat_word_ariths)
    then show ?thesis using True ih n1 by (simp add: resends_def outs)
  next
    case False
    have "out = None" if "rr_device_jid (snd er) = d" "rr_msg_id (snd er) = m"
    proof (rule ccontr)
      assume "out \<noteq> None"
      then obtain x where x: "out = Some x" by blast
      from handle_Some [OF h [unfolded x]] that False x show False by simp
    qed
    then have "resends d m (er # ers) outs = resends d m ers outs1" by (auto simp: resends_def outs)
    then show ?thesis using ih n1 by (auto split: if_splits)
  qed
qed (simp add: resends_def)

text \<open>C17: Of any sequence of retry requests, from whomever and interleaved as they may be, at most nine are answered
  with a resend of one message to one device.\<close>

theorem resends_bounded:
  assumes "handle_all c pb keys ers (s, st) = (outs, sst')" "incoming_retry_counter s = []" "length ers < 2 ^ 32"
  shows "resends d m ers outs \<le> 9"
  using resends_from [OF assms(1)] assms(2,3) by (simp add: row_load_def or_default_def)

text \<open>The receiving side.\<close>

primrec undecryptable_all ::
  "(nat \<Rightarrow> key_pair) \<Rightarrow> bytes option \<Rightarrow> device_keys \<Rightarrow> inbound_stanza list \<Rightarrow> retry_state \<times> prekey_table \<Rightarrow>
    (node \<times> bool) list \<times> retry_state \<times> prekey_table" where
  "undecryptable_all gen pb keys [] st = ([], st)"
| "undecryptable_all gen pb keys (i # ms) st =
    (case undecryptable_reply (gen (length ms)) pb keys i st of
       (r, st) \<Rightarrow> (case undecryptable_all gen pb keys ms st of (rs, st) \<Rightarrow> (r # rs, st)))"

text \<open>The answer to a delivery of a message that failed \<open>n\<close> times before.\<close>

definition answers_failure :: "nat \<Rightarrow> node \<times> bool \<Rightarrow> bool" where
  "answers_failure n r \<longleftrightarrow> tag (fst r) = ''receipt'' \<and>
    (if n < 4 then get_attr (fst r) ''type'' = Some ''retry'' \<and>
       Option.bind (child (fst r) ''retry'') (\<lambda>c. get_attr c ''count'') = Some (show_nat (Suc n)) \<and> snd r = (n = 0)
     else get_attr (fst r) ''type'' \<noteq> Some ''retry'' \<and> \<not> snd r)"

lemma reply_step:
  assumes "undecryptable_reply g pb keys i (s, t) = (r, s', t')"
    and "unat (or_default 0 (row_load (message_retries s) (in_msg_id i))) = n" "n < 2 ^ 32 - 1"
  shows "answers_failure n r \<and> message_retries s' = row_save (message_retries s) (in_msg_id i) (word_of_nat (Suc n))"
proof -
  let ?w = "or_default 0 (row_load (message_retries s) (in_msg_id i)) + 1"
  have w: "unat ?w = Suc n" "?w = word_of_nat (Suc n)"
    using assms(2,3) by (auto simp: unat_word_ariths word_unat_eq_iff)
  show ?thesis
  proof (cases "n < 4")
    case True
    then have "\<not> ?w \<ge> 5" "(?w = 1) = (n = 0)" using w by (auto simp: word_le_nat_alt word_unat_eq_iff)
    then show ?thesis using assms(1) True w
      by (auto simp: undecryptable_reply_def bump_message_retry_def Let_def answers_failure_def build_retry_receipt_def child_simps
          split: prod.splits)
  next
    case False
    then have "?w \<ge> 5" using w(1) by (simp add: word_le_nat_alt)
    then show ?thesis using assms(1) False w
      by (auto simp: undecryptable_reply_def bump_message_retry_def Let_def answers_failure_def build_receipt_def split: if_splits)
  qed
qed

lemma escalation_from:
  assumes "undecryptable_all gen pb keys ms (s, t) = (rs, st')" "j < length ms"
    and "unat (or_default 0 (row_load (message_retries s) (in_msg_id (ms ! j)))) + length ms < 2 ^ 32"
  shows "answers_failure (unat (or_default 0 (row_load (message_retries s) (in_msg_id (ms ! j)))) +
    length (filter (\<lambda>i. in_msg_id i = in_msg_id (ms ! j)) (take j ms))) (rs ! j)"
  using assms
proof (induction ms arbitrary: s t rs st' j)
  case (Cons i ms)
  let ?n = "\<lambda>s m. unat (or_default 0 (row_load (message_retries s) m))"
  obtain r s1 t1 where u: "undecryptable_reply (gen (length ms)) pb keys i (s, t) = (r, s1, t1)"
    by (metis prod_cases3)
  obtain rs1 st1 where a: "undecryptable_all gen pb keys ms (s1, t1) = (rs1, st1)" by (rule prod.exhaust)
  have rs: "rs = r # rs1" using Cons.prems(1) by (simp add: u a)
  show ?case
  proof (cases j)
    case 0
    then show ?thesis using reply_step [OF u refl] Cons.prems(3) by (simp add: rs)
  next
    case (Suc k)
    let ?m = "in_msg_id (ms ! k)"
    have "message_retries s1 = row_save (message_retries s) (in_msg_id i) (or_default 0 (row_load (message_retries s) (in_msg_id i)) + 1)"
      using u by (auto simp: undecryptable_reply_def bump_message_retry_def Let_def split: if_splits prod.splits)
    then have "?n s1 ?m = ?n s ?m + (if in_msg_id i = ?m then 1 else 0)"
      using Cons.prems(3) Suc word_inc [of "or_default 0 (row_load (message_retries s) ?m)"]
      by (auto simp: rows.load_save or_default_def simp del: One_nat_def)
    then show ?thesis using Cons.IH [OF a, of k] Cons.prems(2,3) Suc
      by (cases "in_msg_id i = ?m") (simp_all add: rs)
  qed
qed simp

text \<open>Deliveries that do not decrypt, of any messages in any order: the first four of a message are answered by
  retry receipts that count up from one (the first also asks our own phone), every later one by a receipt that
  ends the matter, so that the server stops sending it.\<close>

theorem retry_receipts_escalate:
  assumes "undecryptable_all gen pb keys ms (s, t) = (rs, st')" "message_retries s = []" "length ms < 2 ^ 32" "j < length ms"
  shows "answers_failure (length (filter (\<lambda>i. in_msg_id i = in_msg_id (ms ! j)) (take j ms))) (rs ! j)"
  using escalation_from [OF assms(1,4)] assms(2,3) by (simp add: row_load_def or_default_def)

section \<open>Instances\<close>

definition toy_stanza :: inbound_stanza where
  "toy_stanza = \<lparr>in_msg_id = ''M'', in_from = ''9@s.whatsapp.net'', in_participant = [], in_timestamp = 5, in_from_me = False,
    in_type = ''text'', in_category = None\<rparr>"

definition toy_retries :: "bytes \<Rightarrow> retry_state" where
  "toy_retries m = \<lparr>recent_sends = [\<lparr>rs_msg_id = ''M'', rs_chat_jid = ''77@s.whatsapp.net'', rs_inner_proto = m\<rparr>],
    message_retries = [], session_recreate_history = [], incoming_retry_counter = []\<rparr>"

definition toy_env :: retry_env where
  "toy_env = \<lparr>re_ask = (\<lambda>_ _. None), re_iq_id = (\<lambda>_. ''q''), re_gen = (toy_pair, toy_pair), re_gens = (\<lambda>_. (toy_pair, toy_pair)),
    re_fresh = (\<lambda>_. ([], [])), re_pad = 1, re_wrap = (\<lambda>_ _. None), re_view = (\<lambda>_. None), re_account_pb = Some [],
    re_token = (\<lambda>_. None), re_own_jid = None, re_now = 5\<rparr>"

definition toy_published :: whisper_store where
  "toy_published = (toy_store [])\<lparr>prekeys := [(1, toy_key32)]\<rparr>"

theorem retry_recovers_witness:
  "\<exists>receipt rs' t' req resend enc ct sst' wb'.
    undecryptable_reply toy_pair (Some []) toy_device toy_stanza (toy_retries [], []) = ((receipt, True), rs', t') \<and>
    parse_inbound_retry_receipt (as_delivered ''64.1@lid'' receipt) = Some req \<and>
    handle_inbound_retry_receipt toy_signal toy_codec_signal toy_device toy_env req (toy_retries [7], toy_store []) = (Some resend, sst') \<and>
    child resend ''enc'' = Some enc \<and> node_bytes enc = Some ct \<and>
    receive_msg toy_signal toy_codec_signal ([], []) toy_device ''9'' (''pkmsg'', ct) toy_published = (Ok [7], wb')"
proof -
  have m: "prekey_max_id [] = 0" by (simp add: prekey_max_id_def)
  have h1: "unat (or_default 0 (row_load (message_retries (toy_retries [])) (in_msg_id toy_stanza))) < 4"
    "length (kp_public toy_pair) = 32" "unat (prekey_max_id []) + 1 < 2 ^ 24"
    by (simp_all add: toy_retries_def row_load_def or_default_def toy_pair_def toy_key32_def m)
  obtain kn t' where k: "build_retry_keys_node toy_pair (Some []) toy_device [] = (Some kn, t')"
    using retry_keys_node [OF h1(3)] by blast
  have t': "t' = [(1, \<lparr>pk_private = toy_key32, pk_public = toy_key32, pk_uploaded = False\<rparr>)]"
    using retry_bundle_read [OF k toy_device_wf h1(2,3)] by (simp add: m row_save_def row_delete_def toy_pair_def)
  obtain rs' where bump: "bump_message_retry (in_msg_id toy_stanza) (toy_retries []) = (1, rs')"
    by (simp add: bump_message_retry_def toy_retries_def row_load_def or_default_def)
  obtain r where u: "undecryptable_reply toy_pair (Some []) toy_device toy_stanza (toy_retries [], []) = ((r, True), rs', t')"
    by (simp add: undecryptable_reply_def bump k word_le_nat_alt)
  let ?b = "our_bundle ''64.1@lid'' (jid_device ''64.1@lid'') (registration_id toy_device) toy_device (prekey_max_id [] + 1) (kp_public toy_pair)"
  have peer: "bundle_of_peer toy_signal toy_device (re_gen toy_env) toy_device (Some toy_pair) ?b"
    by (simp add: bundle_of_peer_def our_bundle_def toy_env_def toy_device_def generate_device_keys_def toy_pair_def shared_def toy_key32_def)
  have sent: "recent_send_of (in_msg_id toy_stanza) (toy_retries [7]) = Some (''77@s.whatsapp.net'', [7])"
    "unat (or_default 0 (row_load (incoming_retry_counter (toy_retries [7])) (''64.1@lid'', in_msg_id toy_stanza))) < 9"
    by (simp_all add: recent_send_of_def toy_retries_def toy_stanza_def row_load_def or_default_def)
  have addr: "canonical_session_address (toy_store []) ''64.1@lid'' = ''64.1@lid''"
    "\<forall>b \<in> set (address_forms (toy_store []) ''64.1@lid''). has_current (toy_store []) b \<longrightarrow> b = ''64.1@lid''"
    "\<not> own_device toy_env ''64.1@lid'' (toy_store [])"
    by (simp_all add: canonical_session_address_def ends_with_def PN_SERVER_def suffix_to_prefix has_current_def store_load_record_def
        row_load_def toy_store_def own_device_def toy_env_def device_user_is_own_def)
  have store: "\<forall>k. load_prekey_priv toy_published k = prekey_load_private t' k"
    "\<forall>q. store_load_record toy_published ''9'' = Some q \<longrightarrow>
      fst (decrypt_with_record toy_signal toy_codec_signal ([], []) ''9'' 2
        (first_wire toy_signal toy_codec_signal toy_device (re_gen toy_env) ?b (pad_message (re_pad toy_env) [7])) q toy_published) = None"
    by (simp_all add: t' load_prekey_priv_def prekey_load_private_def row_load_def toy_published_def toy_key32_def store_load_record_def toy_store_def)
  have codec: "\<forall>p. dec_pre_key toy_codec_signal (enc_pre_key toy_codec_signal p) = Some p"
    by (simp add: toy_codec_rt)
  from retry_recovers [OF u h1(1) toy_device_wf h1(2,3) toy_signal_sound codec peer sent addr store] u
  show ?thesis by blast
qed

theorem resend_goes_to_from_witness:
  "\<exists>n req out sst'. get_attr n ''participant'' = Some ''8@s.whatsapp.net'' \<and> parse_inbound_retry_receipt n = Some req \<and>
    handle_inbound_retry_receipt toy_signal toy_codec_signal toy_device toy_env req (toy_retries [7], toy_store []) = (Some out, sst') \<and>
    get_attr out ''to'' = Some ''1@g.us''"
proof -
  have m: "unat (prekey_max_id []) + 1 < 2 ^ 24" by (simp add: prekey_max_id_def)
  obtain kn t' where k: "build_retry_keys_node toy_pair (Some []) toy_device [] = (Some kn, t')" and tag: "tag kn = ''keys''"
    using retry_keys_node [OF m] by blast
  let ?n = "as_delivered ''1@g.us'' (build_retry_receipt ''M'' ''5@s.whatsapp.net'' ''8@s.whatsapp.net'' 5 1 1 (Some kn) False)"
  obtain b where b: "parse_retry_keys_bundle kn ''1@g.us'' 1 = Some b"
    using retry_bundle_read [OF k toy_device_wf _ m, of "''1@g.us''" 1] by (auto simp: toy_pair_def toy_key32_def)
  let ?req = "\<lparr>rr_msg_id = ''M'', rr_device_jid = ''1@g.us'', rr_count = 1, rr_bundle = Some b\<rparr>"
  have p: "parse_inbound_retry_receipt ?n = Some ?req" using retry_receipt_read [OF tag] by (simp add: b)
  have "\<exists>out sst' e. handle_inbound_retry_receipt toy_signal toy_codec_signal toy_device toy_env ?req (toy_retries [7], toy_store []) = (Some out, sst') \<and>
    child out ''enc'' = Some e \<and> get_attr e ''type'' = Some ''pkmsg'' \<and>
    node_bytes e = Some (pre_key_wire toy_codec_signal toy_device (re_gen toy_env) b
      (first_wire toy_signal toy_codec_signal toy_device (re_gen toy_env) b (pad_message (re_pad toy_env) [7])))"
    by (rule handle_with_bundle [where dest = "''77@s.whatsapp.net''"])
      (simp_all add: recent_send_of_def toy_retries_def row_load_def or_default_def canonical_session_address_def ends_with_def
        PN_SERVER_def suffix_to_prefix has_current_def store_load_record_def toy_store_def own_device_def toy_env_def device_user_is_own_def)
  then obtain out sst' where h: "handle_inbound_retry_receipt toy_signal toy_codec_signal toy_device toy_env ?req
      (toy_retries [7], toy_store []) = (Some out, sst')" by blast
  have "get_attr ?n ''from'' = Some ''1@g.us''" "get_attr ?n ''participant'' = Some ''8@s.whatsapp.net''"
    by (simp_all add: get_attr_delivered build_retry_receipt_def)
  with resend_goes_to_from [OF p h] p h show ?thesis by metis
qed

theorem resends_bounded_witness:
  "\<exists>outs sst'. handle_all toy_signal toy_codec_signal toy_device
      (replicate 20 (toy_env, \<lparr>rr_msg_id = ''M'', rr_device_jid = ''64.1@lid'', rr_count = 1, rr_bundle = None\<rparr>))
      (toy_retries [7], toy_store []) = (outs, sst') \<and>
    resends ''64.1@lid'' ''M''
      (replicate 20 (toy_env, \<lparr>rr_msg_id = ''M'', rr_device_jid = ''64.1@lid'', rr_count = 1, rr_bundle = None\<rparr>)) outs \<le> 9"
proof -
  let ?ers = "replicate 20 (toy_env, \<lparr>rr_msg_id = ''M'', rr_device_jid = ''64.1@lid'', rr_count = 1, rr_bundle = None\<rparr>)"
  obtain outs sst' where h: "handle_all toy_signal toy_codec_signal toy_device ?ers (toy_retries [7], toy_store []) = (outs, sst')"
    by (rule prod.exhaust)
  have "incoming_retry_counter (toy_retries [7]) = []" "length ?ers < 2 ^ 32" by (simp_all add: toy_retries_def)
  from resends_bounded [OF h this] h show ?thesis by blast
qed

theorem retry_receipts_escalate_witness:
  "\<exists>rs st'. undecryptable_all (\<lambda>_. toy_pair) None toy_device (replicate 6 toy_stanza) (toy_retries [], []) = (rs, st') \<and>
    answers_failure 3 (rs ! 3) \<and> answers_failure 5 (rs ! 5)"
proof -
  let ?ms = "replicate 6 toy_stanza"
  obtain rs st' where u: "undecryptable_all (\<lambda>_. toy_pair) None toy_device ?ms (toy_retries [], []) = (rs, st')"
    by (rule prod.exhaust)
  have h: "message_retries (toy_retries []) = []" "length ?ms < 2 ^ 32" "3 < length ?ms" "5 < length ?ms"
    by (simp_all add: toy_retries_def)
  show ?thesis
    using retry_receipts_escalate [OF u h(1-3)] retry_receipts_escalate [OF u h(1,2,4)] u by auto
qed

end
