(* ===== verification/Send_Stanza.thy ===== *)
theory Send_Stanza
  imports Retry
begin

text \<open>
  Sending a message (\<open>src/src/session.rs\<close>): the devices of a recipient, the stanza for a contact and for a
  group, the tokens that go with it, from the inner message to the node on the wire
  (\<open>encrypt_inner_proto_and_ship\<close> and \<open>send_group_message\<close> up to the point where they ship). The server's
  answers, protobuf, SHA-256, HMAC, base64 and what the generators draw are arguments.
\<close>

section \<open>Device lists\<close>

definition DEVICE_CACHE_TTL :: int where "DEVICE_CACHE_TTL = 3600"

type_synonym device_cache = "(string, string list \<times> int) rows"

definition device_cache_get :: "int \<Rightarrow> string \<Rightarrow> device_cache \<Rightarrow> string list option" where
  "device_cache_get now user_key cache =
    (case row_load cache user_key of
       Some (devices, fetched_at) \<Rightarrow> if now - fetched_at < DEVICE_CACHE_TTL then Some devices else None
     | None \<Rightarrow> None)"

definition device_cache_put :: "int \<Rightarrow> string \<Rightarrow> string list \<Rightarrow> device_cache \<Rightarrow> device_cache" where
  "device_cache_put now user_key devices cache = row_save cache user_key (devices, now)"

definition build_usync_devices_iq :: "string \<Rightarrow> string list \<Rightarrow> string \<Rightarrow> node" where
  "build_usync_devices_iq iq_id target_jids sid =
    Node ''iq'' (attr [(''id'', iq_id), (''type'', ''get''), (''xmlns'', ''usync''), (''to'', ''s.whatsapp.net'')])
      (CNodes [Node ''usync''
        (attr [(''sid'', sid), (''context'', ''message''), (''mode'', ''query''), (''last'', ''true''), (''index'', ''0'')])
        (CNodes [Node ''query'' [] (CNodes [Node ''devices'' (attr [(''version'', ''2'')]) CNone, Node ''lid'' [] CNone]),
          Node ''list'' [] (CNodes (map (\<lambda>j. Node ''user'' (attr [(''jid'', j)]) CNone) target_jids))])])"

definition device_jid_of :: "bool \<Rightarrow> string \<Rightarrow> nat \<Rightarrow> string" where
  "device_jid_of is_lid loc n =
    (if is_lid then (if n = 0 then loc @ ''.1@lid'' else loc @ ''.1:'' @ show_nat n @ ''@lid'')
     else (if n = 0 then loc @ ''@s.whatsapp.net'' else loc @ '':'' @ show_nat n @ ''@s.whatsapp.net''))"

definition usync_user_devices :: "node \<Rightarrow> string list" where
  "usync_user_devices user =
    (case get_attr user ''jid'' of
       None \<Rightarrow> []
     | Some user_jid \<Rightarrow>
       (let is_lid = ends_with user_jid ''@lid'';
            loc = (if is_lid then lid_user_part user_jid else takeWhile (\<lambda>c. c \<noteq> CHR ''@'') user_jid)
        in if loc = [] then []
           else
             concat (map (\<lambda>devices.
               let dl = children devices ''device-list''; holders = (if dl = [] then [devices] else dl)
               in concat (map (\<lambda>h. List.map_filter (\<lambda>d.
                    map_option (device_jid_of is_lid loc) (Option.bind (get_attr d ''id'') parse_u32)) (children h ''device'')) holders))
               (children user ''devices''))))"

definition parse_usync_devices_response :: "node \<Rightarrow> string list" where
  "parse_usync_devices_response iq =
    (case Option.bind (child iq ''usync'') (\<lambda>u. child u ''list'') of
       None \<Rightarrow> []
     | Some l \<Rightarrow> concat (map usync_user_devices (children l ''user'')))"

section \<open>What a stanza says of its content\<close>

text \<open>The fields of a decoded message that the attributes depend on; of the poll creation, whichever
  version carries it; audio with its \<open>ptt\<close>, video with its \<open>gif_playback\<close>.\<close>

record stanza_view =
  sv_reaction :: bool
  sv_enc_reaction :: bool
  sv_poll_creation :: bool
  sv_poll_update :: bool
  sv_image :: bool
  sv_video :: "bool option option"
  sv_audio :: "bool option option"
  sv_document :: bool
  sv_sticker :: bool
  sv_ptv :: bool

definition poll_meta_node :: "stanza_view option \<Rightarrow> node option" where
  "poll_meta_node view =
    Option.bind view (\<lambda>m.
      map_option (\<lambda>t. Node ''meta'' (attr [(''polltype'', t)]) CNone)
        (if sv_poll_update m then Some ''vote'' else if sv_poll_creation m then Some ''creation'' else None))"

definition msg_type_attr_for_inner :: "stanza_view option \<Rightarrow> string" where
  "msg_type_attr_for_inner view =
    (case view of
       None \<Rightarrow> ''text''
     | Some m \<Rightarrow>
       if sv_reaction m \<or> sv_enc_reaction m then ''reaction''
       else if sv_poll_creation m \<or> sv_poll_update m then ''poll''
       else if sv_image m \<or> sv_video m \<noteq> None \<or> sv_audio m \<noteq> None \<or> sv_document m \<or> sv_sticker m \<or> sv_ptv m then ''media''
       else ''text'')"

definition media_type_attr_for_inner :: "stanza_view option \<Rightarrow> string option" where
  "media_type_attr_for_inner view =
    Option.bind view (\<lambda>m.
      if sv_image m then Some ''image''
      else if sv_sticker m then Some ''sticker''
      else if sv_document m then Some ''document''
      else
        (case sv_audio m of
           Some ptt \<Rightarrow> Some (if or_default False ptt then ''ptt'' else ''audio'')
         | None \<Rightarrow>
           (case sv_video m of
              Some gif \<Rightarrow> Some (if or_default False gif then ''gif'' else ''video'')
            | None \<Rightarrow> None)))"

definition participant_list_hash_v2 :: "(bytes \<Rightarrow> bytes) \<Rightarrow> (bytes \<Rightarrow> string) \<Rightarrow> string list \<Rightarrow> string" where
  "participant_list_hash_v2 sha256 b64_no_pad device_jids =
    ''2:'' @ b64_no_pad (take 6 (sha256 (as_bytes (concat (sort (map jid_ad_string device_jids))))))"

definition generate_cs_token :: "(bytes \<Rightarrow> bytes \<Rightarrow> bytes) \<Rightarrow> bytes \<Rightarrow> string \<Rightarrow> bytes option" where
  "generate_cs_token hmac_sha256 nct_salt recipient_lid_user =
    (if nct_salt = [] \<or> recipient_lid_user = [] then None
     else Some (hmac_sha256 nct_salt (as_bytes (recipient_lid_user @ ''@lid''))))"

section \<open>Stanzas\<close>

definition mtype_attr :: "message_type \<Rightarrow> string" where
  "mtype_attr t = (case t of PreKey \<Rightarrow> ''pkmsg'' | Whisper \<Rightarrow> ''msg'')"

definition opt_attr :: "string \<Rightarrow> string option \<Rightarrow> (string \<times> string) list" where
  "opt_attr k v = (case v of Some x \<Rightarrow> [(k, x)] | None \<Rightarrow> [])"

definition to_node :: "string option \<Rightarrow> string option \<Rightarrow> encrypted_recipient \<Rightarrow> node" where
  "to_node edit media_type r =
    Node ''to'' (attr [(''jid'', er_jid r)])
      (CNodes [Node ''enc''
        (attr ([(''v'', ''2''), (''type'', mtype_attr (er_message_type r))] @
          (if edit \<noteq> None then [(''decrypt-fail'', ''hide'')] else []) @ opt_attr ''mediatype'' media_type))
        (CBytes (er_ciphertext r))])"

definition build_message_node ::
  "(string list \<Rightarrow> string) \<Rightarrow> string \<Rightarrow> string \<Rightarrow> encrypted_recipient list \<Rightarrow> int \<Rightarrow> string option \<Rightarrow> string option \<Rightarrow>
    string option \<Rightarrow> string \<Rightarrow> string option \<Rightarrow> node" where
  "build_message_node phash msg_id chat_jid recipients timestamp edit addressing_mode own_phash_device msg_type media_type =
    Node ''message''
      (attr ([(''id'', msg_id), (''type'', msg_type), (''to'', chat_jid)] @
        (if addressing_mode = None then [(''t'', show_int timestamp)] else []) @ opt_attr ''edit'' edit @
        opt_attr ''addressing_mode'' addressing_mode @
        (if addressing_mode \<noteq> None \<and> recipients \<noteq> [] then
           (let jids = map er_jid recipients;
                jids = (case own_phash_device of Some own \<Rightarrow> if own \<in> set jids then jids else jids @ [own] | None \<Rightarrow> jids)
            in [(''phash'', phash jids)])
         else [])))
      (CNodes [Node ''participants'' [] (CNodes (map (to_node edit media_type) recipients))])"

definition build_group_message_node ::
  "string \<Rightarrow> string \<Rightarrow> encrypted_recipient list \<Rightarrow> bytes \<Rightarrow> int \<Rightarrow> bytes option \<Rightarrow> string option \<Rightarrow> stanza_view option \<Rightarrow> node" where
  "build_group_message_node msg_id group_jid recipients skmsg timestamp account_pb edit view =
    Node ''message''
      (attr ([(''id'', msg_id), (''type'', msg_type_attr_for_inner view), (''to'', group_jid), (''t'', show_int timestamp)] @
        opt_attr ''edit'' edit))
      (CNodes ([Node ''participants'' [] (CNodes (map (to_node edit None) recipients)),
         Node ''enc'' (attr ([(''v'', ''2''), (''type'', ''skmsg'')] @ opt_attr ''mediatype'' (media_type_attr_for_inner view)))
           (CBytes skmsg)] @
         (case account_pb of Some pb \<Rightarrow> [bytes_child ''device-identity'' pb] | None \<Rightarrow> []) @
         (case poll_meta_node view of Some m \<Rightarrow> [m] | None \<Rightarrow> [])))"

definition build_peer_message_node :: "string \<Rightarrow> string \<Rightarrow> encrypted_recipient \<Rightarrow> bytes option \<Rightarrow> node" where
  "build_peer_message_node to_bare msg_id rec account_pb =
    Node ''message'' (attr [(''id'', msg_id), (''type'', ''text''), (''category'', ''peer''), (''to'', to_bare)])
      (CNodes ([Node ''meta'' (attr [(''appdata'', ''default'')]) CNone,
        Node ''enc'' (attr [(''v'', ''2''), (''type'', mtype_attr (er_message_type rec))]) (CBytes (er_ciphertext rec))] @
        (case (er_message_type rec, account_pb) of
           (PreKey, Some pb) \<Rightarrow> [bytes_child ''device-identity'' pb] | _ \<Rightarrow> [])))"

definition push_child :: "node \<Rightarrow> node \<Rightarrow> node" where
  "push_child c n = (case node_content n of CNodes ns \<Rightarrow> Node (tag n) (node_attrs n) (CNodes (ns @ [c])) | _ \<Rightarrow> n)"

definition push_opt :: "node option \<Rightarrow> node \<Rightarrow> node" where
  "push_opt c n = (case c of Some c \<Rightarrow> push_child c n | None \<Rightarrow> n)"

section \<open>Group metadata\<close>

definition build_group_info_iq :: "string \<Rightarrow> string \<Rightarrow> node" where
  "build_group_info_iq iq_id group_jid =
    Node ''iq'' (attr [(''id'', iq_id), (''type'', ''get''), (''xmlns'', ''w:g2''), (''to'', group_jid)])
      (CNodes [Node ''query'' (attr [(''request'', ''interactive'')]) CNone])"

definition parse_group_info_response :: "node \<Rightarrow> string list" where
  "parse_group_info_response iq =
    (case child iq ''group'' of
       None \<Rightarrow> []
     | Some g \<Rightarrow> List.map_filter (\<lambda>p. get_attr p ''jid'') (children g ''participant''))"

definition participant_lid_pn :: "node \<Rightarrow> (string \<times> string) option" where
  "participant_lid_pn p =
    (case (get_attr p ''jid'', get_attr p ''phone_number'') of
       (Some jid, Some phone) \<Rightarrow>
         (if ends_with jid ''@lid'' then Some (jid, phone) else if ends_with phone ''@lid'' then Some (phone, jid) else None)
     | _ \<Rightarrow> None)"

definition capture_group_participant_lids :: "int \<Rightarrow> node \<Rightarrow> whisper_store \<Rightarrow> whisper_store" where
  "capture_group_participant_lids now iq st =
    (case child iq ''group'' of
       None \<Rightarrow> st
     | Some g \<Rightarrow>
       fold (\<lambda>p st. case participant_lid_pn p of
           None \<Rightarrow> st
         | Some (lid_jid, pn_jid) \<Rightarrow>
           (let lu = lid_user_part lid_jid; pu = lid_user_part pn_jid
            in if lu \<noteq> [] \<and> pu \<noteq> [] then lid_pn_put lu pu now st else st)) (children g ''participant'') st)"

end
