(* ===== verification/Message_Rows.thy ===== *)
theory Message_Rows
  imports Rows
begin

text \<open>
  The message rows of one session (\<open>src/src/store.rs\<close>, methods \<open>message_insert\<close> to
  \<open>messages_mark_self_from_me\<close>, alike for both backends): deduplication and the healing of placeholders,
  edits, revokes, and the two ways to set a status. A database that answers is modelled; pruning, media
  paths and the merged payloads are not.
\<close>

record message_row =
  mr_sender :: string
  mr_from_me :: bool
  mr_timestamp :: int
  mr_type :: string
  mr_body :: "string option"
  mr_payload :: string
  mr_status :: string
  mr_edited :: bool
  mr_revoked :: bool

text \<open>Keyed by chat and message id.\<close>

type_synonym message_table = "(string \<times> string, message_row) rows"

record new_message =
  nm_chat :: string
  nm_id :: string
  nm_sender :: string
  nm_from_me :: bool
  nm_timestamp :: int
  nm_type :: string
  nm_body :: "string option"
  nm_payload :: string
  nm_status :: "string option"

definition row_of :: "new_message \<Rightarrow> message_row" where
  "row_of m =
    \<lparr>mr_sender = nm_sender m, mr_from_me = nm_from_me m, mr_timestamp = nm_timestamp m, mr_type = nm_type m,
     mr_body = nm_body m, mr_payload = nm_payload m, mr_status = or_default ''received'' (nm_status m),
     mr_edited = False, mr_revoked = False\<rparr>"

definition UNDECRYPTABLE :: string where "UNDECRYPTABLE = ''undecryptable''"

text \<open>\<open>None\<close> is the error of the unique key.\<close>

definition message_insert :: "new_message \<Rightarrow> bool \<Rightarrow> message_table \<Rightarrow> message_table option" where
  "message_insert m ignore_conflict t =
    (case row_load t (nm_chat m, nm_id m) of
       None \<Rightarrow> Some (row_save t (nm_chat m, nm_id m) (row_of m))
     | Some old \<Rightarrow>
       if \<not> ignore_conflict then None
       else if mr_type old = UNDECRYPTABLE \<and> nm_type m \<noteq> UNDECRYPTABLE then
         Some (row_save t (nm_chat m, nm_id m)
           (old\<lparr>mr_type := nm_type m, mr_body := nm_body m, mr_payload := nm_payload m\<rparr>))
       else Some t)"

definition message_type_get :: "string \<Rightarrow> string \<Rightarrow> message_table \<Rightarrow> string option" where
  "message_type_get chat_jid message_id t = map_option mr_type (row_load t (chat_jid, message_id))"

text \<open>One transaction; the count is of the rows that went in.\<close>

fun messages_insert_batch :: "new_message list \<Rightarrow> bool \<Rightarrow> message_table \<Rightarrow> (nat \<times> message_table) option" where
  "messages_insert_batch [] ignore_conflict t = Some (0, t)"
| "messages_insert_batch (m # ms) ignore_conflict t =
    (case row_load t (nm_chat m, nm_id m) of
       None \<Rightarrow>
         map_option (\<lambda>(n, t). (Suc n, t))
           (messages_insert_batch ms ignore_conflict (row_save t (nm_chat m, nm_id m) (row_of m)))
     | Some _ \<Rightarrow> if ignore_conflict then messages_insert_batch ms ignore_conflict t else None)"

text \<open>\<open>UPDATE\<close> where the id matches, in any chat; whether a row was touched.\<close>

definition update_rows :: "(string \<times> string \<Rightarrow> message_row \<Rightarrow> bool) \<Rightarrow> (message_row \<Rightarrow> message_row) \<Rightarrow> message_table \<Rightarrow> bool \<times> message_table" where
  "update_rows p f t = (list_ex (\<lambda>(k, r). p k r) t, map (\<lambda>(k, r). (k, if p k r then f r else r)) t)"

definition message_mark_edited :: "string \<Rightarrow> string option \<Rightarrow> message_table \<Rightarrow> bool \<times> message_table" where
  "message_mark_edited message_id new_body t =
    update_rows (\<lambda>k _. snd k = message_id)
      (\<lambda>r. (case new_body of Some b \<Rightarrow> r\<lparr>mr_body := Some b, mr_edited := True\<rparr> | None \<Rightarrow> r\<lparr>mr_edited := True\<rparr>)) t"

definition message_mark_revoked :: "string \<Rightarrow> message_table \<Rightarrow> bool \<times> message_table" where
  "message_mark_revoked message_id t =
    update_rows (\<lambda>k _. snd k = message_id) (\<lambda>r. r\<lparr>mr_revoked := True, mr_body := None\<rparr>) t"

definition message_set_status :: "string \<Rightarrow> string \<Rightarrow> message_table \<Rightarrow> message_table" where
  "message_set_status message_id s t = snd (update_rows (\<lambda>k _. snd k = message_id) (\<lambda>r. r\<lparr>mr_status := s\<rparr>) t)"

definition status_rank :: "string \<Rightarrow> nat" where
  "status_rank s =
    (if s = ''sent'' then 1 else if s = ''delivered'' then 2 else if s = ''read'' then 3
     else if s = ''failed'' then 4 else 0)"

definition message_advance_status :: "string \<Rightarrow> string \<Rightarrow> message_table \<Rightarrow> bool \<times> message_table" where
  "message_advance_status message_id s t =
    update_rows (\<lambda>k r. snd k = message_id \<and> status_rank s > status_rank (mr_status r)) (\<lambda>r. r\<lparr>mr_status := s\<rparr>) t"

definition messages_mark_self_from_me :: "string \<Rightarrow> string option \<Rightarrow> message_table \<Rightarrow> nat \<times> message_table" where
  "messages_mark_self_from_me own_pn_user own_lid_user t =
    (let pn = own_pn_user @ ''@s.whatsapp.net'';
         lid = (case own_lid_user of Some l \<Rightarrow> l @ ''@lid'' | None \<Rightarrow> []);
         p = (\<lambda>r. \<not> mr_from_me r \<and> mr_sender r \<in> {pn, lid})
     in (length (filter (\<lambda>(k, r). p r) t), map (\<lambda>(k, r). (k, if p r then r\<lparr>mr_from_me := True\<rparr> else r)) t))"

section \<open>Deliveries of one message\<close>

primrec deliver_rows :: "new_message list \<Rightarrow> message_table \<Rightarrow> message_table option" where
  "deliver_rows [] t = Some t"
| "deliver_rows (m # ms) t = Option.bind (message_insert m True t) (deliver_rows ms)"

definition heal :: "message_row \<Rightarrow> new_message \<Rightarrow> message_row" where
  "heal r m =
    (if mr_type r = UNDECRYPTABLE \<and> nm_type m \<noteq> UNDECRYPTABLE
     then r\<lparr>mr_type := nm_type m, mr_body := nm_body m, mr_payload := nm_payload m\<rparr> else r)"

lemma insert_known:
  assumes "row_load t (nm_chat m, nm_id m) = Some r"
  shows "\<exists>t'. message_insert m True t = Some t' \<and> row_load t' (nm_chat m, nm_id m) = Some (heal r m)"
  using assms by (simp add: message_insert_def heal_def rows.load_save)

lemma deliver_known:
  assumes "row_load t (ch, i) = Some r" "\<forall>m \<in> set ms. nm_chat m = ch \<and> nm_id m = i"
  shows "\<exists>t'. deliver_rows ms t = Some t' \<and> row_load t' (ch, i) = Some (foldl heal r ms)"
  using assms
proof (induction ms arbitrary: t r)
  case (Cons m ms)
  have k: "nm_chat m = ch" "nm_id m = i" and ms: "\<forall>m \<in> set ms. nm_chat m = ch \<and> nm_id m = i"
    using Cons.prems(2) by simp_all
  obtain t1 where t1: "message_insert m True t = Some t1" "row_load t1 (ch, i) = Some (heal r m)"
    using insert_known [of t m r, unfolded k, OF Cons.prems(1)] by blast
  show ?case using Cons.IH [OF t1(2) ms] by (simp add: t1(1))
qed simp

lemma heal_readable: "mr_type r \<noteq> UNDECRYPTABLE \<Longrightarrow> foldl heal r ms = r"
  by (induction ms) (simp_all add: heal_def)

lemma foldl_heal:
  "mr_type r = UNDECRYPTABLE \<Longrightarrow> foldl heal r ms =
    (case find (\<lambda>m. nm_type m \<noteq> UNDECRYPTABLE) ms of
       Some m \<Rightarrow> r\<lparr>mr_type := nm_type m, mr_body := nm_body m, mr_payload := nm_payload m\<rparr> | None \<Rightarrow> r)"
proof (induction ms)
  case (Cons m ms)
  show ?case
  proof (cases "nm_type m = UNDECRYPTABLE")
    case True
    then have "heal r m = r" by (simp add: heal_def)
    then show ?thesis using Cons True by simp
  next
    case False
    then have "mr_type (heal r m) \<noteq> UNDECRYPTABLE" using Cons.prems by (simp add: heal_def)
    then show ?thesis using False Cons.prems by (simp add: heal_readable) (simp add: heal_def)
  qed
qed simp

text \<open>C40: Whatever deliveries of a message come, and however often, its row keeps sender, time and status of the first
  one, and shows the content of the first one that could be decrypted, or the placeholder when none could.\<close>

theorem first_readable_kept:
  assumes "ms \<noteq> []" "\<forall>m \<in> set ms. nm_chat m = ch \<and> nm_id m = i" "row_load t (ch, i) = None"
  defines "shown \<equiv> or_default (hd ms) (find (\<lambda>m. nm_type m \<noteq> UNDECRYPTABLE) ms)"
  shows "\<exists>t'. deliver_rows ms t = Some t' \<and>
    row_load t' (ch, i) = Some ((row_of (hd ms))\<lparr>mr_type := nm_type shown, mr_body := nm_body shown, mr_payload := nm_payload shown\<rparr>)"
proof -
  obtain m ns where ms: "ms = m # ns" using assms(1) by (cases ms) auto
  have k: "nm_chat m = ch" "nm_id m = i" using assms(2) ms by simp_all
  have ins: "message_insert m True t = Some (row_save t (ch, i) (row_of m))"
    using assms(3) by (simp add: message_insert_def k)
  have row: "row_of m = (row_of m)\<lparr>mr_type := nm_type m, mr_body := nm_body m, mr_payload := nm_payload m\<rparr>"
    by (simp add: row_of_def)
  have ty: "mr_type (row_of m) = nm_type m" by (simp add: row_of_def)
  have "foldl heal (row_of m) ns =
      (row_of m)\<lparr>mr_type := nm_type shown, mr_body := nm_body shown, mr_payload := nm_payload shown\<rparr>"
  proof (cases "nm_type m = UNDECRYPTABLE")
    case True
    then show ?thesis using foldl_heal [of "row_of m" ns] ty row by (simp add: shown_def ms or_default_def split: option.split)
  next
    case False
    then show ?thesis using heal_readable [of "row_of m" ns] ty row by (simp add: shown_def ms or_default_def)
  qed
  moreover have "row_load (row_save t (ch, i) (row_of m)) (ch, i) = Some (row_of m)" by (simp add: rows.load_save)
  moreover have "\<forall>m \<in> set ns. nm_chat m = ch \<and> nm_id m = i" using assms(2) by (simp add: ms)
  ultimately obtain t' where "deliver_rows ns (row_save t (ch, i) (row_of m)) = Some t'"
    "row_load t' (ch, i) = Some ((row_of m)\<lparr>mr_type := nm_type shown, mr_body := nm_body shown, mr_payload := nm_payload shown\<rparr>)"
    using deliver_known by metis
  then show ?thesis by (simp add: ms ins)
qed

section \<open>Statuses\<close>

lemma advance_row:
  "row_load (snd (message_advance_status i s t)) (ch, i) =
    map_option (\<lambda>r. if status_rank s > status_rank (mr_status r) then r\<lparr>mr_status := s\<rparr> else r) (row_load t (ch, i))"
  unfolding message_advance_status_def update_rows_def row_load_def by (induction t) auto

lemma advance_changed:
  "fst (message_advance_status i s t) \<longleftrightarrow> (\<exists>ch r. ((ch, i), r) \<in> set t \<and> status_rank s > status_rank (mr_status r))"
  by (force simp: message_advance_status_def update_rows_def list_ex_iff)

primrec advance_all :: "string \<Rightarrow> string list \<Rightarrow> message_table \<Rightarrow> message_table" where
  "advance_all i [] t = t"
| "advance_all i (s # ss) t = advance_all i ss (snd (message_advance_status i s t))"

lemma advance_all_rank:
  assumes "row_load t (ch, i) = Some r"
  shows "\<exists>s. row_load (advance_all i ss t) (ch, i) = Some (r\<lparr>mr_status := s\<rparr>) \<and> s \<in> insert (mr_status r) (set ss) \<and>
    (\<forall>x \<in> insert (mr_status r) (set ss). status_rank x \<le> status_rank s)"
  using assms
proof (induction ss arbitrary: t r)
  case Nil
  then show ?case by (intro exI [of _ "mr_status r"]) simp
next
  case (Cons x ss)
  let ?r = "if status_rank x > status_rank (mr_status r) then r\<lparr>mr_status := x\<rparr> else r"
  have "row_load (snd (message_advance_status i x t)) (ch, i) = Some ?r" using Cons.prems by (simp add: advance_row)
  from Cons.IH [OF this] show ?case by (auto split: if_splits)
qed

text \<open>A feed of statuses that is neither ordered nor free of repeats leaves the row at the highest one that was
  ever reported (or at what it had, if that is higher), and nothing else of the row changes.\<close>

theorem status_feed_any_order:
  assumes "row_load t (ch, i) = Some r" "set ss = set ss'" "\<forall>x \<in> insert (mr_status r) (set ss). status_rank x > 0"
  shows "\<exists>s. row_load (advance_all i ss t) (ch, i) = Some (r\<lparr>mr_status := s\<rparr>) \<and>
    row_load (advance_all i ss' t) (ch, i) = Some (r\<lparr>mr_status := s\<rparr>) \<and>
    (\<forall>x \<in> insert (mr_status r) (set ss). status_rank x \<le> status_rank s)"
proof -
  obtain s where s: "row_load (advance_all i ss t) (ch, i) = Some (r\<lparr>mr_status := s\<rparr>)" "s \<in> insert (mr_status r) (set ss)"
    "\<forall>x \<in> insert (mr_status r) (set ss). status_rank x \<le> status_rank s"
    using advance_all_rank [OF assms(1), of ss] by blast
  obtain s' where s': "row_load (advance_all i ss' t) (ch, i) = Some (r\<lparr>mr_status := s'\<rparr>)" "s' \<in> insert (mr_status r) (set ss')"
    "\<forall>x \<in> insert (mr_status r) (set ss'). status_rank x \<le> status_rank s'"
    using advance_all_rank [OF assms(1), of ss'] by blast
  have "status_rank s = status_rank s'" using s(2,3) s'(2,3) assms(2) by (metis antisym)
  moreover have "status_rank s > 0" "status_rank s' > 0" using s(2) s'(2) assms(2,3) by auto
  ultimately have "s = s'" by (auto simp: status_rank_def split: if_splits)
  then show ?thesis using s s'(1) by blast
qed

section \<open>Instances\<close>

definition toy_message :: "string \<Rightarrow> string \<Rightarrow> new_message" where
  "toy_message ty b = \<lparr>nm_chat = ''c'', nm_id = ''m'', nm_sender = ''s'', nm_from_me = False, nm_timestamp = 1, nm_type = ty,
    nm_body = Some b, nm_payload = ''{}'', nm_status = None\<rparr>"

theorem first_readable_kept_witness:
  "\<exists>t'. deliver_rows [toy_message UNDECRYPTABLE ''?'', toy_message ''text'' ''a'', toy_message ''text'' ''b''] [] = Some t' \<and>
    map_option mr_body (row_load t' (''c'', ''m'')) = Some (Some ''a'')"
proof -
  let ?ms = "[toy_message UNDECRYPTABLE ''?'', toy_message ''text'' ''a'', toy_message ''text'' ''b'']"
  have "?ms \<noteq> []" "\<forall>m \<in> set ?ms. nm_chat m = ''c'' \<and> nm_id m = ''m''" "row_load [] (''c'', ''m'') = None"
    by (simp_all add: toy_message_def row_load_def)
  from first_readable_kept [OF this] show ?thesis
    by (auto simp: toy_message_def UNDECRYPTABLE_def or_default_def)
qed

theorem status_feed_any_order_witness:
  "\<exists>t s. row_load (advance_all ''m'' [''read'', ''delivered''] t) (''c'', ''m'') = Some ((row_of (toy_message ''text'' ''a''))\<lparr>mr_status := s\<rparr>) \<and>
    row_load (advance_all ''m'' [''delivered'', ''read'', ''delivered''] t) (''c'', ''m'') = Some ((row_of (toy_message ''text'' ''a''))\<lparr>mr_status := s\<rparr>)"
proof -
  let ?r = "(row_of (toy_message ''text'' ''a''))\<lparr>mr_status := ''sent''\<rparr>"
  have "row_load [((''c'', ''m''), ?r)] (''c'', ''m'') = Some ?r" "set [''read'', ''delivered''] = set [''delivered'', ''read'', ''delivered'']"
    "\<forall>x \<in> insert (mr_status ?r) (set [''read'', ''delivered'']). status_rank x > 0"
    by (auto simp: row_load_def status_rank_def)
  from status_feed_any_order [OF this] show ?thesis by auto
qed

end
