(* ===== verification/Outbound.thy ===== *)
theory Outbound
  imports Send_Stanza Message_Rows
begin

text \<open>
  The way of an outgoing message through a session (\<open>src/src/session.rs\<close>): the persisted queue and the
  channel, the pump that takes operations off it, the preparation of a stanza for a contact or a group, its
  shipping, and the server's acks. The pump may run or stand still at any time, and so may the pump of a
  connection that is gone; uploads, protobuf and JSON are arguments.
\<close>

section \<open>Operations\<close>

datatype send_op =
    Text (op_chat: string) (op_id: string) (op_text: string) (op_time: int)
  | Media (op_chat: string) (op_id: string) (op_kind: string) (op_file: string) (op_mime: string)
      (op_caption: "string option") (op_filename: "string option") (op_mentions: "string list") (op_time: int)
  | RawNode node
  | EncryptedInner (op_chat: string) (op_id: string) (op_inner: bytes) (op_time: int)
  | PeerHistoryRequest string string bool int u32

datatype persisted_op =
    PText string string string int
  | PMedia string string string string string "string option" "string option" "string list" int
  | PEncryptedInner string string bytes int

definition from_send_op :: "send_op \<Rightarrow> persisted_op option" where
  "from_send_op p =
    (case p of
       Text c i t ts \<Rightarrow> Some (PText c i t ts)
     | Media c i k f mi cap fn me ts \<Rightarrow> Some (PMedia c i k f mi cap fn me ts)
     | EncryptedInner c i b ts \<Rightarrow> Some (PEncryptedInner c i b ts)
     | RawNode _ \<Rightarrow> None
     | PeerHistoryRequest _ _ _ _ _ \<Rightarrow> None)"

definition into_send_op :: "persisted_op \<Rightarrow> send_op" where
  "into_send_op p =
    (case p of
       PText c i t ts \<Rightarrow> Text c i t ts
     | PMedia c i k f mi cap fn me ts \<Rightarrow> Media c i k f mi cap fn me ts
     | PEncryptedInner c i b ts \<Rightarrow> EncryptedInner c i b ts)"

definition persisted_msg_id :: "persisted_op \<Rightarrow> string" where
  "persisted_msg_id p =
    (case p of PText _ i _ _ \<Rightarrow> i | PMedia _ i _ _ _ _ _ _ _ \<Rightarrow> i | PEncryptedInner _ i _ _ \<Rightarrow> i)"

text \<open>The queue by message id: the operation as JSON and when it was accepted.\<close>

type_synonym outbound_queue = "(string, string \<times> int) rows"

definition outbound_queue_upsert :: "string \<Rightarrow> string \<Rightarrow> int \<Rightarrow> outbound_queue \<Rightarrow> outbound_queue" where
  "outbound_queue_upsert msg_id op_json created_at q = row_save q msg_id (op_json, created_at)"

definition outbound_queue_delete :: "string \<Rightarrow> outbound_queue \<Rightarrow> outbound_queue" where
  "outbound_queue_delete msg_id q = row_delete q msg_id"

definition outbound_queue_drain :: "outbound_queue \<Rightarrow> string list" where
  "outbound_queue_drain q = map (\<lambda>(i, j, c). j) (sort_key (\<lambda>(i, j, c). c) (sort_key fst q))"

section \<open>State\<close>

record send_env =
  se_c :: signal_crypto
  se_pb :: signal_codec
  se_spb :: sender_key_codec
  se_keys :: device_keys
  se_ask :: "nat \<Rightarrow> node \<Rightarrow> node option"
  se_iq_id :: "nat \<Rightarrow> string"
  se_sid :: "nat \<Rightarrow> string"
  se_gens :: "nat \<Rightarrow> nat \<Rightarrow> key_pair \<times> key_pair"
  se_fresh :: "nat \<Rightarrow> nat \<Rightarrow> bytes \<times> bytes"
  se_pad :: "nat \<Rightarrow> u8"
  se_sk_new :: sender_key_state
  se_wrap :: "bytes \<Rightarrow> string \<Rightarrow> bytes option"
  se_inner_view :: "bytes \<Rightarrow> inner_view option"
  se_view :: "bytes \<Rightarrow> stanza_view option"
  se_skdm :: "string \<Rightarrow> bytes \<Rightarrow> bytes"
  se_text :: "string \<Rightarrow> bytes"
  se_media :: "send_op \<Rightarrow> bytes option"
  se_history :: "string \<Rightarrow> string \<Rightarrow> bool \<Rightarrow> int \<Rightarrow> u32 \<Rightarrow> bytes"
  se_sha256 :: "bytes \<Rightarrow> bytes"
  se_b64 :: "bytes \<Rightarrow> string"
  se_account_pb :: "bytes option"
  se_nct_salt :: "bytes option"
  se_token :: "string \<Rightarrow> (bytes \<times> int) option"
  se_own_jid :: "string option"
  se_modern :: bool
  se_now :: int
  se_req_id :: string
  se_to_json :: "persisted_op \<Rightarrow> string"
  se_of_json :: "string \<Rightarrow> persisted_op option"

text \<open>What a send changes before it ships: \<open>ss_n\<close> counts the requests to the server.\<close>

record send_state =
  ss_n :: nat
  ss_cache :: device_cache
  ss_retry :: retry_state
  ss_whisper :: whisper_store

datatype ship_error = EncryptError send_error | GroupMetadata | NoParticipants | NoParticipantDevices | SkmsgEncrypt | MediaFailed

section \<open>Preparing a stanza\<close>

definition resolve_device_jids :: "send_env \<Rightarrow> string \<Rightarrow> send_state \<Rightarrow> string list \<times> send_state" where
  "resolve_device_jids env chat_jid st =
    (case device_cache_get (se_now env) chat_jid (ss_cache st) of
       Some cached \<Rightarrow> (cached, st)
     | None \<Rightarrow>
       (let n = ss_n st; st = st\<lparr>ss_n := Suc n\<rparr>
        in case se_ask env n (build_usync_devices_iq (se_iq_id env n) [chat_jid] (se_sid env n)) of
             Some reply \<Rightarrow>
               (let devices = parse_usync_devices_response reply;
                    resolved = (if devices = [] then [chat_jid] else devices)
                in (resolved, st\<lparr>ss_cache := device_cache_put (se_now env) chat_jid resolved (ss_cache st)\<rparr>))
           | None \<Rightarrow> ([chat_jid], st)))"

definition encrypt_devices ::
  "send_env \<Rightarrow> string list \<Rightarrow> bytes \<Rightarrow> bytes \<Rightarrow> string option \<Rightarrow> send_state \<Rightarrow>
    (send_error, encrypted_recipient list) outcome \<times> send_state" where
  "encrypt_devices env jids padded padded_own own_user st =
    (let n = ss_n st
     in case encrypt_per_device (se_c env) (se_pb env) (se_keys env)
          (\<lambda>ds. map_option parse_prekey_fetch_response (se_ask env n (build_prekey_fetch_iq ds (se_iq_id env n))))
          (se_gens env n) (se_fresh env n) jids padded padded_own own_user (ss_whisper st) of
          (res, w) \<Rightarrow> (res, st\<lparr>ss_n := Suc n, ss_whisper := w\<rparr>))"

text \<open>The identity for storage and events, the address on the wire, and whether that is a LID.\<close>

definition address_contact :: "send_env \<Rightarrow> string \<Rightarrow> send_state \<Rightarrow> (string \<times> string \<times> bool) \<times> send_state" where
  "address_contact env chat_jid st =
    (let ((event_chat, as_lid), st) =
       (if ends_with chat_jid ''@lid'' then
          (case resolve_device_jids env chat_jid st of
             (lid_devices, st) \<Rightarrow>
               (if se_modern env \<and> (\<exists>d \<in> set lid_devices. d \<noteq> chat_jid) then ((chat_jid, True), st)
                else
                  (case lid_to_pn (ss_whisper st) (lid_user_part chat_jid) of
                     Some pn \<Rightarrow> ((pn @ ''@s.whatsapp.net'', False), st)
                   | None \<Rightarrow> ((chat_jid, False), st))))
        else ((chat_jid, False), st))
     in if se_modern env \<and> \<not> as_lid \<and> ends_with event_chat ''@s.whatsapp.net'' then
          (case pn_to_lid (ss_whisper st) (jid_user event_chat) of
             Some lid \<Rightarrow>
               (case resolve_device_jids env (lid @ ''@lid'') st of
                  (lid_devices, st) \<Rightarrow>
                    (if \<exists>d \<in> set lid_devices. d \<noteq> lid @ ''@lid'' then ((event_chat, lid @ ''@lid'', True), st)
                     else ((event_chat, event_chat, False), st)))
           | None \<Rightarrow> ((event_chat, event_chat, False), st))
        else ((event_chat, event_chat, as_lid), st))"

definition add_missing :: "string list \<Rightarrow> string list \<Rightarrow> string list" where
  "add_missing ds more_ds = foldl (\<lambda>acc d. if d \<in> set acc then acc else acc @ [d]) ds more_ds"

definition contact_devices :: "send_env \<Rightarrow> string \<Rightarrow> bool \<Rightarrow> send_state \<Rightarrow> string list \<times> send_state" where
  "contact_devices env wire_jid as_lid st =
    (case resolve_device_jids env wire_jid st of
       (ds, st) \<Rightarrow>
         (case se_own_jid env of
            None \<Rightarrow> (ds, st)
          | Some own \<Rightarrow>
            (let (ds, st) =
               (if \<not> as_lid \<and> jid_user wire_jid \<noteq> jid_user own then
                  (case resolve_device_jids env (jid_user own @ ''@s.whatsapp.net'') st of
                     (os, st) \<Rightarrow> (add_missing ds os, st))
                else (ds, st))
             in (filter (\<lambda>d. d \<noteq> own) ds, st))))"

text \<open>\<open>own.split(':').nth(1)\<close>, up to the \<open>@\<close>.\<close>

definition own_device_number :: "string \<Rightarrow> string option" where
  "own_device_number own =
    map_option (\<lambda>(_, rest). takeWhile (\<lambda>ch. ch \<noteq> CHR ''@'') (takeWhile (\<lambda>ch. ch \<noteq> CHR '':'') rest)) (split_once (CHR '':'') own)"

definition self_forms :: "string \<Rightarrow> string \<Rightarrow> string list" where
  "self_forms own own_lid =
    (case own_device_number own of
       Some dev \<Rightarrow> [own_lid @ ''.1:'' @ dev @ ''@lid''] @ (if dev = ''0'' then [own_lid @ ''.1@lid''] else [])
     | None \<Rightarrow> [own_lid @ ''.1@lid''])"

definition own_pn_user :: "send_env \<Rightarrow> string option" where
  "own_pn_user env = map_option jid_user (se_own_jid env)"

definition own_lid_user :: "send_env \<Rightarrow> send_state \<Rightarrow> string option" where
  "own_lid_user env st = Option.bind (own_pn_user env) (pn_to_lid (ss_whisper st))"

definition echo_to_own_lids ::
  "send_env \<Rightarrow> bytes \<Rightarrow> encrypted_recipient list \<Rightarrow> send_state \<Rightarrow> encrypted_recipient list \<times> send_state" where
  "echo_to_own_lids env padded_own recipients st =
    (case (se_own_jid env, own_lid_user env st) of
       (Some own, Some own_lid) \<Rightarrow>
         (case resolve_device_jids env (own_lid @ ''@lid'') st of
            (ds, st) \<Rightarrow>
              (let ds = filter (\<lambda>d. d \<noteq> own_lid @ ''@lid'' \<and> d \<notin> set (self_forms own own_lid)) ds
               in if ds = [] then (recipients, st)
                  else
                    (case encrypt_devices env ds padded_own padded_own (Some own_lid) st of
                       (Ok own_recips, st) \<Rightarrow> (recipients @ own_recips, st)
                     | (_, st) \<Rightarrow> (recipients, st))))
     | _ \<Rightarrow> (recipients, st))"

definition dedup_recipients :: "encrypted_recipient list \<Rightarrow> encrypted_recipient list" where
  "dedup_recipients rs = foldl (\<lambda>acc r. if er_jid r \<in> er_jid ` set acc then acc else acc @ [r]) [] rs"

definition own_phash_device :: "send_env \<Rightarrow> bool \<Rightarrow> send_state \<Rightarrow> string option" where
  "own_phash_device env as_lid st =
    (case se_own_jid env of
       None \<Rightarrow> None
     | Some own \<Rightarrow>
       if as_lid then map_option (\<lambda>lid. lid @ ''.1:'' @ or_default ''0'' (own_device_number own) @ ''@lid'') (own_lid_user env st)
       else Some own)"

definition cs_token_node :: "send_env \<Rightarrow> string \<Rightarrow> string \<Rightarrow> send_state \<Rightarrow> node option" where
  "cs_token_node env wire_jid event_chat st =
    (let lid_user = (if \<not> se_modern env then None
         else if ends_with wire_jid ''@lid'' then Some (lid_user_part wire_jid)
         else pn_to_lid (ss_whisper st) (jid_user event_chat))
     in case (lid_user, se_nct_salt env) of
          (Some u, Some salt) \<Rightarrow> map_option (bytes_child ''cstoken'') (generate_cs_token (hmac (se_c env)) salt u)
        | _ \<Rightarrow> None)"

definition set_attr :: "string \<Rightarrow> string \<Rightarrow> node \<Rightarrow> node" where
  "set_attr k v n = Node (tag n) (attrs_insert k v (node_attrs n)) (node_content n)"

definition contact_node ::
  "send_env \<Rightarrow> string \<Rightarrow> string \<Rightarrow> string \<Rightarrow> bool \<Rightarrow> bytes \<Rightarrow> int \<Rightarrow> encrypted_recipient list \<Rightarrow> send_state \<Rightarrow> node" where
  "contact_node env msg_id event_chat wire_jid as_lid inner timestamp recipients st =
    (let view = se_view env inner;
         n = build_message_node (participant_list_hash_v2 (se_sha256 env) (se_b64 env)) msg_id wire_jid recipients timestamp
               (edit_attribute_for_inner (se_inner_view env inner)) (if as_lid then Some ''lid'' else None)
               (own_phash_device env as_lid st) (msg_type_attr_for_inner view) (media_type_attr_for_inner view);
         n = (if \<exists>r \<in> set recipients. er_message_type r = PreKey
              then push_opt (map_option (bytes_child ''device-identity'') (se_account_pb env)) n else n);
         n = push_opt (poll_meta_node view) n;
         peer_lid_user = (if ends_with event_chat ''@lid'' then Some (lid_user_part event_chat)
           else pn_to_lid (ss_whisper st) (jid_user event_chat));
         n = (case peer_lid_user of Some u \<Rightarrow> attach_tctoken_if_available (se_token env) (se_now env) u n | None \<Rightarrow> n);
         n = push_opt (cs_token_node env wire_jid event_chat st) n
     in if as_lid then
          (case (if ends_with event_chat ''@s.whatsapp.net'' then Some (jid_user event_chat @ ''@s.whatsapp.net'')
                 else map_option (\<lambda>pn. pn @ ''@s.whatsapp.net'') (lid_to_pn (ss_whisper st) (lid_user_part wire_jid))) of
             Some pn \<Rightarrow> set_attr ''peer_recipient_pn'' pn n
           | None \<Rightarrow> n)
        else n)"

text \<open>\<open>encrypt_inner_proto_and_ship\<close> for a contact, up to the shipping: the node and the chat for events.\<close>

definition prepare_contact ::
  "send_env \<Rightarrow> string \<Rightarrow> string \<Rightarrow> bytes \<Rightarrow> int \<Rightarrow> send_state \<Rightarrow> (ship_error, node \<times> string) outcome \<times> send_state" where
  "prepare_contact env chat_jid msg_id inner timestamp st =
    (let ((event_chat, wire_jid, as_lid), st) = address_contact env chat_jid st;
         st = st\<lparr>ss_retry := record_recent_send msg_id wire_jid inner (ss_retry st)\<rparr>;
         (device_jids, st) = contact_devices env wire_jid as_lid st;
         padded = pad_message (se_pad env 0) inner;
         padded_own = (case se_wrap env inner wire_jid of Some dsm \<Rightarrow> pad_message (se_pad env 1) dsm | None \<Rightarrow> padded)
     in case encrypt_devices env device_jids padded padded_own (own_pn_user env) st of
          (Ok recipients, st) \<Rightarrow>
            (let (recipients, st) = (if as_lid then echo_to_own_lids env padded_own recipients st else (recipients, st));
                 recipients = dedup_recipients recipients
             in (Ok (contact_node env msg_id event_chat wire_jid as_lid inner timestamp recipients st, event_chat), st))
        | (Err e, st) \<Rightarrow> (Err (EncryptError e), st)
        | (Panic, st) \<Rightarrow> (Panic, st))"

text \<open>Of what the metadata teaches, the LID map is kept; names and member tables are left out.\<close>

definition fetch_group_participants :: "send_env \<Rightarrow> string \<Rightarrow> send_state \<Rightarrow> string list option \<times> send_state" where
  "fetch_group_participants env group_jid st =
    (let n = ss_n st; st = st\<lparr>ss_n := Suc n\<rparr>
     in case se_ask env n (build_group_info_iq (se_iq_id env n) group_jid) of
          None \<Rightarrow> (None, st)
        | Some reply \<Rightarrow>
          (Some (parse_group_info_response reply),
           st\<lparr>ss_whisper := capture_group_participant_lids (se_now env) reply (ss_whisper st)\<rparr>))"

primrec group_devices :: "send_env \<Rightarrow> string list \<Rightarrow> string list \<Rightarrow> send_state \<Rightarrow> string list \<times> send_state" where
  "group_devices env [] acc st = (acc, st)"
| "group_devices env (p # ps) acc st =
    (let p' = (if ends_with p ''@lid'' then
           (case lid_to_pn (ss_whisper st) (lid_user_part p) of Some pn \<Rightarrow> pn @ ''@s.whatsapp.net'' | None \<Rightarrow> p)
         else p)
     in case resolve_device_jids env p' st of (ds, st) \<Rightarrow> group_devices env ps (add_missing acc ds) st)"

definition prepare_group ::
  "send_env \<Rightarrow> string \<Rightarrow> string \<Rightarrow> bytes \<Rightarrow> int \<Rightarrow> send_state \<Rightarrow> (ship_error, node \<times> string) outcome \<times> send_state" where
  "prepare_group env group_jid msg_id inner timestamp st =
    (case fetch_group_participants env group_jid st of
       (None, st) \<Rightarrow> (Err GroupMetadata, st)
     | (Some participants, st) \<Rightarrow>
       if participants = [] then (Err NoParticipants, st)
       else
         (let (ds, st) = group_devices env participants [] st;
              ds = (case se_own_jid env of Some own \<Rightarrow> filter (\<lambda>d. d \<noteq> own) ds | None \<Rightarrow> ds)
          in if ds = [] then (Err NoParticipantDevices, st)
             else
               (case group_encrypt (se_c env) (se_spb env) (se_sk_new env) group_jid (pad_message (se_pad env 0) inner) (ss_whisper st) of
                  (Ok (skdm_wire, skmsg), w) \<Rightarrow>
                    (let skdm_padded = pad_message (se_pad env 1) (se_skdm env group_jid skdm_wire)
                     in case encrypt_devices env ds skdm_padded skdm_padded (own_pn_user env) (st\<lparr>ss_whisper := w\<rparr>) of
                          (Ok recipients, st) \<Rightarrow>
                            (let account_pb = (if \<exists>r \<in> set recipients. er_message_type r = PreKey then se_account_pb env else None);
                                 n = build_group_message_node msg_id group_jid recipients skmsg timestamp account_pb
                                       (edit_attribute_for_inner (se_inner_view env inner)) (se_view env inner)
                             in (Ok (n, group_jid), st\<lparr>ss_retry := record_recent_send msg_id group_jid inner (ss_retry st)\<rparr>))
                        | (Err e, st) \<Rightarrow> (Err (EncryptError e), st)
                        | (Panic, st) \<Rightarrow> (Panic, st))
                | (Err _, w) \<Rightarrow> (Err SkmsgEncrypt, st\<lparr>ss_whisper := w\<rparr>)
                | (Panic, w) \<Rightarrow> (Panic, st\<lparr>ss_whisper := w\<rparr>))))"

definition prepare ::
  "send_env \<Rightarrow> string \<Rightarrow> string \<Rightarrow> bytes \<Rightarrow> int \<Rightarrow> send_state \<Rightarrow> (ship_error, node \<times> string) outcome \<times> send_state" where
  "prepare env chat_jid msg_id inner timestamp st =
    (if ends_with chat_jid ''@g.us'' then prepare_group env chat_jid msg_id inner timestamp st
     else prepare_contact env chat_jid msg_id inner timestamp st)"

text \<open>\<open>send_history_sync_on_demand\<close>: the node, if there is one to ship.\<close>

definition prepare_history :: "send_env \<Rightarrow> bytes \<Rightarrow> send_state \<Rightarrow> (ship_error, node option) outcome \<times> send_state" where
  "prepare_history env inner st =
    (case se_own_jid env of
       None \<Rightarrow> (Ok None, st)
     | Some own_jid \<Rightarrow>
       (let own_bare = jid_user own_jid @ ''@s.whatsapp.net''; padded = pad_message (se_pad env 0) inner
        in case encrypt_devices env [own_bare] padded padded None st of
             (Ok (rec # _), st) \<Rightarrow> (Ok (Some (build_peer_message_node own_bare (se_req_id env) rec (se_account_pb env))), st)
           | (Ok [], st) \<Rightarrow> (Ok None, st)
           | (Err e, st) \<Rightarrow> (Err (EncryptError e), st)
           | (Panic, st) \<Rightarrow> (Panic, st)))"

end
