(* ===== verification/Outbound_Queue.thy ===== *)
theory Outbound_Queue
  imports Outbound
begin

text \<open>
  Queue, pump, dispatcher and acks of outgoing messages (\<open>src/src/session.rs\<close>): \<open>enqueue_send_persistent\<close>,
  the draining when a connection comes up, \<open>handle_send_op\<close>, the shipping, the server's \<open>ack\<close> and the wait
  for it, and what a lost connection or a restart of the process leaves.
\<close>

datatype send_event = MessageSent string string | MessageDelivered string string

text \<open>\<open>ob_chan\<close> is the channel that new operations go to; its receiver is with the session or with a pump, which is live
  when it was started by the connection that is up.
  \<open>ob_stale\<close> is what pumps of lost connections still have to take. A waiter is kept with its chat; it may
  have given up.\<close>

record outbox =
  ob_send :: send_state
  ob_rows :: message_table
  ob_queue :: outbound_queue
  ob_chan :: "send_op list"
  ob_rx_held :: bool
  ob_pump_live :: bool
  ob_stale :: "send_op list"
  ob_acks :: "(string, string \<times> bool) rows"
  ob_wire :: "node list"
  ob_events :: "send_event list"

definition enqueue_send :: "send_op \<Rightarrow> outbox \<Rightarrow> outbox" where
  "enqueue_send p ob = ob\<lparr>ob_chan := ob_chan ob @ [p]\<rparr>"

definition persistable_op_view :: "send_env \<Rightarrow> send_op \<Rightarrow> (string \<times> string) option" where
  "persistable_op_view env p = map_option (\<lambda>q. (persisted_msg_id q, se_to_json env q)) (from_send_op p)"

definition enqueue_send_persistent :: "send_env \<Rightarrow> send_op \<Rightarrow> outbox \<Rightarrow> outbox" where
  "enqueue_send_persistent env p ob =
    (let ob = (case persistable_op_view env p of
         Some (msg_id, op_json) \<Rightarrow> ob\<lparr>ob_queue := outbound_queue_upsert msg_id op_json (se_now env) (ob_queue ob)\<rparr>
       | None \<Rightarrow> ob)
     in enqueue_send p ob)"

definition drain_outbound_queue :: "send_env \<Rightarrow> outbound_queue \<Rightarrow> send_op list" where
  "drain_outbound_queue env q = map into_send_op (List.map_filter (se_of_json env) (outbound_queue_drain q))"

definition delete_outbound_queue_row :: "string \<Rightarrow> outbox \<Rightarrow> outbox" where
  "delete_outbound_queue_row msg_id ob = ob\<lparr>ob_queue := outbound_queue_delete msg_id (ob_queue ob)\<rparr>"

text \<open>A media operation whose file is gone is dropped from the table; everything else goes on the channel.\<close>

definition redrive :: "(string \<Rightarrow> bool) \<Rightarrow> send_op \<Rightarrow> outbox \<Rightarrow> outbox" where
  "redrive file_exists p ob =
    (case p of
       Media _ msg_id _ file_path _ _ _ _ _ \<Rightarrow>
         if file_exists file_path then enqueue_send p ob else delete_outbound_queue_row msg_id ob
     | _ \<Rightarrow> enqueue_send p ob)"

text \<open>\<open>run_connection\<close> once the handshake is done.\<close>

definition connection_opens :: "send_env \<Rightarrow> (string \<Rightarrow> bool) \<Rightarrow> outbox \<Rightarrow> outbox" where
  "connection_opens env file_exists ob =
    (if ob_rx_held ob
     then fold (redrive file_exists) (drain_outbound_queue env (ob_queue ob)) (ob\<lparr>ob_rx_held := False, ob_pump_live := True, ob_acks := []\<rparr>)
     else ob\<lparr>ob_pump_live := False, ob_acks := []\<rparr>)"

text \<open>Its cleanup: the channel is replaced, the pump keeps what is left of the old one.\<close>

definition connection_ends :: "outbox \<Rightarrow> outbox" where
  "connection_ends ob =
    ob\<lparr>ob_stale := ob_stale ob @ (if ob_rx_held ob then [] else ob_chan ob), ob_chan := [], ob_rx_held := True,
      ob_pump_live := False, ob_acks := []\<rparr>"

definition process_restarts :: "outbox \<Rightarrow> outbox" where
  "process_restarts ob = ob\<lparr>ob_chan := [], ob_rx_held := True, ob_pump_live := False, ob_stale := [], ob_acks := []\<rparr>"

text \<open>A node that a dead dispatcher is given goes nowhere, and so does the wait for its ack.\<close>

definition ship_raw :: "bool \<Rightarrow> node \<Rightarrow> outbox \<Rightarrow> outbox" where
  "ship_raw live n ob = (if live then ob\<lparr>ob_wire := ob_wire ob @ [n]\<rparr> else ob)"

definition register_ack :: "bool \<Rightarrow> string \<Rightarrow> string \<Rightarrow> bool \<Rightarrow> outbox \<Rightarrow> outbox" where
  "register_ack live msg_id chat waiting ob = (if live then ob\<lparr>ob_acks := row_save (ob_acks ob) msg_id (chat, waiting)\<rparr> else ob)"

definition ship :: "bool \<Rightarrow> string \<Rightarrow> node \<Rightarrow> string \<Rightarrow> outbox \<Rightarrow> outbox" where
  "ship live msg_id n event_chat ob =
    (let ob = ship_raw live n (register_ack live msg_id event_chat True ob)
     in ob\<lparr>ob_rows := message_set_status msg_id ''sent'' (ob_rows ob), ob_events := ob_events ob @ [MessageSent msg_id event_chat]\<rparr>)"

definition dead_env :: "send_env \<Rightarrow> send_env" where
  "dead_env env = env\<lparr>se_ask := \<lambda>_ _. None\<rparr>"

definition send_inner :: "send_env \<Rightarrow> bool \<Rightarrow> string \<Rightarrow> string \<Rightarrow> bytes \<Rightarrow> int \<Rightarrow> outbox \<Rightarrow> outbox" where
  "send_inner env live chat_jid msg_id inner timestamp ob =
    (case prepare (if live then env else dead_env env) chat_jid msg_id inner timestamp (ob_send ob) of
       (Ok (n, event_chat), s) \<Rightarrow> ship live msg_id n event_chat (ob\<lparr>ob_send := s\<rparr>)
     | (_, s) \<Rightarrow> ob\<lparr>ob_send := s\<rparr>)"

text \<open>Errors are logged.\<close>

definition handle_send_op :: "send_env \<Rightarrow> bool \<Rightarrow> send_op \<Rightarrow> outbox \<Rightarrow> outbox" where
  "handle_send_op env live p ob =
    (case p of
       Text chat_jid msg_id text timestamp \<Rightarrow> send_inner env live chat_jid msg_id (se_text env text) timestamp ob
     | Media chat_jid msg_id _ _ _ _ _ _ timestamp \<Rightarrow>
         (case (if live then se_media env p else None) of
            Some inner \<Rightarrow> send_inner env live chat_jid msg_id inner timestamp ob
          | None \<Rightarrow> ob)
     | RawNode n \<Rightarrow> ship_raw live n ob
     | EncryptedInner chat_jid msg_id inner timestamp \<Rightarrow> send_inner env live chat_jid msg_id inner timestamp ob
     | PeerHistoryRequest chat oldest_id oldest_from_me oldest_ts n \<Rightarrow>
         (case prepare_history (if live then env else dead_env env) (se_history env chat oldest_id oldest_from_me oldest_ts n) (ob_send ob) of
            (Ok (Some node), s) \<Rightarrow> ship_raw live node (register_ack live (se_req_id env) [] False (ob\<lparr>ob_send := s\<rparr>))
          | (_, s) \<Rightarrow> ob\<lparr>ob_send := s\<rparr>))"

text \<open>One turn of \<open>run_send_pump\<close>: of the pump of the channel, or of one whose channel was replaced.\<close>

definition pump_turn :: "send_env \<Rightarrow> outbox \<Rightarrow> outbox" where
  "pump_turn env ob =
    (case (ob_rx_held ob, ob_chan ob) of
       (False, p # ps) \<Rightarrow> handle_send_op env (ob_pump_live ob) p (ob\<lparr>ob_chan := ps\<rparr>)
     | _ \<Rightarrow> ob)"

definition stale_pump_turn :: "send_env \<Rightarrow> outbox \<Rightarrow> outbox" where
  "stale_pump_turn env ob =
    (case ob_stale ob of p # ps \<Rightarrow> handle_send_op env False p (ob\<lparr>ob_stale := ps\<rparr>) | [] \<Rightarrow> ob)"

text \<open>The server's \<open>ack\<close>: its \<open>error\<close> attribute is logged, the waiter gets the class.\<close>

definition ack_arrives :: "node \<Rightarrow> outbox \<Rightarrow> outbox" where
  "ack_arrives n ob =
    (if tag n \<noteq> ''ack'' then ob
     else
       (case get_attr n ''id'' of
          None \<Rightarrow> ob
        | Some msg_id \<Rightarrow>
          (case row_load (ob_acks ob) msg_id of
             None \<Rightarrow> ob
           | Some (chat, waiting) \<Rightarrow>
             (let ob = ob\<lparr>ob_acks := row_delete (ob_acks ob) msg_id\<rparr>
              in if waiting then
                   (let ob = delete_outbound_queue_row msg_id (ob\<lparr>ob_rows := message_set_status msg_id ''delivered'' (ob_rows ob)\<rparr>)
                    in ob\<lparr>ob_events := ob_events ob @ [MessageDelivered msg_id chat]\<rparr>)
                 else ob))))"

definition ack_timeout :: "string \<Rightarrow> outbox \<Rightarrow> outbox" where
  "ack_timeout msg_id ob =
    (case row_load (ob_acks ob) msg_id of
       Some (chat, _) \<Rightarrow> ob\<lparr>ob_acks := row_save (ob_acks ob) msg_id (chat, False)\<rparr>
     | None \<Rightarrow> ob)"

text \<open>What can happen, in any order.\<close>

datatype outbox_step =
    Accept send_op
  | Ephemeral send_op
  | ConnectionOpens "string \<Rightarrow> bool"
  | PumpTurn
  | StalePumpTurn
  | AckArrives node
  | AckTimeout string
  | ConnectionEnds
  | ProcessRestarts

definition outbox_step :: "outbox_step \<times> send_env \<Rightarrow> outbox \<Rightarrow> outbox" where
  "outbox_step s ob =
    (case s of (l, env) \<Rightarrow>
      (case l of
         Accept p \<Rightarrow> enqueue_send_persistent env p ob
       | Ephemeral p \<Rightarrow> enqueue_send p ob
       | ConnectionOpens file_exists \<Rightarrow> connection_opens env file_exists ob
       | PumpTurn \<Rightarrow> pump_turn env ob
       | StalePumpTurn \<Rightarrow> stale_pump_turn env ob
       | AckArrives n \<Rightarrow> ack_arrives n ob
       | AckTimeout i \<Rightarrow> ack_timeout i ob
       | ConnectionEnds \<Rightarrow> connection_ends ob
       | ProcessRestarts \<Rightarrow> process_restarts ob))"

end
