(* ===== verification/Outbound_Delivery.thy ===== *)
theory Outbound_Delivery
  imports Outbound_Queue Message_Flow
begin

text \<open>
  What the outgoing side promises: an accepted message stays in the table until it is acked, and is put on the
  channel by every connection until then; the participants of a stanza are distinct and do not include the
  sending device. And where it falls short: what was accepted offline is put on the channel twice, and a
  message that the server rejects counts as delivered.
\<close>

section \<open>The queue\<close>

lemma into_from: "from_send_op p = Some q \<Longrightarrow> into_send_op q = p"
  by (auto simp: from_send_op_def into_send_op_def split: send_op.splits)

lemma row_load_inserted: "row_load (row_save q i v) k = (if k = i then Some v else row_load q k)"
  by (simp add: rows.load_save)

lemma drained_set: "set (outbound_queue_drain q) = {j. \<exists>i c. (i, j, c) \<in> set q}"
  by (force simp: outbound_queue_drain_def)

lemma handle_keeps: "ob_queue (handle_send_op env live p ob) = ob_queue ob"
  by (auto simp: handle_send_op_def send_inner_def ship_def ship_raw_def register_ack_def Let_def
      split: send_op.split outcome.split prod.split option.split)

lemma redrive_fields:
  "ob_rx_held (redrive fe p ob) = ob_rx_held ob" "ob_pump_live (redrive fe p ob) = ob_pump_live ob"
  by (auto simp: redrive_def enqueue_send_def delete_outbound_queue_row_def split: send_op.split)

lemma fold_redrive_fields:
  "ob_rx_held (fold (redrive fe) ps ob) = ob_rx_held ob" "ob_pump_live (fold (redrive fe) ps ob) = ob_pump_live ob"
  by (induction ps arbitrary: ob) (simp_all add: redrive_fields)

definition file_there :: "(string \<Rightarrow> bool) \<Rightarrow> send_op \<Rightarrow> bool" where
  "file_there fe p = (case p of Media _ _ _ f _ _ _ _ _ \<Rightarrow> fe f | _ \<Rightarrow> True)"

definition send_op_id :: "send_op \<Rightarrow> string option" where
  "send_op_id p = map_option persisted_msg_id (from_send_op p)"

lemma redrive_queue:
  "ob_queue (redrive fe p ob) = (if file_there fe p then ob_queue ob else row_delete (ob_queue ob) (the (send_op_id p)))"
  by (auto simp: redrive_def enqueue_send_def delete_outbound_queue_row_def outbound_queue_delete_def file_there_def
      send_op_id_def from_send_op_def persisted_msg_id_def split: send_op.split)

lemma redrive_chan: "ob_chan (redrive fe p ob) = ob_chan ob @ (if file_there fe p then [p] else [])"
  by (auto simp: redrive_def enqueue_send_def delete_outbound_queue_row_def file_there_def split: send_op.split)

lemma fold_redrive_chan: "ob_chan (fold (redrive fe) ps ob) = ob_chan ob @ filter (file_there fe) ps"
  by (induction ps arbitrary: ob) (simp_all add: redrive_chan)

lemma fold_redrive_queue:
  assumes "\<forall>p \<in> set ps. send_op_id p = Some i \<longrightarrow> file_there fe p" "\<forall>p \<in> set ps. send_op_id p \<noteq> None"
  shows "row_load (ob_queue (fold (redrive fe) ps ob)) i = row_load (ob_queue ob) i"
  using assms by (induction ps arbitrary: ob) (auto simp: redrive_queue rows.load_delete)

text \<open>Every row holds an operation of its own id; JSON reads what it wrote.\<close>

definition queue_wf :: "(string \<Rightarrow> persisted_op option) \<Rightarrow> outbound_queue \<Rightarrow> bool" where
  "queue_wf oj t \<longleftrightarrow> distinct (map fst t) \<and> (\<forall>i j c. (i, j, c) \<in> set t \<longrightarrow> (\<exists>q. oj j = Some q \<and> persisted_msg_id q = i))"

lemma queue_wf_delete: "queue_wf oj t \<Longrightarrow> queue_wf oj (row_delete t i)"
  by (auto simp: queue_wf_def row_delete_def distinct_map_filter)

lemma queue_wf_save: "queue_wf oj t \<Longrightarrow> oj j = Some q \<Longrightarrow> persisted_msg_id q = i \<Longrightarrow> queue_wf oj (row_save t i (j, c))"
  by (auto simp: queue_wf_def row_save_def row_delete_def distinct_map_filter)

lemma id_into: "send_op_id (into_send_op q) = Some (persisted_msg_id q)"
  by (simp add: send_op_id_def from_send_op_def into_send_op_def persisted_msg_id_def split: persisted_op.split)

lemma drained_ops:
  assumes "queue_wf (se_of_json env) t"
  shows "p \<in> set (drain_outbound_queue env t) \<longleftrightarrow> (\<exists>i j c q. (i, j, c) \<in> set t \<and> se_of_json env j = Some q \<and> p = into_send_op q)"
proof -
  have "set (List.map_filter f xs) = {y. \<exists>x \<in> set xs. f x = Some y}" for f :: "string \<Rightarrow> persisted_op option" and xs
    by (induction xs) (auto simp: List.map_filter_simps split: option.splits)
  then show ?thesis unfolding drain_outbound_queue_def by (auto simp: drained_set)
qed

text \<open>What may end the wait of \<open>p\<close>: an ack for its id, another operation of the same id, a file that is gone.\<close>

definition settles :: "send_op \<Rightarrow> outbox_step \<times> send_env \<Rightarrow> bool" where
  "settles p s =
    (case fst s of
       Accept p' \<Rightarrow> send_op_id p' = send_op_id p
     | AckArrives n \<Rightarrow> get_attr n ''id'' = send_op_id p
     | ConnectionOpens fe \<Rightarrow> \<not> file_there fe p
     | _ \<Rightarrow> False)"

text \<open>The JSON library, the same in every step, reads back the operations that are accepted.\<close>

definition json_ok :: "(persisted_op \<Rightarrow> string) \<Rightarrow> (string \<Rightarrow> persisted_op option) \<Rightarrow> outbox_step \<times> send_env \<Rightarrow> bool" where
  "json_ok tj oj s \<longleftrightarrow> se_to_json (snd s) = tj \<and> se_of_json (snd s) = oj \<and>
    (case fst s of Accept p \<Rightarrow> (case from_send_op p of Some q \<Rightarrow> oj (tj q) = Some q | None \<Rightarrow> True) | _ \<Rightarrow> True)"

lemma fold_redrive_cong:
  "ob_queue ob = ob_queue ob' \<Longrightarrow> ob_queue (fold (redrive fe) ps ob) = ob_queue (fold (redrive fe) ps ob')"
proof (induction ps arbitrary: ob ob')
  case (Cons p ps)
  have "ob_queue (redrive fe p ob) = ob_queue (redrive fe p ob')" using Cons.prems by (simp only: redrive_queue)
  from Cons.IH [OF this] show ?case by simp
qed simp

lemma opens_queue:
  "ob_queue (connection_opens env fe ob) =
    (if ob_rx_held ob then ob_queue (fold (redrive fe) (drain_outbound_queue env (ob_queue ob)) ob) else ob_queue ob)"
proof -
  have "ob_queue (fold (redrive fe) ps (ob\<lparr>ob_rx_held := False, ob_pump_live := True, ob_acks := []\<rparr>)) = ob_queue (fold (redrive fe) ps ob)" for ps
    by (rule fold_redrive_cong) simp
  then show ?thesis by (simp add: connection_opens_def)
qed

lemma redrive_wf: "queue_wf oj (ob_queue ob) \<Longrightarrow> queue_wf oj (ob_queue (fold (redrive fe) ps ob))"
  by (induction ps arbitrary: ob) (simp_all add: redrive_queue queue_wf_delete)

lemma ack_queue:
  "ob_queue (ack_arrives n ob) = ob_queue ob \<or> (\<exists>i. get_attr n ''id'' = Some i \<and> ob_queue (ack_arrives n ob) = row_delete (ob_queue ob) i)"
  by (auto simp: ack_arrives_def Let_def delete_outbound_queue_row_def outbound_queue_delete_def split: option.split)

lemma step_wf:
  assumes "queue_wf oj (ob_queue ob)" "json_ok tj oj s"
  shows "queue_wf oj (ob_queue (outbox_step s ob))"
proof (cases s)
  case (Pair l env)
  show ?thesis
  proof (cases l)
    case (Accept p)
    then show ?thesis using assms Pair
      by (auto simp: outbox_step_def enqueue_send_persistent_def enqueue_send_def persistable_op_view_def Let_def
          outbound_queue_upsert_def json_ok_def intro!: queue_wf_save split: option.split)
  next
    case (AckArrives n)
    then show ?thesis using assms Pair ack_queue [of n ob] by (auto simp: outbox_step_def queue_wf_delete)
  next
    case (ConnectionOpens fe)
    then show ?thesis using assms Pair by (simp add: outbox_step_def opens_queue redrive_wf)
  qed (use assms Pair in \<open>auto simp: outbox_step_def enqueue_send_def pump_turn_def stale_pump_turn_def handle_keeps ack_timeout_def
      connection_ends_def process_restarts_def split: list.split bool.split option.split\<close>)
qed

lemma step_keeps:
  assumes "queue_wf oj (ob_queue ob)" "json_ok tj oj s" "\<not> settles p s" "from_send_op p = Some q"
    and "row_load (ob_queue ob) (persisted_msg_id q) = Some (tj q, t0)" "oj (tj q) = Some q"
  shows "row_load (ob_queue (outbox_step s ob)) (persisted_msg_id q) = Some (tj q, t0)"
proof (cases s)
  case (Pair l env)
  have id: "send_op_id p = Some (persisted_msg_id q)" using assms(4) by (simp add: send_op_id_def)
  show ?thesis
  proof (cases l)
    case (Accept p')
    then show ?thesis using assms Pair id
      by (auto simp: outbox_step_def enqueue_send_persistent_def enqueue_send_def persistable_op_view_def Let_def settles_def
          outbound_queue_upsert_def send_op_id_def row_load_inserted split: option.split)
  next
    case (AckArrives n)
    then show ?thesis using assms Pair id ack_queue [of n ob] by (auto simp: outbox_step_def settles_def rows.load_delete)
  next
    case (ConnectionOpens fe)
    have oj: "se_of_json env = oj" "oj (tj q) = Some q" using assms(2,6) Pair by (simp_all add: json_ok_def)
    have there: "file_there fe p" using assms(3) Pair ConnectionOpens by (simp add: settles_def)
    let ?ps = "drain_outbound_queue env (ob_queue ob)"
    have "\<forall>p' \<in> set ?ps. send_op_id p' = Some (persisted_msg_id q) \<longrightarrow> file_there fe p'"
    proof (intro ballI impI)
      fix p' assume "p' \<in> set ?ps" and same: "send_op_id p' = Some (persisted_msg_id q)"
      then obtain i j c q' where r: "(i, j, c) \<in> set (ob_queue ob)" "oj j = Some q'" "p' = into_send_op q'"
        using drained_ops [of env "ob_queue ob" p'] assms(1) oj by auto
      then have "persisted_msg_id q' = persisted_msg_id q" using same by (simp add: id_into)
      moreover obtain q2 where "oj j = Some q2" "persisted_msg_id q2 = i" using assms(1) r(1) by (auto simp: queue_wf_def)
      ultimately have "i = persisted_msg_id q" using r(2) by simp
      then have "j = tj q" using r(1) assms(1,5) by (auto simp: queue_wf_def row_load_def dest: map_of_is_SomeI)
      then have "p' = p" using r oj into_from [OF assms(4)] by simp
      then show "file_there fe p'" using there by simp
    qed
    moreover have "\<forall>p' \<in> set ?ps. send_op_id p' \<noteq> None"
      using drained_ops [of env "ob_queue ob"] assms(1) oj by (auto simp: id_into)
    ultimately show ?thesis using assms(5) Pair ConnectionOpens
      by (simp add: outbox_step_def opens_queue fold_redrive_queue)
  qed (use assms Pair in \<open>auto simp: outbox_step_def enqueue_send_def pump_turn_def stale_pump_turn_def handle_keeps ack_timeout_def
      connection_ends_def process_restarts_def split: list.split bool.split option.split\<close>)
qed

lemma run_wf: "queue_wf oj (ob_queue ob) \<Longrightarrow> \<forall>s \<in> set ss. json_ok tj oj s \<Longrightarrow> queue_wf oj (ob_queue (fold outbox_step ss ob))"
  by (induction ss arbitrary: ob) (auto simp: step_wf)

lemma run_keeps:
  assumes "queue_wf oj (ob_queue ob)" "\<forall>s \<in> set ss. json_ok tj oj s \<and> \<not> settles p s" "from_send_op p = Some q"
    and "row_load (ob_queue ob) (persisted_msg_id q) = Some (tj q, t0)" "oj (tj q) = Some q"
  shows "row_load (ob_queue (fold outbox_step ss ob)) (persisted_msg_id q) = Some (tj q, t0)"
  using assms
proof (induction ss arbitrary: ob)
  case (Cons s ss)
  have "queue_wf oj (ob_queue (outbox_step s ob))" using Cons.prems by (auto intro: step_wf)
  moreover have "row_load (ob_queue (outbox_step s ob)) (persisted_msg_id q) = Some (tj q, t0)"
    using step_keeps [OF Cons.prems(1), of tj s p q t0] Cons.prems(2-5) by simp
  ultimately show ?case using Cons.IH Cons.prems(2,3,5) by auto
qed simp

lemma drained_row: "(i, j, c) \<in> set t \<Longrightarrow> se_of_json env j = Some q \<Longrightarrow> into_send_op q \<in> set (drain_outbound_queue env t)"
  by (force simp: drain_outbound_queue_def drained_set List.map_filter_def image_iff)

lemma opened_chan:
  "ob_rx_held ob \<Longrightarrow> ob_chan (connection_opens env fe ob) =
    ob_chan ob @ filter (file_there fe) (drain_outbound_queue env (ob_queue ob))"
  "ob_rx_held ob \<Longrightarrow> ob_pump_live (connection_opens env fe ob)"
  by (simp_all add: connection_opens_def fold_redrive_chan fold_redrive_fields)

lemma accept_fields:
  "from_send_op p = Some q \<Longrightarrow>
    ob_queue (enqueue_send_persistent env p ob) = row_save (ob_queue ob) (persisted_msg_id q) (se_to_json env q, se_now env)"
  "ob_chan (enqueue_send_persistent env p ob) = ob_chan ob @ [p]"
  "ob_rx_held (enqueue_send_persistent env p ob) = ob_rx_held ob"
  by (auto simp: enqueue_send_persistent_def enqueue_send_def persistable_op_view_def outbound_queue_upsert_def split: option.split)

text \<open>C4: Once a text, a media message or an encrypted inner message is accepted, its row stays in the table through any
  steps, until its own ack, another operation of the same id, or the loss of its file; and whenever the
  connection is lost or the process restarts, the next connection that opens puts it on the channel of a live pump.\<close>

theorem accepted_survives:
  assumes "ob_queue ob0 = []" "\<forall>s \<in> set (xs @ (Accept p, env) # ys). json_ok tj oj s"
    and "from_send_op p = Some q" "\<forall>s \<in> set ys. \<not> settles p s"
    and "ob = fold outbox_step (xs @ (Accept p, env) # ys) ob0"
    and "ob' = connection_ends ob \<or> ob' = process_restarts ob"
    and "se_of_json env' = oj" "file_there fe p"
  shows "row_load (ob_queue ob) (persisted_msg_id q) = Some (tj q, se_now env) \<and>
    p \<in> set (ob_chan (connection_opens env' fe ob')) \<and> ob_pump_live (connection_opens env' fe ob')"
proof -
  let ?ob = "fold outbox_step xs ob0" let ?i = "persisted_msg_id q"
  have accept: "json_ok tj oj (Accept p, env)" using assms(2) by simp
  have wf: "queue_wf oj (ob_queue ?ob)" by (rule run_wf) (use assms(1,2) in \<open>auto simp: queue_wf_def\<close>)
  have wf': "queue_wf oj (ob_queue (outbox_step (Accept p, env) ?ob))" by (rule step_wf [OF wf accept])
  have "row_load (ob_queue (outbox_step (Accept p, env) ?ob)) ?i = Some (tj q, se_now env)"
    using accept by (simp add: outbox_step_def accept_fields(1) [OF assms(3)] row_load_inserted json_ok_def)
  moreover have oj: "oj (tj q) = Some q" using accept assms(3) by (simp add: json_ok_def)
  moreover have "\<forall>s \<in> set ys. json_ok tj oj s \<and> \<not> settles p s" using assms(2,4) by simp
  ultimately have "row_load (ob_queue (fold outbox_step ys (outbox_step (Accept p, env) ?ob))) ?i = Some (tj q, se_now env)"
    using run_keeps [OF wf' _ assms(3)] by blast
  then have row: "row_load (ob_queue ob) ?i = Some (tj q, se_now env)" using assms(5) by simp
  have same: "ob_queue ob' = ob_queue ob" "ob_rx_held ob'" using assms(6) by (auto simp: connection_ends_def process_restarts_def)
  have "p \<in> set (drain_outbound_queue env' (ob_queue ob'))"
    using drained_row [OF row_load_set [OF row], where env = env'] oj assms(7) same into_from [OF assms(3)] by simp
  then show ?thesis using row opened_chan [OF same(2)] assms(8) by simp
qed

text \<open>C38: An operation that is accepted while no connection is up is on the channel twice when one comes up: the
  channel had it already, and the draining of the table adds it again.\<close>

theorem offline_op_queued_twice:
  assumes "ob_rx_held ob" "from_send_op p = Some q"
    and "se_of_json env' (se_to_json env q) = Some q" "file_there fe p"
  shows "2 \<le> count_list (ob_chan (connection_opens env' fe (enqueue_send_persistent env p ob))) p"
proof -
  have "p \<in> set (drain_outbound_queue env' (ob_queue (enqueue_send_persistent env p ob)))"
    using drained_row [of "persisted_msg_id q" "se_to_json env q" "se_now env" _ env' q] assms(3) into_from [OF assms(2)]
    by (simp add: accept_fields(1) [OF assms(2)] row_save_def)
  then have "p \<in> set (filter (file_there fe) (drain_outbound_queue env' (ob_queue (enqueue_send_persistent env p ob))))"
    using assms(4) by simp
  then have "0 < count_list (filter (file_there fe) (drain_outbound_queue env' (ob_queue (enqueue_send_persistent env p ob)))) p"
    by (metis count_list_0_iff gr0I)
  then show ?thesis using assms(1) by (simp add: opened_chan accept_fields)
qed

lemma drained_id:
  assumes "queue_wf (se_of_json env) t" "row_load t i = None" "p \<in> set (drain_outbound_queue env t)"
  shows "send_op_id p \<noteq> Some i"
proof -
  obtain k j c q where r: "(k, j, c) \<in> set t" "se_of_json env j = Some q" "p = into_send_op q"
    using drained_ops [OF assms(1), of p] assms(3) by auto
  moreover have "\<exists>q. se_of_json env j = Some q \<and> persisted_msg_id q = k" using assms(1) r(1) unfolding queue_wf_def by blast
  ultimately have "persisted_msg_id q = k" by simp
  then show ?thesis using r assms(2) by (force simp: id_into row_load_def map_of_eq_None_iff)
qed

text \<open>C39: An ack by which the server rejects a message is taken as its delivery: the row is marked delivered, the
  event is sent, and the operation is gone from the table, so that no later connection sends it again.\<close>

theorem rejected_message_is_gone:
  assumes "tag n = ''ack''" "get_attr n ''id'' = Some i" "get_attr n ''error'' = Some code"
    and "row_load (ob_acks ob) i = Some (chat, True)"
    and "queue_wf (se_of_json env) (ob_queue ob)"
  shows "ob_rows (ack_arrives n ob) = message_set_status i ''delivered'' (ob_rows ob) \<and>
    ob_events (ack_arrives n ob) = ob_events ob @ [MessageDelivered i chat] \<and>
    (\<forall>p \<in> set (ob_chan (connection_opens env fe (connection_ends (ack_arrives n ob)))). send_op_id p \<noteq> Some i)"
proof -
  have q: "ob_queue (ack_arrives n ob) = row_delete (ob_queue ob) i"
    using assms by (simp add: ack_arrives_def delete_outbound_queue_row_def outbound_queue_delete_def)
  have "send_op_id p \<noteq> Some i" if "p \<in> set (ob_chan (connection_opens env fe (connection_ends (ack_arrives n ob))))" for p
  proof (rule drained_id [where env = env and t = "row_delete (ob_queue ob) i"])
    show "queue_wf (se_of_json env) (row_delete (ob_queue ob) i)" using assms(5) by (rule queue_wf_delete)
    show "p \<in> set (drain_outbound_queue env (row_delete (ob_queue ob) i))"
      using that by (simp add: opened_chan connection_ends_def q)
  qed (simp add: rows.load_delete)
  then show ?thesis using assms by (simp add: ack_arrives_def delete_outbound_queue_row_def)
qed

section \<open>Who a stanza is for\<close>

lemma resolve_targets_devices: "resolve_targets ds st = (ts, st') \<Longrightarrow> map fst ts = ds"
  by (induction ds arbitrary: st ts st') (auto split: prod.splits)

lemma encrypt_targets_devices:
  "encrypt_targets c pb keys fresh pt ts existing boot st = (Ok out, st') \<Longrightarrow> er_jid ` set out \<subseteq> fst ` set ts"
proof (induction ts arbitrary: existing boot st out st')
  case (Cons t ts)
  obtain d enc where t: "t = (d, enc)" by fastforce
  obtain rec ex bo where sel: "(case row_load existing enc of Some r \<Rightarrow> (Some r, row_delete existing enc, boot)
      | None \<Rightarrow> (row_load boot enc, existing, row_delete boot enc)) = (rec, ex, bo)"
    by (rule prod_cases3)
  show ?case
  proof (cases rec)
    case None
    then show ?thesis using Cons.prems Cons.IH [of ex bo st out st'] sel by (auto simp: t)
  next
    case (Some r)
    note run = Cons.prems [unfolded t encrypt_targets.simps sel Let_def Some prod.case option.case]
    obtain state where cur: "current r = Some state" using run by (cases "current r") simp_all
    obtain res state' where e: "encrypt_state c pb keys (fresh (length ts)) (pt d) state = (res, state')" by (rule prod.exhaust)
    obtain cipher where "res = Ok cipher" using run by (cases res) (simp_all add: cur e)
    note run = run [unfolded cur e this option.case prod.case outcome.case]
    obtain rest st2 where more: "encrypt_targets c pb keys fresh pt ts ex bo
        (store_save_record enc (r\<lparr>current := Some state'\<rparr>) st) = (rest, st2)" by (rule prod.exhaust)
    note run = run [unfolded more prod.case]
    obtain out' where ok: "rest = Ok out'" using run by (cases rest) simp_all
    have "out = \<lparr>er_jid = d, er_ciphertext = serialized cipher, er_message_type = message_type_of cipher\<rparr> # out'"
      using run [unfolded ok outcome.case] by simp
    with Cons.IH [OF more [unfolded ok]] show ?thesis by (auto simp: t)
  qed
qed simp

lemma encrypt_per_device_devices:
  assumes "encrypt_per_device c pb keys fetch gen fresh ds padded padded_own own_user st = (Ok out, st')"
  shows "er_jid ` set out \<subseteq> set ds"
proof -
  obtain ts st1 where t: "resolve_targets ds st = (ts, st1)" by fastforce
  moreover obtain ex needs where "partition_targets st1 ts = (ex, needs)" by fastforce
  ultimately obtain pt bundles where "encrypt_targets c pb keys fresh pt ts ex (bootstrap_all c keys gen bundles) st1 = (Ok out, st')"
    using assms by (auto simp: encrypt_per_device_def Let_def split: option.splits prod.splits outcome.splits if_splits)
  from encrypt_targets_devices [OF this] show ?thesis using resolve_targets_devices [OF t] by (metis set_map)
qed

lemma encrypt_devices_devices: "encrypt_devices env ds m m' own st = (Ok out, st') \<Longrightarrow> er_jid ` set out \<subseteq> set ds"
  by (auto simp: encrypt_devices_def Let_def split: prod.splits dest!: encrypt_per_device_devices)

lemma dedup_snoc:
  "dedup_recipients (rs @ [r]) =
    (if er_jid r \<in> er_jid ` set (dedup_recipients rs) then dedup_recipients rs else dedup_recipients rs @ [r])"
  by (simp add: dedup_recipients_def)

lemma dedup_distinct: "distinct (map er_jid (dedup_recipients rs))"
  by (induction rs rule: rev_induct) (simp add: dedup_recipients_def, simp add: dedup_snoc)

lemma dedup_subset: "set (dedup_recipients rs) \<subseteq> set rs"
  by (induction rs rule: rev_induct) (simp add: dedup_recipients_def, auto simp: dedup_snoc)

text \<open>What the additions to a stanza leave: its first child.\<close>

definition first_is :: "node \<Rightarrow> node \<Rightarrow> bool" where
  "first_is c n \<longleftrightarrow> (\<exists>ns. node_content n = CNodes (c # ns))"

lemma first_is_simps:
  "first_is c n \<Longrightarrow> first_is c (push_child x n)" "first_is c n \<Longrightarrow> first_is c (push_opt y n)"
  "first_is c n \<Longrightarrow> first_is c (set_attr k v n)" "first_is c n \<Longrightarrow> first_is c (attach_tctoken_if_available tk now u n)"
  by (auto simp: first_is_def push_child_def push_opt_def set_attr_def attach_tctoken_if_available_def
      split: option.split content.split)

definition participants_of :: "node \<Rightarrow> string option list" where
  "participants_of n =
    (case node_content n of
       CNodes (p # _) \<Rightarrow> (case node_content p of CNodes ts \<Rightarrow> map (\<lambda>t. get_attr t ''jid'') ts | _ \<Rightarrow> [])
     | _ \<Rightarrow> [])"

lemma contact_node_participants: "participants_of (contact_node env i ev w l b t rs st) = map (Some \<circ> er_jid) rs"
proof -
  let ?c = "Node ''participants'' [] (CNodes (map (to_node (edit_attribute_for_inner (se_inner_view env b))
    (media_type_attr_for_inner (se_view env b))) rs))"
  have "first_is ?c (build_message_node h i w rs t (edit_attribute_for_inner (se_inner_view env b)) am own mt
    (media_type_attr_for_inner (se_view env b)))" for h am own mt
    by (simp add: first_is_def build_message_node_def)
  then have "first_is ?c (contact_node env i ev w l b t rs st)"
    by (auto simp: contact_node_def Let_def intro!: first_is_simps split: option.split)
  then show ?thesis by (auto simp: participants_of_def first_is_def to_node_def)
qed

text \<open>C15: The participants of a contact's stanza are pairwise distinct, and without LID addressing the device that sends is
  not among them: no device is given two ciphertexts of one message, and none is made for ourselves.\<close>

theorem participants_distinct:
  assumes "prepare_contact env chat i inner t st = (Ok (n, ev), st')"
  shows "distinct (participants_of n) \<and> None \<notin> set (participants_of n) \<and>
    (\<not> se_modern env \<longrightarrow> (\<forall>own. se_own_jid env = Some own \<longrightarrow> Some own \<notin> set (participants_of n)))"
proof -
  obtain ev' w l st1 where a: "address_contact env chat st = ((ev', w, l), st1)" by (metis surj_pair)
  let ?st = "st1\<lparr>ss_retry := record_recent_send i w inner (ss_retry st1)\<rparr>"
  obtain ds st2 where d: "contact_devices env w l ?st = (ds, st2)" by fastforce
  let ?own = "case se_wrap env inner w of Some dsm \<Rightarrow> pad_message (se_pad env 1) dsm | None \<Rightarrow> pad_message (se_pad env 0) inner"
  obtain rs st3 where e: "encrypt_devices env ds (pad_message (se_pad env 0) inner) ?own (own_pn_user env) st2 = (Ok rs, st3)"
    using assms a d by (auto simp: prepare_contact_def Let_def split: prod.splits outcome.splits)
  obtain rs' st4 where r: "(if l then echo_to_own_lids env ?own rs st3 else (rs, st3)) = (rs', st4)" by fastforce
  have n: "participants_of n = map (Some \<circ> er_jid) (dedup_recipients rs')"
    using assms a d e r by (auto simp: prepare_contact_def Let_def contact_node_participants)
  have "Some own \<notin> set (participants_of n)" if "\<not> se_modern env" "se_own_jid env = Some own" for own
  proof -
    have "\<not> l" using a that(1) by (auto simp: address_contact_def Let_def split: prod.splits option.splits if_splits)
    moreover have "own \<notin> set ds" using d that(2) by (auto simp: contact_devices_def Let_def split: prod.splits)
    ultimately show ?thesis using r encrypt_devices_devices [OF e] dedup_subset [of rs] by (auto simp: n)
  qed
  moreover have "distinct (map Some (map er_jid (dedup_recipients rs')))"
    using dedup_distinct [of rs'] by (simp only: distinct_map) (simp add: inj_on_def)
  ultimately show ?thesis by (auto simp: n)
qed

section \<open>Witnesses\<close>

text \<open>A session of the account 55, known as 64 too, that can send to the phone of the account; JSON is a letter.\<close>

definition toy_op :: persisted_op where
  "toy_op = PText ''55@s.whatsapp.net'' ''M'' ''hello'' 5"

definition toy_send :: send_env where
  "toy_send =
    \<lparr>se_c = toy_signal, se_pb = toy_codec_signal, se_spb = toy_codec_sender, se_keys = toy_device,
     se_ask = (\<lambda>_ _. None), se_iq_id = (\<lambda>_. ''q''), se_sid = (\<lambda>_. ''s''), se_gens = (\<lambda>_ _. (toy_pair, toy_pair)),
     se_fresh = (\<lambda>_ _. ([], [])), se_pad = (\<lambda>_. 1), se_sk_new = toy_sender, se_wrap = (\<lambda>_ _. None),
     se_inner_view = (\<lambda>_. None), se_view = (\<lambda>_. None), se_skdm = (\<lambda>_ b. b), se_text = (\<lambda>_. [7]),
     se_media = (\<lambda>_. None), se_history = (\<lambda>_ _ _ _ _. []), se_sha256 = id, se_b64 = (\<lambda>_. ''h''),
     se_account_pb = None, se_nct_salt = None, se_token = (\<lambda>_. None), se_own_jid = Some ''55:3@s.whatsapp.net'',
     se_modern = False, se_now = 9, se_req_id = ''r'',
     se_to_json = (\<lambda>_. ''j''), se_of_json = (\<lambda>j. if j = ''j'' then Some toy_op else None)\<rparr>"

definition toy_session :: session_state where
  "toy_session = initiate_alice toy_signal toy_alice"

definition toy_send_state :: send_state where
  "toy_send_state =
    \<lparr>ss_n = 0, ss_cache = [],
     ss_retry = \<lparr>recent_sends = [], message_retries = [], session_recreate_history = [], incoming_retry_counter = []\<rparr>,
     ss_whisper = toy_store [(''64.1@lid'', new_record\<lparr>current := Some toy_session\<rparr>)]\<rparr>"

definition toy_outbox :: outbox where
  "toy_outbox =
    \<lparr>ob_send = toy_send_state, ob_rows = [], ob_queue = [], ob_chan = [], ob_rx_held = True, ob_pump_live = False,
     ob_stale = [], ob_acks = [], ob_wire = [], ob_events = []\<rparr>"

lemma toy_op_persisted: "from_send_op (into_send_op toy_op) = Some toy_op" "persisted_msg_id toy_op = ''M''"
  by (simp_all add: toy_op_def into_send_op_def from_send_op_def persisted_msg_id_def)

lemma toy_send_json: "se_to_json toy_send q = ''j''" "se_of_json toy_send ''j'' = Some toy_op"
  by (simp_all add: toy_send_def)

theorem accepted_survives_witness:
  "into_send_op toy_op \<in> set (ob_chan (connection_opens toy_send (\<lambda>_. True) (process_restarts (fold outbox_step
    ([] @ (Accept (into_send_op toy_op), toy_send) # [(ConnectionOpens (\<lambda>_. True), toy_send), (PumpTurn, toy_send),
      (AckTimeout ''M'', toy_send), (ConnectionEnds, toy_send)]) toy_outbox))))"
proof -
  let ?ys = "[(ConnectionOpens (\<lambda>_. True), toy_send), (PumpTurn, toy_send), (AckTimeout ''M'', toy_send), (ConnectionEnds, toy_send)]"
  have there: "file_there (\<lambda>_. True) (into_send_op toy_op)" by (simp add: file_there_def toy_op_def into_send_op_def)
  have js: "\<forall>s \<in> set ([] @ (Accept (into_send_op toy_op), toy_send) # ?ys). json_ok (se_to_json toy_send) (se_of_json toy_send) s"
    by (simp add: json_ok_def toy_op_persisted toy_send_json)
  have un: "\<forall>s \<in> set ?ys. \<not> settles (into_send_op toy_op) s" using there by (simp add: settles_def)
  have "ob_queue toy_outbox = []" by (simp add: toy_outbox_def)
  from accepted_survives [OF this js toy_op_persisted(1) un refl disjI2 [OF refl] refl there] show ?thesis by blast
qed

theorem offline_op_queued_twice_witness:
  "2 \<le> count_list (ob_chan (connection_opens toy_send (\<lambda>_. True)
    (enqueue_send_persistent toy_send (into_send_op toy_op) toy_outbox))) (into_send_op toy_op)"
proof -
  have "ob_rx_held toy_outbox" "file_there (\<lambda>_. True) (into_send_op toy_op)"
    by (simp_all add: toy_outbox_def file_there_def toy_op_def into_send_op_def)
  from offline_op_queued_twice [OF this(1) toy_op_persisted(1) _ this(2)] show ?thesis by (simp add: toy_send_json)
qed

theorem rejected_message_is_gone_witness:
  "\<exists>ob :: outbox. row_load (ob_acks ob) ''M'' = Some (''c'', True) \<and> ob_queue ob = [(''M'', ''j'', 9)] \<and>
    ob_events (ack_arrives (Node ''ack'' (attr [(''id'', ''M''), (''error'', ''479'')]) CNone) ob) =
      [MessageDelivered ''M'' ''c'']"
proof -
  let ?ob = "toy_outbox\<lparr>ob_acks := [(''M'', ''c'', True)], ob_queue := [(''M'', ''j'', 9)]\<rparr>"
  let ?n = "Node ''ack'' (attr [(''id'', ''M''), (''error'', ''479'')]) CNone"
  have n: "tag ?n = ''ack''" "get_attr ?n ''id'' = Some ''M''" "get_attr ?n ''error'' = Some ''479''" by simp_all
  have w: "row_load (ob_acks ?ob) ''M'' = Some (''c'', True)" by (simp add: row_load_def)
  have "queue_wf (se_of_json toy_send) (ob_queue ?ob)" by (simp add: queue_wf_def toy_send_json toy_op_persisted)
  from rejected_message_is_gone [OF n w this, of "\<lambda>_. True"] have "ob_events (ack_arrives ?n ?ob) = [MessageDelivered ''M'' ''c'']"
    by (simp add: toy_outbox_def)
  with w show ?thesis by (intro exI [of _ ?ob] conjI) simp_all
qed

lemma encrypt_devices_established:
  assumes "sends_from (se_c env) v d ck (ss_whisper st)"
  shows "\<exists>r st'. encrypt_devices env [d] m m own st = (Ok [r], st') \<and> er_jid r = d"
proof -
  obtain w where "encrypt_per_device (se_c env) (se_pb env) (se_keys env)
      (\<lambda>ds. map_option parse_prekey_fetch_response (se_ask env (ss_n st) (build_prekey_fetch_iq ds (se_iq_id env (ss_n st)))))
      (se_gens env (ss_n st)) (se_fresh env (ss_n st)) [d] m m own (ss_whisper st) =
    (Ok [\<lparr>er_jid = d, er_ciphertext = whisper_wire (se_c env) (se_pb env) v ck m, er_message_type = Whisper\<rparr>], w)"
    using send_established [OF assms] by blast
  then show ?thesis by (simp add: encrypt_devices_def)
qed

lemma toy_sends_from:
  "\<exists>ck. sends_from toy_signal (view_of toy_session) ''55@s.whatsapp.net'' ck (ss_whisper toy_send_state)"
proof -
  have "plain_user ''55''" "device_token None" by (simp_all add: plain_user_def device_token_def)
  from canonical_pn [OF this, of "ss_whisper toy_send_state"]
  have c: "canonical_session_address (ss_whisper toy_send_state) ''55@s.whatsapp.net'' = ''64.1@lid''"
    by (simp add: toy_pn_to_lid pn_form_def lid_form_def PN_SERVER_def LID_SERVER_def toy_send_state_def)
  obtain k where "sender_chain toy_session = Some (new_chain k 0)"
    using x3dh_agreement [OF toy_matches(1)] by (auto simp: toy_session_def)
  moreover have "pending_pre_key_of toy_session = None" "sender_ratchet_pub toy_session = Some (v_ratchet_pub (view_of toy_session))"
    by (simp_all add: toy_session_def initiate_alice_def Let_def split_beta view_of_def)
  ultimately show ?thesis using toy_matches(2) c
    by (intro exI [of _ "new_chain k 0"])
       (auto simp: sends_from_def has_current_def store_load_record_def row_load_def toy_send_state_def toy_store_def
          toy_session_def view_of_def toy_signal_sound toy_codec_rt split: if_splits)
qed

theorem participants_distinct_witness:
  "\<exists>(n :: node) ev st'. prepare_contact toy_send ''55@s.whatsapp.net'' ''M'' [7] 5 toy_send_state = (Ok (n, ev), st') \<and>
    participants_of n = [Some ''55@s.whatsapp.net''] \<and> Some ''55:3@s.whatsapp.net'' \<notin> set (participants_of n)"
proof -
  let ?d = "''55@s.whatsapp.net''"
  let ?st = "toy_send_state\<lparr>ss_retry := record_recent_send ''M'' ?d [7] (ss_retry toy_send_state)\<rparr>"
  have a: "address_contact toy_send ?d toy_send_state = ((?d, ?d, False), toy_send_state)"
    by (simp add: address_contact_def toy_send_def ends_with_def suffix_to_prefix)
  have d: "contact_devices toy_send ?d False ?st = ([?d], ?st\<lparr>ss_n := 1\<rparr>)"
    by (simp add: contact_devices_def resolve_device_jids_def toy_send_def toy_send_state_def device_cache_get_def row_load_def
        jid_user_def)
  obtain ck where "sends_from (se_c toy_send) (view_of toy_session) ?d ck (ss_whisper (?st\<lparr>ss_n := 1\<rparr>))"
    using toy_sends_from by (auto simp: toy_send_def)
  from encrypt_devices_established [OF this] obtain st' r where
    e: "encrypt_devices toy_send [?d] (pad_message 1 [7]) (pad_message 1 [7]) (own_pn_user toy_send) (?st\<lparr>ss_n := 1\<rparr>) = (Ok [r], st')"
      "er_jid r = ?d" by blast
  have "se_pad toy_send 0 = 1" "se_wrap toy_send [7] ?d = None" by (simp_all add: toy_send_def)
  then have "\<exists>n ev. prepare_contact toy_send ?d ''M'' [7] 5 toy_send_state = (Ok (n, ev), st') \<and> participants_of n = [Some ?d]"
    using e by (simp add: prepare_contact_def a d Let_def contact_node_participants dedup_recipients_def)
  then obtain n ev where p: "prepare_contact toy_send ?d ''M'' [7] 5 toy_send_state = (Ok (n, ev), st')"
    "participants_of n = [Some ?d]" by blast
  have "\<not> se_modern toy_send" "se_own_jid toy_send = Some ''55:3@s.whatsapp.net''" by (simp_all add: toy_send_def)
  with participants_distinct [OF p(1)] p show ?thesis by blast
qed

end
