(* ===== verification/Spec2Isabelle.thy ===== *)
theory Spec2Isabelle
  imports Connection Proxy Message_Flow Range_Roundtrip Mlow_Packet Media_Transport Call_Stun Call_Offer Egress_Delivery
    App_Sync Driver_Safety Leases Pairing_Checks Retry_Recovery Outbound_Delivery
begin

text \<open>
  A verification of the protocol core of ruwa, a server that drives WhatsApp multi-device sessions
  (\<open>src/src\<close>). A session opens a socket to the server, proves itself in a Noise handshake, exchanges
  binary nodes over it, pairs by QR code or phone code, keeps Signal sessions with every device it talks to,
  sends and receives messages, follows the account's app state, carries calls, and passes events on to
  webhooks and Redis. The theories follow these layers from the wire up; each definition carries the name
  of the function it translates, suffixed where a name is taken.

  \<^bold>\<open>The wire\<close> (\<open>protocol.rs\<close>, \<open>protocol/tokens.rs\<close>). \<open>Token_Tables\<close> holds the dictionaries entry by entry,
  \<open>Wire_Reader\<close> the readers of the decoder, \<open>Node_Codec\<close> module \<open>binary\<close>, \<open>Frame\<close> module \<open>frame\<close>, \<open>Noise\<close> module
  \<open>noise\<close>, \<open>Connection\<close> module \<open>connection\<close> with \<open>NoiseSocket\<close>, \<open>do_handshake\<close> and the certificate check,
  \<open>Proxy\<close> the proxy URLs. \<open>Node_Roundtrip\<close> shows that decoding inverts encoding and is total,
  \<open>Connection\<close> that an honest responder agrees on the keys, that the client's identity goes only to a
  verified server and that nodes arrive in order however the stream is cut.

  \<^bold>\<open>Encryption of messages\<close> (\<open>crypto.rs\<close>, \<open>session.rs\<close>, \<open>store.rs\<close>). \<open>Key_Chain\<close>, \<open>Signal_Session\<close> and
  \<open>Sender_Key\<close> translate modules \<open>signal\<close> and \<open>senderkey\<close>; \<open>Rows\<close> and \<open>Whisper_Store\<close> the tables they live in;
  \<open>Device_Address\<close> the canonical address of a device under phone number and LID; \<open>Message_Envelope\<close>
  \<open>encrypt_per_device\<close>, \<open>decrypt_signal_envelope\<close> and \<open>decrypt_group_message\<close>. \<open>Signal_Delivery\<close> and
  \<open>Message_Flow\<close> compose the two sides: from store to store, messages are read in any order, each once.

  \<^bold>\<open>The life of a session\<close> (\<open>session.rs\<close>, \<open>store.rs\<close>). \<open>Session_Driver\<close> is \<open>run_with_reconnect\<close>,
  \<open>run_connection\<close> with its select loop and cleanup, \<open>connect\<close>, \<open>reconnect\<close>, \<open>logout\<close> and the timers, as a
  function of a record \<open>driver\<close> for each event; \<open>Driver_Safety\<close> is the step relation over these functions
  and what holds in all of its runs. \<open>Leases\<close> is the arbitration of sessions between instances.
  \<open>Device_Keys\<close>, \<open>Linking\<close> and \<open>Pairing\<close> are the pairing by code and by QR, with
  \<open>Linking_Agreement\<close> and \<open>Pairing_Checks\<close> for what they guarantee. \<open>Prekeys\<close> and \<open>Prekey_Supply\<close> hold the
  one-time prekeys, \<open>Retry\<close> and \<open>Retry_Recovery\<close> the retry receipts of both directions, \<open>Message_Rows\<close> the table
  of messages.

  \<^bold>\<open>Outgoing messages\<close> (\<open>session.rs\<close>). \<open>Send_Stanza\<close> builds the stanzas and resolves devices and group
  members; \<open>Outbound\<close> is \<open>encrypt_inner_proto_and_ship\<close> and \<open>send_group_message\<close> up to the shipping;
  \<open>Outbound_Queue\<close> the persisted queue, the channel, the pump and the acks, with one function for each thing
  that can happen; \<open>Outbound_Delivery\<close> shows that what was accepted is not lost over dropped connections and
  restarts.

  \<^bold>\<open>App state, media, calls, egress\<close> (\<open>session.rs\<close>, \<open>media.rs\<close>, \<open>call.rs\<close>, \<open>call/mlow\<close>, \<open>egress.rs\<close>).
  \<open>App_State\<close> and \<open>App_Sync\<close>: LTHash, patches, snapshots, the sync phase. \<open>Media_Blob\<close>: the cipher of media.
  \<open>Node_Build\<close>, \<open>Call_Signal\<close>, \<open>Call_Offer\<close>, \<open>Call_Stun\<close>: signaling and the relay protocol. \<open>Call_Media\<close> and
  \<open>Media_Transport\<close>: SRTP. \<open>Range_Coder\<close>, \<open>Range_Roundtrip\<close>, \<open>Mlow_Packet\<close>: the entropy coder and packet format
  of the speech codec. \<open>Resp\<close>, \<open>Resp_Delivery\<close>, \<open>Json\<close>, \<open>Egress\<close>, \<open>Egress_Delivery\<close>: events to Redis and
  webhooks, and the event log.

  \<^bold>\<open>Representation.\<close> Structs are records, enums datatypes, integers words of their width where they can
  wrap; a value in seconds or milliseconds that the code keeps in range is an \<open>int\<close>. A result that may fail
  is an \<open>outcome\<close> with \<open>Ok\<close>, \<open>Err\<close> and \<open>Panic\<close>, so that an index out of range or an overflow that stops the
  program is a value. State is passed explicitly. Rust strings are lists of UTF-8 code units. A table of
  \<open>store.rs\<close> is the list of its rows by primary key (\<open>Rows\<close>); statements answer, and both backends run the
  same ones. Bytes from a peer are any bytes, nodes from the server any nodes.

  \<^bold>\<open>Parameters.\<close> What the program only calls is an argument, a record of functions: SHA-256, HMAC, HKDF,
  AES, X25519, XEdDSA (\<open>crypto\<close>, \<open>signal_crypto\<close>, \<open>link_crypto\<close>), the generated protobuf codecs, JSON and URL
  parsing, zlib, the random draws, the clock, and what the server answers to a request. Hypotheses about them
  are stated as such in the theorems (\<open>signal_sound\<close>: decoders read what encoders wrote, both sides of a
  Diffie-Hellman exchange agree, a signature verifies), and each such theorem has a witness
  with functions that meet them. Nothing is said of secrecy beyond which keys are used for what.

  \<^bold>\<open>Interfaces.\<close> Each is a locale that is interpreted on the code's own definitions: \<open>keyed_table\<close> (rows
  under a key), \<open>value_reader\<close> (readers that consume a prefix), \<open>stream_coder\<close> (the range coder against exact
  intervals), \<open>chunked\<close> and \<open>framed\<close> (a byte stream cut anywhere), \<open>channel\<close> and \<open>mailbox\<close> (delivery
  in order, delivery in any order once), \<open>accumulator\<close> (LTHash).

  \<^bold>\<open>Bounds and fuel.\<close> The node decoder has fuel one more than the input's length and each level reads a byte;
  draining a frame buffer has fuel its length; a RESP value nests no deeper than its length plus one. The caches
  of skipped keys reach 2,001 messages of a chain. \<open>3n + 2\<close> bytes hold \<open>n\<close> range-coded symbols. A packet index
  has 48 bits and survives reordering below half a rollover, 32,768. Backoff runs from 1 to 60 seconds. A
  session remembers 256 sent messages, resends one to a device nine times, asks for one four times, uploads 50
  keys at once under three-byte ids, and registers six times for a phone code. The event log keeps 5,000
  rows of a session and prunes every 256.

  \<^bold>\<open>Schedules.\<close> Where tasks run side by side, a step list or relation lets any of them move next: driver
  against API calls and timers (a \<open>notify_waiters\<close> wakes only who waits at that moment), instances
  against each other over leases with one clock, send pump against connection losses, acks and restarts.

  \<^bold>\<open>Where the code falls short\<close> of what it means to do, the behaviour is a theorem: a replay without one-time
  prekey is accepted, a held snapshot is not fetched again before
  a resync is asked for, a send by LID leaves a second session of the device in place, a refused session is marked connected by a timer, a
  message accepted offline is queued twice, a rejected message counts as delivered; and, as lemmas, that a
  logout is missed by a dialing driver, a resend goes to the group instead of its member, a retry key
  is offered again, a huge array header ends a delivery task.

  \<^bold>\<open>Not modelled.\<close> The classification of decrypted protobufs and history sync; group, profile and
  business requests (stanzas without state); the HTTP API, but for what it asks of the parts above, and the Cloud API (JSON in
  and out of a framework or service); the remaining tables, migrations and pools of \<open>store.rs\<close> (SQL text); upload and download;
  the text assistant; sockets, DTLS and SCTP; the signal processing of the speech codec, which computes in
  floating point; command line and logging; the dashboard, MCP server and monitor, which are not Rust.
\<close>

end
